(* ===== verification/Prelude.thy ===== *)
theory Prelude
  imports Main "HOL-Library.Word" "HOL-Library.Char_ord" "HOL-Library.List_Lexorder"
    "HOL-Library.Multiset"
begin

text \<open>
  What every component shares.

  \<^item> The ways a C++ call of the repository can end without a value (\<open>cpp_error\<close>): the exceptions
    the sources throw, and undefined behaviour, which the model makes an outcome of its own.
  \<^item> Programs: a program takes a state and returns an outcome (\<open>Inl\<close> an error, \<open>Inr\<close> a value)
    together with the state it leaves. The state is kept on both outcomes, because a C++
    exception does not undo the writes made before it.
  \<^item> The conversions between \<open>int\<close>, \<open>unsigned\<close> and \<open>size_t\<close>, and \<open>std::to_string\<close> / \<open>std::stoi\<close>.
  \<^item> Generic lemmas and the collections \<open>run_simps\<close> (how programs execute) and \<open>keeps_intros\<close>
    (how programs keep an invariant).
\<close>

section \<open>Outcomes\<close>

datatype cpp_error =
    BadVariableArg string            \<comment> \<open>\<open>BadVariableArgException(msg)\<close>\<close>
  | OutOfRange "string option"       \<comment> \<open>\<open>std::out_of_range\<close>, with the text when the source gives one\<close>
  | InvalidArgument                  \<comment> \<open>\<open>std::invalid_argument\<close>\<close>
  | BadVariantAccess                 \<comment> \<open>\<open>std::bad_variant_access\<close>\<close>
  | RuntimeError string              \<comment> \<open>\<open>std::runtime_error(msg)\<close>\<close>
  | ThrownText string                \<comment> \<open>\<open>throw "text"\<close>\<close>
  | GameOver                         \<comment> \<open>\<open>GameOverException\<close>\<close>
  | QueueClosed                      \<comment> \<open>\<open>QueueClosedError\<close>\<close>
  | JsonException nat string         \<comment> \<open>\<open>nlohmann::detail::exception\<close>: its id and text\<close>
  | AssertFailed                     \<comment> \<open>\<open>assert\<close> ends the program\<close>
  | UB                               \<comment> \<open>undefined behaviour: null or dangling access, invalid iterator, signed overflow\<close>
  | OutOfFuel                        \<comment> \<open>the bound of the model was reached, the code would still run\<close>

text \<open>\<open>catch (std::exception& e)\<close>: undefined behaviour and a thrown text are no \<open>std::exception\<close>.\<close>

definition isException :: "cpp_error \<Rightarrow> bool" where
  "isException x \<longleftrightarrow> (case x of UB \<Rightarrow> False | AssertFailed \<Rightarrow> False | OutOfFuel \<Rightarrow> False | ThrownText _ \<Rightarrow> False | _ \<Rightarrow> True)"

type_synonym ('s, 'a) prog = "'s \<Rightarrow> (cpp_error + 'a) \<times> 's"

named_theorems run_simps "how programs execute"
named_theorems keeps_intros "programs that keep an invariant"

definition ok :: "'a \<Rightarrow> ('s, 'a) prog" where
  "ok x = (\<lambda>s. (Inr x, s))"

definition raise :: "cpp_error \<Rightarrow> ('s, 'a) prog" where
  "raise e = (\<lambda>s. (Inl e, s))"

definition andThen :: "('s, 'a) prog \<Rightarrow> ('a \<Rightarrow> ('s, 'b) prog) \<Rightarrow> ('s, 'b) prog" where
  "andThen m f = (\<lambda>s. case m s of (Inl e, t) \<Rightarrow> (Inl e, t) | (Inr x, t) \<Rightarrow> f x t)"

definition getState :: "('s, 's) prog" where
  "getState = (\<lambda>s. (Inr s, s))"

definition modify :: "('s \<Rightarrow> 's) \<Rightarrow> ('s, unit) prog" where
  "modify f = (\<lambda>s. (Inr (), f s))"

definition fromOption :: "cpp_error \<Rightarrow> 'a option \<Rightarrow> ('s, 'a) prog" where
  "fromOption e x = (case x of None \<Rightarrow> raise e | Some v \<Rightarrow> ok v)"

definition fromSum :: "cpp_error + 'a \<Rightarrow> ('s, 'a) prog" where
  "fromSum x = (case x of Inl e \<Rightarrow> raise e | Inr v \<Rightarrow> ok v)"

text \<open>\<open>std::for_each\<close> and the range \<open>for\<close>: the body runs on each item, an exception ends the loop.\<close>

primrec forEach :: "'a list \<Rightarrow> ('a \<Rightarrow> ('s, unit) prog) \<Rightarrow> ('s, unit) prog" where
  "forEach [] f = ok ()"
| "forEach (x # xs) f = andThen (f x) (\<lambda>_. forEach xs f)"

text \<open>A loop that collects one result per item.\<close>

primrec mapProg :: "('a \<Rightarrow> ('s, 'b) prog) \<Rightarrow> 'a list \<Rightarrow> ('s, 'b list) prog" where
  "mapProg f [] = ok []"
| "mapProg f (x # xs) = andThen (f x) (\<lambda>y. andThen (mapProg f xs) (\<lambda>ys. ok (y # ys)))"

text \<open>A program on a part of the state, run on the whole state.\<close>

definition zoom :: "('t \<Rightarrow> 's) \<Rightarrow> ('s \<Rightarrow> 't \<Rightarrow> 't) \<Rightarrow> ('s, 'a) prog \<Rightarrow> ('t, 'a) prog" where
  "zoom g p m = (\<lambda>t. case m (g t) of (r, s) \<Rightarrow> (r, p s t))"

lemma ok_run [run_simps]: "ok x s = (Inr x, s)"
  by (simp add: ok_def)

lemma raise_run [run_simps]: "raise e s = (Inl e, s)"
  by (simp add: raise_def)

lemma getState_run [run_simps]: "getState s = (Inr s, s)"
  by (simp add: getState_def)

lemma modify_run [run_simps]: "modify f s = (Inr (), f s)"
  by (simp add: modify_def)

lemma andThen_ok [run_simps]: "m s = (Inr x, t) \<Longrightarrow> andThen m f s = f x t"
  by (simp add: andThen_def)

lemma andThen_error [run_simps]: "m s = (Inl e, t) \<Longrightarrow> andThen m f s = (Inl e, t)"
  by (simp add: andThen_def)

lemma andThen_raise [run_simps]: "andThen (raise e) f = raise e"
  by (simp add: andThen_def raise_def)

lemma andThen_okI [run_simps]: "andThen (ok x) f = f x"
  by (simp add: andThen_def ok_def)

lemma andThen_assoc: "andThen (andThen m f) g = andThen m (\<lambda>x. andThen (f x) g)"
  by (rule ext) (simp add: andThen_def split: prod.splits sum.splits)

lemma fromOption_simps [run_simps]:
  "fromOption e None = raise e" "fromOption e (Some v) = ok v"
  by (simp_all add: fromOption_def)

lemma fromSum_simps [run_simps]: "fromSum (Inl e) = raise e" "fromSum (Inr v) = ok v"
  by (simp_all add: fromSum_def)

lemma zoom_run [run_simps]: "m (g t) = (r, s) \<Longrightarrow> zoom g p m t = (r, p s t)"
  by (simp add: zoom_def)

lemma andThen_InrE:
  assumes "andThen m f s = (Inr y, u)"
  obtains x t where "m s = (Inr x, t)" "f x t = (Inr y, u)"
  using assms by (auto simp: andThen_def split: prod.splits sum.splits)

section \<open>Invariants of programs\<close>

text \<open>
  \<open>keeps I m\<close>: from a state that satisfies \<open>I\<close>, the program leaves a state that satisfies \<open>I\<close>,
  whether it returns or throws.
\<close>

definition keeps :: "('s \<Rightarrow> bool) \<Rightarrow> ('s, 'a) prog \<Rightarrow> bool" where
  "keeps I m \<longleftrightarrow> (\<forall>s. I s \<longrightarrow> I (snd (m s)))"

lemma keepsI: "(\<And>s r t. I s \<Longrightarrow> m s = (r, t) \<Longrightarrow> I t) \<Longrightarrow> keeps I m"
  by (metis keeps_def prod.collapse)

lemma keepsD: "keeps I m \<Longrightarrow> I s \<Longrightarrow> m s = (r, t) \<Longrightarrow> I t"
  by (metis keeps_def snd_conv)

lemma keeps_ok [keeps_intros]: "keeps I (ok x)"
  by (simp add: keeps_def ok_def)

lemma keeps_raise [keeps_intros]: "keeps I (raise e)"
  by (simp add: keeps_def raise_def)

lemma keeps_getState [keeps_intros]: "keeps I getState"
  by (simp add: keeps_def getState_def)

lemma keeps_modify: "(\<And>s. I s \<Longrightarrow> I (f s)) \<Longrightarrow> keeps I (modify f)"
  by (simp add: keeps_def modify_def)

lemma keeps_andThen [keeps_intros]:
  "keeps I m \<Longrightarrow> (\<And>x. keeps I (f x)) \<Longrightarrow> keeps I (andThen m f)"
  by (auto simp: keeps_def andThen_def split: prod.splits sum.splits; metis snd_conv)

lemma keeps_fromOption [keeps_intros]: "keeps I (fromOption e x)"
  by (simp add: fromOption_def keeps_intros split: option.splits)

lemma keeps_fromSum [keeps_intros]: "keeps I (fromSum x)"
  by (simp add: fromSum_def keeps_intros split: sum.splits)

lemma keeps_forEach [keeps_intros]: "(\<And>x. keeps I (f x)) \<Longrightarrow> keeps I (forEach xs f)"
  by (induction xs) (auto intro: keeps_intros)

lemma keeps_mapProg [keeps_intros]: "(\<And>x. keeps I (f x)) \<Longrightarrow> keeps I (mapProg f xs)"
  by (induction xs) (auto intro!: keeps_intros)

lemma keeps_if [keeps_intros]: "keeps I a \<Longrightarrow> keeps I b \<Longrightarrow> keeps I (if c then a else b)"
  by simp

text \<open>A program that reads the state and leaves it as it was.\<close>

definition readOnly :: "('s, 'a) prog \<Rightarrow> bool" where
  "readOnly m \<longleftrightarrow> (\<forall>s. snd (m s) = s)"

lemma readOnlyD: "readOnly m \<Longrightarrow> m s = (r, t) \<Longrightarrow> t = s"
  by (metis readOnly_def snd_conv)

lemma readOnly_ok [keeps_intros]: "readOnly (ok x)"
  by (simp add: readOnly_def ok_def)

lemma readOnly_raise [keeps_intros]: "readOnly (raise e)"
  by (simp add: readOnly_def raise_def)

lemma readOnly_getState [keeps_intros]: "readOnly getState"
  by (simp add: readOnly_def getState_def)

lemma readOnly_fromOption [keeps_intros]: "readOnly (fromOption e x)"
  by (simp add: fromOption_def keeps_intros split: option.splits)

lemma readOnly_fromSum [keeps_intros]: "readOnly (fromSum x)"
  by (simp add: fromSum_def keeps_intros split: sum.splits)

lemma readOnly_andThen [keeps_intros]:
  "readOnly m \<Longrightarrow> (\<And>x. readOnly (f x)) \<Longrightarrow> readOnly (andThen m f)"
  by (auto simp: readOnly_def andThen_def split: prod.splits sum.splits; metis snd_conv)

lemma readOnly_if [keeps_intros]: "readOnly a \<Longrightarrow> readOnly b \<Longrightarrow> readOnly (if c then a else b)"
  by simp

lemma readOnly_forEach [keeps_intros]: "(\<And>x. readOnly (f x)) \<Longrightarrow> readOnly (forEach xs f)"
  by (induction xs) (auto intro: keeps_intros)

lemma readOnly_mapProg [keeps_intros]: "(\<And>x. readOnly (f x)) \<Longrightarrow> readOnly (mapProg f xs)"
  by (induction xs) (auto intro!: keeps_intros)

lemma readOnly_keeps: "readOnly m \<Longrightarrow> keeps I m"
  by (simp add: readOnly_def keeps_def)

section \<open>Machine integers\<close>

text \<open>
  An \<open>int\<close> of the code is a HOL \<open>int\<close> in the 32-bit range; a conversion is the reading of a
  word of the target's width, as C++20 defines it (modulo a power of two).
\<close>

definition toInt :: "int \<Rightarrow> int" where
  "toInt x = sint (word_of_int x :: 32 word)"

definition toUnsigned :: "int \<Rightarrow> int" where
  "toUnsigned x = uint (word_of_int x :: 32 word)"

definition toSize :: "int \<Rightarrow> int" where
  "toSize x = uint (word_of_int x :: 64 word)"

definition INT_MAX :: int where "INT_MAX = 2147483647"
definition INT_MIN :: int where "INT_MIN = -2147483648"

definition isInt :: "int \<Rightarrow> bool" where
  "isInt x \<longleftrightarrow> INT_MIN \<le> x \<and> x \<le> INT_MAX"

lemma toInt_id: "isInt x \<Longrightarrow> toInt x = x"
  by (simp add: toInt_def isInt_def INT_MIN_def INT_MAX_def sint_sbintrunc' signed_take_bit_int_eq_self)

lemma isInt_toInt: "isInt (toInt x)"
proof -
  have "- (2 ^ 31) \<le> signed_take_bit 31 x" "signed_take_bit 31 x < 2 ^ 31"
    by (rule signed_take_bit_int_greater_eq_minus_exp) (rule signed_take_bit_int_less_exp)
  then show ?thesis
    by (simp add: toInt_def sint_sbintrunc' isInt_def INT_MIN_def INT_MAX_def)
qed

lemma toUnsigned_id: "0 \<le> x \<Longrightarrow> x < 4294967296 \<Longrightarrow> toUnsigned x = x"
  by (simp add: toUnsigned_def uint_word_of_int)

lemma toUnsigned_neg: "- 4294967296 \<le> x \<Longrightarrow> x < 0 \<Longrightarrow> toUnsigned x = x + 4294967296"
proof -
  assume x: "- 4294967296 \<le> x" "x < 0"
  have "x mod 4294967296 = (x + 4294967296) mod 4294967296" by simp
  also have "\<dots> = x + 4294967296" using x by (intro mod_pos_pos_trivial) auto
  finally show ?thesis by (simp add: toUnsigned_def uint_word_of_int)
qed

lemma toSize_id: "0 \<le> x \<Longrightarrow> x < 18446744073709551616 \<Longrightarrow> toSize x = x"
  by (simp add: toSize_def uint_word_of_int)

lemma toSize_neg: "- 18446744073709551616 \<le> x \<Longrightarrow> x < 0 \<Longrightarrow> toSize x = x + 18446744073709551616"
proof -
  assume x: "- 18446744073709551616 \<le> x" "x < 0"
  have "x mod 18446744073709551616 = (x + 18446744073709551616) mod 18446744073709551616" by simp
  also have "\<dots> = x + 18446744073709551616" using x by (intro mod_pos_pos_trivial) auto
  finally show ?thesis by (simp add: toSize_def uint_word_of_int)
qed

lemma toSize_nonneg: "0 \<le> toSize x"
  by (simp add: toSize_def)

end
