(* ===== verification/StdMap.thy ===== *)
theory StdMap
  imports Prelude
begin

text \<open>
  The associative containers of the standard library that the sources use.

  \<^item> \<open>std::map\<close> is iterated in key order by the sources (timers, messages, printing), so it is an
    association list sorted by key (\<open>smap\<close>); \<open>find\<close> is \<open>map_of\<close>, \<open>m[k] = v\<close> is \<open>mapPut\<close>, \<open>erase\<close> is
    \<open>mapErase\<close>.
  \<^item> \<open>std::unordered_map\<close> is never iterated by the sources, so it is a partial function (\<open>umap\<close>).

  The locale \<open>assoc_map\<close> is the contract both keep, and \<open>assoc_emplace\<close> extends it by \<open>emplace\<close>,
  which does not overwrite. The components use the containers through the facts of the two
  interpretations \<open>std_map\<close> and \<open>std_umap\<close>.
\<close>

section \<open>The contract\<close>

locale assoc_map =
  fixes lookup :: "'m \<Rightarrow> 'k \<Rightarrow> 'v option"
    and put :: "'k \<Rightarrow> 'v \<Rightarrow> 'm \<Rightarrow> 'm"
    and del :: "'k \<Rightarrow> 'm \<Rightarrow> 'm"
    and emp :: "'m"
    and inv :: "'m \<Rightarrow> bool"
  assumes lookup_emp: "lookup emp k = None"
    and lookup_put: "inv m \<Longrightarrow> lookup (put k v m) j = (if j = k then Some v else lookup m j)"
    and lookup_del: "inv m \<Longrightarrow> lookup (del k m) j = (if j = k then None else lookup m j)"
    and inv_emp: "inv emp"
    and inv_put: "inv m \<Longrightarrow> inv (put k v m)"
    and inv_del: "inv m \<Longrightarrow> inv (del k m)"
begin

lemma lookup_put_same: "inv m \<Longrightarrow> lookup (put k v m) k = Some v"
  by (simp add: lookup_put)

lemma lookup_put_other: "inv m \<Longrightarrow> j \<noteq> k \<Longrightarrow> lookup (put k v m) j = lookup m j"
  by (simp add: lookup_put)

lemma inv_puts: "inv m \<Longrightarrow> inv (fold (\<lambda>(k, v). put k v) kvs m)"
  by (induction kvs arbitrary: m) (auto simp: inv_put)

text \<open>A sequence of assignments: the last one to a key wins, the other keys are as before.\<close>

lemma lookup_puts:
  "inv m \<Longrightarrow> lookup (fold (\<lambda>(k, v). put k v) kvs m) j =
     (case map_of (rev kvs) j of None \<Rightarrow> lookup m j | Some v \<Rightarrow> Some v)"
proof (induction kvs arbitrary: m)
  case (Cons kv kvs)
  then show ?case
    by (cases kv) (auto simp: lookup_put inv_put map_add_def split: option.splits)
qed simp

lemma lookup_puts_fresh:
  "inv m \<Longrightarrow> j \<notin> fst ` set kvs \<Longrightarrow> lookup (fold (\<lambda>(k, v). put k v) kvs m) j = lookup m j"
  by (simp add: lookup_puts map_of_eq_None_iff [THEN iffD2])

lemma lookup_puts_distinct:
  assumes "inv m" "distinct (map fst kvs)" "(k, v) \<in> set kvs"
  shows "lookup (fold (\<lambda>(k, v). put k v) kvs m) k = Some v"
proof -
  have "map_of (rev kvs) k = Some v"
    using assms(2,3) by (intro map_of_is_SomeI) (auto simp: rev_map [symmetric])
  with assms(1) show ?thesis by (simp add: lookup_puts)
qed

end

locale assoc_emplace = assoc_map lookup put del emp inv
  for lookup :: "'m \<Rightarrow> 'k \<Rightarrow> 'v option"
    and put :: "'k \<Rightarrow> 'v \<Rightarrow> 'm \<Rightarrow> 'm"
    and del :: "'k \<Rightarrow> 'm \<Rightarrow> 'm"
    and emp :: "'m"
    and inv :: "'m \<Rightarrow> bool" +
  fixes emplace :: "'k \<Rightarrow> 'v \<Rightarrow> 'm \<Rightarrow> 'm"
  assumes emplace_eq: "emplace k v m = (if lookup m k = None then put k v m else m)"
begin

lemma inv_emplace: "inv m \<Longrightarrow> inv (emplace k v m)"
  by (simp add: emplace_eq inv_put)

lemma lookup_emplace_absent: "inv m \<Longrightarrow> lookup m k = None \<Longrightarrow> lookup (emplace k v m) k = Some v"
  by (simp add: emplace_eq lookup_put)

lemma lookup_emplace_present: "lookup m k = Some w \<Longrightarrow> emplace k v m = m"
  by (simp add: emplace_eq)

lemma lookup_emplace_other: "inv m \<Longrightarrow> j \<noteq> k \<Longrightarrow> lookup (emplace k v m) j = lookup m j"
  by (simp add: emplace_eq lookup_put)

end

section \<open>\<open>std::map\<close>\<close>

type_synonym ('k, 'v) smap = "('k \<times> 'v) list"

fun mapPut :: "'k::linorder \<Rightarrow> 'v \<Rightarrow> ('k, 'v) smap \<Rightarrow> ('k, 'v) smap" where
  "mapPut k v [] = [(k, v)]"
| "mapPut k v ((j, w) # m) =
     (if k < j then (k, v) # (j, w) # m
      else if k = j then (k, v) # m
      else (j, w) # mapPut k v m)"

fun mapErase :: "'k::linorder \<Rightarrow> ('k, 'v) smap \<Rightarrow> ('k, 'v) smap" where
  "mapErase k [] = []"
| "mapErase k ((j, w) # m) = (if k = j then m else (j, w) # mapErase k m)"

definition sortedMap :: "('k::linorder, 'v) smap \<Rightarrow> bool" where
  "sortedMap m \<longleftrightarrow> sorted_wrt (<) (map fst m)"

lemma set_keys_mapPut: "fst ` set (mapPut k v m) = insert k (fst ` set m)"
  by (induction k v m rule: mapPut.induct) auto

lemma set_keys_mapErase: "fst ` set (mapErase k m) \<subseteq> fst ` set m"
  by (induction k m rule: mapErase.induct) auto

lemma set_mapErase: "set (mapErase k m) \<subseteq> set m"
  by (induction k m rule: mapErase.induct) auto

lemma set_mapPut: "set (mapPut k v m) \<subseteq> insert (k, v) (set m)"
  by (induction k v m rule: mapPut.induct) auto

lemma sortedMap_Nil [simp]: "sortedMap []"
  by (simp add: sortedMap_def)

lemma sortedMap_Cons [simp]:
  "sortedMap ((k, v) # m) \<longleftrightarrow> (\<forall>j \<in> fst ` set m. k < j) \<and> sortedMap m"
  by (auto simp: sortedMap_def)

lemma sortedMap_mapPut: "sortedMap m \<Longrightarrow> sortedMap (mapPut k v m)"
  by (induction k v m rule: mapPut.induct) (auto simp: set_keys_mapPut simp del: set_map)

lemma sortedMap_mapErase: "sortedMap m \<Longrightarrow> sortedMap (mapErase k m)"
proof (induction k m rule: mapErase.induct)
  case (2 k j w m)
  then show ?case
    using set_mapErase [of k m] by (auto dest: subsetD)
qed simp

lemma sortedMap_filter: "sortedMap m \<Longrightarrow> sortedMap (filter P m)"
  by (simp add: sortedMap_def sorted_wrt_map sorted_wrt_filter)

lemma distinct_sortedMap: "sortedMap m \<Longrightarrow> distinct (map fst m)"
  by (simp add: sortedMap_def strict_sorted_iff)

lemma map_of_mapPut: "map_of (mapPut k v m) = (map_of m)(k \<mapsto> v)"
  by (induction k v m rule: mapPut.induct) auto

lemma map_of_mapErase:
  "sortedMap m \<Longrightarrow> map_of (mapErase k m) = (map_of m)(k := None)"
proof (induction k m rule: mapErase.induct)
  case (2 k j w m)
  show ?case
  proof (cases "k = j")
    case True
    with 2 have "map_of m j = None" by (auto simp: map_of_eq_None_iff)
    with True show ?thesis by (auto simp: fun_eq_iff)
  next
    case False
    with 2 show ?thesis by (auto simp: fun_eq_iff)
  qed
qed (simp add: fun_eq_iff)

interpretation std_map: assoc_map map_of mapPut mapErase "[]" sortedMap
  by unfold_locales
    (simp_all add: map_of_mapPut map_of_mapErase sortedMap_mapPut sortedMap_mapErase)

section \<open>\<open>std::unordered_map\<close>\<close>

type_synonym ('k, 'v) umap = "'k \<Rightarrow> 'v option"

definition umapPut :: "'k \<Rightarrow> 'v \<Rightarrow> ('k, 'v) umap \<Rightarrow> ('k, 'v) umap" where
  "umapPut k v m = m(k \<mapsto> v)"

definition umapErase :: "'k \<Rightarrow> ('k, 'v) umap \<Rightarrow> ('k, 'v) umap" where
  "umapErase k m = m(k := None)"

definition umapEmplace :: "'k \<Rightarrow> 'v \<Rightarrow> ('k, 'v) umap \<Rightarrow> ('k, 'v) umap" where
  "umapEmplace k v m = (case m k of None \<Rightarrow> m(k \<mapsto> v) | Some _ \<Rightarrow> m)"

interpretation std_umap: assoc_emplace "\<lambda>m. m" umapPut umapErase Map.empty "\<lambda>_. True" umapEmplace
  by unfold_locales
    (auto simp: umapPut_def umapErase_def umapEmplace_def split: option.splits)

end
