(* ===== verification/CppText.thy ===== *)
theory CppText
  imports Prelude
begin

text \<open>
  The text operations of the standard library that the sources call: \<open>std::to_string\<close> on \<open>int\<close>
  and \<open>size_t\<close>, \<open>std::stoi\<close>, and \<open>find\<close> / \<open>substr\<close> of \<open>std::string_view\<close>. The lemmas show that
  decimal printing is injective, never empty, made of digits only, and undone by \<open>stoi\<close>.
\<close>

section \<open>Decimal numbers\<close>

definition digitChar :: "nat \<Rightarrow> char" where
  "digitChar d = ''0123456789'' ! d"

definition isDigit :: "char \<Rightarrow> bool" where
  "isDigit c \<longleftrightarrow> c \<in> set ''0123456789''"

definition digitValue :: "char \<Rightarrow> nat" where
  "digitValue c = length (takeWhile (\<lambda>d. d \<noteq> c) ''0123456789'')"

fun showNat :: "nat \<Rightarrow> string" where
  "showNat n = (if n < 10 then [digitChar n] else showNat (n div 10) @ [digitChar (n mod 10)])"

declare showNat.simps [simp del]

definition toString :: "int \<Rightarrow> string" where
  "toString i = (if i < 0 then CHR ''-'' # showNat (nat (- i)) else showNat (nat i))"

definition readDigits :: "string \<Rightarrow> nat" where
  "readDigits cs = foldl (\<lambda>acc c. 10 * acc + digitValue c) 0 cs"

definition isSpace :: "char \<Rightarrow> bool" where
  "isSpace c \<longleftrightarrow> c = CHR '' '' \<or> c = CHR 0x09 \<or> c = CHR 0x0A \<or> c = CHR 0x0B \<or> c = CHR 0x0C \<or> c = CHR 0x0D"

text \<open>
  \<open>std::stoi(str)\<close> in base 10: white space, an optional sign, then the longest run of digits; no
  digit is \<open>invalid_argument\<close>, a value outside \<open>int\<close> is \<open>out_of_range\<close>, what follows is ignored.
\<close>

definition stoi :: "string \<Rightarrow> cpp_error + int" where
  "stoi str =
     (let s = dropWhile isSpace str;
          neg = (s \<noteq> [] \<and> hd s = CHR ''-'');
          body = (if s \<noteq> [] \<and> (hd s = CHR ''-'' \<or> hd s = CHR ''+'') then tl s else s);
          ds = takeWhile isDigit body;
          v = (if neg then - int (readDigits ds) else int (readDigits ds))
      in if ds = [] then Inl InvalidArgument
         else if isInt v then Inr v else Inl (OutOfRange None))"

lemma less_10_cases:
  assumes "(d::nat) < 10"
  shows "d = 0 \<or> d = 1 \<or> d = 2 \<or> d = 3 \<or> d = 4 \<or> d = 5 \<or> d = 6 \<or> d = 7 \<or> d = 8 \<or> d = 9"
  using assms by arith

lemma digitValue_digitChar [simp]: "d < 10 \<Longrightarrow> digitValue (digitChar d) = d"
  using less_10_cases [of d] by (auto simp: digitValue_def digitChar_def)

lemma isDigit_digitChar [simp]: "d < 10 \<Longrightarrow> isDigit (digitChar d)"
  using less_10_cases [of d] by (auto simp: isDigit_def digitChar_def)

lemma isDigit_not_sign: "isDigit c \<Longrightarrow> c \<noteq> CHR ''-'' \<and> c \<noteq> CHR ''+'' \<and> \<not> isSpace c \<and> c \<noteq> CHR '',''"
  by (auto simp: isDigit_def isSpace_def)

lemma showNat_digits: "list_all isDigit (showNat n)"
proof (induction n rule: showNat.induct)
  case (1 n)
  then show ?case
    by (cases "n < 10") (simp_all add: showNat.simps [of n])
qed

lemma showNat_not_Nil [simp]: "showNat n \<noteq> []"
  by (subst showNat.simps) simp

lemma readDigits_showNat [simp]: "readDigits (showNat n) = n"
proof (induction n rule: showNat.induct)
  case (1 n)
  then show ?case
    by (cases "n < 10") (simp_all add: showNat.simps [of n] readDigits_def)
qed

lemma showNat_inject [simp]: "showNat m = showNat n \<longleftrightarrow> m = n"
  by (metis readDigits_showNat)

lemma showNat_hd: "isDigit (hd (showNat n))"
  using showNat_digits [of n] showNat_not_Nil [of n] by (cases "showNat n") auto

lemma toString_not_Nil [simp]: "toString i \<noteq> []"
  by (simp add: toString_def)

lemma toString_no_comma: "CHR '','' \<notin> set (toString i)"
proof -
  have "CHR '','' \<notin> set (showNat n)" for n
    using showNat_digits [of n] isDigit_not_sign [of "CHR '',''"] by (auto simp: list_all_iff)
  then show ?thesis by (simp add: toString_def)
qed

lemma takeWhile_showNat: "takeWhile isDigit (showNat n) = showNat n"
  using showNat_digits [of n] by (simp add: list_all_iff)

lemma stoi_toString:
  assumes "isInt i"
  shows "stoi (toString i) = Inr i"
proof (cases "i < 0")
  case True
  have "\<not> isSpace (CHR ''-'')" by (simp add: isSpace_def)
  with True assms show ?thesis
    by (simp add: stoi_def toString_def takeWhile_showNat Let_def)
next
  case False
  have hd: "hd (showNat (nat i)) \<noteq> CHR ''-''" "hd (showNat (nat i)) \<noteq> CHR ''+''"
    "\<not> isSpace (hd (showNat (nat i)))"
    using isDigit_not_sign [OF showNat_hd [of "nat i"]] by auto
  then have "dropWhile isSpace (showNat (nat i)) = showNat (nat i)"
    by (cases "showNat (nat i)") auto
  with False assms hd show ?thesis
    by (simp add: stoi_def toString_def takeWhile_showNat Let_def)
qed

lemma toString_inject:
  assumes "isInt i" "isInt j"
  shows "toString i = toString j \<longleftrightarrow> i = j"
  using stoi_toString [OF assms(1)] stoi_toString [OF assms(2)] by (metis sum.inject(2))

lemma stoi_isInt: "stoi s = Inr i \<Longrightarrow> isInt i"
  by (auto simp: stoi_def Let_def split: if_splits)

lemma stoi_errors: "stoi s = Inl e \<Longrightarrow> e = InvalidArgument \<or> e = OutOfRange None"
  by (auto simp: stoi_def Let_def split: if_splits)

section \<open>Searching and cutting a \<open>string_view\<close>\<close>

definition npos :: int where "npos = 18446744073709551615"

definition findChar :: "string \<Rightarrow> char \<Rightarrow> int" where
  "findChar s c = (if c \<in> set s then int (length (takeWhile (\<lambda>d. d \<noteq> c) s)) else npos)"

text \<open>\<open>substr(pos, n)\<close>: \<open>out_of_range\<close> past the end, otherwise at most \<open>n\<close> characters; both are \<open>size_t\<close>.\<close>

definition substr :: "string \<Rightarrow> int \<Rightarrow> int \<Rightarrow> cpp_error + string" where
  "substr s pos n =
     (if int (length s) < pos then Inl (OutOfRange None)
      else Inr (take (nat n) (drop (nat pos) s)))"

lemma findChar_bound: "c \<in> set s \<Longrightarrow> 0 \<le> findChar s c \<and> findChar s c < int (length s)"
proof -
  assume c: "c \<in> set s"
  then have "length (takeWhile (\<lambda>d. d \<noteq> c) s) < length s"
    by (induction s) auto
  with c show ?thesis by (simp add: findChar_def)
qed

lemma substr_npos: "int (length s) < npos \<Longrightarrow> substr s npos n = Inl (OutOfRange None)"
  by (simp add: substr_def)

end
