(* ===== verification/Json.thy ===== *)
theory Json
  imports StdMap CppText
begin

unbundle bit_operations_syntax

text \<open>
  JSON values, errors and the serializer of \<open>lib/nlohmann/json.hpp\<close> (\<open>basic_json\<close>, \<open>detail::serializer\<close>), the
  part of the library that the messages between the processes go through.

  A value owns its parts, so it is a datatype; objects are \<open>std::map\<close>s, bytes are characters. Numbers are \<open>int\<close>
  within the range of their 64-bit type. Floating-point numbers are a type parameter \<open>'f\<close>: the conversions
  of the C library and the digits of a float are the parameter \<open>floats\<close>; \<open>Grisu\<close> has the digits of a \<open>double\<close>, and the
  assertions on the way to them.
\<close>

section \<open>Values and errors\<close>

datatype 'f json =
    JNull
  | JBool bool
  | JInteger int                                \<comment> \<open>\<open>number_integer\<close>, \<open>int64_t\<close>\<close>
  | JUnsigned int                               \<comment> \<open>\<open>number_unsigned\<close>, \<open>uint64_t\<close>\<close>
  | JFloat 'f
  | JString string
  | JBinary "nat list" "nat option"             \<comment> \<open>the bytes and the subtype\<close>
  | JArray "'f json list"
  | JObject "(string \<times> 'f json) list"
  | JDiscarded

record 'f floats =
  strtod :: "string \<Rightarrow> 'f"
  isFinite :: "'f \<Rightarrow> bool"
  floatText :: "'f \<Rightarrow> cpp_error + string"      \<comment> \<open>\<open>to_chars\<close> of a finite number\<close>
  floatToInt :: "'f \<Rightarrow> int option"              \<comment> \<open>\<open>static_cast<int>\<close>, undefined out of range\<close>

definition typeName :: "'f json \<Rightarrow> string" where
  "typeName j = (case j of JNull \<Rightarrow> ''null'' | JObject _ \<Rightarrow> ''object'' | JArray _ \<Rightarrow> ''array'' | JString _ \<Rightarrow> ''string''
     | JBool _ \<Rightarrow> ''boolean'' | JBinary _ _ \<Rightarrow> ''binary'' | JDiscarded \<Rightarrow> ''discarded'' | _ \<Rightarrow> ''number'')"

text \<open>The exceptions' texts; \<open>diagnostics\<close> is empty in this build.\<close>

definition exceptionName :: "string \<Rightarrow> nat \<Rightarrow> string" where
  "exceptionName ename i = ''[json.exception.'' @ ename @ ''.'' @ showNat i @ ''] ''"

definition typeError :: "nat \<Rightarrow> string \<Rightarrow> cpp_error" where
  "typeError i what_arg = JsonException i (exceptionName ''type_error'' i @ what_arg)"

definition outOfRange :: "nat \<Rightarrow> string \<Rightarrow> cpp_error" where
  "outOfRange i what_arg = JsonException i (exceptionName ''out_of_range'' i @ what_arg)"

text \<open>The position of the parser in its input (\<open>position_t\<close>).\<close>

record position =
  chars_read_total :: nat
  chars_read_current_line :: nat
  lines_read :: nat

definition parseError :: "nat \<Rightarrow> position \<Rightarrow> string \<Rightarrow> cpp_error" where
  "parseError i pos what_arg = JsonException i (exceptionName ''parse_error'' i @ ''parse error at line '' @
     showNat (lines_read pos + 1) @ '', column '' @ showNat (chars_read_current_line pos) @ '': '' @ what_arg)"

section \<open>The state of the serializer\<close>

datatype error_handler = Strict | Replace | Ignore

record serializer =
  o_text :: string                              \<comment> \<open>what has been written to \<open>o\<close>\<close>
  indent_string :: string

definition writeChars :: "string \<Rightarrow> (serializer, unit) prog" where
  "writeChars x = modify (\<lambda>s. s\<lparr>o_text := o_text s @ x\<rparr>)"

text \<open>\<open>write_characters(indent_string.c_str(), n)\<close> reads past the end of a text that is too short.\<close>

definition writeIndent :: "nat \<Rightarrow> (serializer, unit) prog" where
  "writeIndent n = andThen getState (\<lambda>s.
     if n \<le> length (indent_string s) then writeChars (take n (indent_string s)) else raise UB)"

definition growIndent :: "nat \<Rightarrow> (serializer, unit) prog" where
  "growIndent n = modify (\<lambda>s. if length (indent_string s) < n
     then s\<lparr>indent_string := indent_string s @ replicate (length (indent_string s)) CHR '' ''\<rparr> else s)"

section \<open>UTF-8\<close>

definition utf8d :: "nat list" where
  "utf8d =
    [0, 0, 0, 0, 0, 0, 0, 0, 0, 0, 0, 0, 0, 0, 0, 0, 0, 0, 0, 0, 0, 0, 0, 0, 0, 0, 0, 0, 0, 0, 0, 0,
     0, 0, 0, 0, 0, 0, 0, 0, 0, 0, 0, 0, 0, 0, 0, 0, 0, 0, 0, 0, 0, 0, 0, 0, 0, 0, 0, 0, 0, 0, 0, 0,
     0, 0, 0, 0, 0, 0, 0, 0, 0, 0, 0, 0, 0, 0, 0, 0, 0, 0, 0, 0, 0, 0, 0, 0, 0, 0, 0, 0, 0, 0, 0, 0,
     0, 0, 0, 0, 0, 0, 0, 0, 0, 0, 0, 0, 0, 0, 0, 0, 0, 0, 0, 0, 0, 0, 0, 0, 0, 0, 0, 0, 0, 0, 0, 0,
     1, 1, 1, 1, 1, 1, 1, 1, 1, 1, 1, 1, 1, 1, 1, 1, 9, 9, 9, 9, 9, 9, 9, 9, 9, 9, 9, 9, 9, 9, 9, 9,
     7, 7, 7, 7, 7, 7, 7, 7, 7, 7, 7, 7, 7, 7, 7, 7, 7, 7, 7, 7, 7, 7, 7, 7, 7, 7, 7, 7, 7, 7, 7, 7,
     8, 8, 2, 2, 2, 2, 2, 2, 2, 2, 2, 2, 2, 2, 2, 2, 2, 2, 2, 2, 2, 2, 2, 2, 2, 2, 2, 2, 2, 2, 2, 2,
     0xA, 0x3, 0x3, 0x3, 0x3, 0x3, 0x3, 0x3, 0x3, 0x3, 0x3, 0x3, 0x3, 0x4, 0x3, 0x3,
     0xB, 0x6, 0x6, 0x6, 0x5, 0x8, 0x8, 0x8, 0x8, 0x8, 0x8, 0x8, 0x8, 0x8, 0x8, 0x8,
     0x0, 0x1, 0x2, 0x3, 0x5, 0x8, 0x7, 0x1, 0x1, 0x1, 0x4, 0x6, 0x1, 0x1, 0x1, 0x1,
     1, 1, 1, 1, 1, 1, 1, 1, 1, 1, 1, 1, 1, 1, 1, 1, 1, 0, 1, 1, 1, 1, 1, 0, 1, 0, 1, 1, 1, 1, 1, 1,
     1, 2, 1, 1, 1, 1, 1, 2, 1, 2, 1, 1, 1, 1, 1, 1, 1, 1, 1, 1, 1, 1, 1, 2, 1, 1, 1, 1, 1, 1, 1, 1,
     1, 2, 1, 1, 1, 1, 1, 1, 1, 2, 1, 1, 1, 1, 1, 1, 1, 1, 1, 1, 1, 1, 1, 3, 1, 3, 1, 1, 1, 1, 1, 1,
     1, 3, 1, 1, 1, 1, 1, 3, 1, 3, 1, 1, 1, 1, 1, 1, 1, 3, 1, 1, 1, 1, 1, 1, 1, 1, 1, 1, 1, 1, 1, 1]"

text \<open>\<open>decode\<close>: the new state and the code point; 0 accepts, 1 rejects.\<close>

definition decode :: "nat \<Rightarrow> 32 word \<Rightarrow> nat \<Rightarrow> nat \<times> 32 word" where
  "decode state codep byte =
     (let type = utf8d ! byte;
          cp = (if state \<noteq> 0 then (word_of_nat byte AND 0x3F) OR push_bit 6 codep
                else drop_bit type 0xFF AND word_of_nat byte)
      in (utf8d ! (256 + state * 16 + type), cp))"

section \<open>Strings\<close>

definition hexDigit :: "nat \<Rightarrow> char" where
  "hexDigit d = ''0123456789abcdef'' ! d"

text \<open>\<open>snprintf("\u%04x", n)\<close> of a 16-bit number.\<close>

definition unicodeEscape :: "nat \<Rightarrow> string" where
  "unicodeEscape n = [CHR 0x5C, CHR ''u'', hexDigit (n div 4096 mod 16), hexDigit (n div 256 mod 16),
     hexDigit (n div 16 mod 16), hexDigit (n mod 16)]"

definition hexBytes :: "nat \<Rightarrow> string" where
  "hexBytes b = [''0123456789ABCDEF'' ! (b div 16), ''0123456789ABCDEF'' ! (b mod 16)]"

text \<open>What is written for a complete code point; \<open>c\<close> is its last byte.\<close>

definition escapeText :: "bool \<Rightarrow> 32 word \<Rightarrow> char \<Rightarrow> string" where
  "escapeText ensure_ascii cp c =
     (if cp = 0x08 then [CHR 0x5C, CHR ''b'']
      else if cp = 0x09 then [CHR 0x5C, CHR ''t'']
      else if cp = 0x0A then [CHR 0x5C, CHR ''n'']
      else if cp = 0x0C then [CHR 0x5C, CHR ''f'']
      else if cp = 0x0D then [CHR 0x5C, CHR ''r'']
      else if cp = 0x22 then [CHR 0x5C, CHR 0x22]
      else if cp = 0x5C then [CHR 0x5C, CHR 0x5C]
      else if cp \<le> 0x1F \<or> ensure_ascii \<and> 0x7F \<le> cp then
        (if cp \<le> 0xFFFF then unicodeEscape (unat cp)
         else unicodeEscape (unat ((0xD7C0 + drop_bit 10 cp) AND 0xFFFF)) @
              unicodeEscape (unat ((0xDC00 + (cp AND 0x3FF)) AND 0xFFFF)))
      else [c])"

text \<open>The locals of \<open>dump_escaped\<close>: the code point and state of the decoder, the first \<open>bytes\<close> of
  \<open>string_buffer\<close>, \<open>bytes_after_last_accept\<close> and \<open>undumped_chars\<close>.\<close>

record escaper =
  codepoint :: "32 word"
  utfState :: nat
  string_buffer :: string
  bytes_after_last_accept :: nat
  undumped_chars :: nat

definition flushBuffer :: "escaper \<Rightarrow> (serializer, escaper) prog" where
  "flushBuffer e =
     (if 512 - length (string_buffer e) < 13
      then andThen (writeChars (string_buffer e)) (\<lambda>_. ok (e\<lparr>string_buffer := ''''\<rparr>))
      else ok e)"

definition markAccepted :: "escaper \<Rightarrow> escaper" where
  "markAccepted e = e\<lparr>bytes_after_last_accept := length (string_buffer e), undumped_chars := 0\<rparr>"

definition acceptPoint :: "bool \<Rightarrow> char \<Rightarrow> escaper \<Rightarrow> (serializer, escaper) prog" where
  "acceptPoint ensure_ascii c e =
     andThen (flushBuffer (e\<lparr>string_buffer := string_buffer e @ escapeText ensure_ascii (codepoint e) c\<rparr>))
       (\<lambda>f. ok (markAccepted f))"

definition replacement :: "bool \<Rightarrow> string" where
  "replacement ensure_ascii =
     (if ensure_ascii then [CHR 0x5C, CHR ''u'', CHR ''f'', CHR ''f'', CHR ''f'', CHR ''d'']
      else [CHR 0xEF, CHR 0xBF, CHR 0xBD])"

text \<open>After a byte that does not fit: back to the last accepted byte.\<close>

definition rejectByte :: "error_handler \<Rightarrow> bool \<Rightarrow> escaper \<Rightarrow> (serializer, escaper) prog" where
  "rejectByte h ensure_ascii e =
     (let back = e\<lparr>string_buffer := take (bytes_after_last_accept e) (string_buffer e)\<rparr> in
      andThen
        (if h = Replace
         then andThen (flushBuffer (back\<lparr>string_buffer := string_buffer back @ replacement ensure_ascii\<rparr>))
           (\<lambda>f. ok (f\<lparr>bytes_after_last_accept := length (string_buffer f)\<rparr>))
         else ok back)
        (\<lambda>f. ok (f\<lparr>undumped_chars := 0, utfState := 0\<rparr>)))"

definition pendingByte :: "bool \<Rightarrow> char \<Rightarrow> escaper \<Rightarrow> escaper" where
  "pendingByte ensure_ascii c e =
     e\<lparr>string_buffer := (if ensure_ascii then string_buffer e else string_buffer e @ [c]),
       undumped_chars := Suc (undumped_chars e)\<rparr>"

definition decodeStep :: "char \<Rightarrow> escaper \<Rightarrow> escaper" where
  "decodeStep c e = (case decode (utfState e) (codepoint e) (of_char c) of
     (st, cp) \<Rightarrow> e\<lparr>utfState := st, codepoint := cp\<rparr>)"

text \<open>The loop over the bytes; \<open>i\<close> is the index. A rejected byte that is not the first of its sequence is read
  again, once.\<close>

fun escapeLoop :: "error_handler \<Rightarrow> bool \<Rightarrow> nat \<Rightarrow> string \<Rightarrow> escaper \<Rightarrow> (serializer, escaper) prog" where
  "escapeLoop h ensure_ascii i [] e = ok e"
| "escapeLoop h ensure_ascii i (c # cs) e =
     (let d = decodeStep c e in
      if utfState d = 0 then andThen (acceptPoint ensure_ascii c d) (escapeLoop h ensure_ascii (Suc i) cs)
      else if utfState d = 1 then
        (if h = Strict
         then raise (typeError 316 (''invalid UTF-8 byte at index '' @ showNat i @ '': 0x'' @ hexBytes (of_char c)))
         else andThen (rejectByte h ensure_ascii d) (\<lambda>f.
           if 0 < undumped_chars d
           then (let again = decodeStep c f in
             if utfState again = 0
             then andThen (acceptPoint ensure_ascii c again) (escapeLoop h ensure_ascii (Suc i) cs)
             else if utfState again = 1
             then andThen (rejectByte h ensure_ascii again) (escapeLoop h ensure_ascii (Suc i) cs)
             else escapeLoop h ensure_ascii (Suc i) cs (pendingByte ensure_ascii c again))
           else escapeLoop h ensure_ascii (Suc i) cs f))
      else escapeLoop h ensure_ascii (Suc i) cs (pendingByte ensure_ascii c d))"

definition dumpEscaped :: "error_handler \<Rightarrow> bool \<Rightarrow> string \<Rightarrow> (serializer, unit) prog" where
  "dumpEscaped h ensure_ascii s =
     andThen (escapeLoop h ensure_ascii 0 s \<lparr>codepoint = 0, utfState = 0, string_buffer = '''',
       bytes_after_last_accept = 0, undumped_chars = 0\<rparr>) (\<lambda>e.
     if utfState e = 0 then (if string_buffer e \<noteq> '''' then writeChars (string_buffer e) else ok ())
     else (case h of
         Strict \<Rightarrow> raise (typeError 316 (''incomplete UTF-8 string; last byte: 0x'' @ hexBytes (of_char (last s))))
       | Ignore \<Rightarrow> writeChars (take (bytes_after_last_accept e) (string_buffer e))
       | Replace \<Rightarrow> andThen (writeChars (take (bytes_after_last_accept e) (string_buffer e))) (\<lambda>_.
           writeChars (replacement ensure_ascii))))"

section \<open>Integers\<close>

fun countDigits :: "nat \<Rightarrow> nat \<Rightarrow> nat" where
  "countDigits x n_digits =
     (if x < 10 then n_digits
      else if x < 100 then n_digits + 1
      else if x < 1000 then n_digits + 2
      else if x < 10000 then n_digits + 3
      else countDigits (x div 10000) (n_digits + 4))"

declare countDigits.simps [simp del]

definition digitsTo99 :: "nat \<Rightarrow> char \<times> char" where
  "digitsTo99 i = (digitChar (i div 10), digitChar (i mod 10))"

text \<open>The digits go into \<open>number_buffer\<close> from \<open>buffer_ptr\<close> downwards.\<close>

fun fillDigits :: "nat \<Rightarrow> nat \<Rightarrow> string \<Rightarrow> string" where
  "fillDigits abs_value ptr buf =
     (if 100 \<le> abs_value then
        (case digitsTo99 (abs_value mod 100) of (a, b) \<Rightarrow>
           fillDigits (abs_value div 100) (ptr - 2) (buf[ptr - 1 := b, ptr - 2 := a]))
      else if 10 \<le> abs_value then
        (case digitsTo99 abs_value of (a, b) \<Rightarrow> buf[ptr - 1 := b, ptr - 2 := a])
      else buf[ptr - 1 := digitChar abs_value])"

declare fillDigits.simps [simp del]

definition removeSign :: "int \<Rightarrow> nat" where
  "removeSign x = nat (- (x + 1)) + 1"

definition dumpInteger :: "int \<Rightarrow> (serializer, unit) prog" where
  "dumpInteger x =
     (if x = 0 then writeChars ''0''
      else
        let buf = replicate 64 CHR 0x00;
            abs_value = (if x < 0 then removeSign x else nat x);
            n_chars = (if x < 0 then 1 + countDigits abs_value 1 else countDigits abs_value 1);
            signed = (if x < 0 then buf[0 := CHR ''-''] else buf)
        in writeChars (take n_chars (fillDigits abs_value n_chars signed)))"

definition dumpFloat :: "'f floats \<Rightarrow> 'f \<Rightarrow> (serializer, unit) prog" where
  "dumpFloat fl x =
     (if isFinite fl x then (case floatText fl x of Inl e \<Rightarrow> raise e | Inr t \<Rightarrow> writeChars t) else writeChars ''null'')"

section \<open>Values\<close>

text \<open>The loops write the first n-1 items followed by a separator, then the last one.\<close>

fun separated :: "(serializer, unit) prog \<Rightarrow> (serializer, unit) prog list \<Rightarrow> (serializer, unit) prog" where
  "separated sep [] = ok ()"
| "separated sep [p] = p"
| "separated sep (p # q # ps) = andThen p (\<lambda>_. andThen sep (\<lambda>_. separated sep (q # ps)))"

definition quotedText :: "error_handler \<Rightarrow> bool \<Rightarrow> string \<Rightarrow> (serializer, unit) prog" where
  "quotedText h ensure_ascii s =
     andThen (writeChars [CHR 0x22]) (\<lambda>_. andThen (dumpEscaped h ensure_ascii s) (\<lambda>_. writeChars [CHR 0x22]))"

definition dumpSubtype :: "nat option \<Rightarrow> (serializer, unit) prog" where
  "dumpSubtype sub = (case sub of Some n \<Rightarrow> dumpInteger (int n) | None \<Rightarrow> writeChars ''null'')"

definition newlineText :: string where
  "newlineText = [CHR 0x0A]"

definition jsonKey :: "string \<Rightarrow> string" where
  "jsonKey k = [CHR 0x22] @ k @ [CHR 0x22, CHR '':'']"

definition dumpBinary :: "bool \<Rightarrow> nat \<Rightarrow> nat \<Rightarrow> nat list \<Rightarrow> nat option \<Rightarrow> (serializer, unit) prog" where
  "dumpBinary pretty new_indent current_indent bytes sub =
     (if pretty then
        andThen (writeChars (''{'' @ newlineText)) (\<lambda>_.
        andThen (growIndent new_indent) (\<lambda>_.
        andThen (writeIndent new_indent) (\<lambda>_.
        andThen (writeChars (jsonKey ''bytes'' @ '' ['')) (\<lambda>_.
        andThen (separated (writeChars '', '') (map (\<lambda>b. dumpInteger (int b)) bytes)) (\<lambda>_.
        andThen (writeChars (''],'' @ newlineText)) (\<lambda>_.
        andThen (writeIndent new_indent) (\<lambda>_.
        andThen (writeChars (jsonKey ''subtype'' @ '' '')) (\<lambda>_.
        andThen (dumpSubtype sub) (\<lambda>_.
        andThen (writeChars newlineText) (\<lambda>_.
        andThen (writeIndent current_indent) (\<lambda>_.
          writeChars ''}'')))))))))))
      else
        andThen (writeChars (''{'' @ jsonKey ''bytes'' @ ''['')) (\<lambda>_.
        andThen (separated (writeChars '','') (map (\<lambda>b. dumpInteger (int b)) bytes)) (\<lambda>_.
        andThen (writeChars (''],'' @ jsonKey ''subtype'')) (\<lambda>_.
        andThen (dumpSubtype sub) (\<lambda>_.
          writeChars ''}'')))))"

text \<open>An object or array that is not empty: its items with a separator, between brackets.\<close>

definition dumpItems :: "bool \<Rightarrow> nat \<Rightarrow> nat \<Rightarrow> string \<Rightarrow> string \<Rightarrow> (serializer, unit) prog list \<Rightarrow> (serializer, unit) prog" where
  "dumpItems pretty new_indent current_indent opening closing items =
     (if pretty then
        andThen (writeChars (opening @ newlineText)) (\<lambda>_.
        andThen (growIndent new_indent) (\<lambda>_.
        andThen (separated (writeChars ('','' @ newlineText))
          (map (\<lambda>p. andThen (writeIndent new_indent) (\<lambda>_. p)) items)) (\<lambda>_.
        andThen (writeChars newlineText) (\<lambda>_.
        andThen (writeIndent current_indent) (\<lambda>_.
          writeChars closing)))))
      else
        andThen (writeChars opening) (\<lambda>_.
        andThen (separated (writeChars '','') items) (\<lambda>_.
          writeChars closing)))"

text \<open>\<open>serializer::dump\<close>; the indentation is an \<open>unsigned int\<close>.\<close>

fun dumpValue :: "'f floats \<Rightarrow> error_handler \<Rightarrow> bool \<Rightarrow> bool \<Rightarrow> nat \<Rightarrow> nat \<Rightarrow> 'f json \<Rightarrow> (serializer, unit) prog" where
  "dumpValue fl h pretty ascii step indent (JObject m) =
     (if m = [] then writeChars ''{}''
      else
        let new_indent = (indent + step) mod 2 ^ 32 in
        dumpItems pretty new_indent indent ''{'' ''}''
          (map (\<lambda>(k, v). andThen (quotedText h ascii k) (\<lambda>_. andThen (writeChars (if pretty then '': '' else '':'')) (\<lambda>_.
             dumpValue fl h pretty ascii step (if pretty then new_indent else indent) v))) m))"
| "dumpValue fl h pretty ascii step indent (JArray xs) =
     (if xs = [] then writeChars ''[]''
      else
        let new_indent = (indent + step) mod 2 ^ 32 in
        dumpItems pretty new_indent indent ''['' '']''
          (map (dumpValue fl h pretty ascii step (if pretty then new_indent else indent)) xs))"
| "dumpValue fl h pretty ascii step indent (JString s) = quotedText h ascii s"
| "dumpValue fl h pretty ascii step indent (JBinary bytes sub) =
     dumpBinary pretty ((indent + step) mod 2 ^ 32) indent bytes sub"
| "dumpValue fl h pretty ascii step indent (JBool b) = writeChars (if b then ''true'' else ''false'')"
| "dumpValue fl h pretty ascii step indent (JInteger i) = dumpInteger i"
| "dumpValue fl h pretty ascii step indent (JUnsigned i) = dumpInteger i"
| "dumpValue fl h pretty ascii step indent (JFloat x) = dumpFloat fl x"
| "dumpValue fl h pretty ascii step indent JDiscarded = writeChars ''<discarded>''"
| "dumpValue fl h pretty ascii step indent JNull = writeChars ''null''"

text \<open>\<open>basic_json::dump(indent, indent_char, ensure_ascii, error_handler)\<close>\<close>

definition dumpJsonText :: "'f floats \<Rightarrow> int \<Rightarrow> char \<Rightarrow> bool \<Rightarrow> error_handler \<Rightarrow> 'f json \<Rightarrow> cpp_error + string" where
  "dumpJsonText fl indent indent_char ascii h j =
     (case (if 0 \<le> indent then dumpValue fl h True ascii (nat indent) 0 j else dumpValue fl h False ascii 0 0 j)
         \<lparr>o_text = '''', indent_string = replicate 512 indent_char\<rparr> of
        (Inr _, s) \<Rightarrow> Inr (o_text s) | (Inl e, _) \<Rightarrow> Inl e)"

end
