(* ===== verification/Grisu.thy ===== *)
theory Grisu
  imports Json "HOL-Library.Word" "HOL-Library.Signed_Division"
begin

unbundle bit_operations_syntax

text \<open>
  The conversion of a floating-point number to digits (\<open>lib/nlohmann/json.hpp\<close>, \<open>to_chars\<close> and \<open>dtoa_impl\<close>): the Grisu2
  algorithm on \<open>double\<close>, as \<open>dump_float\<close> runs it. A \<open>double\<close> is its bit pattern of 64 bits (IEEE 754). The significands are
  words, so they wrap around as the code's do; the exponents stay far inside \<open>int\<close>. \<open>JSON_ASSERT\<close> ends the program
  (\<open>AssertFailed\<close>), and a shift by 64 or more, an access outside of the buffer and a read of a character nobody
  has written are undefined behaviour.
\<close>

section \<open>The buffer\<close>

text \<open>
  \<open>number_buffer\<close>: 64 characters. The code's buffer starts with zeros and keeps what earlier numbers left; here a
  character is \<open>None\<close> until it is written for this number, and reading it before counts as undefined, so what is
  proved holds whatever was in the buffer. A pointer into it is an index.
\<close>

type_synonym charBuffer = "char option list"

type_synonym w64 = "64 word"
type_synonym w32 = "32 word"

definition freshBuffer :: charBuffer where
  "freshBuffer = replicate 64 None"

definition assertThat :: "bool \<Rightarrow> ('s, unit) prog" where
  "assertThat c = (if c then ok () else raise AssertFailed)"

definition bufGet :: "nat \<Rightarrow> (charBuffer, char) prog" where
  "bufGet i = andThen getState (\<lambda>buf. if i < length buf then fromOption UB (buf ! i) else raise UB)"

definition bufSet :: "nat \<Rightarrow> char \<Rightarrow> (charBuffer, unit) prog" where
  "bufSet i c = andThen getState (\<lambda>buf. if i < length buf then modify (\<lambda>buf. buf[i := Some c]) else raise UB)"

text \<open>\<open>memmove(dst, src, n)\<close> and \<open>memset(dst, c, n)\<close> on the buffer.\<close>

definition bufMove :: "nat \<Rightarrow> nat \<Rightarrow> nat \<Rightarrow> (charBuffer, unit) prog" where
  "bufMove dst src n = andThen getState (\<lambda>buf.
     if dst + n \<le> length buf \<and> src + n \<le> length buf
     then modify (\<lambda>buf. take dst buf @ take n (drop src buf) @ drop (dst + n) buf) else raise UB)"

definition bufFill :: "nat \<Rightarrow> char \<Rightarrow> nat \<Rightarrow> (charBuffer, unit) prog" where
  "bufFill dst c n = andThen getState (\<lambda>buf.
     if dst + n \<le> length buf
     then modify (\<lambda>buf. take dst buf @ replicate n (Some c) @ drop (dst + n) buf) else raise UB)"

section \<open>\<open>diyfp\<close>\<close>

text \<open>The number \<open>diyF * 2^diyE\<close>.\<close>

record diyfp =
  diyF :: w64
  diyE :: int

definition diySub :: "diyfp \<Rightarrow> diyfp \<Rightarrow> ('s, diyfp) prog" where
  "diySub x y =
     andThen (assertThat (diyE x = diyE y)) (\<lambda>_.
     andThen (assertThat (diyF x \<ge> diyF y)) (\<lambda>_.
       ok \<lparr>diyF = diyF x - diyF y, diyE = diyE x\<rparr>))"

definition diyMul :: "diyfp \<Rightarrow> diyfp \<Rightarrow> diyfp" where
  "diyMul x y =
     (let u_lo = diyF x AND 0xFFFFFFFF; u_hi = drop_bit 32 (diyF x);
          v_lo = diyF y AND 0xFFFFFFFF; v_hi = drop_bit 32 (diyF y);
          p0 = u_lo * v_lo; p1 = u_lo * v_hi; p2 = u_hi * v_lo; p3 = u_hi * v_hi;
          p0_hi = drop_bit 32 p0;
          p1_lo = p1 AND 0xFFFFFFFF; p1_hi = drop_bit 32 p1;
          p2_lo = p2 AND 0xFFFFFFFF; p2_hi = drop_bit 32 p2;
          Q = p0_hi + p1_lo + p2_lo + push_bit (64 - 32 - 1) 1
      in \<lparr>diyF = p3 + p2_hi + p1_hi + drop_bit 32 Q, diyE = diyE x + diyE y + 64\<rparr>)"

text \<open>The loop moves a significand that is not zero to the top; 64 shifts are always enough.\<close>

primrec normalizeLoop :: "nat \<Rightarrow> diyfp \<Rightarrow> ('s, diyfp) prog" where
  "normalizeLoop 0 x = raise OutOfFuel"
| "normalizeLoop (Suc fuel) x =
     (if drop_bit 63 (diyF x) = 0
      then normalizeLoop fuel \<lparr>diyF = push_bit 1 (diyF x), diyE = diyE x - 1\<rparr>
      else ok x)"

definition diyNormalize :: "diyfp \<Rightarrow> ('s, diyfp) prog" where
  "diyNormalize x = andThen (assertThat (diyF x \<noteq> 0)) (\<lambda>_. normalizeLoop 64 x)"

definition normalizeTo :: "diyfp \<Rightarrow> int \<Rightarrow> ('s, diyfp) prog" where
  "normalizeTo x target_exponent =
     (let delta = diyE x - target_exponent in
      andThen (assertThat (delta \<ge> 0)) (\<lambda>_.
      andThen (if delta < 64 then ok () else raise UB) (\<lambda>_.
      andThen (assertThat (drop_bit (nat delta) (push_bit (nat delta) (diyF x)) = diyF x)) (\<lambda>_.
        ok \<lparr>diyF = push_bit (nat delta) (diyF x), diyE = target_exponent\<rparr>))))"

section \<open>Boundaries\<close>

record boundaries =
  boundW :: diyfp
  boundMinus :: diyfp
  boundPlus :: diyfp

definition kPrecision :: nat where "kPrecision = 53"
definition kBias :: int where "kBias = 1024 - 1 + (53 - 1)"
definition kMinExp :: int where "kMinExp = 1 - kBias"
definition kHiddenBit :: w64 where "kHiddenBit = push_bit (kPrecision - 1) 1"

text \<open>What the standard library reads off a number: its sign, whether it is finite, and its negation.\<close>

definition signbit :: "w64 \<Rightarrow> bool" where
  "signbit x \<longleftrightarrow> bit x 63"

definition isfinite :: "w64 \<Rightarrow> bool" where
  "isfinite x \<longleftrightarrow> drop_bit 52 x AND 0x7FF \<noteq> 0x7FF"

definition negated :: "w64 \<Rightarrow> w64" where
  "negated x = x XOR push_bit 63 1"

definition isZero :: "w64 \<Rightarrow> bool" where
  "isZero x \<longleftrightarrow> x AND (push_bit 63 1 - 1) = 0"

definition isPositive :: "w64 \<Rightarrow> bool" where
  "isPositive x \<longleftrightarrow> \<not> signbit x \<and> \<not> isZero x"

definition computeBoundaries :: "w64 \<Rightarrow> ('s, boundaries) prog" where
  "computeBoundaries x =
     andThen (assertThat (isfinite x)) (\<lambda>_.
     andThen (assertThat (isPositive x)) (\<lambda>_.
       let E = drop_bit (kPrecision - 1) x;
           F = x AND (kHiddenBit - 1);
           is_denormal = (E = 0);
           v = (if is_denormal then \<lparr>diyF = F, diyE = kMinExp\<rparr>
                else \<lparr>diyF = F + kHiddenBit, diyE = sint (ucast E :: 32 word) - kBias\<rparr>);
           lower_boundary_is_closer = (F = 0 \<and> E > 1);
           m_plus = \<lparr>diyF = 2 * diyF v + 1, diyE = diyE v - 1\<rparr>;
           m_minus = (if lower_boundary_is_closer then \<lparr>diyF = 4 * diyF v - 1, diyE = diyE v - 2\<rparr>
                      else \<lparr>diyF = 2 * diyF v - 1, diyE = diyE v - 1\<rparr>)
       in andThen (diyNormalize m_plus) (\<lambda>w_plus.
          andThen (normalizeTo m_minus (diyE w_plus)) (\<lambda>w_minus.
          andThen (diyNormalize v) (\<lambda>w.
            ok \<lparr>boundW = w, boundMinus = w_minus, boundPlus = w_plus\<rparr>)))))"

section \<open>Cached powers of ten\<close>

definition kAlpha :: int where "kAlpha = -60"
definition kGamma :: int where "kGamma = -32"

record cached_power =
  cachedF :: w64
  cachedE :: int
  cachedK :: int

text \<open>The significand, the binary and the decimal exponent of each power.\<close>

definition powerTable :: "(w64 \<times> int \<times> int) list" where
  "powerTable = [
     (0xAB70FE17C79AC6CA, -1060, -300), (0xFF77B1FCBEBCDC4F, -1034, -292), (0xBE5691EF416BD60C, -1007, -284),
     (0x8DD01FAD907FFC3C, -980, -276), (0xD3515C2831559A83, -954, -268), (0x9D71AC8FADA6C9B5, -927, -260),
     (0xEA9C227723EE8BCB, -901, -252), (0xAECC49914078536D, -874, -244), (0x823C12795DB6CE57, -847, -236),
     (0xC21094364DFB5637, -821, -228), (0x9096EA6F3848984F, -794, -220), (0xD77485CB25823AC7, -768, -212),
     (0xA086CFCD97BF97F4, -741, -204), (0xEF340A98172AACE5, -715, -196), (0xB23867FB2A35B28E, -688, -188),
     (0x84C8D4DFD2C63F3B, -661, -180), (0xC5DD44271AD3CDBA, -635, -172), (0x936B9FCEBB25C996, -608, -164),
     (0xDBAC6C247D62A584, -582, -156), (0xA3AB66580D5FDAF6, -555, -148), (0xF3E2F893DEC3F126, -529, -140),
     (0xB5B5ADA8AAFF80B8, -502, -132), (0x87625F056C7C4A8B, -475, -124), (0xC9BCFF6034C13053, -449, -116),
     (0x964E858C91BA2655, -422, -108), (0xDFF9772470297EBD, -396, -100), (0xA6DFBD9FB8E5B88F, -369, -92),
     (0xF8A95FCF88747D94, -343, -84), (0xB94470938FA89BCF, -316, -76), (0x8A08F0F8BF0F156B, -289, -68),
     (0xCDB02555653131B6, -263, -60), (0x993FE2C6D07B7FAC, -236, -52), (0xE45C10C42A2B3B06, -210, -44),
     (0xAA242499697392D3, -183, -36), (0xFD87B5F28300CA0E, -157, -28), (0xBCE5086492111AEB, -130, -20),
     (0x8CBCCC096F5088CC, -103, -12), (0xD1B71758E219652C, -77, -4), (0x9C40000000000000, -50, 4),
     (0xE8D4A51000000000, -24, 12), (0xAD78EBC5AC620000, 3, 20), (0x813F3978F8940984, 30, 28),
     (0xC097CE7BC90715B3, 56, 36), (0x8F7E32CE7BEA5C70, 83, 44), (0xD5D238A4ABE98068, 109, 52),
     (0x9F4F2726179A2245, 136, 60), (0xED63A231D4C4FB27, 162, 68), (0xB0DE65388CC8ADA8, 189, 76),
     (0x83C7088E1AAB65DB, 216, 84), (0xC45D1DF942711D9A, 242, 92), (0x924D692CA61BE758, 269, 100),
     (0xDA01EE641A708DEA, 295, 108), (0xA26DA3999AEF774A, 322, 116), (0xF209787BB47D6B85, 348, 124),
     (0xB454E4A179DD1877, 375, 132), (0x865B86925B9BC5C2, 402, 140), (0xC83553C5C8965D3D, 428, 148),
     (0x952AB45CFA97A0B3, 455, 156), (0xDE469FBD99A05FE3, 481, 164), (0xA59BC234DB398C25, 508, 172),
     (0xF6C69A72A3989F5C, 534, 180), (0xB7DCBF5354E9BECE, 561, 188), (0x88FCF317F22241E2, 588, 196),
     (0xCC20CE9BD35C78A5, 614, 204), (0x98165AF37B2153DF, 641, 212), (0xE2A0B5DC971F303A, 667, 220),
     (0xA8D9D1535CE3B396, 694, 228), (0xFB9B7CD9A4A7443C, 720, 236), (0xBB764C4CA7A44410, 747, 244),
     (0x8BAB8EEFB6409C1A, 774, 252), (0xD01FEF10A657842C, 800, 260), (0x9B10A4E5E9913129, 827, 268),
     (0xE7109BFBA19C0C9D, 853, 276), (0xAC2820D9623BF429, 880, 284), (0x80444B5E7AA7CF85, 907, 292),
     (0xBF21E44003ACDD2D, 933, 300), (0x8E679C2F5E44FF8F, 960, 308), (0xD433179D9C8CB841, 986, 316),
     (0x9E19DB92B4E31BA9, 1013, 324)]"

definition kCachedPowers :: "cached_power list" where
  "kCachedPowers = map (\<lambda>(f, e, k). \<lparr>cachedF = f, cachedE = e, cachedK = k\<rparr>) powerTable"

definition kCachedPowersMinDecExp :: int where "kCachedPowersMinDecExp = -300"
definition kCachedPowersDecStep :: int where "kCachedPowersDecStep = 8"

text \<open>Division of \<open>int\<close> truncates: \<open>sdiv\<close>.\<close>

definition cachedIndex :: "int \<Rightarrow> int" where
  "cachedIndex e =
     (let f = kAlpha - e - 1;
          k = (f * 78913) sdiv (2 ^ 18) + (if f > 0 then 1 else 0)
      in (- kCachedPowersMinDecExp + k + (kCachedPowersDecStep - 1)) sdiv kCachedPowersDecStep)"

definition getCachedPower :: "int \<Rightarrow> ('s, cached_power) prog" where
  "getCachedPower e =
     andThen (assertThat (e \<ge> -1500)) (\<lambda>_.
     andThen (assertThat (e \<le> 1500)) (\<lambda>_.
     let index = cachedIndex e in
     andThen (assertThat (index \<ge> 0)) (\<lambda>_.
     andThen (assertThat (nat index < length kCachedPowers)) (\<lambda>_.
     let cached = kCachedPowers ! nat index in
     andThen (assertThat (kAlpha \<le> cachedE cached + e + 64)) (\<lambda>_.
     andThen (assertThat (kGamma \<ge> cachedE cached + e + 64)) (\<lambda>_.
       ok cached))))))"

section \<open>Digits\<close>

text \<open>\<open>find_largest_pow10\<close> returns the number of digits and sets \<open>pow10\<close>.\<close>

definition findLargestPow10 :: "w32 \<Rightarrow> nat \<times> w32" where
  "findLargestPow10 n =
     (if n \<ge> 1000000000 then (10, 1000000000)
      else if n \<ge> 100000000 then (9, 100000000)
      else if n \<ge> 10000000 then (8, 10000000)
      else if n \<ge> 1000000 then (7, 1000000)
      else if n \<ge> 100000 then (6, 100000)
      else if n \<ge> 10000 then (5, 10000)
      else if n \<ge> 1000 then (4, 1000)
      else if n \<ge> 100 then (3, 100)
      else if n \<ge> 10 then (2, 10)
      else (1, 1))"

text \<open>The loop of \<open>grisu2_round\<close> counts the last digit down, to zero at most: 10 rounds are enough.\<close>

primrec roundLoop :: "nat \<Rightarrow> nat \<Rightarrow> nat \<Rightarrow> w64 \<Rightarrow> w64 \<Rightarrow> w64 \<Rightarrow> w64 \<Rightarrow> (charBuffer, unit) prog" where
  "roundLoop 0 buf len dist delta rest ten_k = raise OutOfFuel"
| "roundLoop (Suc fuel) buf len dist delta rest ten_k =
     (if rest < dist \<and> delta - rest \<ge> ten_k \<and> (rest + ten_k < dist \<or> dist - rest > rest + ten_k - dist)
      then andThen (bufGet (buf + len - 1)) (\<lambda>c.
           andThen (assertThat (c \<noteq> CHR ''0'')) (\<lambda>_.
           andThen (bufSet (buf + len - 1) (char_of ((of_char c :: int) - 1))) (\<lambda>_.
             roundLoop fuel buf len dist delta (rest + ten_k) ten_k)))
      else ok ())"

definition grisu2Round :: "nat \<Rightarrow> nat \<Rightarrow> w64 \<Rightarrow> w64 \<Rightarrow> w64 \<Rightarrow> w64 \<Rightarrow> (charBuffer, unit) prog" where
  "grisu2Round buf len dist delta rest ten_k =
     andThen (assertThat (len \<ge> 1)) (\<lambda>_.
     andThen (assertThat (dist \<le> delta)) (\<lambda>_.
     andThen (assertThat (rest \<le> delta)) (\<lambda>_.
     andThen (assertThat (ten_k > 0)) (\<lambda>_.
       roundLoop 10 buf len dist delta rest ten_k))))"

text \<open>
  The digits of the integral part: the loop counts \<open>n\<close> down. It returns the length and, when enough digits are
  generated, the decimal exponent.
\<close>

primrec integralDigits :: "nat \<Rightarrow> diyfp \<Rightarrow> w32 \<Rightarrow> w64 \<Rightarrow> w32 \<Rightarrow> w64 \<Rightarrow> w64 \<Rightarrow> nat \<Rightarrow> nat \<Rightarrow> int \<Rightarrow>
    (charBuffer, nat \<times> int option) prog" where
  "integralDigits 0 one p1 p2 pow10 delta dist buffer len decimal_exponent = ok (len, None)"
| "integralDigits (Suc n) one p1 p2 pow10 delta dist buffer len decimal_exponent =
     andThen (if pow10 = 0 then raise UB else ok ()) (\<lambda>_.
     let d = p1 div pow10; r = p1 mod pow10 in
     andThen (assertThat (d \<le> 9)) (\<lambda>_.
     andThen (bufSet (buffer + len) (digitChar (unat d))) (\<lambda>_.
     let rest = push_bit (nat (- diyE one)) (ucast r) + p2 in
     if rest \<le> delta
     then andThen (grisu2Round buffer (Suc len) dist delta rest (push_bit (nat (- diyE one)) (ucast pow10))) (\<lambda>_.
       ok (Suc len, Some (decimal_exponent + int n)))
     else integralDigits n one r p2 (pow10 div 10) delta dist buffer (Suc len) decimal_exponent)))"

text \<open>The digits of the fractional part; it returns the length, \<open>m\<close>, \<open>p2\<close>, \<open>delta\<close> and \<open>dist\<close>.\<close>

primrec fractionalDigits :: "nat \<Rightarrow> diyfp \<Rightarrow> w64 \<Rightarrow> w64 \<Rightarrow> w64 \<Rightarrow> nat \<Rightarrow> nat \<Rightarrow> nat \<Rightarrow>
    (charBuffer, nat \<times> nat \<times> w64 \<times> w64 \<times> w64) prog" where
  "fractionalDigits 0 one p2 delta dist buffer len m = raise OutOfFuel"
| "fractionalDigits (Suc fuel) one p2 delta dist buffer len m =
     andThen (assertThat (p2 \<le> (- 1) div 10)) (\<lambda>_.
     let p2' = p2 * 10;
         d = drop_bit (nat (- diyE one)) p2';
         r = p2' AND (diyF one - 1) in
     andThen (assertThat (d \<le> 9)) (\<lambda>_.
     andThen (bufSet (buffer + len) (digitChar (unat d))) (\<lambda>_.
     let delta' = delta * 10; dist' = dist * 10 in
     if r \<le> delta' then ok (Suc len, Suc m, r, delta', dist')
     else fractionalDigits fuel one r delta' dist' buffer (Suc len) (Suc m))))"

text \<open>The result is the length and the decimal exponent. The fuel is for the fractional digits.\<close>

definition grisu2DigitGen :: "nat \<Rightarrow> nat \<Rightarrow> nat \<Rightarrow> int \<Rightarrow> diyfp \<Rightarrow> diyfp \<Rightarrow> diyfp \<Rightarrow> (charBuffer, nat \<times> int) prog" where
  "grisu2DigitGen fuel buffer len decimal_exponent M_minus w M_plus =
     andThen (assertThat (diyE M_plus \<ge> kAlpha)) (\<lambda>_.
     andThen (assertThat (diyE M_plus \<le> kGamma)) (\<lambda>_.
     andThen (diySub M_plus M_minus) (\<lambda>delta.
     andThen (diySub M_plus w) (\<lambda>dist.
     let one = \<lparr>diyF = push_bit (nat (- diyE M_plus)) 1, diyE = diyE M_plus\<rparr>;
         p1 = (ucast (drop_bit (nat (- diyE one)) (diyF M_plus)) :: w32);
         p2 = diyF M_plus AND (diyF one - 1) in
     andThen (assertThat (p1 > 0)) (\<lambda>_.
     case findLargestPow10 p1 of (k, pow10) \<Rightarrow>
     andThen (integralDigits k one p1 p2 pow10 (diyF delta) (diyF dist) buffer len decimal_exponent) (\<lambda>(len, found).
     case found of Some e \<Rightarrow> ok (len, e)
     | None \<Rightarrow>
       andThen (assertThat (p2 > diyF delta)) (\<lambda>_.
       andThen (fractionalDigits fuel one p2 (diyF delta) (diyF dist) buffer len 0) (\<lambda>(len, m, rest, delta', dist').
       andThen (grisu2Round buffer len dist' delta' rest (diyF one)) (\<lambda>_.
         ok (len, decimal_exponent - int m))))))))))"

definition grisu2Bounds :: "nat \<Rightarrow> nat \<Rightarrow> nat \<Rightarrow> int \<Rightarrow> diyfp \<Rightarrow> diyfp \<Rightarrow> diyfp \<Rightarrow> (charBuffer, nat \<times> int) prog" where
  "grisu2Bounds fuel buf len decimal_exponent m_minus v m_plus =
     andThen (assertThat (diyE m_plus = diyE m_minus)) (\<lambda>_.
     andThen (assertThat (diyE m_plus = diyE v)) (\<lambda>_.
     andThen (getCachedPower (diyE m_plus)) (\<lambda>cached.
     let c_minus_k = \<lparr>diyF = cachedF cached, diyE = cachedE cached\<rparr>;
         w = diyMul v c_minus_k;
         w_minus = diyMul m_minus c_minus_k;
         w_plus = diyMul m_plus c_minus_k;
         M_minus = \<lparr>diyF = diyF w_minus + 1, diyE = diyE w_minus\<rparr>;
         M_plus = \<lparr>diyF = diyF w_plus - 1, diyE = diyE w_plus\<rparr>
     in grisu2DigitGen fuel buf len (- cachedK cached) M_minus w M_plus)))"

definition grisu2 :: "nat \<Rightarrow> nat \<Rightarrow> nat \<Rightarrow> int \<Rightarrow> w64 \<Rightarrow> (charBuffer, nat \<times> int) prog" where
  "grisu2 fuel buf len decimal_exponent x =
     andThen (assertThat (isfinite x)) (\<lambda>_.
     andThen (assertThat (isPositive x)) (\<lambda>_.
     andThen (computeBoundaries x) (\<lambda>w.
       grisu2Bounds fuel buf len decimal_exponent (boundMinus w) (boundW w) (boundPlus w))))"

section \<open>Layout\<close>

text \<open>The functions return the pointer behind what they have written.\<close>

definition appendExponent :: "nat \<Rightarrow> int \<Rightarrow> (charBuffer, nat) prog" where
  "appendExponent buf e =
     andThen (assertThat (e > -1000)) (\<lambda>_.
     andThen (assertThat (e < 1000)) (\<lambda>_.
     andThen (bufSet buf (if e < 0 then CHR ''-'' else CHR ''+'')) (\<lambda>_.
     let k = nat (if e < 0 then - e else e) in
     if k < 10 then
       andThen (bufSet (buf + 1) CHR ''0'') (\<lambda>_.
       andThen (bufSet (buf + 2) (digitChar k)) (\<lambda>_. ok (buf + 3)))
     else if k < 100 then
       andThen (bufSet (buf + 1) (digitChar (k div 10))) (\<lambda>_.
       andThen (bufSet (buf + 2) (digitChar (k mod 10))) (\<lambda>_. ok (buf + 3)))
     else
       andThen (bufSet (buf + 1) (digitChar (k div 100))) (\<lambda>_.
       andThen (bufSet (buf + 2) (digitChar (k mod 100 div 10))) (\<lambda>_.
       andThen (bufSet (buf + 3) (digitChar (k mod 100 mod 10))) (\<lambda>_. ok (buf + 4)))))))"

definition formatBuffer :: "nat \<Rightarrow> nat \<Rightarrow> int \<Rightarrow> int \<Rightarrow> int \<Rightarrow> (charBuffer, nat) prog" where
  "formatBuffer buf len decimal_exponent min_exp max_exp =
     andThen (assertThat (min_exp < 0)) (\<lambda>_.
     andThen (assertThat (max_exp > 0)) (\<lambda>_.
     let k = len; n = int len + decimal_exponent in
     if int k \<le> n \<and> n \<le> max_exp then
       andThen (bufFill (buf + k) CHR ''0'' (nat n - k)) (\<lambda>_.
       andThen (bufSet (buf + nat n) CHR ''.'') (\<lambda>_.
       andThen (bufSet (buf + nat n + 1) CHR ''0'') (\<lambda>_.
         ok (buf + nat n + 2))))
     else if 0 < n \<and> n \<le> max_exp then
       andThen (assertThat (int k > n)) (\<lambda>_.
       andThen (bufMove (buf + nat n + 1) (buf + nat n) (k - nat n)) (\<lambda>_.
       andThen (bufSet (buf + nat n) CHR ''.'') (\<lambda>_.
         ok (buf + k + 1))))
     else if min_exp < n \<and> n \<le> 0 then
       andThen (bufMove (buf + 2 + nat (- n)) buf k) (\<lambda>_.
       andThen (bufSet buf CHR ''0'') (\<lambda>_.
       andThen (bufSet (buf + 1) CHR ''.'') (\<lambda>_.
       andThen (bufFill (buf + 2) CHR ''0'' (nat (- n))) (\<lambda>_.
         ok (buf + 2 + nat (- n) + k)))))
     else
       andThen (if k = 1 then ok (buf + 1)
                else andThen (bufMove (buf + 2) (buf + 1) (k - 1)) (\<lambda>_.
                     andThen (bufSet (buf + 1) CHR ''.'') (\<lambda>_. ok (buf + 1 + k)))) (\<lambda>ptr.
       andThen (bufSet ptr CHR ''e'') (\<lambda>_.
         appendExponent (ptr + 1) (n - 1)))))"

definition max_digits10 :: nat where "max_digits10 = 17"
definition digits10 :: nat where "digits10 = 15"

text \<open>\<open>to_chars(first, last, value)\<close>.\<close>

definition toChars :: "nat \<Rightarrow> nat \<Rightarrow> nat \<Rightarrow> w64 \<Rightarrow> (charBuffer, nat) prog" where
  "toChars fuel first endp x =
     andThen (assertThat (isfinite x)) (\<lambda>_.
     andThen (if signbit x then andThen (bufSet first CHR ''-'') (\<lambda>_. ok (first + 1, negated x)) else ok (first, x)) (\<lambda>(first, x).
     if isZero x then
       andThen (bufSet first CHR ''0'') (\<lambda>_.
       andThen (bufSet (first + 1) CHR ''.'') (\<lambda>_.
       andThen (bufSet (first + 2) CHR ''0'') (\<lambda>_. ok (first + 3))))
     else
       andThen (assertThat (endp \<ge> first + max_digits10)) (\<lambda>_.
       andThen (grisu2 fuel first 0 0 x) (\<lambda>(len, decimal_exponent).
       andThen (assertThat (len \<le> max_digits10)) (\<lambda>_.
       let kMin = -4; kMax = int digits10 in
       andThen (assertThat (int endp - int first \<ge> kMax + 2)) (\<lambda>_.
       andThen (assertThat (int endp - int first \<ge> 2 + (- kMin - 1) + int max_digits10)) (\<lambda>_.
       andThen (assertThat (int endp - int first \<ge> int max_digits10 + 6)) (\<lambda>_.
         formatBuffer first len decimal_exponent kMin kMax))))))))"

text \<open>\<open>dump_float\<close> for \<open>double\<close>: the characters that are written. 64 fractional digits are more than there ever are.\<close>

definition dumpFloatDouble :: "w64 \<Rightarrow> cpp_error + string" where
  "dumpFloatDouble x =
     fst (andThen (toChars 64 0 64 x) (\<lambda>stop.
       andThen getState (\<lambda>buf. mapProg (fromOption UB) (take stop buf))) freshBuffer)"

end
