(* ===== verification/GrisuArith.thy ===== *)
theory GrisuArith
  imports Grisu Complex_Main
begin

text \<open>
  The arithmetic of \<open>to_chars\<close> on exact numbers: multiplication is the rounded upper half of the product, the table holds
  powers of ten correct to half a unit, and the boundaries are the midpoints to the neighbours of the number. A
  number scaled by a cached power is off by less than one unit.
\<close>

section \<open>Words\<close>

lemma unat_less_2p64: "unat (x :: w64) < 2 ^ 64"
  using unsigned_less [of x] by simp

lemma unat_add_small: "unat x + unat y < 2 ^ 64 \<Longrightarrow> unat (x + y) = unat x + unat (y :: w64)"
  by (simp add: unat_word_ariths)

lemma unat_add4:
  "unat a + unat b + unat c + unat d < 2 ^ 64 \<Longrightarrow> unat (a + b + c + d) = unat a + unat b + unat c + unat (d :: w64)"
  by (simp add: unat_add_small)

lemma unat_mult_small: "unat x * unat y < 2 ^ 64 \<Longrightarrow> unat (x * y) = unat x * unat (y :: w64)"
  by (simp add: unat_word_ariths)

lemma unat_mult32:
  assumes "unat x < 2 ^ 32" "unat y < 2 ^ 32"
  shows "unat (x * y) = unat x * unat (y :: w64)"
proof -
  have "unat x * unat y < 2 ^ 32 * 2 ^ 32" using assms by (intro mult_strict_mono) auto
  then show ?thesis by (intro unat_mult_small) simp
qed

lemma unat_drop: "unat (drop_bit n x) = unat x div 2 ^ n"
  unfolding unat_drop_bit_eq by (rule drop_bit_eq_div)

lemma unat_push_small: "unat x * 2 ^ n < 2 ^ 64 \<Longrightarrow> unat (push_bit n x) = unat (x :: w64) * 2 ^ n"
  unfolding unsigned_push_bit_eq by (simp add: take_bit_eq_mod push_bit_eq_mult)

lemma unat_and_mask: "unat (x AND mask n) = unat x mod 2 ^ n" for x :: w64
  unfolding take_bit_eq_mask [symmetric] unsigned_take_bit_eq by (rule take_bit_eq_mod)

lemma unat_low32: "unat (x AND 0xFFFFFFFF) = unat x mod 2 ^ 32" for x :: w64
  using unat_and_mask [of x 32] by (simp add: mask_numeral)

section \<open>Multiplication\<close>

text \<open>The schoolbook product of two numbers of two digits, rounded to its upper half.\<close>

lemma mul_high:
  fixes u v :: nat
  shows "(u * v + 2 ^ 63) div 2 ^ 64 =
    (u div 2 ^ 32) * (v div 2 ^ 32) + (u div 2 ^ 32) * (v mod 2 ^ 32) div 2 ^ 32 + (u mod 2 ^ 32) * (v div 2 ^ 32) div 2 ^ 32 +
    ((u mod 2 ^ 32) * (v mod 2 ^ 32) div 2 ^ 32 + (u mod 2 ^ 32) * (v div 2 ^ 32) mod 2 ^ 32 +
      (u div 2 ^ 32) * (v mod 2 ^ 32) mod 2 ^ 32 + 2 ^ 31) div 2 ^ 32"
proof -
  define B :: nat where "B = 2 ^ 32"
  define a b c d where "a = u div B" "b = u mod B" "c = v div B" "d = v mod B"
  have u: "u = a * B + b" and v: "v = c * B + d" by (simp_all add: a_b_c_d_def)
  define q where "q = b * d div B + b * c mod B + a * d mod B + 2 ^ 31"
  define h where "h = a * c + a * d div B + b * c div B"
  have split: "x * B = (x div B) * (B * B) + (x mod B) * B" for x
    by (metis distrib_right div_mult_mod_eq mult.assoc)
  have bd: "b * d = (b * d div B) * B + b * d mod B" by simp
  have half: "(2 :: nat) ^ 63 = 2 ^ 31 * B" and full: "(2 :: nat) ^ 64 = B * B" by (simp_all add: B_def)
  have "u * v = a * c * (B * B) + (a * d) * B + (b * c) * B + b * d" unfolding u v by (simp add: algebra_simps)
  also have "\<dots> + 2 ^ 63 = h * (B * B) + (q * B + b * d mod B)"
    unfolding half split [of "a * d"] split [of "b * c"] h_def q_def distrib_right using bd by linarith
  finally have "u * v + 2 ^ 63 = h * (B * B) + (q * B + b * d mod B)" .
  then have "(u * v + 2 ^ 63) div 2 ^ 64 = h + (q * B + b * d mod B) div (B * B)"
    unfolding full by (simp add: B_def)
  also have "(q * B + b * d mod B) div (B * B) = q div B"
    by (simp add: div_mult2_eq B_def)
  finally show ?thesis unfolding h_def q_def a_b_c_d_def B_def .
qed

lemma diyMul_high:
  "unat (diyF (diyMul x y)) = (unat (diyF x) * unat (diyF y) + 2 ^ 63) div 2 ^ 64"
proof -
  let ?u = "unat (diyF x)" and ?v = "unat (diyF y)"
  let ?a = "?u div 2 ^ 32" and ?b = "?u mod 2 ^ 32" and ?c = "?v div 2 ^ 32" and ?d = "?v mod 2 ^ 32"
  have lt: "?a < 2 ^ 32" "?c < 2 ^ 32" "?b < 2 ^ 32" "?d < 2 ^ 32"
    using unat_less_2p64 [of "diyF x"] unat_less_2p64 [of "diyF y"] by (simp_all add: less_mult_imp_div_less)
  have prod: "p * q \<le> (2 ^ 32 - 1) * (2 ^ 32 - 1)" if "p < 2 ^ 32" "q < 2 ^ 32" for p q :: nat
    using that by (intro mult_le_mono) auto
  define q where "q = ?b * ?d div 2 ^ 32 + ?b * ?c mod 2 ^ 32 + ?a * ?d mod 2 ^ 32"
  have q: "q + 2 ^ 31 < 2 ^ 64"
  proof -
    have "?b * ?d div 2 ^ 32 < 2 ^ 32" using prod [OF lt(3,4)] by (simp add: less_mult_imp_div_less)
    moreover have "?b * ?c mod 2 ^ 32 < 2 ^ 32" "?a * ?d mod 2 ^ 32 < 2 ^ 32" by simp_all
    ultimately have "q + 2 ^ 31 < 2 ^ 32 + 2 ^ 32 + 2 ^ 32 + 2 ^ 31" unfolding q_def by linarith
    then show ?thesis by simp
  qed
  have "?u * ?v + 2 ^ 63 < 2 ^ 64 * 2 ^ 64"
  proof -
    have "?u * ?v \<le> (2 ^ 64 - 1) * (2 ^ 64 - 1)"
      using unat_less_2p64 [of "diyF x"] unat_less_2p64 [of "diyF y"] by (intro mult_le_mono) auto
    then show ?thesis by simp
  qed
  then have "(?u * ?v + 2 ^ 63) div 2 ^ 64 < 2 ^ 64" by (rule less_mult_imp_div_less)
  then have h: "?a * ?c + ?a * ?d div 2 ^ 32 + ?b * ?c div 2 ^ 32 + (q + 2 ^ 31) div 2 ^ 32 < 2 ^ 64"
    unfolding mul_high q_def .
  have p: "unat (drop_bit 32 (diyF x) * drop_bit 32 (diyF y)) = ?a * ?c"
    "unat (drop_bit 32 (diyF x) * (diyF y AND 0xFFFFFFFF)) = ?a * ?d"
    "unat ((diyF x AND 0xFFFFFFFF) * drop_bit 32 (diyF y)) = ?b * ?c"
    "unat ((diyF x AND 0xFFFFFFFF) * (diyF y AND 0xFFFFFFFF)) = ?b * ?d"
    using lt by (simp_all only: unat_mult32 unat_drop unat_low32)
  let ?A = "drop_bit 32 ((diyF x AND 0xFFFFFFFF) * (diyF y AND 0xFFFFFFFF))"
    and ?B = "(diyF x AND 0xFFFFFFFF) * drop_bit 32 (diyF y) AND 0xFFFFFFFF"
    and ?C = "drop_bit 32 (diyF x) * (diyF y AND 0xFFFFFFFF) AND 0xFFFFFFFF" and ?H = "push_bit (64 - 32 - 1) 1 :: w64"
  let ?Q = "?A + ?B + ?C + ?H"
  have A: "unat ?A = ?b * ?d div 2 ^ 32" and B: "unat ?B = ?b * ?c mod 2 ^ 32" and C: "unat ?C = ?a * ?d mod 2 ^ 32"
    and H: "unat ?H = 2 ^ 31"
    by (simp_all only: unat_drop unat_low32 p) simp
  have Q: "unat ?Q = q + 2 ^ 31"
    using q unat_add4 [of ?A ?B ?C ?H] unfolding A B C H q_def by iprover
  let ?P3 = "drop_bit 32 (diyF x) * drop_bit 32 (diyF y)" and ?P2 = "drop_bit 32 (drop_bit 32 (diyF x) * (diyF y AND 0xFFFFFFFF))"
    and ?P1 = "drop_bit 32 ((diyF x AND 0xFFFFFFFF) * drop_bit 32 (diyF y))" and ?P0 = "drop_bit 32 ?Q"
  have P: "unat ?P2 = ?a * ?d div 2 ^ 32" "unat ?P1 = ?b * ?c div 2 ^ 32" "unat ?P0 = (q + 2 ^ 31) div 2 ^ 32"
    by (simp_all only: unat_drop p Q)
  have "unat (?P3 + ?P2 + ?P1 + ?P0) = ?a * ?c + ?a * ?d div 2 ^ 32 + ?b * ?c div 2 ^ 32 + (q + 2 ^ 31) div 2 ^ 32"
    using h unat_add4 [of ?P3 ?P2 ?P1 ?P0] unfolding P p(1) by iprover
  moreover have "diyF (diyMul x y) = ?P3 + ?P2 + ?P1 + ?P0" by (simp only: diyMul_def Let_def diyfp.simps)
  ultimately show ?thesis unfolding mul_high q_def by (simp only:)
qed

lemma diyMul_exponent [simp]: "diyE (diyMul x y) = diyE x + diyE y + 64"
  by (simp add: diyMul_def Let_def)


section \<open>Normalization\<close>

lemma assertThat_True [run_simps]: "c \<Longrightarrow> assertThat c = ok ()"
  by (simp add: assertThat_def)

lemma ex_shift: "0 < F \<Longrightarrow> F < 2 ^ Suc n \<Longrightarrow> \<exists>s \<le> n. 2 ^ n \<le> F * 2 ^ s \<and> F * 2 ^ s < (2 :: nat) ^ Suc n"
proof (induction n)
  case (Suc n)
  show ?case
  proof (cases "2 ^ Suc n \<le> F")
    case True
    with Suc.prems show ?thesis by (intro exI [of _ 0]) simp
  next
    case False
    with Suc obtain s where "s \<le> n" "2 ^ n \<le> F * 2 ^ s" "F * 2 ^ s < 2 ^ Suc n" by auto
    then show ?thesis by (intro exI [of _ "Suc s"]) simp
  qed
qed simp

lemma normalizeLoop_run:
  "2 ^ 63 \<le> unat (diyF x) * 2 ^ s \<Longrightarrow> unat (diyF x) * 2 ^ s < 2 ^ 64 \<Longrightarrow> s < fuel \<Longrightarrow>
    normalizeLoop fuel x st = (Inr \<lparr>diyF = push_bit s (diyF x), diyE = diyE x - int s\<rparr>, st)"
proof (induction fuel arbitrary: s x)
  case (Suc fuel)
  show ?case
  proof (cases s)
    case 0
    have "unat (drop_bit 63 (diyF x)) \<noteq> 0" using Suc.prems 0 by (simp only: unat_drop) (simp add: div_eq_0_iff)
    then have "drop_bit 63 (diyF x) \<noteq> 0" by (metis unat_0)
    with 0 show ?thesis by (simp add: run_simps)
  next
    case (Suc t)
    have small: "unat (diyF x) < 2 ^ 63"
    proof (rule ccontr)
      assume "\<not> unat (diyF x) < 2 ^ 63"
      then have "2 ^ 63 * 2 ^ 1 \<le> unat (diyF x) * 2 ^ s"
        using Suc by (intro mult_le_mono power_increasing) auto
      then show False using Suc.prems by simp
    qed
    then have "unat (drop_bit 63 (diyF x)) = 0" by (simp only: unat_drop) simp
    then have top: "drop_bit 63 (diyF x) = 0" by (metis unat_eq_zero)
    have one: "unat (push_bit 1 (diyF x)) = unat (diyF x) * 2 ^ 1"
      using small by (intro unat_push_small) simp
    have "normalizeLoop fuel \<lparr>diyF = push_bit 1 (diyF x), diyE = diyE x - 1\<rparr> st =
      (Inr \<lparr>diyF = push_bit t (push_bit 1 (diyF x)), diyE = diyE x - 1 - int t\<rparr>, st)"
      using Suc.prems Suc one by (subst Suc.IH [of _ t]) (simp_all add: mult.assoc)
    moreover have "push_bit t (push_bit 1 (diyF x)) = push_bit s (diyF x)"
      unfolding Suc push_bit_push_bit by simp
    ultimately show ?thesis using top Suc by simp
  qed
qed simp

lemma diyNormalize_run:
  assumes "2 ^ 63 \<le> unat (diyF x) * 2 ^ s" "unat (diyF x) * 2 ^ s < 2 ^ 64" "s < 64"
  shows "diyNormalize x st = (Inr \<lparr>diyF = push_bit s (diyF x), diyE = diyE x - int s\<rparr>, st)"
proof -
  have "diyF x \<noteq> 0" using assms(1) by auto
  then show ?thesis using normalizeLoop_run [OF assms] by (simp add: diyNormalize_def run_simps)
qed

lemma normalizeTo_run:
  assumes "diyE x = e + int s" "s < 64" "unat (diyF x) * 2 ^ s < 2 ^ 64"
  shows "normalizeTo x e st = (Inr \<lparr>diyF = push_bit s (diyF x), diyE = e\<rparr>, st)"
proof -
  have "unat (drop_bit s (push_bit s (diyF x))) = unat (diyF x)"
    by (simp only: unat_drop unat_push_small [OF assms(3)]) simp
  then have "drop_bit s (push_bit s (diyF x)) = diyF x" by (metis unsigned_word_eqI)
  then show ?thesis using assms(1,2) by (simp add: normalizeTo_def run_simps)
qed


section \<open>The value of a \<open>double\<close>\<close>

text \<open>
  The magnitude that a bit pattern without its sign stands for; the pattern after the largest number stands for the
  power of two that would follow.
\<close>

definition significand :: "nat \<Rightarrow> nat" where
  "significand n = (if n div 2 ^ 52 = 0 then n mod 2 ^ 52 else n mod 2 ^ 52 + 2 ^ 52)"

definition binaryExponent :: "nat \<Rightarrow> int" where
  "binaryExponent n = (if n div 2 ^ 52 = 0 then -1074 else int (n div 2 ^ 52) - 1075)"

definition magnitude :: "nat \<Rightarrow> rat" where
  "magnitude n = of_nat (significand n) * 2 powi binaryExponent n"

definition bitsOf :: "w64 \<Rightarrow> nat" where
  "bitsOf x = unat x mod 2 ^ 63"

definition doubleValue :: "w64 \<Rightarrow> rat" where
  "doubleValue x = (if signbit x then - magnitude (bitsOf x) else magnitude (bitsOf x))"

text \<open>The midpoints to the neighbours.\<close>

definition lowerMid :: "nat \<Rightarrow> rat" where
  "lowerMid n = (magnitude (n - 1) + magnitude n) / 2"

definition upperMid :: "nat \<Rightarrow> rat" where
  "upperMid n = (magnitude n + magnitude (n + 1)) / 2"

lemma pattern_cases [case_names denormal normal]:
  fixes n :: nat
  obtains F where "n = F" "F < 2 ^ 52" | E F where "n = E * 2 ^ 52 + F" "1 \<le> E" "F < 2 ^ 52"
proof (cases "n < 2 ^ 52")
  case False
  then have "1 \<le> n div 2 ^ 52" by (simp add: Suc_le_eq div_greater_zero_iff)
  moreover have "n = n div 2 ^ 52 * 2 ^ 52 + n mod 2 ^ 52" "n mod 2 ^ 52 < 2 ^ 52" by simp_all
  ultimately show thesis using that(2) by blast
qed (use that in blast)

lemma denormal_parts: "F < 2 ^ 52 \<Longrightarrow> significand F = F" "F < 2 ^ 52 \<Longrightarrow> binaryExponent F = -1074"
  by (simp_all add: significand_def binaryExponent_def)

lemma normal_parts:
  assumes "1 \<le> E" "F < 2 ^ 52"
  shows "significand (E * 2 ^ 52 + F) = F + 2 ^ 52" "binaryExponent (E * 2 ^ 52 + F) = int E - 1075"
  using assms by (simp_all add: significand_def binaryExponent_def)

lemma two_powi_Suc: "(2 :: rat) powi (e + 1) = 2 * 2 powi e"
  by (simp add: power_int_add)

lemma powi_shift: "(2 :: rat) powi (e - int s) * 2 ^ s = 2 powi e"
  by (simp add: power_int_diff)

lemma magnitude_next: "magnitude (n + 1) = (of_nat (significand n) + 1) * 2 powi binaryExponent n"
proof (cases n rule: pattern_cases)
  case (denormal F)
  show ?thesis
  proof (cases "F + 1 < 2 ^ 52")
    case True
    then show ?thesis unfolding denormal(1) magnitude_def denormal_parts [OF True] denormal_parts [OF denormal(2)] by simp
  next
    case False
    with denormal have F: "F = 2 ^ 52 - 1" by simp
    have "magnitude (1 * 2 ^ 52 + 0) = 2 ^ 52 * 2 powi (-1074)"
      unfolding magnitude_def by (subst normal_parts, simp, simp, subst normal_parts) simp_all
    then show ?thesis unfolding denormal(1) denormal_parts [OF denormal(2)] by (simp add: F)
  qed
next
  case (normal E F)
  show ?thesis
  proof (cases "F + 1 < 2 ^ 52")
    case True
    then show ?thesis
      using normal_parts [OF normal(2) True] unfolding normal(1) magnitude_def normal_parts [OF normal(2,3)]
      by (simp add: add.assoc)
  next
    case False
    with normal have F: "F = 2 ^ 52 - 1" by simp
    then have n: "n + 1 = (E + 1) * 2 ^ 52 + 0" using normal(1) by simp
    have e: "int (E + 1) - 1075 = int E - 1075 + 1" by simp
    have "magnitude (n + 1) = 2 ^ 52 * (2 * 2 powi (int E - 1075))"
      unfolding n magnitude_def by (subst normal_parts, simp, simp, subst normal_parts, simp, simp)
        (simp only: e two_powi_Suc, simp)
    then show ?thesis unfolding normal(1) normal_parts [OF normal(2,3)] by (simp add: F)
  qed
qed

lemma magnitude_strict: "magnitude n < magnitude (n + 1)"
  unfolding magnitude_next by (simp add: magnitude_def)

lemma magnitude_mono: "m < n \<Longrightarrow> magnitude m < magnitude n"
  using lift_Suc_mono_less [of magnitude] magnitude_strict by (simp only: Suc_eq_plus1)

lemma magnitude_0 [simp]: "magnitude 0 = 0"
  by (simp add: magnitude_def significand_def)

lemma upperMid_eq: "upperMid n = (2 * of_nat (significand n) + 1) * 2 powi (binaryExponent n - 1)"
  unfolding upperMid_def magnitude_next using powi_shift [of "binaryExponent n" 1]
  by (simp add: magnitude_def field_simps)

text \<open>The predecessor of a power of two is only half as far away.\<close>

definition closerBelow :: "nat \<Rightarrow> bool" where
  "closerBelow n \<longleftrightarrow> n mod 2 ^ 52 = 0 \<and> 1 < n div 2 ^ 52"

lemma magnitude_previous:
  assumes "1 \<le> n"
  shows "magnitude (n - 1) = (if closerBelow n then (2 * of_nat (significand n) - 1) * 2 powi (binaryExponent n - 1)
    else (of_nat (significand n) - 1) * 2 powi binaryExponent n)"
proof -
  have next_: "magnitude n = (of_nat (significand (n - 1)) + 1) * 2 powi binaryExponent (n - 1)"
    using magnitude_next [of "n - 1"] assms by simp
  show ?thesis
  proof (cases "closerBelow n")
    case True
    then obtain E where n: "n = E * 2 ^ 52 + 0" "1 < E" unfolding closerBelow_def
      by (metis add_0_right div_mult_mod_eq)
    then have m: "n - 1 = (E - 1) * 2 ^ 52 + (2 ^ 52 - 1)" by (cases E) auto
    have E: "1 \<le> E - 1" "1 \<le> E" using n(2) by auto
    have parts: "significand (n - 1) = 2 ^ 53 - 1" "binaryExponent (n - 1) = int E - 1075 - 1"
      using normal_parts [OF E(1), of "2 ^ 52 - 1"] E(1) unfolding m by (simp_all add: of_nat_diff)
    have parts': "significand n = 2 ^ 52" "binaryExponent n = int E - 1075"
      using normal_parts [OF E(2), of 0] unfolding n by simp_all
    show ?thesis using True unfolding magnitude_def parts parts' by simp
  next
    case False
    have "binaryExponent (n - 1) = binaryExponent n"
    proof (cases n rule: pattern_cases)
      case (denormal F)
      then have "n - 1 < 2 ^ 52" by simp
      from denormal_parts [OF this] denormal_parts [OF denormal(2)] show ?thesis unfolding denormal(1) by simp
    next
      case (normal E F)
      show ?thesis
      proof (cases F)
        case 0
        with normal False have E: "E = 1" by (simp add: closerBelow_def)
        have "n - 1 < 2 ^ 52" using normal 0 E by simp
        from denormal_parts [OF this] normal_parts [OF normal(2,3)] show ?thesis unfolding normal(1) E by simp
      next
        case (Suc G)
        then have m: "n - 1 = E * 2 ^ 52 + G" "G < 2 ^ 52" using normal by simp_all
        from normal_parts [OF normal(2) m(2)] normal_parts [OF normal(2,3)] show ?thesis
          by (simp only: m(1) flip: normal(1))
      qed
    qed
    with next_ False show ?thesis by (simp add: magnitude_def algebra_simps)
  qed
qed

lemma lowerMid_eq:
  assumes "1 \<le> n"
  shows "lowerMid n = (if closerBelow n then (4 * of_nat (significand n) - 1) * 2 powi (binaryExponent n - 2)
    else (2 * of_nat (significand n) - 1) * 2 powi (binaryExponent n - 1))"
  unfolding lowerMid_def magnitude_previous [OF assms]
  using powi_shift [of "binaryExponent n" 1] powi_shift [of "binaryExponent n" 2]  powi_shift [of "binaryExponent n - 1" 1]
  by (simp add: magnitude_def field_simps)


section \<open>Reading the bits\<close>

lemma mask_52: "kHiddenBit - 1 = mask 52"
  by (simp add: kHiddenBit_def kPrecision_def mask_eq_exp_minus_1)

lemma mask_63: "push_bit 63 1 - 1 = (mask 63 :: w64)"
  by (simp add: mask_eq_exp_minus_1)

lemma bitsOf_less: "bitsOf x < 2 ^ 63"
  by (simp add: bitsOf_def)

lemma isZero_bits: "isZero x \<longleftrightarrow> bitsOf x = 0"
proof -
  have "unat (x AND mask 63) = bitsOf x" by (simp only: unat_and_mask bitsOf_def)
  then show ?thesis unfolding isZero_def mask_63 by (metis unat_eq_zero)
qed

lemma signbit_bits: "signbit x \<longleftrightarrow> 2 ^ 63 \<le> unat x"
proof -
  have "signbit x \<longleftrightarrow> bit (unat x) 63" by (simp add: signbit_def bit_unsigned_iff)
  also have "\<dots> \<longleftrightarrow> odd (unat x div 2 ^ 63)" by (rule bit_iff_odd)
  also have "unat x div 2 ^ 63 < 2" using unat_less_2p64 [of x] by (intro less_mult_imp_div_less) simp
  then have "odd (unat x div 2 ^ 63) \<longleftrightarrow> 0 < unat x div 2 ^ 63" by (cases "unat x div 2 ^ 63") auto
  also have "\<dots> \<longleftrightarrow> 2 ^ 63 \<le> unat x" by (simp add: div_greater_zero_iff)
  finally show ?thesis .
qed

lemma positive_bits: "isPositive x \<Longrightarrow> bitsOf x = unat x \<and> 1 \<le> unat x \<and> unat x < 2 ^ 63"
  by (auto simp: isPositive_def signbit_bits isZero_bits bitsOf_def Suc_le_eq intro: gr0I)

lemma isfinite_bits: "isfinite x \<longleftrightarrow> bitsOf x < 2047 * 2 ^ 52"
proof -
  let ?E = "unat x div 2 ^ 52 mod 2 ^ 11"
  have mask: "(0x7FF :: w64) = mask 11" by (simp add: mask_numeral)
  have "unat (drop_bit 52 x AND 0x7FF) = ?E" unfolding mask by (simp only: unat_and_mask unat_drop)
  then have "isfinite x \<longleftrightarrow> ?E \<noteq> unat (0x7FF :: w64)" unfolding isfinite_def by (metis unsigned_word_eqI)
  also have "unat (0x7FF :: w64) = 2047" by simp
  also have "?E \<noteq> 2047 \<longleftrightarrow> ?E < 2047" using mod_less_divisor [of "2 ^ 11" "unat x div 2 ^ 52"] by (auto simp del: mod_less_divisor)
  also have "?E = bitsOf x div 2 ^ 52"
    using mod_mult2_eq [of "unat x" "2 ^ 52" "2 ^ 11"] by (simp add: bitsOf_def)
  also have "bitsOf x div 2 ^ 52 < 2047 \<longleftrightarrow> bitsOf x < 2047 * 2 ^ 52" by (simp add: div_less_iff_less_mult)
  finally show ?thesis .
qed

lemma significand_bound: "1 \<le> n \<Longrightarrow> 0 < significand n \<and> significand n < 2 ^ 53"
  using mod_less_divisor [of "2 ^ 52" n] by (auto simp: significand_def simp del: mod_less_divisor intro: gr0I)

lemma binaryExponent_bound: "n < 2047 * 2 ^ 52 \<Longrightarrow> -1074 \<le> binaryExponent n \<and> binaryExponent n \<le> 971"
proof -
  assume "n < 2047 * 2 ^ 52"
  then have "n div 2 ^ 52 < 2047" by (intro less_mult_imp_div_less) simp
  then show ?thesis by (auto simp: binaryExponent_def simp del: div_eq_0_iff)
qed

lemma signed_take_bit_small: "k < 2047 \<Longrightarrow> signed_take_bit 31 (int k) = int k"
  by (intro signed_take_bit_int_eq_self) simp_all

text \<open>The number as the code takes it apart.\<close>

definition plainDiy :: "w64 \<Rightarrow> diyfp" where
  "plainDiy x = (if drop_bit (kPrecision - 1) x = 0 then \<lparr>diyF = x AND (kHiddenBit - 1), diyE = kMinExp\<rparr>
     else \<lparr>diyF = (x AND (kHiddenBit - 1)) + kHiddenBit, diyE = sint (ucast (drop_bit (kPrecision - 1) x) :: 32 word) - kBias\<rparr>)"

lemma plainDiy_parts:
  assumes "unat x < 2047 * 2 ^ 52"
  shows "unat (diyF (plainDiy x)) = significand (unat x)" "diyE (plainDiy x) = binaryExponent (unat x)"
proof -
  let ?E = "drop_bit 52 x"
  have E: "unat ?E = unat x div 2 ^ 52" by (rule unat_drop)
  have F: "unat (x AND mask 52) = unat x mod 2 ^ 52" by (rule unat_and_mask)
  have zero: "?E = 0 \<longleftrightarrow> unat x div 2 ^ 52 = 0" by (metis E unat_eq_zero)
  have hidden: "unat kHiddenBit = 2 ^ 52" by (simp add: kHiddenBit_def kPrecision_def)
  have "unat ((x AND mask 52) + kHiddenBit) = unat x mod 2 ^ 52 + 2 ^ 52"
    using mod_less_divisor [of "2 ^ 52" "unat x"] by (subst unat_add_small) (simp_all only: F hidden, simp)
  then show "unat (diyF (plainDiy x)) = significand (unat x)"
    by (simp add: plainDiy_def kPrecision_def mask_52 [unfolded kPrecision_def] zero significand_def F)
  have small: "unat ?E < 2047" unfolding E using assms by (intro less_mult_imp_div_less) simp
  have "sint (ucast ?E :: 32 word) = int (unat ?E)"
  proof -
    have "unat (ucast ?E :: 32 word) = unat ?E"
      using small by (simp add: unsigned_ucast_eq take_bit_nat_eq_self)
    then have "uint (ucast ?E :: 32 word) = int (unat ?E)" by (metis of_nat_unat)
    moreover have "sint (ucast ?E :: 32 word) = signed_take_bit 31 (uint (ucast ?E :: 32 word))" by (simp add: sint_uint)
    moreover have "signed_take_bit 31 (int (unat ?E)) = int (unat ?E)"
      using small by (intro signed_take_bit_small)
    ultimately show ?thesis by (simp only:)
  qed
  then show "diyE (plainDiy x) = binaryExponent (unat x)"
    using zero E by (simp add: plainDiy_def kPrecision_def kMinExp_def kBias_def binaryExponent_def)
qed


section \<open>The boundaries are the midpoints\<close>

text \<open>A significand at the exponent \<open>e\<close> stands for a number.\<close>

definition scaled :: "nat \<Rightarrow> int \<Rightarrow> rat" where
  "scaled F e = of_nat F * 2 powi e"

lemma scaled_nonneg [simp]: "0 \<le> scaled F e"
  by (simp add: scaled_def)

lemma scaled_push: "scaled (F * 2 ^ s) (e - int s) = scaled F e"
  using powi_shift [of e s] by (simp add: scaled_def mult.assoc mult.commute [of "2 ^ s"])

lemma normal_shift:
  assumes "0 < f" "f < 2 ^ 53"
  obtains r where "9 \<le> r" "r \<le> 61" "2 ^ 63 \<le> f * 2 ^ (r + 2)" "(f + 1) * 2 ^ (r + 2) \<le> (2 :: nat) ^ 64"
proof -
  obtain s where s: "s \<le> 63" "2 ^ 63 \<le> f * 2 ^ s" "f * 2 ^ s < 2 ^ 64"
    using ex_shift [of f 63] assms by auto
  have "11 \<le> s"
  proof (rule ccontr)
    assume "\<not> 11 \<le> s"
    then have "f * 2 ^ s < 2 ^ 53 * 2 ^ 10" using assms by (intro mult_less_le_imp_less power_increasing) auto
    with s show False by simp
  qed
  then obtain k where "s = 11 + k" by (metis le_Suc_ex)
  then obtain r where r: "s = r + 2" "9 \<le> r" using that [of "9 + k"] by simp
  have split: "(2 :: nat) ^ 64 = 2 ^ (64 - s) * 2 ^ s" using s(1) by (simp only: flip: power_add) simp
  have "f < 2 ^ (64 - s)" using s(3) unfolding split by (simp only: mult_less_cancel2)
  then have "(f + 1) * 2 ^ s \<le> 2 ^ (64 - s) * 2 ^ s" by (intro mult_le_mono) auto
  with s r show thesis by (intro that [of r]) (simp_all only: split)
qed

lemma odd_significands:
  assumes "0 < unat F" "unat F < 2 ^ 53"
  shows "unat (2 * F + 1) = 2 * unat F + 1" "unat (2 * F - 1) = 2 * unat F - 1" "unat (4 * F - 1) = 4 * unat (F :: w64) - 1"
proof -
  have twice: "unat (2 * F) = 2 * unat F" "unat (4 * F) = 4 * unat F" using assms by (simp_all add: unat_word_ariths)
  then have "2 * F \<noteq> 0" "4 * F \<noteq> 0" using assms by (metis mult_eq_0_iff neq0_conv unat_0 zero_neq_numeral)+
  then show "unat (2 * F - 1) = 2 * unat F - 1" "unat (4 * F - 1) = 4 * unat F - 1"
    by (simp_all only: unat_minus_one twice not_False_eq_True)
  show "unat (2 * F + 1) = 2 * unat F + 1" using assms by (simp add: unat_word_ariths)
qed

text \<open>The lower boundary as the code writes it.\<close>

definition plainMinus :: "w64 \<Rightarrow> diyfp" where
  "plainMinus x = (if x AND (kHiddenBit - 1) = 0 \<and> drop_bit (kPrecision - 1) x > 1
     then \<lparr>diyF = 4 * diyF (plainDiy x) - 1, diyE = diyE (plainDiy x) - 2\<rparr>
     else \<lparr>diyF = 2 * diyF (plainDiy x) - 1, diyE = diyE (plainDiy x) - 1\<rparr>)"

lemma computeBoundaries_plain:
  "computeBoundaries x =
     andThen (assertThat (isfinite x)) (\<lambda>_. andThen (assertThat (isPositive x)) (\<lambda>_.
     andThen (diyNormalize \<lparr>diyF = 2 * diyF (plainDiy x) + 1, diyE = diyE (plainDiy x) - 1\<rparr>) (\<lambda>w_plus.
     andThen (normalizeTo (plainMinus x) (diyE w_plus)) (\<lambda>w_minus.
     andThen (diyNormalize (plainDiy x)) (\<lambda>w.
       ok \<lparr>boundW = w, boundMinus = w_minus, boundPlus = w_plus\<rparr>)))))"
  by (simp only: computeBoundaries_def plainDiy_def plainMinus_def Let_def)

lemma closerBelow_code:
  "closerBelow (unat x) \<longleftrightarrow> x AND (kHiddenBit - 1) = 0 \<and> drop_bit (kPrecision - 1) x > 1"
proof -
  have "unat x mod 2 ^ 52 = 0 \<longleftrightarrow> x AND mask 52 = 0" by (metis unat_and_mask unat_eq_zero)
  moreover have "1 < unat x div 2 ^ 52 \<longleftrightarrow> drop_bit 52 x > 1" by (simp only: word_less_nat_alt unat_drop) simp
  ultimately show ?thesis unfolding closerBelow_def mask_52 by (simp add: kPrecision_def)
qed

text \<open>
  The boundaries share an exponent; the upper one is well above the number and the number well above the lower one,
  and the distance of the two boundaries is not too small a part of them.
\<close>

definition goodBounds :: "nat \<Rightarrow> nat \<Rightarrow> nat \<Rightarrow> bool" where
  "goodBounds M W P \<longleftrightarrow> 2 ^ 63 \<le> W \<and> W + 2 ^ 10 \<le> P \<and> M + 2 ^ 9 \<le> W \<and> P < 2 ^ 53 * (P - M)"

lemma goodBounds_far:
  assumes "9 \<le> r" "2 ^ 63 \<le> f * 2 ^ (r + 2)" "f < 2 ^ 53"
  shows "goodBounds ((2 * f - 1) * 2 ^ (r + 1)) (f * 2 ^ (r + 2)) ((2 * f + 1) * 2 ^ (r + 1))"
proof -
  define R :: nat where "R = 2 ^ r"
  have R: "512 \<le> R" using power_increasing [OF assms(1), of "2 :: nat"] by (simp add: R_def)
  have f: "0 < f" using assms(2) by (auto intro: gr0I)
  obtain g where g: "f = Suc g" using f by (cases f) auto
  have eqs: "(2 * f - 1) * 2 ^ (r + 1) = 4 * (g * R) + 2 * R" "f * 2 ^ (r + 2) = 4 * (g * R) + 4 * R"
    "(2 * f + 1) * 2 ^ (r + 1) = 4 * (g * R) + 6 * R" by (simp_all add: g R_def algebra_simps)
  have "(4 * g + 6) * R < 2 ^ 55 * R" using assms(3) g R by (intro mult_strict_right_mono) auto
  then have "4 * (g * R) + 6 * R < 2 ^ 53 * (4 * R)" by (simp add: algebra_simps)
  moreover have "4 * (g * R) + 6 * R - (4 * (g * R) + 2 * R) = 4 * R" by simp
  ultimately show ?thesis using assms(2) R unfolding goodBounds_def eqs by simp
qed

lemma goodBounds_near:
  assumes "9 \<le> r" "2 ^ 63 \<le> f * 2 ^ (r + 2)" "f = 2 ^ 52"
  shows "goodBounds ((4 * f - 1) * 2 ^ r) (f * 2 ^ (r + 2)) ((2 * f + 1) * 2 ^ (r + 1))"
proof -
  define R :: nat where "R = 2 ^ r"
  have R: "512 \<le> R" using power_increasing [OF assms(1), of "2 :: nat"] by (simp add: R_def)
  have eqs: "(4 * f - 1) * 2 ^ r = (2 ^ 54 - 1) * R" "f * 2 ^ (r + 2) = 2 ^ 54 * R"
    "(2 * f + 1) * 2 ^ (r + 1) = (2 ^ 54 + 2) * R" by (simp_all add: assms(3) R_def)
  show ?thesis using assms(2) R unfolding goodBounds_def eqs by simp
qed

lemma powi_back: "2 powi (b - 1) = 2 powi (b - int (r + 2)) * (2 :: rat) ^ (r + 1)" "2 powi (b - 2) = 2 powi (b - int (r + 2)) * (2 :: rat) ^ r"
  using powi_shift [of "b - 1" "r + 1"] powi_shift [of "b - 2" r] by (simp_all add: algebra_simps)

lemma scaled_bounds:
  assumes "1 \<le> n"
  defines "f \<equiv> significand n" and "b \<equiv> binaryExponent n"
  shows "scaled (f * 2 ^ (r + 2)) (b - int (r + 2)) = magnitude n"
    "scaled ((2 * f + 1) * 2 ^ (r + 1)) (b - int (r + 2)) = upperMid n"
    "closerBelow n \<Longrightarrow> scaled ((4 * f - 1) * 2 ^ r) (b - int (r + 2)) = lowerMid n"
    "\<not> closerBelow n \<Longrightarrow> scaled ((2 * f - 1) * 2 ^ (r + 1)) (b - int (r + 2)) = lowerMid n"
proof -
  have f: "1 \<le> f" using significand_bound [OF assms(1)] by (simp add: f_def)
  show "scaled (f * 2 ^ (r + 2)) (b - int (r + 2)) = magnitude n"
    unfolding scaled_push by (simp add: scaled_def magnitude_def f_def b_def)
  show "scaled ((2 * f + 1) * 2 ^ (r + 1)) (b - int (r + 2)) = upperMid n"
    unfolding upperMid_eq powi_back [of _ r] by (simp add: scaled_def f_def b_def algebra_simps)
  show "closerBelow n \<Longrightarrow> scaled ((4 * f - 1) * 2 ^ r) (b - int (r + 2)) = lowerMid n"
    "\<not> closerBelow n \<Longrightarrow> scaled ((2 * f - 1) * 2 ^ (r + 1)) (b - int (r + 2)) = lowerMid n"
    using f unfolding lowerMid_eq [OF assms(1)] powi_back [of _ r] by (simp_all add: scaled_def f_def b_def of_nat_diff algebra_simps)
qed

lemma closerBelow_significand: "closerBelow n \<Longrightarrow> significand n = 2 ^ 52"
  by (simp add: closerBelow_def significand_def)

lemma shift_fits:
  assumes "2 ^ 63 \<le> f * 2 ^ (r + 2)" "(f + 1) * 2 ^ (r + 2) \<le> (2 :: nat) ^ 64"
  shows "f * 2 ^ (r + 2) < 2 ^ 64" "(2 * f + 1) * 2 ^ (r + 1) < 2 ^ 64" "(2 * f - 1) * 2 ^ (r + 1) < 2 ^ 64"
    "(4 * f - 1) * 2 ^ r < 2 ^ 64" "2 ^ 63 \<le> (2 * f + 1) * 2 ^ (r + 1)"
proof -
  have "(2 * f + 1) * 2 ^ (r + 1) < (f + 1) * 2 ^ (r + 2)" "(2 * f - 1) * 2 ^ (r + 1) \<le> f * 2 ^ (r + 2)"
    "(4 * f - 1) * 2 ^ r \<le> f * 2 ^ (r + 2)" "f * 2 ^ (r + 2) \<le> (2 * f + 1) * 2 ^ (r + 1)" "f * 2 ^ (r + 2) < (f + 1) * 2 ^ (r + 2)"
    by (simp_all add: algebra_simps diff_mult_distrib)
  with assms show "f * 2 ^ (r + 2) < 2 ^ 64" "(2 * f + 1) * 2 ^ (r + 1) < 2 ^ 64" "(2 * f - 1) * 2 ^ (r + 1) < 2 ^ 64"
    "(4 * f - 1) * 2 ^ r < 2 ^ 64" "2 ^ 63 \<le> (2 * f + 1) * 2 ^ (r + 1)" by linarith+
qed

lemma lowerBoundary_run:
  assumes n: "1 \<le> n" "n = unat x" and F: "unat (diyF (plainDiy x)) = f" "diyE (plainDiy x) = b"
    and f: "f = significand n" "0 < f" "f < 2 ^ 53" and b: "b = binaryExponent n"
    and r: "9 \<le> r" "r \<le> 61" "2 ^ 63 \<le> f * 2 ^ (r + 2)" "(f + 1) * 2 ^ (r + 2) \<le> 2 ^ 64" and e: "e = b - int (r + 2)"
  obtains M where "normalizeTo (plainMinus x) e st = (Inr \<lparr>diyF = M, diyE = e\<rparr>, st)"
    "scaled (unat M) e = lowerMid n" "goodBounds (unat M) (f * 2 ^ (r + 2)) ((2 * f + 1) * 2 ^ (r + 1))"
proof -
  let ?F = "diyF (plainDiy x)"
  have odd: "unat (2 * ?F - 1) = 2 * f - 1" "unat (4 * ?F - 1) = 4 * f - 1"
    using odd_significands [of ?F] f by (simp_all only: F)
  note fits = shift_fits [OF r(3,4)]
  show thesis
  proof (cases "closerBelow n")
    case True
    have "plainMinus x = \<lparr>diyF = 4 * ?F - 1, diyE = b - 2\<rparr>"
      using True closerBelow_code [of x] by (simp add: plainMinus_def F n(2))
    then show thesis
      using that [of "push_bit r (4 * ?F - 1)"] normalizeTo_run [of "plainMinus x" e r st] fits(4) r(1-3) odd(2)
        scaled_bounds(3) [OF n(1) True, of r] goodBounds_near [of r f] closerBelow_significand [OF True]
      by (simp add: unat_push_small e f(1) b)
  next
    case False
    have "plainMinus x = \<lparr>diyF = 2 * ?F - 1, diyE = b - 1\<rparr>"
      using False closerBelow_code [of x] by (auto simp: plainMinus_def F n(2))
    then have "normalizeTo (plainMinus x) e st = (Inr \<lparr>diyF = push_bit (r + 1) (2 * ?F - 1), diyE = e\<rparr>, st)"
      using normalizeTo_run [of "plainMinus x" e "r + 1" st] fits(3) r(2) odd(1) by (simp add: e)
    moreover have "unat (push_bit (r + 1) (2 * ?F - 1)) = (2 * f - 1) * 2 ^ (r + 1)"
      using unat_push_small [of "2 * ?F - 1" "r + 1"] fits(3) unfolding odd(1) .
    ultimately show thesis
      using that [of "push_bit (r + 1) (2 * ?F - 1)"] scaled_bounds(4) [OF n(1) False, of r] goodBounds_far [of r f] r f(3)
      by (simp only: e f(1) b)
  qed
qed

lemma computeBoundaries_run:
  assumes "isfinite x" "isPositive x"
  obtains W M P e where "computeBoundaries x st = (Inr \<lparr>boundW = \<lparr>diyF = W, diyE = e\<rparr>,
      boundMinus = \<lparr>diyF = M, diyE = e\<rparr>, boundPlus = \<lparr>diyF = P, diyE = e\<rparr>\<rparr>, st)"
    "scaled (unat W) e = magnitude (unat x)" "scaled (unat M) e = lowerMid (unat x)" "scaled (unat P) e = upperMid (unat x)"
    "goodBounds (unat M) (unat W) (unat P)" "-1137 \<le> e" "e \<le> 960"
proof -
  define n where "n = unat x"
  define f where "f = significand n"
  define b where "b = binaryExponent n"
  let ?F = "diyF (plainDiy x)"
  have n: "1 \<le> n" "n < 2047 * 2 ^ 52" using positive_bits [OF assms(2)] assms(1) by (simp_all add: n_def isfinite_bits)
  have f: "0 < f" "f < 2 ^ 53" using significand_bound [OF n(1)] by (simp_all add: f_def)
  have b: "-1074 \<le> b" "b \<le> 971" using binaryExponent_bound [OF n(2)] by (simp_all add: b_def)
  obtain r where r: "9 \<le> r" "r \<le> 61" "2 ^ 63 \<le> f * 2 ^ (r + 2)" "(f + 1) * 2 ^ (r + 2) \<le> 2 ^ 64"
    using normal_shift [OF f] .
  have F: "unat ?F = f" "diyE (plainDiy x) = b" using plainDiy_parts [of x] n(2) by (simp_all add: n_def f_def b_def)
  have odd: "unat (2 * ?F + 1) = 2 * f + 1" using odd_significands [of ?F] f by (simp only: F)
  define e where "e = b - int (r + 2)"
  note fits = shift_fits [OF r(3,4)]
  have W: "diyNormalize (plainDiy x) st = (Inr \<lparr>diyF = push_bit (r + 2) ?F, diyE = e\<rparr>, st)"
    using diyNormalize_run [of "plainDiy x" "r + 2"] r fits(1) by (simp only: F e_def) simp
  have P: "diyNormalize \<lparr>diyF = 2 * ?F + 1, diyE = diyE (plainDiy x) - 1\<rparr> st =
      (Inr \<lparr>diyF = push_bit (r + 1) (2 * ?F + 1), diyE = e\<rparr>, st)"
    using diyNormalize_run [of "\<lparr>diyF = 2 * ?F + 1, diyE = b - 1\<rparr>" "r + 1"] r fits(2,5)
    by (simp add: odd F e_def diff_diff_eq)
  obtain M where M: "normalizeTo (plainMinus x) e st = (Inr \<lparr>diyF = M, diyE = e\<rparr>, st)"
    "scaled (unat M) e = lowerMid n" "goodBounds (unat M) (f * 2 ^ (r + 2)) ((2 * f + 1) * 2 ^ (r + 1))"
    by (rule lowerBoundary_run [OF n(1) n_def F f_def f b_def r e_def])
  show thesis
  proof (rule that)
    show "computeBoundaries x st = (Inr \<lparr>boundW = \<lparr>diyF = push_bit (r + 2) ?F, diyE = e\<rparr>,
      boundMinus = \<lparr>diyF = M, diyE = e\<rparr>, boundPlus = \<lparr>diyF = push_bit (r + 1) (2 * ?F + 1), diyE = e\<rparr>\<rparr>, st)"
      unfolding computeBoundaries_plain using assms W P M(1) by (simp add: run_simps andThen_def)
  next
    have W': "unat (push_bit (r + 2) ?F) = f * 2 ^ (r + 2)" and P': "unat (push_bit (r + 1) (2 * ?F + 1)) = (2 * f + 1) * 2 ^ (r + 1)"
      using unat_push_small [of ?F "r + 2"] unat_push_small [of "2 * ?F + 1" "r + 1"] fits(1,2) unfolding odd F(1) by iprover+
    show "scaled (unat (push_bit (r + 2) ?F)) e = magnitude (unat x)"
      "scaled (unat (push_bit (r + 1) (2 * ?F + 1))) e = upperMid (unat x)"
      unfolding W' P' e_def using scaled_bounds(1,2) [OF n(1), of r] unfolding f_def b_def n_def by iprover+
    show "goodBounds (unat M) (unat (push_bit (r + 2) ?F)) (unat (push_bit (r + 1) (2 * ?F + 1)))"
      unfolding W' P' by (rule M(3))
  qed (use b r(1,2) M(2) in \<open>simp_all add: e_def n_def\<close>)
qed

end
