(* ===== verification/GrisuPowers.thy ===== *)
theory GrisuPowers
  imports GrisuArith
begin

text \<open>
  The cached powers of ten: every entry of the table is the power of ten it stands for, correct to half a unit in its
  last place, and the index that \<open>get_cached_power_for_binary_exponent\<close> computes picks one that moves the exponent of the
  product into the range the digit generation needs.
\<close>

section \<open>The table is accurate\<close>

text \<open>Exact powers of ten are enclosed in intervals of about 170 bits.\<close>

definition encloses :: "int \<Rightarrow> int \<Rightarrow> int \<Rightarrow> int \<Rightarrow> bool" where
  "encloses lo hi x k \<longleftrightarrow> 0 \<le> lo \<and> of_int lo * 2 powi x \<le> (10 powi k :: rat) \<and> (10 powi k :: rat) \<le> of_int hi * 2 powi x"

definition accurate :: "w64 \<times> int \<times> int \<Rightarrow> bool" where
  "accurate p \<longleftrightarrow> (case p of (f, e, k) \<Rightarrow>
     2 ^ 63 \<le> uint f \<and> \<bar>of_int (uint f) * 2 powi e - 10 powi k\<bar> \<le> (2 powi (e - 1) :: rat))"

fun checkUp :: "int \<Rightarrow> int \<Rightarrow> int \<Rightarrow> int \<Rightarrow> (w64 \<times> int \<times> int) list \<Rightarrow> bool" where
  "checkUp lo hi x k [] = True"
| "checkUp lo hi x k ((f, e, j) # es) =
     (j = k \<and> x \<le> e - 1 \<and> 2 ^ 63 \<le> uint f \<and>
      push_bit (nat (e - 1 - x)) (2 * uint f - 1) \<le> lo \<and> hi \<le> push_bit (nat (e - 1 - x)) (2 * uint f + 1) \<and>
      checkUp (drop_bit 27 (lo * 100000000)) (drop_bit 27 (hi * 100000000) + 1) (x + 27) (k + 8) es)"

fun checkDown :: "int \<Rightarrow> int \<Rightarrow> int \<Rightarrow> int \<Rightarrow> (w64 \<times> int \<times> int) list \<Rightarrow> bool" where
  "checkDown lo hi x k [] = True"
| "checkDown lo hi x k ((f, e, j) # es) =
     (j = - k \<and> x \<le> 1 - e \<and> 2 ^ 63 \<le> uint f \<and>
      (2 * uint f - 1) * hi \<le> push_bit (nat (1 - e - x)) 1 \<and> push_bit (nat (1 - e - x)) 1 \<le> (2 * uint f + 1) * lo \<and>
      checkDown (drop_bit 27 (lo * 100000000)) (drop_bit 27 (hi * 100000000) + 1) (x + 27) (k + 8) es)"

lemma powi_push: "x \<le> e \<Longrightarrow> (of_int (push_bit (nat (e - x)) a) :: rat) * 2 powi x = of_int a * 2 powi e"
proof -
  assume "x \<le> e"
  then have e: "e = x + int (nat (e - x))" by simp
  have "(2 :: rat) powi e = 2 powi x * 2 ^ nat (e - x)" by (subst e) (simp add: power_int_add del: int_nat_eq)
  then show ?thesis by (simp add: push_bit_eq_mult)
qed

lemma encloses_step:
  assumes "encloses lo hi x k"
  shows "encloses (drop_bit 27 (lo * 100000000)) (drop_bit 27 (hi * 100000000) + 1) (x + 27) (k + 8)"
proof -
  define t where "t = (2 :: rat) powi x"
  define T where "T = (10 :: rat) powi k"
  have t: "0 < t" by (simp add: t_def)
  have b: "0 \<le> lo" "of_int lo * t \<le> T" "T \<le> of_int hi * t"
    using assms by (simp_all add: encloses_def t_def T_def)
  have pow: "(2 :: rat) powi (x + 27) = t * 134217728" "(10 :: rat) powi (k + 8) = T * 100000000"
    by (simp_all add: t_def T_def power_int_add)
  have "drop_bit 27 (lo * 100000000) * 134217728 \<le> lo * 100000000" "hi * 100000000 \<le> (drop_bit 27 (hi * 100000000) + 1) * 134217728"
    by (simp_all add: drop_bit_eq_div) 
  then have "(of_int (drop_bit 27 (lo * 100000000) * 134217728) :: rat) \<le> of_int (lo * 100000000)"
    "(of_int (hi * 100000000) :: rat) \<le> of_int ((drop_bit 27 (hi * 100000000) + 1) * 134217728)"
    by (simp_all only: of_int_le_iff)
  then have d: "(of_int (drop_bit 27 (lo * 100000000)) :: rat) * 134217728 \<le> of_int lo * 100000000"
    "(of_int hi :: rat) * 100000000 \<le> of_int (drop_bit 27 (hi * 100000000) + 1) * 134217728"
    by (simp_all only: of_int_mult of_int_numeral)
  have "of_int (drop_bit 27 (lo * 100000000)) * 134217728 * t \<le> of_int lo * 100000000 * t"
    using d(1) t by (intro mult_right_mono) simp_all
  also have "\<dots> \<le> T * 100000000" using b(2) by simp
  finally have "of_int (drop_bit 27 (lo * 100000000)) * (t * 134217728) \<le> T * 100000000" by (simp only: ac_simps)
  note low = this
  have "T * 100000000 \<le> of_int hi * 100000000 * t" using b(3) by simp
  also have "\<dots> \<le> of_int (drop_bit 27 (hi * 100000000) + 1) * 134217728 * t"
    using d(2) t by (intro mult_right_mono) simp_all
  finally have "T * 100000000 \<le> of_int (drop_bit 27 (hi * 100000000) + 1) * (t * 134217728)" by (simp only: ac_simps)
  with low show ?thesis unfolding encloses_def pow using b(1) by simp
qed

lemma half_unit: "2 powi (e - 1) * 2 = (2 :: rat) powi e"
  using powi_shift [of e 1] by simp

lemma checkUp_accurate: "encloses lo hi x k \<Longrightarrow> checkUp lo hi x k es \<Longrightarrow> p \<in> set es \<Longrightarrow> accurate p"
proof (induction lo hi x k es rule: checkUp.induct)
  case (2 lo hi x k f e j es)
  have c: "j = k" "x \<le> e - 1" "2 ^ 63 \<le> uint f" "push_bit (nat (e - 1 - x)) (2 * uint f - 1) \<le> lo"
    "hi \<le> push_bit (nat (e - 1 - x)) (2 * uint f + 1)" using 2(3) by simp_all
  show ?case
  proof (cases "p = (f, e, j)")
    case True
    have "of_int (2 * uint f - 1) * 2 powi (e - 1) \<le> of_int lo * (2 :: rat) powi x"
      unfolding powi_push [OF c(2), symmetric] using c(4) by (intro mult_right_mono) simp_all
    moreover have "of_int hi * (2 :: rat) powi x \<le> of_int (2 * uint f + 1) * 2 powi (e - 1)"
      unfolding powi_push [OF c(2), symmetric] using c(5) by (intro mult_right_mono) simp_all
    ultimately have "of_int (2 * uint f - 1) * 2 powi (e - 1) \<le> (10 :: rat) powi k"
      "(10 :: rat) powi k \<le> of_int (2 * uint f + 1) * 2 powi (e - 1)"
      using 2(2) unfolding encloses_def by linarith+
    then show ?thesis using c(1,3) half_unit [of e] by (simp add: True accurate_def abs_le_iff algebra_simps)
  qed (use 2 encloses_step in auto)
qed simp

lemma checkDown_accurate: "encloses lo hi x k \<Longrightarrow> checkDown lo hi x k es \<Longrightarrow> p \<in> set es \<Longrightarrow> accurate p"
proof (induction lo hi x k es rule: checkDown.induct)
  case (2 lo hi x k f e j es)
  have c: "j = - k" "x \<le> 1 - e" "2 ^ 63 \<le> uint f" "(2 * uint f - 1) * hi \<le> push_bit (nat (1 - e - x)) 1"
    "push_bit (nat (1 - e - x)) 1 \<le> (2 * uint f + 1) * lo" using 2(3) by simp_all
  show ?case
  proof (cases "p = (f, e, j)")
    case True
    define T where "T = (10 :: rat) powi k"
    have T: "0 < T" by (simp add: T_def)
    have nn: "(0 :: rat) \<le> of_int (2 * uint f - 1)" "(0 :: rat) \<le> of_int (2 * uint f + 1)"
      using c(3) by (simp_all only: of_int_0_le_iff) simp_all
    have one: "of_int (push_bit (nat (1 - e - x)) 1) * (2 :: rat) powi x = 2 powi (1 - e)"
      using powi_push [OF c(2), of 1] by simp
    have e: "(2 :: rat) powi (1 - e) * 2 powi (e - 1) = 1" by (simp flip: power_int_add)
    have b: "of_int lo * 2 powi x \<le> T" "T \<le> of_int hi * 2 powi x" using 2(2) by (simp_all add: encloses_def T_def)
    have "of_int (2 * uint f - 1) * T \<le> of_int (2 * uint f - 1) * (of_int hi * 2 powi x)"
      using nn b by (intro mult_left_mono)
    also have "\<dots> \<le> of_int (push_bit (nat (1 - e - x)) 1) * 2 powi x"
      using c(4) unfolding mult.assoc [symmetric] of_int_mult [symmetric] by (intro mult_right_mono) (simp_all only: of_int_le_iff, simp)
    finally have l: "of_int (2 * uint f - 1) * T * 2 powi (e - 1) \<le> 1"
      using e mult_right_mono [of _ "2 powi (1 - e)" "2 powi (e - 1) :: rat"] unfolding one by simp
    have "of_int (push_bit (nat (1 - e - x)) 1) * 2 powi x \<le> (of_int (2 * uint f + 1) * (of_int lo * 2 powi x) :: rat)"
      using c(5) unfolding mult.assoc [symmetric] of_int_mult [symmetric] by (intro mult_right_mono) (simp_all only: of_int_le_iff, simp)
    also have "\<dots> \<le> of_int (2 * uint f + 1) * T"
      using nn b by (intro mult_left_mono)
    finally have u: "1 \<le> of_int (2 * uint f + 1) * T * 2 powi (e - 1)"
      using e mult_right_mono [of "2 powi (1 - e)" _ "2 powi (e - 1) :: rat"] unfolding one by simp
    have j: "(10 :: rat) powi j = 1 / T" using c(1) by (simp add: T_def power_int_minus_divide)
    have "of_int (2 * uint f - 1) * 2 powi (e - 1) \<le> (10 :: rat) powi j" "(10 :: rat) powi j \<le> of_int (2 * uint f + 1) * 2 powi (e - 1)"
      using l u unfolding j pos_le_divide_eq [OF T] pos_divide_le_eq [OF T] by (simp_all only: ac_simps)
    then show ?thesis using c(3) half_unit [of e] by (simp add: True accurate_def abs_le_iff algebra_simps)
  qed (use 2 encloses_step in auto)
qed simp

lemma encloses_start: "encloses (10 ^ 4 * 2 ^ 160) (10 ^ 4 * 2 ^ 160) (- 160) 4"
  by (simp add: encloses_def power_int_minus)

lemma check_up: "checkUp (10 ^ 4 * 2 ^ 160) (10 ^ 4 * 2 ^ 160) (- 160) 4 (drop 38 powerTable)"
  by code_simp

lemma check_down: "checkDown (10 ^ 4 * 2 ^ 160) (10 ^ 4 * 2 ^ 160) (- 160) 4 (rev (take 38 powerTable))"
  by code_simp

lemma powerTable_accurate: "p \<in> set powerTable \<Longrightarrow> accurate p"
proof -
  assume "p \<in> set powerTable"
  then have "p \<in> set (drop 38 powerTable) \<or> p \<in> set (rev (take 38 powerTable))"
    by (metis Un_iff append_take_drop_id set_append set_rev)
  then show ?thesis
    using checkUp_accurate [OF encloses_start check_up] checkDown_accurate [OF encloses_start check_down] by blast
qed


section \<open>The index picks the right power\<close>

text \<open>The multiplication by 78913 / 2^18 stands for the decimal logarithm of 2.\<close>

lemma cachedIndex_bounds:
  assumes "- 1137 \<le> e" "e \<le> 960"
  shows "0 \<le> cachedIndex e" "cachedIndex e < 79"
    "(- 61 - e) * 78913 \<le> (8 * cachedIndex e - 300) * 262144" "(8 * cachedIndex e - 308) * 262144 \<le> (- 61 - e) * 78913"
proof -
  define f where "f = kAlpha - e - 1"
  define k where "k = (f * 78913) sdiv (2 ^ 18) + (if f > 0 then 1 else 0)"
  have f_eq: "f = - 61 - e" by (simp add: f_def kAlpha_def)
  have f: "- 1021 \<le> f" "f \<le> 1076" using assms by (simp_all add: f_eq)
  have k: "f * 78913 \<le> k * 262144" "k * 262144 \<le> f * 78913 + 262144"
    unfolding k_def signed_divide_int_def by (auto simp: sgn_if abs_if)
  then have r: "- 307 \<le> k" "k \<le> 324" using f by linarith+
  have "cachedIndex e = (- (- 300) + k + (8 - 1)) sdiv 8"
    unfolding cachedIndex_def Let_def k_def f_def kCachedPowersMinDecExp_def kCachedPowersDecStep_def by (rule refl)
  then have i: "cachedIndex e = (307 + k) div 8" using r(1) by (simp add: signed_divide_int_def sgn_if add.commute)
  have "8 * cachedIndex e \<le> 307 + k" "307 + k \<le> 8 * cachedIndex e + 7" unfolding i by simp_all
  then show "0 \<le> cachedIndex e" "cachedIndex e < 79"
    "(- 61 - e) * 78913 \<le> (8 * cachedIndex e - 300) * 262144" "(8 * cachedIndex e - 308) * 262144 \<le> (- 61 - e) * 78913"
    using r k unfolding f_eq left_diff_distrib by linarith+
qed

lemma table_steps:
  "list_all (\<lambda>i. case powerTable ! nat i of (f, e, k) \<Rightarrow> (8 * i - 300) * 262144 < (e + 64) * 78913 \<and>
     (e + 34) * 78913 < (8 * i - 308) * 262144) [0..78]"
  by code_simp

lemma table_exponents: "list_all (\<lambda>(f, e, k). - 300 \<le> k \<and> k \<le> 324) powerTable"
  by code_simp

lemma kCachedPowers_length: "length kCachedPowers = 79"
  by code_simp

lemma getCachedPower_run:
  assumes "- 1137 \<le> e" "e \<le> 960"
  obtains c where "getCachedPower e st = (Inr c, st)" "accurate (cachedF c, cachedE c, cachedK c)"
    "- 60 \<le> cachedE c + e + 64" "cachedE c + e + 64 \<le> - 32" "- 300 \<le> cachedK c" "cachedK c \<le> 324"
proof -
  note i = cachedIndex_bounds [OF assms]
  let ?i = "cachedIndex e"
  obtain f ce k where p: "powerTable ! nat ?i = (f, ce, k)" by (cases "powerTable ! nat ?i")
  have len: "length powerTable = 79" using kCachedPowers_length by (simp add: kCachedPowers_def)
  have c: "kCachedPowers ! nat ?i = \<lparr>cachedF = f, cachedE = ce, cachedK = k\<rparr>"
    using i len p by (simp add: kCachedPowers_def)
  have "?i \<in> set [0..78]" using i by simp
  with table_steps have "(8 * ?i - 300) * 262144 < (ce + 64) * 78913" "(ce + 34) * 78913 < (8 * ?i - 308) * 262144"
    by (auto simp: list_all_iff p dest!: bspec)
  with i(3,4) have "(- 61 - e) * 78913 < (ce + 64) * 78913" "(ce + 34) * 78913 < (- 61 - e) * 78913" by linarith+
  then have range: "- 60 \<le> ce + e + 64" "ce + e + 64 \<le> - 32" by simp_all
  have mem: "(f, ce, k) \<in> set powerTable" using nth_mem [of "nat ?i" powerTable] i(1,2) len by (simp add: p)
  then have "accurate (f, ce, k)" by (rule powerTable_accurate)
  moreover have "- 300 \<le> k" "k \<le> 324" using table_exponents mem by (auto simp: list_all_iff dest!: bspec)
  moreover have "getCachedPower e st = (Inr \<lparr>cachedF = f, cachedE = ce, cachedK = k\<rparr>, st)"
    using i range assms by (simp add: getCachedPower_def Let_def c kCachedPowers_length kAlpha_def kGamma_def run_simps)
  ultimately show thesis using range by (intro that [of "\<lparr>cachedF = f, cachedE = ce, cachedK = k\<rparr>"]) simp_all
qed

section \<open>Scaled numbers are off by less than a unit\<close>

lemma rounded_quotient: "\<bar>rat_of_nat ((N + 2 ^ 63) div 2 ^ 64) * 2 ^ 64 - of_nat N\<bar> \<le> 2 ^ 63"
proof -
  let ?w = "(N + 2 ^ 63) div 2 ^ 64"
  have "?w * 2 ^ 64 \<le> N + 2 ^ 63" by simp
  moreover have "N + 2 ^ 63 < ?w * 2 ^ 64 + 2 ^ 64" using dividend_less_times_div [of "2 ^ 64" "N + 2 ^ 63"] by simp
  ultimately have "rat_of_nat (?w * 2 ^ 64) \<le> of_nat (N + 2 ^ 63)" "rat_of_nat (N + 2 ^ 63) < of_nat (?w * 2 ^ 64 + 2 ^ 64)"
    by (simp_all only: of_nat_le_iff of_nat_less_iff)
  then show ?thesis by (simp add: abs_le_iff)
qed

lemma diyMul_scaled:
  fixes W :: w64 and e :: int and c :: cached_power
  assumes "accurate (cachedF c, cachedE c, cachedK c)"
  defines "w \<equiv> diyMul \<lparr>diyF = W, diyE = e\<rparr> \<lparr>diyF = cachedF c, diyE = cachedE c\<rparr>"
  shows "\<bar>scaled (unat (diyF w)) (e + cachedE c + 64) - scaled (unat W) e * 10 powi cachedK c\<bar> < 2 powi (e + cachedE c + 64)"
proof -
  define u where "u = (2 :: rat) powi (e + cachedE c)"
  define N where "N = unat W * unat (cachedF c)"
  define T where "T = (10 :: rat) powi cachedK c"
  have u: "0 < u" "(2 :: rat) powi (e + cachedE c + 64) = 2 ^ 64 * u" "2 powi e * 2 powi (cachedE c) = u"
    by (simp_all add: u_def power_int_add)
  have half: "2 powi e * 2 powi (cachedE c - 1) = u / 2"
    using u(3) unfolding half_unit [of "cachedE c", symmetric] by (simp add: mult.assoc [symmetric])
  have w: "unat (diyF w) = (N + 2 ^ 63) div 2 ^ 64" by (simp only: w_def N_def diyMul_high diyfp.simps)
  have "scaled (unat (diyF w)) (e + cachedE c + 64) - of_nat N * u = (of_nat (unat (diyF w)) * 2 ^ 64 - rat_of_nat N) * u"
    unfolding scaled_def u(2) by (simp add: algebra_simps)
  then have "\<bar>scaled (unat (diyF w)) (e + cachedE c + 64) - of_nat N * u\<bar> = \<bar>of_nat (unat (diyF w)) * 2 ^ 64 - rat_of_nat N\<bar> * u"
    using u(1) by (simp only: abs_mult abs_of_pos)
  also have "\<dots> \<le> 2 ^ 63 * u" using u(1) rounded_quotient [of N] unfolding w by (intro mult_right_mono) simp_all
  finally have a: "\<bar>scaled (unat (diyF w)) (e + cachedE c + 64) - of_nat N * u\<bar> \<le> 2 ^ 63 * u" .
  have "of_nat N * u - scaled (unat W) e * T =
      scaled (unat W) e * (of_int (uint (cachedF c)) * 2 powi cachedE c - T)"
    unfolding u(3) [symmetric] by (simp add: N_def scaled_def algebra_simps)
  then have "\<bar>of_nat N * u - scaled (unat W) e * T\<bar> = scaled (unat W) e * \<bar>of_int (uint (cachedF c)) * 2 powi cachedE c - T\<bar>"
    by (simp only: abs_mult abs_of_nonneg scaled_nonneg)
  also have "\<dots> \<le> scaled (unat W) e * 2 powi (cachedE c - 1)"
    using assms(1) by (intro mult_left_mono) (simp_all add: accurate_def T_def)
  also have "\<dots> = of_nat (unat W) * (u / 2)" by (simp add: scaled_def mult.assoc half)
  also have "\<dots> < 2 ^ 64 * (u / 2)"
  proof (rule mult_strict_right_mono)
    show "rat_of_nat (unat W) < 2 ^ 64" using unat_less_2p64 [of W] by (metis of_nat_less_iff of_nat_numeral of_nat_power)
  qed (use u(1) in simp)
  finally have "\<bar>of_nat N * u - scaled (unat W) e * T\<bar> < 2 ^ 63 * u" by simp
  with a have "\<bar>scaled (unat (diyF w)) (e + cachedE c + 64) - scaled (unat W) e * T\<bar> < 2 ^ 64 * u" by (simp add: abs_le_iff abs_less_iff)
  then show ?thesis unfolding u(2) T_def .
qed

end
