(* ===== verification/GrisuDigits.thy ===== *)
theory GrisuDigits
  imports GrisuPowers
begin

text \<open>
  The digit generation: from the two bounds of an interval it makes the digits of a number in the interval, at most 17
  of them, without overflow, without an assertion failing and within the buffer.
\<close>

section \<open>The buffer\<close>

text \<open>The buffer begins with a text.\<close>

definition filled :: "string \<Rightarrow> charBuffer \<Rightarrow> bool" where
  "filled xs buf \<longleftrightarrow> length buf = 64 \<and> take (length xs) buf = map Some xs"

lemma filled_nth: "filled xs buf \<Longrightarrow> i < length xs \<Longrightarrow> i < length buf \<and> buf ! i = Some (xs ! i)"
proof -
  assume f: "filled xs buf" and i: "i < length xs"
  then have t: "take (length xs) buf = map Some xs" by (simp add: filled_def)
  then have "length xs \<le> length buf" by (metis length_map length_take min.absorb_iff1 min.commute)
  moreover have "take (length xs) buf ! i = map Some xs ! i" by (simp only: t)
  ultimately show ?thesis using i by simp
qed

lemma filled_length: "filled xs buf \<Longrightarrow> length xs \<le> 64"
  unfolding filled_def by (metis length_map length_take min.absorb_iff1 min.commute)

lemma bufGet_filled: "filled xs buf \<Longrightarrow> i < length xs \<Longrightarrow> bufGet i buf = (Inr (xs ! i), buf)"
  using filled_nth [of xs buf i] by (simp add: bufGet_def run_simps)

lemma bufSet_append:
  assumes "filled xs buf" "length xs < 64"
  obtains buf' where "bufSet (length xs) c buf = (Inr (), buf')" "filled (xs @ [c]) buf'"
proof (rule that)
  show "bufSet (length xs) c buf = (Inr (), buf[length xs := Some c])"
    using assms by (simp add: bufSet_def run_simps filled_def)
  show "filled (xs @ [c]) (buf[length xs := Some c])"
    using assms by (simp add: filled_def take_Suc_conv_app_nth)
qed

lemma bufSet_update:
  assumes "filled xs buf" "i < length xs"
  obtains buf' where "bufSet i c buf = (Inr (), buf')" "filled (xs[i := c]) buf'"
proof (rule that)
  show "bufSet i c buf = (Inr (), buf[i := Some c])"
    using filled_nth [OF assms] by (simp add: bufSet_def run_simps)
  show "filled (xs[i := c]) (buf[i := Some c])"
    using assms by (simp add: filled_def map_update take_update_swap)
qed

section \<open>Digits\<close>

lemma readDigits_append [simp]: "d < 10 \<Longrightarrow> readDigits (ds @ [digitChar d]) = 10 * readDigits ds + d"
  by (simp add: readDigits_def)

lemma digitChar_zero: "d < 10 \<Longrightarrow> digitChar d = CHR ''0'' \<longleftrightarrow> d = 0"
  using less_10_cases [of d] by (auto simp: digitChar_def)

lemma digitChar_less: "0 < d \<Longrightarrow> d < 10 \<Longrightarrow> char_of ((of_char (digitChar d) :: int) - 1) = digitChar (d - 1)"
  using less_10_cases [of d] by (auto simp: digitChar_def char_of_def)

definition goodDigits :: "string \<Rightarrow> bool" where
  "goodDigits ds \<longleftrightarrow> list_all isDigit ds \<and> (ds \<noteq> [] \<longrightarrow> hd ds \<noteq> CHR ''0'')"

lemma goodDigits_append:
  "goodDigits ds \<Longrightarrow> d < 10 \<Longrightarrow> (ds = [] \<Longrightarrow> 0 < d) \<Longrightarrow> goodDigits (ds @ [digitChar d])"
  using digitChar_zero [of d] by (cases ds) (auto simp: goodDigits_def)

section \<open>Rounding\<close>

text \<open>
  The last digit is counted down while that stays in the interval; it never reaches zero when without it the rest
  would leave the interval.
\<close>

lemma roundLoop_run:
  "filled (pre @ ds @ [digitChar d]) buf \<Longrightarrow> d < 10 \<Longrightarrow> d < fuel \<Longrightarrow> unat rest \<le> unat delta \<Longrightarrow>
    unat delta < unat rest + d * unat ten_k \<Longrightarrow>
    \<exists>c buf'. roundLoop fuel (length pre) (length ds + 1) dst delta rest ten_k buf = (Inr (), buf') \<and> 1 \<le> c \<and> c \<le> d \<and>
      filled (pre @ ds @ [digitChar c]) buf' \<and> unat rest + (d - c) * unat ten_k \<le> unat delta"
proof (induction fuel arbitrary: d rest buf)
  case (Suc fuel)
  have d: "1 \<le> d" using Suc.prems by (cases d) auto
  show ?case
  proof (cases "rest < dst \<and> delta - rest \<ge> ten_k \<and> (rest + ten_k < dst \<or> dst - rest > rest + ten_k - dst)")
    case False
    then have "roundLoop (Suc fuel) (length pre) (length ds + 1) dst delta rest ten_k buf = (Inr (), buf)"
      by (simp only: roundLoop.simps if_False run_simps)
    then show ?thesis using Suc.prems d by (intro exI [of _ d] exI [of _ buf]) simp
  next
    case True
    have "unat (delta - rest) = unat delta - unat rest" using Suc.prems(4) by (simp add: unat_sub word_le_nat_alt)
    with True have step: "unat rest + unat ten_k \<le> unat delta" using Suc.prems(4) by (auto simp: word_le_nat_alt)
    have add: "unat (rest + ten_k) = unat rest + unat ten_k"
      using step unat_less_2p64 [of delta] by (intro unat_add_small) simp
    have pos: "0 < unat ten_k" using Suc.prems(4,5) by (auto intro: gr0I)
    have more: "2 \<le> d" 
    proof (rule ccontr)
      assume "\<not> 2 \<le> d"
      with d have "d = 1" by simp
      with Suc.prems(5) step show False by simp
    qed
    let ?i = "length pre + (length ds + 1) - 1"
    have i: "?i < length (pre @ ds @ [digitChar d])" "(pre @ ds @ [digitChar d]) ! ?i = digitChar d"
      by (simp_all add: nth_append)
    note get = bufGet_filled [OF Suc.prems(1) i(1), unfolded i(2)]
    obtain buf1 where set: "bufSet ?i (digitChar (d - 1)) buf = (Inr (), buf1)"
      and f1: "filled ((pre @ ds @ [digitChar d])[?i := digitChar (d - 1)]) buf1"
      using bufSet_update [OF Suc.prems(1) i(1)] .
    have "(pre @ ds @ [digitChar d])[?i := digitChar (d - 1)] = pre @ ds @ [digitChar (d - 1)]"
      by (simp add: list_update_append)
    with f1 have f1': "filled (pre @ ds @ [digitChar (d - 1)]) buf1" by simp
    have d': "d - 1 < 10" "d - 1 < fuel" using Suc.prems(2,3) more by simp_all
    have split: "d * unat ten_k = unat ten_k + (d - 1) * unat ten_k" using d by (cases d) auto
    obtain c buf' where c: "roundLoop fuel (length pre) (length ds + 1) dst delta (rest + ten_k) ten_k buf1 = (Inr (), buf')"
      "1 \<le> c" "c \<le> d - 1" "filled (pre @ ds @ [digitChar c]) buf'"
      "unat rest + unat ten_k + (d - 1 - c) * unat ten_k \<le> unat delta"
      using Suc.IH [OF f1' d', of "rest + ten_k"] Suc.prems(5) step split by (auto simp: add)
    have "(d - c) * unat ten_k = unat ten_k + (d - 1 - c) * unat ten_k" using c(2,3) by (cases "d - c") auto
    moreover have "roundLoop (Suc fuel) (length pre) (length ds + 1) dst delta rest ten_k buf = (Inr (), buf')"
      using True get set c(1) more Suc.prems(2) digitChar_zero [of d] digitChar_less [of d]
      by (simp add: andThen_def run_simps)
    ultimately show ?thesis using c by (intro exI [of _ c] exI [of _ buf']) simp
  qed
qed simp

lemma grisu2Round_run:
  assumes "filled (pre @ ds @ [digitChar d]) buf" "d < 10" "unat dst \<le> unat delta" "unat rest \<le> unat delta"
    "unat delta < unat rest + d * unat ten_k"
  obtains c buf' where "grisu2Round (length pre) (length ds + 1) dst delta rest ten_k buf = (Inr (), buf')"
    "1 \<le> c" "c \<le> d" "filled (pre @ ds @ [digitChar c]) buf'" "unat rest + (d - c) * unat ten_k \<le> unat delta"
proof -
  have "0 < unat ten_k" using assms(4,5) by (auto intro: gr0I)
  then have "ten_k > 0" by (simp add: word_less_nat_alt)
  moreover have "dst \<le> delta" "rest \<le> delta" using assms(3,4) by (simp_all add: word_le_nat_alt)
  ultimately show thesis
    using roundLoop_run [OF assms(1,2) _ assms(4,5), of 10] assms(2) that by (auto simp: grisu2Round_def run_simps)
qed


section \<open>The integral part\<close>

lemma findLargestPow10_digits:
  assumes "0 < unat p"
  shows "case findLargestPow10 p of (k, pow10) \<Rightarrow>
    0 < k \<and> k \<le> 10 \<and> unat pow10 = 10 ^ (k - 1) \<and> 10 ^ (k - 1) \<le> unat p \<and> unat p < 10 ^ k"
proof -
  have "unat p < 2 ^ 32" using unsigned_less [of p] by simp
  then show ?thesis using assms unfolding findLargestPow10_def word_le_nat_alt by simp
qed

lemma findLargestPow10_run:
  assumes "0 < unat p"
  obtains k pow10 where "findLargestPow10 p = (k, pow10)" "0 < k" "k \<le> 10" "unat pow10 = 10 ^ (k - 1)"
    "10 ^ (k - 1) \<le> unat p" "unat p < 10 ^ k"
  using findLargestPow10_digits [OF assms] that by (cases "findLargestPow10 p") auto

lemma unat_widened [simp]: "unat (ucast x :: w64) = unat (x :: w32)"
proof -
  have "unat x < 2 ^ 32" using unsigned_less [of x] by simp
  then show ?thesis by (simp add: unsigned_ucast_eq take_bit_nat_eq_self)
qed

text \<open>What a stopped loop has made: digits \<open>ds\<close> and \<open>n\<close> places left out, in units of \<open>one\<close>.\<close>

definition inInterval :: "nat \<Rightarrow> nat \<Rightarrow> nat \<Rightarrow> bool" where
  "inInterval Mp delta V \<longleftrightarrow> Mp \<le> V + delta \<and> V \<le> Mp"

text \<open>The last digit of the integral part is rounded.\<close>

lemma lastDigit_rounds:
  fixes pow10 :: w32 and delta dst rest :: w64
  assumes f1: "filled (pre @ ds @ [digitChar q]) buf1" and q: "q < 10" and dst: "unat dst \<le> unat delta" and pow: "unat pow10 = 10 ^ n"
    and total: "unat rest + q * (10 ^ n * 2 ^ sh) = T" "T < 2 ^ 64" "unat delta < T" and inside: "unat rest \<le> unat delta"
    and ds: "goodDigits ds" "readDigits (ds @ [digitChar q]) * 10 ^ n * 2 ^ sh + unat rest = Mp"
  obtains c buf' where "grisu2Round (length pre) (length ds + 1) dst delta rest (push_bit sh (ucast pow10)) buf1 = (Inr (), buf')"
    "filled (pre @ ds @ [digitChar c]) buf'" "goodDigits (ds @ [digitChar c])"
    "inInterval Mp (unat delta) (readDigits (ds @ [digitChar c]) * 10 ^ n * 2 ^ sh)"
proof -
  let ?ten = "push_bit sh (ucast pow10) :: w64"
  have "q \<noteq> 0" using total inside by (intro notI) simp
  then have "10 ^ n * 2 ^ sh \<le> q * (10 ^ n * 2 ^ sh)" by simp
  then have fits: "10 ^ n * 2 ^ sh < (2 :: nat) ^ 64" using total by linarith
  have "unat (ucast pow10 :: w64) = 10 ^ n" by (simp only: unat_widened pow)
  then have ten: "unat ?ten = 10 ^ n * 2 ^ sh" using unat_push_small [of "ucast pow10" sh] fits by simp
  have over: "unat delta < unat rest + q * unat ?ten" using total(3) unfolding ten total(1) .
  obtain c buf' where c: "grisu2Round (length pre) (length ds + 1) dst delta rest ?ten buf1 = (Inr (), buf')"
    "1 \<le> c" "c \<le> q" "filled (pre @ ds @ [digitChar c]) buf'" "unat rest + (q - c) * unat ?ten \<le> unat delta"
    using grisu2Round_run [OF f1 q dst inside over] .
  have c10: "c < 10" using c(3) q by simp
  have parts: "c * (10 ^ n * 2 ^ sh) + (q - c) * (10 ^ n * 2 ^ sh) = q * (10 ^ n * 2 ^ sh)"
    using c(3) by (simp flip: add_mult_distrib)
  have "readDigits (ds @ [digitChar c]) * 10 ^ n * 2 ^ sh + (unat rest + (q - c) * unat ?ten) = Mp"
    using ds(2) q c10 parts unfolding ten by (simp add: add_mult_distrib mult.assoc)
  with c(5) have "inInterval Mp (unat delta) (readDigits (ds @ [digitChar c]) * 10 ^ n * 2 ^ sh)" by (simp add: inInterval_def)
  with c(1,4) goodDigits_append [OF ds(1) c10] c(2) show thesis by (intro that) simp_all
qed

lemma integralDigits_run:
  fixes p2 delta dst :: w64
  assumes one: "diyE one = - int sh" and p2: "unat p2 < 2 ^ sh" and dst: "unat dst \<le> unat delta"
  shows "unat p1 < 10 ^ n \<Longrightarrow> (0 < n \<Longrightarrow> unat pow10 = 10 ^ (n - 1)) \<Longrightarrow> n \<le> 10 \<Longrightarrow>
    unat p1 * 2 ^ sh + unat p2 < 2 ^ 64 \<Longrightarrow> readDigits ds * 10 ^ n * 2 ^ sh + unat p1 * 2 ^ sh + unat p2 = Mp \<Longrightarrow>
    unat delta < unat p1 * 2 ^ sh + unat p2 \<Longrightarrow> goodDigits ds \<Longrightarrow> (ds = [] \<Longrightarrow> 0 < n \<and> 10 ^ (n - 1) \<le> unat p1) \<Longrightarrow>
    filled (pre @ ds) buf \<Longrightarrow> length pre + length ds + n < 64 \<Longrightarrow>
    \<exists>ds' buf'. filled (pre @ ds') buf' \<and> goodDigits ds' \<and>
      ((\<exists>m < n. integralDigits n one p1 p2 pow10 delta dst (length pre) (length ds) dexp buf =
          (Inr (length ds', Some (dexp + int m)), buf') \<and> length ds' + m = length ds + n \<and>
          inInterval Mp (unat delta) (readDigits ds' * 10 ^ m * 2 ^ sh)) \<or>
       integralDigits n one p1 p2 pow10 delta dst (length pre) (length ds) dexp buf = (Inr (length ds', None), buf') \<and>
          length ds' = length ds + n \<and> readDigits ds' * 2 ^ sh + unat p2 = Mp \<and> unat delta < unat p2)"
proof (induction n arbitrary: p1 pow10 ds buf)
  case 0
  then show ?case by (intro exI [of _ ds] exI [of _ buf]) (simp add: run_simps)
next
  case (Suc n)
  define q where "q = unat p1 div 10 ^ n"
  define r where "r = unat p1 mod 10 ^ n"
  have p: "unat p1 = q * 10 ^ n + r" "r < 10 ^ n" by (simp_all only: q_def r_def div_mult_mod_eq) simp
  have pow: "unat pow10 = 10 ^ n" using Suc.prems(2) by simp
  then have pow0: "pow10 \<noteq> 0" by auto
  have q: "q < 10" using Suc.prems(1) unfolding q_def by (intro less_mult_imp_div_less) simp
  have d: "unat (p1 div pow10) = q" "unat (p1 mod pow10) = r" by (simp_all add: unat_div unat_mod pow q_def r_def)
  have d9: "p1 div pow10 \<le> 9" using q by (simp add: word_le_nat_alt d)
  have first: "0 < q" if "ds = []" using Suc.prems(8) that by (simp add: q_def div_greater_zero_iff)
  note good = goodDigits_append [OF Suc.prems(7) q first]
  obtain buf1 where set: "bufSet (length pre + length ds) (digitChar q) buf = (Inr (), buf1)" and
    f1: "filled (pre @ ds @ [digitChar q]) buf1"
    using bufSet_append [OF Suc.prems(9), of "digitChar q"] Suc.prems(10) by auto
  define rest where "rest = push_bit sh (ucast (p1 mod pow10)) + p2"
  have le: "r * 2 ^ sh + unat p2 \<le> unat p1 * 2 ^ sh + unat p2" unfolding p by simp
  have u: "unat (ucast (p1 mod pow10) :: w64) = r"
    by (simp only: unat_widened d(2))
  have small: "r * 2 ^ sh + unat p2 < 2 ^ 64" using le Suc.prems(4) by (rule le_less_trans)
  have push: "unat (push_bit sh (ucast (p1 mod pow10)) :: w64) = r * 2 ^ sh"
    using unat_push_small [of "ucast (p1 mod pow10)" sh] small unfolding u by linarith
  have rest: "unat rest = r * 2 ^ sh + unat p2"
    using unat_add_small [of "push_bit sh (ucast (p1 mod pow10))" p2] small unfolding rest_def push by linarith
  have value_: "readDigits (ds @ [digitChar q]) * 10 ^ n * 2 ^ sh + r * 2 ^ sh + unat p2 = Mp"
    using Suc.prems(5) q unfolding p(1) by (simp add: algebra_simps)
  then have value_': "readDigits (ds @ [digitChar q]) * 10 ^ n * 2 ^ sh + unat rest = Mp" by (simp only: rest add.assoc)
  have total: "unat rest + q * (10 ^ n * 2 ^ sh) = unat p1 * 2 ^ sh + unat p2"
    unfolding rest p(1) by (simp add: algebra_simps)
  show ?case
  proof (cases "rest \<le> delta")
    case True
    have inside: "unat rest \<le> unat delta" using True by (simp add: word_le_nat_alt)
    obtain c buf' where c: "grisu2Round (length pre) (length ds + 1) dst delta rest (push_bit sh (ucast pow10)) buf1 = (Inr (), buf')"
      "filled (pre @ ds @ [digitChar c]) buf'" "goodDigits (ds @ [digitChar c])"
      "inInterval Mp (unat delta) (readDigits (ds @ [digitChar c]) * 10 ^ n * 2 ^ sh)"
      using lastDigit_rounds [OF f1 q dst pow total Suc.prems(4,6) inside Suc.prems(7) value_'] .
    have "integralDigits (Suc n) one p1 p2 pow10 delta dst (length pre) (length ds) dexp buf =
      (Inr (length (ds @ [digitChar c]), Some (dexp + int n)), buf')"
      using True c(1) set pow0 d9 by (simp add: Let_def d one rest_def andThen_def run_simps)
    then show ?thesis using c(2-4) by (intro exI [of _ "ds @ [digitChar c]"] exI [of _ buf']) (auto intro!: exI [of _ n])
  next
    case False
    then have more: "unat delta < unat (p1 mod pow10) * 2 ^ sh + unat p2" by (simp add: word_le_nat_alt rest d(2))
    have pow': "unat (pow10 div 10) = 10 ^ (n - 1)" if "0 < n" using that by (cases n) (simp_all add: unat_div pow)
    have run: "integralDigits (Suc n) one p1 p2 pow10 delta dst (length pre) (length ds) dexp buf =
      integralDigits n one (p1 mod pow10) p2 (pow10 div 10) delta dst (length pre) (length (ds @ [digitChar q])) dexp buf1"
      using False set pow0 d9 by (simp add: Let_def d one rest_def andThen_def run_simps)
    have "unat (p1 mod pow10) < 10 ^ n" "unat (p1 mod pow10) * 2 ^ sh + unat p2 < 2 ^ 64"
      "readDigits (ds @ [digitChar q]) * 10 ^ n * 2 ^ sh + unat (p1 mod pow10) * 2 ^ sh + unat p2 = Mp"
      using p(2) le Suc.prems(4) value_ by (simp_all only: d(2))
    from Suc.IH [OF this(1) pow' _ this(2,3) more good _ f1] Suc.prems(3,10) show ?thesis
      unfolding run by (auto intro: less_SucI)
  qed
qed


section \<open>The fractional part\<close>

lemma readDigits_upper: "list_all isDigit ds \<Longrightarrow> readDigits ds < 10 ^ length ds"
proof (induction ds rule: rev_induct)
  case (snoc c ds)
  then have "digitValue c < 10" by (auto simp: isDigit_def digitValue_def)
  with snoc show ?case by (simp add: readDigits_def)
qed (simp add: readDigits_def)

lemma atMost16:
  assumes "Mp < 10 ^ 16 * D" "10 ^ k * 2 ^ sh \<le> Mp" "p < 2 ^ sh" "D * 10 ^ m < (p :: nat)"
  shows "k + m < 16"
proof (rule ccontr)
  assume "\<not> k + m < 16"
  then have "(10 :: nat) ^ 16 * D * 2 ^ sh \<le> 10 ^ (k + m) * D * 2 ^ sh" by (intro mult_le_mono power_increasing) auto
  also have "\<dots> = 10 ^ k * (D * 10 ^ m) * 2 ^ sh" by (simp add: power_add)
  also have "\<dots> \<le> 10 ^ k * 2 ^ sh * 2 ^ sh" using assms(3,4) by simp
  also have "\<dots> \<le> Mp * 2 ^ sh" using assms(2) by simp
  finally show False using assms(1) by simp
qed

text \<open>Every digit is generated because the rest is still outside of the interval, so there are no more than 17.\<close>

lemma fractionalDigits_run:
  fixes p2 delta dst :: w64
  assumes one: "diyE one = - int sh" "diyF one = push_bit sh 1" and sh: "sh \<le> 60"
    and size: "Mp < 10 ^ 16 * D" "10 ^ k * 2 ^ sh \<le> Mp"
  shows "unat p2 < 2 ^ sh \<Longrightarrow> unat delta < unat p2 \<Longrightarrow> unat delta = D * 10 ^ m \<Longrightarrow> unat dst \<le> unat delta \<Longrightarrow>
    Mp * 10 ^ m = readDigits ds * 2 ^ sh + unat p2 \<Longrightarrow> length ds = Suc (k + m) \<Longrightarrow> 17 \<le> fuel + length ds \<Longrightarrow>
    goodDigits ds \<Longrightarrow> filled (pre @ ds) buf \<Longrightarrow> length pre \<le> 1 \<Longrightarrow>
    \<exists>ds' d m' r delta' dst' buf'. fractionalDigits fuel one p2 delta dst (length pre) (length ds) m buf =
        (Inr (length ds' + 1, m', r, delta', dst'), buf') \<and> filled (pre @ ds' @ [digitChar d]) buf' \<and> d < 10 \<and>
      goodDigits ds' \<and> ds' \<noteq> [] \<and> length ds' = k + m' \<and> length ds' \<le> 16 \<and> unat delta' = D * 10 ^ m' \<and> unat dst' \<le> unat delta' \<and>
      Mp * 10 ^ m' = (10 * readDigits ds' + d) * 2 ^ sh + unat r \<and> unat r \<le> unat delta' \<and>
      unat delta' < unat r + d * 2 ^ sh"
proof (induction fuel arbitrary: p2 delta dst m ds buf)
  case 0
  then show ?case using atMost16 [OF size, of "unat p2" m] by simp
next
  case (Suc fuel)
  have two: "(2 :: nat) ^ sh \<le> 2 ^ 60" using sh by (intro power_increasing) auto
  have len: "length ds \<le> 16"
    using atMost16 [OF size, of "unat p2" m] Suc.prems(1-3,6) by simp
  define q where "q = 10 * unat p2 div 2 ^ sh"
  define r where "r = 10 * unat p2 mod 2 ^ sh"
  have p: "10 * unat p2 = q * 2 ^ sh + r" "r < 2 ^ sh" by (simp_all only: q_def r_def div_mult_mod_eq) simp
  have q: "q < 10" using Suc.prems(1) unfolding q_def by (intro less_mult_imp_div_less) simp
  have p10: "unat (p2 * 10) = 10 * unat p2" using Suc.prems(1) two by (subst unat_mult_small) simp_all
  have d: "unat (drop_bit sh (p2 * 10)) = q" by (simp only: unat_drop p10 q_def)
  have mask: "diyF one - 1 = mask sh" by (simp add: one(2) mask_eq_exp_minus_1 push_bit_eq_mult)
  have r: "unat (p2 * 10 AND (diyF one - 1)) = r" by (simp only: mask unat_and_mask p10 r_def)
  have d9: "drop_bit sh (p2 * 10) \<le> 9" using q by (simp add: word_le_nat_alt d)
  have small: "p2 \<le> (- 1) div 10" using Suc.prems(1) two by (simp add: word_le_nat_alt unat_div)
  have delta10: "unat (delta * 10) = D * 10 ^ Suc m" "unat (dst * 10) \<le> unat (delta * 10)"
    using Suc.prems(1-4) two by (simp_all add: unat_mult_small)
  obtain buf1 where set: "bufSet (length pre + length ds) (digitChar q) buf = (Inr (), buf1)" and
    f1: "filled (pre @ ds @ [digitChar q]) buf1"
    using bufSet_append [OF Suc.prems(9), of "digitChar q"] Suc.prems(10) len by auto
  have value_: "Mp * 10 ^ Suc m = (10 * readDigits ds + q) * 2 ^ sh + r"
    using Suc.prems(5) p(1) by (simp add: algebra_simps)
  have ds: "ds \<noteq> []" using Suc.prems(6) by auto
  show ?case
  proof (cases "p2 * 10 AND (diyF one - 1) \<le> delta * 10")
    case True
    have "fractionalDigits (Suc fuel) one p2 delta dst (length pre) (length ds) m buf =
      (Inr (length ds + 1, Suc m, p2 * 10 AND (diyF one - 1), delta * 10, dst * 10), buf1)"
      using True set small d9 by (simp add: Let_def d one(1) andThen_def run_simps)
    moreover have "unat (delta * 10) < unat (p2 * 10 AND (diyF one - 1)) + q * 2 ^ sh"
      using Suc.prems(2,3) p(1) unfolding delta10(1) r by (simp add: algebra_simps)
    moreover have "unat (p2 * 10 AND (diyF one - 1)) \<le> unat (delta * 10)" using True by (simp only: word_le_nat_alt)
    moreover have "length ds = k + Suc m" using Suc.prems(6) by simp
    moreover note value_ [folded r]
    ultimately show ?thesis using f1 q Suc.prems(8) ds len delta10 by (intro exI conjI) assumption+
  next
    case False
    then have more: "unat (delta * 10) < unat (p2 * 10 AND (diyF one - 1))" by (simp add: word_le_nat_alt)
    have run: "fractionalDigits (Suc fuel) one p2 delta dst (length pre) (length ds) m buf =
      fractionalDigits fuel one (p2 * 10 AND (diyF one - 1)) (delta * 10) (dst * 10) (length pre) (length (ds @ [digitChar q])) (Suc m) buf1"
      using False set small d9 by (simp add: Let_def d one(1) andThen_def run_simps)
    have next_: "unat (p2 * 10 AND (diyF one - 1)) < 2 ^ sh" "Mp * 10 ^ Suc m = readDigits (ds @ [digitChar q]) * 2 ^ sh + unat (p2 * 10 AND (diyF one - 1))"
      "length (ds @ [digitChar q]) = Suc (k + Suc m)" "17 \<le> fuel + length (ds @ [digitChar q])" "goodDigits (ds @ [digitChar q])"
      using p(2) value_ q Suc.prems(6,7) goodDigits_append [OF Suc.prems(8) q] ds by (simp_all add: r)
    show ?thesis unfolding run
      by (rule Suc.IH [OF next_(1) more delta10 next_(2-5) _ Suc.prems(10)]) (use f1 in simp)
  qed
qed


section \<open>All digits\<close>

lemma scaled_down: "scaled F (- int sh) = of_nat F / 2 ^ sh"
  by (simp add: scaled_def power_int_minus divide_inverse)

lemma decimal_below: "V * 2 ^ sh \<le> F * 10 ^ m \<Longrightarrow> of_nat V * 10 powi (- int m) \<le> scaled F (- int sh)"
proof -
  assume "V * 2 ^ sh \<le> F * 10 ^ m"
  then have "rat_of_nat (V * 2 ^ sh) \<le> of_nat (F * 10 ^ m)" by (simp only: of_nat_le_iff)
  then show ?thesis by (simp add: scaled_down power_int_minus field_simps)
qed

lemma decimal_above: "F * 10 ^ m \<le> V * 2 ^ sh \<Longrightarrow> scaled F (- int sh) \<le> of_nat V * 10 powi (- int m)"
proof -
  assume "F * 10 ^ m \<le> V * 2 ^ sh"
  then have "rat_of_nat (F * 10 ^ m) \<le> of_nat (V * 2 ^ sh)" by (simp only: of_nat_le_iff)
  then show ?thesis by (simp add: scaled_down power_int_minus field_simps)
qed

lemma whole_between:
  assumes "F \<le> V * 10 ^ m * 2 ^ sh" "V * 10 ^ m * 2 ^ sh \<le> G"
  shows "scaled F (- int sh) \<le> of_nat V * 10 powi int m \<and> of_nat V * 10 powi int m \<le> scaled G (- int sh)"
  using decimal_above [of F 0 "V * 10 ^ m" sh] decimal_below [of "V * 10 ^ m" sh G 0] assms by simp

lemma fractionalPart_run:
  fixes p2 delta dst :: w64
  assumes one: "diyE one = - int sh" "diyF one = push_bit sh 1" and sh: "sh \<le> 60"
    and size: "Mp < 10 ^ 16 * unat delta" "10 ^ k * 2 ^ sh \<le> Mp" and p2: "unat p2 < 2 ^ sh" "unat delta < unat p2"
    and dst: "unat dst \<le> unat delta" and ds: "Mp = readDigits ds * 2 ^ sh + unat p2" "length ds = Suc k" "goodDigits ds"
    and pre: "filled (pre @ ds) buf" "length pre \<le> 1"
  obtains ds' m buf' where "andThen (fractionalDigits 64 one p2 delta dst (length pre) (length ds) 0) (\<lambda>(len, m, rest, delta', dst').
       andThen (grisu2Round (length pre) len dst' delta' rest (diyF one)) (\<lambda>_. ok (len, dexp - int m))) buf =
      (Inr (length ds', dexp - int m), buf')" "filled (pre @ ds') buf'" "goodDigits ds'" "ds' \<noteq> []" "length ds' \<le> 17" "m \<le> 17"
    "Mp * 10 ^ m \<le> readDigits ds' * 2 ^ sh + unat delta * 10 ^ m" "readDigits ds' * 2 ^ sh \<le> Mp * 10 ^ m"
proof -
  have prems: "unat delta = unat delta * 10 ^ 0" "Mp * 10 ^ 0 = readDigits ds * 2 ^ sh + unat p2" "length ds = Suc (k + 0)"
    "17 \<le> 64 + length ds" using ds by simp_all
  from fractionalDigits_run [OF one sh size p2 prems(1) dst prems(2-4) ds(3) pre]
  obtain es d m r delta' dst' buf1 where run: "fractionalDigits 64 one p2 delta dst (length pre) (length ds) 0 buf =
      (Inr (length es + 1, m, r, delta', dst'), buf1)" "filled (pre @ es @ [digitChar d]) buf1" "d < 10" "goodDigits es" "es \<noteq> []"
    "length es = k + m" "length es \<le> 16" "unat delta' = unat delta * 10 ^ m" "unat dst' \<le> unat delta'"
    "Mp * 10 ^ m = (10 * readDigits es + d) * 2 ^ sh + unat r" "unat r \<le> unat delta'" "unat delta' < unat r + d * 2 ^ sh" by blast
  have "(2 :: nat) ^ sh \<le> 2 ^ 60" using sh by (intro power_increasing) auto
  then have ten: "unat (diyF one) = 2 ^ sh" using unat_push_small [of 1 sh] unfolding one(2) by simp
  obtain c buf' where c: "grisu2Round (length pre) (length es + 1) dst' delta' r (diyF one) buf1 = (Inr (), buf')"
    "1 \<le> c" "c \<le> d" "filled (pre @ es @ [digitChar c]) buf'" "unat r + (d - c) * unat (diyF one) \<le> unat delta'"
    using grisu2Round_run [OF run(2,3,9,11), of "diyF one"] run(12) unfolding ten by blast
  have c10: "c < 10" using c(3) run(3) by simp
  have "c * 2 ^ sh + (d - c) * 2 ^ sh = d * (2 :: nat) ^ sh" using c(3) by (simp flip: add_mult_distrib)
  then have "readDigits (es @ [digitChar c]) * 2 ^ sh + (unat r + (d - c) * unat (diyF one)) = Mp * 10 ^ m"
    unfolding run(10) ten using c10 by (simp add: add_mult_distrib)
  moreover have "andThen (fractionalDigits 64 one p2 delta dst (length pre) (length ds) 0) (\<lambda>(len, m, rest, delta', dst').
       andThen (grisu2Round (length pre) len dst' delta' rest (diyF one)) (\<lambda>_. ok (len, dexp - int m))) buf =
      (Inr (length (es @ [digitChar c]), dexp - int m), buf')"
    using c(1) by (simp add: run(1) andThen_def run_simps)
  ultimately show thesis
    using c(5) run(6,7,8) goodDigits_append [OF run(4) c10] run(5) c(4) by (intro that [of "es @ [digitChar c]" m buf']) simp_all
qed

text \<open>The two parts of a word.\<close>

lemma split_word:
  fixes Mp :: w64
  assumes "32 \<le> sh"
  shows "unat (ucast (drop_bit sh Mp) :: w32) = unat Mp div 2 ^ sh" "unat (Mp AND (push_bit sh 1 - 1)) = unat Mp mod 2 ^ sh"
proof -
  have "(2 :: nat) ^ 32 \<le> 2 ^ sh" using assms by (intro power_increasing; simp)
  then have "2 ^ 32 * 2 ^ 32 \<le> 2 ^ 32 * (2 :: nat) ^ sh" by (intro mult_le_mono) simp_all
  then have "unat Mp div 2 ^ sh < 2 ^ 32" using unat_less_2p64 [of Mp] by (intro less_mult_imp_div_less) simp
  then show "unat (ucast (drop_bit sh Mp) :: w32) = unat Mp div 2 ^ sh"
    by (simp add: unsigned_ucast_eq take_bit_nat_eq_self unat_drop)
  show "unat (Mp AND (push_bit sh 1 - 1)) = unat Mp mod 2 ^ sh"
    by (simp add: push_bit_eq_mult flip: mask_eq_exp_minus_1 unat_and_mask)
qed

lemma grisu2DigitGen_start:
  fixes Mm w Mp :: w64
  assumes e: "- 60 \<le> e" "e \<le> - 32" "sh = nat (- e)" and le: "Mm \<le> Mp" "w \<le> Mp"
    and one: "one = \<lparr>diyF = push_bit sh 1, diyE = e\<rparr>"
    and p: "p1 = (ucast (drop_bit sh Mp) :: w32)" "p2 = Mp AND (push_bit sh 1 - 1)" "0 < p1" and k: "findLargestPow10 p1 = (k, pow10)"
  shows "grisu2DigitGen fuel buffer 0 dexp \<lparr>diyF = Mm, diyE = e\<rparr> \<lparr>diyF = w, diyE = e\<rparr> \<lparr>diyF = Mp, diyE = e\<rparr> buf =
    andThen (integralDigits k one p1 p2 pow10 (Mp - Mm) (Mp - w) buffer 0 dexp) (\<lambda>(len, found).
     case found of Some e \<Rightarrow> ok (len, e)
     | None \<Rightarrow> andThen (assertThat (p2 > Mp - Mm)) (\<lambda>_.
       andThen (fractionalDigits fuel one p2 (Mp - Mm) (Mp - w) buffer len 0) (\<lambda>(len, m, rest, delta', dst').
       andThen (grisu2Round buffer len dst' delta' rest (diyF one)) (\<lambda>_.
         ok (len, dexp - int m))))) buf"
proof -
  have one_f: "push_bit sh 1 = diyF one" by (simp add: one)
  show ?thesis
    using e(1,2) le p(3) k unfolding grisu2DigitGen_def diySub_def Let_def diyfp.simps e(3) [symmetric]
    unfolding one [symmetric] p(1,2) [symmetric]
    unfolding one_f
    by (simp add: kAlpha_def kGamma_def run_simps)
qed

lemma grisu2DigitGen_run:
  fixes Mm w Mp :: w64
  assumes e: "- 60 \<le> e" "e \<le> - 32" and order: "unat Mm \<le> unat w" "unat w \<le> unat Mp" "0 < unat Mm" "2 ^ 60 \<le> unat Mp"
    and narrow: "unat Mp < 10 ^ 16 * (unat Mp - unat Mm)" and pre: "filled pre buf" "length pre \<le> 1"
  obtains ds x buf' where "grisu2DigitGen 64 (length pre) 0 dexp \<lparr>diyF = Mm, diyE = e\<rparr> \<lparr>diyF = w, diyE = e\<rparr> \<lparr>diyF = Mp, diyE = e\<rparr> buf =
      (Inr (length ds, dexp + x), buf')" "filled (pre @ ds) buf'" "goodDigits ds" "ds \<noteq> []" "length ds \<le> 17" "- 17 \<le> x" "x \<le> 10"
    "scaled (unat Mm) e \<le> of_nat (readDigits ds) * 10 powi x" "of_nat (readDigits ds) * 10 powi x \<le> scaled (unat Mp) e"
proof -
  define sh where "sh = nat (- e)"
  define one where "one = \<lparr>diyF = push_bit sh 1 :: w64, diyE = e\<rparr>"
  define p1 where "p1 = (ucast (drop_bit sh Mp) :: w32)"
  define p2 where "p2 = Mp AND (push_bit sh 1 - 1)"
  have sh: "e = - int sh" "32 \<le> sh" "sh \<le> 60" using e by (simp_all add: sh_def)
  have two: "(2 :: nat) ^ sh \<le> 2 ^ 60" using sh by (intro power_increasing; simp)
  have p1: "unat p1 = unat Mp div 2 ^ sh" and p2: "unat p2 = unat Mp mod 2 ^ sh"
    using split_word [OF sh(2), of Mp] by (simp_all only: p1_def p2_def)
  have Mp: "unat p1 * 2 ^ sh + unat p2 = unat Mp" "unat p2 < 2 ^ sh" by (simp_all only: p1 p2 div_mult_mod_eq) simp
  have p1_pos: "0 < unat p1" using order(4) two by (simp add: p1 div_greater_zero_iff)
  obtain k pow10 where k: "findLargestPow10 p1 = (k, pow10)" "0 < k" "k \<le> 10" "unat pow10 = 10 ^ (k - 1)"
    "10 ^ (k - 1) \<le> unat p1" "unat p1 < 10 ^ k" using findLargestPow10_run [OF p1_pos] .
  have delta: "unat (Mp - Mm) = unat Mp - unat Mm" "unat (Mp - w) = unat Mp - unat w"
    using order by (simp_all add: unat_sub word_le_nat_alt)
  have le: "Mm \<le> Mp" "w \<le> Mp" using order by (simp_all add: word_le_nat_alt)
  have dst: "unat (Mp - w) \<le> unat (Mp - Mm)" using order unfolding delta by simp
  have p1_word: "p1 > 0" using p1_pos by (simp add: word_less_nat_alt)
  note start = grisu2DigitGen_start [OF e sh_def le one_def p1_def p2_def p1_word k(1)]
  have "readDigits [] * 10 ^ k * 2 ^ sh + unat p1 * 2 ^ sh + unat p2 = unat Mp" using Mp by (simp add: readDigits_def)
  moreover have "unat p1 * 2 ^ sh + unat p2 < 2 ^ 64" "unat (Mp - Mm) < unat p1 * 2 ^ sh + unat p2"
    unfolding Mp(1) delta using unat_less_2p64 [of Mp] order by simp_all
  ultimately obtain ds buf1 where f1: "filled (pre @ ds) buf1" "goodDigits ds" and
    r: "(\<exists>m < k. integralDigits k one p1 p2 pow10 (Mp - Mm) (Mp - w) (length pre) 0 dexp buf =
          (Inr (length ds, Some (dexp + int m)), buf1) \<and> length ds + m = k \<and>
          inInterval (unat Mp) (unat (Mp - Mm)) (readDigits ds * 10 ^ m * 2 ^ sh)) \<or>
       integralDigits k one p1 p2 pow10 (Mp - Mm) (Mp - w) (length pre) 0 dexp buf = (Inr (length ds, None), buf1) \<and>
          length ds = k \<and> readDigits ds * 2 ^ sh + unat p2 = unat Mp \<and> unat (Mp - Mm) < unat p2"
    using integralDigits_run [of one sh p2 "Mp - w" "Mp - Mm" p1 k pow10 "[]" "unat Mp" pre buf dexp] Mp k dst pre sh
    by (auto simp: one_def goodDigits_def)
  from r show thesis
  proof (elim disjE exE conjE)
    fix m assume m: "m < k" "length ds + m = k"
      "integralDigits k one p1 p2 pow10 (Mp - Mm) (Mp - w) (length pre) 0 dexp buf = (Inr (length ds, Some (dexp + int m)), buf1)"
      "inInterval (unat Mp) (unat (Mp - Mm)) (readDigits ds * 10 ^ m * 2 ^ sh)"
    have "unat Mm \<le> readDigits ds * 10 ^ m * 2 ^ sh" "readDigits ds * 10 ^ m * 2 ^ sh \<le> unat Mp"
      using m(4) order by (auto simp: inInterval_def delta)
    from whole_between [OF this] show thesis using m k(3) f1 unfolding sh(1) [symmetric]
      by (intro that [of ds "int m" buf1]) (auto simp: start andThen_def run_simps)
  next
    assume b: "integralDigits k one p1 p2 pow10 (Mp - Mm) (Mp - w) (length pre) 0 dexp buf = (Inr (length ds, None), buf1)"
      "length ds = k" "readDigits ds * 2 ^ sh + unat p2 = unat Mp" "unat (Mp - Mm) < unat p2"
    have size: "10 ^ (k - 1) * 2 ^ sh \<le> unat Mp" unfolding Mp(1) [symmetric] using k(5) by (simp add: trans_le_add1)
    have one': "diyE one = - int sh" "diyF one = push_bit sh 1" by (simp_all add: one_def sh(1))
    have narrow': "unat Mp < 10 ^ 16 * unat (Mp - Mm)" using narrow by (simp only: delta)
    have len: "length ds = Suc (k - 1)" using b(2) k(2) by simp
    obtain ds' m buf' where c: "andThen (fractionalDigits 64 one p2 (Mp - Mm) (Mp - w) (length pre) (length ds) 0) (\<lambda>(len, m, rest, delta', dst').
       andThen (grisu2Round (length pre) len dst' delta' rest (diyF one)) (\<lambda>_. ok (len, dexp - int m))) buf1 =
      (Inr (length ds', dexp - int m), buf')" "filled (pre @ ds') buf'" "goodDigits ds'" "ds' \<noteq> []" "length ds' \<le> 17" "m \<le> 17"
      "unat Mp * 10 ^ m \<le> readDigits ds' * 2 ^ sh + unat (Mp - Mm) * 10 ^ m" "readDigits ds' * 2 ^ sh \<le> unat Mp * 10 ^ m"
      using fractionalPart_run [OF one' sh(3) narrow' size Mp(2) b(4) dst b(3) [symmetric] len f1(2,1) pre(2)] by blast
    have "unat Mm * 10 ^ m \<le> readDigits ds' * 2 ^ sh"
    proof -
      have "unat Mm * 10 ^ m + unat (Mp - Mm) * 10 ^ m = unat Mp * 10 ^ m"
        using order by (simp add: delta flip: add_mult_distrib)
      with c(7) show ?thesis by linarith
    qed
    note bounds = decimal_above [OF this] decimal_below [OF c(8)]
    have more: "p2 > Mp - Mm" using b(4) by (simp add: word_less_nat_alt)
    have "grisu2DigitGen 64 (length pre) 0 dexp \<lparr>diyF = Mm, diyE = e\<rparr> \<lparr>diyF = w, diyE = e\<rparr> \<lparr>diyF = Mp, diyE = e\<rparr> buf =
      (Inr (length ds', dexp + - int m), buf')"
      unfolding start by (subst andThen_def) (simp add: b(1) more c(1) run_simps)
    moreover have "- 17 \<le> - int m" "- int m \<le> 10" using c(6) by simp_all
    ultimately show thesis using c(2-5) bounds unfolding sh(1) [symmetric] by (intro that)
  qed
qed

end
