(* ===== verification/GrisuText.thy ===== *)
theory GrisuText
  imports GrisuDigits
begin

text \<open>
  The text of a floating-point number: what \<open>to_chars\<close> writes lies strictly between the midpoints to the neighbours of the
  number, so it is read back as the same number, and it fits the buffer.
\<close>

section \<open>The decimal number is between the midpoints\<close>

definition upperHalf :: "nat \<Rightarrow> nat" where
  "upperHalf N = (N + 2 ^ 63) div 2 ^ 64"

lemma upperHalf_bounds: "upperHalf N * 2 ^ 64 \<le> N + 2 ^ 63" "N + 2 ^ 63 < upperHalf N * 2 ^ 64 + 2 ^ 64"
  using dividend_less_times_div [of "2 ^ 64" "N + 2 ^ 63"] by (simp_all add: upperHalf_def)

text \<open>Scaling keeps the order of the bounds and their distance.\<close>

lemma goodBounds_scaled:
  assumes "goodBounds M W P" "2 ^ 63 \<le> C"
  shows "upperHalf (M * C) + 1 \<le> upperHalf (W * C)" "upperHalf (W * C) + 1 \<le> upperHalf (P * C)" "2 ^ 60 < upperHalf (P * C)"
    "upperHalf (P * C) - 1 < 10 ^ 16 * (upperHalf (P * C) - 1 - (upperHalf (M * C) + 1))"
proof -
  have b: "2 ^ 63 \<le> W" "W + 2 ^ 10 \<le> P" "M + 2 ^ 9 \<le> W" "P < 2 ^ 53 * (P - M)" using assms(1) by (simp_all add: goodBounds_def)
  have p: "M * C + 2 ^ 72 \<le> W * C" "W * C + 2 ^ 73 \<le> P * C" "2 ^ 126 \<le> W * C"
    using mult_le_mono [OF b(3), of C C] mult_le_mono [OF b(2), of C C] mult_le_mono [OF b(1) assms(2)] assms(2)
    by (simp_all add: add_mult_distrib)
  note u = upperHalf_bounds [of "M * C"] upperHalf_bounds [of "W * C"] upperHalf_bounds [of "P * C"]
  show "upperHalf (M * C) + 1 \<le> upperHalf (W * C)" "upperHalf (W * C) + 1 \<le> upperHalf (P * C)" "2 ^ 60 < upperHalf (P * C)"
    using p u by simp_all
  define K where "K = (P - M) * C"
  have K: "P * C = M * C + K" using b by (simp add: K_def diff_mult_distrib)
  have "P * C \<le> 2 ^ 53 * K" unfolding K_def mult.assoc [symmetric] using b(4) by (intro mult_le_mono) simp_all
  moreover have "768 * 2 ^ 64 \<le> K" using p K by simp
  ultimately show "upperHalf (P * C) - 1 < 10 ^ 16 * (upperHalf (P * C) - 1 - (upperHalf (M * C) + 1))"
    using u K by simp
qed

lemma between_scaled:
  assumes "\<bar>scaled a E - t * 10 powi k\<bar> < 2 powi E"
  shows "scaled (a + 1) E \<le> v * 10 powi x \<Longrightarrow> t < v * 10 powi (x - k)" "1 \<le> a \<Longrightarrow> v * 10 powi x \<le> scaled (a - 1) E \<Longrightarrow> v * 10 powi (x - k) < t"
proof -
  have up: "scaled (a + 1) E = scaled a E + 2 powi E" by (simp add: scaled_def distrib_right)
  have down: "1 \<le> a \<Longrightarrow> scaled (a - 1) E = scaled a E - 2 powi E" by (simp add: scaled_def of_nat_diff left_diff_distrib)
  have x: "v * 10 powi x = v * 10 powi (x - k) * 10 powi k" by (simp add: power_int_diff)
  have pos: "(0 :: rat) < 10 powi k" by simp
  show "scaled (a + 1) E \<le> v * 10 powi x \<Longrightarrow> t < v * 10 powi (x - k)"
  proof -
    assume "scaled (a + 1) E \<le> v * 10 powi x"
    with assms up have "t * 10 powi k < v * 10 powi (x - k) * 10 powi k" unfolding x by linarith
    then show ?thesis using pos by (simp only: mult_less_cancel_right_pos)
  qed
  show "v * 10 powi (x - k) < t" if "1 \<le> a" "v * 10 powi x \<le> scaled (a - 1) E"
  proof -
    from that assms down have "v * 10 powi (x - k) * 10 powi k < t * 10 powi k" unfolding x by linarith
    then show ?thesis using pos by (simp only: mult_less_cancel_right_pos)
  qed
qed

text \<open>\<open>grisu2\<close> on a finite positive number.\<close>

lemma grisu2_run:
  assumes "isfinite x" "isPositive x" "filled pre buf" "length pre \<le> 1"
  obtains ds dexp buf' where "grisu2 64 (length pre) 0 0 x buf = (Inr (length ds, dexp), buf')" "filled (pre @ ds) buf'"
    "goodDigits ds" "ds \<noteq> []" "length ds \<le> 17" "- 400 \<le> dexp" "dexp \<le> 400"
    "lowerMid (bitsOf x) < of_nat (readDigits ds) * 10 powi dexp" "of_nat (readDigits ds) * 10 powi dexp < upperMid (bitsOf x)"
proof -
  obtain W M P e where b: "computeBoundaries x buf = (Inr \<lparr>boundW = \<lparr>diyF = W, diyE = e\<rparr>,
      boundMinus = \<lparr>diyF = M, diyE = e\<rparr>, boundPlus = \<lparr>diyF = P, diyE = e\<rparr>\<rparr>, buf)"
    "scaled (unat W) e = magnitude (unat x)" "scaled (unat M) e = lowerMid (unat x)" "scaled (unat P) e = upperMid (unat x)"
    "goodBounds (unat M) (unat W) (unat P)" "-1137 \<le> e" "e \<le> 960"
    using computeBoundaries_run [OF assms(1,2), of buf] .
  obtain c where c: "getCachedPower e buf = (Inr c, buf)" "accurate (cachedF c, cachedE c, cachedK c)"
    "- 60 \<le> cachedE c + e + 64" "cachedE c + e + 64 \<le> - 32" "- 300 \<le> cachedK c" "cachedK c \<le> 324"
    using getCachedPower_run [OF b(6,7)] .
  define C where "C = \<lparr>diyF = cachedF c, diyE = cachedE c\<rparr>"
  define E where "E = e + cachedE c + 64"
  define m where "m N = diyMul \<lparr>diyF = N, diyE = e\<rparr> C" for N
  have E: "diyE (m N) = E" for N by (simp add: m_def C_def E_def)
  have half: "unat (diyF (m N)) = upperHalf (unat N * unat (cachedF c))" for N
    by (simp only: m_def C_def diyMul_high diyfp.simps upperHalf_def)
  have "2 ^ 63 \<le> int (unat (cachedF c))" using c(2) by (simp add: accurate_def)
  then have "2 ^ 63 \<le> unat (cachedF c)" by (metis of_nat_le_iff of_nat_numeral of_nat_power)
  note g = goodBounds_scaled [OF b(5) this, folded half]
  have up: "unat (diyF (m M) + 1) = unat (diyF (m M)) + 1"
    using g(1) unat_less_2p64 [of "diyF (m W)"] by (subst unat_add_small) simp_all
  have "unat (diyF (m P)) \<noteq> 0" using g(3) by linarith
  then have "diyF (m P) \<noteq> 0" by (metis unat_0)
  then have down: "unat (diyF (m P) - 1) = unat (diyF (m P)) - 1" by (rule unat_minus_one)
  have run: "grisu2 64 (length pre) 0 0 x buf = grisu2DigitGen 64 (length pre) 0 (- cachedK c)
      \<lparr>diyF = diyF (m M) + 1, diyE = E\<rparr> (m W) \<lparr>diyF = diyF (m P) - 1, diyE = E\<rparr> buf"
    using assms(1,2) b(1) c(1) E by (simp add: grisu2_def grisu2Bounds_def andThen_def run_simps Let_def m_def C_def)
  have w: "\<lparr>diyF = diyF (m W), diyE = E\<rparr> = m W" using E [of W] by (cases "m W") simp
  have e: "- 60 \<le> E" "E \<le> - 32" using c(3,4) by (simp_all add: E_def)
  have order: "unat (diyF (m M) + 1) \<le> unat (diyF (m W))" "unat (diyF (m W)) \<le> unat (diyF (m P) - 1)"
    "0 < unat (diyF (m M) + 1)" "2 ^ 60 \<le> unat (diyF (m P) - 1)"
    "unat (diyF (m P) - 1) < 10 ^ 16 * (unat (diyF (m P) - 1) - unat (diyF (m M) + 1))"
    using g unfolding up down by linarith+
  obtain ds y buf' where d: "grisu2DigitGen 64 (length pre) 0 (- cachedK c)
      \<lparr>diyF = diyF (m M) + 1, diyE = E\<rparr> \<lparr>diyF = diyF (m W), diyE = E\<rparr> \<lparr>diyF = diyF (m P) - 1, diyE = E\<rparr> buf =
      (Inr (length ds, - cachedK c + y), buf')" "filled (pre @ ds) buf'" "goodDigits ds" "ds \<noteq> []" "length ds \<le> 17" "- 17 \<le> y" "y \<le> 10"
    "scaled (unat (diyF (m M) + 1)) E \<le> of_nat (readDigits ds) * 10 powi y"
    "of_nat (readDigits ds) * 10 powi y \<le> scaled (unat (diyF (m P) - 1)) E"
    using grisu2DigitGen_run [OF e order assms(3,4)] .
  have err: "\<bar>scaled (unat (diyF (m N))) E - scaled (unat N) e * 10 powi cachedK c\<bar> < 2 powi E" for N
    using diyMul_scaled [OF c(2)] unfolding m_def C_def E_def .
  have dexp: "- cachedK c + y = y - cachedK c" by simp
  show thesis
  proof (rule that [of ds "- cachedK c + y" buf'])
    show "lowerMid (bitsOf x) < of_nat (readDigits ds) * 10 powi (- cachedK c + y)"
      using between_scaled(1) [OF err [of M]] d(8) b(3) positive_bits [OF assms(2)] unfolding up dexp by simp
    show "of_nat (readDigits ds) * 10 powi (- cachedK c + y) < upperMid (bitsOf x)"
      using between_scaled(2) [OF err [of P]] d(9) b(4) g(3) positive_bits [OF assms(2)] unfolding down dexp by simp
  qed (use d c run w in simp_all)
qed


section \<open>The layouts\<close>

text \<open>\<open>exponentText\<close> and \<open>layoutText\<close>: the text of the digits with the decimal point behind the first \<open>n\<close>.\<close>

definition exponentText :: "int \<Rightarrow> string" where
  "exponentText e =
     (let k = nat \<bar>e\<bar> in (if e < 0 then CHR ''-'' else CHR ''+'') #
      (if k < 100 then [digitChar (k div 10), digitChar (k mod 10)]
       else [digitChar (k div 100), digitChar (k mod 100 div 10), digitChar (k mod 10)]))"

definition layoutText :: "string \<Rightarrow> int \<Rightarrow> string" where
  "layoutText ds n =
     (if int (length ds) \<le> n \<and> n \<le> 15 then ds @ replicate (nat n - length ds) CHR ''0'' @ ''.0''
      else if 0 < n \<and> n \<le> 15 then take (nat n) ds @ CHR ''.'' # drop (nat n) ds
      else if -4 < n \<and> n \<le> 0 then ''0.'' @ replicate (nat (- n)) CHR ''0'' @ ds
      else (if length ds = 1 then ds else hd ds # CHR ''.'' # tl ds) @ CHR ''e'' # exponentText (n - 1))"

lemma bufFill_append:
  assumes "filled xs buf" "length xs + n \<le> 64"
  obtains buf' where "bufFill (length xs) c n buf = (Inr (), buf')" "filled (xs @ replicate n c) buf'"
proof (rule that)
  show "bufFill (length xs) c n buf = (Inr (), take (length xs) buf @ replicate n (Some c) @ drop (length xs + n) buf)"
    using assms by (simp add: bufFill_def run_simps filled_def)
  show "filled (xs @ replicate n c) (take (length xs) buf @ replicate n (Some c) @ drop (length xs + n) buf)"
    using assms by (simp add: filled_def map_replicate_const)
qed

text \<open>Moving the end of the text away leaves a gap, which is then overwritten.\<close>

lemma bufMove_gap:
  assumes "filled (xs @ ys) buf" "length xs + g + length ys \<le> 64"
  obtains gap tail where "bufMove (length xs + g) (length xs) (length ys) buf =
      (Inr (), map Some xs @ gap @ map Some ys @ tail)" "length gap = g" "length (map Some xs @ gap @ map Some ys @ tail) = 64"
proof -
  have buf: "length buf = 64" "take (length xs + length ys) buf = map Some (xs @ ys)" using assms by (simp_all add: filled_def)
  then have "take (length xs) (take (length xs + length ys) buf) = map Some xs" "drop (length xs) (take (length xs + length ys) buf) = map Some ys"
    by simp_all
  then have parts: "take (length xs) buf = map Some xs" "take (length ys) (drop (length xs) buf) = map Some ys"
    by (simp_all add: take_drop [symmetric] drop_take add.commute)
  define gap where "gap = take g (drop (length xs) buf)"
  have pre: "take (length xs + g) buf = map Some xs @ gap" by (simp add: take_add parts gap_def)
  have len: "length gap = g" using assms(2) buf by (simp add: gap_def)
  show thesis
    using assms(2) buf len by (intro that [of gap "drop (length xs + g + length ys) buf"])
      (simp_all add: bufMove_def run_simps pre parts)
qed

lemma bufSet_run: "i < length buf \<Longrightarrow> bufSet i c buf = (Inr (), buf[i := Some c])"
  by (simp add: bufSet_def run_simps)

lemma filled_exact: "length (map Some xs @ tail) = 64 \<Longrightarrow> filled xs (map Some xs @ tail)"
  by (simp add: filled_def)

text \<open>The point inside of the digits.\<close>

lemma insert_point:
  assumes "filled (xs @ ys) buf" "length xs + length ys < 64"
  obtains buf' where "andThen (bufMove (length xs + 1) (length xs) (length ys)) (\<lambda>_. andThen (bufSet (length xs) c) f) buf = f () buf'"
    "filled (xs @ c # ys) buf'"
proof -
  obtain gap tail where m: "bufMove (length xs + 1) (length xs) (length ys) buf = (Inr (), map Some xs @ gap @ map Some ys @ tail)"
    "length gap = 1" "length (map Some xs @ gap @ map Some ys @ tail) = 64"
    using bufMove_gap [OF assms(1), of 1] assms(2) by auto
  obtain z where gap: "gap = [z]" using m(2) by (cases gap) auto
  have set: "bufSet (length xs) c (map Some xs @ gap @ map Some ys @ tail) = (Inr (), map Some (xs @ c # ys) @ tail)"
    using m(3) by (subst bufSet_run) (simp_all add: gap list_update_append)
  show thesis
    using m(3) filled_exact [of "xs @ c # ys" tail] by (intro that [of "map Some (xs @ c # ys) @ tail"])
      (simp_all only: andThen_def m(1) set prod.case sum.case, simp add: gap)
qed

text \<open>Digits behind \<open>0.\<close> and zeros.\<close>

lemma insert_zeros:
  assumes "filled (xs @ ys) buf" "length xs + 2 + z + length ys \<le> 64"
  obtains buf' where "andThen (bufMove (length xs + 2 + z) (length xs) (length ys)) (\<lambda>_. andThen (bufSet (length xs) CHR ''0'') (\<lambda>_.
      andThen (bufSet (length xs + 1) CHR ''.'') (\<lambda>_. andThen (bufFill (length xs + 2) CHR ''0'' z) f))) buf = f () buf'"
    "filled (xs @ ''0.'' @ replicate z CHR ''0'' @ ys) buf'"
proof -
  obtain gap tail where m: "bufMove (length xs + 2 + z) (length xs) (length ys) buf = (Inr (), map Some xs @ gap @ map Some ys @ tail)"
    "length gap = 2 + z" "length (map Some xs @ gap @ map Some ys @ tail) = 64"
    using bufMove_gap [OF assms(1), of "2 + z"] assms(2) by (auto simp: add.assoc)
  obtain a b rest where gap: "gap = a # b # rest" "length rest = z" using m(2) by (cases gap; cases "tl gap") auto
  let ?zs = "map Some ys @ tail"
  have s1: "bufSet (length xs) CHR ''0'' (map Some xs @ gap @ ?zs) = (Inr (), map Some (xs @ ''0'') @ b # rest @ ?zs)"
    using m(3) by (subst bufSet_run) (simp_all add: gap list_update_append)
  have s2: "bufSet (length xs + 1) CHR ''.'' (map Some (xs @ ''0'') @ b # rest @ ?zs) = (Inr (), map Some (xs @ ''0.'') @ rest @ ?zs)"
    using m(3) by (subst bufSet_run) (simp_all add: gap list_update_append)
  have s3: "bufFill (length xs + 2) CHR ''0'' z (map Some (xs @ ''0.'') @ rest @ ?zs) =
      (Inr (), map Some (xs @ ''0.'' @ replicate z CHR ''0'' @ ys) @ tail)"
    using m(3) gap by (simp add: bufFill_def run_simps map_replicate_const)
  show thesis
  proof (rule that)
    show "andThen (bufMove (length xs + 2 + z) (length xs) (length ys)) (\<lambda>_. andThen (bufSet (length xs) CHR ''0'') (\<lambda>_.
      andThen (bufSet (length xs + 1) CHR ''.'') (\<lambda>_. andThen (bufFill (length xs + 2) CHR ''0'' z) f))) buf =
      f () (map Some (xs @ ''0.'' @ replicate z CHR ''0'' @ ys) @ tail)"
      by (simp only: andThen_def m(1) s1 s2 s3 prod.case sum.case)
    show "filled (xs @ ''0.'' @ replicate z CHR ''0'' @ ys) (map Some (xs @ ''0.'' @ replicate z CHR ''0'' @ ys) @ tail)"
      using m(3) gap by (intro filled_exact) simp
  qed
qed

section \<open>\<open>append_exponent\<close> and \<open>format_buffer\<close>\<close>

lemma bufSet_then:
  assumes "filled xs buf" "length xs < 64"
  obtains buf' where "andThen (bufSet (length xs) c) f buf = f () buf'" "filled (xs @ [c]) buf'"
  using bufSet_append [OF assms, of c] by (metis andThen_ok)

lemma bufSet_two:
  assumes "filled xs buf" "length xs + 2 \<le> 64"
  obtains buf' where "andThen (bufSet (length xs) a) (\<lambda>_. andThen (bufSet (length xs + 1) b) f) buf = f () buf'"
    "filled (xs @ [a, b]) buf'"
proof -
  have "length xs < 64" using assms(2) by simp
  from bufSet_then [OF assms(1) this, of a "\<lambda>_. andThen (bufSet (length xs + 1) b) f"] obtain b1 where
    b1: "andThen (bufSet (length xs) a) (\<lambda>_. andThen (bufSet (length xs + 1) b) f) buf = andThen (bufSet (length xs + 1) b) f b1"
      "filled (xs @ [a]) b1" .
  have "length (xs @ [a]) < 64" using assms(2) by simp
  from bufSet_then [OF b1(2) this, of b f] obtain b2 where
    b2: "andThen (bufSet (length (xs @ [a])) b) f b1 = f () b2" "filled ((xs @ [a]) @ [b]) b2" .
  show thesis using b2 by (intro that [of b2]) (simp_all add: b1(1)[simplified])
qed

lemma bufSet_three:
  assumes "filled xs buf" "length xs + 3 \<le> 64"
  obtains buf' where "andThen (bufSet (length xs) a) (\<lambda>_. andThen (bufSet (length xs + 1) b) (\<lambda>_.
      andThen (bufSet (length xs + 2) c) f)) buf = f () buf'" "filled (xs @ [a, b, c]) buf'"
proof -
  have "length xs + 2 \<le> 64" using assms(2) by simp
  from bufSet_two [OF assms(1) this, of a b "\<lambda>_. andThen (bufSet (length xs + 2) c) f"] obtain b1 where
    b1: "andThen (bufSet (length xs) a) (\<lambda>_. andThen (bufSet (length xs + 1) b) (\<lambda>_. andThen (bufSet (length xs + 2) c) f)) buf =
      andThen (bufSet (length xs + 2) c) f b1" "filled (xs @ [a, b]) b1" .
  have "length (xs @ [a, b]) < 64" using assms(2) by simp
  from bufSet_then [OF b1(2) this, of c f] obtain b2 where
    b2: "andThen (bufSet (length (xs @ [a, b])) c) f b1 = f () b2" "filled ((xs @ [a, b]) @ [c]) b2" .
  show thesis using b2 by (intro that [of b2]) (simp_all add: b1(1)[simplified])
qed

lemma bufSet_four:
  assumes "filled xs buf" "length xs + 4 \<le> 64"
  obtains buf' where "andThen (bufSet (length xs) a) (\<lambda>_. andThen (bufSet (length xs + 1) b) (\<lambda>_.
      andThen (bufSet (length xs + 2) c) (\<lambda>_. andThen (bufSet (length xs + 3) d) f))) buf = f () buf'" "filled (xs @ [a, b, c, d]) buf'"
proof -
  have "length xs + 3 \<le> 64" using assms(2) by simp
  from bufSet_three [OF assms(1) this, of a b c "\<lambda>_. andThen (bufSet (length xs + 3) d) f"] obtain b1 where
    b1: "andThen (bufSet (length xs) a) (\<lambda>_. andThen (bufSet (length xs + 1) b) (\<lambda>_.
      andThen (bufSet (length xs + 2) c) (\<lambda>_. andThen (bufSet (length xs + 3) d) f))) buf = andThen (bufSet (length xs + 3) d) f b1"
      "filled (xs @ [a, b, c]) b1" .
  have "length (xs @ [a, b, c]) < 64" using assms(2) by simp
  from bufSet_then [OF b1(2) this, of d f] obtain b2 where
    b2: "andThen (bufSet (length (xs @ [a, b, c])) d) f b1 = f () b2" "filled ((xs @ [a, b, c]) @ [d]) b2" .
  have len: "length xs + 3 = length (xs @ [a, b, c])" by simp
  show thesis
  proof (rule that)
    show "andThen (bufSet (length xs) a) (\<lambda>_. andThen (bufSet (length xs + 1) b) (\<lambda>_.
      andThen (bufSet (length xs + 2) c) (\<lambda>_. andThen (bufSet (length xs + 3) d) f))) buf = f () b2"
      unfolding b1(1) unfolding len by (rule b2(1))
  qed (use b2(2) in simp)
qed

lemma appendExponent_run:
  assumes "filled xs buf" "length xs + 4 \<le> 64" "- 1000 < e" "e < 1000"
  obtains buf' where "appendExponent (length xs) e buf = (Inr (length xs + length (exponentText e)), buf')"
    "filled (xs @ exponentText e) buf'"
proof -
  define k where "k = nat \<bar>e\<bar>"
  define sgn where "sgn = (if e < 0 then CHR ''-'' else CHR ''+'')"
  have k: "nat (if e < 0 then - e else e) = k" "k < 1000" using assms(3,4) by (auto simp: k_def)
  have fits: "length xs + 3 \<le> 64" using assms(2) by simp
  show thesis
  proof (cases "k < 100")
    case True
    have "k div 10 = 0" "k mod 10 = k" if "k < 10" using that by simp_all
    then have digits: "appendExponent (length xs) e = andThen (bufSet (length xs) sgn) (\<lambda>_.
      andThen (bufSet (length xs + 1) (digitChar (k div 10))) (\<lambda>_. andThen (bufSet (length xs + 2) (digitChar (k mod 10))) (\<lambda>_.
        ok (length xs + 3))))"
      using assms(3,4) True unfolding appendExponent_def k(1) sgn_def [symmetric]
      by (cases "k < 10") (simp_all add: run_simps Let_def digitChar_def)
    obtain buf' where "appendExponent (length xs) e buf = ok (length xs + 3) buf'" "filled (xs @ [sgn, digitChar (k div 10), digitChar (k mod 10)]) buf'"
      using bufSet_three [OF assms(1) fits, of sgn] unfolding digits by metis
    then show thesis using True by (intro that [of buf']) (simp_all add: exponentText_def Let_def k_def [symmetric] sgn_def run_simps)
  next
    case False
    then have digits: "appendExponent (length xs) e = andThen (bufSet (length xs) sgn) (\<lambda>_.
      andThen (bufSet (length xs + 1) (digitChar (k div 100))) (\<lambda>_. andThen (bufSet (length xs + 2) (digitChar (k mod 100 div 10))) (\<lambda>_.
        andThen (bufSet (length xs + 3) (digitChar (k mod 100 mod 10))) (\<lambda>_. ok (length xs + 4)))))"
      using assms(3,4) unfolding appendExponent_def k(1) sgn_def [symmetric] by (simp add: run_simps Let_def)
    have "k mod 100 mod 10 = k mod 10" by (simp add: mod_mod_cancel)
    then obtain buf' where "appendExponent (length xs) e buf = ok (length xs + 4) buf'"
      "filled (xs @ [sgn, digitChar (k div 100), digitChar (k mod 100 div 10), digitChar (k mod 10)]) buf'"
      using bufSet_four [OF assms(1,2), of sgn] unfolding digits by metis
    then show thesis using False by (intro that [of buf']) (simp_all add: exponentText_def Let_def k_def [symmetric] sgn_def run_simps)
  qed
qed

lemma scientific_run:
  assumes "filled xs buf" "length xs + 5 \<le> 64" "- 1000 < e" "e < 1000"
  obtains buf' where "andThen (bufSet (length xs) CHR ''e'') (\<lambda>_. appendExponent (length xs + 1) e) buf =
      (Inr (length (xs @ CHR ''e'' # exponentText e)), buf')" "filled (xs @ CHR ''e'' # exponentText e) buf'"
proof -
  have "length xs < 64" using assms(2) by simp
  from bufSet_then [OF assms(1) this, of "CHR ''e''" "\<lambda>_. appendExponent (length xs + 1) e"] obtain b1 where
    b1: "andThen (bufSet (length xs) CHR ''e'') (\<lambda>_. appendExponent (length xs + 1) e) buf = appendExponent (length xs + 1) e b1"
      "filled (xs @ ''e'') b1" .
  have "length (xs @ ''e'') + 4 \<le> 64" using assms(2) by simp
  from appendExponent_run [OF b1(2) this assms(3,4)] obtain b2 where
    "appendExponent (length (xs @ ''e'')) e b1 = (Inr (length (xs @ ''e'') + length (exponentText e)), b2)" "filled ((xs @ ''e'') @ exponentText e) b2" .
  then show thesis unfolding b1(1) by (intro that [of b2]) (simp_all add: b1(1)[simplified])
qed

text \<open>One lemma per layout; \<open>n\<close> is the position of the decimal point.\<close>

lemma formatBuffer_whole:
  assumes good: "filled (pre @ ds) buf" "ds \<noteq> []" "length ds \<le> 17" "length pre \<le> 1" "- 400 \<le> dexp" "dexp \<le> 400"
    and at: "n = int (length ds) + dexp" and dom: "int (length ds) \<le> n" "n \<le> 15"
  obtains buf' where "formatBuffer (length pre) (length ds) dexp (-4) 15 buf = (Inr (length pre + length (layoutText ds n)), buf')"
    "filled (pre @ layoutText ds n) buf'"
proof -
  let ?k = "length ds" and ?b = "length pre"
  let ?z = "replicate (nat n - ?k) CHR ''0''"
  have "length (pre @ ds) + (nat n - ?k) \<le> 64" using dom good(4) by simp
  from bufFill_append [OF good(1) this, of "CHR ''0''"] obtain b1 where
    b1: "bufFill (length (pre @ ds)) CHR ''0'' (nat n - ?k) buf = (Inr (), b1)" "filled ((pre @ ds) @ ?z) b1" .
  have len: "length ((pre @ ds) @ ?z) = ?b + nat n" using dom by simp
  have "length ((pre @ ds) @ ?z) + 2 \<le> 64" unfolding len using dom good(4) by simp
  from bufSet_two [OF b1(2) this, of "CHR ''.''" "CHR ''0''" "\<lambda>_. ok (?b + nat n + 2)"] obtain b2 where
    b2: "andThen (bufSet (?b + nat n) CHR ''.'') (\<lambda>_. andThen (bufSet (?b + nat n + 1) CHR ''0'') (\<lambda>_. ok (?b + nat n + 2))) b1 =
      (Inr (?b + nat n + 2), b2)" "filled (((pre @ ds) @ ?z) @ ''.0'') b2" unfolding len by (auto simp: run_simps)
  have "formatBuffer ?b ?k dexp (-4) 15 buf = (Inr (?b + nat n + 2), b2)"
    using dom b1(1) b2(1) by (simp add: formatBuffer_def Let_def at [symmetric] andThen_def [of "bufFill _ _ _"] run_simps)
  then show thesis using dom b2(2) by (intro that [of b2]) (simp_all add: layoutText_def)
qed

lemma formatBuffer_point:
  assumes good: "filled (pre @ ds) buf" "ds \<noteq> []" "length ds \<le> 17" "length pre \<le> 1" "- 400 \<le> dexp" "dexp \<le> 400"
    and at: "n = int (length ds) + dexp" and dom: "0 < n" "n < int (length ds)" "n \<le> 15"
  obtains buf' where "formatBuffer (length pre) (length ds) dexp (-4) 15 buf = (Inr (length pre + length (layoutText ds n)), buf')"
    "filled (pre @ layoutText ds n) buf'"
proof -
  let ?k = "length ds" and ?b = "length pre"
  have split: "pre @ ds = (pre @ take (nat n) ds) @ drop (nat n) ds" by simp
  have len: "length (pre @ take (nat n) ds) = ?b + nat n" "length (drop (nat n) ds) = ?k - nat n" using dom by simp_all
  have "length (pre @ take (nat n) ds) + length (drop (nat n) ds) < 64" using dom good(3,4) unfolding len by simp
  from insert_point [OF good(1) [unfolded split] this, of "CHR ''.''" "\<lambda>_. ok (?b + ?k + 1)"] obtain b1 where
    b1: "andThen (bufMove (?b + nat n + 1) (?b + nat n) (?k - nat n)) (\<lambda>_. andThen (bufSet (?b + nat n) CHR ''.'') (\<lambda>_. ok (?b + ?k + 1))) buf =
      (Inr (?b + ?k + 1), b1)" "filled ((pre @ take (nat n) ds) @ CHR ''.'' # drop (nat n) ds) b1" unfolding len by (auto simp: run_simps)
  have "formatBuffer ?b ?k dexp (-4) 15 buf = (Inr (?b + ?k + 1), b1)"
    using dom b1(1) by (simp add: formatBuffer_def Let_def at [symmetric] run_simps)
  then show thesis using dom b1(2) by (intro that [of b1]) (simp_all add: layoutText_def)
qed

lemma formatBuffer_zeros:
  assumes good: "filled (pre @ ds) buf" "ds \<noteq> []" "length ds \<le> 17" "length pre \<le> 1" "- 400 \<le> dexp" "dexp \<le> 400"
    and at: "n = int (length ds) + dexp" and dom: "- 4 < n" "n \<le> 0"
  obtains buf' where "formatBuffer (length pre) (length ds) dexp (-4) 15 buf = (Inr (length pre + length (layoutText ds n)), buf')"
    "filled (pre @ layoutText ds n) buf'"
proof -
  let ?k = "length ds" and ?b = "length pre"
  have "length pre + 2 + nat (- n) + length ds \<le> 64" using dom good(3,4) by simp
  from insert_zeros [OF good(1) this, of "\<lambda>_. ok (?b + 2 + nat (- n) + ?k)"] obtain b1 where
    b1: "andThen (bufMove (?b + 2 + nat (- n)) ?b ?k) (\<lambda>_. andThen (bufSet ?b CHR ''0'') (\<lambda>_. andThen (bufSet (?b + 1) CHR ''.'') (\<lambda>_.
      andThen (bufFill (?b + 2) CHR ''0'' (nat (- n))) (\<lambda>_. ok (?b + 2 + nat (- n) + ?k))))) buf = (Inr (?b + 2 + nat (- n) + ?k), b1)"
    "filled (pre @ ''0.'' @ replicate (nat (- n)) CHR ''0'' @ ds) b1" by (auto simp: run_simps)
  have k: "\<not> int ?k \<le> n" using dom good(2) by (cases ds) auto
  have "formatBuffer ?b ?k dexp (-4) 15 buf = (Inr (?b + 2 + nat (- n) + ?k), b1)"
    using dom k b1(1) by (simp add: formatBuffer_def Let_def at [symmetric] run_simps)
  then show thesis using dom k b1(2) by (intro that [of b1]) (simp_all add: layoutText_def)
qed

lemma formatBuffer_exponent:
  assumes good: "filled (pre @ ds) buf" "ds \<noteq> []" "length ds \<le> 17" "length pre \<le> 1" "- 400 \<le> dexp" "dexp \<le> 400"
    and at: "n = int (length ds) + dexp" and dom: "n \<le> - 4 \<or> 15 < n" "length ds = 1"
  obtains buf' where "formatBuffer (length pre) (length ds) dexp (-4) 15 buf = (Inr (length pre + length (layoutText ds n)), buf')"
    "filled (pre @ layoutText ds n) buf'"
proof -
  let ?k = "length ds" and ?b = "length pre"
  have n: "\<not> (int ?k \<le> n \<and> n \<le> 15)" "\<not> (0 < n \<and> n \<le> 15)" "\<not> (- 4 < n \<and> n \<le> 0)" using dom by auto
  have "length (pre @ ds) + 5 \<le> 64" "- 1000 < n - 1" "n - 1 < 1000" using dom good(4-6) by (simp_all add: at)
  from scientific_run [OF good(1) this] obtain b1 where b1: "andThen (bufSet (length (pre @ ds)) CHR ''e'') (\<lambda>_. appendExponent (length (pre @ ds) + 1) (n - 1)) buf =
      (Inr (length ((pre @ ds) @ CHR ''e'' # exponentText (n - 1))), b1)" "filled ((pre @ ds) @ CHR ''e'' # exponentText (n - 1)) b1" .
  have "formatBuffer ?b ?k dexp (-4) 15 buf = (Inr (length ((pre @ ds) @ CHR ''e'' # exponentText (n - 1))), b1)"
    using dom(2) b1(1) unfolding formatBuffer_def Let_def at [symmetric] if_not_P [OF n(1)] if_not_P [OF n(2)] if_not_P [OF n(3)]
    by (simp add: run_simps)
  moreover have "layoutText ds n = ds @ CHR ''e'' # exponentText (n - 1)"
    unfolding layoutText_def if_not_P [OF n(1)] if_not_P [OF n(2)] if_not_P [OF n(3)] using dom(2) by simp
  ultimately show thesis using b1(2) by (intro that [of b1]) simp_all
qed

lemma formatBuffer_scientific:
  assumes good: "filled (pre @ ds) buf" "ds \<noteq> []" "length ds \<le> 17" "length pre \<le> 1" "- 400 \<le> dexp" "dexp \<le> 400"
    and at: "n = int (length ds) + dexp" and dom: "n \<le> - 4 \<or> 15 < n" "length ds \<noteq> 1"
  obtains buf' where "formatBuffer (length pre) (length ds) dexp (-4) 15 buf = (Inr (length pre + length (layoutText ds n)), buf')"
    "filled (pre @ layoutText ds n) buf'"
proof -
  let ?k = "length ds" and ?b = "length pre"
  have n: "\<not> (int ?k \<le> n \<and> n \<le> 15)" "\<not> (0 < n \<and> n \<le> 15)" "\<not> (- 4 < n \<and> n \<le> 0)" using dom by auto
  obtain d es where ds: "ds = d # es" "es \<noteq> []" using dom(2) good(2) by (cases ds) auto
  have len: "length (pre @ [d]) = ?b + 1" "length es = ?k - 1" "length (pre @ [d]) + length es < 64"
    using ds good(3,4) by simp_all
  from insert_point [of "pre @ [d]" es buf "CHR ''.''" "\<lambda>_. ok (?b + 1 + ?k)"] good(1) len(3) obtain b0 where
    b0: "andThen (bufMove (?b + 1 + 1) (?b + 1) (?k - 1)) (\<lambda>_. andThen (bufSet (?b + 1) CHR ''.'') (\<lambda>_. ok (?b + 1 + ?k))) buf =
      (Inr (?b + 1 + ?k), b0)" "filled ((pre @ [d]) @ CHR ''.'' # es) b0" unfolding len ds(1) by (auto simp: run_simps)
  have len1: "length ((pre @ [d]) @ CHR ''.'' # es) = ?b + 1 + ?k" using ds by simp
  then have "length ((pre @ [d]) @ CHR ''.'' # es) + 5 \<le> 64" "- 1000 < n - 1" "n - 1 < 1000" using good(3-6) by (simp_all add: at)
  from scientific_run [OF b0(2) this] obtain b1 where b1: "andThen (bufSet (?b + 1 + ?k) CHR ''e'') (\<lambda>_. appendExponent (?b + 1 + ?k + 1) (n - 1)) b0 =
      (Inr (length (((pre @ [d]) @ CHR ''.'' # es) @ CHR ''e'' # exponentText (n - 1))), b1)"
    "filled (((pre @ [d]) @ CHR ''.'' # es) @ CHR ''e'' # exponentText (n - 1)) b1" unfolding len1 .
  have "formatBuffer ?b ?k dexp (-4) 15 buf = (Inr (length (((pre @ [d]) @ CHR ''.'' # es) @ CHR ''e'' # exponentText (n - 1))), b1)"
    using dom(2) b1(1) b0(1) unfolding formatBuffer_def Let_def at [symmetric] if_not_P [OF n(1)] if_not_P [OF n(2)] if_not_P [OF n(3)]
    by (simp add: run_simps andThen_ok [of _ buf])
  moreover have "layoutText ds n = d # CHR ''.'' # es @ CHR ''e'' # exponentText (n - 1)"
    unfolding layoutText_def if_not_P [OF n(1)] if_not_P [OF n(2)] if_not_P [OF n(3)] using ds by simp
  ultimately show thesis using b1(2) by (intro that [of b1]) simp_all
qed

lemma formatBuffer_run:
  assumes "filled (pre @ ds) buf" "ds \<noteq> []" "length ds \<le> 17" "length pre \<le> 1" "- 400 \<le> dexp" "dexp \<le> 400"
  defines "n \<equiv> int (length ds) + dexp"
  obtains buf' where "formatBuffer (length pre) (length ds) dexp (-4) 15 buf = (Inr (length pre + length (layoutText ds n)), buf')"
    "filled (pre @ layoutText ds n) buf'"
proof -
  note good = assms(1-6) n_def [THEN meta_eq_to_obj_eq]
  consider "int (length ds) \<le> n" "n \<le> 15" | "0 < n" "n < int (length ds)" "n \<le> 15" | "- 4 < n" "n \<le> 0"
    | "n \<le> - 4 \<or> 15 < n" "length ds = 1" | "n \<le> - 4 \<or> 15 < n" "length ds \<noteq> 1" by linarith
  then show thesis
  proof cases
    case 1 show thesis by (rule formatBuffer_whole [OF good 1 that])
  next
    case 2 show thesis by (rule formatBuffer_point [OF good 2 that])
  next
    case 3 show thesis by (rule formatBuffer_zeros [OF good 3 that])
  next
    case 4 show thesis by (rule formatBuffer_exponent [OF good 4 that])
  next
    case 5 show thesis by (rule formatBuffer_scientific [OF good 5 that])
  qed
qed


section \<open>\<open>to_chars\<close>\<close>

definition signText :: "w64 \<Rightarrow> string" where
  "signText x = (if signbit x then ''-'' else '''')"

lemma negated_bits: "bitsOf (negated x) = bitsOf x" "signbit (negated x) \<longleftrightarrow> \<not> signbit x"
proof -
  have bits: "bitsOf y = unat (take_bit 63 y)" for y :: w64 by (simp only: bitsOf_def take_bit_eq_mask unat_and_mask)
  have "take_bit 63 (push_bit 63 1 :: w64) = 0" by (simp add: take_bit_push_bit)
  then show "bitsOf (negated x) = bitsOf x" unfolding bits negated_def take_bit_xor by simp
  show "signbit (negated x) \<longleftrightarrow> \<not> signbit x" by (simp add: signbit_def negated_def bit_simps)
qed

lemma filled_empty: "filled [] freshBuffer"
  by (simp add: filled_def freshBuffer_def)

text \<open>Both ways to write the sign leave a number that is not negative.\<close>

lemma sign_run:
  obtains y buf where "andThen (if signbit x then andThen (bufSet 0 CHR ''-'') (\<lambda>_. ok (0 + 1, negated x)) else ok (0, x)) f freshBuffer =
      f (length (signText x), y) buf" "filled (signText x) buf" "bitsOf y = bitsOf x" "\<not> signbit y"
proof (cases "signbit x")
  case True
  from bufSet_append [OF filled_empty, of "CHR ''-''"] obtain buf where
    b: "bufSet 0 CHR ''-'' freshBuffer = (Inr (), buf)" "filled ''-'' buf" by auto
  then show thesis using True negated_bits [of x]
    by (intro that [of "negated x" buf]) (simp_all add: signText_def andThen_def run_simps)
next
  case False
  then show thesis using filled_empty by (intro that [of x freshBuffer]) (simp_all add: signText_def run_simps)
qed

lemma toChars_run:
  assumes "isfinite x"
  obtains (zero) buf where "bitsOf x = 0" "toChars 64 0 64 x freshBuffer = (Inr (length (signText x @ ''0.0'')), buf)"
      "filled (signText x @ ''0.0'') buf"
    | (digits) ds dexp buf where "bitsOf x \<noteq> 0"
      "toChars 64 0 64 x freshBuffer = (Inr (length (signText x @ layoutText ds (int (length ds) + dexp))), buf)"
      "filled (signText x @ layoutText ds (int (length ds) + dexp)) buf" "goodDigits ds" "ds \<noteq> []" "length ds \<le> 17"
      "- 400 \<le> dexp" "dexp \<le> 400" "lowerMid (bitsOf x) < of_nat (readDigits ds) * 10 powi dexp"
      "of_nat (readDigits ds) * 10 powi dexp < upperMid (bitsOf x)"
proof -
  let ?s = "signText x"
  define rest where "rest = (\<lambda>(first, x). if isZero x then
       andThen (bufSet first CHR ''0'') (\<lambda>_. andThen (bufSet (first + 1) CHR ''.'') (\<lambda>_. andThen (bufSet (first + 2) CHR ''0'') (\<lambda>_. ok (first + 3))))
     else
       andThen (assertThat (64 \<ge> first + max_digits10)) (\<lambda>_.
       andThen (grisu2 64 first 0 0 x) (\<lambda>(len, decimal_exponent).
       andThen (assertThat (len \<le> max_digits10)) (\<lambda>_.
       let kMin = -4; kMax = int digits10 in
       andThen (assertThat (int 64 - int first \<ge> kMax + 2)) (\<lambda>_.
       andThen (assertThat (int 64 - int first \<ge> 2 + (- kMin - 1) + int max_digits10)) (\<lambda>_.
       andThen (assertThat (int 64 - int first \<ge> int max_digits10 + 6)) (\<lambda>_.
         formatBuffer first len decimal_exponent kMin kMax)))))))"
  obtain y buf where y: "andThen (if signbit x then andThen (bufSet 0 CHR ''-'') (\<lambda>_. ok (0 + 1, negated x)) else ok (0, x)) rest freshBuffer =
      rest (length ?s, y) buf" "filled ?s buf" "bitsOf y = bitsOf x" "\<not> signbit y" using sign_run .
  have run: "toChars 64 0 64 x freshBuffer = rest (length ?s, y) buf"
    using assms y(1) unfolding toChars_def rest_def [symmetric] by (simp add: run_simps)
  have len: "length ?s \<le> 1" by (simp add: signText_def)
  show thesis
  proof (cases "bitsOf x = 0")
    case True
    then have "isZero y" using y(3) by (simp add: isZero_bits)
    moreover have "length ?s + 3 \<le> 64" using len by simp
    from bufSet_three [OF y(2) this, of "CHR ''0''" "CHR ''.''" "CHR ''0''" "\<lambda>_. ok (length ?s + 3)"] obtain b1 where
      "andThen (bufSet (length ?s) CHR ''0'') (\<lambda>_. andThen (bufSet (length ?s + 1) CHR ''.'') (\<lambda>_.
        andThen (bufSet (length ?s + 2) CHR ''0'') (\<lambda>_. ok (length ?s + 3)))) buf = ok (length ?s + 3) b1" "filled (?s @ ''0.0'') b1" .
    ultimately show thesis using True run by (intro zero [of b1]) (simp_all add: rest_def run_simps)
  next
    case False
    then have pos: "isPositive y" "\<not> isZero y" using y(3,4) by (simp_all add: isPositive_def isZero_bits)
    have fin: "isfinite y" using assms y(3) by (simp add: isfinite_bits)
    obtain ds dexp b1 where g: "grisu2 64 (length ?s) 0 0 y buf = (Inr (length ds, dexp), b1)" "filled (?s @ ds) b1"
      "goodDigits ds" "ds \<noteq> []" "length ds \<le> 17" "- 400 \<le> dexp" "dexp \<le> 400"
      "lowerMid (bitsOf y) < of_nat (readDigits ds) * 10 powi dexp" "of_nat (readDigits ds) * 10 powi dexp < upperMid (bitsOf y)"
      using grisu2_run [OF fin pos(1) y(2) len] .
    obtain b2 where f: "formatBuffer (length ?s) (length ds) dexp (-4) 15 b1 =
        (Inr (length ?s + length (layoutText ds (int (length ds) + dexp))), b2)" "filled (?s @ layoutText ds (int (length ds) + dexp)) b2"
      using formatBuffer_run [OF g(2,4,5) len g(6,7)] .
    have "rest (length ?s, y) buf = (Inr (length ?s + length (layoutText ds (int (length ds) + dexp))), b2)"
      using pos(2) len g(1,5) f(1) by (simp add: rest_def max_digits10_def digits10_def Let_def andThen_def run_simps)
    then show thesis using False run g f(2) y(3) by (intro digits [of ds dexp b2]) simp_all
  qed
qed

lemma mapProg_filled: "mapProg (fromOption UB) (map Some xs) s = (Inr xs, s)"
  by (induction xs) (simp_all add: run_simps andThen_def)

lemma read_filled: "toChars 64 0 64 x freshBuffer = (Inr (length xs), buf) \<Longrightarrow> filled xs buf \<Longrightarrow> dumpFloatDouble x = Inr xs"
  by (simp add: dumpFloatDouble_def andThen_def run_simps filled_def mapProg_filled)

lemma dumpFloatDouble_text:
  assumes "isfinite x"
  obtains (zero) "bitsOf x = 0" "dumpFloatDouble x = Inr (signText x @ ''0.0'')"
    | (digits) ds dexp where "bitsOf x \<noteq> 0" "dumpFloatDouble x = Inr (signText x @ layoutText ds (int (length ds) + dexp))"
      "goodDigits ds" "ds \<noteq> []" "length ds \<le> 17" "- 400 \<le> dexp" "dexp \<le> 400"
      "lowerMid (bitsOf x) < of_nat (readDigits ds) * 10 powi dexp" "of_nat (readDigits ds) * 10 powi dexp < upperMid (bitsOf x)"
  using assms
proof (cases x rule: toChars_run)
  case (zero buf)
  from that(1) [OF zero(1) read_filled [OF zero(2,3)]] show thesis .
next
  case (digits ds dexp buf)
  from that(2) [OF digits(1) read_filled [OF digits(2,3)] digits(4-)] show thesis .
qed

end
