(* ===== verification/GrisuValue.thy ===== *)
theory GrisuValue
  imports GrisuText
begin

text \<open>
  What a printed floating-point number says: its text has a value, and among the values of all numbers the printed
  one's is the nearest, so that every correctly rounding reader gets the number back.
\<close>

section \<open>The value of a text\<close>

definition digitsOf :: "string \<Rightarrow> string" where
  "digitsOf t = takeWhile isDigit t"

definition fractionOf :: "string \<Rightarrow> string" where
  "fractionOf r = (if r \<noteq> [] \<and> hd r = CHR ''.'' then takeWhile isDigit (tl r) else [])"

definition signedDigits :: "string \<Rightarrow> int" where
  "signedDigits e = (case e of [] \<Rightarrow> 0
   | c # ds \<Rightarrow> if c = CHR ''-'' then - int (readDigits ds) else if c = CHR ''+'' then int (readDigits ds) else int (readDigits e))"

definition exponentOf :: "string \<Rightarrow> int" where
  "exponentOf r =
     (case if r \<noteq> [] \<and> hd r = CHR ''.'' then dropWhile isDigit (tl r) else r of [] \<Rightarrow> 0
      | c # e \<Rightarrow> if c = CHR ''e'' \<or> c = CHR ''E'' then signedDigits e else 0)"

definition unsignedValue :: "string \<Rightarrow> rat" where
  "unsignedValue t =
     (let r = dropWhile isDigit t in
      of_nat (readDigits (digitsOf t @ fractionOf r)) * 10 powi (exponentOf r - int (length (fractionOf r))))"

definition floatValue :: "string \<Rightarrow> rat" where
  "floatValue t = (if t \<noteq> [] \<and> hd t = CHR ''-'' then - unsignedValue (tl t) else unsignedValue t)"

lemma not_digit: "\<not> isDigit CHR ''.''" "\<not> isDigit CHR ''e''" "\<not> isDigit CHR ''-''" "\<not> isDigit CHR ''+''"
  by (simp_all add: isDigit_def)

lemma take_digits: "list_all isDigit xs \<Longrightarrow> takeWhile isDigit (xs @ ys) = xs @ takeWhile isDigit ys"
  "list_all isDigit xs \<Longrightarrow> dropWhile isDigit (xs @ ys) = dropWhile isDigit ys"
  by (simp_all add: list_all_iff takeWhile_append dropWhile_append)

lemma take_digits_all: "list_all isDigit xs \<Longrightarrow> takeWhile isDigit xs = xs" "list_all isDigit xs \<Longrightarrow> dropWhile isDigit xs = []"
  using take_digits [of xs "[]"] by simp_all

lemma readDigits_few:
  "a < 10 \<Longrightarrow> b < 10 \<Longrightarrow> readDigits [digitChar a, digitChar b] = 10 * a + b"
  "a < 10 \<Longrightarrow> b < 10 \<Longrightarrow> c < 10 \<Longrightarrow> readDigits [digitChar a, digitChar b, digitChar c] = 10 * (10 * a + b) + c"
  by (simp_all add: readDigits_def)

lemma three_digits: "10 * (10 * (k div 100) + k mod 100 div 10) + k mod 10 = (k :: nat)"
proof -
  have "k mod 100 mod 10 = k mod 10" by (simp add: mod_mod_cancel)
  moreover have "100 * (k div 100) + k mod 100 = k" "10 * (k mod 100 div 10) + k mod 100 mod 10 = k mod 100" by simp_all
  ultimately show ?thesis unfolding distrib_left by linarith
qed

lemma exponentText_value:
  assumes "\<bar>e\<bar> < 1000"
  shows "signedDigits (exponentText e) = e"
proof -
  obtain s t where t: "exponentText e = s # t" by (simp add: exponentText_def Let_def)
  define k where "k = nat \<bar>e\<bar>"
  have k: "k < 1000" using assms by (simp add: k_def)
  have "readDigits t = k"
  proof (cases "k < 100")
    case True
    then have "t = [digitChar (k div 10), digitChar (k mod 10)]" using t by (auto simp: exponentText_def k_def [symmetric] Let_def)
    then show ?thesis using True by (simp only: readDigits_few less_mult_imp_div_less) (simp add: readDigits_few less_mult_imp_div_less)
  next
    case False
    then have t3: "t = [digitChar (k div 100), digitChar (k mod 100 div 10), digitChar (k mod 10)]"
      using t by (auto simp: exponentText_def k_def [symmetric] Let_def)
    have "k div 100 < 10" "k mod 100 div 10 < 10" using k by (simp_all add: less_mult_imp_div_less)
    then show ?thesis unfolding t3 using three_digits [of k] by (simp add: readDigits_few)
  qed
  moreover have "s = (if e < 0 then CHR ''-'' else CHR ''+'')" using t by (simp add: exponentText_def Let_def)
  ultimately show ?thesis by (auto simp: signedDigits_def t k_def)
qed

lemma value_point:
  assumes "list_all isDigit ip" "list_all isDigit fp"
  shows "unsignedValue (ip @ CHR ''.'' # fp) = of_nat (readDigits (ip @ fp)) * 10 powi (- int (length fp))"
  using assms by (simp add: unsignedValue_def digitsOf_def fractionOf_def exponentOf_def take_digits take_digits_all not_digit)

lemma value_exponent:
  assumes "list_all isDigit ip" "\<bar>e\<bar> < 1000"
  shows "unsignedValue (ip @ CHR ''e'' # exponentText e) = of_nat (readDigits ip) * 10 powi e"
  using assms exponentText_value [OF assms(2)]
  by (simp add: Let_def unsignedValue_def digitsOf_def fractionOf_def exponentOf_def take_digits not_digit)

lemma value_point_exponent:
  assumes "list_all isDigit ip" "list_all isDigit fp" "\<bar>e\<bar> < 1000"
  shows "unsignedValue (ip @ CHR ''.'' # fp @ CHR ''e'' # exponentText e) =
    of_nat (readDigits (ip @ fp)) * 10 powi (e - int (length fp))"
  using assms exponentText_value [OF assms(3)]
  by (simp add: Let_def unsignedValue_def digitsOf_def fractionOf_def exponentOf_def take_digits not_digit)

lemma digitValue_zero: "digitValue CHR ''0'' = 0"
  by (simp add: digitValue_def)

lemma isDigit_zero: "isDigit CHR ''0''"
  by (simp add: isDigit_def)

lemma zeros: "list_all isDigit (replicate z CHR ''0'')"
  by (simp add: list_all_iff isDigit_zero)

lemma readDigits_zeros_behind: "readDigits (ds @ replicate z CHR ''0'') = readDigits ds * 10 ^ z"
proof (induction z arbitrary: ds)
  case (Suc z)
  show ?case using Suc.IH [of "ds @ ''0''"] by (simp add: readDigits_def digitValue_zero)
qed simp

lemma readDigits_zeros_before: "readDigits (replicate z CHR ''0'' @ ds) = readDigits ds"
  by (induction z) (simp_all add: readDigits_def digitValue_zero)

lemma unsignedValue_layout:
  assumes "goodDigits ds" "ds \<noteq> []" "length ds \<le> 17" "- 400 \<le> dexp" "dexp \<le> 400"
  shows "unsignedValue (layoutText ds (int (length ds) + dexp)) = of_nat (readDigits ds) * 10 powi dexp"
proof -
  define n where "n = int (length ds) + dexp"
  have d: "list_all isDigit ds" using assms(1) by (simp add: goodDigits_def)
  consider "int (length ds) \<le> n" "n \<le> 15" | "0 < n" "n < int (length ds)" "n \<le> 15" | "- 4 < n" "n \<le> 0"
    | "n \<le> - 4 \<or> 15 < n" "length ds = 1" | "n \<le> - 4 \<or> 15 < n" "length ds \<noteq> 1" by linarith
  then have "unsignedValue (layoutText ds n) = of_nat (readDigits ds) * 10 powi dexp"
  proof cases
    case 1
    then have "layoutText ds n = (ds @ replicate (nat n - length ds) CHR ''0'') @ CHR ''.'' # ''0''" by (simp add: layoutText_def)
    moreover have "readDigits ((ds @ replicate (nat n - length ds) CHR ''0'') @ ''0'') = readDigits ds * 10 ^ (nat n - length ds + 1)"
      using readDigits_zeros_behind [of ds "nat n - length ds + 1"] by (simp add: replicate_append_same)
    moreover have "dexp = int (nat n - length ds)" using 1 by (simp add: n_def)
    moreover have "list_all isDigit (ds @ replicate (nat n - length ds) CHR ''0'')" "list_all isDigit ''0''"
      using d zeros by (simp_all add: isDigit_zero)
    ultimately show ?thesis by (simp only: value_point) (simp add: power_int_minus)
  next
    case 2
    then have "layoutText ds n = take (nat n) ds @ CHR ''.'' # drop (nat n) ds" by (simp add: layoutText_def)
    moreover have "list_all isDigit (take (nat n) ds)" "list_all isDigit (drop (nat n) ds)"
      using d by (auto simp: list_all_iff dest: in_set_takeD in_set_dropD)
    moreover have "- int (length (drop (nat n) ds)) = dexp" using 2 by (simp add: n_def)
    ultimately show ?thesis by (simp only: value_point append_take_drop_id)
  next
    case 3
    then have "layoutText ds n = ''0'' @ CHR ''.'' # replicate (nat (- n)) CHR ''0'' @ ds" using assms(2) by (cases ds) (simp_all add: layoutText_def)
    moreover have "list_all isDigit ''0''" "list_all isDigit (replicate (nat (- n)) CHR ''0'' @ ds)" using d zeros by (simp_all add: isDigit_zero)
    moreover have "- int (length (replicate (nat (- n)) CHR ''0'' @ ds)) = dexp" using 3 by (simp add: n_def)
    moreover have "readDigits (''0'' @ replicate (nat (- n)) CHR ''0'' @ ds) = readDigits ds"
      using readDigits_zeros_before [of "Suc (nat (- n))" ds] by simp
    ultimately show ?thesis by (simp only: value_point)
  next
    case 4
    then have "layoutText ds n = ds @ CHR ''e'' # exponentText (n - 1)" by (auto simp: layoutText_def)
    moreover have "n - 1 = dexp" "\<bar>n - 1\<bar> < 1000" using 4 assms(4,5) by (simp_all add: n_def)
    ultimately show ?thesis using d by (simp only: value_exponent)
  next
    case 5
    obtain c es where ds: "ds = c # es" using assms(2) by (cases ds) auto
    have "layoutText ds n = [c] @ CHR ''.'' # es @ CHR ''e'' # exponentText (n - 1)" using 5 by (auto simp: layoutText_def ds)
    moreover have "n - 1 - int (length es) = dexp" "\<bar>n - 1\<bar> < 1000" using assms(3-5) by (simp_all add: n_def ds)
    moreover have "list_all isDigit [c]" "list_all isDigit es" "readDigits ([c] @ es) = readDigits ds" using d by (simp_all add: ds)
    ultimately show ?thesis by (simp only: value_point_exponent)
  qed
  then show ?thesis by (simp only: n_def)
qed

section \<open>The nearest number\<close>

lemma mid_apart:
  fixes v a b c :: rat
  assumes "0 \<le> a" "a < b" "b < c" "(a + b) / 2 < v" "v < (b + c) / 2"
  shows "y \<le> a \<or> c \<le> y \<Longrightarrow> \<bar>v - b\<bar> < \<bar>v - y\<bar>"
  using assms by (auto simp: abs_if field_simps)

lemma nearest_magnitude:
  assumes "n \<noteq> 0" "lowerMid n < v" "v < upperMid n" "y = magnitude m \<or> y = - magnitude m" "y \<noteq> magnitude n"
  shows "\<bar>v - magnitude n\<bar> < \<bar>v - y\<bar>"
proof (rule mid_apart [of "magnitude (n - 1)" _ "magnitude (n + 1)"])
  show "0 \<le> magnitude (n - 1)" by (simp add: magnitude_def)
  show "magnitude (n - 1) < magnitude n" "magnitude n < magnitude (n + 1)" using assms(1) by (simp_all add: magnitude_mono)
  show "(magnitude (n - 1) + magnitude n) / 2 < v" "v < (magnitude n + magnitude (n + 1)) / 2"
    using assms(2,3) by (simp_all only: lowerMid_def upperMid_def)
  have mono: "j \<le> k \<Longrightarrow> magnitude j \<le> magnitude k" for j k using magnitude_mono [of j k] by (cases "j = k") auto
  have pos: "0 \<le> magnitude k" for k by (simp add: magnitude_def)
  from assms(4) show "y \<le> magnitude (n - 1) \<or> magnitude (n + 1) \<le> y"
  proof
    assume "y = magnitude m"
    with assms(5) have "m \<noteq> n" by auto
    then have "m \<le> n - 1 \<or> n + 1 \<le> m" by auto
    with \<open>y = magnitude m\<close> show ?thesis using mono by blast
  next
    assume "y = - magnitude m"
    then show ?thesis using pos [of m] pos [of "n - 1"] by linarith
  qed
qed


section \<open>Printed numbers\<close>

text \<open>
  The value \<open>v\<close> is nearest to the number \<open>x\<close>: nearer than to any number of another value. The bits of an infinity stand
  for \<open>2^1024\<close>, the number that would follow the greatest one: from the middle between them on, IEEE 754 rounds to
  infinity.
\<close>

definition nearestTo :: "rat \<Rightarrow> w64 \<Rightarrow> bool" where
  "nearestTo v x \<longleftrightarrow> (\<forall>y. doubleValue y \<noteq> doubleValue x \<longrightarrow> \<bar>v - doubleValue x\<bar> < \<bar>v - doubleValue y\<bar>)"

lemma layout_starts: "goodDigits ds \<Longrightarrow> ds \<noteq> [] \<Longrightarrow> \<exists>c t. layoutText ds n = c # t \<and> isDigit c"
  by (cases ds) (auto simp: layoutText_def goodDigits_def isDigit_zero Cons_eq_append_conv take_Cons' split: if_splits)

lemma floatValue_signed:
  assumes "t = c # u" "isDigit c"
  shows "floatValue (signText x @ t) = (if signbit x then - unsignedValue t else unsignedValue t)"
  using assms not_digit by (auto simp: floatValue_def signText_def)

lemma nearest_signed:
  assumes "bitsOf x \<noteq> 0" "lowerMid (bitsOf x) < v" "v < upperMid (bitsOf x)"
  shows "nearestTo (if signbit x then - v else v) x"
proof -
  have near: "\<bar>v - magnitude (bitsOf x)\<bar> < \<bar>v - y\<bar>" if "y = magnitude m \<or> y = - magnitude m" "y \<noteq> magnitude (bitsOf x)" for y m
    using nearest_magnitude [OF assms that] .
  show ?thesis unfolding nearestTo_def
  proof (intro allI impI)
    fix y assume y: "doubleValue y \<noteq> doubleValue x"
    show "\<bar>(if signbit x then - v else v) - doubleValue x\<bar> < \<bar>(if signbit x then - v else v) - doubleValue y\<bar>"
    proof (cases "signbit x")
      case True
      have "\<bar>v - magnitude (bitsOf x)\<bar> < \<bar>v - - doubleValue y\<bar>"
        using y True by (intro near [of _ "bitsOf y"]) (auto simp: doubleValue_def)
      then show ?thesis using True by (simp add: doubleValue_def abs_minus_commute [of v] add.commute)
    next
      case False
      have "\<bar>v - magnitude (bitsOf x)\<bar> < \<bar>v - doubleValue y\<bar>"
        using y False by (intro near [of _ "bitsOf y"]) (auto simp: doubleValue_def)
      then show ?thesis using False by (simp add: doubleValue_def)
    qed
  qed
qed

lemma nearest_zero: "bitsOf x = 0 \<Longrightarrow> nearestTo 0 x"
  by (auto simp: nearestTo_def doubleValue_def)

lemma exponentText_length: "length (exponentText e) \<le> 4"
  by (simp add: exponentText_def Let_def)

lemma layout_length: "length ds \<le> 17 \<Longrightarrow> ds \<noteq> [] \<Longrightarrow> length (layoutText ds n) \<le> 23"
  using exponentText_length [of "n - 1"] by (cases ds) (auto simp: layoutText_def)

lemma printed_text:
  assumes "isfinite x"
  obtains t where "dumpFloatDouble x = Inr (signText x @ t)" "length t \<le> 23" "t \<noteq> []" "isDigit (hd t)"
    "nearestTo (floatValue (signText x @ t)) x"
  using assms
proof (cases x rule: dumpFloatDouble_text)
  case zero
  have "floatValue (signText x @ ''0.0'') = 0"
    using value_point [of "''0''" "''0''"] floatValue_signed [of "''0.0''" "CHR ''0''" "''.0''" x]
    by (simp add: isDigit_zero readDigits_def digitValue_zero)
  then show thesis using zero nearest_zero by (intro that [of "''0.0''"]) (simp_all add: isDigit_zero)
next
  case (digits ds dexp)
  let ?t = "layoutText ds (int (length ds) + dexp)"
  obtain c u where c: "?t = c # u" "isDigit c" using layout_starts [OF digits(3,4)] by blast
  have "floatValue (signText x @ ?t) = (if signbit x then - (of_nat (readDigits ds) * 10 powi dexp) else of_nat (readDigits ds) * 10 powi dexp)"
    using floatValue_signed [OF c] unsignedValue_layout [OF digits(3-7)] by simp
  moreover have "length ?t \<le> 23" by (rule layout_length [OF digits(5,4)])
  moreover have "?t \<noteq> []" "isDigit (hd ?t)" using c by simp_all
  ultimately show thesis
    using digits(2) nearest_signed [OF digits(1,8,9)] by (intro that [of ?t]) (simp_all only: not_False_eq_True)
qed

text \<open>
  C12: The algorithm prints every finite \<open>double\<close>: no assertion fails, nothing is written outside of the buffer and no
  character is read that was not written. The text begins with the sign of the number, has at most 24 characters, and
  its value is nearer to the number than to every other one, so a reader that rounds correctly gets the number back.
\<close>

theorem printed_float_nearest:
  assumes "isfinite x"
  shows "\<exists>text. dumpFloatDouble x = Inr text \<and> length text \<le> 24 \<and> (hd text = CHR ''-'' \<longleftrightarrow> signbit x) \<and>
    nearestTo (floatValue text) x"
proof -
  obtain t where t: "dumpFloatDouble x = Inr (signText x @ t)" "length t \<le> 23" "t \<noteq> []" "isDigit (hd t)"
    "nearestTo (floatValue (signText x @ t)) x" using printed_text [OF assms] .
  have "hd (signText x @ t) = CHR ''-'' \<longleftrightarrow> signbit x"
    using t(3,4) not_digit by (cases t) (auto simp: signText_def)
  with t show ?thesis by (intro exI [of _ "signText x @ t"]) (auto simp: signText_def)
qed

text \<open>One third, which has no finite decimal expansion and is printed with 16 digits.\<close>

theorem printed_float_nearest_witness:
  "\<exists>text. dumpFloatDouble 0x3FD5555555555555 = Inr text \<and> length text \<le> 24 \<and>
    (hd text = CHR ''-'' \<longleftrightarrow> signbit 0x3FD5555555555555) \<and> nearestTo (floatValue text) 0x3FD5555555555555"
  by (rule printed_float_nearest) (simp add: isfinite_def)

end
