(* ===== verification/JsonLexer.thy ===== *)
theory JsonLexer
  imports Json
begin

text \<open>
  The lexer of \<open>lib/nlohmann/json.hpp\<close> (\<open>detail::lexer\<close>): from the bytes of a text to tokens. The input adapter
  gives one byte after the other; the end of the input is \<open>None\<close>. Loops that run to the end of the input
  take fuel; \<open>JsonTotal\<close> shows how much is enough.
\<close>

section \<open>Tokens and state\<close>

datatype token_type =
    TUninitialized | TLiteralTrue | TLiteralFalse | TLiteralNull | TValueString | TValueUnsigned | TValueInteger
  | TValueFloat | TBeginArray | TBeginObject | TEndArray | TEndObject | TNameSeparator | TValueSeparator
  | TParseError | TEndOfInput | TLiteralOrValue

definition tokenTypeName :: "token_type \<Rightarrow> string" where
  "tokenTypeName t = (case t of
       TUninitialized \<Rightarrow> ''<uninitialized>'' | TLiteralTrue \<Rightarrow> ''true literal'' | TLiteralFalse \<Rightarrow> ''false literal''
     | TLiteralNull \<Rightarrow> ''null literal'' | TValueString \<Rightarrow> ''string literal'' | TValueUnsigned \<Rightarrow> ''number literal''
     | TValueInteger \<Rightarrow> ''number literal'' | TValueFloat \<Rightarrow> ''number literal''
     | TBeginArray \<Rightarrow> [CHR 0x27, CHR ''['', CHR 0x27] | TBeginObject \<Rightarrow> [CHR 0x27, CHR ''{'', CHR 0x27]
     | TEndArray \<Rightarrow> [CHR 0x27, CHR '']'', CHR 0x27] | TEndObject \<Rightarrow> [CHR 0x27, CHR ''}'', CHR 0x27]
     | TNameSeparator \<Rightarrow> [CHR 0x27, CHR '':'', CHR 0x27] | TValueSeparator \<Rightarrow> [CHR 0x27, CHR '','', CHR 0x27]
     | TParseError \<Rightarrow> ''<parse error>'' | TEndOfInput \<Rightarrow> ''end of input''
     | TLiteralOrValue \<Rightarrow> [CHR 0x27, CHR ''['', CHR 0x27] @ '', '' @ [CHR 0x27, CHR ''{'', CHR 0x27] @ '', or a literal'')"

record 'f lexer =
  unread :: string                               \<comment> \<open>what the input adapter has not given yet\<close>
  current :: "char option"
  next_unget :: bool
  lexPos :: position
  token_string :: string
  token_buffer :: string
  error_message :: string
  value_integer :: int
  value_unsigned :: int
  value_float :: 'f

record 'f lexConf =
  ignore_comments :: bool
  decimal_point_char :: char
  numbers :: "'f floats"

type_synonym ('f, 'a) lexProg = "('f lexer, 'a) prog"

section \<open>Input\<close>

definition nextChar :: "'f lexer \<Rightarrow> char option" where
  "nextChar s = (if next_unget s then current s else case unread s of [] \<Rightarrow> None | c # _ \<Rightarrow> Some c)"

definition movePos :: "char option \<Rightarrow> position \<Rightarrow> position" where
  "movePos c p =
     (if c = Some (CHR 0x0A)
      then \<lparr>chars_read_total = Suc (chars_read_total p), chars_read_current_line = 0, lines_read = Suc (lines_read p)\<rparr>
      else p\<lparr>chars_read_total := Suc (chars_read_total p), chars_read_current_line := Suc (chars_read_current_line p)\<rparr>)"

definition getChar :: "('f, char option) lexProg" where
  "getChar = (\<lambda>s. (Inr (nextChar s),
     s\<lparr>unread := (if next_unget s then unread s else tl (unread s)), current := nextChar s, next_unget := False,
       lexPos := movePos (nextChar s) (lexPos s),
       token_string := (case nextChar s of None \<Rightarrow> token_string s | Some c \<Rightarrow> token_string s @ [c])\<rparr>))"

definition movePosBack :: "position \<Rightarrow> position" where
  "movePosBack p =
     (let q = p\<lparr>chars_read_total := chars_read_total p - 1\<rparr> in
      if chars_read_current_line p = 0
      then (if 0 < lines_read p then q\<lparr>lines_read := lines_read p - 1\<rparr> else q)
      else q\<lparr>chars_read_current_line := chars_read_current_line p - 1\<rparr>)"

definition ungetChar :: "('f, unit) lexProg" where
  "ungetChar = modify (\<lambda>s. s\<lparr>next_unget := True, lexPos := movePosBack (lexPos s),
     token_string := (case current s of None \<Rightarrow> token_string s | Some _ \<Rightarrow> butlast (token_string s))\<rparr>)"

definition addChar :: "char \<Rightarrow> ('f, unit) lexProg" where
  "addChar c = modify (\<lambda>s. s\<lparr>token_buffer := token_buffer s @ [c]\<rparr>)"

text \<open>\<open>add(current)\<close>; the callers have read a character.\<close>

definition addCurrent :: "('f, unit) lexProg" where
  "addCurrent = modify (\<lambda>s. s\<lparr>token_buffer := token_buffer s @ (case current s of None \<Rightarrow> [CHR 0xFF] | Some c \<Rightarrow> [c])\<rparr>)"

definition resetToken :: "('f, unit) lexProg" where
  "resetToken = modify (\<lambda>s. s\<lparr>token_buffer := '''',
     token_string := (case current s of None \<Rightarrow> [CHR 0xFF] | Some c \<Rightarrow> [c])\<rparr>)"

definition setError :: "string \<Rightarrow> ('f, unit) lexProg" where
  "setError m = modify (\<lambda>s. s\<lparr>error_message := m\<rparr>)"

definition failWith :: "string \<Rightarrow> ('f, token_type) lexProg" where
  "failWith m = andThen (setError m) (\<lambda>_. ok TParseError)"

definition getTokenString :: "'f lexer \<Rightarrow> string" where
  "getTokenString s = concat (map (\<lambda>c. if of_char c \<le> (0x1F :: nat)
     then ''<U+'' @ [CHR ''0'', CHR ''0''] @ hexBytes (of_char c) @ ''>'' else [c]) (token_string s))"

section \<open>Strings\<close>

definition hexValue :: "char \<Rightarrow> nat option" where
  "hexValue c =
     (let n = of_char c :: nat in
      if 0x30 \<le> n \<and> n \<le> 0x39 then Some (n - 0x30)
      else if 0x41 \<le> n \<and> n \<le> 0x46 then Some (n - 0x37)
      else if 0x61 \<le> n \<and> n \<le> 0x66 then Some (n - 0x57)
      else None)"

primrec codepointLoop :: "nat list \<Rightarrow> nat \<Rightarrow> ('f, nat option) lexProg" where
  "codepointLoop [] cp = ok (Some cp)"
| "codepointLoop (factor # factors) cp = andThen getChar (\<lambda>c.
     case Option.bind c hexValue of
       Some d \<Rightarrow> codepointLoop factors (cp + push_bit factor d)
     | None \<Rightarrow> ok None)"

text \<open>\<open>None\<close> is the result -1 of the source.\<close>

definition getCodepoint :: "('f, nat option) lexProg" where
  "getCodepoint = codepointLoop [12, 8, 4, 0] 0"

primrec rangeLoop :: "(nat \<times> nat) list \<Rightarrow> ('f, bool) lexProg" where
  "rangeLoop [] = ok True"
| "rangeLoop (r # ranges) = andThen getChar (\<lambda>c.
     if (case c of None \<Rightarrow> False | Some x \<Rightarrow> fst r \<le> of_char x \<and> of_char x \<le> snd r)
     then andThen addCurrent (\<lambda>_. rangeLoop ranges)
     else andThen (setError ''invalid string: ill-formed UTF-8 byte'') (\<lambda>_. ok False))"

definition nextByteInRange :: "(nat \<times> nat) list \<Rightarrow> ('f, bool) lexProg" where
  "nextByteInRange ranges = andThen addCurrent (\<lambda>_. rangeLoop ranges)"

definition utf8Bytes :: "nat \<Rightarrow> nat list" where
  "utf8Bytes cp =
     (if cp < 0x80 then [cp]
      else if cp \<le> 0x7FF then [0xC0 OR drop_bit 6 cp, 0x80 OR (cp AND 0x3F)]
      else if cp \<le> 0xFFFF then
        [0xE0 OR drop_bit 12 cp, 0x80 OR (drop_bit 6 cp AND 0x3F), 0x80 OR (cp AND 0x3F)]
      else
        [0xF0 OR drop_bit 18 cp, 0x80 OR (drop_bit 12 cp AND 0x3F),
         0x80 OR (drop_bit 6 cp AND 0x3F), 0x80 OR (cp AND 0x3F)])"

definition addBytes :: "nat list \<Rightarrow> ('f, unit) lexProg" where
  "addBytes bs = forEach bs (\<lambda>b. addChar (char_of b))"

text \<open>The steps of \<open>scan_string\<close> return \<open>Some\<close> token when the scan is over and \<open>None\<close> to go on.\<close>

definition stopWith :: "string \<Rightarrow> ('f, token_type option) lexProg" where
  "stopWith m = andThen (failWith m) (\<lambda>t. ok (Some t))"

definition goOn :: "('f, unit) lexProg \<Rightarrow> ('f, token_type option) lexProg" where
  "goOn p = andThen p (\<lambda>_. ok None)"

definition badHex :: string where
  "badHex = ''invalid string: '' @ [CHR 0x27, CHR 0x5C, CHR ''u'', CHR 0x27] @ '' must be followed by 4 hex digits''"

definition badHigh :: string where
  "badHigh = ''invalid string: surrogate U+D800..U+DBFF must be followed by U+DC00..U+DFFF''"

definition badLow :: string where
  "badLow = ''invalid string: surrogate U+DC00..U+DFFF must follow U+D800..U+DBFF''"

text \<open>The second half of a surrogate pair.\<close>

definition lowSurrogate :: "nat \<Rightarrow> ('f, token_type option) lexProg" where
  "lowSurrogate codepoint1 =
     andThen getChar (\<lambda>c. if c \<noteq> Some (CHR 0x5C) then stopWith badHigh else
     andThen getChar (\<lambda>c. if c \<noteq> Some (CHR ''u'') then stopWith badHigh else
     andThen getCodepoint (\<lambda>cp2. case cp2 of
       None \<Rightarrow> stopWith badHex
     | Some codepoint2 \<Rightarrow>
         if 0xDC00 \<le> codepoint2 \<and> codepoint2 \<le> 0xDFFF
         then goOn (addBytes (utf8Bytes (push_bit 10 codepoint1 + codepoint2 - 0x35FDC00)))
         else stopWith badHigh)))"

definition unicodeStep :: "('f, token_type option) lexProg" where
  "unicodeStep = andThen getCodepoint (\<lambda>cp1. case cp1 of
       None \<Rightarrow> stopWith badHex
     | Some codepoint1 \<Rightarrow>
         if 0xD800 \<le> codepoint1 \<and> codepoint1 \<le> 0xDBFF then lowSurrogate codepoint1
         else if 0xDC00 \<le> codepoint1 \<and> codepoint1 \<le> 0xDFFF then stopWith badLow
         else goOn (addBytes (utf8Bytes codepoint1)))"

definition escapeStep :: "('f, token_type option) lexProg" where
  "escapeStep = andThen getChar (\<lambda>c.
     if c = Some (CHR 0x22) then goOn (addChar (CHR 0x22))
     else if c = Some (CHR 0x5C) then goOn (addChar (CHR 0x5C))
     else if c = Some (CHR ''/'') then goOn (addChar (CHR ''/''))
     else if c = Some (CHR ''b'') then goOn (addChar (CHR 0x08))
     else if c = Some (CHR ''f'') then goOn (addChar (CHR 0x0C))
     else if c = Some (CHR ''n'') then goOn (addChar (CHR 0x0A))
     else if c = Some (CHR ''r'') then goOn (addChar (CHR 0x0D))
     else if c = Some (CHR ''t'') then goOn (addChar (CHR 0x09))
     else if c = Some (CHR ''u'') then unicodeStep
     else stopWith ''invalid string: forbidden character after backslash'')"

definition controlName :: "nat \<Rightarrow> string" where
  "controlName n = [''NUL'', ''SOH'', ''STX'', ''ETX'', ''EOT'', ''ENQ'', ''ACK'', ''BEL'', ''BS'', ''HT'', ''LF'', ''VT'',
     ''FF'', ''CR'', ''SO'', ''SI'', ''DLE'', ''DC1'', ''DC2'', ''DC3'', ''DC4'', ''NAK'', ''SYN'', ''ETB'', ''CAN'', ''EM'',
     ''SUB'', ''ESC'', ''FS'', ''GS'', ''RS'', ''US''] ! n"

definition shortEscape :: "nat \<Rightarrow> string" where
  "shortEscape n = (case map_of [(8, CHR ''b''), (9, CHR ''t''), (10, CHR ''n''), (12, CHR ''f''), (13, CHR ''r'')] n of
     Some c \<Rightarrow> '' or '' @ [CHR 0x5C, c] | None \<Rightarrow> '''')"

definition controlMessage :: "nat \<Rightarrow> string" where
  "controlMessage n = ''invalid string: control character U+00'' @ hexBytes n @ '' ('' @ controlName n @ '') must be escaped to '' @
     [CHR 0x5C] @ ''u00'' @ hexBytes n @ shortEscape n"

definition rangeStep :: "(nat \<times> nat) list \<Rightarrow> ('f, token_type option) lexProg" where
  "rangeStep ranges = andThen (nextByteInRange ranges) (\<lambda>b. ok (if b then None else Some TParseError))"

text \<open>The switch on a character of the string.\<close>

definition stringChar :: "char \<Rightarrow> ('f, token_type option) lexProg" where
  "stringChar c =
     (let n = of_char c :: nat in
      if n = 0x22 then ok (Some TValueString)
      else if n = 0x5C then escapeStep
      else if n \<le> 0x1F then stopWith (controlMessage n)
      else if n \<le> 0x7F then goOn addCurrent
      else if 0xC2 \<le> n \<and> n \<le> 0xDF then rangeStep [(0x80, 0xBF)]
      else if n = 0xE0 then rangeStep [(0xA0, 0xBF), (0x80, 0xBF)]
      else if 0xE1 \<le> n \<and> n \<le> 0xEC \<or> n = 0xEE \<or> n = 0xEF then rangeStep [(0x80, 0xBF), (0x80, 0xBF)]
      else if n = 0xED then rangeStep [(0x80, 0x9F), (0x80, 0xBF)]
      else if n = 0xF0 then rangeStep [(0x90, 0xBF), (0x80, 0xBF), (0x80, 0xBF)]
      else if 0xF1 \<le> n \<and> n \<le> 0xF3 then rangeStep [(0x80, 0xBF), (0x80, 0xBF), (0x80, 0xBF)]
      else if n = 0xF4 then rangeStep [(0x80, 0x8F), (0x80, 0xBF), (0x80, 0xBF)]
      else stopWith ''invalid string: ill-formed UTF-8 byte'')"

definition stringStep :: "('f, token_type option) lexProg" where
  "stringStep = andThen getChar (\<lambda>x. case x of
       None \<Rightarrow> stopWith ''invalid string: missing closing quote''
     | Some c \<Rightarrow> stringChar c)"

primrec stringLoop :: "nat \<Rightarrow> ('f, token_type) lexProg" where
  "stringLoop 0 = raise OutOfFuel"
| "stringLoop (Suc n) = andThen stringStep (\<lambda>r. case r of Some t \<Rightarrow> ok t | None \<Rightarrow> stringLoop n)"

definition scanString :: "nat \<Rightarrow> ('f, token_type) lexProg" where
  "scanString n = andThen resetToken (\<lambda>_. stringLoop n)"

section \<open>Comments\<close>

primrec lineComment :: "nat \<Rightarrow> ('f, bool) lexProg" where
  "lineComment 0 = raise OutOfFuel"
| "lineComment (Suc n) = andThen getChar (\<lambda>c.
     if c \<in> {Some (CHR 0x0A), Some (CHR 0x0D), None, Some (CHR 0x00)} then ok True else lineComment n)"

primrec blockComment :: "nat \<Rightarrow> ('f, bool) lexProg" where
  "blockComment 0 = raise OutOfFuel"
| "blockComment (Suc n) = andThen getChar (\<lambda>c.
     if c = None \<or> c = Some (CHR 0x00) then
       andThen (setError (''invalid comment; missing closing '' @ [CHR 0x27] @ ''*/'' @ [CHR 0x27])) (\<lambda>_. ok False)
     else if c = Some (CHR ''*'') then
       andThen getChar (\<lambda>d. if d = Some (CHR ''/'') then ok True else andThen ungetChar (\<lambda>_. blockComment n))
     else blockComment n)"

definition scanComment :: "nat \<Rightarrow> ('f, bool) lexProg" where
  "scanComment n = andThen getChar (\<lambda>c.
     if c = Some (CHR ''/'') then lineComment n
     else if c = Some (CHR ''*'') then blockComment n
     else andThen (setError (''invalid comment; expecting '' @ [CHR 0x27] @ ''/'' @ [CHR 0x27] @ '' or '' @
       [CHR 0x27] @ ''*'' @ [CHR 0x27] @ '' after '' @ [CHR 0x27] @ ''/'' @ [CHR 0x27])) (\<lambda>_. ok False))"

section \<open>Numbers\<close>

text \<open>One state per label of the source, \<open>numberStep\<close> the switch behind the label.\<close>

datatype numberState = NMinus | NZero | NAny1 | NDecimal1 | NDecimal2 | NExponent | NSign | NAny2

datatype numberAction = NGoto char numberState | NDone | NError string

definition numberType :: "numberState \<Rightarrow> token_type \<Rightarrow> token_type" where
  "numberType st t = (case st of NMinus \<Rightarrow> TValueInteger | NDecimal1 \<Rightarrow> TValueFloat | NExponent \<Rightarrow> TValueFloat | _ \<Rightarrow> t)"

definition digitOr :: "numberState \<Rightarrow> char option \<Rightarrow> numberAction \<Rightarrow> numberAction" where
  "digitOr st c a = (case c of Some x \<Rightarrow> if isDigit x then NGoto x st else a | None \<Rightarrow> a)"

definition exponentOr :: "char option \<Rightarrow> numberAction \<Rightarrow> numberAction" where
  "exponentOr c a = (case c of Some x \<Rightarrow> if x = CHR ''e'' \<or> x = CHR ''E'' then NGoto x NExponent else a | None \<Rightarrow> a)"

definition pointOr :: "char \<Rightarrow> char option \<Rightarrow> numberAction \<Rightarrow> numberAction" where
  "pointOr point c a = (if c = Some (CHR ''.'') then NGoto point NDecimal1 else a)"

definition afterPoint :: string where
  "afterPoint = ''invalid number; expected digit after '' @ [CHR 0x27, CHR ''.'', CHR 0x27]"

definition afterMinus :: string where
  "afterMinus = ''invalid number; expected digit after '' @ [CHR 0x27, CHR ''-'', CHR 0x27]"

definition afterExponent :: string where
  "afterExponent = ''invalid number; expected '' @ [CHR 0x27, CHR ''+'', CHR 0x27] @ '', '' @ [CHR 0x27, CHR ''-'', CHR 0x27] @
     '', or digit after exponent''"

definition numberStep :: "char \<Rightarrow> numberState \<Rightarrow> char option \<Rightarrow> numberAction" where
  "numberStep point st c = (case st of
       NMinus \<Rightarrow> if c = Some (CHR ''0'') then NGoto (CHR ''0'') NZero else digitOr NAny1 c (NError afterMinus)
     | NZero \<Rightarrow> pointOr point c (exponentOr c NDone)
     | NAny1 \<Rightarrow> digitOr NAny1 c (pointOr point c (exponentOr c NDone))
     | NDecimal1 \<Rightarrow> digitOr NDecimal2 c (NError afterPoint)
     | NDecimal2 \<Rightarrow> digitOr NDecimal2 c (exponentOr c NDone)
     | NExponent \<Rightarrow>
         if c = Some (CHR ''+'') \<or> c = Some (CHR ''-'') then NGoto (the c) NSign
         else digitOr NAny2 c (NError afterExponent)
     | NSign \<Rightarrow> digitOr NAny2 c (NError ''invalid number; expected digit after exponent sign'')
     | NAny2 \<Rightarrow> digitOr NAny2 c NDone)"

text \<open>\<open>strtoull\<close> and \<open>strtoll\<close> on the digits that were checked, \<open>None\<close> when they set \<open>errno\<close>.\<close>

definition strtoull :: "string \<Rightarrow> int option" where
  "strtoull ds = (let x = int (readDigits ds) in if x < 2 ^ 64 then Some x else None)"

definition strtoll :: "string \<Rightarrow> int option" where
  "strtoll ds = (let x = - int (readDigits (tl ds)) in if - (2 ^ 63) \<le> x \<and> x < 2 ^ 63 then Some x else None)"

text \<open>
  The code asserts that the conversion has read the whole token. The assertions are left out: the states of the
  scan admit a sign and digits for an integer and what \<open>strtod\<close> accepts otherwise, if it takes the same decimal point.
\<close>

definition finishNumber :: "'f lexConf \<Rightarrow> token_type \<Rightarrow> ('f, token_type) lexProg" where
  "finishNumber cf number_type =
     andThen ungetChar (\<lambda>_. andThen getState (\<lambda>s.
     let asFloat = andThen (modify (\<lambda>s. s\<lparr>value_float := strtod (numbers cf) (token_buffer s)\<rparr>)) (\<lambda>_. ok TValueFloat) in
     if number_type = TValueUnsigned then
       (case strtoull (token_buffer s) of
          Some x \<Rightarrow> andThen (modify (\<lambda>s. s\<lparr>value_unsigned := x\<rparr>)) (\<lambda>_. ok TValueUnsigned)
        | None \<Rightarrow> asFloat)
     else if number_type = TValueInteger then
       (case strtoll (token_buffer s) of
          Some x \<Rightarrow> andThen (modify (\<lambda>s. s\<lparr>value_integer := x\<rparr>)) (\<lambda>_. ok TValueInteger)
        | None \<Rightarrow> asFloat)
     else asFloat))"

primrec numberLoop :: "nat \<Rightarrow> 'f lexConf \<Rightarrow> numberState \<Rightarrow> token_type \<Rightarrow> ('f, token_type) lexProg" where
  "numberLoop 0 cf st number_type = raise OutOfFuel"
| "numberLoop (Suc n) cf st number_type = andThen getChar (\<lambda>c.
     case numberStep (decimal_point_char cf) st c of
       NGoto x st' \<Rightarrow> andThen (addChar x) (\<lambda>_. numberLoop n cf st' (numberType st number_type))
     | NDone \<Rightarrow> finishNumber cf (numberType st number_type)
     | NError m \<Rightarrow> failWith m)"

definition scanNumber :: "nat \<Rightarrow> 'f lexConf \<Rightarrow> ('f, token_type) lexProg" where
  "scanNumber n cf = andThen resetToken (\<lambda>_. andThen addCurrent (\<lambda>_. andThen getState (\<lambda>s.
     numberLoop n cf (if current s = Some (CHR ''-'') then NMinus else if current s = Some (CHR ''0'') then NZero else NAny1)
       TValueUnsigned)))"

section \<open>Tokens\<close>

primrec scanLiteral :: "string \<Rightarrow> token_type \<Rightarrow> ('f, token_type) lexProg" where
  "scanLiteral [] return_type = ok return_type"
| "scanLiteral (l # ls) return_type = andThen getChar (\<lambda>c.
     if c \<noteq> Some l then failWith ''invalid literal'' else scanLiteral ls return_type)"

definition skipBom :: "('f, bool) lexProg" where
  "skipBom = andThen getChar (\<lambda>c.
     if c = Some (CHR 0xEF)
     then andThen getChar (\<lambda>d. if d \<noteq> Some (CHR 0xBB) then ok False
       else andThen getChar (\<lambda>e. ok (e = Some (CHR 0xBF))))
     else andThen ungetChar (\<lambda>_. ok True))"

definition isBlank :: "char option \<Rightarrow> bool" where
  "isBlank c \<longleftrightarrow> c = Some (CHR '' '') \<or> c = Some (CHR 0x09) \<or> c = Some (CHR 0x0A) \<or> c = Some (CHR 0x0D)"

primrec skipWhitespace :: "nat \<Rightarrow> ('f, unit) lexProg" where
  "skipWhitespace 0 = raise OutOfFuel"
| "skipWhitespace (Suc n) = andThen getChar (\<lambda>c. if isBlank c then skipWhitespace n else ok ())"

text \<open>The loop over comments; false when a comment is broken.\<close>

primrec skipComments :: "nat \<Rightarrow> nat \<Rightarrow> 'f lexConf \<Rightarrow> ('f, bool) lexProg" where
  "skipComments 0 n cf = raise OutOfFuel"
| "skipComments (Suc k) n cf = andThen getState (\<lambda>s.
     if ignore_comments cf \<and> current s = Some (CHR ''/'')
     then andThen (scanComment n) (\<lambda>b. if \<not> b then ok False else andThen (skipWhitespace n) (\<lambda>_. skipComments k n cf))
     else ok True)"

text \<open>The switch on the current character.\<close>

definition scanChar :: "nat \<Rightarrow> 'f lexConf \<Rightarrow> char \<Rightarrow> ('f, token_type) lexProg" where
  "scanChar n cf c =
     (if c = CHR ''['' then ok TBeginArray
      else if c = CHR '']'' then ok TEndArray
      else if c = CHR ''{'' then ok TBeginObject
      else if c = CHR ''}'' then ok TEndObject
      else if c = CHR '':'' then ok TNameSeparator
      else if c = CHR '','' then ok TValueSeparator
      else if c = CHR ''t'' then scanLiteral ''rue'' TLiteralTrue
      else if c = CHR ''f'' then scanLiteral ''alse'' TLiteralFalse
      else if c = CHR ''n'' then scanLiteral ''ull'' TLiteralNull
      else if c = CHR 0x22 then scanString n
      else if c = CHR ''-'' \<or> isDigit c then scanNumber n cf
      else if c = CHR 0x00 then ok TEndOfInput
      else failWith ''invalid literal'')"

definition scanCurrent :: "nat \<Rightarrow> 'f lexConf \<Rightarrow> ('f, token_type) lexProg" where
  "scanCurrent n cf = andThen getState (\<lambda>s. case current s of None \<Rightarrow> ok TEndOfInput | Some c \<Rightarrow> scanChar n cf c)"

definition scanToken :: "nat \<Rightarrow> 'f lexConf \<Rightarrow> ('f, token_type) lexProg" where
  "scanToken n cf = andThen getState (\<lambda>s.
     andThen (if chars_read_total (lexPos s) = 0 then skipBom else ok True) (\<lambda>bom.
     if \<not> bom then failWith ''invalid BOM; must be 0xEF 0xBB 0xBF if given''
     else andThen (skipWhitespace n) (\<lambda>_. andThen (skipComments n n cf) (\<lambda>b.
       if \<not> b then ok TParseError else scanCurrent n cf))))"

end
