(* ===== verification/JsonParser.thy ===== *)
theory JsonParser
  imports JsonLexer
begin

text \<open>
  The parser of \<open>lib/nlohmann/json.hpp\<close> (\<open>detail::parser\<close>) with the handler that builds the value
  (\<open>detail::json_sax_dom_parser\<close>), as \<open>basic_json::parse\<close> runs them without a callback.

  The handler keeps pointers into the value under construction. A pointer is the path from the root to the
  part it points to.
\<close>

section \<open>Building the value\<close>

datatype jsonStep = KeyStep string | IndexStep nat

type_synonym jsonPath = "jsonStep list"

fun valueAt :: "jsonPath \<Rightarrow> 'f json \<Rightarrow> 'f json option" where
  "valueAt [] j = Some j"
| "valueAt (IndexStep i # p) (JArray xs) = (if i < length xs then valueAt p (xs ! i) else None)"
| "valueAt (KeyStep k # p) (JObject m) = Option.bind (map_of m k) (valueAt p)"
| "valueAt (_ # p) _ = None"

fun assignAt :: "jsonPath \<Rightarrow> 'f json \<Rightarrow> 'f json \<Rightarrow> 'f json" where
  "assignAt [] v j = v"
| "assignAt (IndexStep i # p) v (JArray xs) = JArray (if i < length xs then xs[i := assignAt p v (xs ! i)] else xs)"
| "assignAt (KeyStep k # p) v (JObject m) =
     JObject (case map_of m k of Some x \<Rightarrow> mapPut k (assignAt p v x) m | None \<Rightarrow> m)"
| "assignAt (_ # p) v j = j"

record 'f domParser =
  dom_root :: "'f json"
  ref_stack :: "jsonPath list"                   \<comment> \<open>the head is the back of the vector\<close>
  object_element :: "jsonPath option"
  errored :: bool

definition newDom :: "'f domParser" where
  "newDom = \<lparr>dom_root = JNull, ref_stack = [], object_element = None, errored = False\<rparr>"

definition assignPtr :: "jsonPath \<Rightarrow> 'f json \<Rightarrow> ('f domParser, unit) prog" where
  "assignPtr p v = modify (\<lambda>d. d\<lparr>dom_root := assignAt p v (dom_root d)\<rparr>)"

definition handleValue :: "'f json \<Rightarrow> ('f domParser, jsonPath) prog" where
  "handleValue v = andThen getState (\<lambda>d.
     case ref_stack d of
       [] \<Rightarrow> andThen (assignPtr [] v) (\<lambda>_. ok [])
     | back # _ \<Rightarrow>
         (case valueAt back (dom_root d) of
            Some (JArray xs) \<Rightarrow>
              andThen (assignPtr back (JArray (xs @ [v]))) (\<lambda>_. ok (back @ [IndexStep (length xs)]))
          | Some (JObject m) \<Rightarrow>
              andThen (fromOption UB (object_element d)) (\<lambda>p. andThen (assignPtr p v) (\<lambda>_. ok p))
          | _ \<Rightarrow> raise UB))"

text \<open>A value, and the start and end of a structure. The length passed to the start is unknown.\<close>

definition saxValue :: "'f json \<Rightarrow> ('f domParser, bool) prog" where
  "saxValue v = andThen (handleValue v) (\<lambda>_. ok True)"

definition saxStart :: "'f json \<Rightarrow> ('f domParser, bool) prog" where
  "saxStart v = andThen (handleValue v) (\<lambda>p. andThen (modify (\<lambda>d. d\<lparr>ref_stack := p # ref_stack d\<rparr>)) (\<lambda>_. ok True))"

definition saxEnd :: "('f domParser, bool) prog" where
  "saxEnd = andThen getState (\<lambda>d. case ref_stack d of
     [] \<Rightarrow> raise UB
   | _ # st \<Rightarrow> andThen (modify (\<lambda>d. d\<lparr>ref_stack := st\<rparr>)) (\<lambda>_. ok True))"

text \<open>\<open>object->operator[](val)\<close> adds null under a new key.\<close>

definition saxKey :: "string \<Rightarrow> ('f domParser, bool) prog" where
  "saxKey k = andThen getState (\<lambda>d. case ref_stack d of
     [] \<Rightarrow> raise UB
   | back # _ \<Rightarrow>
       (case valueAt back (dom_root d) of
          Some (JObject m) \<Rightarrow>
            andThen (if map_of m k = None then assignPtr back (JObject (mapPut k JNull m)) else ok ()) (\<lambda>_.
            andThen (modify (\<lambda>d. d\<lparr>object_element := Some (back @ [KeyStep k])\<rparr>)) (\<lambda>_. ok True))
        | _ \<Rightarrow> raise UB))"

section \<open>The parser\<close>

record 'f parser =
  m_lexer :: "'f lexer"
  sax :: "'f domParser"
  last_token :: token_type

record 'f parseConf =
  lexing :: "'f lexConf"
  allow_exceptions :: bool

type_synonym ('f, 'a) parseProg = "('f parser, 'a) prog"

definition onLexer :: "('f, 'a) lexProg \<Rightarrow> ('f, 'a) parseProg" where
  "onLexer = zoom m_lexer (\<lambda>l s. s\<lparr>m_lexer := l\<rparr>)"

definition onSax :: "('f domParser, 'a) prog \<Rightarrow> ('f, 'a) parseProg" where
  "onSax = zoom sax (\<lambda>d s. s\<lparr>sax := d\<rparr>)"

definition getToken :: "nat \<Rightarrow> 'f parseConf \<Rightarrow> ('f, token_type) parseProg" where
  "getToken n cf = andThen (onLexer (scanToken n (lexing cf))) (\<lambda>t.
     andThen (modify (\<lambda>s. s\<lparr>last_token := t\<rparr>)) (\<lambda>_. ok t))"

definition exceptionMessage :: "token_type \<Rightarrow> string \<Rightarrow> 'f parser \<Rightarrow> string" where
  "exceptionMessage expected ctx s =
     ''syntax error '' @ (if ctx \<noteq> '''' then ''while parsing '' @ ctx @ '' '' else '''') @ ''- '' @
     (if last_token s = TParseError
      then error_message (m_lexer s) @ ''; last read: '' @ [CHR 0x27] @ getTokenString (m_lexer s) @ [CHR 0x27]
      else ''unexpected '' @ tokenTypeName (last_token s)) @
     (if expected \<noteq> TUninitialized then ''; expected '' @ tokenTypeName expected else '''')"

definition saxError :: "'f parseConf \<Rightarrow> cpp_error \<Rightarrow> ('f, bool) parseProg" where
  "saxError cf ex = andThen (onSax (modify (\<lambda>d. d\<lparr>errored := True\<rparr>))) (\<lambda>_.
     if allow_exceptions cf then raise ex else ok False)"

definition syntaxError :: "'f parseConf \<Rightarrow> token_type \<Rightarrow> string \<Rightarrow> ('f, bool) parseProg" where
  "syntaxError cf expected ctx = andThen getState (\<lambda>s.
     saxError cf (parseError 101 (lexPos (m_lexer s)) (exceptionMessage expected ctx s)))"

text \<open>How a part of the loop ends: it returns, goes on with the stack of states and the flag
  \<open>skip_to_state_evaluation\<close>, or a value is complete.\<close>

datatype saxStep = Return bool | Continue "bool list" bool | ValueDone

definition orReturn :: "('f, bool) parseProg \<Rightarrow> ('f, saxStep) parseProg \<Rightarrow> ('f, saxStep) parseProg" where
  "orReturn p q = andThen p (\<lambda>b. if \<not> b then ok (Return False) else q)"

definition returning :: "('f, bool) parseProg \<Rightarrow> ('f, saxStep) parseProg" where
  "returning p = andThen p (\<lambda>b. ok (Return b))"

text \<open>Key and colon, behind which a value is expected.\<close>

definition parseKey :: "nat \<Rightarrow> 'f parseConf \<Rightarrow> token_type \<Rightarrow> ('f, saxStep) parseProg \<Rightarrow> ('f, saxStep) parseProg" where
  "parseKey n cf t rest =
     (if t \<noteq> TValueString then returning (syntaxError cf TValueString ''object key'')
      else andThen getState (\<lambda>s. orReturn (onSax (saxKey (token_buffer (m_lexer s))))
        (andThen (getToken n cf) (\<lambda>t.
           if t \<noteq> TNameSeparator then returning (syntaxError cf TNameSeparator ''object separator'') else rest))))"

definition scalarStep :: "('f lexer \<Rightarrow> 'f json) \<Rightarrow> ('f, saxStep) parseProg" where
  "scalarStep f = andThen getState (\<lambda>s. orReturn (onSax (saxValue (f (m_lexer s)))) (ok ValueDone))"

definition floatStep :: "'f parseConf \<Rightarrow> ('f, saxStep) parseProg" where
  "floatStep cf = andThen getState (\<lambda>s.
     if \<not> isFinite (numbers (lexing cf)) (value_float (m_lexer s))
     then returning (saxError cf (outOfRange 406 (''number overflow parsing '' @ [CHR 0x27] @
       getTokenString (m_lexer s) @ [CHR 0x27])))
     else scalarStep (\<lambda>l. JFloat (value_float l)))"

text \<open>The switch on the last token. A token that starts a structure is followed by its end, or by the first
  key or value.\<close>

definition valueStep :: "nat \<Rightarrow> 'f parseConf \<Rightarrow> bool list \<Rightarrow> ('f, saxStep) parseProg" where
  "valueStep n cf states = andThen getState (\<lambda>s. case last_token s of
       TBeginObject \<Rightarrow> orReturn (onSax (saxStart (JObject [])))
         (andThen (getToken n cf) (\<lambda>t.
            if t = TEndObject then orReturn (onSax saxEnd) (ok ValueDone)
            else parseKey n cf t (andThen (getToken n cf) (\<lambda>_. ok (Continue (False # states) False)))))
     | TBeginArray \<Rightarrow> orReturn (onSax (saxStart (JArray [])))
         (andThen (getToken n cf) (\<lambda>t.
            if t = TEndArray then orReturn (onSax saxEnd) (ok ValueDone)
            else ok (Continue (True # states) False)))
     | TValueFloat \<Rightarrow> floatStep cf
     | TLiteralFalse \<Rightarrow> scalarStep (\<lambda>_. JBool False)
     | TLiteralNull \<Rightarrow> scalarStep (\<lambda>_. JNull)
     | TLiteralTrue \<Rightarrow> scalarStep (\<lambda>_. JBool True)
     | TValueInteger \<Rightarrow> scalarStep (\<lambda>l. JInteger (value_integer l))
     | TValueString \<Rightarrow> scalarStep (\<lambda>l. JString (token_buffer l))
     | TValueUnsigned \<Rightarrow> scalarStep (\<lambda>l. JUnsigned (value_unsigned l))
     | TParseError \<Rightarrow> returning (syntaxError cf TUninitialized ''value'')
     | _ \<Rightarrow> returning (syntaxError cf TLiteralOrValue ''value''))"

text \<open>What follows a value: a comma, the end of the structure, or nothing at the top.\<close>

definition stateStep :: "nat \<Rightarrow> 'f parseConf \<Rightarrow> bool list \<Rightarrow> ('f, saxStep) parseProg" where
  "stateStep n cf states = (case states of
       [] \<Rightarrow> ok (Return True)
     | True # outer \<Rightarrow> andThen (getToken n cf) (\<lambda>t.
         if t = TValueSeparator then andThen (getToken n cf) (\<lambda>_. ok (Continue states False))
         else if t = TEndArray then orReturn (onSax saxEnd) (ok (Continue outer True))
         else returning (syntaxError cf TEndArray ''array''))
     | False # outer \<Rightarrow> andThen (getToken n cf) (\<lambda>t.
         if t = TValueSeparator
         then andThen (getToken n cf) (\<lambda>t.
           parseKey n cf t (andThen (getToken n cf) (\<lambda>_. ok (Continue states False))))
         else if t = TEndObject then orReturn (onSax saxEnd) (ok (Continue outer True))
         else returning (syntaxError cf TEndObject ''object'')))"

definition loopStep :: "nat \<Rightarrow> 'f parseConf \<Rightarrow> bool list \<Rightarrow> bool \<Rightarrow> ('f, saxStep) parseProg" where
  "loopStep n cf states skip =
     andThen (if skip then ok ValueDone else valueStep n cf states) (\<lambda>r.
     case r of ValueDone \<Rightarrow> stateStep n cf states | _ \<Rightarrow> ok r)"

primrec saxParseInternal :: "nat \<Rightarrow> nat \<Rightarrow> 'f parseConf \<Rightarrow> bool list \<Rightarrow> bool \<Rightarrow> ('f, bool) parseProg" where
  "saxParseInternal 0 n cf states skip = raise OutOfFuel"
| "saxParseInternal (Suc k) n cf states skip = andThen (loopStep n cf states skip) (\<lambda>r.
     case r of
       Return b \<Rightarrow> ok b
     | Continue states' skip' \<Rightarrow> saxParseInternal k n cf states' skip'
     | ValueDone \<Rightarrow> raise UB)"

text \<open>\<open>parser::parse\<close>, without a callback; what \<open>sax_parse_internal\<close> returns is not looked at.\<close>

definition parserParse :: "nat \<Rightarrow> 'f parseConf \<Rightarrow> bool \<Rightarrow> ('f, 'f json) parseProg" where
  "parserParse n cf strict =
     andThen (saxParseInternal n n cf [] False) (\<lambda>_.
     andThen
       (if strict
        then andThen (getToken n cf) (\<lambda>t. if t \<noteq> TEndOfInput then syntaxError cf TEndOfInput ''value'' else ok True)
        else ok True) (\<lambda>_.
     andThen getState (\<lambda>s. ok (if errored (sax s) then JDiscarded else dom_root (sax s)))))"

definition newLexer :: "'f lexConf \<Rightarrow> string \<Rightarrow> 'f lexer" where
  "newLexer cf src = \<lparr>unread = src, current = None, next_unget = False,
     lexPos = \<lparr>chars_read_total = 0, chars_read_current_line = 0, lines_read = 0\<rparr>, token_string = '''',
     token_buffer = '''', error_message = '''', value_integer = 0, value_unsigned = 0,
     value_float = strtod (numbers cf) ''0''\<rparr>"

text \<open>The constructor reads the first token.\<close>

definition newParser :: "'f lexConf \<Rightarrow> string \<Rightarrow> 'f parser" where
  "newParser cf src = \<lparr>m_lexer = newLexer cf src, sax = newDom, last_token = TUninitialized\<rparr>"

text \<open>\<open>basic_json::parse(src, nullptr, allow_exceptions, ignore_comments)\<close>; every loop reads a byte per round,
  so the length of the text bounds them all.\<close>

definition jsonParse :: "'f parseConf \<Rightarrow> string \<Rightarrow> cpp_error + 'f json" where
  "jsonParse cf src = fst (andThen (getToken (length src + 3) cf) (\<lambda>_. parserParse (length src + 3) cf True)
     (newParser (lexing cf) src))"

end
