(* ===== verification/JsonDom.thy ===== *)
theory JsonDom
  imports JsonParser
begin

text \<open>
  The laws of the pointers into a value under construction, and the invariant of the handler that builds it:
  the pointers on its stack stay valid, and each points to the kind of structure the parser thinks it is in.
\<close>

section \<open>Paths\<close>

lemma mapPut_twice: "mapPut k v (mapPut k w m) = mapPut k v m"
  by (induction k w m rule: mapPut.induct) auto

lemma valueAt_append: "valueAt (p @ q) j = Option.bind (valueAt p j) (valueAt q)"
proof (induction p j rule: valueAt.induct)
  case (3 k p m)
  then show ?case by (cases "map_of m k") auto
qed auto

lemma assignAt_append: "valueAt p j = Some x \<Longrightarrow> assignAt (p @ q) v j = assignAt p (assignAt q v x) j"
proof (induction p j rule: valueAt.induct)
  case (2 i p xs)
  then show ?case by (cases "i < length xs") auto
next
  case (3 k p m)
  then show ?case by (cases "map_of m k") auto
qed auto

lemma valueAt_assign: "valueAt p j = Some x \<Longrightarrow> valueAt p (assignAt p v j) = Some v"
proof (induction p j rule: valueAt.induct)
  case (2 i p xs)
  then show ?case by (cases "i < length xs") auto
next
  case (3 k p m)
  then show ?case by (cases "map_of m k") (auto simp: map_of_mapPut)
qed auto

lemma assignAt_twice: "valueAt p j = Some x \<Longrightarrow> assignAt p w (assignAt p v j) = assignAt p w j"
proof (induction p j rule: valueAt.induct)
  case (2 i p xs)
  then show ?case by (cases "i < length xs") auto
next
  case (3 k p m)
  then show ?case by (cases "map_of m k") (auto simp: map_of_mapPut mapPut_twice)
qed auto

text \<open>What is assigned below an assigned value.\<close>

lemma assignAt_below:
  "valueAt p j = Some x \<Longrightarrow> assignAt (p @ q) w (assignAt p v j) = assignAt p (assignAt q w v) j"
  by (simp add: assignAt_append [OF valueAt_assign] assignAt_twice)

section \<open>The handler's stack\<close>

definition shape :: "bool \<Rightarrow> 'f json \<Rightarrow> bool" where
  "shape b x \<longleftrightarrow> (case x of JArray _ \<Rightarrow> b | JObject _ \<Rightarrow> \<not> b | _ \<Rightarrow> False)"

definition strictlyBelow :: "jsonPath \<Rightarrow> jsonPath \<Rightarrow> bool" where
  "strictlyBelow q p \<longleftrightarrow> (\<exists>s r. p = q @ s # r)"

fun stackOk :: "bool list \<Rightarrow> jsonPath list \<Rightarrow> 'f json \<Rightarrow> bool" where
  "stackOk [] ps j \<longleftrightarrow> ps = []"
| "stackOk (b # bs) [] j \<longleftrightarrow> False"
| "stackOk (b # bs) (p # ps) j \<longleftrightarrow> (\<exists>x. valueAt p j = Some x \<and> shape b x) \<and> list_all (\<lambda>q. strictlyBelow q p) ps \<and>
     stackOk bs ps j"

lemma shape_assign: "s # r = q \<Longrightarrow> shape b (assignAt q v x) = shape b x"
  by (cases s; cases x) (auto simp: shape_def)

lemma valueAt_above:
  assumes "strictlyBelow q p" "valueAt p j = Some y"
  shows "\<exists>x x'. valueAt q j = Some x \<and> valueAt q (assignAt p v j) = Some x' \<and> (\<forall>b. shape b x' = shape b x)"
proof -
  obtain s r where p: "p = q @ s # r" using assms(1) by (auto simp: strictlyBelow_def)
  with assms(2) obtain x where x: "valueAt q j = Some x" by (auto simp: valueAt_append bind_eq_Some_conv)
  have "valueAt q (assignAt p v j) = Some (assignAt (s # r) v x)"
    unfolding p assignAt_append [OF x] by (rule valueAt_assign [OF x])
  with x show ?thesis by (auto simp: shape_assign [OF refl])
qed

text \<open>An assignment below all pointers of the stack keeps it.\<close>

lemma stackOk_below:
  "stackOk bs ps j \<Longrightarrow> list_all (\<lambda>q. strictlyBelow q p) ps \<Longrightarrow> valueAt p j = Some y \<Longrightarrow> stackOk bs ps (assignAt p v j)"
proof (induction bs ps j rule: stackOk.induct)
  case (3 b bs q ps j)
  then obtain x where x: "valueAt q j = Some x" "shape b x" by auto
  obtain x' where "valueAt q (assignAt p v j) = Some x'" "shape b x'"
    using valueAt_above [of q p j y v] 3 x by auto
  with 3 show ?case by auto
qed auto

definition domOk :: "bool list \<Rightarrow> 'f domParser \<Rightarrow> bool" where
  "domOk bs d \<longleftrightarrow> stackOk bs (ref_stack d) (dom_root d)"

text \<open>Inside an object a value can only come after its key.\<close>

definition awaitsValue :: "bool list \<Rightarrow> 'f domParser \<Rightarrow> bool" where
  "awaitsValue bs d \<longleftrightarrow> (case bs of False # _ \<Rightarrow>
     (\<exists>k p y. ref_stack d \<noteq> [] \<and> p = hd (ref_stack d) @ [KeyStep k] \<and> object_element d = Some p \<and>
        valueAt p (dom_root d) = Some y) | _ \<Rightarrow> True)"

lemma strictlyBelow_one: "strictlyBelow q p \<Longrightarrow> strictlyBelow q (p @ [s])"
  by (auto simp: strictlyBelow_def)

lemma strictlyBelow_step: "list_all (\<lambda>q. strictlyBelow q p) ps \<Longrightarrow> list_all (\<lambda>q. strictlyBelow q (p @ [s])) ps"
  by (simp add: list_all_iff strictlyBelow_one)

lemma handleValue_run:
  assumes "domOk bs d" "awaitsValue bs d"
  obtains p e where "handleValue v d = (Inr p, e)" "domOk bs e" "valueAt p (dom_root e) = Some v"
    "ref_stack e = ref_stack d" "list_all (\<lambda>q. strictlyBelow q p) (ref_stack d)"
    "object_element e = object_element d" "errored e = errored d"
proof (cases bs)
  case Nil
  with assms(1) have r: "ref_stack d = []" by (simp add: domOk_def)
  show thesis
    by (rule that [of "[]" "d\<lparr>dom_root := v\<rparr>"]) (simp_all add: handleValue_def assignPtr_def r run_simps Nil domOk_def)
next
  case (Cons b bs')
  then obtain p ps x where p: "ref_stack d = p # ps" "valueAt p (dom_root d) = Some x" "shape b x"
      "list_all (\<lambda>q. strictlyBelow q p) ps" "stackOk bs' ps (dom_root d)"
    using assms(1) by (cases "ref_stack d") (auto simp: domOk_def)
  have below: "list_all (\<lambda>q. strictlyBelow q (p @ [s])) (ref_stack d)" for s
    using p(1,4) strictlyBelow_step [OF p(4)] by (simp add: strictlyBelow_def)
  show thesis
  proof (cases b)
    case True
    with p(3) obtain xs where xs: "x = JArray xs" by (auto simp: shape_def split: json.splits)
    define e where "e = d\<lparr>dom_root := assignAt p (JArray (xs @ [v])) (dom_root d)\<rparr>"
    have run: "handleValue v d = (Inr (p @ [IndexStep (length xs)]), e)"
      using p(1,2) xs by (simp add: handleValue_def assignPtr_def e_def run_simps)
    have "valueAt p (dom_root e) = Some (JArray (xs @ [v]))" by (simp add: e_def valueAt_assign [OF p(2)])
    then have at: "valueAt (p @ [IndexStep (length xs)]) (dom_root e) = Some v" "valueAt p (dom_root e) = Some (JArray (xs @ [v]))"
      by (simp_all add: valueAt_append)
    have "domOk bs e"
      using p at(2) stackOk_below [OF p(5,4,2)] Cons True by (auto simp: domOk_def e_def shape_def)
    moreover have "dom_root e = assignAt p (JArray (xs @ [v])) (dom_root d)" "ref_stack e = ref_stack d"
      "object_element e = object_element d" "errored e = errored d" by (simp_all add: e_def)
    ultimately show thesis using run at(1) below by (intro that [of "p @ [IndexStep (length xs)]" e])
  next
    case False
    with p(3) obtain m where m: "x = JObject m" by (auto simp: shape_def split: json.splits)
    from assms(2) Cons False p(1) obtain k y where k: "object_element d = Some (p @ [KeyStep k])"
        "valueAt (p @ [KeyStep k]) (dom_root d) = Some y"
      by (auto simp: awaitsValue_def)
    define e where "e = d\<lparr>dom_root := assignAt (p @ [KeyStep k]) v (dom_root d)\<rparr>"
    have run: "handleValue v d = (Inr (p @ [KeyStep k]), e)"
      using p(1,2) m k(1) by (simp add: handleValue_def assignPtr_def e_def run_simps)
    have "domOk bs e"
      using assms(1) stackOk_below [OF _ below k(2)] by (simp add: domOk_def e_def)
    moreover have "valueAt (p @ [KeyStep k]) (dom_root e) = Some v" "ref_stack e = ref_stack d"
      "object_element e = object_element d" "errored e = errored d" using k(2) by (simp_all add: e_def valueAt_assign)
    ultimately show thesis using run below by (intro that [of "p @ [KeyStep k]" e])
  qed
qed

text \<open>The four operations of the handler. \<open>onDom\<close>: the program returns true.\<close>

definition onDom :: "('f domParser, bool) prog \<Rightarrow> 'f domParser \<Rightarrow> ('f domParser \<Rightarrow> bool) \<Rightarrow> bool" where
  "onDom m d Q \<longleftrightarrow> (\<exists>e. m d = (Inr True, e) \<and> Q e)"

lemma saxValue_dom:
  assumes "domOk bs d" "awaitsValue bs d"
  shows "onDom (saxValue v) d (domOk bs)"
proof -
  obtain p e where "handleValue v d = (Inr p, e)" "domOk bs e" by (rule handleValue_run [OF assms, of v])
  then show ?thesis by (simp add: onDom_def saxValue_def run_simps)
qed

lemma saxStart_dom:
  assumes "domOk bs d" "awaitsValue bs d" "shape b v"
  shows "onDom (saxStart v) d (domOk (b # bs))"
proof -
  obtain p e where e: "handleValue v d = (Inr p, e)" "domOk bs e" "valueAt p (dom_root e) = Some v"
      "ref_stack e = ref_stack d" "list_all (\<lambda>q. strictlyBelow q p) (ref_stack d)"
    by (rule handleValue_run [OF assms(1,2), of v])
  with assms(3) show ?thesis by (simp add: onDom_def saxStart_def run_simps domOk_def)
qed

lemma saxEnd_dom: "domOk (b # bs) d \<Longrightarrow> onDom saxEnd d (domOk bs)"
  by (cases "ref_stack d") (auto simp: onDom_def saxEnd_def run_simps domOk_def)

lemma saxKey_dom:
  assumes "domOk (False # bs) d"
  shows "onDom (saxKey k) d (\<lambda>e. domOk (False # bs) e \<and> awaitsValue (False # bs) e)"
proof -
  obtain p ps x where p: "ref_stack d = p # ps" "valueAt p (dom_root d) = Some x" "shape False x"
      "list_all (\<lambda>q. strictlyBelow q p) ps" "stackOk bs ps (dom_root d)"
    using assms by (cases "ref_stack d") (auto simp: domOk_def)
  then obtain m where m: "x = JObject m" by (auto simp: shape_def split: json.splits)
  define m' where "m' = (if map_of m k = None then mapPut k JNull m else m)"
  define j where "j = (if map_of m k = None then assignAt p (JObject m') (dom_root d) else dom_root d)"
  have at: "valueAt p j = Some (JObject m')" using p(2) m by (simp add: j_def m'_def valueAt_assign)
  have "stackOk (False # bs) (p # ps) j"
    using p at stackOk_below [OF p(5,4,2)] by (auto simp: j_def shape_def)
  moreover have "valueAt (p @ [KeyStep k]) j \<noteq> None"
    using at by (auto simp: valueAt_append m'_def map_of_mapPut)
  ultimately show ?thesis
    using p(1,2) m
    by (auto simp: onDom_def saxKey_def assignPtr_def run_simps domOk_def awaitsValue_def j_def m'_def)
qed

end
