(* ===== verification/JsonTotal.thy ===== *)
theory JsonTotal
  imports JsonDom
begin

text \<open>
  The JSON parser always comes to an end: whatever the text, it returns a value or throws one of the library's
  own exceptions. The lexer reads on until the input ends (\<open>lexes\<close>); the parser's stack of states and
  the handler's stack of pointers stay in step (\<open>stackOk\<close>).
\<close>

section \<open>What is left to read\<close>

definition remaining :: "'f lexer \<Rightarrow> string" where
  "remaining s = (if next_unget s then (case current s of None \<Rightarrow> [] | Some c \<Rightarrow> c # unread s) else unread s)"

definition lexOk :: "'f lexer \<Rightarrow> bool" where
  "lexOk s \<longleftrightarrow> (next_unget s \<and> current s = None \<longrightarrow> unread s = [])"

text \<open>After a character has been read: it may be put back.\<close>

definition justRead :: "'f lexer \<Rightarrow> bool" where
  "justRead s \<longleftrightarrow> \<not> next_unget s \<and> (current s = None \<longrightarrow> unread s = [])"

lemma justRead_ok: "justRead s \<Longrightarrow> lexOk s"
  by (simp add: justRead_def lexOk_def)

lemma getChar_run:
  assumes "lexOk s"
  obtains t where "getChar s = (Inr (nextChar s), t)" "current t = nextChar s" "justRead t" "remaining t = tl (remaining s)"
    "token_buffer t = token_buffer s" "nextChar s = (case remaining s of [] \<Rightarrow> None | c # _ \<Rightarrow> Some c)"
proof
  show "getChar s = (Inr (nextChar s), snd (getChar s))" by (simp add: getChar_def)
qed (use assms in \<open>auto simp: getChar_def nextChar_def justRead_def lexOk_def remaining_def split: option.splits list.splits\<close>)

lemma ungetChar_run:
  "justRead s \<Longrightarrow> ungetChar s = (Inr (), snd (ungetChar s)) \<and> lexOk (snd (ungetChar s)) \<and>
     remaining (snd (ungetChar s)) = (case current s of None \<Rightarrow> [] | Some c \<Rightarrow> c # remaining s) \<and>
     current (snd (ungetChar s)) = current s \<and> token_buffer (snd (ungetChar s)) = token_buffer s"
  by (auto simp: ungetChar_def run_simps justRead_def lexOk_def remaining_def split: option.splits)

section \<open>Programs that only read on\<close>

text \<open>\<open>lexes m s Q\<close>: the program returns, what is left to read does not grow, and \<open>Q\<close> holds.\<close>

definition lexes :: "('f, 'a) lexProg \<Rightarrow> 'f lexer \<Rightarrow> ('a \<Rightarrow> 'f lexer \<Rightarrow> bool) \<Rightarrow> bool" where
  "lexes m s Q \<longleftrightarrow> (\<exists>x t. m s = (Inr x, t) \<and> lexOk t \<and> length (remaining t) \<le> length (remaining s) \<and> Q x t)"

lemma lexes_bind:
  assumes "lexes m s R" "\<And>x t. lexOk t \<Longrightarrow> length (remaining t) \<le> length (remaining s) \<Longrightarrow> R x t \<Longrightarrow> lexes (f x) t Q"
  shows "lexes (andThen m f) s Q"
  using assms unfolding lexes_def andThen_def by (fastforce split: prod.splits sum.splits)

lemma lexes_ok: "lexOk s \<Longrightarrow> Q x s \<Longrightarrow> lexes (ok x) s Q"
  by (simp add: lexes_def run_simps)

lemma lexes_mono: "lexes m s R \<Longrightarrow> (\<And>x t. R x t \<Longrightarrow> Q x t) \<Longrightarrow> lexes m s Q"
  by (auto simp: lexes_def)

lemma lexes_any: "lexes m s R \<Longrightarrow> lexes m s (\<lambda>_ _. True)"
  by (auto simp: lexes_def)

lemma lexes_if: "(b \<Longrightarrow> lexes p s Q) \<Longrightarrow> (\<not> b \<Longrightarrow> lexes q s Q) \<Longrightarrow> lexes (if b then p else q) s Q"
  by simp

lemma lexes_getChar:
  assumes "lexOk s"
    and "\<And>t c. justRead t \<Longrightarrow> current t = c \<Longrightarrow> c = None \<Longrightarrow> remaining t = [] \<Longrightarrow> remaining s = [] \<Longrightarrow> Q c t"
    and "\<And>t c x. justRead t \<Longrightarrow> current t = c \<Longrightarrow> c = Some x \<Longrightarrow> remaining s = x # remaining t \<Longrightarrow> Q c t"
  shows "lexes getChar s Q"
proof -
  obtain t where t: "getChar s = (Inr (nextChar s), t)" "current t = nextChar s" "justRead t"
      "remaining t = tl (remaining s)" "nextChar s = (case remaining s of [] \<Rightarrow> None | c # _ \<Rightarrow> Some c)"
    using getChar_run [OF assms(1)] by blast
  show ?thesis
  proof (cases "remaining s")
    case Nil
    with t assms(2) [of t None] show ?thesis by (auto simp: lexes_def dest: justRead_ok)
  next
    case (Cons x xs)
    with t assms(3) [of t "Some x" x] show ?thesis by (auto simp: lexes_def dest: justRead_ok)
  qed
qed

lemma quiet_state:
  "remaining (s\<lparr>token_buffer := x\<rparr>) = remaining s" "lexOk (s\<lparr>token_buffer := x\<rparr>) = lexOk s"
  "remaining (s\<lparr>error_message := x\<rparr>) = remaining s" "lexOk (s\<lparr>error_message := x\<rparr>) = lexOk s"
  "remaining (s\<lparr>value_integer := i\<rparr>) = remaining s" "lexOk (s\<lparr>value_integer := i\<rparr>) = lexOk s"
  "remaining (s\<lparr>value_unsigned := i\<rparr>) = remaining s" "lexOk (s\<lparr>value_unsigned := i\<rparr>) = lexOk s"
  "remaining (s\<lparr>value_float := f\<rparr>) = remaining s" "lexOk (s\<lparr>value_float := f\<rparr>) = lexOk s"
  "remaining (s\<lparr>token_string := x\<rparr>) = remaining s" "lexOk (s\<lparr>token_string := x\<rparr>) = lexOk s"
  by (simp_all add: remaining_def lexOk_def split: option.split)

text \<open>The operations that do not read.\<close>

lemma lexes_quiet:
  assumes "lexOk s"
  shows "lexes addCurrent s (\<lambda>_ t. remaining t = remaining s)" "lexes (addChar c) s (\<lambda>_ t. remaining t = remaining s)"
    "lexes resetToken s (\<lambda>_ t. remaining t = remaining s \<and> current t = current s)"
    "lexes (setError m) s (\<lambda>_ t. remaining t = remaining s)"
    "lexes (failWith m) s (\<lambda>r t. r = TParseError)" "lexes (stopWith m) s (\<lambda>r t. r = Some TParseError)"
    "lexes (addBytes bs) s (\<lambda>_ t. remaining t = remaining s)"
proof -
  show "lexes (addBytes bs) s (\<lambda>_ t. remaining t = remaining s)"
    unfolding addBytes_def using assms
  proof (induction bs arbitrary: s)
    case (Cons b bs)
    then show ?case
      using Cons.IH [of "snd (addChar (char_of b) s)"]
      by (auto simp: lexes_def addChar_def run_simps quiet_state)
  qed (simp add: lexes_def run_simps)
qed (use assms in \<open>auto simp: lexes_def addCurrent_def addChar_def resetToken_def setError_def failWith_def stopWith_def
    run_simps quiet_state\<close>)

section \<open>The scanners\<close>

lemma codepointLoop_lexes: "lexOk s \<Longrightarrow> lexes (codepointLoop fs cp) s (\<lambda>_ _. True)"
proof (induction fs arbitrary: cp s)
  case (Cons f fs)
  show ?case
    unfolding codepointLoop.simps
    by (rule lexes_bind [where R = "\<lambda>_ _. True"])
      (auto intro!: lexes_getChar lexes_ok Cons simp: Option.bind_def split: option.splits)
qed (simp add: lexes_ok)

lemma rangeLoop_lexes: "lexOk s \<Longrightarrow> lexes (rangeLoop rs) s (\<lambda>_ _. True)"
proof (induction rs arbitrary: s)
  case (Cons r rs)
  show ?case
    unfolding rangeLoop.simps
    by (rule lexes_bind [where R = "\<lambda>_ _. True"], rule lexes_getChar)
      (auto intro!: Cons lexes_ok lexes_bind [OF lexes_quiet(1)] lexes_bind [OF lexes_quiet(4)] split: option.splits)
qed (simp add: lexes_ok)

lemma goOn_lexes: "lexes p s (\<lambda>_ _. True) \<Longrightarrow> lexes (goOn p) s (\<lambda>_ _. True)"
  unfolding goOn_def by (rule lexes_bind, assumption) (auto intro: lexes_ok)

lemma stopWith_lexes: "lexOk s \<Longrightarrow> lexes (stopWith m) s (\<lambda>_ _. True)"
  by (rule lexes_mono [OF lexes_quiet(6)]) auto

lemma addBytes_lexes: "lexOk s \<Longrightarrow> lexes (goOn (addBytes bs)) s (\<lambda>_ _. True)"
  by (rule goOn_lexes, rule lexes_mono [OF lexes_quiet(7)]) auto

lemma unicodeStep_lexes: "lexOk s \<Longrightarrow> lexes unicodeStep s (\<lambda>_ _. True)"
proof -
  have cp: "lexOk s \<Longrightarrow> lexes getCodepoint s (\<lambda>_ _. True)" for s :: "'a lexer"
    unfolding getCodepoint_def by (rule codepointLoop_lexes)
  have get: "lexOk s \<Longrightarrow> lexes getChar s (\<lambda>_ _. True)" for s :: "'a lexer"
    by (rule lexes_getChar) auto
  have low: "lexOk s \<Longrightarrow> lexes (lowSurrogate c) s (\<lambda>_ _. True)" for s :: "'a lexer" and c
    unfolding lowSurrogate_def
    by (auto intro!: lexes_bind [OF get] lexes_bind [OF cp] stopWith_lexes addBytes_lexes split: option.splits)
  show "lexOk s \<Longrightarrow> lexes unicodeStep s (\<lambda>_ _. True)"
    unfolding unicodeStep_def
    by (auto intro!: lexes_bind [OF cp] stopWith_lexes addBytes_lexes low split: option.splits)
qed

lemma escapeStep_lexes: "lexOk s \<Longrightarrow> lexes escapeStep s (\<lambda>_ _. True)"
  unfolding escapeStep_def
  by (rule lexes_bind [where R = "\<lambda>_ _. True"], rule lexes_getChar)
    (auto intro!: unicodeStep_lexes stopWith_lexes goOn_lexes lexes_mono [OF lexes_quiet(2)])

lemma rangeStep_lexes: "lexOk s \<Longrightarrow> lexes (rangeStep rs) s (\<lambda>_ _. True)"
  unfolding rangeStep_def nextByteInRange_def
  by (auto intro!: lexes_bind [OF lexes_bind [OF lexes_quiet(1) rangeLoop_lexes]] lexes_ok)

text \<open>A step of \<open>scan_string\<close> that goes on has read something.\<close>

lemma stringChar_lexes: "lexOk s \<Longrightarrow> lexes (stringChar c) s (\<lambda>_ _. True)"
  unfolding stringChar_def Let_def
  by (auto intro!: lexes_ok escapeStep_lexes stopWith_lexes rangeStep_lexes goOn_lexes lexes_mono [OF lexes_quiet(1)])

lemma lexes_after:
  "lexes m t (\<lambda>_ _. True) \<Longrightarrow> remaining s = x # remaining t \<Longrightarrow>
     lexes m t (\<lambda>r u. length (remaining u) < length (remaining s))"
  by (auto simp: lexes_def)

lemma stringStep_lexes:
  assumes "lexOk s"
  shows "lexes stringStep s (\<lambda>r t. r = None \<longrightarrow> length (remaining t) < length (remaining s))"
  unfolding stringStep_def
proof (rule lexes_bind [where R = "\<lambda>c t. case c of None \<Rightarrow> True | Some x \<Rightarrow> remaining s = x # remaining t"],
    rule lexes_getChar [OF assms])
  fix c :: "char option" and t :: "'a lexer"
  assume t: "lexOk t" "case c of None \<Rightarrow> True | Some x \<Rightarrow> remaining s = x # remaining t"
  show "lexes (case c of None \<Rightarrow> stopWith ''invalid string: missing closing quote'' | Some x \<Rightarrow> stringChar x) t
      (\<lambda>r t. r = None \<longrightarrow> length (remaining t) < length (remaining s))"
  proof (cases c)
    case None
    then show ?thesis by (simp, intro lexes_mono [OF lexes_quiet(6) [OF t(1)]]) auto
  next
    case (Some x)
    with t(2) have "remaining s = x # remaining t" by simp
    from lexes_after [OF stringChar_lexes [OF t(1)] this, of x] Some show ?thesis by (auto intro: lexes_mono)
  qed
qed auto

lemma stringLoop_lexes: "lexOk s \<Longrightarrow> length (remaining s) < n \<Longrightarrow> lexes (stringLoop n) s (\<lambda>_ _. True)"
proof (induction n arbitrary: s)
  case (Suc n)
  show ?case
    unfolding stringLoop.simps
  proof (rule lexes_bind [OF stringStep_lexes [OF Suc.prems(1)]])
    fix r :: "token_type option" and t :: "'a lexer"
    assume "lexOk t" "r = None \<longrightarrow> length (remaining t) < length (remaining s)"
    with Suc show "lexes (case r of None \<Rightarrow> stringLoop n | Some u \<Rightarrow> ok u) t (\<lambda>_ _. True)"
      by (auto intro!: lexes_ok split: option.splits)
  qed
qed simp

lemma scanString_lexes: "lexOk s \<Longrightarrow> length (remaining s) < n \<Longrightarrow> lexes (scanString n) s (\<lambda>_ _. True)"
  unfolding scanString_def by (auto intro!: lexes_bind [OF lexes_quiet(3)] stringLoop_lexes)

lemma finishNumber_lexes:
  assumes "justRead s"
  shows "\<exists>x t. finishNumber cf ty s = (Inr x, t) \<and> lexOk t \<and>
    length (remaining t) = length (case current s of None \<Rightarrow> [] | Some c \<Rightarrow> c # remaining s) \<and> x \<noteq> TEndOfInput"
  using ungetChar_run [OF assms(1)]
  by (auto simp: finishNumber_def run_simps Let_def quiet_state split: option.splits)

lemma numberStep_None: "numberStep point st None \<noteq> NGoto x st'"
  by (cases st) (auto simp: numberStep_def digitOr_def exponentOr_def pointOr_def)

lemma numberLoop_lexes:
  "lexOk s \<Longrightarrow> length (remaining s) < n \<Longrightarrow> lexes (numberLoop n cf st ty) s (\<lambda>x _. x \<noteq> TEndOfInput)"
proof (induction n arbitrary: s st ty)
  case (Suc n)
  from getChar_run [OF Suc.prems(1)] obtain t where t: "getChar s = (Inr (nextChar s), t)" "current t = nextChar s" "justRead t"
      "remaining t = tl (remaining s)" "nextChar s = (case remaining s of [] \<Rightarrow> None | c # _ \<Rightarrow> Some c)"
    by blast
  have len: "length (remaining t) \<le> length (remaining s)" by (simp add: t(4))
  show ?case
  proof (cases "numberStep (decimal_point_char cf) st (nextChar s)")
    case (NGoto x st')
    then have "nextChar s \<noteq> None" using numberStep_None by metis
    with t(4,5) have "length (remaining t) < length (remaining s)" by (auto split: list.splits)
    moreover from this Suc have "lexes (numberLoop n cf st' (numberType st ty)) (snd (addChar x t)) (\<lambda>x _. x \<noteq> TEndOfInput)"
      using justRead_ok [OF t(3)] by (intro Suc.IH) (simp_all add: addChar_def run_simps quiet_state)
    ultimately show ?thesis
      by (auto simp: lexes_def t(1) NGoto addChar_def run_simps quiet_state)
  next
    case NDone
    obtain x u where u: "finishNumber cf (numberType st ty) t = (Inr x, u)" "lexOk u" "x \<noteq> TEndOfInput"
        "length (remaining u) = length (case current t of None \<Rightarrow> [] | Some c \<Rightarrow> c # remaining t)"
      using finishNumber_lexes [OF t(3), of cf "numberType st ty"] by blast
    have "length (remaining u) \<le> length (remaining s)"
      using u(4) t(2,4,5) by (auto split: list.splits)
    with u(1-3) show ?thesis by (simp add: lexes_def t(1) NDone run_simps)
  next
    case (NError m)
    with len justRead_ok [OF t(3)] show ?thesis
      by (simp add: lexes_def t(1) run_simps failWith_def setError_def quiet_state)
  qed
qed simp

lemma scanNumber_lexes: "lexOk s \<Longrightarrow> length (remaining s) < n \<Longrightarrow> lexes (scanNumber n cf) s (\<lambda>x _. x \<noteq> TEndOfInput)"
  unfolding scanNumber_def
  by (auto intro!: lexes_bind [OF lexes_quiet(3)] lexes_bind [OF lexes_quiet(1)] numberLoop_lexes
      lexes_bind [where m = getState and R = "\<lambda>x t. x = t \<and> length (remaining t) < n"] simp: lexes_def [where m = getState] run_simps)

lemma scanLiteral_lexes: "lexOk s \<Longrightarrow> ty \<noteq> TEndOfInput \<Longrightarrow> lexes (scanLiteral ls ty) s (\<lambda>x _. x \<noteq> TEndOfInput)"
proof (induction ls arbitrary: s)
  case (Cons l ls)
  show ?case
    unfolding scanLiteral.simps
    by (rule lexes_bind [where R = "\<lambda>_ _. True"], rule lexes_getChar [OF Cons.prems(1)])
      (auto intro!: Cons lexes_mono [OF lexes_quiet(5)])
qed (simp add: lexes_ok)

lemma skipBom_lexes: "lexOk s \<Longrightarrow> lexes skipBom s (\<lambda>_ _. True)"
proof -
  assume s: "lexOk s"
  obtain t where t: "getChar s = (Inr (nextChar s), t)" "current t = nextChar s" "justRead t"
      "remaining t = tl (remaining s)" "nextChar s = (case remaining s of [] \<Rightarrow> None | c # _ \<Rightarrow> Some c)"
    using getChar_run [OF s] by blast
  have get: "lexOk s \<Longrightarrow> lexes getChar s (\<lambda>_ _. True)" for s :: "'a lexer"
    by (rule lexes_getChar) auto
  have "lexes (andThen getChar (\<lambda>d. if d \<noteq> Some (CHR 0xBB) then ok False
       else andThen getChar (\<lambda>e. ok (e = Some (CHR 0xBF))))) t (\<lambda>_ _. True)"
    by (auto intro!: lexes_bind [OF get] lexes_ok justRead_ok t(3))
  then show ?thesis
    using t ungetChar_run [OF t(3)]
    by (cases "remaining s") (auto simp: lexes_def skipBom_def run_simps)
qed

text \<open>White space is skipped, and one character more is read.\<close>

lemma skipWhitespace_lexes:
  "lexOk s \<Longrightarrow> length (remaining s) < n \<Longrightarrow>
     lexes (skipWhitespace n) s (\<lambda>_ t. justRead t \<and> (current t \<noteq> None \<longrightarrow> length (remaining t) < length (remaining s)))"
proof (induction n arbitrary: s)
  case (Suc n)
  show ?case
    unfolding skipWhitespace.simps
  proof (rule lexes_bind [where R = "\<lambda>c t. justRead t \<and> current t = c \<and>
      (case c of None \<Rightarrow> True | Some x \<Rightarrow> remaining s = x # remaining t)"], rule lexes_getChar [OF Suc.prems(1)])
    fix c :: "char option" and t :: "'a lexer"
    assume t: "lexOk t" "justRead t \<and> current t = c \<and> (case c of None \<Rightarrow> True | Some x \<Rightarrow> remaining s = x # remaining t)"
    show "lexes (if isBlank c then skipWhitespace n else ok ()) t
        (\<lambda>_ t. justRead t \<and> (current t \<noteq> None \<longrightarrow> length (remaining t) < length (remaining s)))"
    proof (cases "isBlank c")
      case True
      then obtain x where "c = Some x" by (auto simp: isBlank_def)
      with t(2) have "remaining s = x # remaining t" by simp
      with Suc.IH [OF t(1)] Suc.prems(2) True show ?thesis by (auto intro: lexes_mono)
    next
      case False
      with t show ?thesis by (auto intro!: lexes_ok split: option.splits)
    qed
  qed auto
qed simp


section \<open>Comments and tokens\<close>

lemma lineComment_lexes: "lexOk s \<Longrightarrow> length (remaining s) < n \<Longrightarrow> lexes (lineComment n) s (\<lambda>_ _. True)"
proof (induction n arbitrary: s)
  case (Suc n)
  show ?case
    unfolding lineComment.simps
  proof (rule lexes_bind [where R = "\<lambda>c t. c \<noteq> None \<longrightarrow> length (remaining t) < length (remaining s)"],
      rule lexes_getChar [OF Suc.prems(1)])
    fix c :: "char option" and t :: "'a lexer"
    assume "lexOk t" "c \<noteq> None \<longrightarrow> length (remaining t) < length (remaining s)"
    with Suc show "lexes (if c \<in> {Some (CHR 0x0A), Some (CHR 0x0D), None, Some (CHR 0x00)} then ok True else lineComment n) t
        (\<lambda>_ _. True)"
      by (auto intro!: lexes_ok)
  qed auto
qed simp

lemma blockComment_lexes: "lexOk s \<Longrightarrow> length (remaining s) < n \<Longrightarrow> lexes (blockComment n) s (\<lambda>_ _. True)"
proof (induction n arbitrary: s)
  case (Suc n)
  have star: "lexes (andThen getChar (\<lambda>d. if d = Some (CHR ''/'') then ok True
      else andThen ungetChar (\<lambda>_. blockComment n))) t (\<lambda>_ _. True)"
    if t: "lexOk t" "length (remaining t) < n" for t :: "'a lexer"
  proof -
    obtain u where u: "getChar t = (Inr (nextChar t), u)" "current u = nextChar t" "justRead u"
        "remaining u = tl (remaining t)" "nextChar t = (case remaining t of [] \<Rightarrow> None | c # _ \<Rightarrow> Some c)"
      using getChar_run [OF t(1)] by blast
    note put = ungetChar_run [OF u(3)]
    have "length (remaining (snd (ungetChar u))) = length (remaining t)"
      using put u by (cases "remaining t") auto
    moreover from this have "lexes (blockComment n) (snd (ungetChar u)) (\<lambda>_ _. True)"
      using put t(2) by (intro Suc.IH) simp_all
    ultimately show ?thesis
      using u put justRead_ok [OF u(3)] by (auto simp: lexes_def run_simps)
  qed
  show ?case
    unfolding blockComment.simps
  proof (rule lexes_bind [where R = "\<lambda>c t. c \<noteq> None \<longrightarrow> length (remaining t) < length (remaining s)"],
      rule lexes_getChar [OF Suc.prems(1)])
    fix c :: "char option" and t :: "'a lexer"
    assume t: "lexOk t" "c \<noteq> None \<longrightarrow> length (remaining t) < length (remaining s)"
    have "c \<noteq> None \<Longrightarrow> length (remaining t) < n" using t Suc.prems(2) by linarith
    with t Suc.IH star show "lexes (if c = None \<or> c = Some (CHR 0x00) then
        andThen (setError (''invalid comment; missing closing '' @ [CHR 0x27] @ ''*/'' @ [CHR 0x27])) (\<lambda>_. ok False)
      else if c = Some (CHR ''*'') then
        andThen getChar (\<lambda>d. if d = Some (CHR ''/'') then ok True else andThen ungetChar (\<lambda>_. blockComment n))
      else blockComment n) t (\<lambda>_ _. True)"
      by (auto intro!: lexes_bind [OF lexes_quiet(4)] lexes_ok)
  qed auto
qed simp

lemma scanComment_lexes: "lexOk s \<Longrightarrow> length (remaining s) < n \<Longrightarrow> lexes (scanComment n) s (\<lambda>_ _. True)"
  unfolding scanComment_def
  by (rule lexes_bind [where R = "\<lambda>c t. True"], rule lexes_getChar)
    (auto intro!: lineComment_lexes blockComment_lexes lexes_bind [OF lexes_quiet(4)] lexes_ok)

text \<open>Where the lexer stands before it looks at the current character: one character has been taken of the \<open>k\<close>
  that were left, unless the input has ended.\<close>

definition atChar :: "nat \<Rightarrow> 'f lexer \<Rightarrow> bool" where
  "atChar k s \<longleftrightarrow> justRead s \<and> (current s \<noteq> None \<longrightarrow> length (remaining s) < k)"

lemma skipWhitespace_at:
  "lexOk s \<Longrightarrow> length (remaining s) < n \<Longrightarrow> lexes (skipWhitespace n) s (\<lambda>_. atChar (length (remaining s)))"
  using skipWhitespace_lexes [of s n] by (simp add: atChar_def [abs_def])

lemma atChar_mono: "atChar k s \<Longrightarrow> k \<le> l \<Longrightarrow> atChar l s"
  by (auto simp: atChar_def)

lemma skipComments_lexes:
  "atChar m s \<Longrightarrow> (current s \<noteq> None \<longrightarrow> Suc (length (remaining s)) < k) \<Longrightarrow> 0 < k \<Longrightarrow> length (remaining s) < n \<Longrightarrow>
     lexes (skipComments k n cf) s (\<lambda>b t. b \<longrightarrow> atChar m t)"
proof (induction k arbitrary: s)
  case (Suc k)
  have s: "lexOk s" using Suc.prems(1) by (simp add: atChar_def justRead_ok)
  show ?case
  proof (cases "ignore_comments cf \<and> current s = Some (CHR ''/'')")
    case False
    with s Suc.prems(1) show ?thesis by (auto simp: lexes_def run_simps)
  next
    case True
    then have less: "length (remaining s) < m" "length (remaining s) < k" using Suc.prems by (simp_all add: atChar_def)
    have "lexes (andThen (scanComment n) (\<lambda>b. if \<not> b then ok False else
        andThen (skipWhitespace n) (\<lambda>_. skipComments k n cf))) s (\<lambda>b t. b \<longrightarrow> atChar m t)"
    proof (rule lexes_bind [OF scanComment_lexes [OF s Suc.prems(4)]])
      fix b and t :: "'a lexer" assume t: "lexOk t" "length (remaining t) \<le> length (remaining s)"
      have "lexes (skipComments k n cf) u (\<lambda>b t. b \<longrightarrow> atChar m t)"
        if u: "atChar (length (remaining t)) u" "length (remaining u) \<le> length (remaining t)" for u
        using u t(2) less Suc.prems(4) by (intro Suc.IH) (auto simp: atChar_def)
      then show "lexes (if \<not> b then ok False else andThen (skipWhitespace n) (\<lambda>_. skipComments k n cf)) t
          (\<lambda>b t. b \<longrightarrow> atChar m t)"
        using t Suc.prems(4) by (auto intro!: lexes_ok lexes_bind [OF skipWhitespace_at])
    qed
    with True show ?thesis by (simp add: lexes_def run_simps)
  qed
qed simp


lemma scanCurrent_lexes:
  assumes "atChar m s" "length (remaining s) < n"
  shows "lexes (scanCurrent n cf) s (\<lambda>x t. x \<noteq> TEndOfInput \<longrightarrow> length (remaining t) < m)"
proof (cases "current s")
  case None
  with assms show ?thesis by (simp add: lexes_def scanCurrent_def run_simps atChar_def justRead_ok)
next
  case (Some c)
  have s: "lexOk s" "length (remaining s) < m" using assms(1) Some by (simp_all add: atChar_def justRead_ok)
  have "lexes (scanChar n cf c) s (\<lambda>_ _. True)"
    unfolding scanChar_def
    by (intro lexes_if lexes_ok s(1) TrueI scanString_lexes assms(2) lexes_any [OF scanLiteral_lexes [OF s(1)]]
        lexes_any [OF scanNumber_lexes [OF s(1) assms(2)]] lexes_any [OF lexes_quiet(5) [OF s(1)]]) simp_all
  with Some s(2) show ?thesis by (auto simp: lexes_def scanCurrent_def run_simps)
qed

text \<open>The next token: it has been taken from the input unless there is none.\<close>

lemma scanToken_lexes:
  assumes "lexOk s" "length (remaining s) < n"
  shows "lexes (scanToken n cf) s (\<lambda>x t. x \<noteq> TEndOfInput \<and> x \<noteq> TParseError \<longrightarrow> length (remaining t) < length (remaining s))"
proof -
  let ?Q = "\<lambda>x t. x \<noteq> TEndOfInput \<and> x \<noteq> TParseError \<longrightarrow> length (remaining t) < length (remaining s)"
  have tail: "lexes (andThen (skipComments n n cf) (\<lambda>b. if \<not> b then ok TParseError else scanCurrent n cf)) u ?Q"
    if u: "atChar (length (remaining s)) u" "length (remaining u) \<le> length (remaining s)" for u
  proof (rule lexes_bind [OF skipComments_lexes [OF u(1)]])
    show "current u \<noteq> None \<longrightarrow> Suc (length (remaining u)) < n" "0 < n" "length (remaining u) < n"
      using u assms(2) by (auto simp: atChar_def)
    fix b and v :: "'a lexer" assume "lexOk v" "length (remaining v) \<le> length (remaining u)" "b \<longrightarrow> atChar (length (remaining s)) v"
    with u(2) assms(2) show "lexes (if \<not> b then ok TParseError else scanCurrent n cf) v ?Q"
      by (auto intro!: lexes_ok lexes_mono [OF scanCurrent_lexes])
  qed
  have "lexes (andThen (skipWhitespace n) (\<lambda>_. andThen (skipComments n n cf)
      (\<lambda>b. if \<not> b then ok TParseError else scanCurrent n cf))) t ?Q"
    if t: "lexOk t" "length (remaining t) \<le> length (remaining s)" for t
    using t assms(2) by (auto intro!: lexes_bind [OF skipWhitespace_at] tail elim: atChar_mono)
  then have "lexes (andThen (if chars_read_total (lexPos s) = 0 then skipBom else ok True) (\<lambda>bom.
     if \<not> bom then failWith ''invalid BOM; must be 0xEF 0xBB 0xBF if given''
     else andThen (skipWhitespace n) (\<lambda>_. andThen (skipComments n n cf) (\<lambda>b.
       if \<not> b then ok TParseError else scanCurrent n cf)))) s ?Q"
    using assms(1)
    by (intro lexes_bind [where R = "\<lambda>_ _. True"])
      (auto intro: skipBom_lexes lexes_ok intro!: lexes_mono [OF lexes_quiet(5)])
  then show ?thesis by (simp add: lexes_def scanToken_def run_simps)
qed


section \<open>The parser\<close>

text \<open>\<open>parses m s Q\<close>: the program returns with \<open>Q\<close>, or it throws an exception of the library.\<close>

definition parses :: "('f, 'a) parseProg \<Rightarrow> 'f parser \<Rightarrow> ('a \<Rightarrow> 'f parser \<Rightarrow> bool) \<Rightarrow> bool" where
  "parses m s Q \<longleftrightarrow> (case m s of (Inr x, t) \<Rightarrow> Q x t | (Inl e, t) \<Rightarrow> (\<exists>i w. e = JsonException i w))"

lemma parses_bind:
  assumes "parses m s R" "\<And>x t. R x t \<Longrightarrow> parses (f x) t Q"
  shows "parses (andThen m f) s Q"
proof (cases "m s")
  case (Pair r t)
  with assms show ?thesis by (cases r) (auto simp: parses_def andThen_def)
qed

lemma parses_ok: "Q x s \<Longrightarrow> parses (ok x) s Q"
  by (simp add: parses_def run_simps)

lemma parses_mono: "parses m s R \<Longrightarrow> (\<And>x t. R x t \<Longrightarrow> Q x t) \<Longrightarrow> parses m s Q"
  by (auto simp: parses_def split: prod.splits sum.splits)

lemma parses_getState: "parses (f s) s Q \<Longrightarrow> parses (andThen getState f) s Q"
  by (simp add: parses_def run_simps)

lemma parses_if: "(b \<Longrightarrow> parses p s Q) \<Longrightarrow> (\<not> b \<Longrightarrow> parses q s Q) \<Longrightarrow> parses (if b then p else q) s Q"
  by simp

abbreviation left :: "'f parser \<Rightarrow> nat" where
  "left s \<equiv> length (remaining (m_lexer s))"

definition readOk :: "nat \<Rightarrow> 'f parser \<Rightarrow> bool" where
  "readOk m s \<longleftrightarrow> lexOk (m_lexer s) \<and> left s \<le> m"

lemma readOk_same: "m_lexer t = m_lexer s \<Longrightarrow> readOk m t = readOk m s"
  by (simp add: readOk_def)

definition live :: "token_type \<Rightarrow> bool" where
  "live t \<longleftrightarrow> t \<noteq> TEndOfInput \<and> t \<noteq> TParseError"

lemma live_simps [simp]:
  "live TValueString" "live TValueSeparator" "live TNameSeparator" "live TEndArray" "live TEndObject" "live TBeginArray"
  "live TBeginObject" "\<not> live TEndOfInput" "\<not> live TParseError"
  by (simp_all add: live_def)

text \<open>A live token costs a character.\<close>

definition tokenFrom :: "nat \<Rightarrow> 'f domParser \<Rightarrow> token_type \<Rightarrow> 'f parser \<Rightarrow> bool" where
  "tokenFrom m d t s \<longleftrightarrow> lexOk (m_lexer s) \<and> sax s = d \<and> last_token s = t \<and> (if live t then left s < m else left s \<le> m)"

lemma getToken_parses:
  assumes "readOk m s" "m < n"
  shows "parses (getToken n cf) s (tokenFrom m (sax s))"
proof -
  have "lexes (scanToken n (lexing cf)) (m_lexer s) (\<lambda>x t. live x \<longrightarrow> length (remaining t) < left s)"
    unfolding live_def using assms by (intro scanToken_lexes) (simp_all add: readOk_def)
  then obtain x t where t: "scanToken n (lexing cf) (m_lexer s) = (Inr x, t)" "lexOk t"
      "length (remaining t) \<le> left s" "live x \<longrightarrow> length (remaining t) < left s"
    by (auto simp: lexes_def)
  then show ?thesis
    using assms by (auto simp: parses_def getToken_def onLexer_def run_simps tokenFrom_def readOk_def)
qed

lemma tokenFrom_read: "tokenFrom m d t s \<Longrightarrow> readOk (if live t then m - 1 else m) s"
  by (auto simp: tokenFrom_def readOk_def split: if_splits)

lemma tokenFrom_le: "tokenFrom m d t s \<Longrightarrow> readOk m s"
  by (auto simp: tokenFrom_def readOk_def split: if_splits)

lemma orReturn_parses:
  assumes "onDom m (sax s) Q" "\<And>d. Q d \<Longrightarrow> parses p (s\<lparr>sax := d\<rparr>) R"
  shows "parses (orReturn (onSax m) p) s R"
proof -
  obtain e where e: "m (sax s) = (Inr True, e)" "Q e" using assms(1) by (auto simp: onDom_def)
  from e(1) have "orReturn (onSax m) p s = p (s\<lparr>sax := e\<rparr>)" by (simp add: orReturn_def onSax_def run_simps)
  with assms(2) [OF e(2)] show ?thesis by (simp add: parses_def)
qed

text \<open>How a round of the loop ends. \<open>weight\<close> is the measure of the loop.\<close>

definition weight :: "bool \<Rightarrow> 'f parser \<Rightarrow> nat" where
  "weight skip s = left s + (if \<not> skip \<and> live (last_token s) then 1 else 0)"

definition atHead :: "bool list \<Rightarrow> bool \<Rightarrow> 'f parser \<Rightarrow> bool" where
  "atHead states skip s \<longleftrightarrow> domOk states (sax s) \<and> (skip \<or> awaitsValue states (sax s))"

definition roundOk :: "('f domParser \<Rightarrow> bool) \<Rightarrow> nat \<Rightarrow> nat \<Rightarrow> saxStep \<Rightarrow> 'f parser \<Rightarrow> bool" where
  "roundOk P m w r s \<longleftrightarrow> readOk m s \<and> (case r of
       Return _ \<Rightarrow> True
     | ValueDone \<Rightarrow> P (sax s)
     | Continue states' skip \<Rightarrow> atHead states' skip s \<and> weight skip s < w)"

lemma saxError_parses:
  "readOk m s \<Longrightarrow> parses (returning (saxError cf (JsonException i w))) s (roundOk P m k)"
  by (auto simp: parses_def returning_def saxError_def onSax_def run_simps roundOk_def readOk_def)

lemma syntaxError_parses: "readOk m s \<Longrightarrow> parses (returning (syntaxError cf t ctx)) s (roundOk P m k)"
proof -
  assume "readOk m s"
  from saxError_parses [OF this, of cf 101] show ?thesis
    by (simp add: returning_def syntaxError_def parseError_def parses_def run_simps andThen_assoc)
qed

lemma scalarStep_parses:
  "readOk m s \<Longrightarrow> atHead states False s \<Longrightarrow> parses (scalarStep f) s (roundOk (domOk states) m k)"
  unfolding scalarStep_def
  by (intro parses_getState orReturn_parses [OF saxValue_dom] parses_ok) (auto simp: atHead_def roundOk_def readOk_def)

lemma floatStep_parses:
  "readOk m s \<Longrightarrow> atHead states False s \<Longrightarrow> parses (floatStep cf) s (roundOk (domOk states) m k)"
  unfolding floatStep_def outOfRange_def
  by (intro parses_getState parses_if saxError_parses scalarStep_parses)

text \<open>After a key and its colon the parser stands before the value.\<close>

lemma parseKey_parses:
  assumes s: "tokenFrom m d t s" "domOk (False # outer) (sax s)" "m < n" "m \<le> w"
  shows "parses (parseKey n cf t (andThen (getToken n cf) (\<lambda>_. ok (Continue (False # outer) False)))) s
    (roundOk P m w)"
  unfolding parseKey_def
proof (intro parses_if syntaxError_parses tokenFrom_le [OF s(1)] parses_getState orReturn_parses [OF saxKey_dom [OF s(2)]],
    elim conjE)
  fix d' :: "'a domParser" assume t: "\<not> t \<noteq> TValueString" and d': "domOk (False # outer) d'" "awaitsValue (False # outer) d'"
  have "readOk (m - 1) (s\<lparr>sax := d'\<rparr>)" "0 < m" using s(1) t by (auto simp: tokenFrom_def readOk_def)
  then show "parses (andThen (getToken n cf) (\<lambda>t. if t \<noteq> TNameSeparator then returning (syntaxError cf TNameSeparator ''object separator'')
      else andThen (getToken n cf) (\<lambda>_. ok (Continue (False # outer) False)))) (s\<lparr>sax := d'\<rparr>) (roundOk P m w)"
  proof (intro parses_bind [OF getToken_parses [where m = "m - 1"]])
    fix t' and u :: "'a parser" assume u: "tokenFrom (m - 1) (sax (s\<lparr>sax := d'\<rparr>)) t' u"
    then have m: "readOk m u" by (auto simp: tokenFrom_def readOk_def split: if_splits)
    have "parses (andThen (getToken n cf) (\<lambda>_. ok (Continue (False # outer) False))) u (roundOk P m w)"
      if "t' = TNameSeparator"
    proof -
      have "readOk (m - 2) u" "2 \<le> m" "sax u = d'" using u \<open>0 < m\<close> that by (auto simp: tokenFrom_def readOk_def)
      then show ?thesis
        using s(3,4) d'
        by (intro parses_bind [OF getToken_parses [where m = "m - 2"]] parses_ok)
          (auto simp: tokenFrom_def readOk_def roundOk_def atHead_def weight_def split: if_splits)
    qed
    then show "parses (if t' \<noteq> TNameSeparator then returning (syntaxError cf TNameSeparator ''object separator'')
      else andThen (getToken n cf) (\<lambda>_. ok (Continue (False # outer) False))) u (roundOk P m w)"
      using syntaxError_parses [OF m] by simp
  qed (use s(3) in auto)
qed

lemma saxEnd_parses:
  assumes "domOk (b # outer) (sax s)" "\<And>d. domOk outer d \<Longrightarrow> Q r (s\<lparr>sax := d\<rparr>)"
  shows "parses (orReturn (onSax saxEnd) (ok r)) s Q"
proof (rule orReturn_parses [OF saxEnd_dom [OF assms(1)]])
  fix d :: "'a domParser" assume "domOk outer d"
  then show "parses (ok r) (s\<lparr>sax := d\<rparr>) Q" by (intro parses_ok assms(2))
qed

lemma valueStep_parses:
  assumes s: "readOk m s" "atHead states False s" "m < n"
  shows "parses (valueStep n cf states) s (roundOk (domOk states) m (m + (if live (last_token s) then 1 else 0)))"
    (is "parses _ s ?Q")
proof -
  have val: "domOk states (sax s)" "awaitsValue states (sax s)" using s(2) by (auto simp: atHead_def)
  have obj: "parses (orReturn (onSax (saxStart (JObject [])))
      (andThen (getToken n cf) (\<lambda>t.
         if t = TEndObject then orReturn (onSax saxEnd) (ok ValueDone)
         else parseKey n cf t (andThen (getToken n cf) (\<lambda>_. ok (Continue (False # states) False)))))) s
      (roundOk (domOk states) m k)" if "m < k" for k
  proof (rule orReturn_parses [OF saxStart_dom [OF val, of False]])
    fix d :: "'a domParser" assume d: "domOk (False # states) d"
    show "parses (andThen (getToken n cf) (\<lambda>t.
         if t = TEndObject then orReturn (onSax saxEnd) (ok ValueDone)
         else parseKey n cf t (andThen (getToken n cf) (\<lambda>_. ok (Continue (False # states) False)))))
      (s\<lparr>sax := d\<rparr>) (roundOk (domOk states) m k)"
    proof (rule parses_bind [OF getToken_parses [where m = m]])
      fix t and u :: "'a parser" assume u: "tokenFrom m (sax (s\<lparr>sax := d\<rparr>)) t u"
      then have "domOk (False # states) (sax u)" using d by (simp add: tokenFrom_def)
      from parseKey_parses [OF u this s(3) less_imp_le [OF that]]
      have key: "parses (parseKey n cf t (andThen (getToken n cf) (\<lambda>_. ok (Continue (False # states) False)))) u
          (roundOk (domOk states) m k)" by (simp add: roundOk_def)
      have "parses (orReturn (onSax saxEnd) (ok ValueDone)) u (roundOk (domOk states) m k)"
        using \<open>domOk _ (sax u)\<close> tokenFrom_le [OF u] by (intro saxEnd_parses) (simp_all add: roundOk_def readOk_def)
      with key show "parses (if t = TEndObject then orReturn (onSax saxEnd) (ok ValueDone)
         else parseKey n cf t (andThen (getToken n cf) (\<lambda>_. ok (Continue (False # states) False)))) u (roundOk (domOk states) m k)"
        by simp
    qed (use s in \<open>auto simp: readOk_def\<close>)
  qed (simp add: shape_def)
  have arr: "parses (orReturn (onSax (saxStart (JArray [])))
      (andThen (getToken n cf) (\<lambda>t.
         if t = TEndArray then orReturn (onSax saxEnd) (ok ValueDone)
         else ok (Continue (True # states) False)))) s (roundOk (domOk states) m k)" if "m < k" for k
  proof (rule orReturn_parses [OF saxStart_dom [OF val, of True]])
    fix d :: "'a domParser" assume d: "domOk (True # states) d"
    show "parses (andThen (getToken n cf) (\<lambda>t.
         if t = TEndArray then orReturn (onSax saxEnd) (ok ValueDone)
         else ok (Continue (True # states) False))) (s\<lparr>sax := d\<rparr>) (roundOk (domOk states) m k)"
    proof (rule parses_bind [OF getToken_parses [where m = m]])
      fix t and u :: "'a parser" assume u: "tokenFrom m (sax (s\<lparr>sax := d\<rparr>)) t u"
      then have dom: "domOk (True # states) (sax u)" using d by (simp add: tokenFrom_def)
      have "parses (orReturn (onSax saxEnd) (ok ValueDone)) u (roundOk (domOk states) m k)"
        using dom tokenFrom_le [OF u] by (intro saxEnd_parses) (simp_all add: roundOk_def readOk_def)
      moreover have "parses (ok (Continue (True # states) False)) u (roundOk (domOk states) m k)"
        using u that dom
        by (intro parses_ok) (auto simp: roundOk_def atHead_def awaitsValue_def weight_def tokenFrom_def readOk_def
          split: if_splits)
      ultimately show "parses (if t = TEndArray then orReturn (onSax saxEnd) (ok ValueDone)
         else ok (Continue (True # states) False)) u (roundOk (domOk states) m k)"
        by simp
    qed (use s in \<open>auto simp: readOk_def\<close>)
  qed (simp add: shape_def)
  show ?thesis
    unfolding valueStep_def
    by (rule parses_getState, cases "last_token s")
      (simp_all add: obj arr floatStep_parses [OF s(1,2)] scalarStep_parses [OF s(1,2)] syntaxError_parses [OF s(1)])
qed

lemma stateStep_parses:
  assumes s: "readOk m s" "domOk states (sax s)" "m < n"
  shows "parses (stateStep n cf states) s (roundOk (\<lambda>_. False) m m)"
proof (cases states)
  case Nil
  with s show ?thesis by (simp add: stateStep_def parses_ok roundOk_def)
next
  case (Cons b outer)
  have sep: "parses (andThen (getToken n cf) (\<lambda>_. ok (Continue (b # outer) False))) u (roundOk (\<lambda>_. False) m m)"
    if "b" "tokenFrom m (sax s) TValueSeparator u" for u :: "'a parser"
    using that s(2,3) Cons
    by (intro parses_bind [OF getToken_parses [where m = "m - 1"]] parses_ok)
      (auto simp: tokenFrom_def readOk_def roundOk_def atHead_def awaitsValue_def weight_def split: if_splits)
  have key: "parses (andThen (getToken n cf) (\<lambda>t.
        parseKey n cf t (andThen (getToken n cf) (\<lambda>_. ok (Continue (b # outer) False))))) u (roundOk (\<lambda>_. False) m m)"
    if u: "\<not> b" "tokenFrom m (sax s) TValueSeparator u" for u :: "'a parser"
  proof (rule parses_bind [OF getToken_parses [where m = "m - 1"]])
    fix t and v :: "'a parser" assume "tokenFrom (m - 1) (sax u) t v"
    then have v: "tokenFrom (m - 1) (sax s) t v" "domOk (False # outer) (sax v)"
      using u s(2) Cons by (simp_all add: tokenFrom_def)
    then have "parses (parseKey n cf t (andThen (getToken n cf) (\<lambda>_. ok (Continue (False # outer) False)))) v
        (roundOk (\<lambda>_. False) (m - 1) m)"
      using u(1) s(3) Cons by (simp add: parseKey_parses)
    then show "parses (parseKey n cf t (andThen (getToken n cf) (\<lambda>_. ok (Continue (b # outer) False)))) v
        (roundOk (\<lambda>_. False) m m)"
      using u(1) by (auto elim!: parses_mono simp: roundOk_def readOk_def)
  qed (use u s in \<open>auto simp: tokenFrom_def readOk_def\<close>)
  have stop: "parses (orReturn (onSax saxEnd) (ok (Continue outer True))) u (roundOk (\<lambda>_. False) m m)"
    if "tokenFrom m (sax s) t u" "live t" for u :: "'a parser" and t
    using that s(2) Cons
    by (intro saxEnd_parses [where b = b and outer = outer])
      (auto simp: tokenFrom_def roundOk_def readOk_def atHead_def weight_def)
  show ?thesis
  proof (cases b)
    case True
    show ?thesis
      unfolding stateStep_def Cons using True
      by (simp, intro parses_bind [OF getToken_parses [OF s(1,3)]] parses_if syntaxError_parses)
        (use sep stop in \<open>auto dest: tokenFrom_le\<close>)
  next
    case False
    show ?thesis
      unfolding stateStep_def Cons using False
      by (simp, intro parses_bind [OF getToken_parses [OF s(1,3)]] parses_if syntaxError_parses)
        (use key stop in \<open>auto dest: tokenFrom_le\<close>)
  qed
qed

text \<open>A round of the loop.\<close>

lemma loopStep_parses:
  assumes s: "readOk m s" "atHead states skip s" "m < n"
  shows "parses (loopStep n cf states skip) s
    (roundOk (\<lambda>_. False) m (m + (if \<not> skip \<and> live (last_token s) then 1 else 0)))" (is "parses _ s ?Q")
proof -
  have state: "parses (stateStep n cf states) u ?Q" if "readOk m u" "domOk states (sax u)" for u :: "'a parser"
    using stateStep_parses [OF that s(3)] by (rule parses_mono) (auto simp: roundOk_def split: saxStep.splits)
  have rest: "parses (case r of ValueDone \<Rightarrow> stateStep n cf states | _ \<Rightarrow> ok r) u ?Q"
    if "roundOk (domOk states) m (m + (if \<not> skip \<and> live (last_token s) then 1 else 0)) r u" for r and u :: "'a parser"
    using that by (cases r) (simp_all add: roundOk_def parses_ok state del: if_split)
  show ?thesis
    unfolding loopStep_def
  proof (rule parses_bind)
    show "parses (if skip then ok ValueDone else valueStep n cf states) s
        (roundOk (domOk states) m (m + (if \<not> skip \<and> live (last_token s) then 1 else 0)))"
      using s valueStep_parses [of m s states n cf] by (auto simp: roundOk_def atHead_def intro: parses_ok)
  qed (rule rest)
qed

lemma saxParseInternal_parses:
  "readOk m s \<Longrightarrow> atHead states skip s \<Longrightarrow> m < n \<Longrightarrow> weight skip s < k \<Longrightarrow>
     parses (saxParseInternal k n cf states skip) s (\<lambda>_. readOk m)"
proof (induction k arbitrary: s states skip m)
  case (Suc k)
  define m' where "m' = left s"
  have s: "readOk m' s" "m' \<le> m" "m' < n" using Suc.prems by (auto simp: readOk_def m'_def)
  show ?case
    unfolding saxParseInternal.simps
  proof (rule parses_bind [OF loopStep_parses [OF s(1) Suc.prems(2) s(3)]])
    fix r and u :: "'a parser"
    assume r: "roundOk (\<lambda>_. False) m' (m' + (if \<not> skip \<and> live (last_token s) then 1 else 0)) r u"
    have less: "m' + (if \<not> skip \<and> live (last_token s) then 1 else 0) = weight skip s"
      by (simp add: weight_def m'_def)
    show "parses (case r of Return b \<Rightarrow> ok b | Continue states' skip' \<Rightarrow> saxParseInternal k n cf states' skip'
        | ValueDone \<Rightarrow> raise UB) u (\<lambda>_. readOk m)"
      using r s(2) Suc.prems unfolding less
      by (cases r) (auto simp: roundOk_def readOk_def intro!: parses_ok Suc.IH)
  qed
qed simp

lemma parserParse_parses:
  assumes s: "readOk m s" "sax s = newDom" "m + 1 < n"
  shows "parses (parserParse n cf strict) s (\<lambda>_ _. True)"
proof -
  have head: "atHead [] False s" using s(2) by (simp add: atHead_def domOk_def awaitsValue_def newDom_def)
  have err: "parses (syntaxError cf t ctx) u (\<lambda>_ _. True)" for t ctx and u :: "'a parser"
    by (auto simp: parses_def syntaxError_def saxError_def onSax_def parseError_def run_simps)
  have "parses (saxParseInternal n n cf [] False) s (\<lambda>_. readOk m)"
    using s(1,3) by (intro saxParseInternal_parses head) (auto simp: weight_def readOk_def)
  moreover have strict: "parses (if strict
      then andThen (getToken n cf) (\<lambda>t. if t \<noteq> TEndOfInput then syntaxError cf TEndOfInput ''value'' else ok True)
      else ok True) u (\<lambda>_ _. True)" if "readOk m u" for u :: "'a parser"
    using that s(3)
    by (intro parses_if parses_bind [OF getToken_parses [where m = m]]) (auto intro: parses_ok err)
  ultimately show ?thesis
    unfolding parserParse_def
    by (elim parses_bind) (intro parses_bind [OF strict] parses_getState parses_ok TrueI)
qed

lemma jsonParse_ends: "(\<exists>j. jsonParse cf src = Inr j) \<or> (\<exists>i w. jsonParse cf src = Inl (JsonException i w))"
proof -
  let ?n = "length src + 3" and ?s = "newParser (lexing cf) src"
  have s: "readOk (length src) ?s" "sax ?s = newDom"
    by (simp_all add: readOk_def newParser_def newLexer_def lexOk_def remaining_def)
  have "parses (andThen (getToken ?n cf) (\<lambda>_. parserParse ?n cf True)) ?s (\<lambda>_ _. True)"
  proof (rule parses_bind [OF getToken_parses [OF s(1)]])
    fix t and u :: "'a parser" assume u: "tokenFrom (length src) (sax ?s) t u"
    show "parses (parserParse ?n cf True) u (\<lambda>_ _. True)"
      using tokenFrom_le [OF u] u s(2) by (intro parserParse_parses) (auto simp: tokenFrom_def)
  qed simp
  then show ?thesis
    by (auto simp: jsonParse_def parses_def split: prod.splits sum.splits)
qed

text \<open>
  C8: whatever the bytes, the JSON parser comes to an end within the fuel of the model, and never does
  anything undefined: it returns a value or throws one of the library's own exceptions.
\<close>

theorem parse_total: "(\<exists>j. jsonParse cf src = Inr j) \<or> (\<exists>i w. jsonParse cf src = Inl (JsonException i w))"
  by (rule jsonParse_ends)

end
