(* ===== verification/JsonUtf8.thy ===== *)
theory JsonUtf8
  imports Json
begin

text \<open>
  The serializer accepts exactly the well-formed UTF-8. Well-formedness is the table of the Unicode standard: the
  first byte of a character fixes the ranges of the bytes that follow it. The automaton of the serializer
  (\<open>utf8d\<close>) is shown to follow that table.
\<close>

section \<open>Well-formed UTF-8\<close>

definition tailRanges :: "nat \<Rightarrow> (nat \<times> nat) list option" where
  "tailRanges b =
     (if b \<le> 0x7F then Some []
      else if 0xC2 \<le> b \<and> b \<le> 0xDF then Some [(0x80, 0xBF)]
      else if b = 0xE0 then Some [(0xA0, 0xBF), (0x80, 0xBF)]
      else if b = 0xED then Some [(0x80, 0x9F), (0x80, 0xBF)]
      else if 0xE1 \<le> b \<and> b \<le> 0xEF then Some [(0x80, 0xBF), (0x80, 0xBF)]
      else if b = 0xF0 then Some [(0x90, 0xBF), (0x80, 0xBF), (0x80, 0xBF)]
      else if 0xF1 \<le> b \<and> b \<le> 0xF3 then Some [(0x80, 0xBF), (0x80, 0xBF), (0x80, 0xBF)]
      else if b = 0xF4 then Some [(0x80, 0x8F), (0x80, 0xBF), (0x80, 0xBF)]
      else None)"

definition inRange :: "nat \<times> nat \<Rightarrow> nat \<Rightarrow> bool" where
  "inRange r b \<longleftrightarrow> fst r \<le> b \<and> b \<le> snd r"

text \<open>\<open>utf8Ok rs s\<close>: the text completes a character whose next bytes lie in \<open>rs\<close>, and more characters.\<close>

fun utf8Ok :: "(nat \<times> nat) list \<Rightarrow> string \<Rightarrow> bool" where
  "utf8Ok rs [] \<longleftrightarrow> rs = []"
| "utf8Ok [] (c # cs) \<longleftrightarrow> (case tailRanges (of_char c) of None \<Rightarrow> False | Some rs \<Rightarrow> utf8Ok rs cs)"
| "utf8Ok (r # rs) (c # cs) \<longleftrightarrow> inRange r (of_char c) \<and> utf8Ok rs cs"

abbreviation validUtf8 :: "string \<Rightarrow> bool" where
  "validUtf8 \<equiv> utf8Ok []"

lemma char_bound: "(of_char c :: nat) < 256"
  by simp

section \<open>The automaton\<close>

definition byteClass :: "nat \<Rightarrow> nat" where
  "byteClass b =
     (if b < 0x80 then 0 else if b < 0x90 then 1 else if b < 0xA0 then 9 else if b < 0xC0 then 7
      else if b < 0xC2 then 8 else if b < 0xE0 then 2 else if b = 0xE0 then 10 else if b = 0xED then 4
      else if b < 0xF0 then 3 else if b = 0xF0 then 11 else if b < 0xF4 then 6 else if b = 0xF4 then 5 else 8)"

definition transition :: "nat \<Rightarrow> nat \<Rightarrow> nat" where
  "transition st c =
     (if st = 0 then (if c < 12 then [0, 1, 2, 3, 5, 8, 7, 1, 1, 1, 4, 6] ! c else 1)
      else if st = 2 \<and> c \<in> {1, 7, 9} then 0
      else if st = 3 \<and> c \<in> {1, 7, 9} \<or> st = 4 \<and> c = 7 \<or> st = 5 \<and> c \<in> {1, 9} then 2
      else if st = 6 \<and> c \<in> {7, 9} \<or> st = 7 \<and> c \<in> {1, 7, 9} \<or> st = 8 \<and> c = 1 then 3
      else 1)"

lemma utf8d_table: "utf8d = map byteClass [0..<256] @ map (\<lambda>i. transition (i div 16) (i mod 16)) [0..<144]"
  by code_simp

lemma utf8d_class: "b < 256 \<Longrightarrow> utf8d ! b = byteClass b"
  by (simp add: utf8d_table nth_append)

lemma utf8d_transition: "st < 9 \<Longrightarrow> c < 16 \<Longrightarrow> utf8d ! (256 + st * 16 + c) = transition st c"
  by (simp add: utf8d_table nth_append)

lemma byteClass_bound: "byteClass b < 16"
  by (simp add: byteClass_def)

lemma decode_state: "st < 9 \<Longrightarrow> b < 256 \<Longrightarrow> fst (decode st cp b) = transition st (byteClass b)"
  by (simp add: decode_def Let_def utf8d_class utf8d_transition byteClass_bound)

text \<open>The bytes that each state waits for.\<close>

definition pending :: "nat \<Rightarrow> (nat \<times> nat) list" where
  "pending st =
     (if st = 2 then [(0x80, 0xBF)]
      else if st = 3 then [(0x80, 0xBF), (0x80, 0xBF)]
      else if st = 4 then [(0xA0, 0xBF), (0x80, 0xBF)]
      else if st = 5 then [(0x80, 0x9F), (0x80, 0xBF)]
      else if st = 6 then [(0x90, 0xBF), (0x80, 0xBF), (0x80, 0xBF)]
      else if st = 7 then [(0x80, 0xBF), (0x80, 0xBF), (0x80, 0xBF)]
      else if st = 8 then [(0x80, 0x8F), (0x80, 0xBF), (0x80, 0xBF)]
      else [])"

definition decoding :: "nat \<Rightarrow> bool" where
  "decoding st \<longleftrightarrow> st \<in> {0, 2, 3, 4, 5, 6, 7, 8}"

lemma transition_head:
  "b < 256 \<Longrightarrow> (case tailRanges b of None \<Rightarrow> transition 0 (byteClass b) = 1
     | Some rs \<Rightarrow> decoding (transition 0 (byteClass b)) \<and> pending (transition 0 (byteClass b)) = rs)"
  by (auto simp: tailRanges_def byteClass_def transition_def decoding_def pending_def)

lemma transition_tail:
  "decoding st \<Longrightarrow> b < 256 \<Longrightarrow> pending st = r # rs \<Longrightarrow>
     (if inRange r b then decoding (transition st (byteClass b)) \<and> pending (transition st (byteClass b)) = rs
      else transition st (byteClass b) = 1)"
proof -
  assume st: "decoding st" and b: "b < 256" and p: "pending st = r # rs"
  have 1: "byteClass b = Suc 0 \<longleftrightarrow> 0x80 \<le> b \<and> b < 0x90" by (simp add: byteClass_def)
  have 9: "byteClass b = 9 \<longleftrightarrow> 0x90 \<le> b \<and> b < 0xA0" by (simp add: byteClass_def)
  have 7: "byteClass b = 7 \<longleftrightarrow> 0xA0 \<le> b \<and> b < 0xC0" by (simp add: byteClass_def)
  from st have "st = 0 \<or> st = 2 \<or> st = 3 \<or> st = 4 \<or> st = 5 \<or> st = 6 \<or> st = 7 \<or> st = 8" by (simp add: decoding_def)
  then show ?thesis
    by (elim disjE; use p in \<open>auto simp: pending_def inRange_def transition_def decoding_def 1 7 9\<close>)
qed

lemma pending_Nil: "decoding st \<Longrightarrow> pending st = [] \<longleftrightarrow> st = 0"
  by (auto simp: decoding_def pending_def)

text \<open>The next state decides whether the text is still well-formed.\<close>

lemma utf8Ok_step:
  assumes "decoding st"
  shows "utf8Ok (pending st) (c # cs) \<longleftrightarrow> fst (decode st cp (of_char c)) \<noteq> 1 \<and> utf8Ok (pending (fst (decode st cp (of_char c)))) cs"
    and "fst (decode st cp (of_char c)) \<noteq> 1 \<Longrightarrow> decoding (fst (decode st cp (of_char c)))"
proof -
  have st: "st < 9" using assms by (auto simp: decoding_def)
  note d = decode_state [OF st nat_of_char_less_256, of cp c]
  show "utf8Ok (pending st) (c # cs) \<longleftrightarrow> fst (decode st cp (of_char c)) \<noteq> 1 \<and> utf8Ok (pending (fst (decode st cp (of_char c)))) cs"
  proof (cases "pending st")
    case Nil
    then have "st = 0" using assms by (simp add: pending_Nil)
    with Nil transition_head [of "of_char c"] d show ?thesis
      by (cases "tailRanges (of_char c)") (auto simp: decoding_def)
  next
    case (Cons r rs)
    with transition_tail [OF assms _ Cons, of "of_char c"] d show ?thesis by (auto simp: decoding_def split: if_splits)
  qed
  show "fst (decode st cp (of_char c)) \<noteq> 1 \<Longrightarrow> decoding (fst (decode st cp (of_char c)))"
  proof (cases "pending st")
    case Nil
    then have "st = 0" using assms by (simp add: pending_Nil)
    with transition_head [of "of_char c"] d show "fst (decode st cp (of_char c)) \<noteq> 1 \<Longrightarrow> ?thesis"
      by (cases "tailRanges (of_char c)") auto
  next
    case (Cons r rs)
    with transition_tail [OF assms _ Cons, of "of_char c"] d
    show "fst (decode st cp (of_char c)) \<noteq> 1 \<Longrightarrow> ?thesis" by (auto split: if_splits)
  qed
qed

section \<open>Code points\<close>

text \<open>What is known of the code point in each state: enough to see that a character of several bytes is not one of
  those that are escaped.\<close>

definition pointMin :: "nat \<Rightarrow> int" where
  "pointMin st = (if st = 2 then 2 else if st = 4 \<or> st = 6 then 0 else 1)"

definition pointMax :: "nat \<Rightarrow> int" where
  "pointMax st = (if st = 2 then 2 ^ 20 else if st = 3 \<or> st = 4 \<or> st = 5 then 2 ^ 14 else 2 ^ 8)"

definition pointOk :: "nat \<Rightarrow> 32 word \<Rightarrow> bool" where
  "pointOk st cp \<longleftrightarrow> (st \<noteq> 0 \<longrightarrow> pointMin st \<le> uint cp \<and> uint cp < pointMax st)"

lemma decode_tail:
  assumes "st \<noteq> 0" "uint cp < 2 ^ 20"
  shows "uint (snd (decode st cp b)) = int b mod 64 + 64 * uint cp"
proof -
  have "uint (word_of_nat b AND 0x3F :: 32 word) = take_bit 6 (int b)"
  proof -
    have "(0x3F :: 32 word) = mask 6" by (simp add: mask_eq_exp_minus_1)
    then have "word_of_nat b AND 0x3F = take_bit 6 (word_of_nat b :: 32 word)" by (simp add: take_bit_eq_mask)
    then show ?thesis by (simp add: unsigned_take_bit_eq unsigned_of_nat take_bit_of_nat)
  qed
  moreover have "uint (push_bit 6 cp) = push_bit 6 (uint cp)"
  proof -
    have "push_bit 6 (uint cp) < 2 ^ 32" using assms(2) by (simp add: push_bit_eq_mult)
    then have "take_bit 32 (push_bit 6 (uint cp)) = push_bit 6 (uint cp)"
      by (intro take_bit_int_eq_self) (simp_all add: push_bit_eq_mult)
    then show ?thesis by (simp add: unsigned_push_bit_eq)
  qed
  ultimately have "uint (snd (decode st cp b)) = concat_bit 6 (int b) (uint cp)"
    using assms(1) by (simp add: decode_def Let_def uint_or concat_bit_def)
  then show ?thesis by (simp add: concat_bit_eq take_bit_eq_mod push_bit_eq_mult)
qed

definition firstPoint :: "nat \<Rightarrow> 32 word" where
  "firstPoint b = drop_bit (byteClass b) 0xFF AND word_of_nat b"

definition firstOk :: "nat \<Rightarrow> bool" where
  "firstOk b \<longleftrightarrow> (let w = uint (firstPoint b); st = transition 0 (byteClass b) in
     if st = 0 then w = int b else st = 1 \<or> pointMin st \<le> w \<and> w < 2 ^ 8)"

lemma firstOk_all: "list_all firstOk [0..<256]"
  by code_simp

lemma firstPoint:
  assumes "b < 256" "st = transition 0 (byteClass b)" "st \<noteq> 1"
  shows "pointOk st (firstPoint b)" "st = 0 \<Longrightarrow> uint (firstPoint b) = int b"
proof -
  have "firstOk b" using firstOk_all assms(1) by (simp add: list_all_iff)
  with assms(2,3) show "pointOk st (firstPoint b)" "st = 0 \<Longrightarrow> uint (firstPoint b) = int b"
    by (auto simp: firstOk_def Let_def pointOk_def pointMax_def)
qed

lemma decode_head: "b < 256 \<Longrightarrow> snd (decode 0 cp b) = firstPoint b"
  by (simp add: decode_def Let_def utf8d_class firstPoint_def)

text \<open>A step that is not rejected keeps what is known. When it accepts, the code point of a one-byte character is the
  byte, any other is at least \<open>0x80\<close>.\<close>

lemma pointOk_step:
  assumes "decoding st" "pointOk st cp" "fst (decode st cp (of_char c)) = st'" "st' \<noteq> 1"
  shows "pointOk st' (snd (decode st cp (of_char c))) \<and> (st' = 0 \<longrightarrow> (if st = 0
    then uint (snd (decode st cp (of_char c))) = int (of_char c) else 0x80 \<le> uint (snd (decode st cp (of_char c)))))"
proof -
  let ?b = "of_char c :: nat"
  have st: "st < 9" using assms(1) by (auto simp: decoding_def)
  have step: "st' = transition st (byteClass ?b)"
    using assms(3) decode_state [OF st nat_of_char_less_256, of cp c] by simp
  show ?thesis
  proof (cases "st = 0")
    case True
    with firstPoint [OF nat_of_char_less_256, of st' c] step assms(4) show ?thesis by (simp add: decode_head)
  next
    case False
    then have u: "pointMin st \<le> uint cp" "uint cp < pointMax st" using assms(2) by (simp_all add: pointOk_def)
    then have "uint cp < 2 ^ 20" by (simp add: pointMax_def split: if_splits)
    note t = decode_tail [OF False this, of ?b]
    define m where "m = int ?b mod 64"
    define w where "w = uint cp"
    have m: "0 \<le> m" "m < 64" "0 \<le> w" by (simp_all add: m_def w_def)
    have "st = 2 \<and> st' = 0 \<or> (st = 3 \<or> st = 5) \<and> st' = 2 \<or> st = 4 \<and> st' = 2 \<and> byteClass ?b = 7 \<or>
        (st = 7 \<or> st = 8) \<and> st' = 3 \<or> st = 6 \<and> st' = 3 \<and> (byteClass ?b = 7 \<or> byteClass ?b = 9)"
      using step assms(1,4) False by (auto simp: transition_def decoding_def split: if_splits)
    moreover have "byteClass ?b = 7 \<Longrightarrow> 2 \<le> m" "byteClass ?b = 9 \<Longrightarrow> 2 \<le> m"
      by (simp_all add: byteClass_def m_def split: if_splits, presburger+)
    ultimately show ?thesis
      using u m False unfolding t m_def [symmetric] w_def [symmetric] pointOk_def
      by (elim disjE conjE) (simp_all add: pointMin_def pointMax_def)
  qed
qed

section \<open>The escaped text\<close>

text \<open>Without \<open>ensure_ascii\<close> only quotes, backslashes and control characters are escaped; all other bytes stay.\<close>

definition escapedChar :: "char \<Rightarrow> string" where
  "escapedChar c =
     (case map_of [(0x08, CHR ''b''), (0x09, CHR ''t''), (0x0A, CHR ''n''), (0x0C, CHR ''f''), (0x0D, CHR ''r''),
         (0x22, CHR 0x22), (0x5C, CHR 0x5C)] (of_char c :: nat) of
        Some d \<Rightarrow> [CHR 0x5C, d]
      | None \<Rightarrow> if (of_char c :: nat) \<le> 0x1F then unicodeEscape (of_char c) else [c])"

definition escapedText :: "string \<Rightarrow> string" where
  "escapedText s = concat (map escapedChar s)"

lemma escapedText_simps [simp]: "escapedText [] = []" "escapedText (c # cs) = escapedChar c @ escapedText cs"
  by (simp_all add: escapedText_def)

lemma escapeText_byte:
  assumes "uint cp = int (of_char c)"
  shows "escapeText False cp c = escapedChar c"
proof -
  have eq: "cp = n \<longleftrightarrow> int (of_char c) = uint n" and le: "cp \<le> n \<longleftrightarrow> int (of_char c) \<le> uint n" for n :: "32 word"
    using assms by (simp_all add: word_uint_eq_iff word_le_def)
  have "unat cp = of_char c" using assms by (metis nat_int unat_eq_nat_uint)
  then show ?thesis
    unfolding escapeText_def escapedChar_def eq le by simp
qed

lemma escapeText_high:
  assumes "0x80 \<le> uint cp"
  shows "escapeText False cp c = [c]"
proof -
  have eq: "cp = n \<longleftrightarrow> uint cp = uint n" and le: "cp \<le> n \<longleftrightarrow> uint cp \<le> uint n" for n :: "32 word"
    by (simp_all add: word_uint_eq_iff word_le_def)
  show ?thesis using assms unfolding escapeText_def eq le by simp
qed

text \<open>A byte of a character of several bytes is not escaped.\<close>

lemma escapedChar_high: "0x80 \<le> (of_char c :: nat) \<Longrightarrow> escapedChar c = [c]"
  by (simp add: escapedChar_def)

lemma transition_high: "decoding st \<Longrightarrow> transition st (byteClass b) \<noteq> 1 \<Longrightarrow> st \<noteq> 0 \<or> transition st (byteClass b) \<noteq> 0 \<Longrightarrow> 0x80 \<le> b"
proof (rule ccontr)
  assume a: "decoding st" "transition st (byteClass b) \<noteq> 1" "st \<noteq> 0 \<or> transition st (byteClass b) \<noteq> 0" "\<not> 0x80 \<le> b"
  then have "byteClass b = 0" by (simp add: byteClass_def)
  with a show False by (auto simp: transition_def decoding_def split: if_splits)
qed

section \<open>The strict serializer\<close>

definition written :: "serializer \<Rightarrow> escaper \<Rightarrow> string" where
  "written s e = o_text s @ string_buffer e"

lemma flushBuffer_run:
  "\<exists>f t. flushBuffer e s = (Inr f, t) \<and> written t f = written s e \<and> utfState f = utfState e \<and> codepoint f = codepoint e \<and>
     indent_string t = indent_string s"
  by (simp add: flushBuffer_def writeChars_def written_def run_simps)

lemma acceptPoint_run:
  "\<exists>f t. acceptPoint a c e s = (Inr f, t) \<and> written t f = written s e @ escapeText a (codepoint e) c \<and>
     utfState f = utfState e \<and> codepoint f = codepoint e \<and> indent_string t = indent_string s"
proof -
  obtain f t where f: "flushBuffer (e\<lparr>string_buffer := string_buffer e @ escapeText a (codepoint e) c\<rparr>) s = (Inr f, t)"
      "written t f = written s e @ escapeText a (codepoint e) c" "utfState f = utfState e" "codepoint f = codepoint e"
      "indent_string t = indent_string s"
    using flushBuffer_run [of "e\<lparr>string_buffer := string_buffer e @ escapeText a (codepoint e) c\<rparr>" s]
    by (auto simp: written_def)
  then show ?thesis by (simp add: acceptPoint_def run_simps markAccepted_def written_def)
qed

lemma escapeLoop_valid:
  assumes "utf8Ok (pending (utfState e)) cs" "decoding (utfState e)" "pointOk (utfState e) (codepoint e)"
  shows "\<exists>f t. escapeLoop Strict False i cs e s = (Inr f, t) \<and> written t f = written s e @ escapedText cs \<and>
    utfState f = 0 \<and> indent_string t = indent_string s"
  using assms
proof (induction cs arbitrary: i e s)
  case Nil
  then show ?case by (auto simp: run_simps pending_Nil)
next
  case (Cons c cs)
  define d where "d = decodeStep c e"
  define st' where "st' = fst (decode (utfState e) (codepoint e) (of_char c))"
  have d: "utfState d = st'" "codepoint d = snd (decode (utfState e) (codepoint e) (of_char c))" "string_buffer d = string_buffer e"
    by (simp_all add: d_def st'_def decodeStep_def split: prod.split)
  note step = utf8Ok_step(1) [OF Cons.prems(2), where c = c and cs = cs and cp = "codepoint e", folded st'_def]
    utf8Ok_step(2) [OF Cons.prems(2), where c = c and cp = "codepoint e", folded st'_def]
  have ok: "st' \<noteq> 1" "utf8Ok (pending st') cs" "decoding st'" using step Cons.prems(1) by auto
  note point = pointOk_step [OF Cons.prems(2,3), of c st', folded d(2)]
  have tr: "st' = transition (utfState e) (byteClass (of_char c))"
    using Cons.prems(2) by (auto simp: st'_def decode_state decoding_def)
  show ?case
  proof (cases "st' = 0")
    case True
    obtain f t where f: "acceptPoint False c d s = (Inr f, t)" "written t f = written s d @ escapeText False (codepoint d) c"
        "utfState f = 0" "codepoint f = codepoint d" "indent_string t = indent_string s"
      using acceptPoint_run [of False c d s] d True by auto
    have "escapeText False (codepoint d) c = escapedChar c"
    proof (cases "utfState e = 0")
      case True
      with point \<open>st' = 0\<close> ok show ?thesis by (intro escapeText_byte) (simp add: st'_def)
    next
      case False
      moreover from this have "0x80 \<le> (of_char c :: nat)" using transition_high [OF Cons.prems(2)] tr ok(1) by metis
      ultimately show ?thesis using point \<open>st' = 0\<close> ok by (simp add: escapeText_high escapedChar_high st'_def)
    qed
    moreover obtain g u where "escapeLoop Strict False (Suc i) cs f t = (Inr g, u)" "written u g = written t f @ escapedText cs"
        "utfState g = 0" "indent_string u = indent_string t"
      using Cons.IH [of f "Suc i" t] f(3) ok True by (auto simp: pointOk_def)
    ultimately show ?thesis using f d True by (simp add: d_def [symmetric] Let_def run_simps written_def)
  next
    case False
    have high: "0x80 \<le> (of_char c :: nat)" using transition_high [OF Cons.prems(2)] tr ok(1) False by metis
    let ?p = "pendingByte False c d"
    have p: "utfState ?p = st'" "codepoint ?p = codepoint d" "string_buffer ?p = string_buffer e @ [c]"
      by (simp_all add: pendingByte_def d)
    obtain g u where "escapeLoop Strict False (Suc i) cs ?p s = (Inr g, u)" "written u g = written s ?p @ escapedText cs"
        "utfState g = 0" "indent_string u = indent_string s"
      using Cons.IH [of ?p "Suc i" s] p ok point by (auto simp: st'_def)
    then show ?thesis using p d ok False by (simp add: d_def [symmetric] Let_def written_def escapedChar_high [OF high])
  qed
qed

lemma escapeLoop_invalid:
  assumes "\<not> utf8Ok (pending (utfState e)) cs" "decoding (utfState e)"
  shows "case escapeLoop Strict a i cs e s of
      (Inl x, t) \<Rightarrow> (\<exists>w. x = JsonException 316 w)
    | (Inr f, t) \<Rightarrow> decoding (utfState f) \<and> utfState f \<noteq> 0"
  using assms
proof (induction cs arbitrary: i e s)
  case Nil
  then show ?case by (auto simp: run_simps pending_Nil)
next
  case (Cons c cs)
  define d where "d = decodeStep c e"
  define st' where "st' = fst (decode (utfState e) (codepoint e) (of_char c))"
  have d: "utfState d = st'" by (simp add: d_def st'_def decodeStep_def split: prod.split)
  note step = utf8Ok_step(1) [OF Cons.prems(2), where c = c and cs = cs and cp = "codepoint e", folded st'_def]
    utf8Ok_step(2) [OF Cons.prems(2), where c = c and cp = "codepoint e", folded st'_def]
  consider (accept) "st' = 0" | (reject) "st' = 1" | (more) "st' \<noteq> 0" "st' \<noteq> 1" by blast
  then show ?case
  proof cases
    case accept
    obtain f t where f: "acceptPoint a c d s = (Inr f, t)" "utfState f = 0" using acceptPoint_run [of a c d s] d accept by auto
    with Cons.IH [of f "Suc i" t] step Cons.prems(1) accept d show ?thesis
      by (simp add: d_def [symmetric] Let_def run_simps)
  next
    case reject
    with d show ?thesis by (simp add: d_def [symmetric] Let_def run_simps typeError_def)
  next
    case more
    have "utfState (pendingByte a c d) = st'" by (simp add: pendingByte_def d)
    with Cons.IH [of "pendingByte a c d" "Suc i" s] step Cons.prems(1) more d show ?thesis
      by (simp add: d_def [symmetric] Let_def)
  qed
qed

lemma dumpEscaped_valid:
  assumes "validUtf8 s"
  shows "dumpEscaped Strict False s t = (Inr (), t\<lparr>o_text := o_text t @ escapedText s\<rparr>)"
proof -
  let ?e = "\<lparr>codepoint = 0, utfState = 0, string_buffer = '''', bytes_after_last_accept = 0, undumped_chars = 0\<rparr>"
  have start: "pending (utfState ?e) = []" "decoding (utfState ?e)" "pointOk (utfState ?e) (codepoint ?e)" "written t ?e = o_text t"
    by (simp_all add: pending_def decoding_def pointOk_def written_def)
  then obtain f u where f: "escapeLoop Strict False 0 s ?e t = (Inr f, u)" "written u f = o_text t @ escapedText s"
      "utfState f = 0" "indent_string u = indent_string t"
    using escapeLoop_valid [of ?e s 0 t] assms by auto
  from f(2,4) have "u\<lparr>o_text := o_text u @ string_buffer f\<rparr> = t\<lparr>o_text := o_text t @ escapedText s\<rparr>"
    by (cases u; cases t) (simp add: written_def)
  with f show ?thesis
    by (cases "string_buffer f = []") (auto simp: dumpEscaped_def writeChars_def run_simps)
qed

lemma dumpEscaped_invalid:
  assumes "\<not> validUtf8 s"
  shows "\<exists>w. fst (dumpEscaped Strict a s t) = Inl (JsonException 316 w)"
proof -
  let ?e = "\<lparr>codepoint = 0, utfState = 0, string_buffer = '''', bytes_after_last_accept = 0, undumped_chars = 0\<rparr>"
  have "pending (utfState ?e) = []" "decoding (utfState ?e)" by (simp_all add: pending_def decoding_def)
  then show ?thesis
    using escapeLoop_invalid [of ?e s a 0 t] assms
    by (auto simp: dumpEscaped_def run_simps typeError_def andThen_def split: prod.splits sum.splits)
qed

text \<open>
  C9: A string is printed if and only if it is well-formed UTF-8, and then with quotes, backslashes and control
  characters escaped and every other byte as it is; any other string throws \<open>type_error\<close> 316.
\<close>

theorem dumpEscaped_strict:
  "if validUtf8 s then dumpEscaped Strict False s t = (Inr (), t\<lparr>o_text := o_text t @ escapedText s\<rparr>)
   else \<exists>w. fst (dumpEscaped Strict False s t) = Inl (JsonException 316 w)"
  by (simp add: dumpEscaped_valid dumpEscaped_invalid)

section \<open>The buffer\<close>

definition maxPending :: "nat \<Rightarrow> nat" where
  "maxPending st = (if st = 0 then 0 else if st = 2 then 3 else if st = 3 then 2 else 1)"

definition fits :: "bool \<Rightarrow> escaper \<Rightarrow> bool" where
  "fits a e \<longleftrightarrow> decoding (utfState e) \<and> bytes_after_last_accept e \<le> 499 \<and>
     length (string_buffer e) \<le> bytes_after_last_accept e + (if a then 0 else maxPending (utfState e))"

lemma maxPending_step:
  "decoding st \<Longrightarrow> transition st c \<noteq> 0 \<Longrightarrow> transition st c \<noteq> 1 \<Longrightarrow> c < 16 \<Longrightarrow> maxPending st < maxPending (transition st c)"
  by (auto simp: decoding_def maxPending_def transition_def less_Suc_eq numeral_eq_Suc split: if_splits)

lemma flushBuffer_fits:
  "flushBuffer e s = (Inr f, t) \<Longrightarrow> length (string_buffer f) \<le> 499 \<and> utfState f = utfState e"
  by (auto simp: flushBuffer_def writeChars_def run_simps split: if_splits)

lemma acceptPoint_fits:
  assumes "acceptPoint a c e s = (Inr f, t)" "utfState e = 0"
  shows "fits a f"
proof -
  obtain g u where g: "flushBuffer (e\<lparr>string_buffer := string_buffer e @ escapeText a (codepoint e) c\<rparr>) s = (Inr g, u)"
      "f = markAccepted g"
    using assms(1) by (auto simp: acceptPoint_def run_simps elim!: andThen_InrE)
  from flushBuffer_fits [OF g(1)] g(2) assms(2) show ?thesis
    by (simp add: fits_def markAccepted_def decoding_def)
qed

lemma rejectByte_fits:
  assumes "rejectByte h a e s = (Inr f, t)" "bytes_after_last_accept e \<le> 499"
  shows "fits a f"
proof (cases "h = Replace")
  case True
  define bk where "bk = e\<lparr>string_buffer := take (bytes_after_last_accept e) (string_buffer e)\<rparr>"
  obtain g u where g: "flushBuffer (bk\<lparr>string_buffer := string_buffer bk @ replacement a\<rparr>) s = (Inr g, u)"
      "f = g\<lparr>bytes_after_last_accept := length (string_buffer g), undumped_chars := 0, utfState := 0\<rparr>"
    using assms(1) True by (auto simp: rejectByte_def bk_def [symmetric] Let_def run_simps elim!: andThen_InrE)
  from flushBuffer_fits [OF g(1)] g(2) show ?thesis by (simp add: fits_def decoding_def)
next
  case False
  with assms show ?thesis by (auto simp: rejectByte_def Let_def run_simps fits_def decoding_def)
qed

lemma pendingByte_fits:
  assumes "fits a e" "utfState d = transition (utfState e) (byteClass b)" "utfState d \<noteq> 0" "utfState d \<noteq> 1" "decoding (utfState d)"
    "string_buffer d = string_buffer e" "bytes_after_last_accept d = bytes_after_last_accept e"
  shows "fits a (pendingByte a c d)"
  using assms maxPending_step [of "utfState e" "byteClass b"] byteClass_bound [of b]
  by (auto simp: fits_def pendingByte_def)

lemma decodeStep_run:
  assumes "decoding (utfState e)"
  shows "utfState (decodeStep c e) = transition (utfState e) (byteClass (of_char c))"
    "string_buffer (decodeStep c e) = string_buffer e" "bytes_after_last_accept (decodeStep c e) = bytes_after_last_accept e"
    "utfState (decodeStep c e) \<noteq> 1 \<Longrightarrow> decoding (utfState (decodeStep c e))"
proof -
  have "utfState e < 9" using assms by (auto simp: decoding_def)
  note d = decode_state [OF this nat_of_char_less_256, of "codepoint e" c]
  show "utfState (decodeStep c e) = transition (utfState e) (byteClass (of_char c))"
    using d by (cases "decode (utfState e) (codepoint e) (of_char c)") (simp add: decodeStep_def)
  show "string_buffer (decodeStep c e) = string_buffer e" "bytes_after_last_accept (decodeStep c e) = bytes_after_last_accept e"
    by (simp_all add: decodeStep_def split: prod.split)
  show "utfState (decodeStep c e) \<noteq> 1 \<Longrightarrow> decoding (utfState (decodeStep c e))"
    using utf8Ok_step(2) [OF assms, where c = c and cp = "codepoint e"]
    by (cases "decode (utfState e) (codepoint e) (of_char c)") (simp add: decodeStep_def)
qed

text \<open>The byte that made the text ill-formed is read again.\<close>

lemma again_fits:
  assumes g: "fits a g" and IH: "\<And>e s. escapeLoop h a i cs e s = (Inr f, t) \<Longrightarrow> fits a e \<Longrightarrow> fits a f"
    and run: "(let again = decodeStep c g in
       if utfState again = 0 then andThen (acceptPoint a c again) (escapeLoop h a i cs)
       else if utfState again = 1 then andThen (rejectByte h a again) (escapeLoop h a i cs)
       else escapeLoop h a i cs (pendingByte a c again)) u = (Inr f, t)"
  shows "fits a f"
proof -
  have dec: "decoding (utfState g)" using g by (simp add: fits_def)
  define again where "again = decodeStep c g"
  note ag = decodeStep_run [OF dec, of c, folded again_def]
  have b: "bytes_after_last_accept again \<le> 499" using g ag(3) by (simp add: fits_def)
  consider (accept) "utfState again = 0" | (reject) "utfState again = 1" | (more) "utfState again \<noteq> 0" "utfState again \<noteq> 1" by blast
  then show ?thesis
  proof cases
    case accept
    with run obtain x v where "acceptPoint a c again u = (Inr x, v)" "escapeLoop h a i cs x v = (Inr f, t)"
      by (auto simp: again_def [symmetric] Let_def elim!: andThen_InrE)
    with IH accept show ?thesis by (blast intro: acceptPoint_fits)
  next
    case reject
    with run obtain x v where "rejectByte h a again u = (Inr x, v)" "escapeLoop h a i cs x v = (Inr f, t)"
      by (auto simp: again_def [symmetric] Let_def elim!: andThen_InrE)
    with IH b show ?thesis by (blast intro: rejectByte_fits)
  next
    case more
    with run have "escapeLoop h a i cs (pendingByte a c again) u = (Inr f, t)"
      by (simp add: again_def [symmetric] Let_def)
    moreover have "fits a (pendingByte a c again)"
      using pendingByte_fits [OF g ag(1) more ag(4) [OF more(2)] ag(2,3)] .
    ultimately show ?thesis by (rule IH)
  qed
qed

lemma escapeLoop_fits: "escapeLoop h a i cs e s = (Inr f, t) \<Longrightarrow> fits a e \<Longrightarrow> fits a f"
proof (induction cs arbitrary: i e s)
  case (Cons c cs)
  have dec: "decoding (utfState e)" using Cons.prems(2) by (simp add: fits_def)
  define d where "d = decodeStep c e"
  note d = decodeStep_run [OF dec, of c, folded d_def]
  have zero: "decoding 0" by (simp add: decoding_def)
  consider (accept) "utfState d = 0" | (reject) "utfState d = 1" | (more) "utfState d \<noteq> 0" "utfState d \<noteq> 1" by blast
  then show ?case
  proof cases
    case accept
    with Cons.prems(1) obtain g u where "acceptPoint a c d s = (Inr g, u)" "escapeLoop h a (Suc i) cs g u = (Inr f, t)"
      by (auto simp: d_def [symmetric] Let_def elim!: andThen_InrE)
    with Cons.IH accept show ?thesis by (blast intro: acceptPoint_fits)
  next
    case more
    with Cons.prems(1) have "escapeLoop h a (Suc i) cs (pendingByte a c d) s = (Inr f, t)"
      by (simp add: d_def [symmetric] Let_def)
    moreover have "fits a (pendingByte a c d)"
      using pendingByte_fits [OF Cons.prems(2) d(1) more d(4) [OF more(2)] d(2,3)] .
    ultimately show ?thesis by (rule Cons.IH)
  next
    case reject
    from reject Cons.prems(1) have "h \<noteq> Strict"
      by (auto simp: d_def [symmetric] Let_def run_simps)
    with reject Cons.prems(1) obtain g u where g: "rejectByte h a d s = (Inr g, u)"
        "(if 0 < undumped_chars d
           then (let again = decodeStep c g in
             if utfState again = 0
             then andThen (acceptPoint a c again) (escapeLoop h a (Suc i) cs)
             else if utfState again = 1
             then andThen (rejectByte h a again) (escapeLoop h a (Suc i) cs)
             else escapeLoop h a (Suc i) cs (pendingByte a c again))
           else escapeLoop h a (Suc i) cs g) u = (Inr f, t)"
      by (auto simp: d_def [symmetric] Let_def elim!: andThen_InrE)
    have fg: "fits a g" using rejectByte_fits [OF g(1)] Cons.prems(2) d(3) by (simp add: fits_def)
    show ?thesis
    proof (cases "0 < undumped_chars d")
      case False
      with g(2) have "escapeLoop h a (Suc i) cs g u = (Inr f, t)" by simp
      from Cons.IH [OF this fg] show ?thesis .
    next
      case True
      from again_fits [OF fg Cons.IH g(2) [unfolded if_P [OF True]]] show ?thesis .
    qed
  qed
qed (simp add: run_simps)

lemma escapeText_length: "length (escapeText a cp c) \<le> (if a then 12 else 6)"
proof -
  have "\<not> cp \<le> 0x1F" if "\<not> cp \<le> 0xFFFF" using that by (auto simp: word_le_def)
  then show ?thesis by (auto simp: escapeText_def unicodeEscape_def)
qed

text \<open>
  C10: The 512 bytes of \<open>string_buffer\<close> always suffice. Whatever has been read, with any error handler, the next
  byte may be stored, or the escape of the next code point with the zero byte of \<open>snprintf\<close> behind it, or a
  replacement character behind the last accepted byte.
\<close>

theorem string_buffer_suffices:
  assumes "escapeLoop h a 0 s \<lparr>codepoint = 0, utfState = 0, string_buffer = '''', bytes_after_last_accept = 0, undumped_chars = 0\<rparr> t = (Inr e, u)"
  shows "length (string_buffer e) + 1 + length (escapeText a cp c) \<le> 512 \<and>
    bytes_after_last_accept e + length (replacement a) \<le> 512"
proof -
  have "fits a e"
    by (rule escapeLoop_fits [OF assms]) (simp add: fits_def decoding_def)
  then show ?thesis
    using escapeText_length [of a cp c] by (auto simp: fits_def maxPending_def replacement_def split: if_splits)
qed

theorem string_buffer_suffices_witness:
  "length (string_buffer \<lparr>codepoint = 97, utfState = 0, string_buffer = ''a'', bytes_after_last_accept = 1, undumped_chars = 0\<rparr>) + 1 +
     length (escapeText False 0x1F (CHR 0x1F)) \<le> 512 \<and>
   bytes_after_last_accept \<lparr>codepoint = 97, utfState = 0, string_buffer = ''a'', bytes_after_last_accept = 1, undumped_chars = 0\<rparr> +
     length (replacement False) \<le> 512"
  by (rule string_buffer_suffices [of Strict False "''a''" "\<lparr>o_text = '''', indent_string = ''''\<rparr>" _ "\<lparr>o_text = '''', indent_string = ''''\<rparr>"])
    code_simp

end
