(* ===== verification/JsonNumbers.thy ===== *)
theory JsonNumbers
  imports Json
begin

text \<open>
  The serializer prints an integer as its decimal digits: the count of digits that it makes room for is right,
  and the digits fill the buffer exactly.
\<close>

section \<open>Decimal digits in groups\<close>

lemma showNat_div: "10 \<le> n \<Longrightarrow> showNat n = showNat (n div 10) @ [digitChar (n mod 10)]"
  by (subst showNat.simps) simp

lemma showNat_small: "n < 10 \<Longrightarrow> showNat n = [digitChar n]"
  by (subst showNat.simps) simp

lemma showNat_two: "100 \<le> n \<Longrightarrow> showNat n = showNat (n div 100) @ [digitChar (n mod 100 div 10), digitChar (n mod 10)]"
proof -
  assume n: "100 \<le> n"
  have "showNat (n div 10) = showNat (n div 10 div 10) @ [digitChar (n div 10 mod 10)]"
    using n by (intro showNat_div) linarith
  moreover have "n div 10 div 10 = n div 100" by (simp add: div_mult2_eq [symmetric])
  moreover have "n div 10 mod 10 = n mod 100 div 10" using mod_mult2_eq [of n 10 10] by simp
  ultimately show ?thesis using n showNat_div [of n] by simp
qed

lemma showNat_length: "10 \<le> n \<Longrightarrow> length (showNat n) = Suc (length (showNat (n div 10)))"
  by (simp add: showNat_div)

lemma showNat_length_bound: "n < 10 ^ Suc k \<Longrightarrow> length (showNat n) \<le> Suc k"
proof (induction k arbitrary: n)
  case (Suc k)
  show ?case
  proof (cases "n < 10")
    case False
    then have "n div 10 < 10 ^ Suc k" using Suc.prems by (simp add: less_mult_imp_div_less)
    with False Suc.IH show ?thesis by (simp add: showNat_length)
  qed (simp add: showNat_small)
qed (simp add: showNat_small)

lemma countDigits_length: "countDigits n k + 1 = k + length (showNat n)"
proof (induction n k rule: countDigits.induct)
  case (1 n k)
  show ?case
  proof (cases "n < 10000")
    case True
    then show ?thesis
      by (cases "n < 10"; cases "n < 100"; cases "n < 1000")
        (simp_all add: countDigits.simps [of n] showNat_small showNat_length div_mult2_eq [symmetric])
  next
    case False
    then have "length (showNat n) = 4 + length (showNat (n div 10000))"
      by (simp add: showNat_length div_mult2_eq [symmetric])
    with False 1 show ?thesis by (simp add: countDigits.simps [of n])
  qed
qed

section \<open>Filling the buffer\<close>

lemma update_last_two:
  "length buf = k + 2 \<Longrightarrow> (buf @ ys)[k + 1 := b, k := a] = take k buf @ [a, b] @ ys"
proof -
  assume "length buf = k + 2"
  then obtain x y where b: "buf = take k buf @ [x, y]"
    by (metis (no_types, lifting) Cons_nth_drop_Suc add_2_eq_Suc' append_take_drop_id drop_all lessI less_SucI order_refl)
  have "length (take k buf) = k" using \<open>length buf = k + 2\<close> by simp
  then show ?thesis by (subst b) (simp add: list_update_append)
qed

lemma fillDigits_run:
  "length buf = off + length (showNat n) \<Longrightarrow> fillDigits n (off + length (showNat n)) (buf @ ys) = take off buf @ showNat n @ ys"
proof (induction n "off + length (showNat n)" "buf @ ys" arbitrary: buf ys rule: fillDigits.induct)
  case (1 n)
  show ?case
  proof (cases "100 \<le> n")
    case True
    let ?m = "length (showNat (n div 100))"
    have len: "length (showNat n) = ?m + 2" using showNat_two [OF True] by simp
    have buf: "(buf @ ys)[off + length (showNat n) - 1 := digitChar (n mod 10), off + length (showNat n) - 2 := digitChar (n mod 100 div 10)]
        = take (off + ?m) buf @ [digitChar (n mod 100 div 10), digitChar (n mod 10)] @ ys"
      using update_last_two [of buf "off + ?m"] "1.prems" by (simp add: len)
    have "n mod 100 mod 10 = n mod 10" by (simp add: mod_mod_cancel)
    with True len buf "1.prems" "1.hyps"(1) [of _ _ "take (off + ?m) buf"] showNat_two [OF True] show ?thesis
      by (simp add: fillDigits.simps [of n] digitsTo99_def min_def)
  next
    case False
    show ?thesis
    proof (cases "10 \<le> n")
      case True
      then have "showNat n = [digitChar (n div 10), digitChar (n mod 10)]"
        using False by (simp add: showNat_div showNat_small)
      with False True "1.prems" update_last_two [of buf off] show ?thesis
        by (simp add: fillDigits.simps [of n] digitsTo99_def)
    next
      case below: False
      then have n: "showNat n = [digitChar n]" by (simp add: showNat_small)
      then have "length buf = Suc off" using "1.prems" by simp
      then obtain xs x where "buf = xs @ [x]" "length xs = off" by (cases buf rule: rev_cases) auto
      with n False below show ?thesis by (simp add: fillDigits.simps [of n] list_update_append)
    qed
  qed
qed

lemma removeSign_nat: "x < 0 \<Longrightarrow> removeSign x = nat (- x)"
  by (simp add: removeSign_def Suc_nat_eq_nat_zadd1)

text \<open>64 bits: at most 20 characters, of the 64 of the buffer.\<close>

lemma toString_length: "- (2 ^ 63) \<le> i \<Longrightarrow> i < 2 ^ 64 \<Longrightarrow> length (toString i) \<le> 20"
proof -
  assume i: "- (2 ^ 63) \<le> i" "i < 2 ^ 64"
  show ?thesis
  proof (cases "i < 0")
    case True
    with i have "nat (- i) < 10 ^ Suc 18" by simp
    from showNat_length_bound [OF this] True show ?thesis by (simp add: toString_def)
  next
    case False
    with i have "nat i < 10 ^ Suc 19" by simp
    from showNat_length_bound [OF this] False show ?thesis by (simp add: toString_def)
  qed
qed

lemma countDigits_one: "countDigits n (Suc 0) = length (showNat n)"
  using countDigits_length [of n 1] by simp

lemma dumpInteger_run:
  assumes "- (2 ^ 63) \<le> i" "i < 2 ^ 64"
  shows "dumpInteger i s = (Inr (), s\<lparr>o_text := o_text s @ toString i\<rparr>)"
proof (cases "i < 0")
  case True
  note sign = removeSign_nat [OF True]
  let ?m = "length (showNat (nat (- i)))"
  have m: "?m \<le> 63" using toString_length [OF assms] True by (simp add: toString_def)
  have "replicate 64 (CHR 0x00) = CHR 0x00 # replicate ?m (CHR 0x00) @ replicate (63 - ?m) (CHR 0x00)"
    using m by (simp add: replicate_add [symmetric] replicate_Suc [symmetric] del: replicate_Suc)
  then have buf: "(replicate 64 (CHR 0x00))[0 := CHR ''-''] =
      (CHR ''-'' # replicate ?m (CHR 0x00)) @ replicate (63 - ?m) (CHR 0x00)" by simp
  have "fillDigits (nat (- i)) (1 + ?m) ((CHR ''-'' # replicate ?m (CHR 0x00)) @ replicate (63 - ?m) (CHR 0x00)) =
      CHR ''-'' # showNat (nat (- i)) @ replicate (63 - ?m) (CHR 0x00)"
    by (subst fillDigits_run) simp_all
  with True buf show ?thesis
    by (simp add: dumpInteger_def Let_def sign countDigits_one writeChars_def run_simps toString_def)
next
  case False
  let ?m = "length (showNat (nat i))"
  have m: "?m \<le> 64" using toString_length [OF assms] False by (simp add: toString_def)
  have buf: "replicate 64 (CHR 0x00) = replicate ?m (CHR 0x00) @ replicate (64 - ?m) (CHR 0x00)"
    using m by (simp add: replicate_add [symmetric])
  have "fillDigits (nat i) ?m (replicate ?m (CHR 0x00) @ replicate (64 - ?m) (CHR 0x00)) =
      showNat (nat i) @ replicate (64 - ?m) (CHR 0x00)"
    using fillDigits_run [of "replicate ?m (CHR 0x00)" 0] by simp
  with False buf show ?thesis
    by (cases "i = 0") (simp_all add: dumpInteger_def Let_def countDigits_one writeChars_def run_simps toString_def
      showNat_small digitChar_def)
qed

text \<open>
  C11: An integer is printed as its decimal digits, \<open>INT64_MIN\<close> and \<open>UINT64_MAX\<close> included: the number of
  characters that is computed beforehand is the number of digits (and the sign), the digits fill the buffer
  exactly, and the assertion \<open>n_chars < number_buffer.size() - 1\<close> holds.
\<close>

theorem dumpInteger_decimal:
  assumes "- (2 ^ 63) \<le> i" "i < 2 ^ 64"
  shows "dumpInteger i s = (Inr (), s\<lparr>o_text := o_text s @ toString i\<rparr>) \<and> length (toString i) < 64 - 1 \<and>
    (if i < 0 then 1 + countDigits (removeSign i) 1 else countDigits (nat i) 1) = length (toString i)"
proof -
  note len = toString_length [OF assms]
  have "(if i < 0 then 1 + countDigits (removeSign i) 1 else countDigits (nat i) 1) = length (toString i)"
    using removeSign_nat [of i] by (simp add: toString_def countDigits_one)
  with dumpInteger_run [OF assms] len show ?thesis by simp
qed

theorem dumpInteger_decimal_witness:
  "dumpInteger (- 9223372036854775808) \<lparr>o_text = '''', indent_string = ''''\<rparr> =
     (Inr (), \<lparr>o_text = toString (- 9223372036854775808), indent_string = ''''\<rparr>) \<and>
   length (toString (- 9223372036854775808)) < 64 - 1"
  using dumpInteger_decimal [of "- 9223372036854775808" "\<lparr>o_text = '''', indent_string = ''''\<rparr>"] by simp

end
