(* ===== verification/JsonText.thy ===== *)
theory JsonText
  imports JsonUtf8 JsonNumbers JsonLexer
begin

text \<open>
  The compact text of a value as a function of the value (\<open>jsonText\<close>), and that the serializer writes it. The text of a
  floating-point number is a parameter, as in \<open>Json\<close>.
\<close>

section \<open>Floating-point numbers\<close>

text \<open>
  The texts that the lexer takes for a floating-point number (\<open>floatToken\<close>): its automaton runs over all of the text
  and ends behind a fraction or an exponent.
\<close>

fun numberRun :: "numberState \<Rightarrow> token_type \<Rightarrow> string \<Rightarrow> (numberState \<times> token_type) option" where
  "numberRun st ty [] = Some (st, ty)"
| "numberRun st ty (c # cs) = (case numberStep CHR ''.'' st (Some c) of
     NGoto x st' \<Rightarrow> if x = c then numberRun st' (numberType st ty) cs else None
   | _ \<Rightarrow> None)"

definition numberStart :: "char \<Rightarrow> numberState" where
  "numberStart c = (if c = CHR ''-'' then NMinus else if c = CHR ''0'' then NZero else NAny1)"

definition floatToken :: "string \<Rightarrow> bool" where
  "floatToken t = (case t of [] \<Rightarrow> False
   | c # cs \<Rightarrow> (c = CHR ''-'' \<or> isDigit c) \<and>
       numberRun (numberStart c) TValueUnsigned cs \<in> {Some (NDecimal2, TValueFloat), Some (NAny2, TValueFloat)})"

text \<open>
  The numbers that are printed without loss: the text is a number again, and \<open>strtod\<close> makes the same number of it. The
  decimal point of the text is the one that \<open>strtod\<close> knows.
\<close>

definition exactFloat :: "'f lexConf \<Rightarrow> 'f \<Rightarrow> bool" where
  "exactFloat cf x \<longleftrightarrow> decimal_point_char cf = CHR ''.'' \<and> isFinite (numbers cf) x \<and>
     (case floatText (numbers cf) x of Inl e \<Rightarrow> False | Inr t \<Rightarrow> floatToken t \<and> strtod (numbers cf) t = x)"

section \<open>The text of a value\<close>

text \<open>The values that are printed without loss: no binary data, well-formed strings, the numbers in the range of their
  type, the entries in the order of their keys.\<close>

fun printable :: "'f lexConf \<Rightarrow> 'f json \<Rightarrow> bool" where
  "printable cf (JObject m) \<longleftrightarrow> sortedMap m \<and> (\<forall>(k, v) \<in> set m. validUtf8 k \<and> printable cf v)"
| "printable cf (JArray xs) \<longleftrightarrow> (\<forall>x \<in> set xs. printable cf x)"
| "printable cf (JString s) \<longleftrightarrow> validUtf8 s"
| "printable cf (JInteger i) \<longleftrightarrow> - (2 ^ 63) \<le> i \<and> i < 2 ^ 63"
| "printable cf (JUnsigned i) \<longleftrightarrow> 0 \<le> i \<and> i < 2 ^ 64"
| "printable cf (JFloat x) \<longleftrightarrow> exactFloat cf x"
| "printable cf (JBool b) \<longleftrightarrow> True"
| "printable cf JNull \<longleftrightarrow> True"
| "printable cf (JBinary bs t) \<longleftrightarrow> False"
| "printable cf JDiscarded \<longleftrightarrow> False"

fun joinText :: "string list \<Rightarrow> string" where
  "joinText [] = []"
| "joinText [x] = x"
| "joinText (x # y # ys) = x @ '','' @ joinText (y # ys)"

definition quoted :: "string \<Rightarrow> string" where
  "quoted s = [CHR 0x22] @ escapedText s @ [CHR 0x22]"

fun jsonText :: "'f floats \<Rightarrow> 'f json \<Rightarrow> string" where
  "jsonText fl (JObject m) = ''{'' @ joinText (map (\<lambda>(k, v). quoted k @ '':'' @ jsonText fl v) m) @ ''}''"
| "jsonText fl (JArray xs) = ''['' @ joinText (map (jsonText fl) xs) @ '']''"
| "jsonText fl (JString s) = quoted s"
| "jsonText fl (JBool b) = (if b then ''true'' else ''false'')"
| "jsonText fl (JInteger i) = toString i"
| "jsonText fl (JUnsigned i) = toString i"
| "jsonText fl (JFloat x) = (case floatText fl x of Inl e \<Rightarrow> [] | Inr t \<Rightarrow> t)"
| "jsonText fl _ = ''null''"

section \<open>Printing\<close>

definition writes :: "(serializer, unit) prog \<Rightarrow> string \<Rightarrow> bool" where
  "writes p x \<longleftrightarrow> (\<forall>s. p s = (Inr (), s\<lparr>o_text := o_text s @ x\<rparr>))"

lemma writes_chars [intro]: "writes (writeChars x) x"
  by (simp add: writes_def writeChars_def run_simps)

lemma writes_andThen [intro]: "writes p x \<Longrightarrow> writes q y \<Longrightarrow> writes (andThen p (\<lambda>_. q)) (x @ y)"
  by (simp add: writes_def run_simps)

lemma writes_ok: "writes (ok ()) ''''"
  by (simp add: writes_def run_simps)

lemma writes_separated:
  "list_all2 writes ps xs \<Longrightarrow> writes (separated (writeChars '','') ps) (joinText xs)"
proof (induction ps arbitrary: xs rule: induct_list012)
  case (3 p q ps)
  then obtain x y ys where xs: "xs = x # y # ys" "writes p x" "list_all2 writes (q # ps) (y # ys)"
    by (auto simp: list_all2_Cons1)
  from xs(2) 3(2) [OF xs(3)] show ?case
    unfolding xs(1) separated.simps joinText.simps by (intro writes_andThen writes_chars)
qed (auto simp: list_all2_Cons1 writes_ok)

lemma writes_quoted: "validUtf8 s \<Longrightarrow> writes (quotedText Strict False s) (quoted s)"
  unfolding quotedText_def quoted_def
  by (intro writes_andThen writes_chars) (use dumpEscaped_valid [of s] in \<open>simp add: writes_def\<close>)

lemma writes_integer: "- (2 ^ 63) \<le> i \<Longrightarrow> i < 2 ^ 64 \<Longrightarrow> writes (dumpInteger i) (toString i)"
  by (simp add: writes_def dumpInteger_run)

lemma dumpItems_writes:
  "list_all2 writes ps xs \<Longrightarrow> writes (dumpItems False m n a b ps) (a @ joinText xs @ b)"
  unfolding dumpItems_def by (auto intro: writes_separated)

lemma dumpValue_writes: "printable cf j \<Longrightarrow> writes (dumpValue (numbers cf) Strict False False step indent j) (jsonText (numbers cf) j)"
proof (induction cf j rule: printable.induct)
  case (1 cf m)
  have "writes (andThen (quotedText Strict False k) (\<lambda>_. andThen (writeChars '':'') (\<lambda>_. dumpValue (numbers cf) Strict False False step indent v)))
      (quoted k @ '':'' @ jsonText (numbers cf) v)" if "(k, v) \<in> set m" for k v
    using 1 that by (intro writes_andThen writes_chars writes_quoted) auto
  then have "list_all2 writes (map (\<lambda>(k, v). andThen (quotedText Strict False k) (\<lambda>_. andThen (writeChars '':'')
      (\<lambda>_. dumpValue (numbers cf) Strict False False step indent v))) m) (map (\<lambda>(k, v). quoted k @ '':'' @ jsonText (numbers cf) v) m)"
    by (auto simp: list_all2_conv_all_nth split: prod.splits) (metis nth_mem)
  from dumpItems_writes [OF this, of "(indent + step) mod 2 ^ 32" indent "''{''" "''}''"] show ?case
    by (auto simp: Let_def)
next
  case (2 cf xs)
  then have "list_all2 writes (map (dumpValue (numbers cf) Strict False False step indent) xs) (map (jsonText (numbers cf)) xs)"
    by (auto simp: list_all2_conv_all_nth)
  from dumpItems_writes [OF this, of "(indent + step) mod 2 ^ 32" indent "''[''" "'']''"] show ?case
    by (auto simp: Let_def)
qed (auto simp: writes_quoted exactFloat_def dumpFloat_def intro: writes_integer split: sum.splits)

lemma dumpJsonText_compact: "printable cf j \<Longrightarrow> dumpJsonText (numbers cf) (-1) ic False Strict j = Inr (jsonText (numbers cf) j)"
  using dumpValue_writes [of cf j 0 0] by (simp add: dumpJsonText_def writes_def)

end
