(* ===== verification/JsonRead.thy ===== *)
theory JsonRead
  imports JsonTotal JsonText
begin

text \<open>
  The lexer reads what the serializer writes: in front of the text of a value it returns the token the text starts
  with, and stands behind it.
\<close>

section \<open>Programs that run to a state\<close>

definition runsTo :: "('s, 'a) prog \<Rightarrow> 's \<Rightarrow> ('a \<Rightarrow> 's \<Rightarrow> bool) \<Rightarrow> bool" where
  "runsTo m s Q \<longleftrightarrow> (\<exists>x t. m s = (Inr x, t) \<and> Q x t)"

lemma runsTo_bind: "runsTo m s R \<Longrightarrow> (\<And>x t. R x t \<Longrightarrow> runsTo (f x) t Q) \<Longrightarrow> runsTo (andThen m f) s Q"
  unfolding runsTo_def by (elim exE conjE) (fastforce simp: run_simps)

lemma runsTo_getState: "runsTo (andThen getState f) s Q = runsTo (f s) s Q"
  by (simp add: runsTo_def run_simps)

lemma runsTo_ok: "Q x s \<Longrightarrow> runsTo (ok x) s Q"
  by (simp add: runsTo_def run_simps)

lemma runsTo_mono: "runsTo m s R \<Longrightarrow> (\<And>x t. R x t \<Longrightarrow> Q x t) \<Longrightarrow> runsTo m s Q"
  by (auto simp: runsTo_def)

text \<open>Where the lexer stands: what is left, and the token so far. \<open>atRead\<close>: behind a character just read.\<close>

definition standsAt :: "string \<Rightarrow> string \<Rightarrow> 'f lexer \<Rightarrow> bool" where
  "standsAt r b s \<longleftrightarrow> lexOk s \<and> remaining s = r \<and> token_buffer s = b"

definition atRead :: "char \<Rightarrow> string \<Rightarrow> string \<Rightarrow> 'f lexer \<Rightarrow> bool" where
  "atRead c r b s \<longleftrightarrow> justRead s \<and> current s = Some c \<and> remaining s = r \<and> token_buffer s = b"

lemma atRead_stands: "atRead c r b s \<Longrightarrow> standsAt r b s"
  by (simp add: atRead_def standsAt_def justRead_ok)

lemma read_char: "standsAt (c # r) b s \<Longrightarrow> (\<And>t. atRead c r b t \<Longrightarrow> runsTo (f (Some c)) t Q) \<Longrightarrow> runsTo (andThen getChar f) s Q"
proof -
  assume s: "standsAt (c # r) b s" and f: "\<And>t. atRead c r b t \<Longrightarrow> runsTo (f (Some c)) t Q"
  then obtain t where t: "getChar s = (Inr (nextChar s), t)" "current t = nextChar s" "justRead t" "remaining t = tl (remaining s)"
      "token_buffer t = token_buffer s" "nextChar s = (case remaining s of [] \<Rightarrow> None | c # _ \<Rightarrow> Some c)"
    using getChar_run [of s] by (auto simp: standsAt_def)
  with s have "atRead c r b t" "nextChar s = Some c" by (simp_all add: atRead_def standsAt_def)
  with f [of t] t(1) show ?thesis by (simp add: runsTo_def run_simps)
qed

lemma add_current: "atRead c r b s \<Longrightarrow> (\<And>t. atRead c r (b @ [c]) t \<Longrightarrow> runsTo (f ()) t Q) \<Longrightarrow> runsTo (andThen addCurrent f) s Q"
  by (auto simp: runsTo_def addCurrent_def run_simps atRead_def justRead_def remaining_def)

lemma add_char: "atRead c r b s \<Longrightarrow> (\<And>t. atRead c r (b @ [d]) t \<Longrightarrow> runsTo (f ()) t Q) \<Longrightarrow> runsTo (andThen (addChar d) f) s Q"
  by (auto simp: runsTo_def addChar_def run_simps atRead_def justRead_def remaining_def)

section \<open>Strings\<close>

text \<open>The ranges of the lexer are those of the standard.\<close>

lemma stringChar_ranges:
  assumes "tailRanges (of_char c) = Some rs" "0x80 \<le> (of_char c :: nat)"
  shows "stringChar c = rangeStep rs"
  using assms by (auto simp: tailRanges_def stringChar_def Let_def split: if_splits)

lemma stringChar_plain:
  assumes "0x20 \<le> (of_char c :: nat)" "(of_char c :: nat) \<le> 0x7F" "(of_char c :: nat) \<noteq> 0x22" "(of_char c :: nat) \<noteq> 0x5C"
  shows "stringChar c = goOn addCurrent"
  using assms by (simp add: stringChar_def Let_def)

lemma rangeLoop_reads:
  "list_all2 (\<lambda>g d. inRange g (of_char d)) gs ds \<Longrightarrow> standsAt (ds @ r) b s \<Longrightarrow>
     runsTo (rangeLoop gs) s (\<lambda>x t. x \<and> standsAt r (b @ ds) t)"
proof (induction gs ds arbitrary: b s rule: list_all2_induct)
  case (Cons g gs d ds)
  show ?case
    unfolding rangeLoop.simps
  proof (rule read_char)
    show "standsAt (d # ds @ r) b s" using Cons.prems by simp
    fix t :: "'a lexer" assume t: "atRead d (ds @ r) b t"
    have "runsTo (andThen addCurrent (\<lambda>_. rangeLoop gs)) t (\<lambda>x t. x \<and> standsAt r (b @ d # ds) t)"
      using t by (rule add_current) (use Cons.IH [of "b @ [d]"] in \<open>simp add: atRead_stands\<close>)
    then show "runsTo (if case Some d of None \<Rightarrow> False | Some x \<Rightarrow> fst g \<le> of_char x \<and> of_char x \<le> snd g
        then andThen addCurrent (\<lambda>_. rangeLoop gs)
        else andThen (setError ''invalid string: ill-formed UTF-8 byte'') (\<lambda>_. ok False)) t (\<lambda>x t. x \<and> standsAt r (b @ d # ds) t)"
      using Cons.hyps(1) by (simp add: inRange_def)
  qed
qed (simp add: runsTo_ok)

lemma rangeStep_reads:
  assumes "list_all2 (\<lambda>g d. inRange g (of_char d)) gs ds" "atRead c (ds @ r) b s"
  shows "runsTo (rangeStep gs) s (\<lambda>x t. x = None \<and> standsAt r (b @ c # ds) t)"
proof -
  have "runsTo (nextByteInRange gs) s (\<lambda>x t. x \<and> standsAt r (b @ c # ds) t)"
    unfolding nextByteInRange_def using assms(2)
  proof (rule add_current)
    fix t :: "'a lexer" assume "atRead c (ds @ r) (b @ [c]) t"
    from rangeLoop_reads [OF assms(1) atRead_stands [OF this]] show "runsTo (rangeLoop gs) t (\<lambda>x t. x \<and> standsAt r (b @ c # ds) t)"
      by simp
  qed
  then show ?thesis
    unfolding rangeStep_def by (rule runsTo_bind) (auto intro: runsTo_ok)
qed

lemma hexValue_hexDigit: "d < 16 \<Longrightarrow> hexValue (hexDigit d) = Some d"
proof -
  assume "d < 16"
  then have "d \<in> set [0..<16]" by simp
  moreover have "list_all (\<lambda>d. hexValue (hexDigit d) = Some d) [0..<16]" by code_simp
  ultimately show ?thesis by (simp add: list_all_iff)
qed

lemma getCodepoint_reads:
  assumes "a < 16" "b < 16" "c < 16" "d < 16" "standsAt (hexDigit a # hexDigit b # hexDigit c # hexDigit d # r) buf s"
  shows "runsTo getCodepoint s (\<lambda>x t. x = Some (a * 4096 + b * 256 + c * 16 + d) \<and> atRead (hexDigit d) r buf t)"
  unfolding getCodepoint_def codepointLoop.simps
  by (rule read_char [OF assms(5)], simp add: hexValue_hexDigit assms,
      rule read_char [OF atRead_stands], assumption, simp add: hexValue_hexDigit assms,
      rule read_char [OF atRead_stands], assumption, simp add: hexValue_hexDigit assms,
      rule read_char [OF atRead_stands], assumption, simp add: hexValue_hexDigit assms,
      rule runsTo_ok, simp add: push_bit_eq_mult)

lemma unicodeStep_control:
  assumes "n \<le> 0x1F" "standsAt (drop 2 (unicodeEscape n) @ r) b s"
  shows "runsTo unicodeStep s (\<lambda>x t. x = None \<and> standsAt r (b @ [char_of n]) t)"
proof -
  have "runsTo getCodepoint s (\<lambda>x t. x = Some n \<and> atRead (hexDigit (n mod 16)) r b t)"
    using getCodepoint_reads [of "n div 4096 mod 16" "n div 256 mod 16" "n div 16 mod 16" "n mod 16" r b s] assms
    by (simp add: unicodeEscape_def div_mult_mod_eq)
  then show ?thesis
    unfolding unicodeStep_def
  proof (rule runsTo_bind)
    fix x and t :: "'a lexer" assume t: "x = Some n \<and> atRead (hexDigit (n mod 16)) r b t"
    have "runsTo (andThen (addChar (char_of n)) (\<lambda>_. ok None)) t (\<lambda>x t. x = None \<and> standsAt r (b @ [char_of n]) t)"
      using t by (elim conjE add_char) (auto intro!: runsTo_ok atRead_stands)
    then show "runsTo (case x of None \<Rightarrow> stopWith badHex | Some codepoint1 \<Rightarrow>
         if 0xD800 \<le> codepoint1 \<and> codepoint1 \<le> 0xDBFF then lowSurrogate codepoint1
         else if 0xDC00 \<le> codepoint1 \<and> codepoint1 \<le> 0xDFFF then stopWith badLow
         else goOn (addBytes (utf8Bytes codepoint1))) t (\<lambda>x t. x = None \<and> standsAt r (b @ [char_of n]) t)"
      using t assms(1) by (simp add: goOn_def addBytes_def utf8Bytes_def andThen_assoc andThen_okI)
  qed
qed

lemma escapeStep_short:
  assumes "(d, c) \<in> set [(CHR ''b'', CHR 0x08), (CHR ''t'', CHR 0x09), (CHR ''n'', CHR 0x0A), (CHR ''f'', CHR 0x0C),
      (CHR ''r'', CHR 0x0D), (CHR 0x22, CHR 0x22), (CHR 0x5C, CHR 0x5C)]" "standsAt (d # r) b s"
  shows "runsTo escapeStep s (\<lambda>x t. x = None \<and> standsAt r (b @ [c]) t)"
  unfolding escapeStep_def
proof (rule read_char [OF assms(2)])
  fix t :: "'a lexer" assume "atRead d r b t"
  then have "runsTo (goOn (addChar c)) t (\<lambda>x t. x = None \<and> standsAt r (b @ [c]) t)"
    unfolding goOn_def by (rule add_char) (auto intro!: runsTo_ok atRead_stands)
  with assms(1) show "runsTo (if Some d = Some CHR 0x22 then goOn (addChar (CHR 0x22))
     else if Some d = Some (CHR 0x5C) then goOn (addChar (CHR 0x5C))
     else if Some d = Some (CHR ''/'') then goOn (addChar (CHR ''/''))
     else if Some d = Some (CHR ''b'') then goOn (addChar (CHR 0x08))
     else if Some d = Some (CHR ''f'') then goOn (addChar (CHR 0x0C))
     else if Some d = Some (CHR ''n'') then goOn (addChar (CHR 0x0A))
     else if Some d = Some (CHR ''r'') then goOn (addChar (CHR 0x0D))
     else if Some d = Some (CHR ''t'') then goOn (addChar (CHR 0x09))
     else if Some d = Some (CHR ''u'') then unicodeStep
     else stopWith ''invalid string: forbidden character after backslash'') t (\<lambda>x t. x = None \<and> standsAt r (b @ [c]) t)"
    by auto
qed

lemma escapeStep_control:
  assumes "(of_char c :: nat) \<le> 0x1F" "standsAt (tl (unicodeEscape (of_char c)) @ r) b s"
  shows "runsTo escapeStep s (\<lambda>x t. x = None \<and> standsAt r (b @ [c]) t)"
  unfolding escapeStep_def
proof (rule read_char [of "CHR ''u''" "drop 2 (unicodeEscape (of_char c)) @ r" b])
  show "standsAt (CHR ''u'' # drop 2 (unicodeEscape (of_char c)) @ r) b s"
    using assms(2) by (simp add: unicodeEscape_def)
  fix t :: "'a lexer" assume "atRead (CHR ''u'') (drop 2 (unicodeEscape (of_char c)) @ r) b t"
  then have "runsTo unicodeStep t (\<lambda>x t. x = None \<and> standsAt r (b @ [c]) t)"
    using unicodeStep_control [OF assms(1), of r b t] by (simp add: atRead_stands)
  then show "runsTo (if Some CHR ''u'' = Some CHR 0x22 then goOn (addChar (CHR 0x22))
     else if Some (CHR ''u'') = Some (CHR 0x5C) then goOn (addChar (CHR 0x5C))
     else if Some (CHR ''u'') = Some (CHR ''/'') then goOn (addChar (CHR ''/''))
     else if Some (CHR ''u'') = Some (CHR ''b'') then goOn (addChar (CHR 0x08))
     else if Some (CHR ''u'') = Some (CHR ''f'') then goOn (addChar (CHR 0x0C))
     else if Some (CHR ''u'') = Some (CHR ''n'') then goOn (addChar (CHR 0x0A))
     else if Some (CHR ''u'') = Some (CHR ''r'') then goOn (addChar (CHR 0x0D))
     else if Some (CHR ''u'') = Some (CHR ''t'') then goOn (addChar (CHR 0x09))
     else if Some (CHR ''u'') = Some (CHR ''u'') then unicodeStep
     else stopWith ''invalid string: forbidden character after backslash'') t (\<lambda>x t. x = None \<and> standsAt r (b @ [c]) t)"
    by simp
qed

lemma stringStep_read:
  assumes "standsAt (c # r) b s" "\<And>t. atRead c r b t \<Longrightarrow> runsTo (stringChar c) t Q"
  shows "runsTo stringStep s Q"
  unfolding stringStep_def by (rule read_char [OF assms(1)]) (simp add: assms(2))

lemma escape_pairs:
  assumes "map_of [(0x08, CHR ''b''), (0x09, CHR ''t''), (0x0A, CHR ''n''), (0x0C, CHR ''f''), (0x0D, CHR ''r''),
      (0x22, CHR 0x22), (0x5C, CHR 0x5C)] (of_char c :: nat) = Some d"
  shows "(d, c) \<in> set [(CHR ''b'', CHR 0x08), (CHR ''t'', CHR 0x09), (CHR ''n'', CHR 0x0A), (CHR ''f'', CHR 0x0C),
      (CHR ''r'', CHR 0x0D), (CHR 0x22, CHR 0x22), (CHR 0x5C, CHR 0x5C)]"
proof -
  have "(of_char c :: nat, d) \<in> set [(0x08, CHR ''b''), (0x09, CHR ''t''), (0x0A, CHR ''n''), (0x0C, CHR ''f''), (0x0D, CHR ''r''),
      (0x22, CHR 0x22), (0x5C, CHR 0x5C)]" using assms by (rule map_of_SomeD)
  moreover have "(of_char c :: nat) = n \<Longrightarrow> c = char_of n" for n by (metis char_of_char)
  ultimately have "(d, c) \<in> (\<lambda>(n, e). (e, char_of n)) ` set [(0x08 :: nat, CHR ''b''), (0x09, CHR ''t''), (0x0A, CHR ''n''),
      (0x0C, CHR ''f''), (0x0D, CHR ''r''), (0x22, CHR 0x22), (0x5C, CHR 0x5C)]"
    by (intro image_eqI [of _ _ "(of_char c, d)"]) simp_all
  then show ?thesis by (simp add: char_of_def bit_0)
qed

text \<open>How a character is written: in two characters, as a number, or as it is.\<close>

lemma escapedChar_cases:
  obtains (high) "0x80 \<le> (of_char c :: nat)"
    | (short) d where "(d, c) \<in> set [(CHR ''b'', CHR 0x08), (CHR ''t'', CHR 0x09), (CHR ''n'', CHR 0x0A), (CHR ''f'', CHR 0x0C),
        (CHR ''r'', CHR 0x0D), (CHR 0x22, CHR 0x22), (CHR 0x5C, CHR 0x5C)]" "escapedChar c = [CHR 0x5C, d]"
    | (control) "(of_char c :: nat) \<le> 0x1F" "escapedChar c = unicodeEscape (of_char c)"
    | (plain) "0x20 \<le> (of_char c :: nat)" "(of_char c :: nat) \<le> 0x7F" "(of_char c :: nat) \<noteq> 0x22" "(of_char c :: nat) \<noteq> 0x5C"
        "escapedChar c = [c]"
proof -
  show thesis
  proof (cases "map_of [(0x08, CHR ''b''), (0x09, CHR ''t''), (0x0A, CHR ''n''), (0x0C, CHR ''f''), (0x0D, CHR ''r''),
       (0x22, CHR 0x22), (0x5C, CHR 0x5C)] (of_char c :: nat)")
    case None
    then have esc: "escapedChar c = (if (of_char c :: nat) \<le> 0x1F then unicodeEscape (of_char c) else [c])"
      and no: "(of_char c :: nat) \<noteq> 0x22" "(of_char c :: nat) \<noteq> 0x5C"
      by (simp_all add: escapedChar_def split: if_splits)
    show thesis
    proof (cases "(of_char c :: nat) \<le> 0x1F")
      case True
      then show thesis by (rule control) (simp add: esc True)
    next
      case False
      show thesis
      proof (cases "0x80 \<le> (of_char c :: nat)")
        case low: False
        show thesis by (rule plain) (use False low no esc in auto)
      qed (rule high)
    qed
  next
    case (Some d)
    then have "escapedChar c = [CHR 0x5C, d]" by (simp add: escapedChar_def)
    moreover have "(d, c) \<in> set [(CHR ''b'', CHR 0x08), (CHR ''t'', CHR 0x09), (CHR ''n'', CHR 0x0A), (CHR ''f'', CHR 0x0C),
      (CHR ''r'', CHR 0x0D), (CHR 0x22, CHR 0x22), (CHR 0x5C, CHR 0x5C)]"
      by (rule escape_pairs [OF Some])
    ultimately show thesis by (rule short [rotated])
  qed
qed

text \<open>One character, with the bytes that belong to it.\<close>

lemma stringStep_reads:
  assumes rs: "tailRanges (of_char c) = Some rs" "list_all2 (\<lambda>g d. inRange g (of_char d)) rs ds"
    and s: "standsAt (escapedChar c @ ds @ r) b s"
  shows "runsTo stringStep s (\<lambda>x t. x = None \<and> standsAt r (b @ c # ds) t)"
proof -
  have escape: "runsTo stringStep s Q" if "escapedChar c @ ds @ r = CHR 0x5C # r'"
      "\<And>t. standsAt r' b t \<Longrightarrow> runsTo escapeStep t Q" for r' and Q :: "token_type option \<Rightarrow> 'a lexer \<Rightarrow> bool"
    using s that by (intro stringStep_read [of "CHR 0x5C" r' b]) (simp_all add: stringChar_def atRead_stands)
  show ?thesis
  proof (cases rule: escapedChar_cases [of c])
    case high
    have "standsAt (c # ds @ r) b s" using s by (simp add: escapedChar_high [OF high])
    then show ?thesis
    proof (rule stringStep_read)
      fix t :: "'a lexer" assume "atRead c (ds @ r) b t"
      from rangeStep_reads [OF rs(2) this] show "runsTo (stringChar c) t (\<lambda>x t. x = None \<and> standsAt r (b @ c # ds) t)"
        by (simp add: stringChar_ranges [OF rs(1) high])
    qed
  next
    case plain
    then have ds: "ds = []" using rs by (simp add: tailRanges_def)
    have "standsAt (c # r) b s" using s by (simp add: plain(5) ds)
    then show ?thesis
    proof (rule stringStep_read)
      fix t :: "'a lexer" assume "atRead c r b t"
      then show "runsTo (stringChar c) t (\<lambda>x t. x = None \<and> standsAt r (b @ c # ds) t)"
        unfolding stringChar_plain [OF plain(1-4)] goOn_def
        by (rule add_current) (auto intro!: runsTo_ok simp: ds atRead_stands)
    qed
  next
    case (short d)
    then have ds: "ds = []" using rs by (auto simp: tailRanges_def)
    show ?thesis
      by (rule escape [of "d # r"]) (use escapeStep_short [OF short(1)] in \<open>auto simp: short(2) ds\<close>)
  next
    case control
    then have ds: "ds = []" using rs by (simp add: tailRanges_def)
    show ?thesis
      by (rule escape [of "tl (unicodeEscape (of_char c)) @ r"])
        (use escapeStep_control [OF control(1)] in \<open>auto simp: control(2) ds unicodeEscape_def\<close>)
  qed
qed

lemma utf8Ok_split: "utf8Ok rs cs \<Longrightarrow> \<exists>ds r. cs = ds @ r \<and> list_all2 (\<lambda>g d. inRange g (of_char d)) rs ds \<and> validUtf8 r"
proof (induction rs cs rule: utf8Ok.induct)
  case (3 r rs c cs)
  then obtain ds t where "cs = ds @ t" "list_all2 (\<lambda>g d. inRange g (of_char d)) rs ds" "validUtf8 t" by auto
  with 3 show ?case by (intro exI [of _ "c # ds"] exI [of _ t]) auto
qed auto

lemma list_all2_member: "list_all2 P xs ys \<Longrightarrow> y \<in> set ys \<Longrightarrow> \<exists>x \<in> set xs. P x y"
  by (induction rule: list_all2_induct) auto

lemma tailRanges_high: "tailRanges b = Some rs \<Longrightarrow> g \<in> set rs \<Longrightarrow> 0x80 \<le> fst g"
  by (auto simp: tailRanges_def split: if_splits)

lemma stringLoop_reads:
  "validUtf8 str \<Longrightarrow> length str < n \<Longrightarrow> standsAt (escapedText str @ CHR 0x22 # r) b s \<Longrightarrow>
     runsTo (stringLoop n) s (\<lambda>x t. x = TValueString \<and> standsAt r (b @ str) t)"
proof (induction n arbitrary: str b s)
  case (Suc n)
  show ?case
  proof (cases str)
    case Nil
    with Suc.prems have "standsAt (CHR 0x22 # r) b s" by simp
    then have "runsTo stringStep s (\<lambda>x t. x = Some TValueString \<and> standsAt r b t)"
      by (rule stringStep_read) (auto simp: stringChar_def intro!: runsTo_ok atRead_stands)
    with Nil show ?thesis
      unfolding stringLoop.simps by (elim runsTo_bind) (auto intro: runsTo_ok)
  next
    case (Cons c cs)
    with Suc.prems(1) obtain rs where rs: "tailRanges (of_char c) = Some rs" "utf8Ok rs cs"
      by (auto split: option.splits)
    then obtain ds t where ds: "cs = ds @ t" "list_all2 (\<lambda>g d. inRange g (of_char d)) rs ds" "validUtf8 t"
      using utf8Ok_split by blast
    have "escapedChar d = [d]" if "d \<in> set ds" for d
    proof -
      obtain g where "g \<in> set rs" "inRange g (of_char d)" using list_all2_member [OF ds(2) \<open>d \<in> set ds\<close>] by blast
      then have "0x80 \<le> (of_char d :: nat)" using tailRanges_high [OF rs(1), of g] by (simp add: inRange_def)
      then show ?thesis by (rule escapedChar_high)
    qed
    then have "escapedText ds = ds" by (induction ds) auto
    then have "escapedText str = escapedChar c @ ds @ escapedText t" using Cons ds(1) by (simp add: escapedText_def)
    then have "standsAt (escapedChar c @ ds @ escapedText t @ CHR 0x22 # r) b s" using Suc.prems(3) by simp
    from stringStep_reads [OF rs(1) ds(2) this] show ?thesis
      unfolding stringLoop.simps
    proof (rule runsTo_bind)
      fix x :: "token_type option" and u :: "'a lexer" assume "x = None \<and> standsAt (escapedText t @ CHR 0x22 # r) (b @ c # ds) u"
      with Suc.IH [OF ds(3), of "b @ c # ds" u] Suc.prems(2) Cons ds(1)
      show "runsTo (case x of None \<Rightarrow> stringLoop n | Some t \<Rightarrow> ok t) u (\<lambda>x t. x = TValueString \<and> standsAt r (b @ str) t)"
        by simp
    qed
  qed
qed simp

lemma reset_state:
  "remaining (s\<lparr>token_buffer := x, token_string := y\<rparr>) = remaining s" "lexOk (s\<lparr>token_buffer := x, token_string := y\<rparr>) = lexOk s"
  "justRead (s\<lparr>token_buffer := x, token_string := y\<rparr>) = justRead s"
  by (simp_all add: remaining_def lexOk_def justRead_def split: option.split)

lemma scanString_reads:
  assumes "validUtf8 str" "length str < n" "standsAt (escapedText str @ CHR 0x22 # r) b s"
  shows "runsTo (scanString n) s (\<lambda>x t. x = TValueString \<and> standsAt r str t)"
  unfolding scanString_def
proof (rule runsTo_bind)
  show "runsTo resetToken s (\<lambda>_ t. standsAt (escapedText str @ CHR 0x22 # r) '''' t)"
    using assms(3) by (simp add: runsTo_def resetToken_def run_simps standsAt_def reset_state)
  fix t :: "'a lexer" assume "standsAt (escapedText str @ CHR 0x22 # r) '''' t"
  from stringLoop_reads [OF assms(1,2) this] show "runsTo (stringLoop n) t (\<lambda>x t. x = TValueString \<and> standsAt r str t)" by simp
qed

section \<open>Numbers\<close>

definition firstOf :: "string \<Rightarrow> char option" where
  "firstOf r = (case r of [] \<Rightarrow> None | c # _ \<Rightarrow> Some c)"

definition stopsNumber :: "string \<Rightarrow> bool" where
  "stopsNumber r \<longleftrightarrow> (case r of [] \<Rightarrow> True | c # _ \<Rightarrow> \<not> isDigit c \<and> c \<notin> {CHR ''.'', CHR ''e'', CHR ''E''})"

definition behind :: "string \<Rightarrow> string \<Rightarrow> 'f lexer \<Rightarrow> bool" where
  "behind r b u \<longleftrightarrow> justRead u \<and> current u = firstOf r \<and> remaining u = tl r \<and> token_buffer u = b"

lemma number_goto:
  assumes "standsAt (c # r) b s" "numberStep (decimal_point_char cf) st (Some c) = NGoto c st'"
    and "\<And>t. standsAt r (b @ [c]) t \<Longrightarrow> runsTo (numberLoop n cf st' (numberType st ty)) t Q"
  shows "runsTo (numberLoop (Suc n) cf st ty) s Q"
  unfolding numberLoop.simps
proof (rule read_char [OF assms(1)])
  fix t :: "'a lexer" assume "atRead c r b t"
  then have "runsTo (andThen (addChar c) (\<lambda>_. numberLoop n cf st' (numberType st ty))) t Q"
    by (rule add_char) (rule assms(3), rule atRead_stands)
  then show "runsTo (case numberStep (decimal_point_char cf) st (Some c) of
       NGoto x st' \<Rightarrow> andThen (addChar x) (\<lambda>_. numberLoop n cf st' (numberType st ty))
     | NDone \<Rightarrow> finishNumber cf (numberType st ty) | NError m \<Rightarrow> failWith m) t Q"
    by (simp add: assms(2))
qed

lemma number_done:
  assumes "standsAt r b s" "numberStep (decimal_point_char cf) st (firstOf r) = NDone"
    and "\<And>u. behind r b u \<Longrightarrow> runsTo (finishNumber cf (numberType st ty)) u Q"
  shows "runsTo (numberLoop (Suc n) cf st ty) s Q"
proof -
  have "lexOk s" using assms(1) by (simp add: standsAt_def)
  from getChar_run [OF this] obtain t where t: "getChar s = (Inr (nextChar s), t)" "current t = nextChar s" "justRead t"
      "remaining t = tl (remaining s)" "token_buffer t = token_buffer s" "nextChar s = (case remaining s of [] \<Rightarrow> None | c # _ \<Rightarrow> Some c)"
    by blast
  then have "behind r b t" "nextChar s = firstOf r"
    using assms(1) by (simp_all add: behind_def standsAt_def firstOf_def)
  with t(1) assms(2,3) show ?thesis by (simp add: runsTo_def run_simps)
qed

lemma stops_done:
  "stopsNumber r \<Longrightarrow> st \<in> {NZero, NAny1, NDecimal2, NAny2} \<Longrightarrow> numberStep point st (firstOf r) = NDone"
proof (cases r)
  case (Cons c t)
  assume "stopsNumber r" "st \<in> {NZero, NAny1, NDecimal2, NAny2}"
  moreover from this Cons have "\<not> isDigit c" "c \<noteq> CHR ''.''" "c \<noteq> CHR ''e''" "c \<noteq> CHR ''E''"
    by (simp_all add: stopsNumber_def)
  ultimately show ?thesis
    using Cons by (cases st) (simp_all add: numberStep_def firstOf_def digitOr_def pointOr_def exponentOr_def)
qed (auto simp: numberStep_def firstOf_def digitOr_def pointOr_def exponentOr_def)

lemma numberLoop_digits:
  assumes "list_all isDigit ds" "stopsNumber r" "length ds < n" "standsAt (ds @ r) b s"
    and "\<And>u. behind r (b @ ds) u \<Longrightarrow> runsTo (finishNumber cf ty) u Q"
  shows "runsTo (numberLoop n cf NAny1 ty) s Q"
  using assms(1,3-5)
proof (induction ds arbitrary: n b s)
  case Nil
  then obtain m where "n = Suc m" by (cases n) auto
  show ?case
    unfolding \<open>n = Suc m\<close>
  proof (rule number_done)
    show "standsAt r b s" using Nil.prems(3) by simp
    show "numberStep (decimal_point_char cf) NAny1 (firstOf r) = NDone" by (rule stops_done [OF assms(2)]) simp
    fix u :: "'a lexer" assume "behind r b u"
    then show "runsTo (finishNumber cf (numberType NAny1 ty)) u Q" using Nil.prems(4) [of u] by (simp add: numberType_def)
  qed
next
  case (Cons d ds)
  then obtain m where m: "n = Suc m" "length ds < m" by (cases n) auto
  show ?case
    unfolding m(1)
  proof (rule number_goto)
    show "standsAt (d # ds @ r) b s" using Cons.prems(3) by simp
    show "numberStep (decimal_point_char cf) NAny1 (Some d) = NGoto d NAny1"
      using Cons.prems(1) by (simp add: numberStep_def digitOr_def)
    fix t :: "'a lexer" assume "standsAt (ds @ r) (b @ [d]) t"
    moreover have "behind r (b @ d # ds) u" if "behind r ((b @ [d]) @ ds) u" for u :: "'a lexer"
      using that by simp
    ultimately have "runsTo (numberLoop m cf NAny1 ty) t Q"
      using Cons.prems(1) by (intro Cons.IH [OF _ m(2)] Cons.prems(4)) simp
    then show "runsTo (numberLoop m cf NAny1 (numberType NAny1 ty)) t Q" by (simp add: numberType_def)
  qed
qed

lemma showNat_first: "showNat n = CHR ''0'' # ds \<Longrightarrow> n = 0"
proof (induction n arbitrary: ds rule: showNat.induct)
  case (1 n)
  have zero: "d < 10 \<Longrightarrow> digitChar d = CHR ''0'' \<Longrightarrow> d = 0" for d
    using digitValue_digitChar [of d] by (simp add: digitValue_def)
  show ?case
  proof (cases "n < 10")
    case True
    with 1 zero show ?thesis by (simp add: showNat_small)
  next
    case False
    then obtain es where "showNat (n div 10) = CHR ''0'' # es"
      using 1(2) showNat_div [of n] by (cases "showNat (n div 10)") auto
    with 1(1) False have "n div 10 = 0" by blast
    with False show ?thesis by simp
  qed
qed

lemma finishNumber_unget:
  assumes "behind r b u"
  obtains t where "ungetChar u = (Inr (), t)" "standsAt r b t"
  using ungetChar_run [of u] assms
  by (cases r) (auto simp: behind_def firstOf_def standsAt_def)

lemma stands_update:
  "standsAt r b (s\<lparr>value_unsigned := i\<rparr>) = standsAt r b s" "standsAt r b (s\<lparr>value_integer := i\<rparr>) = standsAt r b s"
  "standsAt r b (s\<lparr>value_float := x\<rparr>) = standsAt r b s"
  by (simp_all add: standsAt_def quiet_state)

lemma finishNumber_float:
  assumes "behind r t u"
  shows "runsTo (finishNumber cf TValueFloat) u (\<lambda>x v. x = TValueFloat \<and> value_float v = strtod (numbers cf) t \<and> standsAt r t v)"
proof -
  obtain v where v: "ungetChar u = (Inr (), v)" "standsAt r t v" by (rule finishNumber_unget [OF assms])
  moreover have "token_buffer v = t" using v(2) by (simp add: standsAt_def)
  ultimately show ?thesis
    by (simp add: runsTo_def finishNumber_def run_simps Let_def stands_update)
qed

lemma finishNumber_unsigned:
  assumes "int m < 2 ^ 64" "behind r (showNat m) u"
  shows "runsTo (finishNumber cf TValueUnsigned) u (\<lambda>x t. x = TValueUnsigned \<and> value_unsigned t = int m \<and> standsAt r (showNat m) t)"
proof -
  obtain t where t: "ungetChar u = (Inr (), t)" "standsAt r (showNat m) t" by (rule finishNumber_unget [OF assms(2)])
  have "strtoull (showNat m) = Some (int m)" using assms(1) by (simp add: strtoull_def)
  moreover have "token_buffer t = showNat m" using t(2) by (simp add: standsAt_def)
  ultimately show ?thesis
    using t by (simp add: runsTo_def finishNumber_def run_simps Let_def stands_update)
qed

lemma finishNumber_integer:
  assumes "int m \<le> 2 ^ 63" "behind r (CHR ''-'' # showNat m) u"
  shows "runsTo (finishNumber cf TValueInteger) u (\<lambda>x t. x = TValueInteger \<and> value_integer t = - int m \<and>
    standsAt r (CHR ''-'' # showNat m) t)"
proof -
  obtain t where t: "ungetChar u = (Inr (), t)" "standsAt r (CHR ''-'' # showNat m) t" by (rule finishNumber_unget [OF assms(2)])
  have "strtoll (CHR ''-'' # showNat m) = Some (- int m)" using assms(1) by (simp add: strtoll_def)
  moreover have "token_buffer t = CHR ''-'' # showNat m" using t(2) by (simp add: standsAt_def)
  ultimately show ?thesis
    using t by (simp add: runsTo_def finishNumber_def run_simps Let_def stands_update)
qed

lemma scanNumber_start:
  assumes "atRead c r b s"
    and "\<And>t. standsAt r [c] t \<Longrightarrow>
      runsTo (numberLoop n cf (if c = CHR ''-'' then NMinus else if c = CHR ''0'' then NZero else NAny1) TValueUnsigned) t Q"
  shows "runsTo (scanNumber n cf) s Q"
proof -
  let ?u = "s\<lparr>token_buffer := '''', token_string := [c]\<rparr>" and ?t = "s\<lparr>token_buffer := [c], token_string := [c]\<rparr>"
  have run: "resetToken s = (Inr (), ?u)" "addCurrent ?u = (Inr (), ?t)"
    using assms(1) by (simp_all add: resetToken_def addCurrent_def run_simps atRead_def)
  let ?st = "\<lambda>s :: 'a lexer. if current s = Some (CHR ''-'') then NMinus else if current s = Some (CHR ''0'') then NZero else NAny1"
  have stands: "standsAt r [c] ?t" and st: "?st ?t = (if c = CHR ''-'' then NMinus else if c = CHR ''0'' then NZero else NAny1)"
    using assms(1) by (simp_all add: atRead_def standsAt_def reset_state justRead_ok)
  have "runsTo (andThen getState (\<lambda>s. numberLoop n cf (?st s) TValueUnsigned)) ?t Q"
    unfolding runsTo_getState st by (rule assms(2) [OF stands])
  moreover have "scanNumber n cf s = (andThen getState (\<lambda>s. numberLoop n cf
      (if current s = Some (CHR ''-'') then NMinus else if current s = Some (CHR ''0'') then NZero else NAny1) TValueUnsigned)) ?t"
    unfolding scanNumber_def by (subst andThen_def, simp only: run prod.case sum.case, subst andThen_def, simp only: run prod.case sum.case)
  ultimately show ?thesis
    unfolding runsTo_def by (simp only:)
qed

text \<open>A number that is printed is read: 0 and up as unsigned, below as signed.\<close>

lemma scanNumber_unsigned:
  assumes "showNat m = c # ds" "int m < 2 ^ 64" "stopsNumber r" "length ds < n" "atRead c (ds @ r) b s"
  shows "runsTo (scanNumber n cf) s (\<lambda>x t. x = TValueUnsigned \<and> value_unsigned t = int m \<and> standsAt r (showNat m) t)"
proof (rule scanNumber_start [OF assms(5)])
  fix t :: "'a lexer" assume t: "standsAt (ds @ r) [c] t"
  have c: "isDigit c" "list_all isDigit ds" using showNat_digits [of m] assms(1) by simp_all
  then have minus: "c \<noteq> CHR ''-''" using isDigit_not_sign by blast
  show "runsTo (numberLoop n cf (if c = CHR ''-'' then NMinus else if c = CHR ''0'' then NZero else NAny1) TValueUnsigned) t
      (\<lambda>x t. x = TValueUnsigned \<and> value_unsigned t = int m \<and> standsAt r (showNat m) t)"
  proof (cases "c = CHR ''0''")
    case True
    then have "m = 0" using showNat_first assms(1) by simp
    then have ds: "ds = []" using assms(1) by (simp add: showNat_small)
    obtain k where k: "n = Suc k" using assms(4) by (cases n) auto
    have "runsTo (numberLoop (Suc k) cf NZero TValueUnsigned) t
      (\<lambda>x t. x = TValueUnsigned \<and> value_unsigned t = int m \<and> standsAt r (showNat m) t)"
      by (rule number_done [of r "[c]"])
        (use t ds stops_done [OF assms(3)] finishNumber_unsigned [OF assms(2)] assms(1) in \<open>simp_all add: numberType_def\<close>)
    with True k show ?thesis by simp
  next
    case False
    have "runsTo (numberLoop n cf NAny1 TValueUnsigned) t
      (\<lambda>x t. x = TValueUnsigned \<and> value_unsigned t = int m \<and> standsAt r (showNat m) t)"
      by (rule numberLoop_digits [OF c(2) assms(3,4) t])
        (use finishNumber_unsigned [OF assms(2)] assms(1) in simp)
    with False minus show ?thesis by simp
  qed
qed

lemma scanNumber_integer:
  assumes "0 < m" "int m \<le> 2 ^ 63" "stopsNumber r" "length (showNat m) < n" "atRead (CHR ''-'') (showNat m @ r) b s"
  shows "runsTo (scanNumber n cf) s (\<lambda>x t. x = TValueInteger \<and> value_integer t = - int m \<and> standsAt r (CHR ''-'' # showNat m) t)"
proof (rule scanNumber_start [OF assms(5)])
  fix t :: "'a lexer" assume t: "standsAt (showNat m @ r) [CHR ''-''] t"
  obtain c ds where ds: "showNat m = c # ds" by (cases "showNat m") auto
  then have c: "isDigit c" "list_all isDigit ds" "c \<noteq> CHR ''0''"
    using showNat_digits [of m] showNat_first [of m ds] assms(1) by auto
  obtain k where k: "n = Suc k" "length ds < k" using assms(4) ds by (cases n) auto
  have "runsTo (numberLoop (Suc k) cf NMinus TValueUnsigned) t
      (\<lambda>x t. x = TValueInteger \<and> value_integer t = - int m \<and> standsAt r (CHR ''-'' # showNat m) t)"
  proof (rule number_goto)
    show "standsAt (c # ds @ r) [CHR ''-''] t" using t ds by simp
    show "numberStep (decimal_point_char cf) NMinus (Some c) = NGoto c NAny1"
      using c by (simp add: numberStep_def digitOr_def)
    fix u :: "'a lexer" assume u: "standsAt (ds @ r) ([CHR ''-''] @ [c]) u"
    have "runsTo (numberLoop k cf NAny1 TValueInteger) u
        (\<lambda>x t. x = TValueInteger \<and> value_integer t = - int m \<and> standsAt r (CHR ''-'' # showNat m) t)"
      by (rule numberLoop_digits [OF c(2) assms(3) k(2) u]) (use finishNumber_integer [OF assms(2)] ds in simp)
    then show "runsTo (numberLoop k cf NAny1 (numberType NMinus TValueUnsigned)) u
        (\<lambda>x t. x = TValueInteger \<and> value_integer t = - int m \<and> standsAt r (CHR ''-'' # showNat m) t)"
      by (simp add: numberType_def)
  qed
  with k show "runsTo (numberLoop n cf (if CHR ''-'' = CHR ''-'' then NMinus else if CHR ''-'' = CHR ''0'' then NZero else NAny1)
      TValueUnsigned) t (\<lambda>x t. x = TValueInteger \<and> value_integer t = - int m \<and> standsAt r (CHR ''-'' # showNat m) t)"
    by simp
qed

text \<open>A text that is a floating-point number is read as one.\<close>

lemma numberLoop_run:
  assumes "numberRun st ty t = Some (st', TValueFloat)" "st' \<in> {NDecimal2, NAny2}" "decimal_point_char cf = CHR ''.''"
    and "stopsNumber r" "length t < n" "standsAt (t @ r) b s"
  shows "runsTo (numberLoop n cf st ty) s (\<lambda>x v. x = TValueFloat \<and> value_float v = strtod (numbers cf) (b @ t) \<and> standsAt r (b @ t) v)"
  using assms(1,5,6)
proof (induction t arbitrary: st ty n b s)
  case Nil
  then obtain m where n: "n = Suc m" by (cases n) auto
  show ?case
    unfolding n
  proof (rule number_done)
    show "standsAt r b s" using Nil.prems(3) by simp
    show "numberStep (decimal_point_char cf) st (firstOf r) = NDone" using Nil.prems(1) assms(2) by (intro stops_done [OF assms(4)]) auto
    fix u :: "'a lexer" assume "behind r b u"
    then show "runsTo (finishNumber cf (numberType st ty)) u
        (\<lambda>x v. x = TValueFloat \<and> value_float v = strtod (numbers cf) (b @ []) \<and> standsAt r (b @ []) v)"
      using finishNumber_float [of r b u cf] Nil.prems(1) assms(2) by (auto simp: numberType_def)
  qed
next
  case (Cons c t)
  then obtain m where m: "n = Suc m" "length t < m" by (cases n) auto
  obtain st1 where st1: "numberStep CHR ''.'' st (Some c) = NGoto c st1" "numberRun st1 (numberType st ty) t = Some (st', TValueFloat)"
    using Cons.prems(1) by (auto split: numberAction.splits if_splits)
  show ?case
    unfolding m(1)
  proof (rule number_goto)
    show "standsAt (c # t @ r) b s" using Cons.prems(3) by simp
    show "numberStep (decimal_point_char cf) st (Some c) = NGoto c st1" using st1(1) assms(3) by simp
    fix u :: "'a lexer" assume "standsAt (t @ r) (b @ [c]) u"
    from Cons.IH [OF st1(2) m(2) this]
    show "runsTo (numberLoop m cf st1 (numberType st ty)) u
        (\<lambda>x v. x = TValueFloat \<and> value_float v = strtod (numbers cf) (b @ c # t) \<and> standsAt r (b @ c # t) v)" by simp
  qed
qed

lemma scanNumber_float:
  assumes "floatToken (c # t)" "decimal_point_char cf = CHR ''.''" "stopsNumber r" "length t < n" "atRead c (t @ r) b s"
  shows "runsTo (scanNumber n cf) s (\<lambda>x v. x = TValueFloat \<and> value_float v = strtod (numbers cf) (c # t) \<and> standsAt r (c # t) v)"
proof (rule scanNumber_start [OF assms(5)])
  fix u :: "'a lexer" assume u: "standsAt (t @ r) [c] u"
  obtain st where st: "numberRun (numberStart c) TValueUnsigned t = Some (st, TValueFloat)" "st \<in> {NDecimal2, NAny2}"
    using assms(1) by (auto simp: floatToken_def)
  from numberLoop_run [OF st assms(2-4) u]
  show "runsTo (numberLoop n cf (if c = CHR ''-'' then NMinus else if c = CHR ''0'' then NZero else NAny1) TValueUnsigned) u
      (\<lambda>x v. x = TValueFloat \<and> value_float v = strtod (numbers cf) (c # t) \<and> standsAt r (c # t) v)"
    by (simp add: numberStart_def)
qed

section \<open>Tokens\<close>

lemma read_any:
  assumes "standsAt r b s" "\<And>t. behind r b t \<Longrightarrow> runsTo (f (firstOf r)) t Q"
  shows "runsTo (andThen getChar f) s Q"
proof -
  have "lexOk s" using assms(1) by (simp add: standsAt_def)
  from getChar_run [OF this] obtain t where t: "getChar s = (Inr (nextChar s), t)" "current t = nextChar s" "justRead t"
      "remaining t = tl (remaining s)" "token_buffer t = token_buffer s" "nextChar s = (case remaining s of [] \<Rightarrow> None | c # _ \<Rightarrow> Some c)"
    by blast
  then have "behind r b t" "nextChar s = firstOf r"
    using assms(1) by (simp_all add: behind_def standsAt_def firstOf_def)
  with t(1) assms(2) show ?thesis by (simp add: runsTo_def run_simps)
qed

lemma put_back:
  assumes "behind r b s" "\<And>t. standsAt r b t \<Longrightarrow> runsTo (f ()) t Q"
  shows "runsTo (andThen ungetChar f) s Q"
proof -
  obtain t where "ungetChar s = (Inr (), t)" "standsAt r b t" by (rule finishNumber_unget [OF assms(1)])
  with assms(2) show ?thesis by (simp add: runsTo_def run_simps)
qed

lemma behind_atRead: "behind (c # r) b s = atRead c r b s"
  by (auto simp: behind_def atRead_def firstOf_def)

lemma skipBom_reads:
  assumes "standsAt r b s" "firstOf r \<noteq> Some (CHR 0xEF)"
  shows "runsTo skipBom s (\<lambda>x t. x \<and> standsAt r b t)"
  unfolding skipBom_def
proof (rule read_any [OF assms(1)])
  fix t :: "'a lexer" assume t: "behind r b t"
  have "runsTo (andThen ungetChar (\<lambda>_. ok True)) t (\<lambda>x t. x \<and> standsAt r b t)"
    using t by (rule put_back) (simp add: runsTo_ok)
  then show "runsTo (if firstOf r = Some CHR 0xEF
      then andThen getChar (\<lambda>d. if d \<noteq> Some CHR 0xBB then ok False else andThen getChar (\<lambda>e. ok (e = Some CHR 0xBF)))
      else andThen ungetChar (\<lambda>_. ok True)) t (\<lambda>x t. x \<and> standsAt r b t)"
    using assms(2) by simp
qed

text \<open>What a token may start with: nothing the lexer skips.\<close>

definition startsToken :: "string \<Rightarrow> bool" where
  "startsToken r \<longleftrightarrow> \<not> isBlank (firstOf r) \<and> firstOf r \<noteq> Some (CHR ''/'') \<and> firstOf r \<noteq> Some (CHR 0xEF)"

definition leftAt :: "string \<Rightarrow> 'f lexer \<Rightarrow> bool" where
  "leftAt r s \<longleftrightarrow> lexOk s \<and> remaining s = r"

lemma stands_left: "standsAt r b s \<Longrightarrow> leftAt r s"
  by (simp add: standsAt_def leftAt_def)

lemma left_stands: "leftAt r s \<Longrightarrow> standsAt r (token_buffer s) s"
  by (simp add: standsAt_def leftAt_def)

lemma scanToken_reads:
  assumes "leftAt r s" "startsToken r" "0 < n"
    and "\<And>t b. behind r b t \<Longrightarrow> runsTo (case firstOf r of None \<Rightarrow> ok TEndOfInput | Some c \<Rightarrow> scanChar n cf c) t Q"
  shows "runsTo (scanToken n cf) s Q"
proof -
  let ?b = "token_buffer s"
  note s = left_stands [OF assms(1)]
  obtain m where m: "n = Suc m" using assms(3) by (cases n) auto
  have tok: "runsTo (scanCurrent n cf) t Q" if "behind r ?b t" for t
    unfolding scanCurrent_def runsTo_getState using assms(4) [OF that] that by (simp add: behind_def)
  have comments: "runsTo (andThen (skipComments n n cf) (\<lambda>b. if \<not> b then ok TParseError else scanCurrent n cf)) t Q"
    if t: "behind r ?b t" for t
  proof (rule runsTo_bind)
    have "current t \<noteq> Some (CHR ''/'')" using t assms(2) by (simp add: behind_def startsToken_def)
    then show "runsTo (skipComments n n cf) t (\<lambda>b u. b \<and> u = t)"
      by (auto simp: m runsTo_def run_simps)
  qed (use t tok in simp)
  have white: "runsTo (andThen (skipWhitespace n) (\<lambda>_. andThen (skipComments n n cf)
      (\<lambda>b. if \<not> b then ok TParseError else scanCurrent n cf))) t Q" if t: "standsAt r ?b t" for t
  proof (rule runsTo_bind)
    show "runsTo (skipWhitespace n) t (\<lambda>_. behind r ?b)"
      unfolding m skipWhitespace.simps using t
      by (rule read_any) (use assms(2) in \<open>auto simp: startsToken_def intro: runsTo_ok\<close>)
  qed (rule comments)
  have "runsTo (if chars_read_total (lexPos s) = 0 then skipBom else ok True) s (\<lambda>x t. x \<and> standsAt r ?b t)"
    using skipBom_reads [OF s] assms(2) s by (auto simp: startsToken_def intro: runsTo_ok)
  then show ?thesis
    unfolding scanToken_def runsTo_getState by (rule runsTo_bind) (use white in auto)
qed

text \<open>One token after the other.\<close>

lemma scanToken_char:
  assumes "leftAt (c # r) s" "startsToken [c]" "0 < n" "\<And>t b. atRead c r b t \<Longrightarrow> runsTo (scanChar n cf c) t Q"
  shows "runsTo (scanToken n cf) s Q"
proof (rule scanToken_reads [OF assms(1)])
  show "startsToken (c # r)" using assms(2) by (simp add: startsToken_def firstOf_def)
  fix t :: "'a lexer" and b assume "behind (c # r) b t"
  then show "runsTo (case firstOf (c # r) of None \<Rightarrow> ok TEndOfInput | Some c \<Rightarrow> scanChar n cf c) t Q"
    by (simp add: behind_atRead firstOf_def assms(4))
qed (rule assms(3))

lemma scan_punctuation:
  assumes "(c, tok) \<in> set [(CHR ''['', TBeginArray), (CHR '']'', TEndArray), (CHR ''{'', TBeginObject), (CHR ''}'', TEndObject),
      (CHR '':'', TNameSeparator), (CHR '','', TValueSeparator)]" "leftAt (c # r) s" "0 < n"
  shows "runsTo (scanToken n cf) s (\<lambda>x t. x = tok \<and> leftAt r t)"
proof (rule scanToken_char [OF assms(2) _ assms(3)])
  show "startsToken [c]" using assms(1) by (auto simp: startsToken_def firstOf_def isBlank_def)
  fix t :: "'a lexer" and b assume "atRead c r b t"
  then have "leftAt r t" by (intro stands_left atRead_stands)
  moreover have "scanChar n cf c = ok tok"
    using assms(1) unfolding list.set insert_iff prod.inject empty_iff by (elim disjE conjE FalseE; simp add: scanChar_def)
  ultimately show "runsTo (scanChar n cf c) t (\<lambda>x t. x = tok \<and> leftAt r t)" by (simp add: runsTo_ok)
qed

lemma scanLiteral_reads:
  "leftAt (ls @ r) s \<Longrightarrow> runsTo (scanLiteral ls tok) s (\<lambda>x t. x = tok \<and> leftAt r t)"
proof (induction ls arbitrary: s)
  case (Cons l ls)
  show ?case
    unfolding scanLiteral.simps
  proof (rule read_char)
    show "standsAt (l # ls @ r) (token_buffer s) s" using left_stands [OF Cons.prems] by simp
    fix t :: "'a lexer" assume "atRead l (ls @ r) (token_buffer s) t"
    then have "runsTo (scanLiteral ls tok) t (\<lambda>x t. x = tok \<and> leftAt r t)"
      by (intro Cons.IH stands_left atRead_stands)
    then show "runsTo (if Some l \<noteq> Some l then failWith ''invalid literal'' else scanLiteral ls tok) t
        (\<lambda>x t. x = tok \<and> leftAt r t)" by simp
  qed
qed (simp add: runsTo_ok)

lemma scan_literal:
  assumes "(c, ls, tok) \<in> set [(CHR ''t'', ''rue'', TLiteralTrue), (CHR ''f'', ''alse'', TLiteralFalse), (CHR ''n'', ''ull'', TLiteralNull)]"
    and "leftAt (c # ls @ r) s" "0 < n"
  shows "runsTo (scanToken n cf) s (\<lambda>x t. x = tok \<and> leftAt r t)"
proof (rule scanToken_char [OF assms(2) _ assms(3)])
  show "startsToken [c]" using assms(1) by (auto simp: startsToken_def firstOf_def isBlank_def)
  fix t :: "'a lexer" and b assume "atRead c (ls @ r) b t"
  then have "leftAt (ls @ r) t" by (intro stands_left atRead_stands)
  moreover have "scanChar n cf c = scanLiteral ls tok"
    using assms(1) unfolding list.set insert_iff prod.inject empty_iff by (elim disjE conjE FalseE; simp add: scanChar_def)
  ultimately show "runsTo (scanChar n cf c) t (\<lambda>x t. x = tok \<and> leftAt r t)" by (simp add: scanLiteral_reads)
qed

lemma scan_string:
  assumes "validUtf8 str" "leftAt (quoted str @ r) s" "length str < n"
  shows "runsTo (scanToken n cf) s (\<lambda>x t. x = TValueString \<and> token_buffer t = str \<and> leftAt r t)"
proof (rule scanToken_char [of "CHR 0x22" "escapedText str @ CHR 0x22 # r"])
  show "leftAt (CHR 0x22 # escapedText str @ CHR 0x22 # r) s" using assms(2) by (simp add: quoted_def)
  show "startsToken [CHR 0x22]" by (simp add: startsToken_def firstOf_def isBlank_def)
  fix t :: "'a lexer" and b assume "atRead (CHR 0x22) (escapedText str @ CHR 0x22 # r) b t"
  from scanString_reads [OF assms(1,3) atRead_stands [OF this]]
  have "runsTo (scanString n) t (\<lambda>x t. x = TValueString \<and> token_buffer t = str \<and> leftAt r t)"
    by (rule runsTo_mono) (simp add: standsAt_def leftAt_def)
  then show "runsTo (scanChar n cf (CHR 0x22)) t (\<lambda>x t. x = TValueString \<and> token_buffer t = str \<and> leftAt r t)"
    by (simp add: scanChar_def)
qed (use assms(3) in simp)

lemma scanChar_number: "isDigit c \<or> c = CHR ''-'' \<Longrightarrow> scanChar n cf c = scanNumber n cf \<and> startsToken [c]"
  by (auto simp: isDigit_def scanChar_def startsToken_def firstOf_def isBlank_def)

lemma scan_unsigned:
  assumes "int m < 2 ^ 64" "stopsNumber r" "leftAt (showNat m @ r) s" "length (showNat m) \<le> n"
  shows "runsTo (scanToken n cf) s (\<lambda>x t. x = TValueUnsigned \<and> value_unsigned t = int m \<and> leftAt r t)"
proof -
  obtain c ds where ds: "showNat m = c # ds" by (cases "showNat m") auto
  then have c: "isDigit c" using showNat_digits [of m] by simp
  show ?thesis
  proof (rule scanToken_char [of c "ds @ r"])
    fix t :: "'a lexer" and b assume "atRead c (ds @ r) b t"
    with ds assms(1,2,4) have "runsTo (scanNumber n cf) t (\<lambda>x t. x = TValueUnsigned \<and> value_unsigned t = int m \<and> standsAt r (showNat m) t)"
      by (intro scanNumber_unsigned) simp_all
    then show "runsTo (scanChar n cf c) t (\<lambda>x t. x = TValueUnsigned \<and> value_unsigned t = int m \<and> leftAt r t)"
      using scanChar_number [of c n cf] c by (auto elim!: runsTo_mono simp: stands_left)
  qed (use assms ds c scanChar_number [of c n cf] in auto)
qed

lemma scan_integer:
  assumes "0 < m" "int m \<le> 2 ^ 63" "stopsNumber r" "leftAt (CHR ''-'' # showNat m @ r) s" "length (showNat m) < n"
  shows "runsTo (scanToken n cf) s (\<lambda>x t. x = TValueInteger \<and> value_integer t = - int m \<and> leftAt r t)"
proof (rule scanToken_char [OF assms(4)])
  fix t :: "'a lexer" and b assume "atRead (CHR ''-'') (showNat m @ r) b t"
  from scanNumber_integer [OF assms(1-3,5) this, of cf]
  have "runsTo (scanNumber n cf) t (\<lambda>x t. x = TValueInteger \<and> value_integer t = - int m \<and> leftAt r t)"
    by (rule runsTo_mono) (auto intro: stands_left)
  then show "runsTo (scanChar n cf (CHR ''-'')) t (\<lambda>x t. x = TValueInteger \<and> value_integer t = - int m \<and> leftAt r t)"
    using scanChar_number [of "CHR ''-''" n cf] by simp
qed (use assms(5) scanChar_number [of "CHR ''-''" n cf] in auto)

lemma scan_float:
  assumes "floatToken t" "decimal_point_char cf = CHR ''.''" "stopsNumber r" "leftAt (t @ r) s" "length t \<le> n"
  shows "runsTo (scanToken n cf) s (\<lambda>x v. x = TValueFloat \<and> value_float v = strtod (numbers cf) t \<and> leftAt r v)"
proof -
  obtain c ds where ds: "t = c # ds" "isDigit c \<or> c = CHR ''-''" using assms(1) by (auto simp: floatToken_def split: list.splits)
  show ?thesis
  proof (rule scanToken_char [of c "ds @ r"])
    fix u :: "'a lexer" and b assume "atRead c (ds @ r) b u"
    with ds assms have "runsTo (scanNumber n cf) u (\<lambda>x v. x = TValueFloat \<and> value_float v = strtod (numbers cf) t \<and> standsAt r t v)"
      unfolding ds(1) by (intro scanNumber_float) simp_all
    then show "runsTo (scanChar n cf c) u (\<lambda>x v. x = TValueFloat \<and> value_float v = strtod (numbers cf) t \<and> leftAt r v)"
      using scanChar_number [OF ds(2), of n cf] by (auto elim!: runsTo_mono simp: stands_left)
  qed (use assms ds scanChar_number [OF ds(2), of n cf] in auto)
qed

text \<open>The input ends, or there is the null byte that a caller's buffer ends with.\<close>

definition endsInput :: "string \<Rightarrow> bool" where
  "endsInput r \<longleftrightarrow> r = [] \<or> hd r = CHR 0x00"

lemma scan_end:
  assumes "endsInput r" "leftAt r s" "0 < n"
  shows "runsTo (scanToken n cf) s (\<lambda>x t. x = TEndOfInput)"
proof (rule scanToken_reads [OF assms(2) _ assms(3)])
  show "startsToken r" using assms(1) by (cases r) (auto simp: endsInput_def startsToken_def firstOf_def isBlank_def)
  fix t :: "'a lexer" and b assume "behind r b t"
  show "runsTo (case firstOf r of None \<Rightarrow> ok TEndOfInput | Some c \<Rightarrow> scanChar n cf c) t (\<lambda>x t. x = TEndOfInput)"
    using assms(1) by (cases r) (auto simp: endsInput_def firstOf_def scanChar_def isDigit_def intro: runsTo_ok)
qed

end
