(* ===== verification/JsonRound.thy ===== *)
theory JsonRound
  imports JsonRead
begin

text \<open>
  What is printed is parsed back: the parser reads the compact text of a value and builds the value again, with
  the numbers that are not negative as unsigned ones (\<open>readBack\<close>).
\<close>

section \<open>What comes back\<close>

fun readBack :: "'f json \<Rightarrow> 'f json" where
  "readBack (JObject m) = JObject (map (\<lambda>(k, v). (k, readBack v)) m)"
| "readBack (JArray xs) = JArray (map readBack xs)"
| "readBack (JInteger i) = (if 0 \<le> i then JUnsigned i else JInteger i)"
| "readBack j = j"

lemma joinText_Cons: "joinText (x # xs) = x @ concat (map (\<lambda>y. '','' @ y) xs)"
  by (induction xs arbitrary: x) auto

section \<open>The handler\<close>

text \<open>Another value at the same place only changes what is assigned there.\<close>

lemma handleValue_again:
  assumes "handleValue v d = (Inr p, e)" "domOk bs d" "awaitsValue bs d"
  shows "handleValue w d = (Inr p, e\<lparr>dom_root := assignAt p w (dom_root e)\<rparr>)"
proof (cases bs)
  case Nil
  with assms(2) have "ref_stack d = []" by (simp add: domOk_def)
  with assms(1) show ?thesis by (auto simp: handleValue_def assignPtr_def run_simps)
next
  case (Cons b bs')
  then obtain q ps x where q: "ref_stack d = q # ps" "valueAt q (dom_root d) = Some x" "shape b x"
    using assms(2) by (cases "ref_stack d") (auto simp: domOk_def)
  show ?thesis
  proof (cases b)
    case True
    with q(3) obtain xs where "x = JArray xs" by (auto simp: shape_def split: json.splits)
    with q assms(1) show ?thesis
      by (auto simp: handleValue_def assignPtr_def run_simps assignAt_below [OF q(2)])
  next
    case False
    with q(3) obtain m where m: "x = JObject m" by (auto simp: shape_def split: json.splits)
    from assms(3) Cons False q(1) obtain k y where k: "object_element d = Some (q @ [KeyStep k])"
        "valueAt (q @ [KeyStep k]) (dom_root d) = Some y"
      by (auto simp: awaitsValue_def)
    with q m assms(1) show ?thesis
      by (auto simp: handleValue_def assignPtr_def run_simps assignAt_twice [OF k(2)])
  qed
qed

text \<open>The same but for \<open>object_element\<close>, which the next key sets.\<close>

definition sameDom :: "'f domParser \<Rightarrow> 'f domParser \<Rightarrow> bool" where
  "sameDom d e \<longleftrightarrow> dom_root d = dom_root e \<and> ref_stack d = ref_stack e \<and> errored d = errored e"

section \<open>The first token of a value\<close>

text \<open>\<open>opened fl j r t l\<close>: \<open>t\<close> is the first token of the text of \<open>j\<close>, the lexer stands behind it, and \<open>r\<close>
  follows the text.\<close>

fun opened :: "'f floats \<Rightarrow> 'f json \<Rightarrow> string \<Rightarrow> token_type \<Rightarrow> 'f lexer \<Rightarrow> bool" where
  "opened fl (JObject m) r t l \<longleftrightarrow> t = TBeginObject \<and>
     leftAt (joinText (map (\<lambda>(k, v). quoted k @ '':'' @ jsonText fl v) m) @ CHR ''}'' # r) l"
| "opened fl (JArray xs) r t l \<longleftrightarrow> t = TBeginArray \<and> leftAt (joinText (map (jsonText fl) xs) @ CHR '']'' # r) l"
| "opened fl (JString s) r t l \<longleftrightarrow> t = TValueString \<and> token_buffer l = s \<and> leftAt r l"
| "opened fl (JBool b) r t l \<longleftrightarrow> t = (if b then TLiteralTrue else TLiteralFalse) \<and> leftAt r l"
| "opened fl (JInteger i) r t l \<longleftrightarrow> (if 0 \<le> i then t = TValueUnsigned \<and> value_unsigned l = i
     else t = TValueInteger \<and> value_integer l = i) \<and> leftAt r l"
| "opened fl (JFloat x) r t l \<longleftrightarrow> t = TValueFloat \<and> value_float l = x \<and> leftAt r l"
| "opened fl (JUnsigned i) r t l \<longleftrightarrow> t = TValueUnsigned \<and> value_unsigned l = i \<and> leftAt r l"
| "opened fl j r t l \<longleftrightarrow> t = TLiteralNull \<and> leftAt r l"

lemma escapedText_length: "length s \<le> length (escapedText s)"
proof (induction s)
  case (Cons c s)
  have "1 \<le> length (escapedChar c)"
    by (simp add: escapedChar_def unicodeEscape_def split: option.split)
  with Cons show ?case by (simp add: escapedText_def)
qed simp

lemma scan_quoted:
  assumes "validUtf8 s" "leftAt (quoted s @ r) l" "length (quoted s @ r) < n"
  shows "runsTo (scanToken n cf) l (\<lambda>t u. t = TValueString \<and> token_buffer u = s \<and> leftAt r u)"
  by (rule scan_string [OF assms(1,2)]) (use assms(3) escapedText_length [of s] in \<open>simp add: quoted_def\<close>)

lemma scan_value:
  assumes "printable cf j" "stopsNumber r" "leftAt (jsonText (numbers cf) j @ r) l" "length (jsonText (numbers cf) j @ r) < n"
  shows "runsTo (scanToken n cf) l (opened (numbers cf) j r)"
proof (cases j)
  case (JObject m)
  have "runsTo (scanToken n cf) l (\<lambda>x t. x = TBeginObject \<and>
      leftAt (joinText (map (\<lambda>(k, v). quoted k @ '':'' @ jsonText (numbers cf) v) m) @ CHR ''}'' # r) t)"
    by (rule scan_punctuation [where c = "CHR ''{''"]) (use JObject assms(3,4) in simp_all)
  then show ?thesis
    unfolding JObject by (rule runsTo_mono) simp
next
  case (JArray xs)
  have "runsTo (scanToken n cf) l (\<lambda>x t. x = TBeginArray \<and> leftAt (joinText (map (jsonText (numbers cf)) xs) @ CHR '']'' # r) t)"
    by (rule scan_punctuation [where c = "CHR ''[''"]) (use JArray assms(3,4) in simp_all)
  then show ?thesis
    unfolding JArray by (rule runsTo_mono) simp
next
  case (JString s)
  then show ?thesis
    using scan_quoted [of s r l n cf] assms by (auto elim!: runsTo_mono)
next
  case (JBool b)
  then show ?thesis
    using scan_literal [of "CHR ''t''" "''rue''" TLiteralTrue r l n cf] scan_literal [of "CHR ''f''" "''alse''" TLiteralFalse r l n cf] assms(3,4)
    by (cases b) (auto elim!: runsTo_mono)
next
  case (JInteger i)
  then show ?thesis
    using scan_unsigned [of "nat i" r l n cf] scan_integer [of "nat (- i)" r l n cf] assms
    by (cases "0 \<le> i") (auto elim!: runsTo_mono simp: toString_def)
next
  case (JUnsigned i)
  then show ?thesis
    using scan_unsigned [of "nat i" r l n cf] assms by (auto elim!: runsTo_mono simp: toString_def)
next
  case (JFloat x)
  then obtain t where t: "floatText (numbers cf) x = Inr t" "floatToken t" "strtod (numbers cf) t = x" "decimal_point_char cf = CHR ''.''"
    using assms(1) by (auto simp: exactFloat_def split: sum.splits)
  with scan_float [OF t(2,4) assms(2), of l n] assms(3,4) JFloat show ?thesis by (auto elim!: runsTo_mono)
next
  case JNull
  then show ?thesis
    using scan_literal [of "CHR ''n''" "''ull''" TLiteralNull r l n cf] assms(3,4) by (auto elim!: runsTo_mono)
qed (use assms(1) in auto)

section \<open>Rounds of the parser\<close>

abbreviation floatsOf :: "'f parseConf \<Rightarrow> 'f floats" where
  "floatsOf cf \<equiv> numbers (lexing cf)"

lemma getToken_reads:
  assumes "runsTo (scanToken n (lexing cf)) (m_lexer s) P"
  shows "runsTo (getToken n cf) s (\<lambda>t u. last_token u = t \<and> sax u = sax s \<and> P t (m_lexer u))"
proof -
  obtain t l where l: "scanToken n (lexing cf) (m_lexer s) = (Inr t, l)" "P t l" using assms by (auto simp: runsTo_def)
  then show ?thesis by (simp add: runsTo_def getToken_def onLexer_def run_simps)
qed

text \<open>With enough fuel the loop gets from one place to another.\<close>

definition gets :: "nat \<Rightarrow> 'f parseConf \<Rightarrow> bool list \<times> bool \<times> 'f parser \<Rightarrow> bool list \<times> bool \<times> 'f parser \<Rightarrow> bool" where
  "gets n cf a b \<longleftrightarrow> (\<exists>j. \<forall>k. saxParseInternal (j + Suc k) n cf (fst a) (fst (snd a)) (snd (snd a)) =
     saxParseInternal (Suc k) n cf (fst b) (fst (snd b)) (snd (snd b)))"

lemma gets_trans: "gets n cf a b \<Longrightarrow> gets n cf b c \<Longrightarrow> gets n cf a c"
proof -
  assume "gets n cf a b" "gets n cf b c"
  then obtain i j where ij: "\<And>k. saxParseInternal (i + Suc k) n cf (fst a) (fst (snd a)) (snd (snd a)) =
        saxParseInternal (Suc k) n cf (fst b) (fst (snd b)) (snd (snd b))"
      "\<And>k. saxParseInternal (j + Suc k) n cf (fst b) (fst (snd b)) (snd (snd b)) =
        saxParseInternal (Suc k) n cf (fst c) (fst (snd c)) (snd (snd c))"
    unfolding gets_def by blast
  have "saxParseInternal (i + j + Suc k) n cf (fst a) (fst (snd a)) (snd (snd a)) =
      saxParseInternal (Suc k) n cf (fst c) (fst (snd c)) (snd (snd c))" for k
    using ij(1) [of "j + k"] ij(2) [of k] by (simp add: add.assoc)
  then show ?thesis unfolding gets_def by blast
qed

lemma gets_round: "loopStep n cf states skip s = (Inr (Continue states' skip'), s') \<Longrightarrow> gets n cf (states, skip, s) (states', skip', s')"
  unfolding gets_def by (intro exI [of _ 1]) (simp add: run_simps)

lemma gets_value: "valueStep n cf states s = (Inr ValueDone, s') \<Longrightarrow> gets n cf (states, False, s) (states, True, s')"
  unfolding gets_def by (intro exI [of _ 0]) (simp add: andThen_def loopStep_def ok_def)


text \<open>A scalar is complete with its token.\<close>

lemma saxValue_handles: "handleValue v d = (Inr p, e) \<Longrightarrow> saxValue v d = (Inr True, e)"
  by (simp add: saxValue_def run_simps)

lemma saxStart_handles: "handleValue v d = (Inr p, e) \<Longrightarrow> saxStart v d = (Inr True, e\<lparr>ref_stack := p # ref_stack e\<rparr>)"
  by (simp add: saxStart_def run_simps)

lemma orReturn_sax: "m (sax s) = (Inr True, d) \<Longrightarrow> orReturn (onSax m) q s = q (s\<lparr>sax := d\<rparr>)"
  by (simp add: orReturn_def onSax_def run_simps)

lemma scalarStep_run:
  "handleValue (f (m_lexer s)) (sax s) = (Inr p, e) \<Longrightarrow> scalarStep f s = (Inr ValueDone, s\<lparr>sax := e\<rparr>)"
  by (simp add: scalarStep_def run_simps orReturn_sax [OF saxValue_handles])

fun isScalar :: "'f json \<Rightarrow> bool" where
  "isScalar (JObject m) \<longleftrightarrow> False" | "isScalar (JArray xs) \<longleftrightarrow> False" | "isScalar j \<longleftrightarrow> True"

lemma scalar_read:
  assumes "isScalar j" "printable (lexing cf) j" "opened (floatsOf cf) j r (last_token s) (m_lexer s)" "handleValue (readBack j) (sax s) = (Inr p, e)"
  shows "valueStep n cf states s = (Inr ValueDone, s\<lparr>sax := e\<rparr>) \<and> leftAt r (m_lexer s)"
  using assms
  by (cases j) (auto simp: valueStep_def run_simps exactFloat_def floatStep_def split: if_splits intro!: scalarStep_run)

text \<open>The whole text of a value is read, and the value assigned where the handler stands.\<close>

definition readsBack :: "nat \<Rightarrow> 'f parseConf \<Rightarrow> 'f json \<Rightarrow> bool" where
  "readsBack n cf j \<longleftrightarrow> (\<forall>states s r p e. opened (floatsOf cf) j r (last_token s) (m_lexer s) \<longrightarrow> stopsNumber r \<longrightarrow>
     length (jsonText (floatsOf cf) j @ r) < n \<longrightarrow> domOk states (sax s) \<longrightarrow> awaitsValue states (sax s) \<longrightarrow>
     handleValue (readBack j) (sax s) = (Inr p, e) \<longrightarrow>
     (\<exists>s'. gets n cf (states, False, s) (states, True, s') \<and> leftAt r (m_lexer s') \<and> sameDom e (sax s')))"

lemma readsBack_scalar: "isScalar j \<Longrightarrow> printable (lexing cf) j \<Longrightarrow> readsBack n cf j"
  unfolding readsBack_def
proof (intro allI impI)
  fix states r p e and s :: "'a parser"
  assume j: "isScalar j" "printable (lexing cf) j" "opened (floatsOf cf) j r (last_token s) (m_lexer s)" "handleValue (readBack j) (sax s) = (Inr p, e)"
  from gets_value [of n cf states s "s\<lparr>sax := e\<rparr>"] scalar_read [OF j, of n states]
  show "\<exists>s'. gets n cf (states, False, s) (states, True, s') \<and> leftAt r (m_lexer s') \<and> sameDom e (sax s')"
    by (intro exI [of _ "s\<lparr>sax := e\<rparr>"]) (simp add: sameDom_def)
qed

section \<open>Arrays\<close>

lemma punctuation_token:
  assumes "(c, tok) \<in> set [(CHR ''['', TBeginArray), (CHR '']'', TEndArray), (CHR ''{'', TBeginObject), (CHR ''}'', TEndObject),
      (CHR '':'', TNameSeparator), (CHR '','', TValueSeparator)]" "leftAt (c # r) (m_lexer s)" "0 < n"
  shows "runsTo (getToken n cf) s (\<lambda>t u. t = tok \<and> last_token u = tok \<and> sax u = sax s \<and> leftAt r (m_lexer u))"
  by (rule runsTo_mono [OF getToken_reads [OF scan_punctuation [OF assms]]]) auto

lemma value_token:
  assumes "printable (lexing cf) j" "stopsNumber r" "leftAt (jsonText (floatsOf cf) j @ r) (m_lexer s)" "length (jsonText (floatsOf cf) j @ r) < n"
  shows "runsTo (getToken n cf) s (\<lambda>t u. t = last_token u \<and> sax u = sax s \<and> opened (floatsOf cf) j r (last_token u) (m_lexer u))"
  by (rule runsTo_mono [OF getToken_reads [OF scan_value [OF assms]]]) auto

lemma saxEnd_run: "ref_stack d = p # ps \<Longrightarrow> saxEnd d = (Inr True, d\<lparr>ref_stack := ps\<rparr>)"
  by (simp add: saxEnd_def run_simps)

lemma end_reads:
  assumes "ref_stack (sax s) = p # ps"
  shows "runsTo (orReturn (onSax saxEnd) (ok x)) s (\<lambda>y u. y = x \<and> u = s\<lparr>sax := (sax s)\<lparr>ref_stack := ps\<rparr>\<rparr>)"
  using orReturn_sax [of saxEnd s, OF saxEnd_run [OF assms]] by (simp add: runsTo_def run_simps)

lemma array_goes_on:
  assumes "leftAt (CHR '','' # jsonText (floatsOf cf) y @ r) (m_lexer s)" "printable (lexing cf) y" "stopsNumber r" "length (jsonText (floatsOf cf) y @ r) < n"
  shows "runsTo (loopStep n cf (True # states) True) s
    (\<lambda>x u. x = Continue (True # states) False \<and> sax u = sax s \<and> opened (floatsOf cf) y r (last_token u) (m_lexer u))"
proof -
  have "runsTo (stateStep n cf (True # states)) s
    (\<lambda>x u. x = Continue (True # states) False \<and> sax u = sax s \<and> opened (floatsOf cf) y r (last_token u) (m_lexer u))"
    unfolding stateStep_def list.case bool.case
  proof (rule runsTo_bind [OF punctuation_token [where c = "CHR '',''"]])
    fix t and u :: "'a parser"
    assume u: "t = TValueSeparator \<and> last_token u = TValueSeparator \<and> sax u = sax s \<and> leftAt (jsonText (floatsOf cf) y @ r) (m_lexer u)"
    have "runsTo (andThen (getToken n cf) (\<lambda>_. ok (Continue (True # states) False))) u
      (\<lambda>x u. x = Continue (True # states) False \<and> sax u = sax s \<and> opened (floatsOf cf) y r (last_token u) (m_lexer u))"
      by (rule runsTo_bind [OF value_token [OF assms(2,3)]]) (use u assms(4) in \<open>auto intro: runsTo_ok\<close>)
    with u show "runsTo (if t = TValueSeparator then andThen (getToken n cf) (\<lambda>_. ok (Continue (True # states) False))
        else if t = TEndArray then orReturn (onSax saxEnd) (ok (Continue states True))
        else returning (syntaxError cf TEndArray ''array'')) u
      (\<lambda>x u. x = Continue (True # states) False \<and> sax u = sax s \<and> opened (floatsOf cf) y r (last_token u) (m_lexer u))"
      by simp
  qed (use assms in simp_all)
  then show ?thesis by (simp add: loopStep_def runsTo_def run_simps)
qed

lemma array_ends:
  assumes "leftAt (CHR '']'' # r) (m_lexer s)" "ref_stack (sax s) = p # ps" "0 < n"
  shows "runsTo (loopStep n cf (True # states) True) s
    (\<lambda>x u. x = Continue states True \<and> sax u = (sax s)\<lparr>ref_stack := ps\<rparr> \<and> leftAt r (m_lexer u))"
proof -
  have "runsTo (stateStep n cf (True # states)) s
    (\<lambda>x u. x = Continue states True \<and> sax u = (sax s)\<lparr>ref_stack := ps\<rparr> \<and> leftAt r (m_lexer u))"
    unfolding stateStep_def list.case bool.case
  proof (rule runsTo_bind [OF punctuation_token [where c = "CHR '']''"]])
    fix t and u :: "'a parser"
    assume u: "t = TEndArray \<and> last_token u = TEndArray \<and> sax u = sax s \<and> leftAt r (m_lexer u)"
    have "runsTo (orReturn (onSax saxEnd) (ok (Continue states True))) u
      (\<lambda>x u. x = Continue states True \<and> sax u = (sax s)\<lparr>ref_stack := ps\<rparr> \<and> leftAt r (m_lexer u))"
      by (rule runsTo_mono [OF end_reads [of u p ps]]) (use u assms(2) in auto)
    with u show "runsTo (if t = TValueSeparator then andThen (getToken n cf) (\<lambda>_. ok (Continue (True # states) False))
        else if t = TEndArray then orReturn (onSax saxEnd) (ok (Continue states True))
        else returning (syntaxError cf TEndArray ''array'')) u
      (\<lambda>x u. x = Continue states True \<and> sax u = (sax s)\<lparr>ref_stack := ps\<rparr> \<and> leftAt r (m_lexer u))"
      by simp
  qed (use assms in simp_all)
  then show ?thesis by (simp add: loopStep_def runsTo_def run_simps)
qed

lemma runsTo_round:
  assumes "runsTo (loopStep n cf states skip) s (\<lambda>x u. x = Continue states' skip' \<and> Q u)"
  obtains u where "gets n cf (states, skip, s) (states', skip', u)" "Q u"
  using assms gets_round [of n cf states skip s states' skip'] by (auto simp: runsTo_def)

text \<open>What is left of an array behind one of its items.\<close>

definition itemsText :: "'f floats \<Rightarrow> 'f json list \<Rightarrow> string \<Rightarrow> string" where
  "itemsText fl xs r = concat (map (\<lambda>y. '','' @ jsonText fl y) xs) @ CHR '']'' # r"

lemma itemsText_simps [simp]:
  "itemsText fl [] r = CHR '']'' # r" "itemsText fl (x # xs) r = CHR '','' # jsonText fl x @ itemsText fl xs r"
  by (simp_all add: itemsText_def)

lemma itemsText_stops: "stopsNumber (itemsText fl xs r)"
  by (cases xs) (auto simp: stopsNumber_def isDigit_def)

lemma joinText_items: "joinText (map (jsonText fl) (x # xs)) @ CHR '']'' # r = jsonText fl x @ itemsText fl xs r"
  by (simp add: joinText_Cons itemsText_def comp_def)

lemma handle_in_array:
  "ref_stack d = p # ps \<Longrightarrow> valueAt p (dom_root d) = Some (JArray ws) \<Longrightarrow>
     handleValue v d = (Inr (p @ [IndexStep (length ws)]), d\<lparr>dom_root := assignAt p (JArray (ws @ [v])) (dom_root d)\<rparr>)"
  by (simp add: handleValue_def assignPtr_def run_simps)

lemma domOk_same: "sameDom d e \<Longrightarrow> domOk bs d = domOk bs e"
  by (simp add: sameDom_def domOk_def)

lemma readsBackE:
  assumes "readsBack n cf j" "opened (floatsOf cf) j r (last_token s) (m_lexer s)" "stopsNumber r" "length (jsonText (floatsOf cf) j @ r) < n"
    "domOk states (sax s)" "awaitsValue states (sax s)" "handleValue (readBack j) (sax s) = (Inr p, e)"
  obtains s' where "gets n cf (states, False, s) (states, True, s')" "leftAt r (m_lexer s')" "sameDom e (sax s')"
  using assms unfolding readsBack_def by blast

lemma item_read:
  assumes "readsBack n cf x" "opened (floatsOf cf) x (itemsText (floatsOf cf) xs r) (last_token s) (m_lexer s)"
    "length (jsonText (floatsOf cf) x @ itemsText (floatsOf cf) xs r) < n"
    and "domOk (True # states) (sax s)" "ref_stack (sax s) = p # ps" "valueAt p (dom_root (sax s)) = Some (JArray ws)"
  obtains s' where "gets n cf (True # states, False, s) (True # states, True, s')" "leftAt (itemsText (floatsOf cf) xs r) (m_lexer s')"
    "domOk (True # states) (sax s')" "ref_stack (sax s') = p # ps" "errored (sax s') = errored (sax s)"
    "dom_root (sax s') = assignAt p (JArray (ws @ [readBack x])) (dom_root (sax s))"
proof -
  let ?e = "(sax s)\<lparr>dom_root := assignAt p (JArray (ws @ [readBack x])) (dom_root (sax s))\<rparr>"
  have aw: "awaitsValue (True # states) (sax s)" by (simp add: awaitsValue_def)
  have run: "handleValue (readBack x) (sax s) = (Inr (p @ [IndexStep (length ws)]), ?e)"
    by (rule handle_in_array [OF assms(5,6)])
  have ok: "domOk (True # states) ?e"
    by (rule handleValue_run [OF assms(4) aw, of "readBack x"]) (use run in simp)
  obtain s1 where "gets n cf (True # states, False, s) (True # states, True, s1)" "leftAt (itemsText (floatsOf cf) xs r) (m_lexer s1)"
      "sameDom ?e (sax s1)"
    by (rule readsBackE [OF assms(1,2) itemsText_stops assms(3,4) aw run])
  with ok assms(5) domOk_same [of ?e "sax s1"] show thesis by (intro that) (simp_all add: sameDom_def)
qed

lemma items_read:
  assumes "\<And>y. y \<in> set (x # xs) \<Longrightarrow> readsBack n cf y \<and> printable (lexing cf) y"
    and "opened (floatsOf cf) x (itemsText (floatsOf cf) xs r) (last_token s) (m_lexer s)" "length (jsonText (floatsOf cf) x @ itemsText (floatsOf cf) xs r) < n"
    and "domOk (True # states) (sax s)" "ref_stack (sax s) = p # ps" "valueAt p (dom_root (sax s)) = Some (JArray ws)"
  shows "\<exists>s'. gets n cf (True # states, False, s) (states, True, s') \<and> leftAt r (m_lexer s') \<and> ref_stack (sax s') = ps \<and>
    errored (sax s') = errored (sax s) \<and>
    dom_root (sax s') = assignAt p (JArray (ws @ map readBack (x # xs))) (dom_root (sax s))"
  using assms
proof (induction xs arbitrary: x s ws)
  case (Cons y ys)
  have x: "readsBack n cf x" and y: "printable (lexing cf) y" using Cons.prems(1) by simp_all
  obtain s1 where s1: "gets n cf (True # states, False, s) (True # states, True, s1)" "leftAt (itemsText (floatsOf cf) (y # ys) r) (m_lexer s1)"
    "domOk (True # states) (sax s1)" "ref_stack (sax s1) = p # ps" "errored (sax s1) = errored (sax s)"
    "dom_root (sax s1) = assignAt p (JArray (ws @ [readBack x])) (dom_root (sax s))"
    by (rule item_read [OF x Cons.prems(2-6)])
  have after: "leftAt (CHR '','' # jsonText (floatsOf cf) y @ itemsText (floatsOf cf) ys r) (m_lexer s1)" "length (jsonText (floatsOf cf) y @ itemsText (floatsOf cf) ys r) < n"
    using s1(2) Cons.prems(3) by simp_all
  obtain s2 where s2: "gets n cf (True # states, True, s1) (True # states, False, s2)"
      "sax s2 = sax s1 \<and> opened (floatsOf cf) y (itemsText (floatsOf cf) ys r) (last_token s2) (m_lexer s2)"
    by (rule runsTo_round [OF array_goes_on [OF after(1) y itemsText_stops after(2)]])
  have "valueAt p (dom_root (sax s2)) = Some (JArray (ws @ [readBack x]))"
    using s1(6) s2(2) Cons.prems(6) by (simp add: valueAt_assign)
  then obtain s' where s': "gets n cf (True # states, False, s2) (states, True, s')" "leftAt r (m_lexer s')"
      "ref_stack (sax s') = ps" "errored (sax s') = errored (sax s2)"
      "dom_root (sax s') = assignAt p (JArray ((ws @ [readBack x]) @ map readBack (y # ys))) (dom_root (sax s2))"
    using Cons.IH [of y s2 "ws @ [readBack x]"] Cons.prems(1) after(2) s2(2) s1(3,4) by auto
  from gets_trans [OF gets_trans [OF s1(1) s2(1)] s'(1)] s' s1(5,6) s2(2) Cons.prems(6) show ?case
    by (intro exI [of _ s']) (simp add: assignAt_twice)
next
  case Nil
  have x: "readsBack n cf x" using Nil.prems(1) by simp
  obtain s1 where s1: "gets n cf (True # states, False, s) (True # states, True, s1)" "leftAt (itemsText (floatsOf cf) ([] :: 'a json list) r) (m_lexer s1)"
    "domOk (True # states) (sax s1)" "ref_stack (sax s1) = p # ps" "errored (sax s1) = errored (sax s)"
    "dom_root (sax s1) = assignAt p (JArray (ws @ [readBack x])) (dom_root (sax s))"
    by (rule item_read [OF x Nil.prems(2-6)])
  have after: "leftAt (CHR '']'' # r) (m_lexer s1)" "0 < n" using s1(2) Nil.prems(3) by simp_all
  obtain s2 where s2: "gets n cf (True # states, True, s1) (states, True, s2)"
      "sax s2 = (sax s1)\<lparr>ref_stack := ps\<rparr> \<and> leftAt r (m_lexer s2)"
    by (rule runsTo_round [OF array_ends [OF after(1) s1(4) after(2)]])
  from gets_trans [OF s1(1) s2(1)] s2 s1 show ?case by (intro exI [of _ s2]) simp
qed


lemma opened_no_end: "opened fl j r t l \<Longrightarrow> t \<noteq> TEndArray \<and> t \<noteq> TEndObject"
  by (cases j) (auto split: if_splits)

text \<open>A structure is put in its place empty, and filled there.\<close>

lemma structure_starts:
  assumes "domOk states d" "awaitsValue states d" "handleValue v d = (Inr p, e)" "shape b v0"
  obtains d1 where "saxStart v0 d = (Inr True, d1)" "domOk (b # states) d1" "ref_stack d1 = p # ref_stack e"
    "valueAt p (dom_root d1) = Some v0" "errored d1 = errored e" "assignAt p v (dom_root d1) = dom_root e"
    "v = v0 \<Longrightarrow> dom_root d1 = dom_root e"
proof -
  obtain q e0 where e0: "handleValue v0 d = (Inr q, e0)" "domOk states e0" "valueAt q (dom_root e0) = Some v0"
    by (rule handleValue_run [OF assms(1,2), of v0])
  from handleValue_again [OF e0(1) assms(1,2), of v] assms(3)
  have q: "q = p" "e = e0\<lparr>dom_root := assignAt p v (dom_root e0)\<rparr>" by simp_all
  let ?d = "e0\<lparr>ref_stack := p # ref_stack e0\<rparr>"
  have run: "saxStart v0 d = (Inr True, ?d)" using saxStart_handles [OF e0(1)] q(1) by simp
  moreover have "domOk (b # states) ?d"
    using saxStart_dom [OF assms(1,2,4)] run by (simp add: onDom_def)
  ultimately show thesis using e0(1,3) q assms(3) by (intro that [of ?d]) auto
qed

text \<open>An empty structure is closed at once.\<close>

lemma empty_reads:
  assumes start: "valueStep n cf states s =
      andThen (getToken n cf) (\<lambda>t. if t = tok then orReturn (onSax saxEnd) (ok ValueDone) else f t) (s\<lparr>sax := d\<rparr>)"
    and tok: "(c, tok) \<in> set [(CHR '']'', TEndArray), (CHR ''}'', TEndObject)]" "leftAt (c # r) (m_lexer s)" "0 < n"
    and d: "ref_stack d = p # ref_stack e" "dom_root d = dom_root e" "errored d = errored e"
  shows "\<exists>s'. gets n cf (states, False, s) (states, True, s') \<and> leftAt r (m_lexer s') \<and> sameDom e (sax s')"
proof -
  let ?Q = "\<lambda>x u. x = ValueDone \<and> sax u = d\<lparr>ref_stack := ref_stack e\<rparr> \<and> leftAt r (m_lexer u)"
  let ?s = "s\<lparr>sax := d\<rparr>"
  have "runsTo (andThen (getToken n cf) (\<lambda>t. if t = tok then orReturn (onSax saxEnd) (ok ValueDone) else f t)) ?s ?Q"
  proof (rule runsTo_bind [OF punctuation_token [where c = c and tok = tok]])
    fix t and u :: "'a parser"
    assume u: "t = tok \<and> last_token u = tok \<and> sax u = sax ?s \<and> leftAt r (m_lexer u)"
    have "runsTo (orReturn (onSax saxEnd) (ok ValueDone)) u ?Q"
      by (rule runsTo_mono [OF end_reads [of u p "ref_stack e"]]) (use u d(1) in auto)
    with u show "runsTo (if t = tok then orReturn (onSax saxEnd) (ok ValueDone) else f t) u ?Q" by simp
  qed (use tok in auto)
  then obtain s' where s': "valueStep n cf states s = (Inr ValueDone, s')" "sax s' = d\<lparr>ref_stack := ref_stack e\<rparr>" "leftAt r (m_lexer s')"
    unfolding start by (auto simp: runsTo_def)
  then show ?thesis
    using gets_value [of n cf states s s'] d(2,3) by (intro exI [of _ s']) (simp add: sameDom_def)
qed

lemma readsBack_array:
  assumes "\<And>y. y \<in> set xs \<Longrightarrow> readsBack n cf y \<and> printable (lexing cf) y"
  shows "readsBack n cf (JArray xs)"
  unfolding readsBack_def
proof (intro allI impI)
  fix states r p e and s :: "'a parser"
  assume op: "opened (floatsOf cf) (JArray xs) r (last_token s) (m_lexer s)" and len: "length (jsonText (floatsOf cf) (JArray xs) @ r) < n"
    and dom: "domOk states (sax s)" "awaitsValue states (sax s)"
    and run: "handleValue (readBack (JArray xs)) (sax s) = (Inr p, e)"
  obtain d1 where d1: "saxStart (JArray []) (sax s) = (Inr True, d1)" "domOk (True # states) d1" "ref_stack d1 = p # ref_stack e"
    "valueAt p (dom_root d1) = Some (JArray [])" "errored d1 = errored e"
    "assignAt p (readBack (JArray xs)) (dom_root d1) = dom_root e" "readBack (JArray xs) = JArray [] \<Longrightarrow> dom_root d1 = dom_root e"
    by (rule structure_starts [OF dom run, of True "JArray []"]) (simp_all add: shape_def)
  let ?s = "s\<lparr>sax := d1\<rparr>"
  let ?rest = "andThen (getToken n cf) (\<lambda>t. if t = TEndArray then orReturn (onSax saxEnd) (ok ValueDone) else ok (Continue (True # states) False))"
  have start: "valueStep n cf states s = ?rest ?s"
    using op orReturn_sax [of "saxStart (JArray [])" s, OF d1(1)] by (simp add: valueStep_def run_simps)
  show "\<exists>s'. gets n cf (states, False, s) (states, True, s') \<and> leftAt r (m_lexer s') \<and> sameDom e (sax s')"
  proof (cases xs)
    case Nil
    then have "dom_root d1 = dom_root e" using d1(7) by simp
    then show ?thesis
      by (intro empty_reads [OF start, of "CHR '']''" r]) (use op Nil len d1(3,5) in simp_all)
  next
    case (Cons x ys)
    have x: "printable (lexing cf) x" using assms Cons by simp
    have after: "leftAt (jsonText (floatsOf cf) x @ itemsText (floatsOf cf) ys r) (m_lexer ?s)"
      using op Cons joinText_items [of "floatsOf cf" x ys r] by simp
    have "length (jsonText (floatsOf cf) x @ itemsText (floatsOf cf) ys r) < n"
      unfolding joinText_items [symmetric] using len Cons by simp
    note after = after this
    have "runsTo ?rest ?s (\<lambda>y u. y = Continue (True # states) False \<and> sax u = d1 \<and>
      opened (floatsOf cf) x (itemsText (floatsOf cf) ys r) (last_token u) (m_lexer u))"
    proof (rule runsTo_bind [OF value_token [OF x itemsText_stops after]])
      fix t and u :: "'a parser"
      assume u: "t = last_token u \<and> sax u = sax ?s \<and> opened (floatsOf cf) x (itemsText (floatsOf cf) ys r) (last_token u) (m_lexer u)"
      with opened_no_end [of "floatsOf cf" x "itemsText (floatsOf cf) ys r" t "m_lexer u"]
      show "runsTo (if t = TEndArray then orReturn (onSax saxEnd) (ok ValueDone) else ok (Continue (True # states) False)) u
        (\<lambda>y u. y = Continue (True # states) False \<and> sax u = d1 \<and> opened (floatsOf cf) x (itemsText (floatsOf cf) ys r) (last_token u) (m_lexer u))"
        by (simp add: runsTo_ok)
    qed
    then have "runsTo (loopStep n cf states False) s (\<lambda>y u. y = Continue (True # states) False \<and>
        (sax u = d1 \<and> opened (floatsOf cf) x (itemsText (floatsOf cf) ys r) (last_token u) (m_lexer u)))"
      unfolding loopStep_def by (auto simp: runsTo_def start andThen_def ok_def)
    then obtain s1 where s1: "gets n cf (states, False, s) (True # states, False, s1)"
        "sax s1 = d1 \<and> opened (floatsOf cf) x (itemsText (floatsOf cf) ys r) (last_token s1) (m_lexer s1)"
      by (rule runsTo_round)
    have "\<exists>s'. gets n cf (True # states, False, s1) (states, True, s') \<and> leftAt r (m_lexer s') \<and> ref_stack (sax s') = ref_stack e \<and>
      errored (sax s') = errored (sax s1) \<and>
      dom_root (sax s') = assignAt p (JArray ([] @ map readBack (x # ys))) (dom_root (sax s1))"
      by (rule items_read) (use assms Cons s1(2) after(2) d1 in auto)
    then obtain s' where "gets n cf (True # states, False, s1) (states, True, s')" "leftAt r (m_lexer s')"
        "sameDom e (sax s')"
      using s1(2) d1 Cons by (auto simp: sameDom_def)
    with gets_trans [OF s1(1)] show ?thesis by blast
  qed
qed

section \<open>Objects\<close>

definition entriesText :: "'f floats \<Rightarrow> (string \<times> 'f json) list \<Rightarrow> string \<Rightarrow> string" where
  "entriesText fl m r = concat (map (\<lambda>(k, v). '','' @ quoted k @ '':'' @ jsonText fl v) m) @ CHR ''}'' # r"

lemma entriesText_simps [simp]:
  "entriesText fl [] r = CHR ''}'' # r"
  "entriesText fl ((k, v) # m) r = CHR '','' # quoted k @ CHR '':'' # jsonText fl v @ entriesText fl m r"
  by (simp_all add: entriesText_def)

lemma entriesText_stops: "stopsNumber (entriesText fl m r)"
  by (cases m) (auto simp: stopsNumber_def isDigit_def)

lemma joinText_entries:
  "joinText (map (\<lambda>(k, v). quoted k @ '':'' @ jsonText fl v) ((k, v) # m)) @ CHR ''}'' # r =
     quoted k @ CHR '':'' # jsonText fl v @ entriesText fl m r"
  by (simp add: joinText_Cons entriesText_def comp_def case_prod_unfold)

lemma key_token:
  assumes "validUtf8 k" "leftAt (quoted k @ r) (m_lexer s)" "length (quoted k @ r) < n"
  shows "runsTo (getToken n cf) s (\<lambda>t u. t = TValueString \<and> sax u = sax s \<and> token_buffer (m_lexer u) = k \<and> leftAt r (m_lexer u))"
  by (rule runsTo_mono [OF getToken_reads [OF scan_quoted [OF assms]]]) auto

text \<open>The handler behind a key.\<close>

definition keyed :: "string \<Rightarrow> jsonPath \<Rightarrow> (string \<times> 'f json) list \<Rightarrow> 'f domParser \<Rightarrow> 'f domParser" where
  "keyed k p w d = d\<lparr>dom_root := (if map_of w k = None then assignAt p (JObject (mapPut k JNull w)) (dom_root d) else dom_root d),
     object_element := Some (p @ [KeyStep k])\<rparr>"

lemma saxKey_run:
  "ref_stack d = p # ps \<Longrightarrow> valueAt p (dom_root d) = Some (JObject w) \<Longrightarrow> saxKey k d = (Inr True, keyed k p w d)"
  by (simp add: saxKey_def assignPtr_def run_simps keyed_def)

lemma keyed_ok:
  assumes "domOk (False # states) d" "ref_stack d = p # ps" "valueAt p (dom_root d) = Some (JObject w)"
  shows "domOk (False # states) (keyed k p w d)" "awaitsValue (False # states) (keyed k p w d)"
  using saxKey_dom [OF assms(1), of k] saxKey_run [OF assms(2,3), of k] by (simp_all add: onDom_def)

lemma handle_keyed:
  assumes "ref_stack d = p # ps" "valueAt p (dom_root d) = Some (JObject w)"
  shows "handleValue v (keyed k p w d) = (Inr (p @ [KeyStep k]),
    (keyed k p w d)\<lparr>dom_root := assignAt p (JObject (mapPut k v w)) (dom_root d)\<rparr>)"
proof -
  let ?w = "if map_of w k = None then mapPut k JNull w else w"
  let ?j = "if map_of w k = None then assignAt p (JObject (mapPut k JNull w)) (dom_root d) else dom_root d"
  have at: "valueAt p ?j = Some (JObject ?w)" using assms(2) by (simp add: valueAt_assign)
  have "assignAt (p @ [KeyStep k]) v ?j = assignAt p (assignAt [KeyStep k] v (JObject ?w)) ?j"
    by (rule assignAt_append [OF at])
  also have "assignAt [KeyStep k] v (JObject ?w) = JObject (mapPut k v w)"
    by (auto simp: map_of_mapPut mapPut_twice split: option.split)
  also have "assignAt p (JObject (mapPut k v w)) ?j = assignAt p (JObject (mapPut k v w)) (dom_root d)"
    by (simp add: assignAt_twice [OF assms(2)])
  finally have "assignAt (p @ [KeyStep k]) v ?j = assignAt p (JObject (mapPut k v w)) (dom_root d)" .
  then show ?thesis
    using assms(1) at by (simp add: handleValue_def assignPtr_def run_simps keyed_def del: if_split)
qed

lemma key_reads:
  assumes "token_buffer (m_lexer s) = k" "leftAt (CHR '':'' # jsonText (floatsOf cf) v @ r) (m_lexer s)" "printable (lexing cf) v" "stopsNumber r"
    "length (jsonText (floatsOf cf) v @ r) < n" "ref_stack (sax s) = p # ps" "valueAt p (dom_root (sax s)) = Some (JObject w)"
  shows "runsTo (parseKey n cf TValueString (andThen (getToken n cf) (\<lambda>_. ok x))) s
    (\<lambda>y u. y = x \<and> sax u = keyed k p w (sax s) \<and> opened (floatsOf cf) v r (last_token u) (m_lexer u))"
proof -
  let ?s = "s\<lparr>sax := keyed k p w (sax s)\<rparr>"
  let ?rest = "andThen (getToken n cf) (\<lambda>t. if t \<noteq> TNameSeparator
    then returning (syntaxError cf TNameSeparator ''object separator'') else andThen (getToken n cf) (\<lambda>_. ok x))"
  have "parseKey n cf TValueString (andThen (getToken n cf) (\<lambda>_. ok x)) s = ?rest ?s"
    using orReturn_sax [of "saxKey k" s, OF saxKey_run [OF assms(6,7)]] assms(1) by (simp add: parseKey_def run_simps)
  moreover have "runsTo ?rest ?s (\<lambda>y u. y = x \<and> sax u = keyed k p w (sax s) \<and> opened (floatsOf cf) v r (last_token u) (m_lexer u))"
  proof (rule runsTo_bind [OF punctuation_token [where c = "CHR '':''"]])
    fix t and u :: "'a parser"
    assume u: "t = TNameSeparator \<and> last_token u = TNameSeparator \<and> sax u = sax ?s \<and> leftAt (jsonText (floatsOf cf) v @ r) (m_lexer u)"
    have "runsTo (andThen (getToken n cf) (\<lambda>_. ok x)) u
      (\<lambda>y u. y = x \<and> sax u = keyed k p w (sax s) \<and> opened (floatsOf cf) v r (last_token u) (m_lexer u))"
      by (rule runsTo_bind [OF value_token [OF assms(3,4)]]) (use u assms(5) in \<open>auto intro: runsTo_ok\<close>)
    with u show "runsTo (if t \<noteq> TNameSeparator then returning (syntaxError cf TNameSeparator ''object separator'')
        else andThen (getToken n cf) (\<lambda>_. ok x)) u
      (\<lambda>y u. y = x \<and> sax u = keyed k p w (sax s) \<and> opened (floatsOf cf) v r (last_token u) (m_lexer u))" by simp
  qed (use assms in simp_all)
  ultimately show ?thesis by (simp add: runsTo_def)
qed

lemma object_goes_on:
  assumes "leftAt (CHR '','' # quoted k @ CHR '':'' # jsonText (floatsOf cf) v @ r) (m_lexer s)" "validUtf8 k" "printable (lexing cf) v" "stopsNumber r"
    "length (quoted k @ CHR '':'' # jsonText (floatsOf cf) v @ r) < n" "ref_stack (sax s) = p # ps"
    "valueAt p (dom_root (sax s)) = Some (JObject w)"
  shows "runsTo (loopStep n cf (False # states) True) s
    (\<lambda>x u. x = Continue (False # states) False \<and> sax u = keyed k p w (sax s) \<and> opened (floatsOf cf) v r (last_token u) (m_lexer u))"
proof -
  let ?Q = "\<lambda>x u. x = Continue (False # states) False \<and> sax u = keyed k p w (sax s) \<and> opened (floatsOf cf) v r (last_token u) (m_lexer u)"
  let ?next = "andThen (getToken n cf) (\<lambda>_. ok (Continue (False # states) False))"
  have "runsTo (stateStep n cf (False # states)) s ?Q"
    unfolding stateStep_def list.case bool.case
  proof (rule runsTo_bind [OF punctuation_token [where c = "CHR '',''"]])
    fix t and u :: "'a parser"
    assume u: "t = TValueSeparator \<and> last_token u = TValueSeparator \<and> sax u = sax s \<and>
      leftAt (quoted k @ CHR '':'' # jsonText (floatsOf cf) v @ r) (m_lexer u)"
    have "runsTo (andThen (getToken n cf) (\<lambda>t. parseKey n cf t ?next)) u ?Q"
    proof (rule runsTo_bind [OF key_token [OF assms(2)]])
      fix t and u' :: "'a parser"
      assume u': "t = TValueString \<and> sax u' = sax u \<and> token_buffer (m_lexer u') = k \<and>
        leftAt (CHR '':'' # jsonText (floatsOf cf) v @ r) (m_lexer u')"
      then have "runsTo (parseKey n cf TValueString ?next) u'
        (\<lambda>y u. y = Continue (False # states) False \<and> sax u = keyed k p w (sax u') \<and> opened (floatsOf cf) v r (last_token u) (m_lexer u))"
        using u assms(3-7) by (intro key_reads) simp_all
      with u u' show "runsTo (parseKey n cf t ?next) u' ?Q" by simp
    qed (use u assms(5) in simp_all)
    with u show "runsTo (if t = TValueSeparator then andThen (getToken n cf) (\<lambda>t. parseKey n cf t ?next)
        else if t = TEndObject then orReturn (onSax saxEnd) (ok (Continue states True))
        else returning (syntaxError cf TEndObject ''object'')) u ?Q" by simp
  qed (use assms in simp_all)
  then show ?thesis by (simp add: loopStep_def runsTo_def run_simps)
qed

lemma object_ends:
  assumes "leftAt (CHR ''}'' # r) (m_lexer s)" "ref_stack (sax s) = p # ps" "0 < n"
  shows "runsTo (loopStep n cf (False # states) True) s
    (\<lambda>x u. x = Continue states True \<and> sax u = (sax s)\<lparr>ref_stack := ps\<rparr> \<and> leftAt r (m_lexer u))"
proof -
  let ?Q = "\<lambda>x u. x = Continue states True \<and> sax u = (sax s)\<lparr>ref_stack := ps\<rparr> \<and> leftAt r (m_lexer u)"
  have "runsTo (stateStep n cf (False # states)) s ?Q"
    unfolding stateStep_def list.case bool.case
  proof (rule runsTo_bind [OF punctuation_token [where c = "CHR ''}''"]])
    fix t and u :: "'a parser"
    assume u: "t = TEndObject \<and> last_token u = TEndObject \<and> sax u = sax s \<and> leftAt r (m_lexer u)"
    have "runsTo (orReturn (onSax saxEnd) (ok (Continue states True))) u ?Q"
      by (rule runsTo_mono [OF end_reads [of u p ps]]) (use u assms(2) in auto)
    with u show "runsTo (if t = TValueSeparator
        then andThen (getToken n cf) (\<lambda>t. parseKey n cf t (andThen (getToken n cf) (\<lambda>_. ok (Continue (False # states) False))))
        else if t = TEndObject then orReturn (onSax saxEnd) (ok (Continue states True))
        else returning (syntaxError cf TEndObject ''object'')) u ?Q" by simp
  qed (use assms in simp_all)
  then show ?thesis by (simp add: loopStep_def runsTo_def run_simps)
qed

lemma entry_read:
  assumes "readsBack n cf v" "opened (floatsOf cf) v (entriesText (floatsOf cf) m r) (last_token s) (m_lexer s)"
    "length (jsonText (floatsOf cf) v @ entriesText (floatsOf cf) m r) < n"
    and "sax s = keyed k p w d" "domOk (False # states) d" "ref_stack d = p # ps" "valueAt p (dom_root d) = Some (JObject w)"
  obtains s' where "gets n cf (False # states, False, s) (False # states, True, s')" "leftAt (entriesText (floatsOf cf) m r) (m_lexer s')"
    "domOk (False # states) (sax s')" "ref_stack (sax s') = p # ps" "errored (sax s') = errored d"
    "dom_root (sax s') = assignAt p (JObject (mapPut k (readBack v) w)) (dom_root d)"
proof -
  let ?e = "(keyed k p w d)\<lparr>dom_root := assignAt p (JObject (mapPut k (readBack v) w)) (dom_root d)\<rparr>"
  have dom: "domOk (False # states) (sax s)" "awaitsValue (False # states) (sax s)"
    unfolding assms(4) by (rule keyed_ok [OF assms(5-7)])+
  have run: "handleValue (readBack v) (sax s) = (Inr (p @ [KeyStep k]), ?e)"
    unfolding assms(4) by (rule handle_keyed [OF assms(6,7)])
  have ok: "domOk (False # states) ?e"
    by (rule handleValue_run [OF dom, of "readBack v"]) (use run in simp)
  obtain s1 where "gets n cf (False # states, False, s) (False # states, True, s1)" "leftAt (entriesText (floatsOf cf) m r) (m_lexer s1)"
      "sameDom ?e (sax s1)"
    by (rule readsBackE [OF assms(1,2) entriesText_stops assms(3) dom run])
  with ok assms(6) domOk_same [of ?e "sax s1"] show thesis by (intro that) (simp_all add: sameDom_def keyed_def)
qed

lemma entries_read:
  assumes "\<And>l y. (l, y) \<in> set ((k, v) # m) \<Longrightarrow> readsBack n cf y \<and> printable (lexing cf) y \<and> validUtf8 l"
    and "opened (floatsOf cf) v (entriesText (floatsOf cf) m r) (last_token s) (m_lexer s)" "length (jsonText (floatsOf cf) v @ entriesText (floatsOf cf) m r) < n"
    and "sax s = keyed k p w d" "domOk (False # states) d" "ref_stack d = p # ps" "valueAt p (dom_root d) = Some (JObject w)"
  shows "\<exists>s'. gets n cf (False # states, False, s) (states, True, s') \<and> leftAt r (m_lexer s') \<and> ref_stack (sax s') = ps \<and>
    errored (sax s') = errored d \<and>
    dom_root (sax s') = assignAt p (JObject (fold (\<lambda>(k, v). mapPut k (readBack v)) ((k, v) # m) w)) (dom_root d)"
  using assms
proof (induction m arbitrary: k v s w d)
  case (Cons kv ys)
  obtain l y where kv: "kv = (l, y)" by (cases kv)
  have v: "readsBack n cf v" and y: "printable (lexing cf) y" "validUtf8 l"
    using Cons.prems(1) [of k v] Cons.prems(1) [of l y] kv by simp_all
  obtain s1 where s1: "gets n cf (False # states, False, s) (False # states, True, s1)" "leftAt (entriesText (floatsOf cf) (kv # ys) r) (m_lexer s1)"
    "domOk (False # states) (sax s1)" "ref_stack (sax s1) = p # ps" "errored (sax s1) = errored d"
    "dom_root (sax s1) = assignAt p (JObject (mapPut k (readBack v) w)) (dom_root d)"
    by (rule entry_read [OF v Cons.prems(2-7)])
  have after: "leftAt (CHR '','' # quoted l @ CHR '':'' # jsonText (floatsOf cf) y @ entriesText (floatsOf cf) ys r) (m_lexer s1)"
      "length (quoted l @ CHR '':'' # jsonText (floatsOf cf) y @ entriesText (floatsOf cf) ys r) < n" "length (jsonText (floatsOf cf) y @ entriesText (floatsOf cf) ys r) < n"
    using s1(2) Cons.prems(3) kv by simp_all
  have at: "valueAt p (dom_root (sax s1)) = Some (JObject (mapPut k (readBack v) w))"
    using s1(6) Cons.prems(7) by (simp add: valueAt_assign)
  obtain s2 where s2: "gets n cf (False # states, True, s1) (False # states, False, s2)"
      "sax s2 = keyed l p (mapPut k (readBack v) w) (sax s1) \<and> opened (floatsOf cf) y (entriesText (floatsOf cf) ys r) (last_token s2) (m_lexer s2)"
    by (rule runsTo_round [OF object_goes_on [OF after(1) y(2,1) entriesText_stops after(2) s1(4) at]])
  have "\<exists>s'. gets n cf (False # states, False, s2) (states, True, s') \<and> leftAt r (m_lexer s') \<and> ref_stack (sax s') = ps \<and>
    errored (sax s') = errored (sax s1) \<and>
    dom_root (sax s') = assignAt p (JObject (fold (\<lambda>(k, v). mapPut k (readBack v)) ((l, y) # ys) (mapPut k (readBack v) w))) (dom_root (sax s1))"
    using Cons.prems(1) kv s2(2) after(3) by (intro Cons.IH [OF _ _ _ _ s1(3,4) at]) auto
  then obtain s' where s': "gets n cf (False # states, False, s2) (states, True, s')" "leftAt r (m_lexer s')"
      "ref_stack (sax s') = ps" "errored (sax s') = errored (sax s1)"
      "dom_root (sax s') = assignAt p (JObject (fold (\<lambda>(k, v). mapPut k (readBack v)) ((l, y) # ys) (mapPut k (readBack v) w))) (dom_root (sax s1))"
    by blast
  from gets_trans [OF gets_trans [OF s1(1) s2(1)] s'(1)] s' s1(5,6) Cons.prems(7) kv show ?case
    by (intro exI [of _ s']) (simp add: assignAt_twice)
next
  case Nil
  have v: "readsBack n cf v" using Nil.prems(1) [of k v] by simp
  obtain s1 where s1: "gets n cf (False # states, False, s) (False # states, True, s1)"
    "leftAt (entriesText (floatsOf cf) ([] :: (string \<times> 'a json) list) r) (m_lexer s1)"
    "domOk (False # states) (sax s1)" "ref_stack (sax s1) = p # ps" "errored (sax s1) = errored d"
    "dom_root (sax s1) = assignAt p (JObject (mapPut k (readBack v) w)) (dom_root d)"
    by (rule entry_read [OF v Nil.prems(2-7)])
  have after: "leftAt (CHR ''}'' # r) (m_lexer s1)" "0 < n" using s1(2) Nil.prems(3) by simp_all
  obtain s2 where s2: "gets n cf (False # states, True, s1) (states, True, s2)"
      "sax s2 = (sax s1)\<lparr>ref_stack := ps\<rparr> \<and> leftAt r (m_lexer s2)"
    by (rule runsTo_round [OF object_ends [OF after(1) s1(4) after(2)]])
  from gets_trans [OF s1(1) s2(1)] s2 s1 show ?case by (intro exI [of _ s2]) simp
qed

text \<open>Entries that come in the order of their keys end up in that order.\<close>

lemma mapPut_last: "\<forall>j \<in> fst ` set m. j < k \<Longrightarrow> mapPut k v m = m @ [(k, v)]"
  by (induction k v m rule: mapPut.induct) (auto dest: less_asym)

lemma fold_mapPut_sorted:
  "sortedMap (w @ m) \<Longrightarrow> fold (\<lambda>(k, v). mapPut k (f v)) m (map (\<lambda>(k, v). (k, f v)) w) = map (\<lambda>(k, v). (k, f v)) (w @ m)"
proof (induction m arbitrary: w)
  case (Cons kv m)
  obtain k v where kv: "kv = (k, v)" by (cases kv)
  have "\<forall>j \<in> fst ` set (map (\<lambda>(k, v). (k, f v)) w). j < k"
    using Cons.prems kv by (fastforce simp: sortedMap_def sorted_wrt_append)
  then have "mapPut k (f v) (map (\<lambda>(k, v). (k, f v)) w) = map (\<lambda>(k, v). (k, f v)) (w @ [(k, v)])"
    by (simp add: mapPut_last)
  with Cons.IH [of "w @ [(k, v)]"] Cons.prems kv show ?case by simp
qed simp

lemma readsBack_object:
  assumes "\<And>l y. (l, y) \<in> set m \<Longrightarrow> readsBack n cf y \<and> printable (lexing cf) y \<and> validUtf8 l" "sortedMap m"
  shows "readsBack n cf (JObject m)"
  unfolding readsBack_def
proof (intro allI impI)
  fix states r p e and s :: "'a parser"
  assume op: "opened (floatsOf cf) (JObject m) r (last_token s) (m_lexer s)" and len: "length (jsonText (floatsOf cf) (JObject m) @ r) < n"
    and dom: "domOk states (sax s)" "awaitsValue states (sax s)"
    and run: "handleValue (readBack (JObject m)) (sax s) = (Inr p, e)"
  obtain d1 where d1: "saxStart (JObject []) (sax s) = (Inr True, d1)" "domOk (False # states) d1" "ref_stack d1 = p # ref_stack e"
    "valueAt p (dom_root d1) = Some (JObject [])" "errored d1 = errored e"
    "assignAt p (readBack (JObject m)) (dom_root d1) = dom_root e" "readBack (JObject m) = JObject [] \<Longrightarrow> dom_root d1 = dom_root e"
    by (rule structure_starts [OF dom run, of False "JObject []"]) (simp_all add: shape_def)
  let ?s = "s\<lparr>sax := d1\<rparr>"
  let ?next = "andThen (getToken n cf) (\<lambda>_. ok (Continue (False # states) False))"
  let ?rest = "andThen (getToken n cf) (\<lambda>t. if t = TEndObject then orReturn (onSax saxEnd) (ok ValueDone) else parseKey n cf t ?next)"
  have start: "valueStep n cf states s = ?rest ?s"
    using op orReturn_sax [of "saxStart (JObject [])" s, OF d1(1)] by (simp add: valueStep_def run_simps)
  show "\<exists>s'. gets n cf (states, False, s) (states, True, s') \<and> leftAt r (m_lexer s') \<and> sameDom e (sax s')"
  proof (cases m)
    case Nil
    then have "dom_root d1 = dom_root e" using d1(7) by simp
    then show ?thesis
      by (intro empty_reads [OF start, of "CHR ''}''" r]) (use op Nil len d1(3,5) in simp_all)
  next
    case (Cons kv ys)
    obtain k v where kv: "kv = (k, v)" by (cases kv)
    have v: "printable (lexing cf) v" "validUtf8 k" using assms(1) [of k v] Cons kv by simp_all
    have after: "leftAt (quoted k @ CHR '':'' # jsonText (floatsOf cf) v @ entriesText (floatsOf cf) ys r) (m_lexer ?s)"
      unfolding joinText_entries [symmetric] using op Cons kv by simp
    have short: "length (quoted k @ CHR '':'' # jsonText (floatsOf cf) v @ entriesText (floatsOf cf) ys r) < n"
      unfolding joinText_entries [symmetric] using len Cons kv by simp
    let ?Q = "\<lambda>x u. x = Continue (False # states) False \<and> sax u = keyed k p [] d1 \<and>
      opened (floatsOf cf) v (entriesText (floatsOf cf) ys r) (last_token u) (m_lexer u)"
    have "runsTo ?rest ?s ?Q"
    proof (rule runsTo_bind [OF key_token [OF v(2) after short]])
      fix t and u :: "'a parser"
      assume u: "t = TValueString \<and> sax u = sax ?s \<and> token_buffer (m_lexer u) = k \<and>
        leftAt (CHR '':'' # jsonText (floatsOf cf) v @ entriesText (floatsOf cf) ys r) (m_lexer u)"
      then have "runsTo (parseKey n cf TValueString ?next) u
        (\<lambda>x w. x = Continue (False # states) False \<and> sax w = keyed k p [] (sax u) \<and>
      opened (floatsOf cf) v (entriesText (floatsOf cf) ys r) (last_token w) (m_lexer w))"
        using v short d1(3,4) entriesText_stops by (intro key_reads) simp_all
      with u show "runsTo (if t = TEndObject then orReturn (onSax saxEnd) (ok ValueDone) else parseKey n cf t ?next) u ?Q" by simp
    qed
    then have "runsTo (loopStep n cf states False) s (\<lambda>y u. y = Continue (False # states) False \<and>
        (sax u = keyed k p [] d1 \<and> opened (floatsOf cf) v (entriesText (floatsOf cf) ys r) (last_token u) (m_lexer u)))"
      unfolding loopStep_def by (auto simp: runsTo_def start andThen_def ok_def)
    then obtain s1 where s1: "gets n cf (states, False, s) (False # states, False, s1)"
        "sax s1 = keyed k p [] d1 \<and> opened (floatsOf cf) v (entriesText (floatsOf cf) ys r) (last_token s1) (m_lexer s1)"
      by (rule runsTo_round)
    have "\<exists>s'. gets n cf (False # states, False, s1) (states, True, s') \<and> leftAt r (m_lexer s') \<and> ref_stack (sax s') = ref_stack e \<and>
      errored (sax s') = errored d1 \<and>
      dom_root (sax s') = assignAt p (JObject (fold (\<lambda>(k, v). mapPut k (readBack v)) ((k, v) # ys) [])) (dom_root d1)"
      by (rule entries_read) (use assms(1) Cons kv s1(2) short d1(2-4) in auto)
    moreover have "JObject (fold (\<lambda>(k, v). mapPut k (readBack v)) ((k, v) # ys) []) = readBack (JObject m)"
      using fold_mapPut_sorted [of "[]" m readBack] assms(2) Cons kv by simp
    ultimately obtain s' where "gets n cf (False # states, False, s1) (states, True, s')" "leftAt r (m_lexer s')"
        "sameDom e (sax s')"
      using d1(5,6) by (auto simp: sameDom_def)
    with gets_trans [OF s1(1)] show ?thesis by blast
  qed
qed

lemma readsBack_printable: "printable (lexing cf) j \<Longrightarrow> readsBack n cf j"
proof (induction j rule: readBack.induct)
  case (1 m)
  show ?case by (rule readsBack_object) (use 1 in auto)
next
  case (2 xs)
  show ?case by (rule readsBack_array) (use 2 in auto)
qed (simp_all add: readsBack_scalar)

section \<open>The whole text\<close>

lemma saxParseInternal_more:
  "fst (saxParseInternal k n cf states skip s) \<noteq> Inl OutOfFuel \<Longrightarrow>
     saxParseInternal (k + m) n cf states skip s = saxParseInternal k n cf states skip s"
proof (induction k arbitrary: states skip s)
  case (Suc k)
  then show ?case
    by (auto simp: andThen_def split: prod.splits sum.splits saxStep.splits)
qed (simp add: run_simps)

lemma newParser_parses:
  assumes "parses (saxParseInternal n n cf [] False) s P" "gets n cf ([], False, s) ([], True, s')"
  shows "saxParseInternal n n cf [] False s = (Inr True, s')"
proof -
  obtain j where "saxParseInternal (j + Suc n) n cf [] False s = saxParseInternal (Suc n) n cf [] True s'"
    using assms(2) unfolding gets_def fst_conv snd_conv by blast
  also have "\<dots> = (Inr True, s')" by (simp add: loopStep_def stateStep_def run_simps)
  finally have run: "saxParseInternal (n + Suc j) n cf [] False s = (Inr True, s')" by (simp add: add.commute)
  have "fst (saxParseInternal n n cf [] False s) \<noteq> Inl OutOfFuel"
    using assms(1) by (auto simp: parses_def split: prod.splits sum.splits)
  from saxParseInternal_more [OF this, of "Suc j"] run show ?thesis by simp
qed

lemma endsInput_stops: "endsInput t \<Longrightarrow> stopsNumber t"
  by (cases t) (auto simp: endsInput_def stopsNumber_def isDigit_def)

lemma jsonParse_text:
  assumes "printable (lexing cf) j" "endsInput t"
  shows "jsonParse cf (jsonText (floatsOf cf) j @ t) = Inr (readBack j)"
proof -
  let ?src = "jsonText (floatsOf cf) j @ t"
  let ?n = "length ?src + 3" and ?s = "newParser (lexing cf) ?src"
  have left: "leftAt ?src (m_lexer ?s)"
    by (simp add: leftAt_def newParser_def newLexer_def lexOk_def remaining_def)
  have stops: "stopsNumber t" by (rule endsInput_stops [OF assms(2)])
  obtain tok s1 where s1: "getToken ?n cf ?s = (Inr tok, s1)" "tok = last_token s1" "sax s1 = sax ?s"
      "opened (floatsOf cf) j t (last_token s1) (m_lexer s1)"
    using value_token [OF assms(1) stops left, of ?n] by (auto simp: runsTo_def)
  have new: "sax s1 = newDom" using s1(3) by (simp add: newParser_def)
  have dom: "domOk [] (sax s1)" "awaitsValue [] (sax s1)" by (simp_all add: new domOk_def newDom_def awaitsValue_def)
  have run: "handleValue (readBack j) (sax s1) = (Inr [], newDom\<lparr>dom_root := readBack j\<rparr>)"
    by (simp add: new newDom_def handleValue_def assignPtr_def run_simps)
  obtain s2 where s2: "gets ?n cf ([], False, s1) ([], True, s2)" "leftAt t (m_lexer s2)"
      "sameDom (newDom\<lparr>dom_root := readBack j\<rparr>) (sax s2)"
    by (rule readsBackE [OF readsBack_printable [OF assms(1), of ?n] s1(4) stops _ dom run]) simp_all
  have "readOk (length ?src) ?s" by (simp add: readOk_def newParser_def newLexer_def lexOk_def remaining_def)
  from getToken_parses [OF this, of ?n cf] s1(1) have ok: "readOk (length ?src) s1"
    by (auto simp: parses_def dest: tokenFrom_le)
  have "parses (saxParseInternal ?n ?n cf [] False) s1 (\<lambda>_. readOk (length ?src))"
    by (rule saxParseInternal_parses [OF ok]) (use dom ok in \<open>auto simp: atHead_def weight_def readOk_def\<close>)
  from newParser_parses [OF this s2(1)] have main: "saxParseInternal ?n ?n cf [] False s1 = (Inr True, s2)" .
  obtain s3 where s3: "getToken ?n cf s2 = (Inr TEndOfInput, s3)" "sax s3 = sax s2"
    using getToken_reads [OF scan_end [OF assms(2) s2(2)], of ?n cf] by (auto simp: runsTo_def)
  show ?thesis
    using s1(1) main s3 s2(3) by (simp add: jsonParse_def parserParse_def run_simps sameDom_def newDom_def)
qed

text \<open>
  C14: A value that is printed is parsed back, with the numbers that are not negative as unsigned ones; what follows
  a null byte, which ends the buffer the text comes in, is not read.
\<close>

theorem print_parse:
  assumes "printable (lexing cf) j" "endsInput t"
  shows "\<exists>x. dumpJsonText (floatsOf cf) (-1) ic False Strict j = Inr x \<and> jsonParse cf (x @ t) = Inr (readBack j)"
  using dumpJsonText_compact [OF assms(1), of ic] jsonParse_text [OF assms] by blast

definition bareFloats :: "unit floats" where
  "bareFloats = \<lparr>strtod = (\<lambda>_. ()), isFinite = (\<lambda>_. True), floatText = (\<lambda>_. Inr ''0.0''), floatToInt = (\<lambda>_. Some 0)\<rparr>"

definition bareConf :: "unit parseConf" where
  "bareConf = \<lparr>lexing = \<lparr>ignore_comments = False, decimal_point_char = CHR ''.'', numbers = bareFloats\<rparr>, allow_exceptions = True\<rparr>"

definition sampleJson :: "unit json" where
  "sampleJson = JObject [(''a'', JArray [JInteger 7, JInteger (- 7), JFloat (), JNull, JObject []]), (''b'', JString [CHR 0xC3, CHR 0xA4, CHR 0x0A])]"

theorem print_parse_witness:
  "\<exists>x. dumpJsonText bareFloats (-1) CHR '' '' False Strict sampleJson = Inr x \<and>
     jsonParse bareConf (x @ [CHR 0x00]) = Inr (readBack sampleJson)"
proof -
  have "printable (lexing bareConf) sampleJson" by code_simp
  from print_parse [OF this, of "[CHR 0x00]" "CHR '' ''"] show ?thesis by (simp add: endsInput_def bareConf_def)
qed

end
