(* ===== verification/JsonTyped.thy ===== *)
theory JsonTyped
  imports JsonRound
begin

text \<open>
  What the parser returns is well typed: texts are well-formed UTF-8, the members of an object are sorted and
  distinct, and numbers are in the range of their kind (\<open>typed\<close>). So it can be printed.
\<close>

section \<open>Well-typed values\<close>

fun typed :: "'f floats \<Rightarrow> 'f json \<Rightarrow> bool" where
  "typed fl (JObject m) \<longleftrightarrow> sortedMap m \<and> (\<forall>(k, v) \<in> set m. validUtf8 k \<and> typed fl v)"
| "typed fl (JArray xs) \<longleftrightarrow> (\<forall>x \<in> set xs. typed fl x)"
| "typed fl (JString s) \<longleftrightarrow> validUtf8 s"
| "typed fl (JInteger i) \<longleftrightarrow> - (2 ^ 63) \<le> i \<and> i \<le> 0"
| "typed fl (JUnsigned i) \<longleftrightarrow> 0 \<le> i \<and> i < 2 ^ 64"
| "typed fl (JFloat x) \<longleftrightarrow> isFinite fl x"
| "typed fl (JBool b) \<longleftrightarrow> True"
| "typed fl JNull \<longleftrightarrow> True"
| "typed fl (JBinary bs t) \<longleftrightarrow> False"
| "typed fl JDiscarded \<longleftrightarrow> False"

lemma typed_printable: "typed fl j \<Longrightarrow> \<forall>x \<in> set_json j. exactFloat cf x \<Longrightarrow> printable cf j"
  by (induction j rule: readBack.induct) (fastforce split: prod.splits)+

section \<open>Partial correctness\<close>

text \<open>When the program returns, its result satisfies the postcondition.\<close>

definition gives :: "('s \<Rightarrow> bool) \<Rightarrow> ('s, 'a) prog \<Rightarrow> ('a \<Rightarrow> 's \<Rightarrow> bool) \<Rightarrow> bool" where
  "gives P m Q \<longleftrightarrow> (\<forall>s x t. P s \<longrightarrow> m s = (Inr x, t) \<longrightarrow> Q x t)"

lemma givesI: "(\<And>s x t. P s \<Longrightarrow> m s = (Inr x, t) \<Longrightarrow> Q x t) \<Longrightarrow> gives P m Q"
  by (auto simp: gives_def)

lemma givesD: "gives P m Q \<Longrightarrow> P s \<Longrightarrow> m s = (Inr x, t) \<Longrightarrow> Q x t"
  by (auto simp: gives_def)

named_theorems gives_intros "programs that keep a postcondition"

lemma gives_bind: "gives P m R \<Longrightarrow> (\<And>x. gives (R x) (f x) Q) \<Longrightarrow> gives P (andThen m f) Q"
  by (rule givesI) (auto elim!: andThen_InrE dest: givesD)

lemma gives_ok [gives_intros]: "(\<And>s. P s \<Longrightarrow> Q x s) \<Longrightarrow> gives P (ok x) Q"
  by (simp add: gives_def run_simps)

lemma gives_raise [gives_intros]: "gives P (raise e) Q"
  by (simp add: gives_def run_simps)

lemma gives_modify: "(\<And>s. P s \<Longrightarrow> Q () (f s)) \<Longrightarrow> gives P (modify f) Q"
  by (simp add: gives_def run_simps)

lemma gives_getState: "gives P getState (\<lambda>x s. x = s \<and> P s)"
  by (simp add: gives_def run_simps)

lemma gives_if [gives_intros]: "(b \<Longrightarrow> gives P m Q) \<Longrightarrow> (\<not> b \<Longrightarrow> gives P n Q) \<Longrightarrow> gives P (if b then m else n) Q"
  by simp

lemma gives_mono: "gives P m R \<Longrightarrow> (\<And>s. P' s \<Longrightarrow> P s) \<Longrightarrow> (\<And>x s. R x s \<Longrightarrow> Q x s) \<Longrightarrow> gives P' m Q"
  unfolding gives_def by blast

lemma gives_assume: "(\<And>s. P s \<Longrightarrow> A) \<Longrightarrow> (A \<Longrightarrow> gives P m Q) \<Longrightarrow> gives P m Q"
  by (auto simp: gives_def)

lemma gives_fromOption [gives_intros]: "(\<And>y s. x = Some y \<Longrightarrow> P s \<Longrightarrow> Q y s) \<Longrightarrow> gives P (fromOption e x) Q"
  by (cases x) (auto simp: gives_def run_simps)

section \<open>The bytes of a text\<close>

text \<open>\<open>completes rs b\<close>: bytes in the ranges \<open>rs\<close>, and then well-formed text, complete \<open>b\<close>.\<close>

definition completes :: "(nat \<times> nat) list \<Rightarrow> string \<Rightarrow> bool" where
  "completes rs b \<longleftrightarrow> (\<forall>y. utf8Ok rs y \<longrightarrow> validUtf8 (b @ y))"

lemma utf8Ok_append: "utf8Ok rs x \<Longrightarrow> validUtf8 y \<Longrightarrow> utf8Ok rs (x @ y)"
  by (induction rs x rule: utf8Ok.induct) (auto split: option.splits)

lemma completes_valid: "completes [] b \<longleftrightarrow> validUtf8 b"
proof
  assume "completes [] b"
  then have "validUtf8 (b @ [])" unfolding completes_def by (rule allE [of _ "[]"]) simp
  then show "validUtf8 b" by simp
qed (simp add: completes_def utf8Ok_append)

lemma completes_byte: "completes (r # rs) b \<Longrightarrow> inRange r (of_char c) \<Longrightarrow> completes rs (b @ [c])"
  unfolding completes_def by (metis append.assoc append_Cons append_Nil utf8Ok.simps(3))

lemma completes_lead:
  assumes "validUtf8 b" "tailRanges (of_char c) = Some rs"
  shows "completes rs (b @ [c])"
  unfolding completes_def using utf8Ok_append [OF assms(1)] assms(2) by simp

lemma valid_append: "validUtf8 b \<Longrightarrow> validUtf8 y \<Longrightarrow> validUtf8 (b @ y)"
  by (rule utf8Ok_append)

text \<open>The bytes of a code point that is no surrogate.\<close>

lemma or_plus: "x < 2 ^ k \<Longrightarrow> push_bit k m OR x = push_bit k m + (x :: nat)"
proof -
  assume "x < 2 ^ k"
  then have x: "take_bit k x = x" by (rule take_bit_nat_eq_self)
  have "push_bit k m OR take_bit k x = push_bit k m + take_bit k x"
    by (rule disjunctive_add_eq_or [symmetric]) (auto simp: bit_eq_iff bit_simps)
  then show ?thesis by (simp add: x)
qed

lemma utf8_bits:
  "cp AND 0x3F = cp mod 64" "0x80 OR x mod 64 = 0x80 + x mod (64 :: nat)"
  "y < 32 \<Longrightarrow> 0xC0 OR y = 0xC0 + (y :: nat)" "y < 16 \<Longrightarrow> 0xE0 OR y = 0xE0 + (y :: nat)"
  "y < 8 \<Longrightarrow> 0xF0 OR y = 0xF0 + (y :: nat)"
  "drop_bit 6 cp = cp div 64" "drop_bit 12 cp = cp div 4096" "drop_bit 18 cp = cp div (262144 :: nat)" for cp :: nat
proof -
  have "cp AND 0x3F = take_bit 6 cp" by (simp add: take_bit_eq_mask mask_eq_exp_minus_1)
  then show "cp AND 0x3F = cp mod 64" by (simp add: take_bit_eq_mod)
  show "0x80 OR x mod 64 = 0x80 + x mod (64 :: nat)" using or_plus [of "x mod 64" 6 2] by (simp add: push_bit_eq_mult)
  show "y < 32 \<Longrightarrow> 0xC0 OR y = 0xC0 + (y :: nat)" using or_plus [of y 5 6] by (simp add: push_bit_eq_mult)
  show "y < 16 \<Longrightarrow> 0xE0 OR y = 0xE0 + (y :: nat)" using or_plus [of y 4 14] by (simp add: push_bit_eq_mult)
  show "y < 8 \<Longrightarrow> 0xF0 OR y = 0xF0 + (y :: nat)" using or_plus [of y 3 30] by (simp add: push_bit_eq_mult)
qed (simp_all add: drop_bit_eq_div)

lemma base64_split: "x = 64 * (x div 64) + x mod (64 :: nat)"
  by simp

definition scalarValue :: "nat \<Rightarrow> bool" where
  "scalarValue cp \<longleftrightarrow> cp < 0xD800 \<or> 0xE000 \<le> cp \<and> cp < 0x110000"

lemma of_char_byte: "n < 256 \<Longrightarrow> of_char (char_of n :: char) = (n :: nat)"
  by simp

lemma utf8Bytes_valid:
  assumes "scalarValue cp"
  shows "validUtf8 (map char_of (utf8Bytes cp))"
proof -
  have tail: "inRange (0x80, 0xBF) (0x80 + x mod 64)" for x by (simp add: inRange_def)
  consider "cp < 0x80" | "0x80 \<le> cp" "cp < 0x800" | "0x800 \<le> cp" "cp < 0x10000" | "0x10000 \<le> cp" by linarith
  then show ?thesis
  proof cases
    case 1
    then show ?thesis by (simp add: utf8Bytes_def tailRanges_def)
  next
    case 2
    then have "cp div 64 < 32" "2 \<le> cp div 64" by simp_all
    with 2 show ?thesis by (simp add: utf8Bytes_def utf8_bits of_char_byte tailRanges_def inRange_def)
  next
    case 3
    define a b c where "a = cp div 4096" "b = cp div 64 mod 64" "c = cp mod 64"
    have bound: "a < 16" "b < 64" "c < 64" using 3 by (auto simp: a_b_c_def)
    have "cp = 64 * (cp div 64) + c" "cp div 64 = 64 * a + b"
      using base64_split [of "cp div 64"] by (simp_all add: a_b_c_def base64_split flip: div_mult2_eq)
    then have cp: "cp = 4096 * a + 64 * b + c" by linarith
    have "a = 0 \<Longrightarrow> 32 \<le> b" "a = 13 \<Longrightarrow> b < 32" using 3 assms cp bound unfolding scalarValue_def by linarith+
    moreover have "utf8Bytes cp = [0xE0 + a, 0x80 + b, 0x80 + c]"
      using 3 bound by (simp add: utf8Bytes_def utf8_bits a_b_c_def)
    ultimately show ?thesis using bound
      by (cases "a = 0"; cases "a = 13") (simp_all add: of_char_byte tailRanges_def inRange_def)
  next
    case 4
    define a b c d where "a = cp div 262144" "b = cp div 4096 mod 64" "c = cp div 64 mod 64" "d = cp mod 64"
    have bound: "a < 8" "b < 64" "c < 64" "d < 64" using assms by (auto simp: a_b_c_d_def scalarValue_def)
    have "cp = 64 * (cp div 64) + d" "cp div 64 = 64 * (cp div 4096) + c" "cp div 4096 = 64 * a + b"
      using base64_split [of "cp div 64"] base64_split [of "cp div 4096"]
      by (simp_all add: a_b_c_d_def base64_split flip: div_mult2_eq)
    then have cp: "cp = 262144 * a + 4096 * b + 64 * c + d" by linarith
    have "a \<le> 4" "a = 0 \<Longrightarrow> 16 \<le> b" "a = 4 \<Longrightarrow> b < 16" using 4 assms cp bound unfolding scalarValue_def by linarith+
    moreover have "utf8Bytes cp = [0xF0 + a, 0x80 + b, 0x80 + c, 0x80 + d]"
      using 4 bound by (simp add: utf8Bytes_def utf8_bits a_b_c_d_def)
    ultimately show ?thesis using bound
      by (cases "a = 0"; cases "a = 4") (simp_all add: of_char_byte tailRanges_def inRange_def)
  qed
qed

section \<open>The lexer\<close>

text \<open>The token buffer holds well-formed text; a step that goes on, or ends the string, keeps it so.\<close>

definition bufOk :: "'f lexer \<Rightarrow> bool" where
  "bufOk s \<longleftrightarrow> validUtf8 (token_buffer s)"

definition stepOk :: "token_type option \<Rightarrow> 'f lexer \<Rightarrow> bool" where
  "stepOk r s \<longleftrightarrow> (r = None \<or> r = Some TValueString \<longrightarrow> bufOk s) \<and> r \<noteq> Some TValueInteger \<and> r \<noteq> Some TValueUnsigned"

lemma getChar_buffer: "gives (\<lambda>s. R (token_buffer s)) getChar (\<lambda>c s. current s = c \<and> R (token_buffer s))"
  by (auto simp: gives_def getChar_def)

lemma getChar_bufOk: "gives bufOk getChar (\<lambda>c s. current s = c \<and> bufOk s)"
  unfolding bufOk_def by (rule getChar_buffer)

lemma stopWith_stepOk [gives_intros]: "gives P (stopWith m) stepOk"
  by (auto simp: gives_def stopWith_def failWith_def setError_def stepOk_def run_simps)

lemma goOn_stepOk: "gives P p (\<lambda>_. bufOk) \<Longrightarrow> gives P (goOn p) stepOk"
  unfolding goOn_def by (rule gives_bind, assumption) (auto intro!: gives_ok simp: stepOk_def)

lemma addChar_bufOk: "validUtf8 [c] \<Longrightarrow> gives bufOk (addChar c) (\<lambda>_. bufOk)"
  by (auto simp: gives_def addChar_def run_simps bufOk_def valid_append simp del: utf8Ok.simps)

lemma addBytes_run: "addBytes bs s = (Inr (), s\<lparr>token_buffer := token_buffer s @ map char_of bs\<rparr>)"
  by (induction bs arbitrary: s) (simp_all add: addBytes_def addChar_def run_simps)

lemma addBytes_bufOk: "scalarValue cp \<Longrightarrow> gives bufOk (addBytes (utf8Bytes cp)) (\<lambda>_. bufOk)"
  by (auto simp: gives_def addBytes_run bufOk_def valid_append utf8Bytes_valid)

lemma hexValue_bound: "hexValue c = Some d \<Longrightarrow> d < 16"
  by (auto simp: hexValue_def Let_def split: if_splits)

lemma gives_case: "(x = None \<Longrightarrow> gives P a Q) \<Longrightarrow> (\<And>y. x = Some y \<Longrightarrow> gives P (f y) Q) \<Longrightarrow> gives P (case x of None \<Rightarrow> a | Some y \<Rightarrow> f y) Q"
  by (cases x) auto

lemma read_then: "(\<And>c. gives bufOk (f c) Q) \<Longrightarrow> gives bufOk (andThen getChar f) Q"
  by (rule gives_bind [OF getChar_bufOk]) (auto intro: gives_mono)

lemma codepointLoop_bufOk:
  "gives bufOk (codepointLoop fs cp :: ('f, nat option) lexProg)
     (\<lambda>r s. bufOk s \<and> (\<forall>x. r = Some x \<longrightarrow> x \<le> cp + (\<Sum>f \<leftarrow> fs. push_bit f 15)))"
proof (induction fs arbitrary: cp)
  case Nil
  show ?case by (auto intro: gives_intros)
next
  case (Cons f fs)
  have "gives bufOk (codepointLoop fs (cp + push_bit f d) :: ('f, nat option) lexProg)
      (\<lambda>r s. bufOk s \<and> (\<forall>x. r = Some x \<longrightarrow> x \<le> cp + (\<Sum>f \<leftarrow> f # fs. push_bit f 15)))"
    if d: "Option.bind c hexValue = Some d" for c d
  proof (rule gives_mono [OF Cons [of "cp + push_bit f d"]])
    fix r and s :: "'f lexer"
    have "d \<le> 15" using d by (auto simp: bind_eq_Some_conv dest!: hexValue_bound)
    then have "push_bit f d \<le> push_bit f 15" by (simp add: push_bit_eq_mult)
    then have le: "cp + push_bit f d + (\<Sum>f \<leftarrow> fs. push_bit f 15) \<le> cp + (\<Sum>f \<leftarrow> f # fs. push_bit f 15)" by simp
    assume "bufOk s \<and> (\<forall>x. r = Some x \<longrightarrow> x \<le> cp + push_bit f d + (\<Sum>f \<leftarrow> fs. push_bit f 15))"
    with le show "bufOk s \<and> (\<forall>x. r = Some x \<longrightarrow> x \<le> cp + (\<Sum>f \<leftarrow> f # fs. push_bit f 15))"
      using order_trans by blast
  qed
  then show ?case unfolding codepointLoop.simps by (intro read_then gives_case gives_ok) auto
qed

lemma getCodepoint_bufOk: "gives bufOk getCodepoint (\<lambda>r s. bufOk s \<and> (\<forall>x. r = Some x \<longrightarrow> x < 0x10000))"
  unfolding getCodepoint_def
  by (rule gives_mono [OF codepointLoop_bufOk]) (auto simp: push_bit_eq_mult)

lemma codepoint_then:
  assumes "gives bufOk (f None) Q" "\<And>x. x < 0x10000 \<Longrightarrow> gives bufOk (f (Some x)) Q"
  shows "gives bufOk (andThen getCodepoint f) Q"
proof (rule gives_bind [OF getCodepoint_bufOk])
  show "gives (\<lambda>s. bufOk s \<and> (\<forall>x. r = Some x \<longrightarrow> x < 0x10000)) (f r) Q" for r
    using assms by (cases r) (auto simp: gives_def)
qed

lemma lowSurrogate_stepOk:
  assumes "0xD800 \<le> cp" "cp \<le> 0xDBFF"
  shows "gives bufOk (lowSurrogate cp) stepOk"
proof -
  have "scalarValue (push_bit 10 cp + x - 0x35FDC00)" if "0xDC00 \<le> x \<and> x \<le> 0xDFFF" for x
  proof -
    have "push_bit 10 cp = 1024 * cp" by (simp add: push_bit_eq_mult)
    with assms that show ?thesis unfolding scalarValue_def by linarith
  qed
  then show ?thesis
    unfolding lowSurrogate_def
    by (intro read_then gives_if stopWith_stepOk codepoint_then) (simp_all add: stopWith_stepOk goOn_stepOk addBytes_bufOk)
qed

lemma unicodeStep_stepOk: "gives bufOk unicodeStep stepOk"
  unfolding unicodeStep_def
  by (rule codepoint_then) (auto intro!: gives_if stopWith_stepOk lowSurrogate_stepOk goOn_stepOk addBytes_bufOk simp: scalarValue_def)

lemma escapeStep_stepOk: "gives bufOk escapeStep stepOk"
  unfolding escapeStep_def
  by (intro read_then gives_if goOn_stepOk stopWith_stepOk addChar_bufOk unicodeStep_stepOk) (simp_all add: tailRanges_def)

lemma addCurrent_run: "current s = Some c \<Longrightarrow> addCurrent s = (Inr (), s\<lparr>token_buffer := token_buffer s @ [c]\<rparr>)"
  by (simp add: addCurrent_def run_simps)

lemma setError_then [gives_intros]: "(\<And>s. Q x s) \<Longrightarrow> gives P (andThen (setError m) (\<lambda>_. ok x)) Q"
  by (simp add: gives_def setError_def run_simps)

lemma rangeLoop_bufOk: "gives (\<lambda>s. completes rs (token_buffer s)) (rangeLoop rs :: ('f, bool) lexProg) (\<lambda>b s. b \<longrightarrow> bufOk s)"
proof (induction rs)
  case Nil
  show ?case by (auto intro!: gives_ok simp: completes_valid bufOk_def)
next
  case (Cons r rs)
  show ?case
    unfolding rangeLoop.simps
  proof (rule gives_bind [OF getChar_buffer [of "completes (r # rs)"]], rule gives_if)
    fix c assume "case c of None \<Rightarrow> False | Some x \<Rightarrow> fst r \<le> of_char x \<and> of_char x \<le> snd r"
    then obtain x where x: "c = Some x" "inRange r (of_char x)" by (auto simp: inRange_def split: option.splits)
    show "gives (\<lambda>s. current s = c \<and> completes (r # rs) (token_buffer s)) (andThen addCurrent (\<lambda>_. rangeLoop rs))
        (\<lambda>b s. b \<longrightarrow> bufOk (s :: 'f lexer))"
      by (rule gives_bind [OF _ Cons]) (auto simp: gives_def x(1) addCurrent_run completes_byte x(2))
  qed (auto intro: gives_intros)
qed

lemma rangeStep_stepOk:
  assumes "tailRanges (of_char c) = Some rs"
  shows "gives (\<lambda>s. current s = Some c \<and> bufOk s) (rangeStep rs) stepOk"
  unfolding rangeStep_def nextByteInRange_def
proof (rule gives_bind)
  show "gives (\<lambda>s. current s = Some c \<and> bufOk s) (andThen addCurrent (\<lambda>_. rangeLoop rs)) (\<lambda>b s. b \<longrightarrow> bufOk s)"
    by (rule gives_bind [OF _ rangeLoop_bufOk]) (auto simp: gives_def addCurrent_run bufOk_def completes_lead assms)
qed (auto intro!: gives_ok simp: stepOk_def)

lemma addCurrent_bufOk: "validUtf8 [c] \<Longrightarrow> gives (\<lambda>s. current s = Some c \<and> bufOk s) addCurrent (\<lambda>_. bufOk)"
  by (auto simp: gives_def addCurrent_run bufOk_def valid_append simp del: utf8Ok.simps)

lemma stringChar_stepOk: "gives (\<lambda>s. current s = Some c \<and> bufOk s) (stringChar c) stepOk"
  unfolding stringChar_def Let_def
  by (intro gives_if rangeStep_stepOk stopWith_stepOk goOn_stepOk addCurrent_bufOk gives_ok gives_mono [OF escapeStep_stepOk])
    (auto simp: tailRanges_def stepOk_def)

lemma stringStep_stepOk: "gives bufOk stringStep stepOk"
  unfolding stringStep_def
proof (rule gives_bind [OF getChar_bufOk])
  show "gives (\<lambda>s. current s = x \<and> bufOk s) (case x of None \<Rightarrow> stopWith ''invalid string: missing closing quote''
      | Some c \<Rightarrow> stringChar c) stepOk" for x
    by (cases x) (simp_all add: stopWith_stepOk stringChar_stepOk)
qed

definition tokenOk :: "token_type \<Rightarrow> 'f lexer \<Rightarrow> bool" where
  "tokenOk t s \<longleftrightarrow> (t = TValueString \<longrightarrow> bufOk s) \<and> (t = TValueInteger \<longrightarrow> - (2 ^ 63) \<le> value_integer s \<and> value_integer s \<le> 0) \<and>
     (t = TValueUnsigned \<longrightarrow> 0 \<le> value_unsigned s \<and> value_unsigned s < 2 ^ 64)"

lemma stringLoop_tokenOk: "gives bufOk (stringLoop n :: ('f, token_type) lexProg) tokenOk"
proof (induction n)
  case 0
  show ?case by (simp add: gives_raise)
next
  case (Suc n)
  show ?case
    unfolding stringLoop.simps
  proof (rule gives_bind [OF stringStep_stepOk])
    show "gives (stepOk r) (case r of None \<Rightarrow> stringLoop n | Some t \<Rightarrow> ok t) (tokenOk :: _ \<Rightarrow> 'f lexer \<Rightarrow> bool)" for r
      by (cases r) (auto intro!: gives_ok gives_mono [OF Suc] simp: stepOk_def tokenOk_def)
  qed
qed

lemma scanString_tokenOk: "gives P (scanString n) tokenOk"
  unfolding scanString_def by (rule gives_bind [OF _ stringLoop_tokenOk]) (auto simp: gives_def resetToken_def run_simps bufOk_def)

lemma failWith_tokenOk [gives_intros]: "gives P (failWith m) tokenOk"
  by (auto simp: gives_def failWith_def setError_def run_simps tokenOk_def)

lemma finishNumber_tokenOk: "gives P (finishNumber cf ty) tokenOk"
  by (rule givesI)
    (auto simp: finishNumber_def ungetChar_def run_simps Let_def strtoull_def strtoll_def tokenOk_def split: option.splits if_splits)

lemma numberLoop_tokenOk: "gives P (numberLoop n cf st ty :: ('f, token_type) lexProg) tokenOk"
proof (induction n arbitrary: P st ty)
  case (Suc n)
  show ?case
    unfolding numberLoop.simps
  proof (rule gives_bind [of _ _ "\<lambda>_ _. True"])
    show "gives (\<lambda>_. True) (case numberStep (decimal_point_char cf) st c of
       NGoto x st' \<Rightarrow> andThen (addChar x) (\<lambda>_. numberLoop n cf st' (numberType st ty))
     | NDone \<Rightarrow> finishNumber cf (numberType st ty)
     | NError m \<Rightarrow> failWith m) (tokenOk :: _ \<Rightarrow> 'f lexer \<Rightarrow> bool)" for c
      by (cases "numberStep (decimal_point_char cf) st c")
        (auto intro!: finishNumber_tokenOk failWith_tokenOk gives_bind [OF _ Suc, of _ _ "\<lambda>_ _. True"] simp: gives_def [of _ "addChar _"])
  qed (simp add: gives_def)
qed (simp add: gives_raise)

lemma scanNumber_tokenOk: "gives P (scanNumber n cf) tokenOk"
  unfolding scanNumber_def
  by (intro gives_bind [of _ _ "\<lambda>_ _. True"] numberLoop_tokenOk) (simp_all add: gives_def)

lemma scanLiteral_tokenOk:
  "ty \<notin> {TValueString, TValueInteger, TValueUnsigned} \<Longrightarrow> gives P (scanLiteral ls ty :: ('f, token_type) lexProg) tokenOk"
proof (induction ls arbitrary: P)
  case Nil
  then show ?case by (auto intro!: gives_ok simp: tokenOk_def)
next
  case (Cons l ls)
  then show ?case
    unfolding scanLiteral.simps by (intro gives_bind [of _ _ "\<lambda>_ _. True"] gives_if failWith_tokenOk) (simp_all add: gives_def [of _ getChar])
qed

lemma scanChar_tokenOk: "gives P (scanChar n cf c) tokenOk"
  unfolding scanChar_def
  by (intro gives_if gives_ok scanLiteral_tokenOk scanString_tokenOk scanNumber_tokenOk failWith_tokenOk) (simp_all add: tokenOk_def)

lemma scanToken_tokenOk: "gives P (scanToken n cf) tokenOk"
proof -
  have current: "gives P (scanCurrent n cf) tokenOk" for P
    unfolding scanCurrent_def
    by (rule gives_bind [of _ _ "\<lambda>_ _. True"]) (auto simp: gives_def [of _ getState] split: option.splits
        intro!: gives_ok scanChar_tokenOk gives_case simp: tokenOk_def)
  show ?thesis
    unfolding scanToken_def
    by (intro gives_bind [of _ _ "\<lambda>_ _. True"] gives_if failWith_tokenOk gives_ok current) (simp_all add: gives_def tokenOk_def)
qed

section \<open>The value under construction\<close>

lemma typed_valueAt: "typed fl j \<Longrightarrow> valueAt p j = Some x \<Longrightarrow> typed fl x"
proof (induction p j rule: valueAt.induct)
  case (2 i p xs)
  then show ?case by (auto split: if_splits)
next
  case (3 k p m)
  then obtain y where y: "map_of m k = Some y" "valueAt p y = Some x" by (auto simp: bind_eq_Some_conv)
  have "typed fl y" using map_of_SomeD [OF y(1)] 3(2) by auto
  with 3(1) y show ?case by blast
qed auto

lemma typed_put:
  assumes "sortedMap m" "\<forall>(k, v) \<in> set m. validUtf8 k \<and> typed fl v" "validUtf8 k" "typed fl v"
  shows "typed fl (JObject (mapPut k v m))"
  using assms set_mapPut [of k v m] by (auto simp: sortedMap_mapPut)

lemma typed_assignAt: "typed fl j \<Longrightarrow> typed fl v \<Longrightarrow> typed fl (assignAt p v j)"
proof (induction p v j rule: assignAt.induct)
  case (2 i p v xs)
  then show ?case by (auto dest!: set_update_subset_insert [THEN subsetD])
next
  case (3 k p v m)
  show ?case
  proof (cases "map_of m k")
    case (Some x)
    have kx: "(k, x) \<in> set m" by (rule map_of_SomeD [OF Some])
    with 3 Some have "typed fl (assignAt p v x)" "validUtf8 k" by auto
    with 3 Some show ?thesis using typed_put [of m fl k "assignAt p v x"] by simp
  qed (use 3 in simp)
qed auto

text \<open>With exceptions allowed, no error is only noted.\<close>

definition rootTyped :: "'f floats \<Rightarrow> bool \<Rightarrow> 'f domParser \<Rightarrow> bool" where
  "rootTyped fl ex d \<longleftrightarrow> typed fl (dom_root d) \<and> (ex \<longrightarrow> \<not> errored d)"

lemma assignPtr_typed: "typed fl v \<Longrightarrow> gives (rootTyped fl ex) (assignPtr p v) (\<lambda>_. rootTyped fl ex)"
  by (auto simp: gives_def assignPtr_def run_simps rootTyped_def typed_assignAt)

lemma handleValue_typed:
  assumes "typed fl v"
  shows "gives (rootTyped fl ex) (handleValue v) (\<lambda>_. rootTyped fl ex)"
proof (rule givesI)
  fix d p e assume d: "rootTyped fl ex d" "handleValue v d = (Inr p, e)"
  have put: "rootTyped fl ex e" if "assignPtr q w d = (Inr (), e)" "typed fl w" for q w
    using givesD [OF assignPtr_typed [OF that(2)] d(1) that(1)] .
  show "rootTyped fl ex e"
  proof (cases "ref_stack d")
    case Nil
    with d(2) show ?thesis by (intro put [OF _ assms, of "[]"]) (auto simp: handleValue_def run_simps assignPtr_def)
  next
    case (Cons top ps)
    show ?thesis
    proof (cases "valueAt top (dom_root d)")
      case (Some x)
      have x: "typed fl x" using typed_valueAt [OF _ Some] d(1) by (simp add: rootTyped_def)
      show ?thesis
      proof (cases x)
        case (JArray xs)
        have "assignPtr top (JArray (xs @ [v])) d = (Inr (), e)"
          using d(2) Cons Some JArray by (auto simp: handleValue_def run_simps assignPtr_def)
        then show ?thesis by (rule put) (use x JArray assms in auto)
      next
        case (JObject m)
        with d(2) Cons Some obtain q where "assignPtr q v d = (Inr (), e)"
          by (cases "object_element d") (auto simp: handleValue_def run_simps assignPtr_def)
        then show ?thesis by (rule put [OF _ assms])
      qed (use d(2) Cons Some in \<open>auto simp: handleValue_def run_simps\<close>)
    qed (use d(2) Cons in \<open>auto simp: handleValue_def run_simps\<close>)
  qed
qed

lemma saxKey_typed:
  assumes "validUtf8 k"
  shows "gives (rootTyped fl ex) (saxKey k) (\<lambda>_. rootTyped fl ex)"
proof (rule givesI)
  fix d b e assume d: "rootTyped fl ex d" "saxKey k d = (Inr b, e)"
  obtain top ps where r: "ref_stack d = top # ps" using d(2) by (cases "ref_stack d") (auto simp: saxKey_def run_simps)
  obtain m where m: "valueAt top (dom_root d) = Some (JObject m)"
    using d(2) r by (auto simp: saxKey_def run_simps split: option.splits json.splits)
  have "typed fl (JObject m)" by (rule typed_valueAt [OF _ m]) (use d(1) in \<open>simp add: rootTyped_def\<close>)
  then have "typed fl (JObject (mapPut k JNull m))" by (intro typed_put) (use assms in auto)
  then have "typed fl (assignAt top (JObject (mapPut k JNull m)) (dom_root d))"
    using d(1) by (simp add: rootTyped_def typed_assignAt)
  then show "rootTyped fl ex e"
    using d r m by (auto simp: saxKey_def run_simps assignPtr_def rootTyped_def split: if_splits)
qed

section \<open>The parser\<close>

definition parserOk :: "'f parseConf \<Rightarrow> 'f parser \<Rightarrow> bool" where
  "parserOk cf s \<longleftrightarrow> rootTyped (numbers (lexing cf)) (allow_exceptions cf) (sax s) \<and> tokenOk (last_token s) (m_lexer s)"

lemma getToken_ok: "gives (parserOk cf) (getToken n cf) (\<lambda>t s. parserOk cf s \<and> last_token s = t)"
proof (rule givesI)
  fix s t u assume s: "parserOk cf s" "getToken n cf s = (Inr t, u)"
  then obtain l where l: "scanToken n (lexing cf) (m_lexer s) = (Inr t, l)" "u = s\<lparr>m_lexer := l, last_token := t\<rparr>"
    by (auto simp: getToken_def onLexer_def zoom_def andThen_def modify_def ok_def split: prod.splits sum.splits)
  have "tokenOk t l" by (rule givesD [OF scanToken_tokenOk TrueI l(1)])
  with s(1) l(2) show "parserOk cf u \<and> last_token u = t" by (simp add: parserOk_def)
qed

lemma onSax_ok:
  assumes "gives (rootTyped (numbers (lexing cf)) (allow_exceptions cf)) m (\<lambda>_. rootTyped (numbers (lexing cf)) (allow_exceptions cf))"
  shows "gives (parserOk cf) (onSax m) (\<lambda>_. parserOk cf)"
  using assms by (auto simp: gives_def onSax_def zoom_def parserOk_def split: prod.splits)

lemma saxEnd_typed: "gives (rootTyped fl ex) saxEnd (\<lambda>_. rootTyped fl ex)"
  by (auto simp: gives_def saxEnd_def run_simps rootTyped_def split: list.splits)

lemma saxValue_typed: "typed fl v \<Longrightarrow> gives (rootTyped fl ex) (saxValue v) (\<lambda>_. rootTyped fl ex)"
  unfolding saxValue_def by (rule gives_bind [OF handleValue_typed]) (auto intro: gives_ok)

lemma saxStart_typed: "typed fl v \<Longrightarrow> gives (rootTyped fl ex) (saxStart v) (\<lambda>_. rootTyped fl ex)"
  unfolding saxStart_def by (rule gives_bind [OF handleValue_typed]) (auto simp: gives_def run_simps rootTyped_def)

lemma gives_orReturn:
  "gives P p (\<lambda>_. parserOk cf) \<Longrightarrow> gives (parserOk cf) q (\<lambda>_. parserOk cf) \<Longrightarrow> gives P (orReturn p q) (\<lambda>_. parserOk cf)"
  unfolding orReturn_def by (rule gives_bind, assumption) (auto intro!: gives_if gives_ok)

lemma gives_returning: "gives P p (\<lambda>_. parserOk cf) \<Longrightarrow> gives P (returning p) (\<lambda>_. parserOk cf)"
  unfolding returning_def by (rule gives_bind, assumption) (auto intro!: gives_ok)

lemma saxError_ok: "gives (parserOk cf) (saxError cf ex) (\<lambda>_. parserOk cf)"
  by (auto simp: gives_def saxError_def onSax_def zoom_def run_simps andThen_def modify_def parserOk_def rootTyped_def)

lemma syntaxError_ok: "gives (parserOk cf) (syntaxError cf expected ctx) (\<lambda>_. parserOk cf)"
  unfolding syntaxError_def by (rule gives_bind [OF gives_getState]) (auto intro: gives_mono [OF saxError_ok])

lemma read_token: "(\<And>t. gives (\<lambda>s. parserOk cf s \<and> last_token s = t) (f t) Q) \<Longrightarrow> gives (parserOk cf) (andThen (getToken n cf) f) Q"
  by (rule gives_bind [OF getToken_ok])

lemma next_token: "(\<And>t. gives (parserOk cf) (f t) Q) \<Longrightarrow> gives (parserOk cf) (andThen (getToken n cf) f) Q"
  by (rule read_token) (auto intro: gives_mono)

lemma parseKey_ok:
  assumes "gives (parserOk cf) rest (\<lambda>_. parserOk cf)"
  shows "gives (\<lambda>s. parserOk cf s \<and> last_token s = t) (parseKey n cf t rest) (\<lambda>_. parserOk cf)"
  unfolding parseKey_def
proof (rule gives_if)
  show "gives (\<lambda>s. parserOk cf s \<and> last_token s = t) (returning (syntaxError cf TValueString ''object key'')) (\<lambda>_. parserOk cf)"
    by (rule gives_returning) (auto intro: gives_mono [OF syntaxError_ok])
  assume t: "\<not> t \<noteq> TValueString"
  show "gives (\<lambda>s. parserOk cf s \<and> last_token s = t) (andThen getState (\<lambda>s. orReturn (onSax (saxKey (token_buffer (m_lexer s))))
      (andThen (getToken n cf) (\<lambda>t. if t \<noteq> TNameSeparator then returning (syntaxError cf TNameSeparator ''object separator'') else rest))))
      (\<lambda>_. parserOk cf)"
  proof (rule gives_bind [OF gives_getState], rule gives_orReturn)
    fix x
    show "gives (\<lambda>s. x = s \<and> parserOk cf s \<and> last_token s = t) (onSax (saxKey (token_buffer (m_lexer x)))) (\<lambda>_. parserOk cf)"
    proof (rule gives_assume [of _ "validUtf8 (token_buffer (m_lexer x))"])
      show "validUtf8 (token_buffer (m_lexer x))" if "x = s \<and> parserOk cf s \<and> last_token s = t" for s
        using that t by (simp add: parserOk_def tokenOk_def bufOk_def)
    qed (auto intro: gives_mono [OF onSax_ok [OF saxKey_typed]])
    show "gives (parserOk cf) (andThen (getToken n cf) (\<lambda>t. if t \<noteq> TNameSeparator
        then returning (syntaxError cf TNameSeparator ''object separator'') else rest)) (\<lambda>_. parserOk cf)"
      by (intro next_token gives_if gives_returning syntaxError_ok assms)
  qed
qed

lemma scalarStep_ok:
  "gives (\<lambda>s. parserOk cf s \<and> typed (numbers (lexing cf)) (f (m_lexer s))) (scalarStep f) (\<lambda>_. parserOk cf)"
  unfolding scalarStep_def
proof (rule gives_bind [OF gives_getState], rule gives_orReturn)
  fix x
  show "gives (\<lambda>s. x = s \<and> parserOk cf s \<and> typed (numbers (lexing cf)) (f (m_lexer s))) (onSax (saxValue (f (m_lexer x)))) (\<lambda>_. parserOk cf)"
    by (rule gives_assume [of _ "typed (numbers (lexing cf)) (f (m_lexer x))"]) (auto intro: gives_mono [OF onSax_ok [OF saxValue_typed]])
qed (auto intro: gives_ok)

lemma floatStep_ok: "gives (parserOk cf) (floatStep cf) (\<lambda>_. parserOk cf)"
  unfolding floatStep_def
  by (rule gives_bind [OF gives_getState], rule gives_if)
    (auto intro!: gives_returning gives_mono [OF saxError_ok] gives_mono [OF scalarStep_ok])

lemma parserOk_token:
  "parserOk cf s \<Longrightarrow> last_token s = TValueString \<Longrightarrow> validUtf8 (token_buffer (m_lexer s))"
  "parserOk cf s \<Longrightarrow> last_token s = TValueInteger \<Longrightarrow> - (2 ^ 63) \<le> value_integer (m_lexer s) \<and> value_integer (m_lexer s) \<le> 0"
  "parserOk cf s \<Longrightarrow> last_token s = TValueUnsigned \<Longrightarrow> 0 \<le> value_unsigned (m_lexer s) \<and> value_unsigned (m_lexer s) < 2 ^ 64"
  by (simp_all add: parserOk_def tokenOk_def bufOk_def)

lemma valueStep_ok: "gives (parserOk cf) (valueStep n cf states) (\<lambda>_. parserOk cf)"
  unfolding valueStep_def
proof (rule gives_bind [OF gives_getState])
  fix x
  have key: "gives (parserOk cf) (andThen (getToken n cf) (\<lambda>t. if t = TEndObject then orReturn (onSax saxEnd) (ok ValueDone)
      else parseKey n cf t (andThen (getToken n cf) (\<lambda>_. ok (Continue (False # states) False))))) (\<lambda>_. parserOk cf)"
    by (intro read_token gives_if parseKey_ok next_token gives_ok) (auto intro!: gives_mono [OF gives_orReturn [OF onSax_ok [OF saxEnd_typed] gives_ok]])
  have item: "gives (parserOk cf) (andThen (getToken n cf) (\<lambda>t. if t = TEndArray then orReturn (onSax saxEnd) (ok ValueDone)
      else ok (Continue (True # states) False))) (\<lambda>_. parserOk cf)"
    by (intro next_token gives_if gives_orReturn onSax_ok saxEnd_typed gives_ok)
  have start: "gives (\<lambda>s. x = s \<and> parserOk cf s) (orReturn (onSax (saxStart v)) q) (\<lambda>_. parserOk cf)"
    if "typed (numbers (lexing cf)) v" "gives (parserOk cf) q (\<lambda>_. parserOk cf)" for v q
    by (rule gives_mono [OF gives_orReturn [OF onSax_ok [OF saxStart_typed [OF that(1)]] that(2)]]) auto
  have scalar: "gives (\<lambda>s. x = s \<and> parserOk cf s) (scalarStep f) (\<lambda>_. parserOk cf)"
    if "parserOk cf x \<Longrightarrow> typed (numbers (lexing cf)) (f (m_lexer x))" for f
    by (rule gives_mono [OF scalarStep_ok]) (use that in auto)
  have stop: "gives (\<lambda>s. x = s \<and> parserOk cf s) (returning (syntaxError cf e c)) (\<lambda>_. parserOk cf)" for e c
    by (rule gives_returning) (auto intro: gives_mono [OF syntaxError_ok])
  have float: "gives (\<lambda>s. x = s \<and> parserOk cf s) (floatStep cf) (\<lambda>_. parserOk cf)"
    by (rule gives_mono [OF floatStep_ok]) auto
  show "gives (\<lambda>s. x = s \<and> parserOk cf s) (case last_token x of
       TBeginObject \<Rightarrow> orReturn (onSax (saxStart (JObject [])))
         (andThen (getToken n cf) (\<lambda>t.
            if t = TEndObject then orReturn (onSax saxEnd) (ok ValueDone)
            else parseKey n cf t (andThen (getToken n cf) (\<lambda>_. ok (Continue (False # states) False)))))
     | TBeginArray \<Rightarrow> orReturn (onSax (saxStart (JArray [])))
         (andThen (getToken n cf) (\<lambda>t.
            if t = TEndArray then orReturn (onSax saxEnd) (ok ValueDone)
            else ok (Continue (True # states) False)))
     | TValueFloat \<Rightarrow> floatStep cf
     | TLiteralFalse \<Rightarrow> scalarStep (\<lambda>_. JBool False)
     | TLiteralNull \<Rightarrow> scalarStep (\<lambda>_. JNull)
     | TLiteralTrue \<Rightarrow> scalarStep (\<lambda>_. JBool True)
     | TValueInteger \<Rightarrow> scalarStep (\<lambda>l. JInteger (value_integer l))
     | TValueString \<Rightarrow> scalarStep (\<lambda>l. JString (token_buffer l))
     | TValueUnsigned \<Rightarrow> scalarStep (\<lambda>l. JUnsigned (value_unsigned l))
     | TParseError \<Rightarrow> returning (syntaxError cf TUninitialized ''value'')
     | _ \<Rightarrow> returning (syntaxError cf TLiteralOrValue ''value'')) (\<lambda>_. parserOk cf)"
    by (cases "last_token x")
      (auto intro!: start key item scalar stop float dest: parserOk_token)
qed

lemma stateStep_ok: "gives (parserOk cf) (stateStep n cf states) (\<lambda>_. parserOk cf)"
proof (cases states)
  case Nil
  then show ?thesis by (auto simp: stateStep_def intro: gives_ok)
next
  case (Cons b outer)
  have item: "gives (parserOk cf) (andThen (getToken n cf) (\<lambda>t. if t = TValueSeparator then andThen (getToken n cf) (\<lambda>_. ok (Continue st False))
      else if t = TEndArray then orReturn (onSax saxEnd) (ok (Continue outer True))
      else returning (syntaxError cf TEndArray ''array''))) (\<lambda>_. parserOk cf)" for st
    by (intro next_token gives_if gives_orReturn onSax_ok saxEnd_typed gives_ok gives_returning syntaxError_ok)
  have entry: "gives (parserOk cf) (andThen (getToken n cf) (\<lambda>t. if t = TValueSeparator
      then andThen (getToken n cf) (\<lambda>t. parseKey n cf t (andThen (getToken n cf) (\<lambda>_. ok (Continue st False))))
      else if t = TEndObject then orReturn (onSax saxEnd) (ok (Continue outer True))
      else returning (syntaxError cf TEndObject ''object''))) (\<lambda>_. parserOk cf)" for st
    by (rule next_token, rule gives_if, rule read_token, rule parseKey_ok)
      (intro next_token gives_if gives_orReturn onSax_ok saxEnd_typed gives_ok gives_returning syntaxError_ok; assumption)+
  show ?thesis using item entry by (cases b) (simp_all add: stateStep_def Cons)
qed

lemma loopStep_ok: "gives (parserOk cf) (loopStep n cf states skip) (\<lambda>_. parserOk cf)"
  unfolding loopStep_def
proof (rule gives_bind)
  show "gives (parserOk cf) (if skip then ok ValueDone else valueStep n cf states) (\<lambda>_. parserOk cf)"
    by (intro gives_if gives_ok valueStep_ok)
  show "gives (parserOk cf) (case r of ValueDone \<Rightarrow> stateStep n cf states | _ \<Rightarrow> ok r) (\<lambda>_. parserOk cf)" for r
    by (cases r) (auto intro!: gives_ok stateStep_ok)
qed

lemma saxParseInternal_ok: "gives (parserOk cf) (saxParseInternal k n cf states skip) (\<lambda>_. parserOk cf)"
proof (induction k arbitrary: states skip)
  case 0
  show ?case by (simp add: gives_raise)
next
  case (Suc k)
  show ?case unfolding saxParseInternal.simps
  proof (rule gives_bind [OF loopStep_ok])
    show "gives (parserOk cf) (case r of Return b \<Rightarrow> ok b | Continue states' skip' \<Rightarrow> saxParseInternal k n cf states' skip'
        | ValueDone \<Rightarrow> raise UB) (\<lambda>_. parserOk cf)" for r
      by (cases r) (auto intro!: gives_ok gives_raise Suc)
  qed
qed

lemma jsonParse_typed:
  assumes "jsonParse cf src = Inr j"
  shows "typed (numbers (lexing cf)) j \<or> j = JDiscarded \<and> \<not> allow_exceptions cf"
proof -
  let ?n = "length src + 3" and ?fl = "numbers (lexing cf)"
  have new: "parserOk cf (newParser (lexing cf) src)"
    by (simp add: parserOk_def newParser_def newDom_def rootTyped_def tokenOk_def)
  have finish: "gives (parserOk cf) (parserParse ?n cf True)
      (\<lambda>j _. typed ?fl j \<or> j = JDiscarded \<and> \<not> allow_exceptions cf)"
    unfolding parserParse_def
  proof (rule gives_bind [OF saxParseInternal_ok], rule gives_bind)
    show "gives (parserOk cf) (if True then andThen (getToken ?n cf)
        (\<lambda>t. if t \<noteq> TEndOfInput then syntaxError cf TEndOfInput ''value'' else ok True) else ok True) (\<lambda>_. parserOk cf)"
      by (intro gives_if next_token syntaxError_ok gives_ok)
  qed (auto simp: gives_def run_simps parserOk_def rootTyped_def)
  have "gives (parserOk cf) (andThen (getToken ?n cf) (\<lambda>_. parserParse ?n cf True))
      (\<lambda>j _. typed ?fl j \<or> j = JDiscarded \<and> \<not> allow_exceptions cf)"
    by (intro next_token finish)
  from givesD [OF this new] assms show ?thesis
    by (cases "andThen (getToken ?n cf) (\<lambda>_. parserParse ?n cf True) (newParser (lexing cf) src)") (simp add: jsonParse_def)
qed

section \<open>Printing what was parsed\<close>

text \<open>A negative zero is the one signed integer that is read back as an unsigned one.\<close>

fun zeroBack :: "'f json \<Rightarrow> 'f json" where
  "zeroBack (JObject m) = JObject (map (\<lambda>(k, v). (k, zeroBack v)) m)"
| "zeroBack (JArray xs) = JArray (map zeroBack xs)"
| "zeroBack (JInteger i) = (if i = 0 then JUnsigned 0 else JInteger i)"
| "zeroBack j = j"

lemma readBack_zero: "typed fl j \<Longrightarrow> readBack j = zeroBack j"
  by (induction j rule: zeroBack.induct) auto

lemma map_keys: "fst \<circ> (\<lambda>(k, v). (k, f v)) = fst"
  by auto

lemma zeroBack_printable: "printable cf j \<Longrightarrow> printable cf (zeroBack j)"
  by (induction j rule: zeroBack.induct) (auto simp: sortedMap_def map_keys)

lemma jsonText_zero: "jsonText fl (zeroBack j) = jsonText fl j"
proof (induction j rule: zeroBack.induct)
  case (1 m)
  then show ?case by (auto intro!: arg_cong [of _ _ joinText] simp: case_prod_beta)
next
  case (2 xs)
  then show ?case by (auto intro!: arg_cong [of _ _ joinText])
qed auto

lemma printed_again:
  assumes "jsonParse cf src = Inr j" "allow_exceptions cf" "\<forall>x \<in> set_json j. exactFloat (lexing cf) x"
  shows "\<exists>x. dumpJsonText (floatsOf cf) (-1) ic False Strict j = Inr x \<and> jsonParse cf x = Inr (zeroBack j) \<and>
    dumpJsonText (floatsOf cf) (-1) ic False Strict (zeroBack j) = Inr x"
proof -
  have j: "typed (floatsOf cf) j" using jsonParse_typed [OF assms(1)] assms(2) by auto
  then have p: "printable (lexing cf) j" "readBack j = zeroBack j" "jsonText (floatsOf cf) (zeroBack j) = jsonText (floatsOf cf) j"
    using assms(3) by (simp_all add: typed_printable readBack_zero jsonText_zero)
  then have "printable (lexing cf) (zeroBack j)" by (simp add: zeroBack_printable)
  with p show ?thesis
    using dumpJsonText_compact [of "lexing cf" j ic] dumpJsonText_compact [of "lexing cf" "zeroBack j" ic] jsonParse_text [of cf j "[]"]
    by (simp add: endsInput_def)
qed

section \<open>Properties\<close>

text \<open>
  C15: What the parser returns is well typed, whatever the bytes it was given: every text and every key is
  well-formed UTF-8, with surrogate pairs put together; the members of an object are sorted and have distinct keys;
  integers are in the range of their kind, signed ones not positive, and floating-point numbers are finite. Only without exceptions may the
  result be the value that stands for a failed parse.
\<close>

theorem parsed_values_typed:
  assumes "jsonParse cf src = Inr j"
  shows "typed (numbers (lexing cf)) j \<or> j = JDiscarded \<and> \<not> allow_exceptions cf"
  by (rule jsonParse_typed [OF assms])

lemma sampleJson_parsed: "jsonParse bareConf (jsonText bareFloats sampleJson @ [CHR 0x00]) = Inr (readBack sampleJson)"
proof -
  have "printable (lexing bareConf) sampleJson" by code_simp
  from jsonParse_text [OF this, of "[CHR 0x00]"] show ?thesis by (simp add: endsInput_def bareConf_def)
qed

theorem parsed_values_typed_witness:
  "jsonParse bareConf (jsonText bareFloats sampleJson @ [CHR 0x00]) = Inr (readBack sampleJson) \<and>
    (typed bareFloats (readBack sampleJson) \<or> readBack sampleJson = JDiscarded \<and> \<not> True)"
  using parsed_values_typed [OF sampleJson_parsed] sampleJson_parsed by (simp add: bareConf_def)

end
