(* ===== verification/JsonDoubles.thy ===== *)
theory JsonDoubles
  imports GrisuValue JsonTyped
begin

text \<open>
  JSON with floating-point numbers of the type \<open>double\<close>: the texts that \<open>Grisu\<close> prints are numbers to the lexer, so a
  \<open>strtod\<close> that rounds correctly makes every value of its text again.
\<close>

section \<open>Printed numbers are tokens\<close>

lemma numberRun_digits:
  "list_all isDigit ds \<Longrightarrow> st \<in> {NAny1, NDecimal2, NAny2} \<Longrightarrow> numberRun st ty (ds @ r) = numberRun st ty r"
  by (induction ds) (auto simp: numberStep_def digitOr_def numberType_def)

lemma numberRun_point:
  assumes "st \<in> {NZero, NAny1}" "list_all isDigit fp" "fp \<noteq> []"
  shows "numberRun st ty (CHR ''.'' # fp @ r) = numberRun NDecimal2 TValueFloat r"
proof -
  obtain d ds where fp: "fp = d # ds" using assms(3) by (cases fp) auto
  show ?thesis
    using assms numberRun_digits [of ds NDecimal2 TValueFloat r]
    by (auto simp: fp numberStep_def digitOr_def pointOr_def numberType_def isDigit_def)
qed

lemma numberRun_exponent:
  assumes "st \<in> {NZero, NAny1, NDecimal2}" "list_all isDigit ds" "ds \<noteq> []" "s = CHR ''-'' \<or> s = CHR ''+''"
  shows "numberRun st ty (CHR ''e'' # s # ds) = Some (NAny2, TValueFloat)"
proof -
  obtain d es where ds: "ds = d # es" using assms(3) by (cases ds) auto
  have "numberRun NAny2 TValueFloat es = Some (NAny2, TValueFloat)"
    using assms(2) numberRun_digits [of es NAny2 TValueFloat "[]"] by (simp add: ds)
  with assms(1,2,4) show ?thesis
    by (auto simp: ds numberStep_def digitOr_def pointOr_def exponentOr_def numberType_def not_digit)
qed

lemma exponentText_shape:
  assumes "\<bar>e\<bar> < 1000"
  obtains s ds where "exponentText e = s # ds" "list_all isDigit ds" "ds \<noteq> []" "s = CHR ''-'' \<or> s = CHR ''+''"
proof -
  define k where "k = nat \<bar>e\<bar>"
  have "k < 1000" using assms by (simp add: k_def)
  then have "k div 100 < 10" "k < 100 \<Longrightarrow> k div 10 < 10" "k mod 100 div 10 < 10" by (simp_all add: less_mult_imp_div_less)
  then show thesis
    using that by (auto simp: exponentText_def Let_def k_def [symmetric] split: if_splits)
qed

definition wholePart :: "string \<Rightarrow> bool" where
  "wholePart ip \<longleftrightarrow> list_all isDigit ip \<and> ip \<noteq> [] \<and> (hd ip = CHR ''0'' \<longrightarrow> tl ip = [])"

lemma token_parts:
  assumes "wholePart ip" "\<And>st ty. st \<in> {NZero, NAny1} \<Longrightarrow> numberRun st ty r \<in> {Some (NDecimal2, TValueFloat), Some (NAny2, TValueFloat)}"
  shows "floatToken (signText x @ ip @ r)"
proof -
  obtain c ds where ip: "ip = c # ds" "isDigit c" "list_all isDigit ds" "c = CHR ''0'' \<Longrightarrow> ds = []"
    using assms(1) by (cases ip) (auto simp: wholePart_def)
  have run: "numberRun (if c = CHR ''0'' then NZero else NAny1) ty (ds @ r) \<in> {Some (NDecimal2, TValueFloat), Some (NAny2, TValueFloat)}" for ty
    using numberRun_digits [OF ip(3), of NAny1 ty r] ip(4) assms(2) by (cases "c = CHR ''0''") auto
  have "c \<noteq> CHR ''-''" using ip(2) not_digit by auto
  then show ?thesis
    using run [of TValueUnsigned] run [of TValueInteger] ip(2)
    by (cases "signbit x"; cases "c = CHR ''0''")
      (simp_all add: floatToken_def signText_def ip(1) numberStart_def numberStep_def digitOr_def numberType_def)
qed

lemma token_point: "wholePart ip \<Longrightarrow> list_all isDigit fp \<Longrightarrow> fp \<noteq> [] \<Longrightarrow> floatToken (signText x @ ip @ CHR ''.'' # fp)"
  using numberRun_point [of _ fp _ "[]"] by (intro token_parts) auto

lemma token_exponent: "wholePart ip \<Longrightarrow> \<bar>e\<bar> < 1000 \<Longrightarrow> floatToken (signText x @ ip @ CHR ''e'' # exponentText e)"
  by (erule token_parts, erule exponentText_shape) (auto simp: numberRun_exponent simp del: numberRun.simps)

lemma token_point_exponent:
  assumes "wholePart ip" "list_all isDigit fp" "fp \<noteq> []" "\<bar>e\<bar> < 1000"
  shows "floatToken (signText x @ ip @ CHR ''.'' # fp @ CHR ''e'' # exponentText e)"
proof (rule token_parts [OF assms(1)])
  fix st ty assume "st \<in> {NZero, NAny1}"
  obtain s ds where e: "exponentText e = s # ds" "list_all isDigit ds" "ds \<noteq> []" "s = CHR ''-'' \<or> s = CHR ''+''"
    by (rule exponentText_shape [OF assms(4)])
  show "numberRun st ty (CHR ''.'' # fp @ CHR ''e'' # exponentText e) \<in> {Some (NDecimal2, TValueFloat), Some (NAny2, TValueFloat)}"
    unfolding numberRun_point [OF \<open>st \<in> {NZero, NAny1}\<close> assms(2,3)] e(1) using numberRun_exponent [OF _ e(2-4), of NDecimal2] by simp
qed

lemma layout_token:
  assumes "goodDigits ds" "ds \<noteq> []" "length ds \<le> 17" "\<bar>n\<bar> < 500"
  shows "floatToken (signText x @ layoutText ds n)"
proof -
  have d: "list_all isDigit ds" "hd ds \<noteq> CHR ''0''" using assms(1,2) by (simp_all add: goodDigits_def)
  have e: "\<bar>n - 1\<bar> < 1000" using assms(4) by simp
  consider "int (length ds) \<le> n" "n \<le> 15" | "0 < n" "n < int (length ds)" "n \<le> 15" | "- 4 < n" "n \<le> 0"
    | "n \<le> - 4 \<or> 15 < n" "length ds = 1" | "n \<le> - 4 \<or> 15 < n" "length ds \<noteq> 1" by linarith
  then show ?thesis
  proof cases
    case 1
    then have "layoutText ds n = (ds @ replicate (nat n - length ds) CHR ''0'') @ CHR ''.'' # ''0''" by (simp add: layoutText_def)
    moreover have "wholePart (ds @ replicate (nat n - length ds) CHR ''0'')" using d assms(2) zeros by (simp add: wholePart_def)
    from token_point [OF this, of "''0''" x] have "floatToken (signText x @ (ds @ replicate (nat n - length ds) CHR ''0'') @ CHR ''.'' # ''0'')"
      by (simp add: isDigit_zero)
    ultimately show ?thesis by (simp only:)
  next
    case 2
    then have "layoutText ds n = take (nat n) ds @ CHR ''.'' # drop (nat n) ds" by (simp add: layoutText_def)
    moreover have "wholePart (take (nat n) ds)" using d assms(2) 2 by (auto simp: wholePart_def list_all_iff hd_take dest: in_set_takeD)
    moreover have "list_all isDigit (drop (nat n) ds)" "drop (nat n) ds \<noteq> []" using d 2 by (auto simp: list_all_iff dest: in_set_dropD)
    ultimately show ?thesis using token_point by (simp only:)
  next
    case 3
    then have "layoutText ds n = ''0'' @ CHR ''.'' # replicate (nat (- n)) CHR ''0'' @ ds" using assms(2) by (cases ds) (simp_all add: layoutText_def)
    moreover have "wholePart ''0''" by (simp add: wholePart_def isDigit_zero)
    moreover have "list_all isDigit (replicate (nat (- n)) CHR ''0'' @ ds)" "replicate (nat (- n)) CHR ''0'' @ ds \<noteq> []"
      using d assms(2) zeros by simp_all
    ultimately show ?thesis using token_point by (simp only:)
  next
    case 4
    then have "layoutText ds n = ds @ CHR ''e'' # exponentText (n - 1)" by (auto simp: layoutText_def)
    moreover have "wholePart ds" using d assms(2) by (simp add: wholePart_def)
    ultimately show ?thesis using token_exponent e by (simp only:)
  next
    case 5
    obtain c es where ds: "ds = c # es" "es \<noteq> []" using assms(2) 5 by (cases ds) auto
    have "layoutText ds n = [c] @ CHR ''.'' # es @ CHR ''e'' # exponentText (n - 1)" using 5 by (auto simp: layoutText_def ds)
    moreover have "wholePart [c]" "list_all isDigit es" using d by (simp_all add: ds wholePart_def)
    ultimately show ?thesis using token_point_exponent [OF _ _ ds(2) e] by (simp only:)
  qed
qed

lemma printed_token:
  assumes "isfinite x" "dumpFloatDouble x = Inr t"
  shows "floatToken t"
  using assms(1)
proof (cases x rule: dumpFloatDouble_text)
  case zero
  have "floatToken (signText x @ ''0'' @ CHR ''.'' # ''0'')"
    by (rule token_point) (simp_all add: wholePart_def isDigit_zero)
  with zero(2) assms(2) show ?thesis by simp
next
  case (digits ds dexp)
  have "\<bar>int (length ds) + dexp\<bar> < 500" using digits(5-7) by simp
  from layout_token [OF digits(3-5) this] digits(2) assms(2) show ?thesis by simp
qed

section \<open>Reading a number\<close>

text \<open>
  What \<open>strtod\<close> is documented to do in the default rounding mode: the number it returns is the nearest one when there is a
  nearest one, with the sign that the text begins with, also for zero. Ties are left open.
\<close>

definition strtodRounds :: "(string \<Rightarrow> w64) \<Rightarrow> bool" where
  "strtodRounds rd \<longleftrightarrow> (\<forall>t x. floatToken t \<longrightarrow> isfinite x \<longrightarrow>
     nearestTo (floatValue t) x \<longrightarrow> (hd t = CHR ''-'' \<longleftrightarrow> signbit x) \<longrightarrow> rd t = x)"

text \<open>\<open>static_cast<int>\<close> cuts the fraction off and is undefined when the rest does not fit.\<close>

definition doubleToInt :: "w64 \<Rightarrow> int option" where
  "doubleToInt x =
     (let v = doubleValue x; i = (if v < 0 then - \<lfloor>- v\<rfloor> else \<lfloor>v\<rfloor>) in if isfinite x \<and> isInt i then Some i else None)"

definition doubleFloats :: "(string \<Rightarrow> w64) \<Rightarrow> w64 floats" where
  "doubleFloats rd = \<lparr>strtod = rd, isFinite = isfinite, floatText = dumpFloatDouble, floatToInt = doubleToInt\<rparr>"

lemma double_exact:
  assumes "strtodRounds rd" "numbers cf = doubleFloats rd" "decimal_point_char cf = CHR ''.''" "isfinite x"
  shows "exactFloat cf x"
proof -
  obtain t where t: "dumpFloatDouble x = Inr (signText x @ t)" "t \<noteq> []" "isDigit (hd t)" "nearestTo (floatValue (signText x @ t)) x"
    using printed_text [OF assms(4)] .
  have "floatToken (signText x @ t)" by (rule printed_token [OF assms(4) t(1)])
  moreover have "hd (signText x @ t) = CHR ''-'' \<longleftrightarrow> signbit x" using t(2,3) not_digit by (cases t) (auto simp: signText_def)
  ultimately have "rd (signText x @ t) = x" using assms(1,4) t(4) by (simp add: strtodRounds_def)
  then show ?thesis using assms(2-4) t(1) \<open>floatToken (signText x @ t)\<close> by (simp add: exactFloat_def doubleFloats_def)
qed


section \<open>A reader that rounds correctly\<close>

text \<open>Bisection over the magnitudes; it shows that there is a reader as \<open>strtodRounds\<close> asks for.\<close>

primrec leastFrom :: "(nat \<Rightarrow> bool) \<Rightarrow> nat \<Rightarrow> nat \<Rightarrow> nat" where
  "leastFrom P 0 lo = lo"
| "leastFrom P (Suc k) lo = (if P (lo + 2 ^ k - 1) then leastFrom P k lo else leastFrom P k (lo + 2 ^ k))"

lemma leastFrom_found:
  "(\<And>m. P m \<longleftrightarrow> n \<le> m) \<Longrightarrow> lo \<le> n \<Longrightarrow> n < lo + 2 ^ k \<Longrightarrow> leastFrom P k lo = n"
proof (induction k arbitrary: lo)
  case (Suc k)
  show ?case
  proof (cases "P (lo + 2 ^ k - 1)")
    case True
    then have "n \<le> lo + 2 ^ k - 1" using Suc.prems(1) by blast
    moreover have "0 < (2 :: nat) ^ k" by simp
    ultimately have "n < lo + 2 ^ k" by linarith
    with Suc.IH [OF Suc.prems(1,2)] True show ?thesis by simp
  next
    case False
    then have "\<not> n \<le> lo + 2 ^ k - 1" using Suc.prems(1) by blast
    then have "lo + 2 ^ k \<le> n" by linarith
    moreover have "n < lo + 2 ^ k + 2 ^ k" using Suc.prems(3) by simp
    ultimately show ?thesis using Suc.IH [OF Suc.prems(1)] False by simp
  qed
qed simp

definition withSign :: "bool \<Rightarrow> nat \<Rightarrow> w64" where
  "withSign s n = of_nat (n + (if s then 2 ^ 63 else 0))"

definition readDouble :: "string \<Rightarrow> w64" where
  "readDouble t = withSign (hd t = CHR ''-'') (leastFrom (\<lambda>n. \<bar>floatValue t\<bar> \<le> upperMid n) 63 0)"

lemma unat_bound: "unat (x :: w64) < 2 ^ 64"
  using unsigned_less [of x] by simp

lemma withSign_parts:
  assumes "n < 2 ^ 63"
  shows "bitsOf (withSign s n) = n" "signbit (withSign s n) = s"
proof -
  have "unat (withSign s n) = n + (if s then 2 ^ 63 else 0)"
    unfolding withSign_def unat_of_nat using assms by (simp add: take_bit_nat_eq_self)
  with assms show "bitsOf (withSign s n) = n" "signbit (withSign s n) = s" by (simp_all add: bitsOf_def signbit_bits)
qed

lemma withSign_bits: "withSign (signbit x) (bitsOf x) = x"
proof -
  have "unat x = bitsOf x + (if signbit x then 2 ^ 63 else 0)"
    using unat_bound [of x] by (auto simp: bitsOf_def signbit_bits le_mod_geq)
  then have "of_nat (unat x) = withSign (signbit x) (bitsOf x)" unfolding withSign_def by (rule arg_cong)
  then show ?thesis by simp
qed

lemma upperMid_mono: "m < n \<Longrightarrow> upperMid m \<le> lowerMid n"
proof -
  assume "m < n"
  then have "magnitude m \<le> magnitude (n - 1)" "magnitude (m + 1) \<le> magnitude n"
    using magnitude_mono [of m "n - 1"] magnitude_mono [of "m + 1" n] by (cases "m = n - 1"; force)+
  then show ?thesis by (simp add: upperMid_def lowerMid_def)
qed

lemma upperMid_le: "m \<le> n \<Longrightarrow> upperMid m \<le> upperMid n"
  using magnitude_mono [of m n] magnitude_mono [of "m + 1" "n + 1"] by (cases "m = n") (auto simp: upperMid_def)

lemma unsignedValue_nonneg: "0 \<le> unsignedValue t"
  by (simp add: unsignedValue_def Let_def)

lemma nearer_side:
  fixes a b v :: rat
  assumes "a < b"
  shows "\<bar>v - a\<bar> < \<bar>v - b\<bar> \<Longrightarrow> v < (a + b) / 2" "\<bar>v - b\<bar> < \<bar>v - a\<bar> \<Longrightarrow> (a + b) / 2 < v"
  using assms by (auto simp: abs_if field_simps split: if_splits)

lemma nearest_between:
  assumes "isfinite x" "nearestTo (floatValue t) x" "hd t = CHR ''-'' \<longleftrightarrow> signbit x" "t \<noteq> []"
  shows "\<bar>floatValue t\<bar> < upperMid (bitsOf x)" "0 < bitsOf x \<Longrightarrow> lowerMid (bitsOf x) < \<bar>floatValue t\<bar>"
proof -
  let ?n = "bitsOf x" and ?v = "\<bar>floatValue t\<bar>"
  have n: "?n + 1 < 2 ^ 63" using assms(1) by (simp add: isfinite_bits)
  have v: "floatValue t = (if signbit x then - ?v else ?v)"
    using assms(3,4) unsignedValue_nonneg [of t] unsignedValue_nonneg [of "tl t"] by (auto simp: floatValue_def)
  have near: "\<bar>?v - magnitude ?n\<bar> < \<bar>?v - magnitude m\<bar>" if m: "m < 2 ^ 63" "magnitude m \<noteq> magnitude ?n" for m
  proof -
    let ?y = "withSign (signbit x) m"
    have y: "doubleValue ?y = (if signbit x then - magnitude m else magnitude m)"
      using withSign_parts [OF m(1)] by (simp add: doubleValue_def)
    have x: "doubleValue x = (if signbit x then - magnitude ?n else magnitude ?n)" by (simp add: doubleValue_def)
    have "doubleValue ?y \<noteq> doubleValue x" unfolding x y using m(2) by simp
    then have "\<bar>floatValue t - doubleValue x\<bar> < \<bar>floatValue t - doubleValue ?y\<bar>"
      using assms(2) unfolding nearestTo_def by blast
    moreover have "\<bar>floatValue t - (if signbit x then - z else z)\<bar> = \<bar>?v - z\<bar>" for z
      using v by (cases "signbit x") auto
    ultimately show ?thesis unfolding x y by simp
  qed
  have up: "magnitude ?n < magnitude (?n + 1)" by (rule magnitude_strict)
  from nearer_side(1) [OF this near [of "?n + 1"]] n up show "?v < upperMid ?n" by (simp add: upperMid_def)
  assume "0 < ?n"
  then have down: "magnitude (?n - 1) < magnitude ?n" by (simp add: magnitude_mono)
  from nearer_side(2) [OF this near [of "?n - 1"]] n down show "lowerMid ?n < ?v" by (simp add: lowerMid_def)
qed

theorem readDouble_rounds: "strtodRounds readDouble"
  unfolding strtodRounds_def
proof (intro allI impI)
  fix t x assume t: "floatToken t" "isfinite x" "nearestTo (floatValue t) x" "hd t = CHR ''-'' \<longleftrightarrow> signbit x"
  have "t \<noteq> []" using t(1) by (auto simp: floatToken_def)
  note between = nearest_between [OF t(2-4) this]
  have "\<bar>floatValue t\<bar> \<le> upperMid m \<longleftrightarrow> bitsOf x \<le> m" for m
  proof (cases "bitsOf x \<le> m")
    case True
    with upperMid_le between(1) show ?thesis by fastforce
  next
    case False
    with between(2) upperMid_mono [of m "bitsOf x"] show ?thesis by simp
  qed
  moreover have "bitsOf x < 2 ^ 63" using t(2) by (simp add: isfinite_bits)
  ultimately have "leastFrom (\<lambda>n. \<bar>floatValue t\<bar> \<le> upperMid n) 63 0 = bitsOf x" by (intro leastFrom_found) simp_all
  then show "readDouble t = x" using t(4) by (simp add: readDouble_def withSign_bits)
qed


section \<open>Properties\<close>

lemma typed_finite: "typed fl j \<Longrightarrow> \<forall>x \<in> set_json j. isFinite fl x"
  by (induction j rule: readBack.induct) (fastforce split: prod.splits)+

text \<open>
  C13: What was parsed can be printed, and what is printed can be parsed again, with numbers of type \<open>double\<close>: if
  \<open>strtod\<close> rounds correctly, whatever the parser returned is printed, with errors on ill-formed texts switched on, and the
  printed text is parsed to the same value, every floating-point number bit for bit, with a negative zero among the integers as an
  unsigned number; that value is printed as the same text.
\<close>

theorem doubles_round_trip:
  assumes "strtodRounds rd" "floatsOf cf = doubleFloats rd" "decimal_point_char (lexing cf) = CHR ''.''"
    and "jsonParse cf src = Inr j" "allow_exceptions cf"
  shows "\<exists>x. dumpJsonText (doubleFloats rd) (-1) ic False Strict j = Inr x \<and> jsonParse cf x = Inr (zeroBack j) \<and>
    dumpJsonText (doubleFloats rd) (-1) ic False Strict (zeroBack j) = Inr x"
proof -
  have "typed (floatsOf cf) j" using jsonParse_typed [OF assms(4)] assms(5) by auto
  from typed_finite [OF this] have "\<forall>x \<in> set_json j. isfinite x" by (simp add: assms(2) doubleFloats_def)
  then have "\<forall>x \<in> set_json j. exactFloat (lexing cf) x" using double_exact [OF assms(1-3)] by blast
  from printed_again [OF assms(4,5) this] show ?thesis by (simp add: assms(2))
qed

text \<open>A tenth, a negative zero and the greatest number.\<close>

definition doubleConf :: "w64 parseConf" where
  "doubleConf = \<lparr>lexing = \<lparr>ignore_comments = False, decimal_point_char = CHR ''.'', numbers = doubleFloats readDouble\<rparr>,
     allow_exceptions = True\<rparr>"

definition sampleDoubles :: "w64 json" where
  "sampleDoubles = JArray [JFloat 0x3FB999999999999A, JFloat 0x8000000000000000, JFloat 0x7FEFFFFFFFFFFFFF]"

theorem doubles_round_trip_witness:
  "jsonParse doubleConf (jsonText (doubleFloats readDouble) sampleDoubles) = Inr sampleDoubles \<and>
   (\<exists>x. dumpJsonText (doubleFloats readDouble) (-1) CHR '' '' False Strict sampleDoubles = Inr x \<and>
     jsonParse doubleConf x = Inr sampleDoubles \<and> dumpJsonText (doubleFloats readDouble) (-1) CHR '' '' False Strict sampleDoubles = Inr x)"
proof -
  have cf: "floatsOf doubleConf = doubleFloats readDouble" "decimal_point_char (lexing doubleConf) = CHR ''.''" "allow_exceptions doubleConf"
    by (simp_all add: doubleConf_def)
  have "isfinite 0x3FB999999999999A" "isfinite 0x8000000000000000" "isfinite 0x7FEFFFFFFFFFFFFF" by (simp_all add: isfinite_def)
  then have "printable (lexing doubleConf) sampleDoubles"
    using double_exact [OF readDouble_rounds cf(1,2)] by (simp add: sampleDoubles_def)
  from jsonParse_text [OF this, of "[]"]
  have parse: "jsonParse doubleConf (jsonText (doubleFloats readDouble) sampleDoubles) = Inr sampleDoubles"
    by (simp add: cf(1) endsInput_def) (simp add: sampleDoubles_def)
  moreover have "zeroBack sampleDoubles = sampleDoubles" by (simp add: sampleDoubles_def)
  ultimately show ?thesis using doubles_round_trip [OF readDouble_rounds cf(1,2) parse cf(3), of "CHR '' ''"] by simp
qed


end
