(* ===== verification/Store.thy ===== *)
theory Store
  imports CppText StdMap
begin

text \<open>
  The memory the game variables live in (\<open>lib/variables/Variables.hpp\<close>).

  A \<open>Variable\<close> holds a \<open>shared_ptr<varType>\<close>, lists and variable maps hold \<open>shared_ptr<Variable>\<close>, and
  copying a \<open>Variable\<close> copies the pointer, not the value. Which variables alias which is therefore
  part of the behaviour, and the model keeps an explicit store: \<open>Variable\<close> objects (\<open>objs\<close>), the
  \<open>varType\<close> values they point to (\<open>cells\<close>) and the strings a \<open>mapType\<close> points to (\<open>strs\<close>), each under
  an address given out by \<open>brk\<close>. A reference \<open>varType&\<close> of the code is the address of a cell.
  The operations free nothing: what the code frees, nothing refers to any more, and \<open>storeReach\<close> of \<open>VariablesProps\<close>
  frees it between them. The exception is the raw \<open>shared_ptr<Variable>(&val2)\<close> of \<open>VariableUtils::setValue\<close> on
  lists, a second owner, of which the model shows the aliasing and, for an index out of range, the deletion.

  \<open>wfStore\<close> is the type invariant of the store: no dangling reference, sorted maps, 32-bit integers.
\<close>

section \<open>Values\<close>

type_synonym addr = nat
type_synonym ptr = "addr option"   \<comment> \<open>\<open>None\<close> is \<open>nullptr\<close>\<close>

datatype varType =
    VInt int
  | VString string
  | VBool bool
  | VMap "(string, ptr) smap"      \<comment> \<open>\<open>mapType\<close>: \<open>map<string, shared_ptr<string>>\<close>\<close>
  | VList "ptr list"               \<comment> \<open>\<open>listObj\<close>: \<open>vector<shared_ptr<Variable>>\<close>\<close>
  | VVarMap "(string, ptr) smap"   \<comment> \<open>\<open>varMapType\<close>: \<open>map<string, shared_ptr<Variable>>\<close>\<close>
  | VPointer ptr                   \<comment> \<open>\<open>shared_ptr<void>\<close>\<close>
  | VNone                          \<comment> \<open>\<open>monostate\<close>\<close>

datatype varKind = INT' | STRING | BOOL | MAP | LIST | VAR_MAP | POINTER | NONE

fun getType :: "varType \<Rightarrow> varKind" where
  "getType (VInt _) = INT'"
| "getType (VString _) = STRING"
| "getType (VBool _) = BOOL"
| "getType (VMap _) = MAP"
| "getType (VList _) = LIST"
| "getType (VVarMap _) = VAR_MAP"
| "getType (VPointer _) = POINTER"
| "getType VNone = NONE"

fun getList :: "varType \<Rightarrow> ptr list option" where
  "getList (VList l) = Some l"
| "getList _ = None"

fun getString :: "varType \<Rightarrow> string option" where
  "getString (VString s) = Some s"
| "getString _ = None"

fun getInt :: "varType \<Rightarrow> int option" where
  "getInt (VInt i) = Some i"
| "getInt _ = None"

fun getBool :: "varType \<Rightarrow> bool option" where
  "getBool (VBool b) = Some b"
| "getBool _ = None"

fun_cases getList_SomeE [elim!]: "getList v = Some l"
fun_cases getString_SomeE [elim!]: "getString v = Some s"
fun_cases getInt_SomeE [elim!]: "getInt v = Some i"
fun_cases getBool_SomeE [elim!]: "getBool v = Some b"

section \<open>The store\<close>

record store =
  objs :: "addr \<Rightarrow> addr option"
  cells :: "addr \<Rightarrow> varType option"
  strs :: "addr \<Rightarrow> string option"
  brk :: addr

definition emptyStore :: store where
  "emptyStore = \<lparr>objs = Map.empty, cells = Map.empty, strs = Map.empty, brk = 0\<rparr>"

definition newCell :: "varType \<Rightarrow> (store, addr) prog" where
  "newCell v = (\<lambda>s. (Inr (brk s), s\<lparr>cells := (cells s)(brk s \<mapsto> v), brk := Suc (brk s)\<rparr>))"

definition newObj :: "addr \<Rightarrow> (store, addr) prog" where
  "newObj c = (\<lambda>s. (Inr (brk s), s\<lparr>objs := (objs s)(brk s \<mapsto> c), brk := Suc (brk s)\<rparr>))"

definition newString :: "string \<Rightarrow> (store, addr) prog" where
  "newString x = (\<lambda>s. (Inr (brk s), s\<lparr>strs := (strs s)(brk s \<mapsto> x), brk := Suc (brk s)\<rparr>))"

text \<open>\<open>std::make_shared<Variable>(varType)\<close> and the copy \<open>std::make_shared<Variable>(const Variable &)\<close>.\<close>

definition makeShared :: "varType \<Rightarrow> (store, addr) prog" where
  "makeShared v = andThen (newCell v) newObj"

definition cellOf :: "addr \<Rightarrow> (store, addr) prog" where
  "cellOf a = (\<lambda>s. fromOption UB (objs s a) s)"

definition copyVar :: "addr \<Rightarrow> (store, addr) prog" where
  "copyVar a = andThen (cellOf a) newObj"

definition deref :: "ptr \<Rightarrow> (store, addr) prog" where
  "deref p = fromOption UB p"

definition readCell :: "addr \<Rightarrow> (store, varType) prog" where
  "readCell c = (\<lambda>s. fromOption UB (cells s c) s)"

definition writeCell :: "addr \<Rightarrow> varType \<Rightarrow> (store, unit) prog" where
  "writeCell c v = modify (\<lambda>s. s\<lparr>cells := (cells s)(c \<mapsto> v)\<rparr>)"

definition readString :: "addr \<Rightarrow> (store, string) prog" where
  "readString a = (\<lambda>s. fromOption UB (strs s a) s)"

text \<open>\<open>p->getRef()\<close> and \<open>p->get()\<close> for a \<open>shared_ptr<Variable>\<close>.\<close>

definition getRef :: "ptr \<Rightarrow> (store, addr) prog" where
  "getRef p = andThen (deref p) cellOf"

definition getVal :: "ptr \<Rightarrow> (store, varType) prog" where
  "getVal p = andThen (getRef p) readCell"

section \<open>The type invariant\<close>

definition ptrOk :: "store \<Rightarrow> ptr \<Rightarrow> bool" where
  "ptrOk s p \<longleftrightarrow> (case p of None \<Rightarrow> True | Some a \<Rightarrow> objs s a \<noteq> None)"

definition strOk :: "store \<Rightarrow> ptr \<Rightarrow> bool" where
  "strOk s p \<longleftrightarrow> (case p of None \<Rightarrow> True | Some a \<Rightarrow> strs s a \<noteq> None)"

fun valOk :: "store \<Rightarrow> varType \<Rightarrow> bool" where
  "valOk s (VInt i) = isInt i"
| "valOk s (VMap m) = (sortedMap m \<and> (\<forall>p \<in> snd ` set m. strOk s p))"
| "valOk s (VList l) = (\<forall>p \<in> set l. ptrOk s p)"
| "valOk s (VVarMap m) = (sortedMap m \<and> (\<forall>p \<in> snd ` set m. ptrOk s p))"
| "valOk s _ = True"

definition wfStore :: "store \<Rightarrow> bool" where
  "wfStore s \<longleftrightarrow>
     (\<forall>a c. objs s a = Some c \<longrightarrow> a < brk s \<and> cells s c \<noteq> None) \<and>
     (\<forall>c v. cells s c = Some v \<longrightarrow> c < brk s \<and> valOk s v) \<and>
     (\<forall>a. strs s a \<noteq> None \<longrightarrow> a < brk s)"

text \<open>
  The store only grows: objects keep the cell they point to, cells and strings stay allocated.
  Every reference that is valid stays valid.
\<close>

definition storeLe :: "store \<Rightarrow> store \<Rightarrow> bool" where
  "storeLe s t \<longleftrightarrow>
     objs s \<subseteq>\<^sub>m objs t \<and> dom (cells s) \<subseteq> dom (cells t) \<and> strs s \<subseteq>\<^sub>m strs t \<and> brk s \<le> brk t"

lemma storeLe_refl [simp]: "storeLe s s"
  by (simp add: storeLe_def)

lemma storeLe_trans: "storeLe s t \<Longrightarrow> storeLe t u \<Longrightarrow> storeLe s u"
  by (auto simp: storeLe_def intro: map_le_trans)

lemma ptrOk_mono: "storeLe s t \<Longrightarrow> ptrOk s p \<Longrightarrow> ptrOk t p"
  by (auto simp: storeLe_def ptrOk_def map_le_def dom_def split: option.splits)

lemma strOk_mono: "storeLe s t \<Longrightarrow> strOk s p \<Longrightarrow> strOk t p"
  by (auto simp: storeLe_def strOk_def map_le_def dom_def split: option.splits)

lemma valOk_mono: "storeLe s t \<Longrightarrow> valOk s v \<Longrightarrow> valOk t v"
  by (cases v) (auto intro: ptrOk_mono strOk_mono)

lemma wfStore_empty: "wfStore emptyStore"
  by (simp add: wfStore_def emptyStore_def)

lemma wfStore_objs: "wfStore s \<Longrightarrow> objs s a = Some c \<Longrightarrow> \<exists>v. cells s c = Some v"
  by (auto simp: wfStore_def)

lemma wfStore_valOk: "wfStore s \<Longrightarrow> cells s c = Some v \<Longrightarrow> valOk s v"
  by (auto simp: wfStore_def)

lemma wfStore_fresh:
  assumes "wfStore s"
  shows "objs s (brk s) = None" "cells s (brk s) = None" "strs s (brk s) = None"
  using assms unfolding wfStore_def by (metis less_irrefl not_None_eq)+

section \<open>How the primitives run, and that they keep the invariant\<close>

lemma newCell_run [run_simps]:
  "newCell v s = (Inr (brk s), s\<lparr>cells := (cells s)(brk s \<mapsto> v), brk := Suc (brk s)\<rparr>)"
  by (simp add: newCell_def)

lemma newObj_run [run_simps]:
  "newObj c s = (Inr (brk s), s\<lparr>objs := (objs s)(brk s \<mapsto> c), brk := Suc (brk s)\<rparr>)"
  by (simp add: newObj_def)

lemma newString_run [run_simps]:
  "newString x s = (Inr (brk s), s\<lparr>strs := (strs s)(brk s \<mapsto> x), brk := Suc (brk s)\<rparr>)"
  by (simp add: newString_def)

lemma makeShared_run [run_simps]:
  "makeShared v s =
     (Inr (Suc (brk s)),
      s\<lparr>objs := (objs s)(Suc (brk s) \<mapsto> brk s), cells := (cells s)(brk s \<mapsto> v), brk := Suc (Suc (brk s))\<rparr>)"
  by (simp add: makeShared_def andThen_def run_simps)

lemma cellOf_run [run_simps]:
  "cellOf a s = (case objs s a of None \<Rightarrow> (Inl UB, s) | Some c \<Rightarrow> (Inr c, s))"
  by (simp add: cellOf_def run_simps fromOption_def split: option.splits)

lemma readCell_run [run_simps]:
  "readCell c s = (case cells s c of None \<Rightarrow> (Inl UB, s) | Some v \<Rightarrow> (Inr v, s))"
  by (simp add: readCell_def run_simps fromOption_def split: option.splits)

lemma readString_run [run_simps]:
  "readString a s = (case strs s a of None \<Rightarrow> (Inl UB, s) | Some x \<Rightarrow> (Inr x, s))"
  by (simp add: readString_def run_simps fromOption_def split: option.splits)

lemma writeCell_run [run_simps]: "writeCell c v s = (Inr (), s\<lparr>cells := (cells s)(c \<mapsto> v)\<rparr>)"
  by (simp add: writeCell_def run_simps)

lemma deref_run [run_simps]: "deref p s = (case p of None \<Rightarrow> (Inl UB, s) | Some a \<Rightarrow> (Inr a, s))"
  by (simp add: deref_def run_simps fromOption_def split: option.splits)

lemma copyVar_run [run_simps]:
  "copyVar a s = (case objs s a of None \<Rightarrow> (Inl UB, s)
     | Some c \<Rightarrow> (Inr (brk s), s\<lparr>objs := (objs s)(brk s \<mapsto> c), brk := Suc (brk s)\<rparr>))"
  by (simp add: copyVar_def andThen_def run_simps split: option.splits)

lemma getRef_run [run_simps]:
  "getRef p s = (case p of None \<Rightarrow> (Inl UB, s)
     | Some a \<Rightarrow> (case objs s a of None \<Rightarrow> (Inl UB, s) | Some c \<Rightarrow> (Inr c, s)))"
  by (simp add: getRef_def andThen_def run_simps split: option.splits)

lemma getVal_run [run_simps]:
  "getVal p s = (case p of None \<Rightarrow> (Inl UB, s)
     | Some a \<Rightarrow> (case objs s a of None \<Rightarrow> (Inl UB, s)
       | Some c \<Rightarrow> (case cells s c of None \<Rightarrow> (Inl UB, s) | Some v \<Rightarrow> (Inr v, s))))"
  by (simp add: getVal_def andThen_def run_simps split: option.splits)

lemma readOnly_reads [keeps_intros]:
  "readOnly (cellOf a)" "readOnly (readCell c)" "readOnly (readString x)" "readOnly (deref p)"
  "readOnly (getRef p)" "readOnly (getVal p)"
  by (simp_all add: readOnly_def run_simps split: option.splits)

lemma storeLe_fresh_cell:
  "wfStore s \<Longrightarrow> storeLe s (s\<lparr>cells := (cells s)(brk s \<mapsto> v), brk := Suc (brk s)\<rparr>)"
  by (auto simp: storeLe_def)

lemma storeLe_fresh_obj:
  "wfStore s \<Longrightarrow> storeLe s (s\<lparr>objs := (objs s)(brk s \<mapsto> c), brk := Suc (brk s)\<rparr>)"
  using wfStore_fresh(1) [of s] by (auto simp: storeLe_def map_le_def)

lemma storeLe_fresh_str:
  "wfStore s \<Longrightarrow> storeLe s (s\<lparr>strs := (strs s)(brk s \<mapsto> x), brk := Suc (brk s)\<rparr>)"
  using wfStore_fresh(3) [of s] by (auto simp: storeLe_def map_le_def)

lemma storeLe_write: "storeLe s (s\<lparr>cells := (cells s)(c \<mapsto> v)\<rparr>)"
  by (auto simp: storeLe_def)

lemma wfStore_newCell:
  assumes wf: "wfStore s" and v: "valOk s v"
  shows "wfStore (s\<lparr>cells := (cells s)(brk s \<mapsto> v), brk := Suc (brk s)\<rparr>)" (is "wfStore ?t")
proof -
  have le: "storeLe s ?t" by (rule storeLe_fresh_cell [OF wf])
  show ?thesis
    using wf valOk_mono [OF le] v unfolding wfStore_def
    by (auto simp: less_Suc_eq)
qed

lemma wfStore_newObj:
  assumes wf: "wfStore s" and c: "cells s c = Some v"
  shows "wfStore (s\<lparr>objs := (objs s)(brk s \<mapsto> c), brk := Suc (brk s)\<rparr>)" (is "wfStore ?t")
proof -
  have le: "storeLe s ?t" by (rule storeLe_fresh_obj [OF wf])
  show ?thesis
    using wf valOk_mono [OF le] c unfolding wfStore_def
    by (auto simp: less_Suc_eq)
qed

lemma wfStore_newString:
  assumes wf: "wfStore s"
  shows "wfStore (s\<lparr>strs := (strs s)(brk s \<mapsto> x), brk := Suc (brk s)\<rparr>)" (is "wfStore ?t")
proof -
  have le: "storeLe s ?t" by (rule storeLe_fresh_str [OF wf])
  show ?thesis
    using wf valOk_mono [OF le] unfolding wfStore_def
    by (auto simp: less_Suc_eq)
qed

lemma wfStore_write:
  assumes wf: "wfStore s" and c: "cells s c \<noteq> None" and v: "valOk s v"
  shows "wfStore (s\<lparr>cells := (cells s)(c \<mapsto> v)\<rparr>)" (is "wfStore ?t")
proof -
  have le: "storeLe s ?t" by (rule storeLe_write)
  show ?thesis
    using wf valOk_mono [OF le] c v unfolding wfStore_def
    by auto
qed

section \<open>A calculus for programs that respect the store\<close>

text \<open>
  \<open>safe s m Q\<close>: run from \<open>s\<close>, the program \<open>m\<close> leaves a well-formed store that extends \<open>s\<close>, also when
  it throws, and a returned value satisfies \<open>Q\<close> in it. The rules of \<open>safe_intros\<close> follow the
  structure of a program.
\<close>

definition safe :: "store \<Rightarrow> (store, 'a) prog \<Rightarrow> ('a \<Rightarrow> store \<Rightarrow> bool) \<Rightarrow> bool" where
  "safe s m Q \<longleftrightarrow> wfStore (snd (m s)) \<and> storeLe s (snd (m s)) \<and>
     (\<forall>x. fst (m s) = Inr x \<longrightarrow> Q x (snd (m s)))"

named_theorems safe_intros "programs that respect the store"

lemma safeD:
  assumes "safe s m Q" "m s = (r, t)"
  shows "wfStore t" "storeLe s t" "r = Inr x \<Longrightarrow> Q x t"
  using assms by (auto simp: safe_def)

lemma safe_ok [safe_intros]: "wfStore s \<Longrightarrow> Q x s \<Longrightarrow> safe s (ok x) Q"
  by (simp add: safe_def run_simps)

lemma safe_raise [safe_intros]: "wfStore s \<Longrightarrow> safe s (raise e) Q"
  by (simp add: safe_def run_simps)

lemma safe_andThen [safe_intros]:
  assumes m: "safe s m R"
    and f: "\<And>x t. wfStore t \<Longrightarrow> storeLe s t \<Longrightarrow> R x t \<Longrightarrow> safe t (f x) Q"
  shows "safe s (andThen m f) Q"
proof (cases "m s")
  case (Pair r t)
  note m' = safeD [OF m Pair]
  show ?thesis
  proof (cases r)
    case (Inl e)
    with m' Pair show ?thesis by (simp add: safe_def andThen_def)
  next
    case (Inr x)
    with m' have "safe t (f x) Q" by (intro f) auto
    with m' Pair Inr show ?thesis by (auto simp: safe_def andThen_def intro: storeLe_trans)
  qed
qed

lemma safe_weaken: "safe s m R \<Longrightarrow> (\<And>x t. R x t \<Longrightarrow> Q x t) \<Longrightarrow> safe s m Q"
  by (simp add: safe_def)

lemma safe_if [safe_intros]:
  "(c \<Longrightarrow> safe s a Q) \<Longrightarrow> (\<not> c \<Longrightarrow> safe s b Q) \<Longrightarrow> safe s (if c then a else b) Q"
  by simp

lemma safe_readOnly:
  "wfStore s \<Longrightarrow> readOnly m \<Longrightarrow> (\<And>x. m s = (Inr x, s) \<Longrightarrow> Q x s) \<Longrightarrow> safe s m Q"
  unfolding safe_def readOnly_def by (metis prod.collapse storeLe_refl)

lemma safe_fromOption [safe_intros]:
  "wfStore s \<Longrightarrow> (\<And>x. v = Some x \<Longrightarrow> Q x s) \<Longrightarrow> safe s (fromOption e v) Q"
  by (cases v) (simp_all add: run_simps safe_def)

lemma safe_readCell [safe_intros]:
  "wfStore s \<Longrightarrow> safe s (readCell c) (\<lambda>v t. t = s \<and> cells s c = Some v \<and> valOk s v)"
  by (auto simp: safe_def run_simps wfStore_valOk split: option.splits)

lemma safe_cellOf [safe_intros]:
  "wfStore s \<Longrightarrow> safe s (cellOf a) (\<lambda>c t. t = s \<and> objs s a = Some c \<and> cells s c \<noteq> None)"
  by (auto simp: safe_def run_simps dest: wfStore_objs split: option.splits)

lemma safe_getRef [safe_intros]:
  "wfStore s \<Longrightarrow> safe s (getRef p) (\<lambda>c t. t = s \<and> cells s c \<noteq> None)"
  by (auto simp: safe_def run_simps dest: wfStore_objs split: option.splits)

lemma safe_getVal [safe_intros]:
  "wfStore s \<Longrightarrow> safe s (getVal p) (\<lambda>v t. t = s \<and> valOk s v)"
  by (auto simp: safe_def run_simps wfStore_valOk split: option.splits)

lemma safe_writeCell [safe_intros]:
  "wfStore s \<Longrightarrow> cells s c \<noteq> None \<Longrightarrow> valOk s v \<Longrightarrow> safe s (writeCell c v) (\<lambda>_ t. cells t c = Some v)"
  by (simp add: safe_def run_simps wfStore_write storeLe_write)

lemma safe_newCell [safe_intros]:
  "wfStore s \<Longrightarrow> valOk s v \<Longrightarrow> safe s (newCell v) (\<lambda>c t. cells t c = Some v)"
  by (simp add: safe_def run_simps wfStore_newCell storeLe_fresh_cell)

lemma safe_newObj [safe_intros]:
  "wfStore s \<Longrightarrow> cells s c \<noteq> None \<Longrightarrow> safe s (newObj c) (\<lambda>a t. objs t a = Some c)"
  by (auto simp: safe_def run_simps wfStore_newObj storeLe_fresh_obj)

lemma safe_newString [safe_intros]:
  "wfStore s \<Longrightarrow> safe s (newString x) (\<lambda>a t. strs t a = Some x)"
  by (simp add: safe_def run_simps wfStore_newString storeLe_fresh_str)

lemma safe_makeShared [safe_intros]:
  "wfStore s \<Longrightarrow> valOk s v \<Longrightarrow> safe s (makeShared v) (\<lambda>a t. objs t a \<noteq> None)"
  unfolding makeShared_def
  by (rule safe_andThen [OF safe_newCell])
    (auto intro: safe_weaken [OF safe_newObj])

lemma safe_copyVar [safe_intros]:
  "wfStore s \<Longrightarrow> safe s (copyVar a) (\<lambda>b t. objs t b \<noteq> None)"
  unfolding copyVar_def
  by (rule safe_andThen [OF safe_cellOf]) (auto intro: safe_weaken [OF safe_newObj])

lemma safe_forEach:
  assumes "wfStore s"
    and "\<And>x t. x \<in> set xs \<Longrightarrow> wfStore t \<Longrightarrow> storeLe s t \<Longrightarrow> safe t (f x) (\<lambda>_ _. True)"
  shows "safe s (forEach xs f) (\<lambda>_ _. True)"
  using assms
proof (induction xs arbitrary: s)
  case (Cons x xs)
  show ?case unfolding forEach.simps
  proof (rule safe_andThen)
    show "safe s (f x) (\<lambda>_ _. True)" using Cons.prems by simp
  next
    fix t assume t: "wfStore t" "storeLe s t"
    show "safe t (forEach xs f) (\<lambda>_ _. True)"
      using t Cons.prems(2) by (intro Cons.IH) (auto intro: storeLe_trans)
  qed
qed (simp add: safe_ok)

end
