(* ===== verification/Variables.thy ===== *)
theory Variables
  imports Store
begin

text \<open>
  \<open>lib/variables/Variables.cpp\<close>: the namespaces \<open>VariableUtils\<close> and \<open>ListObjUtils\<close>, and the methods
  of class \<open>Variable\<close>, over the store. A parameter of type \<open>varType&\<close> is the address of a cell, a
  \<open>const varType&\<close> that is only read is its value, a \<open>Variable&\<close> is the address of the object.

  What the C++ implementation and not the source decides is a \<open>platform\<close>: \<open>sizeof(varType)\<close>, how an address is
  printed, and the order \<open>std::shuffle\<close> puts a list in.
\<close>

record platform =
  sizeofVarType :: nat
  showPointer :: "ptr \<Rightarrow> string"
  shuffleList :: "ptr list \<Rightarrow> ptr list"

section \<open>\<open>VariableUtils\<close>\<close>

text \<open>\<open>setValue(varType &var, varType &val)\<close>\<close>

definition setValue :: "addr \<Rightarrow> varType \<Rightarrow> (store, unit) prog" where
  "setValue var val = andThen (readCell var) (\<lambda>v.
     if getType v \<noteq> getType val then raise (BadVariableArg ''Unsupported arguments'')
     else writeCell var val)"

text \<open>
  \<open>setValue(varType &var, varType &val, Variable &val2)\<close>: a map entry becomes a copy of the \<open>Variable\<close>, a list
  entry becomes \<open>shared_ptr<Variable>(&val2)\<close>, a pointer to the very object \<open>val2\<close>. This pointer is made before
  \<open>at\<close> looks at the index. It is a second owner of an object that is not its own (the objects of the store are made by
  \<open>make_shared\<close> or live on the stack): an index out of range destroys it, which deletes \<open>val2\<close>, and that is undefined.
  The same happens once the last copy of the entry goes. When that is, depends on counts the store does not keep, so the
  model shows the object in the list until then; what is said of the life time of objects (\<open>storeReach\<close>) leaves this
  operation out.
\<close>

definition setValueVar :: "addr \<Rightarrow> varType \<Rightarrow> addr \<Rightarrow> (store, unit) prog" where
  "setValueVar var val val2 = andThen (readCell var) (\<lambda>v.
     case v of
       VVarMap m \<Rightarrow>
         (case val of
            VString key \<Rightarrow> andThen (copyVar val2) (\<lambda>p. writeCell var (VVarMap (mapPut key (Some p) m)))
          | _ \<Rightarrow> raise (BadVariableArg ''Expected mapType, string, string''))
     | VList list \<Rightarrow>
         (case val of
            VInt index \<Rightarrow>
              if toSize index < int (length list)
              then writeCell var (VList (list[nat (toSize index) := Some val2]))
              else raise UB
          | _ \<Rightarrow> raise (BadVariableArg ''Expected mapType, string, string''))
     | _ \<Rightarrow> raise (BadVariableArg ''Expected mapType, string, string''))"

text \<open>\<open>setValue(varType &var, varType &val, varType &val2)\<close>\<close>

definition setValueVal :: "addr \<Rightarrow> varType \<Rightarrow> varType \<Rightarrow> (store, unit) prog" where
  "setValueVal var val val2 = andThen (readCell var) (\<lambda>v.
     case v of
       VMap orig \<Rightarrow>
         (case (val, val2) of
            (VString key, VString value) \<Rightarrow>
              andThen (newString value) (\<lambda>p. writeCell var (VMap (mapPut key (Some p) orig)))
          | _ \<Rightarrow> raise (BadVariableArg ''Expected mapType, string, string''))
     | VList list \<Rightarrow>
         (case val of
            VInt index \<Rightarrow> andThen (makeShared val2) (\<lambda>p.
              if toSize index < int (length list)
              then writeCell var (VList (list[nat (toSize index) := Some p]))
              else raise (OutOfRange None))
          | _ \<Rightarrow> raise (BadVariableArg ''Expected mapType, string, string''))
     | _ \<Rightarrow> raise (BadVariableArg ''Expected mapType, string, string''))"

text \<open>
  \<open>printValue\<close> gives the text put on the stream. A list prints its items, which can be lists again,
  even the list itself, so the recursion is bounded by fuel. A \<open>mapType\<close> prints the pointer to the
  string, not the string.
\<close>

primrec printValue :: "nat \<Rightarrow> platform \<Rightarrow> varType \<Rightarrow> string \<Rightarrow> (store, string) prog" where
  "printValue 0 pf var delim = raise OutOfFuel"
| "printValue (Suc n) pf var delim =
     (case var of
        VMap m \<Rightarrow> ok (concat (map (\<lambda>(key, p). ''['' @ key @ ''] = '' @ showPointer pf p) m) @ delim)
      | VList l \<Rightarrow>
          andThen (mapProg (\<lambda>item. andThen (getVal item) (\<lambda>v. printValue n pf v '', '')) l)
            (\<lambda>texts. ok (concat texts @ delim))
      | VInt i \<Rightarrow> ok (toString i @ delim)
      | VString s \<Rightarrow> ok (s @ delim)
      | VBool b \<Rightarrow> ok ((if b then ''1'' else ''0'') @ delim)
      | _ \<Rightarrow> ok delim)"

text \<open>\<open>std::equal(first1, last1, first2, pred)\<close>: stops at the first mismatch; a shorter second range
  is read past its end.\<close>

primrec equalProg :: "('a \<Rightarrow> 'b \<Rightarrow> ('s, bool) prog) \<Rightarrow> 'a list \<Rightarrow> 'b list \<Rightarrow> ('s, bool) prog" where
  "equalProg pred [] ys = ok True"
| "equalProg pred (x # xs) ys =
     (case ys of [] \<Rightarrow> raise UB
      | y # ys' \<Rightarrow> andThen (pred x y) (\<lambda>b. if b then equalProg pred xs ys' else ok False))"

text \<open>
  \<open>compare\<close>: both \<open>list1\<close> and \<open>list2\<close> of the source are taken from \<open>var1\<close>. For the other kinds it is
  the \<open>operator==\<close> of the variant: structural, pointers by address.
\<close>

primrec compare :: "nat \<Rightarrow> varType \<Rightarrow> varType \<Rightarrow> (store, bool) prog" where
  "compare 0 var1 var2 = raise OutOfFuel"
| "compare (Suc n) var1 var2 =
     (if getType var1 \<noteq> getType var2
      then raise (BadVariableArg ''Expected arguments t be same type'')
      else case getList var1 of
        Some list1 \<Rightarrow>
          (case getList var1 of
             Some list2 \<Rightarrow>
               equalProg (\<lambda>item1 item2. andThen (getRef item2) (\<lambda>c2. andThen (readCell c2) (\<lambda>v2.
                 andThen (getVal item1) (\<lambda>v1. compare n v1 v2)))) list1 list2
           | None \<Rightarrow> ok (var1 = var2))
      | None \<Rightarrow> ok (var1 = var2))"

text \<open>
  \<open>getWithKey\<close>: an iterator is the entry it stands at, and \<open>end()\<close> stands at none. The entry is copied out of the
  iterator before it is tested, and the test itself reads \<open>*a->end()\<close>.
\<close>

type_synonym mapIterator = "(string \<times> ptr) option"

definition mapFind :: "(string, ptr) smap \<Rightarrow> string \<Rightarrow> mapIterator" where
  "mapFind a b = map_option (Pair b) (map_of a b)"

definition mapEnd :: "(string, ptr) smap \<Rightarrow> mapIterator" where
  "mapEnd a = None"

definition derefIterator :: "mapIterator \<Rightarrow> (store, string \<times> ptr) prog" where
  "derefIterator it = fromOption UB it"

definition getWithKey :: "addr \<Rightarrow> varType \<Rightarrow> (store, string) prog" where
  "getWithKey var1 key = andThen (readCell var1) (\<lambda>v.
     case v of
       VMap a \<Rightarrow>
         (case key of
            VString b \<Rightarrow>
              andThen (derefIterator (mapFind a b)) (\<lambda>it.
              andThen (derefIterator (mapEnd a)) (\<lambda>e.
              if it \<noteq> e then andThen (deref (snd it)) readString else ok ''''))
          | _ \<Rightarrow> raise (BadVariableArg ''Expected mapType, string''))
     | _ \<Rightarrow> raise (BadVariableArg ''Expected mapType, string''))"

definition varSize :: "platform \<Rightarrow> varType \<Rightarrow> nat" where
  "varSize pf var1 =
     (case var1 of
        VList a \<Rightarrow> length a
      | VMap a \<Rightarrow> length a
      | VVarMap a \<Rightarrow> length a
      | _ \<Rightarrow> sizeofVarType pf)"

section \<open>\<open>ListObjUtils\<close>\<close>

definition shuffle :: "platform \<Rightarrow> addr \<Rightarrow> (store, unit) prog" where
  "shuffle pf var = andThen (readCell var) (\<lambda>v.
     case getList v of
       Some list \<Rightarrow> writeCell var (VList (shuffleList pf list))
     | None \<Rightarrow> raise (BadVariableArg ''Expected listObj as first arg''))"

definition reverse :: "addr \<Rightarrow> (store, unit) prog" where
  "reverse var = andThen (readCell var) (\<lambda>v.
     case getList v of
       Some list \<Rightarrow> writeCell var (VList (rev list))
     | None \<Rightarrow> raise (BadVariableArg ''Expected listObj as first arg''))"

definition push_back :: "addr \<Rightarrow> varType \<Rightarrow> (store, unit) prog" where
  "push_back var val = andThen (readCell var) (\<lambda>v.
     case getList v of
       Some list \<Rightarrow> andThen (makeShared val) (\<lambda>p. writeCell var (VList (list @ [Some p])))
     | None \<Rightarrow> raise (BadVariableArg ''Expected listObj as first arg''))"

text \<open>\<open>remove\<close>: the erase is not followed by a \<open>return\<close>, so the call falls through to the \<open>throw\<close>.\<close>

definition remove :: "addr \<Rightarrow> varType \<Rightarrow> (store, unit) prog" where
  "remove var val = andThen (readCell var) (\<lambda>v.
     case (getList v, getInt val) of
       (Some vec, Some numToDelete) \<Rightarrow>
         if numToDelete < 0 then ok ()
         else andThen (if toUnsigned numToDelete \<le> int (length vec)
                       then writeCell var (VList (drop (nat numToDelete) vec)) else ok ())
                (\<lambda>_. raise (BadVariableArg ''expected listObj, int''))
     | _ \<Rightarrow> raise (BadVariableArg ''expected listObj, int''))"

text \<open>The shared index arithmetic: \<open>vec.size() + tempIndex\<close> in \<open>size_t\<close>, back to \<open>int\<close>.\<close>

definition fromEnd :: "'a list \<Rightarrow> int \<Rightarrow> int" where
  "fromEnd vec i = toInt (toSize (int (length vec) + i))"

text \<open>\<open>abs(i) > vec.size()\<close>; \<open>abs(INT_MIN)\<close> overflows.\<close>

definition absBeyond :: "int \<Rightarrow> 'a list \<Rightarrow> (store, bool) prog" where
  "absBeyond i vec = (if i = INT_MIN then raise UB else ok (int (length vec) < \<bar>i\<bar>))"

definition insert_helper :: "addr \<Rightarrow> addr \<Rightarrow> int \<Rightarrow> (store, unit) prog" where
  "insert_helper vecAt var index = andThen (readCell vecAt) (\<lambda>v.
     case getList v of
       None \<Rightarrow> raise UB
     | Some vec \<Rightarrow>
         let tempIndex = (if index < 0 then fromEnd vec index else index) in
         andThen (absBeyond tempIndex vec) (\<lambda>beyond.
         if beyond
         then raise (OutOfRange (Some (''max index '' @ toString (int (length vec)) @ '': '' @
                toString index @ '' out of range'')))
         else
           let uIndex = toUnsigned tempIndex;
               it = (if uIndex = int (length vec) then int (length vec) else uIndex) in
           if int (length vec) < it then raise UB
           else andThen (copyVar var) (\<lambda>p.
             writeCell vecAt (VList (take (nat it) vec @ [Some p] @ drop (nat it) vec)))))"

text \<open>\<open>insert_at\<close> with a value (through a temporary \<open>Variable\<close>) and with a \<open>Variable\<close>; other argument
  kinds are ignored without an error.\<close>

definition insert_at :: "addr \<Rightarrow> varType \<Rightarrow> varType \<Rightarrow> (store, unit) prog" where
  "insert_at var val indx = andThen (readCell var) (\<lambda>v.
     case (getList v, getInt indx) of
       (Some _, Some index) \<Rightarrow> andThen (makeShared val) (\<lambda>tmp. insert_helper var tmp index)
     | _ \<Rightarrow> ok ())"

definition insert_at_var :: "addr \<Rightarrow> addr \<Rightarrow> varType \<Rightarrow> (store, unit) prog" where
  "insert_at_var var val indx = andThen (readCell var) (\<lambda>v.
     case (getList v, getInt indx) of
       (Some _, Some index) \<Rightarrow> insert_helper var val index
     | _ \<Rightarrow> ok ())"

text \<open>\<open>remove_at\<close>: \<open>vec.erase(vec.end())\<close> is undefined.\<close>

definition remove_at :: "addr \<Rightarrow> varType \<Rightarrow> (store, unit) prog" where
  "remove_at var val = andThen (readCell var) (\<lambda>v.
     case (getList v, getInt val) of
       (Some vec, Some index) \<Rightarrow>
         andThen (absBeyond index vec) (\<lambda>beyond.
         if beyond then ok ()
         else
           let tempIndex = (if index < 0 then fromEnd vec index else index);
               uIndex = toUnsigned tempIndex in
           if int (length vec) \<le> uIndex then raise UB
           else writeCell var (VList (take (nat uIndex) vec @ drop (Suc (nat uIndex)) vec)))
     | _ \<Rightarrow> ok ())"

definition get_at :: "addr \<Rightarrow> varType \<Rightarrow> (store, ptr) prog" where
  "get_at var1 key = andThen (readCell var1) (\<lambda>v.
     case (getList v, getInt key) of
       (Some vec, Some index) \<Rightarrow>
         andThen (absBeyond index vec) (\<lambda>beyond.
         if beyond then ok None
         else
           let tempIndex = (if index < 0 then fromEnd vec index else index) in
           if toSize tempIndex < int (length vec) then ok (vec ! nat (toSize tempIndex))
           else raise (OutOfRange None))
     | _ \<Rightarrow> raise (BadVariableArg ''Expected listObj, int''))"

text \<open>\<open>std::find_if\<close> with \<open>isEqual\<close>, stopping at the first match. The key is an \<open>int\<close> or a string, so
  \<open>compare\<close> never recurses and one unit of fuel is enough (\<open>compare_scalar\<close>).\<close>

primrec anyEqual :: "ptr list \<Rightarrow> varType \<Rightarrow> (store, bool) prog" where
  "anyEqual [] temp = ok False"
| "anyEqual (item # items) temp =
     andThen (getVal item) (\<lambda>v. andThen (compare 1 v temp) (\<lambda>b.
       if b then ok True else anyEqual items temp))"

definition contains :: "addr \<Rightarrow> varType \<Rightarrow> (store, bool) prog" where
  "contains var1 key = andThen (readCell var1) (\<lambda>v.
     case getList v of
       Some vec \<Rightarrow>
         (case key of
            VInt index \<Rightarrow> anyEqual vec (VInt index)
          | VString index \<Rightarrow> anyEqual vec (VString index)
          | _ \<Rightarrow> raise (BadVariableArg ''Expected listObj as first arg''))
     | None \<Rightarrow> raise (BadVariableArg ''Expected listObj as first arg''))"

text \<open>\<open>getVarWithKey\<close>: an entry of a variable map (\<open>nullptr\<close> when missing) or of a list.\<close>

definition getVarWithKey :: "addr \<Rightarrow> varType \<Rightarrow> (store, ptr) prog" where
  "getVarWithKey var1 key = andThen (readCell var1) (\<lambda>v.
     case (v, key) of
       (VVarMap m, VString mapKey) \<Rightarrow> ok (case map_of m mapKey of Some p \<Rightarrow> p | None \<Rightarrow> None)
     | (VList _, VInt _) \<Rightarrow> get_at var1 key
     | _ \<Rightarrow> raise (BadVariableArg ''Expected mapType, string or listObj, int''))"

section \<open>Class \<open>Variable\<close>\<close>

definition varSet :: "addr \<Rightarrow> varType \<Rightarrow> (store, unit) prog" where
  "varSet this val = andThen (cellOf this) (\<lambda>c. setValue c val)"

definition varSetVal :: "addr \<Rightarrow> varType \<Rightarrow> varType \<Rightarrow> (store, unit) prog" where
  "varSetVal this val val2 = andThen (cellOf this) (\<lambda>c. setValueVal c val val2)"

definition varSetVar :: "addr \<Rightarrow> varType \<Rightarrow> addr \<Rightarrow> (store, unit) prog" where
  "varSetVar this val val2 = andThen (cellOf this) (\<lambda>c. setValueVar c val val2)"

definition varGetKey :: "addr \<Rightarrow> varType \<Rightarrow> (store, string) prog" where
  "varGetKey this key = andThen (cellOf this) (\<lambda>c. getWithKey c key)"

definition varGet :: "addr \<Rightarrow> (store, varType) prog" where
  "varGet this = andThen (cellOf this) readCell"

definition varIsEqual :: "nat \<Rightarrow> addr \<Rightarrow> varType \<Rightarrow> (store, bool) prog" where
  "varIsEqual n this other = andThen (varGet this) (\<lambda>v. compare n v other)"

definition varIsEqualVar :: "nat \<Rightarrow> addr \<Rightarrow> addr \<Rightarrow> (store, bool) prog" where
  "varIsEqualVar n this other = andThen (varGet other) (\<lambda>w. varIsEqual n this w)"

definition varEq :: "nat \<Rightarrow> addr \<Rightarrow> addr \<Rightarrow> (store, bool) prog" where
  "varEq n this var = andThen (varGet this) (\<lambda>v. varIsEqual n var v)"

definition varPrint :: "nat \<Rightarrow> platform \<Rightarrow> addr \<Rightarrow> (store, string) prog" where
  "varPrint n pf this = andThen (varGet this) (\<lambda>v. printValue n pf v '''')"

definition varKindOf :: "addr \<Rightarrow> (store, varKind) prog" where
  "varKindOf this = andThen (varGet this) (\<lambda>v. ok (getType v))"

definition variableSize :: "platform \<Rightarrow> addr \<Rightarrow> (store, nat) prog" where
  "variableSize pf this = andThen (varGet this) (\<lambda>v. ok (varSize pf v))"

text \<open>\<open>makeVarPtr(args...)\<close>: one argument makes a \<open>Variable\<close> of it, several make a list of them. The
  default constructor that the call without arguments needs is declared but nowhere defined.\<close>

definition makeVarPtr :: "varType list \<Rightarrow> (store, addr) prog" where
  "makeVarPtr args =
     (case args of
        [] \<Rightarrow> raise UB
      | [first] \<Rightarrow> makeShared first
      | _ \<Rightarrow> andThen (newCell (VList [])) (\<lambda>list.
               andThen (forEach args (\<lambda>item. push_back list item)) (\<lambda>_.
               andThen (readCell list) makeShared)))"

lemma getWithKey_run:
  "getWithKey c key s =
     (case cells s c of
        None \<Rightarrow> (Inl UB, s)
      | Some v \<Rightarrow> (Inl (if getType v = MAP \<and> getType key = STRING then UB
          else BadVariableArg ''Expected mapType, string''), s))"
  by (auto simp: getWithKey_def andThen_def run_simps derefIterator_def mapEnd_def fromOption_def
      split: option.splits varType.splits)

section \<open>Index arithmetic\<close>

lemma toInt_toSize: "toInt (toSize x) = toInt x"
  by (simp add: toInt_def toSize_def sint_sbintrunc' uint_word_of_int_eq signed_take_bit_take_bit)

lemma fromEnd_eq:
  assumes "int (length vec) \<le> INT_MAX" "isInt i" "i < 0"
  shows "fromEnd vec i = int (length vec) + i"
proof -
  have "isInt (int (length vec) + i)"
    using assms by (simp add: isInt_def INT_MIN_def INT_MAX_def)
  then show ?thesis by (simp add: fromEnd_def toInt_toSize toInt_id)
qed

lemma absBeyond_run [run_simps]:
  "absBeyond i vec = (if i = INT_MIN then raise UB else ok (int (length vec) < \<bar>i\<bar>))"
  by (simp add: absBeyond_def)

text \<open>The four regions of an index into a list, and what each operation does there.\<close>

lemma get_at_run:
  assumes l: "cells s c = Some (VList vec)" and len: "int (length vec) \<le> INT_MAX"
    and i: "isInt i" "i \<noteq> INT_MIN"
  shows "get_at c (VInt i) s =
     (if 0 \<le> i \<and> i < int (length vec) then Inr (vec ! nat i)
      else if i < 0 \<and> - int (length vec) \<le> i then Inr (vec ! nat (int (length vec) + i))
      else if i = int (length vec) then Inl (OutOfRange None)
      else Inr None, s)"
proof -
  consider (low) "i < - int (length vec)" | (neg) "- int (length vec) \<le> i" "i < 0"
    | (mid) "0 \<le> i" "i < int (length vec)" | (past) "i = int (length vec)" | (high) "int (length vec) < i"
    by linarith
  then show ?thesis
  proof cases
    case low
    then show ?thesis using l i by (simp add: get_at_def andThen_def run_simps Let_def)
  next
    case neg
    then have "fromEnd vec i = int (length vec) + i" using fromEnd_eq len i by blast
    moreover have "toSize (int (length vec) + i) = int (length vec) + i"
      using neg len by (intro toSize_id) (auto simp: INT_MAX_def)
    ultimately show ?thesis using l i neg by (simp add: get_at_def andThen_def run_simps Let_def)
  next
    case mid
    have "toSize i = i" using mid len by (intro toSize_id) (auto simp: INT_MAX_def)
    then show ?thesis using l i mid by (simp add: get_at_def andThen_def run_simps Let_def)
  next
    case past
    have "toSize (int (length vec)) = int (length vec)"
      using len by (intro toSize_id) (auto simp: INT_MAX_def)
    then show ?thesis using l i past by (simp add: get_at_def andThen_def run_simps Let_def)
  next
    case high
    then show ?thesis using l i by (simp add: get_at_def andThen_def run_simps Let_def)
  qed
qed

lemma remove_at_run:
  assumes l: "cells s c = Some (VList vec)" and len: "int (length vec) \<le> INT_MAX"
    and i: "isInt i" "i \<noteq> INT_MIN"
  shows "remove_at c (VInt i) s =
     (let n = int (length vec) in
      if n < \<bar>i\<bar> then (Inr (), s)
      else if i = n then (Inl UB, s)
      else let k = nat (if i < 0 then n + i else i) in
        (Inr (), s\<lparr>cells := (cells s)(c \<mapsto> VList (take k vec @ drop (Suc k) vec))\<rparr>))"
proof -
  consider (out) "int (length vec) < \<bar>i\<bar>" | (neg) "- int (length vec) \<le> i" "i < 0"
    | (mid) "0 \<le> i" "i < int (length vec)" | (past) "i = int (length vec)"
    by linarith
  then show ?thesis
  proof cases
    case out
    then show ?thesis using l i by (simp add: remove_at_def andThen_def run_simps Let_def)
  next
    case neg
    then have "fromEnd vec i = int (length vec) + i" using fromEnd_eq len i by blast
    moreover have "toUnsigned (int (length vec) + i) = int (length vec) + i"
      using neg len by (intro toUnsigned_id) (auto simp: INT_MAX_def)
    ultimately show ?thesis using l i neg by (simp add: remove_at_def andThen_def run_simps Let_def)
  next
    case mid
    have "toUnsigned i = i" using mid len by (intro toUnsigned_id) (auto simp: INT_MAX_def)
    then show ?thesis using l i mid by (simp add: remove_at_def andThen_def run_simps Let_def)
  next
    case past
    have "toUnsigned (int (length vec)) = int (length vec)"
      using len by (intro toUnsigned_id) (auto simp: INT_MAX_def)
    then show ?thesis using l i past by (simp add: remove_at_def andThen_def run_simps Let_def)
  qed
qed

end
