(* ===== verification/VariablesLaws.thy ===== *)
theory VariablesLaws
  imports Variables
begin

text \<open>
  The laws of the variables: how the list operations behave in every index region, what comparison
  and printing return and when they return at all, and the aliasing between variables.
\<close>

section \<open>Insertion\<close>

lemma insert_helper_run:
  assumes l: "cells s c = Some (VList vec)" and len: "int (length vec) \<le> INT_MAX"
    and i: "isInt i" "i \<noteq> INT_MIN" and v: "objs s a = Some d" and n: "n = int (length vec)"
  shows "insert_helper c a i s =
     (let k = (if i < 0 then n + i else i) in
      if n < \<bar>k\<bar> then
        (Inl (OutOfRange (Some (''max index '' @ toString n @ '': '' @ toString i @ '' out of range''))), s)
      else if k < 0 then (Inl UB, s)
      else (Inr (), s\<lparr>objs := (objs s)(brk s \<mapsto> d), brk := Suc (brk s),
          cells := (cells s)(c \<mapsto> VList (take (nat k) vec @ [Some (brk s)] @ drop (nat k) vec))\<rparr>))"
proof -
  define k where "k = (if i < 0 then n + i else i)"
  have k: "(if i < 0 then fromEnd vec i else i) = k"
    using fromEnd_eq [OF len i(1)] by (simp add: k_def n)
  have min: "k \<noteq> INT_MIN"
    using i by (auto simp: k_def n isInt_def INT_MIN_def split: if_splits)
  have U: "toUnsigned k = k" if "0 \<le> k" "k \<le> n"
    using that len n by (intro toUnsigned_id) (auto simp: INT_MAX_def)
  have N: "toUnsigned k = k + 4294967296" if "k < 0" "\<bar>k\<bar> \<le> n"
    using that len n by (intro toUnsigned_neg) (auto simp: INT_MAX_def)
  consider (far) "n < \<bar>k\<bar>" | (neg) "\<bar>k\<bar> \<le> n" "k < 0" | (good) "0 \<le> k" "k \<le> n"
    by linarith
  then show ?thesis
  proof cases
    case far
    then show ?thesis
      unfolding insert_helper_def k_def [symmetric]
      using l v min by (simp add: andThen_def run_simps k n)
  next
    case neg
    have "\<not> n < \<bar>k\<bar>" "k \<noteq> n" "n < k + 4294967296" "k + 4294967296 \<noteq> n"
      using neg len n by (auto simp: INT_MAX_def)
    then show ?thesis
      unfolding insert_helper_def k_def [symmetric]
      using l v min neg N by (simp add: andThen_def run_simps k n)
  next
    case good
    then have "\<not> n < \<bar>k\<bar>" by simp
    then show ?thesis
      unfolding insert_helper_def k_def [symmetric]
      using l v min good U by (simp add: andThen_def run_simps k n)
  qed
qed

section \<open>Comparison and printing\<close>

lemma equalProg_self_not_False:
  "(\<And>x s. fst (pred x x s) \<noteq> Inr False) \<Longrightarrow> fst (equalProg pred xs xs s) \<noteq> Inr False"
proof (induction xs arbitrary: s)
  case (Cons x xs)
  from Cons.prems [of x s] show ?case
    by (auto simp: andThen_def run_simps Cons.IH [OF Cons.prems] split: prod.splits sum.splits if_splits)
qed (simp add: run_simps)

lemma compare_self_not_False: "fst (compare n v v s) \<noteq> Inr False"
proof (induction n arbitrary: v s)
  case (Suc n)
  show ?case
  proof (cases "getList v")
    case None
    then show ?thesis by (simp add: run_simps)
  next
    case (Some l)
    then show ?thesis
      by (auto simp: andThen_def run_simps Suc.IH
          intro!: equalProg_self_not_False split: option.splits)
  qed
qed (simp add: run_simps)

lemma readOnly_equalProg: "(\<And>x y. readOnly (pred x y)) \<Longrightarrow> readOnly (equalProg pred xs ys)"
  by (induction xs arbitrary: ys) (auto intro!: keeps_intros split: list.splits)

lemma readOnly_compare [keeps_intros]: "readOnly (compare n v w)"
proof (induction n arbitrary: v w)
  case (Suc n)
  then show ?case
    by (auto intro!: keeps_intros readOnly_equalProg split: option.splits)
qed (simp add: keeps_intros)

lemma readOnly_printValue [keeps_intros]: "readOnly (printValue n pf v delim)"
proof (induction n arbitrary: v delim)
  case (Suc n)
  then show ?case
    by (auto intro!: keeps_intros split: varType.splits)
qed (simp add: keeps_intros)

lemma compare_scalar:
  assumes "getList w = None"
  shows "compare (Suc n) v w s =
    (if getType v \<noteq> getType w then Inl (BadVariableArg ''Expected arguments t be same type'')
     else Inr (v = w), s)"
  using assms by (cases v; cases w) (auto simp: run_simps)

lemma anyEqual_run:
  assumes "map (\<lambda>p. getVal p s) items = map (\<lambda>v. (Inr v, s)) vs" and "getList key = None"
  shows "anyEqual items key s =
    (case dropWhile (\<lambda>v. getType v = getType key \<and> v \<noteq> key) vs of
       [] \<Rightarrow> Inr False
     | v # _ \<Rightarrow> if v = key then Inr True
               else Inl (BadVariableArg ''Expected arguments t be same type''), s)"
  using assms
proof (induction items arbitrary: vs)
  case (Cons item items)
  then obtain v vs' where vs: "vs = v # vs'" by (cases vs) auto
  with Cons.prems have v: "getVal item s = (Inr v, s)"
    and rest: "map (\<lambda>p. getVal p s) items = map (\<lambda>v. (Inr v, s)) vs'" by auto
  have c: "compare 1 v key s =
    (if getType v \<noteq> getType key then Inl (BadVariableArg ''Expected arguments t be same type'')
     else Inr (v = key), s)"
    using compare_scalar [OF Cons.prems(2), of 0 v s] by (simp add: One_nat_def)
  show ?case
    using Cons.IH [OF rest Cons.prems(2)] v c
    by (simp add: vs andThen_def run_simps del: One_nat_def compare.simps)
qed (simp add: run_simps)

section \<open>When the recursion over nested lists returns\<close>

text \<open>\<open>ranked s r\<close>: every item of a list lives in a cell of smaller rank, so no list contains itself.\<close>

definition ranked :: "store \<Rightarrow> (addr \<Rightarrow> nat) \<Rightarrow> bool" where
  "ranked s r \<longleftrightarrow> (\<forall>c l a d. cells s c = Some (VList l) \<longrightarrow> Some a \<in> set l \<longrightarrow>
     objs s a = Some d \<longrightarrow> r d < r c)"

definition noNullItems :: "store \<Rightarrow> bool" where
  "noNullItems s \<longleftrightarrow> (\<forall>c l. cells s c = Some (VList l) \<longrightarrow> None \<notin> set l)"

lemma list_item_value:
  assumes "wfStore s" "noNullItems s" "ranked s r" "cells s c = Some (VList l)" "p \<in> set l"
  obtains d v where "getRef p s = (Inr d, s)" "readCell d s = (Inr v, s)" "getVal p s = (Inr v, s)"
    "cells s d = Some v" "r d < r c"
proof -
  from assms(2,4,5) obtain a where p: "p = Some a" by (cases p) (auto simp: noNullItems_def)
  from assms(1,4) have "valOk s (VList l)" by (rule wfStore_valOk)
  with assms(5) p have "ptrOk s (Some a)" by auto
  then obtain d where d: "objs s a = Some d" by (auto simp: ptrOk_def)
  from wfStore_objs [OF assms(1) d] obtain v where v: "cells s d = Some v" by blast
  from assms(3,4,5) p d have "r d < r c" unfolding ranked_def by blast
  with that [of d v] p d v show ?thesis by (simp add: run_simps)
qed

lemma mapProg_total:
  "(\<And>x. x \<in> set xs \<Longrightarrow> \<exists>y. f x s = (Inr y, s)) \<Longrightarrow> \<exists>ys. mapProg f xs s = (Inr ys, s)"
proof (induction xs)
  case (Cons x xs)
  then obtain y ys where "f x s = (Inr y, s)" "mapProg f xs s = (Inr ys, s)"
    by (metis list.set_intros)
  then show ?case by (simp add: andThen_def run_simps)
qed (simp add: run_simps)

lemma mapProg_mono:
  assumes "\<And>x s y t. f x s = (Inr y, t) \<Longrightarrow> g x s = (Inr y, t)"
  shows "mapProg f xs s = (Inr ys, t) \<Longrightarrow> mapProg g xs s = (Inr ys, t)"
proof (induction xs arbitrary: s ys t)
  case (Cons x xs)
  then show ?case
    by (auto elim!: andThen_InrE simp: andThen_ok assms ok_run)
qed simp

lemma equalProg_total:
  "(\<And>x. x \<in> set xs \<Longrightarrow> \<exists>b. pred x x s = (Inr b, s)) \<Longrightarrow> \<exists>b. equalProg pred xs xs s = (Inr b, s)"
proof (induction xs)
  case (Cons x xs)
  then obtain b b' where "pred x x s = (Inr b, s)" "equalProg pred xs xs s = (Inr b', s)"
    by (metis list.set_intros)
  then show ?case by (cases b) (auto simp: andThen_def run_simps)
qed (auto simp: run_simps)

lemma printValue_list:
  "printValue (Suc n) pf (VList l) delim =
     andThen (mapProg (\<lambda>item. andThen (getVal item) (\<lambda>v. printValue n pf v '', '')) l)
       (\<lambda>texts. ok (concat texts @ delim))"
  by simp

lemma printValue_returns:
  assumes "wfStore s" "noNullItems s" "ranked s r"
  shows "cells s c = Some v \<Longrightarrow> r c < n \<Longrightarrow> \<exists>out. printValue n pf v delim s = (Inr out, s)"
proof (induction n arbitrary: c v delim)
  case (Suc n)
  show ?case
  proof (cases v)
    case (VList l)
    have "\<exists>y. andThen (getVal p) (\<lambda>v. printValue n pf v '', '') s = (Inr y, s)" if p: "p \<in> set l" for p
    proof -
      from list_item_value [OF assms] Suc.prems(1) p obtain d w
        where w: "getVal p s = (Inr w, s)" "cells s d = Some w" "r d < r c"
        unfolding VList by metis
      with Suc.prems(2) have "r d < n" by simp
      from Suc.IH [OF w(2) this] w(1) show ?thesis by (auto simp: andThen_def)
    qed
    then have "\<exists>ys. mapProg (\<lambda>p. andThen (getVal p) (\<lambda>v. printValue n pf v '', '')) l s = (Inr ys, s)"
      by (rule mapProg_total)
    then show ?thesis by (auto simp: VList andThen_def run_simps)
  qed (simp_all add: run_simps)
qed simp

lemma compare_self_returns:
  assumes "wfStore s" "noNullItems s" "ranked s r"
  shows "cells s c = Some v \<Longrightarrow> r c < n \<Longrightarrow> getType v = getType w \<Longrightarrow>
    \<exists>b. compare n v w s = (Inr b, s)"
proof (induction n arbitrary: c v w)
  case (Suc n)
  show ?case
  proof (cases v)
    case (VList l)
    let ?pred = "\<lambda>item1 item2. andThen (getRef item2) (\<lambda>c2. andThen (readCell c2) (\<lambda>v2.
                 andThen (getVal item1) (\<lambda>v1. compare n v1 v2)))"
    have one: "\<exists>b. ?pred p p s = (Inr b, s)" if p: "p \<in> set l" for p
    proof -
      from list_item_value [OF assms] Suc.prems(1) p obtain d x
        where x: "getRef p s = (Inr d, s)" "readCell d s = (Inr x, s)" "getVal p s = (Inr x, s)"
          "cells s d = Some x" "r d < r c"
        unfolding VList by metis
      with Suc.prems(2) have "r d < n" by simp
      from Suc.IH [OF x(4) this refl] x(1-3) show ?thesis by (auto simp: andThen_def)
    qed
    then have "\<exists>b. equalProg ?pred l l s = (Inr b, s)"
      by (rule equalProg_total)
    then show ?thesis using Suc.prems(3) by (simp add: VList)
  qed (use Suc.prems(3) in \<open>simp_all add: run_simps\<close>)
qed simp

lemma printValue_fuel_mono:
  "printValue n pf v delim s = (Inr out, t) \<Longrightarrow> printValue (Suc n) pf v delim s = (Inr out, t)"
proof (induction n arbitrary: v delim out s t)
  case (Suc n)
  show ?case
  proof (cases v)
    case (VList l)
    have "andThen (getVal p) (\<lambda>v. printValue n pf v '', '') u = (Inr y, w) \<Longrightarrow>
        andThen (getVal p) (\<lambda>v. printValue (Suc n) pf v '', '') u = (Inr y, w)" for p u y w
      by (elim andThen_InrE) (simp add: andThen_ok Suc.IH del: printValue.simps)
    then have "mapProg (\<lambda>p. andThen (getVal p) (\<lambda>v. printValue n pf v '', '')) l s = (Inr ys, w) \<Longrightarrow>
        mapProg (\<lambda>p. andThen (getVal p) (\<lambda>v. printValue (Suc n) pf v '', '')) l s = (Inr ys, w)" for ys w
      by (rule mapProg_mono)
    then show ?thesis using Suc.prems
      unfolding VList printValue_list
      by (auto elim!: andThen_InrE simp: andThen_ok ok_run simp del: printValue.simps)
  qed (use Suc.prems in simp_all)
qed (simp add: run_simps)

end
