(* ===== verification/VariablesSafe.thy ===== *)
theory VariablesSafe
  imports VariablesLaws
begin

text \<open>
  Every operation of \<open>VariableUtils\<close>, \<open>ListObjUtils\<close> and \<open>Variable\<close> keeps the store well-formed, on
  every branch.
\<close>

lemma valOk_list_set: "valOk s (VList l) \<Longrightarrow> set l' \<subseteq> insert p (set l) \<Longrightarrow> ptrOk s p \<Longrightarrow> valOk s (VList l')"
  by auto

lemma ptrOk_Some: "objs s a \<noteq> None \<Longrightarrow> ptrOk s (Some a)"
  by (simp add: ptrOk_def)

lemma cells_mono: "storeLe s t \<Longrightarrow> cells s c \<noteq> None \<Longrightarrow> cells t c \<noteq> None"
  by (auto simp: storeLe_def dom_def)

lemma objs_mono: "storeLe s t \<Longrightarrow> objs s a \<noteq> None \<Longrightarrow> objs t a \<noteq> None"
  by (fastforce simp: storeLe_def map_le_def dom_def)

lemmas store_mono = valOk_mono ptrOk_mono strOk_mono cells_mono objs_mono

lemma valOk_VMap_put:
  "valOk s (VMap m) \<Longrightarrow> strOk s p \<Longrightarrow> valOk s (VMap (mapPut k p m))"
  using set_mapPut [of k p m] by (force simp: sortedMap_mapPut)

lemma valOk_VVarMap_put:
  "valOk s (VVarMap m) \<Longrightarrow> ptrOk s p \<Longrightarrow> valOk s (VVarMap (mapPut k p m))"
  using set_mapPut [of k p m] by (force simp: sortedMap_mapPut)

lemma safe_setValue [safe_intros]:
  "wfStore s \<Longrightarrow> valOk s val \<Longrightarrow> safe s (setValue var val) (\<lambda>_ _. True)"
  unfolding setValue_def
  by (rule safe_andThen [OF safe_readCell])
    (auto intro!: safe_intros safe_weaken [OF safe_writeCell])

lemma safe_push_back [safe_intros]:
  assumes "wfStore s" "valOk s val"
  shows "safe s (push_back var val) (\<lambda>_ _. True)"
  unfolding push_back_def
proof (rule safe_andThen [OF safe_readCell [OF assms(1)]])
  fix v t assume t: "t = s \<and> cells s var = Some v \<and> valOk s v"
  show "safe t (case getList v of
       Some list \<Rightarrow> andThen (makeShared val) (\<lambda>p. writeCell var (VList (list @ [Some p])))
     | None \<Rightarrow> raise (BadVariableArg ''Expected listObj as first arg'')) (\<lambda>_ _. True)"
  proof (cases "getList v")
    case (Some l)
    then have v: "v = VList l" by auto
    show ?thesis unfolding Some option.case
      by (rule safe_andThen [OF safe_makeShared])
        (use t v assms store_mono in \<open>auto intro!: safe_weaken [OF safe_writeCell] ptrOk_Some\<close>)
  qed (use t assms in \<open>simp add: safe_raise\<close>)
qed

lemma safe_writeList [safe_intros]:
  "wfStore s \<Longrightarrow> cells s c \<noteq> None \<Longrightarrow> (\<And>p. p \<in> set l \<Longrightarrow> ptrOk s p) \<Longrightarrow> safe s (writeCell c (VList l)) (\<lambda>_ _. True)"
  by (rule safe_weaken [OF safe_writeCell]) auto

lemma safe_setValueVar [safe_intros]:
  assumes "wfStore s" "objs s val2 \<noteq> None"
  shows "safe s (setValueVar var val val2) (\<lambda>_ _. True)"
  unfolding setValueVar_def
proof (rule safe_andThen [OF safe_readCell [OF assms(1)]], goal_cases)
  case (1 v t)
  have map: "safe t (andThen (copyVar val2) (\<lambda>p. writeCell var (VVarMap (mapPut key (Some p) m)))) (\<lambda>_ _. True)"
    if v: "v = VVarMap m" for key m
  proof (rule safe_andThen [OF safe_copyVar], goal_cases)
    case (2 p u)
    then have "valOk u (VVarMap (mapPut key (Some p) m))"
      using 1 v valOk_mono by (blast intro: valOk_VVarMap_put ptrOk_Some)
    with 1 2 cells_mono show ?case by (auto intro: safe_weaken [OF safe_writeCell])
  qed (use 1 in auto)
  have list: "safe t (writeCell var (VList (l[k := Some val2]))) (\<lambda>_ _. True)" if "v = VList l" for l k
    using 1 that assms set_update_subset_insert [of l k "Some val2"]
    by (intro safe_writeList) (auto intro: ptrOk_Some dest: subsetD)
  show ?case
    using 1 map list by (auto split: varType.splits intro: safe_intros)
qed

lemma safe_setValueVal [safe_intros]:
  assumes "wfStore s" "valOk s val2"
  shows "safe s (setValueVal var val val2) (\<lambda>_ _. True)"
  unfolding setValueVal_def
proof (rule safe_andThen [OF safe_readCell [OF assms(1)]], goal_cases)
  case (1 v t)
  have map: "safe t (andThen (newString x) (\<lambda>p. writeCell var (VMap (mapPut key (Some p) m)))) (\<lambda>_ _. True)"
    if "v = VMap m" for key m x
    by (rule safe_andThen [OF safe_newString])
      (use 1 that assms valOk_VMap_put store_mono in
        \<open>auto intro!: safe_weaken [OF safe_writeCell] simp: strOk_def simp del: valOk.simps\<close>)
  have list: "safe t (andThen (makeShared val2) (\<lambda>p.
      if b then writeCell var (VList (l[k := Some p])) else raise (OutOfRange None))) (\<lambda>_ _. True)"
    if v: "v = VList l" for l k b
  proof (rule safe_andThen [OF safe_makeShared], goal_cases)
    case (3 p u)
    then have "ptrOk u q" if "q \<in> set (l[k := Some p])" for q
      using 1 v that set_update_subset_insert [of l k "Some p"] store_mono(2) [of t u]
      by (auto intro: ptrOk_Some dest: subsetD)
    with 1 3 store_mono(4) [of t u var] show ?case by (auto intro!: safe_intros)
  qed (use 1 assms in auto)
  show ?case
    using 1 map list by (auto split: varType.splits intro: safe_intros)
qed

lemma safe_shuffle [safe_intros]:
  assumes "wfStore s" "\<And>l. set (shuffleList pf l) \<subseteq> set l"
  shows "safe s (shuffle pf var) (\<lambda>_ _. True)"
  unfolding shuffle_def
  by (rule safe_andThen [OF safe_readCell [OF assms(1)]])
    (use assms(2) in \<open>force intro!: safe_intros split: option.splits\<close>)

lemma safe_reverse [safe_intros]: "wfStore s \<Longrightarrow> safe s (reverse var) (\<lambda>_ _. True)"
  unfolding reverse_def
  by (rule safe_andThen [OF safe_readCell]) (auto intro!: safe_intros split: option.splits)

lemma safe_remove [safe_intros]: "wfStore s \<Longrightarrow> safe s (remove var val) (\<lambda>_ _. True)"
  unfolding remove_def
proof (rule safe_andThen [OF safe_readCell], goal_cases)
  case (2 v t)
  have "safe t (andThen (if b then writeCell var (VList (drop k l)) else ok ()) (\<lambda>_. raise e)) (\<lambda>_ _. True)"
    if "v = VList l" for l b k e
    using 2 that
    by (intro safe_andThen [where R = "\<lambda>_ _. True"]) (auto intro!: safe_intros dest: in_set_dropD)
  with 2 show ?case
    by (auto split: option.splits intro!: safe_raise safe_ok safe_if split del: if_split)
qed simp

lemma safe_absBeyond [safe_intros]: "wfStore s \<Longrightarrow> safe s (absBeyond i vec) (\<lambda>_ t. t = s)"
  by (auto simp: absBeyond_def intro: safe_intros)

lemma safe_insert_helper [safe_intros]:
  "wfStore s \<Longrightarrow> safe s (insert_helper var a index) (\<lambda>_ _. True)"
  unfolding insert_helper_def
proof (rule safe_andThen [OF safe_readCell], goal_cases)
  case (2 v t)
  have ins: "safe t (andThen (copyVar a) (\<lambda>p.
      writeCell var (VList (take k l @ [Some p] @ drop k l)))) (\<lambda>_ _. True)" if v: "v = VList l" for l k
  proof (rule safe_andThen [OF safe_copyVar], goal_cases)
    case (2 p u)
    then show ?case
      using \<open>t = s \<and> _\<close> v store_mono(2,4)
      by (auto intro!: safe_writeList ptrOk_Some dest!: in_set_takeD in_set_dropD)
  qed (use 2 in auto)
  show ?case
    using 2 ins
    by (auto simp: Let_def split: option.splits intro!: safe_andThen [OF safe_absBeyond] safe_raise safe_if)
qed simp

lemma safe_insert_at [safe_intros]:
  "wfStore s \<Longrightarrow> valOk s val \<Longrightarrow> safe s (insert_at var val indx) (\<lambda>_ _. True)"
  unfolding insert_at_def
  by (rule safe_andThen [OF safe_readCell])
    (auto split: option.splits intro!: safe_andThen [OF safe_makeShared] safe_insert_helper safe_ok)

lemma safe_insert_at_var [safe_intros]:
  "wfStore s \<Longrightarrow> safe s (insert_at_var var a indx) (\<lambda>_ _. True)"
  unfolding insert_at_var_def
  by (rule safe_andThen [OF safe_readCell])
    (auto split: option.splits intro!: safe_insert_helper safe_ok)

lemma safe_remove_at [safe_intros]: "wfStore s \<Longrightarrow> safe s (remove_at var val) (\<lambda>_ _. True)"
  unfolding remove_at_def
  by (rule safe_andThen [OF safe_readCell])
    (auto simp: Let_def split: option.splits dest!: in_set_takeD in_set_dropD
      intro!: safe_andThen [OF safe_absBeyond] safe_writeList safe_raise safe_ok safe_if)

lemma safe_get_at [safe_intros]: "wfStore s \<Longrightarrow> safe s (get_at var val) (\<lambda>p t. t = s \<and> ptrOk s p)"
  unfolding get_at_def
  by (rule safe_andThen [OF safe_readCell])
    (auto simp: Let_def ptrOk_def [of _ None] nat_less_iff toSize_nonneg split: option.splits
      intro!: safe_andThen [OF safe_absBeyond] safe_raise safe_ok safe_if)

lemma safe_makeVarPtr [safe_intros]:
  assumes wf: "wfStore s" and args: "\<And>v. v \<in> set args \<Longrightarrow> valOk s v"
  shows "safe s (makeVarPtr args) (\<lambda>a t. objs t a \<noteq> None)"
proof -
  have "safe s (andThen (newCell (VList [])) (\<lambda>list.
               andThen (forEach args (\<lambda>item. push_back list item)) (\<lambda>_.
               andThen (readCell list) makeShared))) (\<lambda>a t. objs t a \<noteq> None)"
  proof (rule safe_andThen [OF safe_newCell], goal_cases)
    case (3 c t)
    show ?case
    proof (rule safe_andThen [where R = "\<lambda>_ _. True"])
      show "safe t (forEach args (\<lambda>item. push_back c item)) (\<lambda>_ _. True)"
        using 3 args valOk_mono by (intro safe_forEach safe_push_back) blast+
    next
      fix u assume "wfStore u"
      then show "safe u (andThen (readCell c) makeShared) (\<lambda>a t. objs t a \<noteq> None)"
        by (rule safe_andThen [OF safe_readCell]) (blast intro: safe_makeShared)
    qed
  qed (use wf in simp_all)
  then show ?thesis
    using safe_makeShared [OF wf args] wf
    by (auto simp: makeVarPtr_def safe_raise simp del: not_None_eq split: list.splits)
qed

end
