(* ===== verification/VariablesProps.thy ===== *)
theory VariablesProps
  imports VariablesSafe VariablesLaws
begin

text \<open>
  The properties of the game variables (\<open>lib/variables/Variables.cpp\<close>): every sequence of public
  operations, with memory being freed in between, keeps the store well formed, how each list operation treats its index, what comparison,
  membership and printing return and when they return, and which variables share a value.
  \<open>sampleStore\<close> is the store the witnesses run in.
\<close>

section \<open>Sequences of operations\<close>

text \<open>One public operation on variables, with its arguments.\<close>

datatype varOp =
    Make "varType list"                  \<comment> \<open>\<open>makeVarPtr\<close>\<close>
  | Set addr varType                     \<comment> \<open>\<open>Variable::set\<close>, three overloads\<close>
  | SetVal addr varType varType
  | SetVar addr varType addr
  | PushBack addr varType                \<comment> \<open>\<open>ListObjUtils\<close> on the cell of a variable\<close>
  | Remove addr varType
  | InsertAt addr varType varType
  | InsertAtVar addr addr varType
  | RemoveAt addr varType
  | Shuffle addr
  | Reverse addr

fun runOp :: "platform \<Rightarrow> varOp \<Rightarrow> (store, unit) prog" where
  "runOp pf (Make args) = andThen (makeVarPtr args) (\<lambda>_. ok ())"
| "runOp pf (Set a v) = varSet a v"
| "runOp pf (SetVal a k v) = varSetVal a k v"
| "runOp pf (SetVar a k b) = varSetVar a k b"
| "runOp pf (PushBack a v) = andThen (cellOf a) (\<lambda>c. push_back c v)"
| "runOp pf (Remove a v) = andThen (cellOf a) (\<lambda>c. remove c v)"
| "runOp pf (InsertAt a v i) = andThen (cellOf a) (\<lambda>c. insert_at c v i)"
| "runOp pf (InsertAtVar a b i) = andThen (cellOf a) (\<lambda>c. insert_at_var c b i)"
| "runOp pf (RemoveAt a i) = andThen (cellOf a) (\<lambda>c. remove_at c i)"
| "runOp pf (Shuffle a) = andThen (cellOf a) (shuffle pf)"
| "runOp pf (Reverse a) = andThen (cellOf a) reverse"

text \<open>The arguments exist: values refer to live objects, a \<open>Variable&\<close> is a live object.\<close>

fun argsOk :: "store \<Rightarrow> varOp \<Rightarrow> bool" where
  "argsOk s (Make args) = list_all (valOk s) args"
| "argsOk s (Set a v) = valOk s v"
| "argsOk s (SetVal a k v) = valOk s v"
| "argsOk s (SetVar a k b) = (objs s b \<noteq> None)"
| "argsOk s (PushBack a v) = valOk s v"
| "argsOk s (InsertAt a v i) = valOk s v"
| "argsOk s _ = True"

text \<open>
  What a value counts as references: the objects and the strings it points to. An object, a value or a string that
  nothing in the store refers to may be freed at any time; whether the program itself still holds a pointer to it,
  the store does not say.
\<close>

fun refsOf :: "varType \<Rightarrow> ptr list" where
  "refsOf (VList l) = l"
| "refsOf (VVarMap m) = map snd m"
| "refsOf (VPointer p) = [p]"
| "refsOf _ = []"

fun strRefsOf :: "varType \<Rightarrow> ptr list" where
  "strRefsOf (VMap m) = map snd m"
| "strRefsOf _ = []"

inductive released :: "store \<Rightarrow> store \<Rightarrow> bool" where
  free_object: "(\<And>c v. cells s c = Some v \<Longrightarrow> Some a \<notin> set (refsOf v)) \<Longrightarrow> released s (s\<lparr>objs := (objs s)(a := None)\<rparr>)"
| free_value: "(\<And>a. objs s a \<noteq> Some c) \<Longrightarrow> released s (s\<lparr>cells := (cells s)(c := None)\<rparr>)"
| free_string: "(\<And>c v. cells s c = Some v \<Longrightarrow> Some a \<notin> set (strRefsOf v)) \<Longrightarrow> released s (s\<lparr>strs := (strs s)(a := None)\<rparr>)"

text \<open>\<open>set(index, Variable &)\<close> on a list makes a second owner of the variable.\<close>

fun adopts :: "store \<Rightarrow> varOp \<Rightarrow> bool" where
  "adopts s (SetVar a k b) = (case Option.bind (objs s a) (cells s) of Some (VList _) \<Rightarrow> True | _ \<Rightarrow> False)"
| "adopts s _ = False"

text \<open>The stores that are reached: operations in any order, also after exceptions, with what nothing refers to freed in
  between, as long as no object gets a second owner and nothing undefined has happened.\<close>

inductive storeReach :: "platform \<Rightarrow> store \<Rightarrow> bool" for pf where
  start: "storeReach pf emptyStore"
| step: "storeReach pf s \<Longrightarrow> argsOk s op \<Longrightarrow> \<not> adopts s op \<Longrightarrow> runOp pf op s = (r, t) \<Longrightarrow> r \<noteq> Inl UB \<Longrightarrow> storeReach pf t"
| release: "storeReach pf s \<Longrightarrow> released s t \<Longrightarrow> storeReach pf t"

lemma valOk_transfer:
  assumes "valOk s v" "\<And>p. p \<in> set (refsOf v) \<Longrightarrow> ptrOk s p \<Longrightarrow> ptrOk t p" "\<And>p. p \<in> set (strRefsOf v) \<Longrightarrow> strOk s p \<Longrightarrow> strOk t p"
  shows "valOk t v"
  using assms by (cases v) auto

lemma valOk_entry: "valOk s (VList l) \<Longrightarrow> p \<in> set l \<Longrightarrow> ptrOk s p" "valOk s (VVarMap m) \<Longrightarrow> p \<in> snd ` set m \<Longrightarrow> ptrOk s p"
  by auto

lemma valOk_refs: "valOk s v \<Longrightarrow> (\<exists>l. v = VList l) \<or> (\<exists>m. v = VVarMap m) \<Longrightarrow> p \<in> set (refsOf v) \<Longrightarrow> ptrOk s p"
  using valOk_entry [of s] by (elim disjE exE) (simp_all only: refsOf.simps set_map)

lemma wfStore_released: "released s t \<Longrightarrow> wfStore s \<Longrightarrow> wfStore t"
proof (induction rule: released.induct)
  case (free_object s a)
  let ?t = "s\<lparr>objs := (objs s)(a := None)\<rparr>"
  have "valOk ?t v" if v: "cells s c = Some v" for c v
  proof (rule valOk_transfer [OF wfStore_valOk [OF free_object(2) v]])
    show "ptrOk ?t p" if "p \<in> set (refsOf v)" "ptrOk s p" for p
      using that free_object(1) [OF v] by (auto simp: ptrOk_def split: option.splits)
  qed (auto simp: strOk_def split: option.splits)
  with free_object(2) show ?case unfolding wfStore_def by auto
next
  case (free_value s c)
  let ?t = "s\<lparr>cells := (cells s)(c := None)\<rparr>"
  have "valOk ?t v" if v: "cells s d = Some v" for d v
    by (rule valOk_transfer [OF wfStore_valOk [OF free_value(2) v]]) (auto simp: ptrOk_def strOk_def split: option.splits)
  with free_value show ?case unfolding wfStore_def by auto
next
  case (free_string s a)
  let ?t = "s\<lparr>strs := (strs s)(a := None)\<rparr>"
  have "valOk ?t v" if v: "cells s c = Some v" for c v
  proof (rule valOk_transfer [OF wfStore_valOk [OF free_string(2) v]])
    show "strOk ?t p" if "p \<in> set (strRefsOf v)" "strOk s p" for p
      using that free_string(1) [OF v] by (auto simp: strOk_def split: option.splits)
  qed (auto simp: ptrOk_def split: option.splits)
  with free_string(2) show ?case unfolding wfStore_def by auto
qed

lemma safe_onCell:
  "wfStore s \<Longrightarrow> safe s (f c) (\<lambda>_ _. True) \<Longrightarrow> objs s a = Some c \<Longrightarrow>
    safe s (andThen (cellOf a) f) (\<lambda>_ _. True)"
  by (rule safe_andThen [OF safe_cellOf]) auto

lemma safe_viaCell:
  assumes "wfStore s" "\<And>c. safe s (f c) (\<lambda>_ _. True)"
  shows "safe s (andThen (cellOf a) f) (\<lambda>_ _. True)"
  by (rule safe_andThen [OF safe_cellOf [OF assms(1)]]) (use assms(2) in auto)

lemma safe_runOp:
  assumes "wfStore s" "argsOk s op" "\<And>l. set (shuffleList pf l) \<subseteq> set l"
  shows "safe s (runOp pf op) (\<lambda>_ _. True)"
proof (cases op)
  case (Make args)
  with assms show ?thesis
    by (auto simp: list_all_iff intro!: safe_andThen [OF safe_makeVarPtr] safe_ok)
qed (use assms in \<open>auto simp: varSet_def varSetVal_def varSetVar_def
      intro!: safe_viaCell safe_setValue safe_setValueVal safe_setValueVar safe_push_back safe_remove
        safe_insert_at safe_insert_at_var safe_remove_at safe_shuffle safe_reverse\<close>)

definition plainPlatform :: platform where
  "plainPlatform = \<lparr>sizeofVarType = 56, showPointer = (\<lambda>_. ''0x1''), shuffleList = rev\<rparr>"


text \<open>A variable and a list of it are made, the list is emptied, then the variable and its value are freed.\<close>

lemma reach_sample:
  "storeReach plainPlatform \<lparr>objs = [3 \<mapsto> 2], cells = [2 \<mapsto> VList []], strs = Map.empty, brk = 4\<rparr>"
proof -
  have "storeReach plainPlatform \<lparr>objs = [1 \<mapsto> 0], cells = [0 \<mapsto> VInt 7], strs = Map.empty, brk = 2\<rparr>"
    by (rule step [OF start, of "Make [VInt 7]" _ "Inr ()"])
      (simp_all add: makeVarPtr_def emptyStore_def run_simps isInt_def INT_MIN_def INT_MAX_def)
  then have "storeReach plainPlatform
      \<lparr>objs = [1 \<mapsto> 0, 3 \<mapsto> 2], cells = [0 \<mapsto> VInt 7, 2 \<mapsto> VList [Some 1]], strs = Map.empty, brk = 4\<rparr>"
    by (rule step [of _ _ "Make [VList [Some 1]]" "Inr ()"]) (simp_all add: makeVarPtr_def run_simps ptrOk_def)
  then have "storeReach plainPlatform
      \<lparr>objs = [1 \<mapsto> 0, 3 \<mapsto> 2], cells = [0 \<mapsto> VInt 7, 2 \<mapsto> VList []], strs = Map.empty, brk = 4\<rparr>"
    by (rule step [of _ _ "RemoveAt 3 (VInt 0)" "Inr ()"])
      (simp_all add: remove_at_def absBeyond_def run_simps INT_MIN_def toUnsigned_id Let_def fun_eq_iff)
  moreover have "released \<lparr>objs = [1 \<mapsto> 0, 3 \<mapsto> 2], cells = [0 \<mapsto> VInt 7, 2 \<mapsto> VList []], strs = Map.empty, brk = 4\<rparr>
      \<lparr>objs = [3 \<mapsto> 2], cells = [0 \<mapsto> VInt 7, 2 \<mapsto> VList []], strs = Map.empty, brk = 4\<rparr>" (is "released ?s ?t")
    using free_object [of ?s 1] by (fastforce simp: fun_upd_twist split: if_splits)
  moreover have "released ?t \<lparr>objs = [3 \<mapsto> 2], cells = [2 \<mapsto> VList []], strs = Map.empty, brk = 4\<rparr>"
    using free_value [of ?t 0] by (fastforce simp: fun_upd_twist split: if_splits)
  ultimately show ?thesis by (blast intro: release)
qed


section \<open>A concrete store\<close>

text \<open>Variables 10 (the number 7), 11 (the text b), 12 (the list of both), 13 (an empty variable map).\<close>

definition sampleStore :: store where
  "sampleStore = \<lparr>objs = [10 \<mapsto> 0, 11 \<mapsto> 1, 12 \<mapsto> 2, 13 \<mapsto> 3],
     cells = [0 \<mapsto> VInt 7, 1 \<mapsto> VString ''b'', 2 \<mapsto> VList [Some 10, Some 11], 3 \<mapsto> VVarMap []],
     strs = Map.empty, brk = 14\<rparr>"

lemma sample_cells [simp]:
  "cells sampleStore (Suc 0) = Some (VString ''b'')"
  "cells sampleStore 0 = Some (VInt 7)" "cells sampleStore 1 = Some (VString ''b'')"
  "cells sampleStore 2 = Some (VList [Some 10, Some 11])" "cells sampleStore 3 = Some (VVarMap [])"
  "objs sampleStore 10 = Some 0" "objs sampleStore 11 = Some 1" "objs sampleStore 12 = Some 2"
  "objs sampleStore 13 = Some 3"
  by (simp_all add: sampleStore_def)

lemma sample_wf: "wfStore sampleStore"
  by (auto simp: wfStore_def sampleStore_def isInt_def INT_MIN_def INT_MAX_def ptrOk_def sortedMap_def
      split: if_splits)

section \<open>Indices\<close>

lemma insert_then_value:
  assumes "wfStore s" and l: "cells s c = Some (VList vec)" and len: "int (length vec) < INT_MAX"
    and i: "0 \<le> i" "i \<le> int (length vec)"
  shows "\<exists>p t. insert_at c v (VInt i) s = (Inr (), t) \<and>
      cells t c = Some (VList (take (nat i) vec @ [p] @ drop (nat i) vec)) \<and> getVal p t = (Inr v, t)"
proof -
  have c: "c < brk s" using assms(1) l by (auto simp: wfStore_def)
  define s' where "s' = s\<lparr>objs := (objs s)(Suc (brk s) \<mapsto> brk s), cells := (cells s)(brk s \<mapsto> v), brk := Suc (Suc (brk s))\<rparr>"
  have mk: "makeShared v s = (Inr (Suc (brk s)), s')" by (simp add: makeShared_run s'_def)
  have l': "cells s' c = Some (VList vec)" using l c by (simp add: s'_def)
  have "insert_helper c (Suc (brk s)) i s' =
     (Inr (), s'\<lparr>objs := (objs s')(brk s' \<mapsto> brk s), brk := Suc (brk s'),
        cells := (cells s')(c \<mapsto> VList (take (nat i) vec @ [Some (brk s')] @ drop (nat i) vec))\<rparr>)"
    using insert_helper_run [OF l', of i "Suc (brk s)" "brk s" "int (length vec)"] len i
    by (simp add: isInt_def INT_MIN_def INT_MAX_def s'_def)
  with mk l c show ?thesis
    by (simp add: insert_at_def andThen_def run_simps s'_def)
qed

text \<open>
  C30: Inserting a value at an index within the list and reading that index returns a variable that holds
  the value; the items before keep their place and the items after move by one.
\<close>

theorem insert_then_get:
  assumes "wfStore s" and "cells s c = Some (VList vec)" and "int (length vec) < INT_MAX"
    and "0 \<le> i" "i \<le> int (length vec)"
  shows "\<exists>p t. insert_at c v (VInt i) s = (Inr (), t) \<and> get_at c (VInt i) t = (Inr p, t) \<and>
      getVal p t = (Inr v, t) \<and>
      (\<forall>j. 0 \<le> j \<and> j < i \<longrightarrow> get_at c (VInt j) t = (Inr (vec ! nat j), t)) \<and>
      (\<forall>j. i < j \<and> j \<le> int (length vec) \<longrightarrow> get_at c (VInt j) t = (Inr (vec ! (nat j - 1)), t))"
proof -
  from insert_then_value [OF assms] obtain p t
    where ins: "insert_at c v (VInt i) s = (Inr (), t)"
      and t: "cells t c = Some (VList (take (nat i) vec @ [p] @ drop (nat i) vec))"
      and p: "getVal p t = (Inr v, t)" by blast
  have get: "get_at c (VInt j) t = (Inr ((take (nat i) vec @ [p] @ drop (nat i) vec) ! nat j), t)"
    if "0 \<le> j" "j \<le> int (length vec)" for j
    using get_at_run [OF t, of j] assms(3-5) that by (simp add: isInt_def INT_MIN_def INT_MAX_def)
  have nth: "(take (nat i) vec @ [p] @ drop (nat i) vec) ! nat j =
      (if j < i then vec ! nat j else if j = i then p else vec ! (nat j - 1))"
    if "0 \<le> j" "j \<le> int (length vec)" for j
    using assms(4,5) that by (auto simp: nth_append nth_Cons' nat_less_iff)
  show ?thesis
    using ins p get nth assms(4,5) by (intro exI [of _ p] exI [of _ t]) auto
qed

theorem insert_then_get_witness:
  "\<exists>p t. insert_at 2 (VInt 9) (VInt 1) sampleStore = (Inr (), t) \<and> get_at 2 (VInt 1) t = (Inr p, t) \<and>
      getVal p t = (Inr (VInt 9), t) \<and>
      (\<forall>j. 0 \<le> j \<and> j < 1 \<longrightarrow> get_at 2 (VInt j) t = (Inr ([Some 10, Some 11] ! nat j), t)) \<and>
      (\<forall>j. 1 < j \<and> j \<le> int (length [Some 10, Some (11::nat)]) \<longrightarrow>
        get_at 2 (VInt j) t = (Inr ([Some 10, Some 11] ! (nat j - 1)), t))"
  by (rule insert_then_get [OF sample_wf]) (simp_all add: INT_MAX_def)

text \<open>
  A negative index counts from the end: for each index from -length to -1, reading, inserting and
  removing do exactly what they do at the index plus the length.
\<close>

theorem negative_index_counts_from_end:
  assumes "cells s c = Some (VList vec)" "int (length vec) \<le> INT_MAX"
    and "- int (length vec) \<le> i" "i < 0" and "objs s a = Some d"
  shows "get_at c (VInt i) s = get_at c (VInt (int (length vec) + i)) s \<and>
    remove_at c (VInt i) s = remove_at c (VInt (int (length vec) + i)) s \<and>
    insert_at_var c a (VInt i) s = insert_at_var c a (VInt (int (length vec) + i)) s"
proof -
  let ?n = "int (length vec)"
  have i: "isInt i" "i \<noteq> INT_MIN" "isInt (?n + i)" "?n + i \<noteq> INT_MIN"
    using assms(2-4) by (auto simp: isInt_def INT_MIN_def INT_MAX_def)
  note get = get_at_run [OF assms(1,2)] and del = remove_at_run [OF assms(1,2)]
    and ins = insert_helper_run [OF assms(1,2) _ _ assms(5) refl]
  have "insert_helper c a i s = insert_helper c a (?n + i) s"
    unfolding ins [OF i(1,2)] ins [OF i(3,4)] using assms(3,4) by simp
  moreover have "get_at c (VInt i) s = get_at c (VInt (?n + i)) s"
    unfolding get [OF i(1,2)] get [OF i(3,4)] using assms(3,4) by simp
  moreover have "remove_at c (VInt i) s = remove_at c (VInt (?n + i)) s"
    unfolding del [OF i(1,2)] del [OF i(3,4)] using assms(3,4) by (simp add: Let_def)
  ultimately show ?thesis
    using assms(1) by (simp add: insert_at_var_def andThen_def run_simps)
qed

theorem negative_index_counts_from_end_witness:
  "get_at 2 (VInt (-1)) sampleStore = get_at 2 (VInt (int (length [Some 10, Some (11::nat)]) + - 1)) sampleStore \<and>
   remove_at 2 (VInt (-1)) sampleStore = remove_at 2 (VInt (int (length [Some 10, Some (11::nat)]) + - 1)) sampleStore \<and>
   insert_at_var 2 10 (VInt (-1)) sampleStore =
     insert_at_var 2 10 (VInt (int (length [Some 10, Some (11::nat)]) + - 1)) sampleStore"
  by (rule negative_index_counts_from_end [of _ _ _ _ _ 0]) (simp_all add: INT_MAX_def)

text \<open>
  Outside the list the three operations disagree. At the index that is the length, reading throws
  \<open>out_of_range\<close>, inserting appends and removing erases the end iterator. Beyond it, reading returns
  \<open>nullptr\<close>, removing does nothing and inserting throws. Below minus the length an insertion throws
  only when twice the length is passed; before that the guard lets it through to an iterator
  outside the list.
\<close>

theorem index_out_of_list:
  assumes "cells s c = Some (VList vec)" "int (length vec) < INT_MAX" "objs s a = Some d"
    and "n = int (length vec)" "isInt i" "i \<noteq> INT_MIN"
  shows "(i = n \<longrightarrow> get_at c (VInt i) s = (Inl (OutOfRange None), s) \<and>
                  remove_at c (VInt i) s = (Inl UB, s) \<and>
                  (\<exists>t p. insert_at_var c a (VInt i) s = (Inr (), t) \<and> cells t c = Some (VList (vec @ [p])) \<and>
                     objs t (the p) = Some d)) \<and>
    (n < \<bar>i\<bar> \<longrightarrow> get_at c (VInt i) s = (Inr None, s) \<and> remove_at c (VInt i) s = (Inr (), s)) \<and>
    (n < i \<or> i < - 2 * n \<longrightarrow> (\<exists>msg. insert_at_var c a (VInt i) s = (Inl (OutOfRange (Some msg)), s))) \<and>
    (- 2 * n \<le> i \<and> i < - n \<longrightarrow> insert_at_var c a (VInt i) s = (Inl UB, s))"
proof -
  have len: "int (length vec) \<le> INT_MAX" using assms(2) by simp
  have ins: "insert_at_var c a (VInt i) s = insert_helper c a i s"
    using assms(1) by (simp add: insert_at_var_def andThen_def run_simps)
  note get = get_at_run [OF assms(1) len assms(5,6)] and del = remove_at_run [OF assms(1) len assms(5,6)]
    and inr = insert_helper_run [OF assms(1) len assms(5,6,3,4)]
  show ?thesis
    unfolding ins get del inr Let_def using assms(4) by (auto simp: Let_def)
qed

theorem index_out_of_list_witness:
  "get_at 2 (VInt 2) sampleStore = (Inl (OutOfRange None), sampleStore) \<and>
   remove_at 2 (VInt 2) sampleStore = (Inl UB, sampleStore) \<and>
   (\<exists>t p. insert_at_var 2 10 (VInt 2) sampleStore = (Inr (), t) \<and>
      cells t 2 = Some (VList ([Some 10, Some 11] @ [p])) \<and> objs t (the p) = Some 0)"
  by (rule conjunct1 [OF index_out_of_list [of sampleStore 2 "[Some 10, Some 11]" 10 0 2 2], THEN mp])
    (simp_all add: INT_MAX_def INT_MIN_def isInt_def)

text \<open>
  \<open>ListObjUtils::remove\<close> throws on every list although it has done its work: a count within the
  length deletes that many items from the front, a larger one deletes none, and both end in
  \<open>BadVariableArgException\<close>; only a negative count returns, and changes nothing.
\<close>

theorem remove_throws_after_erasing:
  assumes "cells s c = Some (VList vec)" "int (length vec) \<le> INT_MAX" "isInt k"
  shows "remove c (VInt k) s =
    (if k < 0 then (Inr (), s)
     else (Inl (BadVariableArg ''expected listObj, int''),
           if k \<le> int (length vec) then s\<lparr>cells := (cells s)(c \<mapsto> VList (drop (nat k) vec))\<rparr> else s))"
proof (cases "k < 0")
  case False
  with assms(3) have "toUnsigned k = k" by (intro toUnsigned_id) (auto simp: isInt_def INT_MAX_def)
  with False assms(1) show ?thesis by (simp add: remove_def andThen_def run_simps)
qed (use assms(1) in \<open>simp add: remove_def andThen_def run_simps\<close>)

theorem remove_throws_after_erasing_witness:
  "remove 2 (VInt 1) sampleStore =
    (if (1::int) < 0 then (Inr (), sampleStore)
     else (Inl (BadVariableArg ''expected listObj, int''),
           if (1::int) \<le> int (length [Some 10, Some (11::nat)])
           then sampleStore\<lparr>cells := (cells sampleStore)(2 \<mapsto> VList (drop (nat 1) [Some 10, Some 11]))\<rparr>
           else sampleStore))"
  by (rule remove_throws_after_erasing) (simp_all add: INT_MAX_def INT_MIN_def isInt_def)

section \<open>Comparison, membership, printing\<close>

text \<open>The rank of the sample store: the list above its items.\<close>

definition sampleRank :: "addr \<Rightarrow> nat" where
  "sampleRank c = (if c = 2 then 1 else 0)"

lemma sample_ranked: "ranked sampleStore sampleRank" "noNullItems sampleStore"
  by (auto simp: ranked_def noNullItems_def sampleStore_def sampleRank_def split: if_splits)

lemma compare_lists_first: "compare (Suc n) (VList l1) (VList l2) s = compare (Suc n) (VList l1) (VList l1) s"
  by simp

text \<open>
  Two lists always compare equal: \<open>compare\<close> takes both ranges from its first argument, so on every
  store without cyclic lists it returns true whatever the second list is.
\<close>

theorem lists_always_equal:
  assumes "wfStore s" "noNullItems s" "ranked s r" "cells s c = Some (VList l1)" "r c < n"
  shows "compare n (VList l1) (VList l2) s = (Inr True, s)"
proof -
  from assms(5) obtain m where n: "n = Suc m" by (cases n) auto
  from compare_self_returns [OF assms(1-5), of "VList l1"] obtain b
    where b: "compare n (VList l1) (VList l1) s = (Inr b, s)" by auto
  with compare_self_not_False [of n "VList l1" s] have "b" by (cases b) auto
  with b compare_lists_first [of m l1 l2 s] show ?thesis by (simp add: n del: compare.simps)
qed

theorem lists_always_equal_witness:
  "compare 2 (VList [Some 10, Some 11]) (VList []) sampleStore = (Inr True, sampleStore)"
  by (rule lists_always_equal [OF sample_wf sample_ranked(2,1), of 2]) (simp_all add: sampleRank_def)

lemma printValue_fuel_add:
  "printValue n pf v delim s = (Inr out, t) \<Longrightarrow> printValue (n + k) pf v delim s = (Inr out, t)"
  by (induction k) (auto simp del: printValue.simps dest: printValue_fuel_mono)

text \<open>
  C31: On every store without cyclic lists and without null pointers in lists \<open>printValue\<close> returns, reads only, and its text does not
  depend on the fuel once that exceeds the nesting depth of the value.
\<close>

theorem print_returns:
  assumes "wfStore s" "noNullItems s" "ranked s r" "cells s c = Some v"
  shows "\<exists>out. \<forall>n. r c < n \<longrightarrow> printValue n pf v delim s = (Inr out, s)"
proof -
  from printValue_returns [OF assms, of "Suc (r c)"] obtain out
    where out: "printValue (Suc (r c)) pf v delim s = (Inr out, s)" by auto
  have "printValue n pf v delim s = (Inr out, s)" if "r c < n" for n
    using printValue_fuel_add [OF out, of "n - Suc (r c)"] that by (simp del: printValue.simps)
  then show ?thesis by blast
qed

theorem print_returns_witness:
  "\<exists>out. \<forall>n. sampleRank 2 < n \<longrightarrow>
     printValue n plainPlatform (VList [Some 10, Some 11]) '''' sampleStore = (Inr out, sampleStore)"
  by (rule print_returns [OF sample_wf sample_ranked(2,1)]) simp

lemma print_cycle:
  assumes "cells s c = Some (VList (Some a # l))" "objs s a = Some c"
  shows "printValue n pf (VList (Some a # l)) delim s = (Inl OutOfFuel, s)"
proof (induction n arbitrary: delim)
  case (Suc n)
  then show ?case
    unfolding printValue_list using assms by (simp add: andThen_def run_simps del: printValue.simps)
qed (simp add: run_simps)

text \<open>
  C32: A list variable can be put into itself: \<open>set(0, v)\<close> on the list \<open>v\<close> succeeds and stores the very
  object, after which printing the variable never returns, for no amount of fuel.
\<close>

theorem self_insertion_never_prints:
  assumes "objs s a = Some c" "cells s c = Some (VList (p # l))"
  shows "\<exists>t. varSetVar a (VInt 0) a s = (Inr (), t) \<and> cells t c = Some (VList (Some a # l)) \<and>
    (\<forall>n. fst (varPrint n pf a t) = Inl OutOfFuel)"
proof -
  let ?t = "s\<lparr>cells := (cells s)(c \<mapsto> VList (Some a # l))\<rparr>"
  have "varSetVar a (VInt 0) a s = (Inr (), ?t)"
    using assms by (simp add: varSetVar_def setValueVar_def andThen_def run_simps toSize_id)
  moreover have "varPrint n pf a ?t = (Inl OutOfFuel, ?t)" for n
  proof -
    have "printValue n pf (VList (Some a # l)) '''' ?t = (Inl OutOfFuel, ?t)"
      using assms(1) by (intro print_cycle [of ?t c]) simp_all
    with assms(1) show ?thesis by (simp add: varPrint_def varGet_def andThen_def run_simps)
  qed
  ultimately show ?thesis by (intro exI [of _ ?t]) simp
qed

theorem self_insertion_never_prints_witness:
  "\<exists>t. varSetVar 12 (VInt 0) 12 sampleStore = (Inr (), t) \<and> cells t 2 = Some (VList (Some 12 # [Some 11])) \<and>
    (\<forall>n. fst (varPrint n plainPlatform 12 t) = Inl OutOfFuel)"
  by (rule self_insertion_never_prints) simp_all

text \<open>What \<open>dropWhile\<close> leaves: the first item that is the key or of another kind.\<close>

lemma dropWhile_key:
  "dropWhile (\<lambda>v. getType v = getType key \<and> v \<noteq> key) vs = [] \<longleftrightarrow>
     (\<forall>v \<in> set vs. getType v = getType key) \<and> key \<notin> set vs"
  by (auto simp: dropWhile_eq_Nil_conv)

lemma dropWhile_hit:
  "(\<exists>zs. dropWhile (\<lambda>v. getType v = getType key \<and> v \<noteq> key) vs = key # zs) \<longleftrightarrow>
     (\<exists>ys zs. vs = ys @ key # zs \<and> (\<forall>v \<in> set ys. getType v = getType key))"
proof (induction vs)
  case (Cons v vs)
  show ?case
  proof (cases "v = key")
    case True
    then show ?thesis by (auto intro: exI [of _ "[]"])
  next
    case False
    have "(\<exists>ys zs. v # vs = ys @ key # zs \<and> (\<forall>v \<in> set ys. getType v = getType key)) \<longleftrightarrow>
        getType v = getType key \<and> (\<exists>ys zs. vs = ys @ key # zs \<and> (\<forall>v \<in> set ys. getType v = getType key))"
      (is "?L \<longleftrightarrow> ?R")
    proof
      assume ?L
      with False show ?R by (fastforce simp: Cons_eq_append_conv)
    next
      assume ?R
      then obtain ys zs where "getType v = getType key" "vs = ys @ key # zs" "\<forall>v \<in> set ys. getType v = getType key"
        by blast
      then show ?L by (intro exI [of _ "v # ys"] exI [of _ zs]) simp
    qed
    with False Cons.IH show ?thesis by auto
  qed
qed simp

text \<open>
  Membership of a number or text in a list: true exactly when the key occurs before any item of
  another kind, false exactly when all items are of the key's kind and none is the key; in the remaining
  case, an item of another kind comes first and the call throws. The list is not changed.
\<close>

theorem contains_iff:
  assumes "cells s c = Some (VList items)" "map (\<lambda>p. getVal p s) items = map (\<lambda>v. (Inr v, s)) vs"
    and "getType key = INT' \<or> getType key = STRING"
  shows "snd (contains c key s) = s \<and>
    (fst (contains c key s) = Inr True \<longleftrightarrow>
       (\<exists>ys zs. vs = ys @ key # zs \<and> (\<forall>v \<in> set ys. getType v = getType key))) \<and>
    (fst (contains c key s) = Inr False \<longleftrightarrow> (\<forall>v \<in> set vs. getType v = getType key) \<and> key \<notin> set vs)"
proof -
  have k: "getList key = None" using assms(3) by (cases key) auto
  have "contains c key s = anyEqual items key s"
    using assms(1,3) by (cases key) (simp_all add: contains_def andThen_def run_simps)
  then show ?thesis
    unfolding anyEqual_run [OF assms(2) k] dropWhile_key [symmetric] dropWhile_hit [symmetric]
    by (cases "dropWhile (\<lambda>v. getType v = getType key \<and> v \<noteq> key) vs") (auto simp del: dropWhile_eq_Nil_conv)
qed

theorem contains_iff_witness:
  "snd (contains 2 (VInt 7) sampleStore) = sampleStore \<and>
    (fst (contains 2 (VInt 7) sampleStore) = Inr True \<longleftrightarrow>
       (\<exists>ys zs. [VInt 7, VString ''b''] = ys @ VInt 7 # zs \<and> (\<forall>v \<in> set ys. getType v = getType (VInt 7)))) \<and>
    (fst (contains 2 (VInt 7) sampleStore) = Inr False \<longleftrightarrow>
       (\<forall>v \<in> set [VInt 7, VString ''b'']. getType v = getType (VInt 7)) \<and> VInt 7 \<notin> set [VInt 7, VString ''b''])"
  by (rule contains_iff [where items = "[Some 10, Some 11]"]) (simp_all add: run_simps)

section \<open>Sharing\<close>

text \<open>
  Storing a variable in a variable map does not copy its value: after \<open>m.set(key, v)\<close> a later
  \<open>v.set(x)\<close> is seen through the map, although the entry is a \<open>Variable\<close> object of its own.
\<close>

theorem map_entry_shares_value:
  assumes "wfStore s" "objs s m = Some c" "cells s c = Some (VVarMap es)"
    and "objs s a = Some d" "cells s d = Some v" "d \<noteq> c" "getType v = getType x"
  shows "\<exists>t p. andThen (varSetVar m (VString key) a) (\<lambda>_. varSet a x) s = (Inr (), t) \<and>
    getVarWithKey c (VString key) t = (Inr (Some p), t) \<and> p \<noteq> a \<and> getVal (Some p) t = (Inr x, t)"
proof -
  have a: "brk s \<noteq> a" using assms(1,4) by (auto simp: wfStore_def)
  have sorted: "sortedMap es" using wfStore_valOk [OF assms(1,3)] by simp
  show ?thesis
    using assms a
    by (intro exI [of _ "s\<lparr>objs := (objs s)(brk s \<mapsto> d), brk := Suc (brk s),
          cells := (cells s)(c \<mapsto> VVarMap (mapPut key (Some (brk s)) es), d \<mapsto> x)\<rparr>"] exI [of _ "brk s"])
      (simp add: varSetVar_def setValueVar_def varSet_def setValue_def getVarWithKey_def
        andThen_def run_simps map_of_mapPut sorted)
qed

theorem map_entry_shares_value_witness:
  "\<exists>t p. andThen (varSetVar 13 (VString ''k'') 10) (\<lambda>_. varSet 10 (VInt 8)) sampleStore = (Inr (), t) \<and>
    getVarWithKey 3 (VString ''k'') t = (Inr (Some p), t) \<and> p \<noteq> 10 \<and> getVal (Some p) t = (Inr (VInt 8), t)"
  by (rule map_entry_shares_value [OF sample_wf, of 13 3 "[]" 10 0 "VInt 7"]) simp_all


end
