(* ===== verification/ControlFlow.thy ===== *)
theory ControlFlow
  imports VariablesSafe VariablesProps
begin

text \<open>
  \<open>src/controlflow.cpp\<close>: the list functions of the rule language (\<open>getElements\<close>, \<open>collect\<close>,
  \<open>contains\<close>, \<open>upFrom\<close>) and the logical operators, and that the two that look up a key never return on a list that
  is not empty. A \<open>listObj&\<close> parameter is the vector of
  pointers, a \<open>Variable&\<close> the address of the object; the local result list is a fresh cell.
\<close>

section \<open>The functions\<close>

definition getElements :: "ptr list \<Rightarrow> addr \<Rightarrow> (store, varType) prog" where
  "getElements list key = andThen (newCell (VList [])) (\<lambda>elements.
     andThen (forEach list (\<lambda>map.
        andThen (getRef map) (\<lambda>ref. andThen (varGet key) (\<lambda>k.
        andThen (getWithKey ref k) (\<lambda>candidate. push_back elements (VString candidate))))))
       (\<lambda>_. readCell elements))"

text \<open>
  \<open>collect\<close>: what is pushed is the \<open>shared_ptr<Variable>\<close> itself, which the variant takes as its
  \<open>shared_ptr<void>\<close> alternative. The operands of \<open>==\<close> are evaluated from left to right here; C++
  leaves their order open, which only matters for which of two exceptions is thrown.
\<close>

definition collect :: "ptr list \<Rightarrow> addr \<Rightarrow> addr \<Rightarrow> (store, varType) prog" where
  "collect list key rhs = andThen (varGet rhs) (\<lambda>_. andThen (newCell (VList [])) (\<lambda>collected.
     andThen (forEach list (\<lambda>map.
        andThen (getRef map) (\<lambda>ref. andThen (varGet key) (\<lambda>k.
        andThen (getWithKey ref k) (\<lambda>candidate.
        andThen (varGet rhs) (\<lambda>r. andThen (fromOption BadVariantAccess (getString r)) (\<lambda>wanted.
          if candidate = wanted then push_back collected (VPointer map) else ok ())))))))
       (\<lambda>_. readCell collected)))"

text \<open>\<open>contains\<close> compares with the variant's own \<open>==\<close>, which does not throw on different kinds.\<close>

primrec containsValue :: "ptr list \<Rightarrow> addr \<Rightarrow> (store, bool) prog" where
  "containsValue [] value = ok False"
| "containsValue (item # list) value =
     andThen (getVal item) (\<lambda>v. andThen (varGet value) (\<lambda>w.
       if v = w then ok True else containsValue list value))"

definition upFrom :: "int \<Rightarrow> int \<Rightarrow> int \<times> int" where
  "upFrom from to = (from, to)"

definition evalAnd :: "bool \<Rightarrow> bool \<Rightarrow> bool" where "evalAnd s1 s2 = (s1 \<and> s2)"
definition evalOr :: "bool \<Rightarrow> bool \<Rightarrow> bool" where "evalOr s1 s2 = (s1 \<or> s2)"
definition evalNot :: "bool \<Rightarrow> bool" where "evalNot statement = (\<not> statement)"

section \<open>How the loops run\<close>

lemma readOnly_getWithKey [keeps_intros]: "readOnly (getWithKey c k)"
  by (simp add: readOnly_def getWithKey_run split: option.splits)

text \<open>\<open>t\<close> has what \<open>s\<close> has below the first free address of \<open>s\<close>.\<close>

definition agrees :: "store \<Rightarrow> store \<Rightarrow> bool" where
  "agrees s t \<longleftrightarrow> (\<forall>a < brk s. objs t a = objs s a \<and> cells t a = cells s a \<and> strs t a = strs s a) \<and> brk s \<le> brk t"

lemma agrees_refl: "agrees s s"
  by (simp add: agrees_def)

lemma agrees_trans: "agrees s t \<Longrightarrow> agrees t u \<Longrightarrow> agrees s u"
  unfolding agrees_def by (metis order_less_le_trans order_trans)

lemma agrees_brk: "agrees s t \<Longrightarrow> a < brk s \<Longrightarrow> a < brk t \<and> objs t a = objs s a \<and> cells t a = cells s a"
  by (auto simp: agrees_def)

lemma wfStore_below:
  assumes "wfStore s"
  shows "objs s a = Some c \<Longrightarrow> a < brk s" "cells s a = Some v \<Longrightarrow> a < brk s" "strs s a = Some x \<Longrightarrow> a < brk s"
  using assms unfolding wfStore_def by blast+

text \<open>\<open>building t el vs\<close>: the cell \<open>el\<close> is a list whose items are variables with the values \<open>vs\<close>.\<close>

definition holdsVal :: "store \<Rightarrow> addr \<Rightarrow> ptr \<Rightarrow> varType \<Rightarrow> bool" where
  "holdsVal t el p v \<longleftrightarrow> (\<exists>a c. p = Some a \<and> a < brk t \<and> c < brk t \<and> objs t a = Some c \<and>
     cells t c = Some v \<and> c \<noteq> el)"

definition building :: "store \<Rightarrow> addr \<Rightarrow> varType list \<Rightarrow> bool" where
  "building t el vs \<longleftrightarrow> el < brk t \<and> (\<exists>ps. cells t el = Some (VList ps) \<and> list_all2 (holdsVal t el) ps vs)"

lemma building_push:
  assumes "building t el vs"
  shows "\<exists>t'. push_back el v t = (Inr (), t') \<and> building t' el (vs @ [v]) \<and>
    (\<forall>s. agrees s t \<longrightarrow> brk s \<le> el \<longrightarrow> agrees s t') \<and>
    (\<forall>p w. holdsVal t el p w \<longrightarrow> holdsVal t' el p w) \<and> (\<forall>a < brk t. objs t' a = objs t a) \<and> brk t \<le> brk t'"
proof -
  from assms obtain ps where el: "el < brk t" and ps: "cells t el = Some (VList ps)"
    and h: "list_all2 (holdsVal t el) ps vs" by (auto simp: building_def)
  let ?t = "t\<lparr>objs := (objs t)(Suc (brk t) \<mapsto> brk t),
     cells := (cells t)(brk t \<mapsto> v, el \<mapsto> VList (ps @ [Some (Suc (brk t))])), brk := Suc (Suc (brk t))\<rparr>"
  have run: "push_back el v t = (Inr (), ?t)"
    using ps el by (simp add: push_back_def andThen_def run_simps)
  have mono: "holdsVal ?t el p w" if "holdsVal t el p w" for p w
    using that unfolding holdsVal_def by (elim exE conjE) (auto simp: less_Suc_eq)
  from h mono have "list_all2 (holdsVal ?t el) ps vs" by (rule list_all2_mono)
  moreover have "holdsVal ?t el (Some (Suc (brk t))) v"
    using el by (simp add: holdsVal_def)
  ultimately have "building ?t el (vs @ [v])"
    using el by (auto simp: building_def list_all2_appendI)
  moreover have "agrees s ?t" if "agrees s t" "brk s \<le> el" for s
    using that el by (auto simp: agrees_def)
  moreover have "\<forall>a < brk t. objs ?t a = objs t a" "brk t \<le> brk ?t" by simp_all
  ultimately show ?thesis using run mono by blast
qed

text \<open>A loop whose body pushes \<open>g p\<close> (none, one or more values) for each item \<open>p\<close>.\<close>

lemma building_forEach:
  assumes "\<And>p t ws. p \<in> set list \<Longrightarrow> agrees s t \<Longrightarrow> building t el ws \<Longrightarrow>
      \<exists>t'. f p t = (Inr (), t') \<and> building t' el (ws @ g p) \<and> agrees s t'"
  shows "agrees s t \<Longrightarrow> building t el ws \<Longrightarrow>
      \<exists>t'. forEach list f t = (Inr (), t') \<and> building t' el (ws @ concat (map g list)) \<and> agrees s t'"
  using assms
proof (induction list arbitrary: t ws)
  case (Cons p list)
  from Cons.prems(3) [of p t ws] Cons.prems(1,2) obtain u
    where u: "f p t = (Inr (), u)" "building u el (ws @ g p)" "agrees s u" by auto
  from Cons.IH [OF u(3,2)] Cons.prems(3) show ?case
    by (auto simp: andThen_def u(1))
qed (simp add: run_simps)

text \<open>The values of a list: what its items hold.\<close>

definition listOf :: "store \<Rightarrow> varType \<Rightarrow> varType list \<Rightarrow> bool" where
  "listOf t v vs \<longleftrightarrow> (\<exists>ps. v = VList ps \<and> list_all2 (\<lambda>p w. getVal p t = (Inr w, t)) ps vs)"

lemma building_listOf:
  assumes "building t el vs"
  shows "\<exists>v. readCell el t = (Inr v, t) \<and> listOf t v vs"
proof -
  from assms obtain ps where ps: "cells t el = Some (VList ps)" "list_all2 (holdsVal t el) ps vs"
    by (auto simp: building_def)
  have "getVal p t = (Inr w, t)" if "holdsVal t el p w" for p w
    using that by (auto simp: holdsVal_def run_simps)
  with ps(2) have "list_all2 (\<lambda>p w. getVal p t = (Inr w, t)) ps vs" by (rule list_all2_mono)
  with ps(1) show ?thesis by (auto simp: listOf_def run_simps)
qed

section \<open>Properties\<close>

text \<open>A store with two player maps: variables 20 and 21 with scores 0 and 2; 22 is the key, 23 the number wanted.\<close>

definition playerStore :: store where
  "playerStore = \<lparr>objs = [20 \<mapsto> 0, 21 \<mapsto> 1, 22 \<mapsto> 2, 23 \<mapsto> 3],
     cells = [0 \<mapsto> VMap [(''score'', Some 10)], 1 \<mapsto> VMap [(''score'', Some 11)],
              2 \<mapsto> VString ''score'', 3 \<mapsto> VString ''2''],
     strs = [10 \<mapsto> ''0'', 11 \<mapsto> ''2''], brk = 24\<rparr>"

lemma player_wf: "wfStore playerStore"
  by (auto simp: wfStore_def playerStore_def strOk_def sortedMap_def split: if_splits)

lemma varGet_agrees:
  "wfStore s \<Longrightarrow> agrees s t \<Longrightarrow> varGet a s = (Inr v, s) \<Longrightarrow> varGet a t = (Inr v, t)"
  using wfStore_below [of s]
  by (auto simp: varGet_def andThen_def run_simps agrees_def split: option.splits)

lemma forEach_head_error: "f x t = (Inl e, u) \<Longrightarrow> forEach (x # xs) f t = (Inl e, u)"
  by (simp add: andThen_def)

lemma loop_head_error: "\<exists>t. f x u = (Inl e, t) \<Longrightarrow> fst (andThen (forEach (x # xs) f) g u) = Inl e"
  using forEach_head_error [of f x u e] by (auto simp: andThen_def [of "forEach ys f" for ys f] simp del: forEach.simps)

text \<open>The lookup in the first item of a list, which never returns, once the result list is allocated.\<close>

lemma first_lookup:
  assumes "wfStore s" "varGet key s = (Inr k, s)" "u = s\<lparr>cells := (cells s)(brk s \<mapsto> VList []), brk := Suc (brk s)\<rparr>"
  shows "\<exists>t. andThen (getRef p) (\<lambda>ref. andThen (varGet key) (\<lambda>k. andThen (getWithKey ref k) f)) u =
    (Inl (if \<exists>v. getVal p s = (Inr v, s) \<and> \<not> (getType v = MAP \<and> getType k = STRING)
          then BadVariableArg ''Expected mapType, string'' else UB), t)"
proof -
  have u: "agrees s u" using assms(3) by (simp add: agrees_def)
  have key: "varGet key u = (Inr k, u)" by (rule varGet_agrees [OF assms(1) u assms(2)])
  have cell: "c \<noteq> brk s \<and> (\<exists>v. cells s c = Some v)" if "objs s a = Some c" for a c
    using wfStore_objs [OF assms(1) that] wfStore_fresh(2) [OF assms(1)] by auto
  have same: "objs u = objs s" "c \<noteq> brk s \<Longrightarrow> cells u c = cells s c" for c
    using assms(3) by simp_all
  show ?thesis
  proof (cases "Option.bind p (objs s)")
    case None
    then show ?thesis by (auto simp: andThen_def run_simps same split: option.splits)
  next
    case (Some c)
    then obtain a where a: "p = Some a" "objs s a = Some c" by (auto simp: bind_eq_Some_conv)
    with cell obtain v where "c \<noteq> brk s" "cells s c = Some v" by blast
    with a same key show ?thesis by (simp add: andThen_def run_simps getWithKey_run)
  qed
qed

text \<open>
  C33: Neither \<open>getElements\<close> nor \<open>collect\<close> returns anything but the empty list for the empty list: on any other list the
  lookup in its first item ends the call. If this item is a variable that holds a map and the key is a text, which is what
  both are for, the behaviour is undefined, whether or not the map has the key; if it holds something else, or the key
  is no text, \<open>BadVariableArgException\<close> is thrown.
\<close>

theorem lookup_never_returns:
  assumes "wfStore s" "varGet key s = (Inr k, s)" "varGet rhs s = (Inr (VString w), s)"
  shows "(list = [] \<longrightarrow> fst (getElements list key s) = Inr (VList []) \<and> fst (collect list key rhs s) = Inr (VList [])) \<and>
    (\<forall>p ps v. list = p # ps \<longrightarrow> getVal p s = (Inr v, s) \<longrightarrow> getType v = MAP \<longrightarrow> getType k = STRING \<longrightarrow>
       fst (getElements list key s) = Inl UB \<and> fst (collect list key rhs s) = Inl UB) \<and>
    (\<forall>p ps v. list = p # ps \<longrightarrow> getVal p s = (Inr v, s) \<longrightarrow> getType v \<noteq> MAP \<or> getType k \<noteq> STRING \<longrightarrow>
       fst (getElements list key s) = Inl (BadVariableArg ''Expected mapType, string'') \<and>
       fst (collect list key rhs s) = Inl (BadVariableArg ''Expected mapType, string''))"
proof (cases list)
  case Nil
  then show ?thesis
    using assms(3) by (simp add: getElements_def collect_def andThen_def run_simps)
next
  case (Cons p ps)
  let ?e = "if \<exists>v. getVal p s = (Inr v, s) \<and> \<not> (getType v = MAP \<and> getType k = STRING)
          then BadVariableArg ''Expected mapType, string'' else UB"
  note first = first_lookup [OF assms(1,2) refl, of p]
  have "fst (getElements list key s) = Inl ?e"
    unfolding getElements_def Cons andThen_ok [of "newCell v" for v, OF newCell_run] by (rule loop_head_error, rule first)
  moreover have "fst (collect list key rhs s) = Inl ?e"
    unfolding collect_def Cons andThen_ok [of "varGet rhs", OF assms(3)] andThen_ok [of "newCell v" for v, OF newCell_run]
    by (rule loop_head_error, rule first)
  ultimately show ?thesis using Cons by auto
qed

theorem lookup_never_returns_witness:
  "fst (getElements [Some 20, Some 21] 22 playerStore) = Inl UB \<and> fst (collect [Some 20, Some 21] 22 23 playerStore) = Inl UB"
proof -
  have vals: "varGet 22 playerStore = (Inr (VString ''score''), playerStore)"
    "varGet 23 playerStore = (Inr (VString ''2''), playerStore)"
    "getVal (Some 20) playerStore = (Inr (VMap [(''score'', Some 10)]), playerStore)"
    by (simp_all add: playerStore_def varGet_def andThen_def run_simps)
  from lookup_never_returns [OF player_wf vals(1,2), of "[Some 20, Some 21]"] vals(3) show ?thesis by simp
qed

lemma readOnly_varGet [keeps_intros]: "readOnly (varGet a)"
  unfolding varGet_def by (intro keeps_intros)

lemma safe_read: "wfStore s \<Longrightarrow> readOnly m \<Longrightarrow> safe s m (\<lambda>_ _. True)"
  by (rule safe_readOnly) auto

lemma safe_readThen:
  "wfStore s \<Longrightarrow> readOnly m \<Longrightarrow> (\<And>x t. wfStore t \<Longrightarrow> safe t (f x) Q) \<Longrightarrow> safe s (andThen m f) Q"
  by (rule safe_andThen [OF safe_read]) auto

lemma safe_readBack: "wfStore s \<Longrightarrow> safe s (readCell c) (\<lambda>v t. valOk t v)"
  by (rule safe_weaken [OF safe_readCell]) auto

lemma safe_getElements: "wfStore s \<Longrightarrow> safe s (getElements list key) (\<lambda>v t. valOk t v)"
  unfolding getElements_def
  by (rule safe_andThen [OF safe_newCell] safe_andThen [OF safe_forEach] safe_readBack safe_readThen
      keeps_intros safe_push_back | simp)+

lemma safe_collect: "wfStore s \<Longrightarrow> safe s (collect list key rhs) (\<lambda>v t. valOk t v)"
  unfolding collect_def
  by (rule safe_readThen safe_andThen [OF safe_newCell] safe_andThen [OF safe_forEach] safe_readBack
      keeps_intros safe_if safe_push_back safe_ok | simp)+

lemma containsValue_run:
  assumes "map (\<lambda>p. getVal p s) items = map (\<lambda>v. (Inr v, s)) vs" "varGet value s = (Inr w, s)"
  shows "containsValue items value s = (Inr (w \<in> set vs), s)"
  using assms
proof (induction items arbitrary: vs)
  case (Cons p items)
  then obtain v vs' where "vs = v # vs'" by (cases vs) auto
  with Cons show ?case by (auto simp: andThen_def run_simps)
qed (simp add: run_simps)


end
