(* ===== verification/RuleTree.thy ===== *)
theory RuleTree
  imports Prelude
begin

text \<open>
  The rule tree (\<open>src/include/RuleInterpreter.h\<close>): rule nodes, their links and their children. The
  nodes refer to each other by \<open>shared_ptr\<close> and \<open>weak_ptr\<close>, so they live in a memory of nodes; a pointer
  is an address or \<open>None\<close>. \<open>RuleNode\<close> has two subclasses, told apart by \<open>control\<close>.
\<close>

section \<open>Nodes\<close>

type_synonym nodePtr = "nat option"

datatype NodeType = FOR | PARALLEL | MATCH | EXTEND | DISCARD | SHUFFLE | SORT | DEAL
  | INPUT_CHOICE | MESSAGE | SCORES | ASSIGNMENT | REVERSE

record ChildNode =
  key :: "string list"
  child :: nodePtr

record RuleNode =
  control :: bool             \<comment> \<open>\<open>ControlFlowRuleNode\<close> or \<open>TaskRuleNode\<close>\<close>
  data :: "string list list"  \<comment> \<open>\<open>list\<close> of the source\<close>
  nodeType :: NodeType
  nextNode :: nodePtr
  parentNode :: nodePtr       \<comment> \<open>a \<open>weak_ptr\<close>\<close>
  children :: "ChildNode list" \<comment> \<open>empty for a task\<close>

type_synonym ruleMem = "nat \<Rightarrow> RuleNode option"

record ruleHeap =
  nodes :: ruleMem
  nextId :: nat

definition newTaskRuleNode :: "string list list \<Rightarrow> NodeType \<Rightarrow> (ruleHeap, nat) prog" where
  "newTaskRuleNode list type = (\<lambda>h. (Inr (nextId h),
     h\<lparr>nodes := (nodes h)(nextId h \<mapsto> \<lparr>control = False, data = list, nodeType = type, nextNode = None,
         parentNode = None, children = []\<rparr>), nextId := Suc (nextId h)\<rparr>))"

definition newControlFlowRuleNode :: "string list list \<Rightarrow> NodeType \<Rightarrow> (ruleHeap, nat) prog" where
  "newControlFlowRuleNode list type = (\<lambda>h. (Inr (nextId h),
     h\<lparr>nodes := (nodes h)(nextId h \<mapsto> \<lparr>control = True, data = list, nodeType = type, nextNode = None,
         parentNode = None, children = []\<rparr>), nextId := Suc (nextId h)\<rparr>))"

definition updateNode :: "nat \<Rightarrow> (RuleNode \<Rightarrow> RuleNode) \<Rightarrow> (ruleHeap, unit) prog" where
  "updateNode a f = (\<lambda>h. case nodes h a of
      None \<Rightarrow> (Inl UB, h)
    | Some n \<Rightarrow> (Inr (), h\<lparr>nodes := (nodes h)(a \<mapsto> f n)\<rparr>))"

definition setNextNode :: "nat \<Rightarrow> nodePtr \<Rightarrow> (ruleHeap, unit) prog" where
  "setNextNode this p = updateNode this (\<lambda>n. n\<lparr>nextNode := p\<rparr>)"

definition setParentNode :: "nat \<Rightarrow> nodePtr \<Rightarrow> (ruleHeap, unit) prog" where
  "setParentNode this p = updateNode this (\<lambda>n. n\<lparr>parentNode := p\<rparr>)"

definition setChildren :: "nat \<Rightarrow> string list \<Rightarrow> nodePtr \<Rightarrow> (ruleHeap, unit) prog" where
  "setChildren this guard childNode =
     updateNode this (\<lambda>n. n\<lparr>children := children n @ [\<lparr>key = guard, child = childNode\<rparr>]\<rparr>)"

section \<open>Reading a node\<close>

definition isControlFlow :: "RuleNode \<Rightarrow> bool" where
  "isControlFlow n = control n"

definition getBody :: "RuleNode \<Rightarrow> ChildNode list" where
  "getBody n = (if control n then children n else [])"

text \<open>\<open>getChildWithKey\<close>: the first child with the key; without one \<open>*view.begin()\<close> reads the end of an
  empty view. A task answers with an empty \<open>ChildNode\<close>.\<close>

definition getChildWithKey :: "RuleNode \<Rightarrow> string list \<Rightarrow> cpp_error + ChildNode" where
  "getChildWithKey n k =
     (if control n
      then (case filter (\<lambda>c. key c = k) (children n) of [] \<Rightarrow> Inl UB | c # _ \<Rightarrow> Inr c)
      else Inr \<lparr>key = [], child = None\<rparr>)"

lemma getChildWithKey_find:
  "control n \<Longrightarrow> getChildWithKey n k = (case List.find (\<lambda>c. key c = k) (children n) of None \<Rightarrow> Inl UB | Some c \<Rightarrow> Inr c)"
proof -
  have "(case filter P xs of [] \<Rightarrow> Inl UB | c # _ \<Rightarrow> Inr c) = (case List.find P xs of None \<Rightarrow> Inl UB | Some c \<Rightarrow> Inr c)"
    for P and xs :: "ChildNode list"
    by (induction xs) auto
  then show "control n \<Longrightarrow> ?thesis" by (simp add: getChildWithKey_def)
qed

text \<open>\<open>RuleTree\<close>\<close>

record RuleTree =
  firstNode :: nodePtr

definition getRules :: "RuleTree \<Rightarrow> nodePtr" where
  "getRules t = firstNode t"

end
