(* ===== verification/ProgramLogic.thy ===== *)
theory ProgramLogic
  imports Prelude
begin

text \<open>
  A small logic for programs over any state: an invariant every run keeps, errors included, and a
  preorder every run moves up in (what is allocated stays allocated). A component interprets the locale
  \<open>program_logic\<close> with its own invariant and order and gets the rules that follow the structure of a
  program.
\<close>

definition upholds :: "('s \<Rightarrow> bool) \<Rightarrow> ('s \<Rightarrow> 's \<Rightarrow> bool) \<Rightarrow> 's \<Rightarrow> ('s, 'a) prog \<Rightarrow> ('a \<Rightarrow> 's \<Rightarrow> bool) \<Rightarrow> bool" where
  "upholds I le s m Q \<longleftrightarrow> I (snd (m s)) \<and> le s (snd (m s)) \<and> (\<forall>x. fst (m s) = Inr x \<longrightarrow> Q x (snd (m s)))"

locale program_logic =
  fixes I :: "'s \<Rightarrow> bool" and le :: "'s \<Rightarrow> 's \<Rightarrow> bool"
  assumes le_refl: "le s s"
    and le_trans: "le s t \<Longrightarrow> le t u \<Longrightarrow> le s u"
begin

lemma ok: "I s \<Longrightarrow> Q x s \<Longrightarrow> upholds I le s (ok x) Q"
  by (simp add: upholds_def ok_def le_refl)

lemma raise: "I s \<Longrightarrow> upholds I le s (raise e) Q"
  by (simp add: upholds_def raise_def le_refl)

lemma getState: "I s \<Longrightarrow> Q s s \<Longrightarrow> upholds I le s getState Q"
  by (simp add: upholds_def getState_def le_refl)

lemma modify: "I (f s) \<Longrightarrow> le s (f s) \<Longrightarrow> Q () (f s) \<Longrightarrow> upholds I le s (modify f) Q"
  by (simp add: upholds_def modify_def)

lemma outcome: "upholds I le s m Q \<Longrightarrow> m s = (r, t) \<Longrightarrow> I t \<and> le s t \<and> (\<forall>x. r = Inr x \<longrightarrow> Q x t)"
  by (auto simp: upholds_def)

lemma andThen:
  assumes m: "upholds I le s m R"
    and f: "\<And>x t. I t \<Longrightarrow> le s t \<Longrightarrow> R x t \<Longrightarrow> upholds I le t (f x) Q"
  shows "upholds I le s (andThen m f) Q"
proof (cases "m s")
  case (Pair r t)
  note t = outcome [OF m Pair]
  show ?thesis
  proof (cases r)
    case (Inl e)
    with t Pair show ?thesis by (simp add: upholds_def andThen_def)
  next
    case (Inr x)
    with t have "upholds I le t (f x) Q" by (intro f) auto
    with t Pair Inr show ?thesis by (auto simp: upholds_def andThen_def intro: le_trans)
  qed
qed

lemma weaken: "upholds I le s m R \<Longrightarrow> (\<And>x t. R x t \<Longrightarrow> Q x t) \<Longrightarrow> upholds I le s m Q"
  by (simp add: upholds_def)

lemma drop: "upholds I le s m R \<Longrightarrow> upholds I le s m (\<lambda>_ _. True)"
  by (simp add: upholds_def)

lemma cond: "(c \<Longrightarrow> upholds I le s a Q) \<Longrightarrow> (\<not> c \<Longrightarrow> upholds I le s b Q) \<Longrightarrow> upholds I le s (if c then a else b) Q"
  by simp

lemma fromOption: "I s \<Longrightarrow> (\<And>x. v = Some x \<Longrightarrow> Q x s) \<Longrightarrow> upholds I le s (fromOption e v) Q"
  by (cases v) (simp_all add: run_simps upholds_def le_refl)

lemma fromSum: "I s \<Longrightarrow> (\<And>x. v = Inr x \<Longrightarrow> Q x s) \<Longrightarrow> upholds I le s (fromSum v) Q"
  by (cases v) (simp_all add: run_simps upholds_def le_refl)

lemma readOnly: "I s \<Longrightarrow> readOnly m \<Longrightarrow> (\<And>x. m s = (Inr x, s) \<Longrightarrow> Q x s) \<Longrightarrow> upholds I le s m Q"
  unfolding upholds_def readOnly_def by (metis prod.collapse le_refl)

lemma forEach:
  assumes "I s" "\<And>x t. x \<in> set xs \<Longrightarrow> I t \<Longrightarrow> le s t \<Longrightarrow> upholds I le t (f x) (\<lambda>_ _. True)"
  shows "upholds I le s (forEach xs f) (\<lambda>_ _. True)"
  using assms
proof (induction xs arbitrary: s)
  case (Cons x xs)
  show ?case unfolding forEach.simps
  proof (rule andThen)
    show "upholds I le s (f x) (\<lambda>_ _. True)" using Cons.prems by (simp add: le_refl)
  next
    fix t assume "I t" "le s t"
    then show "upholds I le t (forEach xs f) (\<lambda>_ _. True)"
      using Cons.prems(2) by (intro Cons.IH) (auto intro: le_trans)
  qed
qed (simp add: ok)

end

end
