(* ===== verification/EnvMgr.thy ===== *)
theory EnvMgr
  imports ControlFlow RuleTree ProgramLogic
begin

text \<open>
  The environment of a running game (\<open>lib/variables/EnvironmentMgr.hpp\<close>, \<open>.cpp\<close>): timers, scopes,
  the control flow of a scope, and \<open>EnvironmentManager\<close>. The rule nodes are those of a finished rule
  tree, a read-only memory \<open>rt\<close>. The wall clock is the parameter \<open>now\<close>, in seconds, read once per
  operation. A \<open>Scope*\<close> is a position in the deque of scopes: no operation that takes one adds or removes
  scopes while it is in use.
\<close>

section \<open>State\<close>

datatype TimerType = PAD | STOP | REGUALR

text \<open>\<open>expireTime\<close> has no initialiser and the copy constructor does not set it: \<open>None\<close> until \<open>start\<close>.\<close>

record Timer =
  timerIdOf :: int
  nextRuleNode :: nodePtr
  scopeid :: int
  timerType :: TimerType
  flagName :: string
  duration :: int              \<comment> \<open>\<open>unsigned int\<close>\<close>
  expireTime :: "int option"

record ControlFlow =
  cfNode :: nodePtr
  loopVarName :: string
  range :: ptr                 \<comment> \<open>\<open>shared_ptr<varType>\<close>: the cell\<close>
  exiting :: bool

record Scope =
  variables :: "(string, ptr) smap"
  isParallel :: bool
  timerId :: int
  ctrlFlow :: "ControlFlow option"

record EnvironmentManager =
  scopes :: "Scope list"       \<comment> \<open>a deque, the innermost scope in front\<close>
  timers :: "(int, Timer) smap"

record game =
  mem :: store
  env :: EnvironmentManager

definition onStore :: "(store, 'a) prog \<Rightarrow> (game, 'a) prog" where
  "onStore = zoom mem (\<lambda>s g. g\<lparr>mem := s\<rparr>)"

definition onEnv :: "(EnvironmentManager, 'a) prog \<Rightarrow> (game, 'a) prog" where
  "onEnv = zoom env (\<lambda>e g. g\<lparr>env := e\<rparr>)"

section \<open>Timers\<close>

definition getTime :: "int \<Rightarrow> int \<Rightarrow> int" where
  "getTime now seconds = now + seconds"

definition newTimer :: "int \<Rightarrow> nodePtr \<Rightarrow> int \<Rightarrow> TimerType \<Rightarrow> string \<Rightarrow> Timer" where
  "newTimer anId next aduration aType aflagName =
     \<lparr>timerIdOf = anId, nextRuleNode = next, scopeid = 0, timerType = aType, flagName = aflagName,
      duration = toUnsigned aduration, expireTime = None\<rparr>"

definition copyTimer :: "Timer \<Rightarrow> Timer" where
  "copyTimer other = other\<lparr>scopeid := 0, expireTime := None\<rparr>"

definition hasFlag :: "Timer \<Rightarrow> bool" where
  "hasFlag t = (flagName t \<noteq> '''')"

definition startTimer :: "int \<Rightarrow> Timer \<Rightarrow> Timer" where
  "startTimer now t = t\<lparr>expireTime := Some (getTime now (duration t))\<rparr>"

definition isExpired :: "int \<Rightarrow> Timer \<Rightarrow> cpp_error + bool" where
  "isExpired now t = (case expireTime t of None \<Rightarrow> Inl UB | Some e \<Rightarrow> Inr (e - now < 0))"

section \<open>Scopes\<close>

definition rootScope :: Scope where
  "rootScope = \<lparr>variables = [], isParallel = False, timerId = -1, ctrlFlow = None\<rparr>"

definition scopeSetVariable :: "string \<Rightarrow> ptr \<Rightarrow> Scope \<Rightarrow> Scope" where
  "scopeSetVariable name v sc = sc\<lparr>variables := mapPut name v (variables sc)\<rparr>"

definition scopeGetVariable :: "Scope \<Rightarrow> string \<Rightarrow> ptr" where
  "scopeGetVariable sc name = (case map_of (variables sc) name of None \<Rightarrow> None | Some v \<Rightarrow> v)"

definition scopeHasVar :: "Scope \<Rightarrow> string \<Rightarrow> bool" where
  "scopeHasVar sc name = (map_of (variables sc) name \<noteq> None)"

definition newEnvironment :: EnvironmentManager where
  "newEnvironment = \<lparr>scopes = [rootScope], timers = []\<rparr>"

text \<open>\<open>std::find_if\<close> over the deque: the position of the innermost scope that has the variable.\<close>

primrec findScope :: "Scope list \<Rightarrow> string \<Rightarrow> nat option" where
  "findScope [] name = None"
| "findScope (sc # scs) name = (if scopeHasVar sc name then Some 0 else map_option Suc (findScope scs name))"

definition hasVar :: "string \<Rightarrow> EnvironmentManager \<Rightarrow> nat option" where
  "hasVar name e = findScope (scopes e) name"

definition getVariable :: "string \<Rightarrow> EnvironmentManager \<Rightarrow> ptr" where
  "getVariable name e =
     (case hasVar name e of None \<Rightarrow> None | Some i \<Rightarrow> scopeGetVariable (scopes e ! i) name)"

text \<open>\<open>setVariable\<close>: \<open>mk\<close> is how \<open>Scope::setVariable\<close> turns the value into a \<open>shared_ptr<Variable>\<close>: a new
  variable for a value, a \<open>Variable\<close> that shares the value for a \<open>Variable\<close>, the pointer for a pointer.\<close>

definition setVariable :: "string \<Rightarrow> (store, ptr) prog \<Rightarrow> (game, unit) prog" where
  "setVariable name mk = andThen getState (\<lambda>g.
     if scopes (env g) = [] then ok ()
     else
       let i = (case hasVar name (env g) of None \<Rightarrow> 0 | Some i \<Rightarrow> i) in
       andThen (onStore mk) (\<lambda>p. onEnv (modify (\<lambda>e.
         e\<lparr>scopes := (scopes e)[i := scopeSetVariable name p (scopes e ! i)]\<rparr>))))"

definition fromValue :: "varType \<Rightarrow> (store, ptr) prog" where
  "fromValue v = andThen (makeShared v) (\<lambda>a. ok (Some a))"

definition fromVariable :: "addr \<Rightarrow> (store, ptr) prog" where
  "fromVariable a = andThen (copyVar a) (\<lambda>b. ok (Some b))"

section \<open>The control flow of a scope\<close>

definition nodeOf :: "ruleMem \<Rightarrow> nodePtr \<Rightarrow> ('s, RuleNode) prog" where
  "nodeOf rt p = fromOption UB (Option.bind p rt)"

definition vectorAt :: "'a list \<Rightarrow> nat \<Rightarrow> ('s, 'a) prog" where
  "vectorAt xs i = (if i < length xs then ok (xs ! i) else raise (OutOfRange None))"

text \<open>The constructor: the element's name from the second entry of the node's data, the list's name from
  the third.\<close>

definition newControlFlow :: "ruleMem \<Rightarrow> nodePtr \<Rightarrow> (game, ControlFlow) prog" where
  "newControlFlow rt anode =
     (let start = \<lparr>cfNode = anode, loopVarName = '''', range = None, exiting = True\<rparr> in
      case anode of
        None \<Rightarrow> ok start
      | Some _ \<Rightarrow>
          andThen (nodeOf rt anode) (\<lambda>n.
          if length (data n) < 2 then ok start
          else
            andThen (vectorAt (data n) 1) (\<lambda>element.
            andThen (vectorAt (data n) 2) (\<lambda>list.
            andThen (vectorAt element 0) (\<lambda>name.
            andThen (vectorAt list 1) (\<lambda>listName.
            andThen getState (\<lambda>g.
            andThen (onStore (getRef (getVariable listName (env g)))) (\<lambda>c.
            andThen (onStore (readCell c)) (\<lambda>v.
              ok (start\<lparr>loopVarName := name, range := (if getList v = None then None else Some c)\<rparr>))))))))))"

definition getNext :: "ruleMem \<Rightarrow> ControlFlow \<Rightarrow> ('s, nodePtr) prog" where
  "getNext rt cf =
     (case cfNode cf of
        None \<Rightarrow> ok None
      | Some _ \<Rightarrow>
          andThen (nodeOf rt (cfNode cf)) (\<lambda>n.
          if nodeType n = FOR \<or> nodeType n = PARALLEL
          then andThen (fromSum (getChildWithKey n [''true''])) (\<lambda>c. ok (child c))
          else ok None))"

definition sizeOf :: "platform \<Rightarrow> addr \<Rightarrow> (store, nat) prog" where
  "sizeOf pf c = andThen (readCell c) (\<lambda>v. ok (varSize pf v))"

definition setExiting :: "bool \<Rightarrow> EnvironmentManager \<Rightarrow> EnvironmentManager" where
  "setExiting b e = (case scopes e of [] \<Rightarrow> e
     | sc # scs \<Rightarrow> e\<lparr>scopes := sc\<lparr>ctrlFlow := map_option (\<lambda>cf. cf\<lparr>exiting := b\<rparr>) (ctrlFlow sc)\<rparr> # scs\<rparr>)"

text \<open>\<open>updateLoop\<close>: both callers run it on the control flow of the front scope, whose \<open>exiting\<close> it sets.
  The loop variable is a new variable with a copy of the value.\<close>

definition updateLoop :: "ruleMem \<Rightarrow> platform \<Rightarrow> ControlFlow \<Rightarrow> (game, nodePtr) prog" where
  "updateLoop rt pf cf =
     andThen (fromOption UB (range cf)) (\<lambda>c.
     andThen (onStore (sizeOf pf c)) (\<lambda>size.
     andThen
       (if size \<noteq> 0 then
          andThen (onStore (get_at c (VInt 0))) (\<lambda>newVar.
          andThen (onStore (getRef newVar)) (\<lambda>ref.
          andThen (onStore (readCell ref)) (\<lambda>v.
          andThen (setVariable (loopVarName cf) (fromValue v)) (\<lambda>_.
          andThen (onStore (remove_at c (VInt 0))) (\<lambda>_.
          andThen (onStore (sizeOf pf c)) (\<lambda>left.
            onEnv (modify (setExiting (left = 0)))))))))
        else ok ())
       (\<lambda>_. getNext rt cf)))"

section \<open>\<open>EnvironmentManager\<close>\<close>

definition newScope :: "ruleMem \<Rightarrow> nodePtr \<Rightarrow> (game, Scope) prog" where
  "newScope rt node =
     andThen (case node of None \<Rightarrow> ok False
              | Some _ \<Rightarrow> andThen (nodeOf rt node) (\<lambda>n. ok (nodeType n = PARALLEL))) (\<lambda>par.
     andThen (newControlFlow rt node) (\<lambda>cf.
       ok \<lparr>variables = [], isParallel = par, timerId = -1, ctrlFlow = Some cf\<rparr>))"

definition pushScope :: "Scope \<Rightarrow> (game, unit) prog" where
  "pushScope sc = onEnv (modify (\<lambda>e. e\<lparr>scopes := sc # scopes e\<rparr>))"

definition putTimer :: "Timer \<Rightarrow> EnvironmentManager \<Rightarrow> EnvironmentManager" where
  "putTimer t e = e\<lparr>timers := mapPut (timerIdOf t) t (timers e)\<rparr>"

text \<open>\<open>enterScope(node, timer)\<close>\<close>

definition enterScopeTimer :: "ruleMem \<Rightarrow> int \<Rightarrow> nodePtr \<Rightarrow> Timer \<Rightarrow> (game, unit) prog" where
  "enterScopeTimer rt now node timer =
     andThen (newScope rt node) (\<lambda>sc.
     andThen (onEnv (modify (\<lambda>e.
       putTimer ((copyTimer timer)\<lparr>scopeid := toInt (int (length (scopes e)))\<rparr>) e))) (\<lambda>_.
     andThen (if hasFlag timer then setVariable (flagName timer) (fromValue (VBool False)) else ok ()) (\<lambda>_.
     andThen (onEnv (modify (\<lambda>e. case map_of (timers e) (timerIdOf timer) of
                 None \<Rightarrow> e | Some t \<Rightarrow> putTimer (startTimer now t) e))) (\<lambda>_.
       pushScope (sc\<lparr>timerId := timerIdOf timer\<rparr>)))))"

text \<open>\<open>enterScope(node)\<close>\<close>

definition enterScope :: "ruleMem \<Rightarrow> platform \<Rightarrow> nodePtr \<Rightarrow> (game, nodePtr) prog" where
  "enterScope rt pf node = andThen getState (\<lambda>g.
     case (case scopes (env g) of [] \<Rightarrow> None
           | sc # _ \<Rightarrow> (case ctrlFlow sc of Some cf \<Rightarrow> if cfNode cf = node then Some cf else None | None \<Rightarrow> None)) of
       Some currScopeCtrlFlow \<Rightarrow> updateLoop rt pf currScopeCtrlFlow
     | None \<Rightarrow>
         andThen (newScope rt node) (\<lambda>sc.
         andThen (fromOption UB (ctrlFlow sc)) (\<lambda>cf.
         andThen (getNext rt cf) (\<lambda>next.
         andThen (pushScope sc) (\<lambda>_.
           case node of
             None \<Rightarrow> ok next
           | Some _ \<Rightarrow>
               andThen (nodeOf rt node) (\<lambda>n.
                 if nodeType n = FOR \<or> nodeType n = PARALLEL then updateLoop rt pf cf else ok next))))))"

text \<open>\<open>exitScope(shouldBlock, force)\<close>: the result is \<open>shouldBlock\<close> and the returned node. \<open>waitingInputs\<close>
  is a constant false of the source.\<close>

definition exitScope :: "ruleMem \<Rightarrow> int \<Rightarrow> bool \<Rightarrow> (game, bool \<times> nodePtr) prog" where
  "exitScope rt now force = andThen getState (\<lambda>g.
     case scopes (env g) of
       [] \<Rightarrow> raise GameOver
     | toDelete # rest \<Rightarrow>
         andThen
           (case map_of (timers (env g)) (timerId toDelete) of
              None \<Rightarrow> ok False
            | Some timer \<Rightarrow>
                andThen (if timerType timer = PAD then fromSum (isExpired now timer) else ok True) (\<lambda>expired.
                if timerType timer = PAD \<and> \<not> expired then ok True
                else if \<not> hasFlag timer
                then andThen (onEnv (modify (\<lambda>e. e\<lparr>timers := mapErase (timerId toDelete) (timers e)\<rparr>))) (\<lambda>_. ok False)
                else ok False))
           (\<lambda>shouldBlock.
         case ctrlFlow toDelete of
           None \<Rightarrow> ok (shouldBlock, None)
         | Some deleteCtrlFlow \<Rightarrow>
             if \<not> force \<and> \<not> exiting deleteCtrlFlow
             then andThen (onEnv (modify (\<lambda>e. e\<lparr>scopes := toDelete\<lparr>variables := []\<rparr> # rest\<rparr>))) (\<lambda>_.
                    ok (shouldBlock, cfNode deleteCtrlFlow))
             else andThen (nodeOf rt (cfNode deleteCtrlFlow)) (\<lambda>n.
                  andThen (onEnv (modify (\<lambda>e. e\<lparr>scopes := rest\<rparr>))) (\<lambda>_.
                    ok (shouldBlock, nextNode n)))))"

text \<open>The inner loop of \<open>updateTimers\<close>, with fuel, and its body for one timer.\<close>

primrec exitUpTo :: "nat \<Rightarrow> ruleMem \<Rightarrow> int \<Rightarrow> int \<Rightarrow> (game, unit) prog" where
  "exitUpTo 0 rt now scopeId = raise OutOfFuel"
| "exitUpTo (Suc n) rt now scopeId = andThen getState (\<lambda>g.
     if scopeId < toInt (int (length (scopes (env g))))
     then andThen (exitScope rt now True) (\<lambda>_. exitUpTo n rt now scopeId)
     else ok ())"

primrec fireTimers :: "nat \<Rightarrow> ruleMem \<Rightarrow> int \<Rightarrow> Timer list \<Rightarrow> int \<Rightarrow> nodePtr \<Rightarrow> (game, nodePtr) prog" where
  "fireTimers n rt now [] lastExitScopeId next = ok next"
| "fireTimers n rt now (timer # expiredTimers) lastExitScopeId next =
     andThen (if hasFlag timer then setVariable (flagName timer) (fromValue (VBool True)) else ok ()) (\<lambda>_.
     if timerType timer \<noteq> STOP then fireTimers n rt now expiredTimers lastExitScopeId next
     else andThen (exitUpTo n rt now (scopeid timer)) (\<lambda>_.
       if scopeid timer < toInt lastExitScopeId
       then fireTimers n rt now expiredTimers (toUnsigned (scopeid timer)) (nextRuleNode timer)
       else fireTimers n rt now expiredTimers lastExitScopeId next))"

text \<open>\<open>updateTimers\<close>: all timers are moved out of the map, in the order of their ids; then every entry is
  null and erased.\<close>

definition updateTimers :: "nat \<Rightarrow> ruleMem \<Rightarrow> int \<Rightarrow> (game, nodePtr) prog" where
  "updateTimers n rt now = andThen getState (\<lambda>g.
     andThen (onEnv (modify (\<lambda>e. e\<lparr>timers := []\<rparr>))) (\<lambda>_.
       fireTimers n rt now (map snd (timers (env g))) (toUnsigned (int (length (scopes (env g))))) None))"

definition getTimer :: "int \<Rightarrow> EnvironmentManager \<Rightarrow> Timer option" where
  "getTimer i e = map_of (timers e) i"

definition depth :: "EnvironmentManager \<Rightarrow> int" where
  "depth e = toInt (int (length (scopes e)))"

definition inParallel :: "EnvironmentManager \<Rightarrow> cpp_error + bool" where
  "inParallel e = (case scopes e of [] \<Rightarrow> Inl UB | sc # _ \<Rightarrow> Inr (isParallel sc))"

text \<open>\<open>evaluateExpression\<close> is a stub of the source: always the text true.\<close>

definition evaluateExpression :: "string \<Rightarrow> (store, ptr) prog" where
  "evaluateExpression expr = fromValue (VString ''true'')"

end
