(* ===== verification/EnvMgrLaws.thy ===== *)
theory EnvMgrLaws
  imports EnvMgr
begin

text \<open>
  The invariant of the environment and that every operation keeps it: scopes refer to live variables and
  cells, the innermost scopes carry a control flow and the outermost does not, so the root scope is never
  popped; timers sit under their id and belong to a scope above the root.
\<close>

section \<open>The invariant\<close>

definition rangeOk :: "store \<Rightarrow> ControlFlow \<Rightarrow> bool" where
  "rangeOk s cf \<longleftrightarrow> (case range cf of None \<Rightarrow> True | Some c \<Rightarrow> cells s c \<noteq> None)"

definition scopeOk :: "store \<Rightarrow> Scope \<Rightarrow> bool" where
  "scopeOk s sc \<longleftrightarrow> sortedMap (variables sc) \<and> (\<forall>p \<in> snd ` set (variables sc). ptrOk s p) \<and>
     (case ctrlFlow sc of None \<Rightarrow> True | Some cf \<Rightarrow> rangeOk s cf)"

fun rootLast :: "Scope list \<Rightarrow> bool" where
  "rootLast [] \<longleftrightarrow> False"
| "rootLast [sc] \<longleftrightarrow> ctrlFlow sc = None"
| "rootLast (sc # scs) \<longleftrightarrow> ctrlFlow sc \<noteq> None \<and> rootLast scs"

definition timersOk :: "(int, Timer) smap \<Rightarrow> bool" where
  "timersOk m \<longleftrightarrow> sortedMap m \<and> (\<forall>(k, t) \<in> set m. timerIdOf t = k \<and> 1 \<le> scopeid t)"

definition wfEnv :: "game \<Rightarrow> bool" where
  "wfEnv g \<longleftrightarrow> wfStore (mem g) \<and> list_all (scopeOk (mem g)) (scopes (env g)) \<and>
     rootLast (scopes (env g)) \<and> timersOk (timers (env g))"

definition envLe :: "game \<Rightarrow> game \<Rightarrow> bool" where
  "envLe g h \<longleftrightarrow> storeLe (mem g) (mem h)"

lemma rootLast_Cons: "rootLast (sc # scs) \<longleftrightarrow> (if scs = [] then ctrlFlow sc = None else ctrlFlow sc \<noteq> None \<and> rootLast scs)"
  by (cases scs) auto

lemma rootLast_not_Nil: "rootLast scs \<Longrightarrow> scs \<noteq> []"
  by auto

lemma rootLast_update:
  "rootLast scs \<Longrightarrow> i < length scs \<Longrightarrow> (ctrlFlow sc = None \<longleftrightarrow> ctrlFlow (scs ! i) = None) \<Longrightarrow> rootLast (scs[i := sc])"
proof (induction scs arbitrary: i)
  case (Cons a scs)
  then show ?case by (cases i) (auto simp: rootLast_Cons)
qed simp

lemma scopeOk_mono: "storeLe s t \<Longrightarrow> scopeOk s sc \<Longrightarrow> scopeOk t sc"
  by (auto simp: scopeOk_def rangeOk_def ptrOk_mono cells_mono simp del: not_None_eq split: option.splits)

lemma scopeOk_put: "scopeOk s sc \<Longrightarrow> ptrOk s p \<Longrightarrow> scopeOk s (scopeSetVariable name p sc)"
  using set_mapPut [of name p "variables sc"]
  by (force simp: scopeOk_def scopeSetVariable_def sortedMap_mapPut)

lemma wfEnv_new: "wfEnv \<lparr>mem = emptyStore, env = newEnvironment\<rparr>"
  by (simp add: wfEnv_def newEnvironment_def rootScope_def scopeOk_def timersOk_def sortedMap_def wfStore_empty)

interpretation env_logic: program_logic wfEnv envLe
  by unfold_locales (auto simp: envLe_def intro: storeLe_trans)

section \<open>Lifting\<close>

lemma onStore_run [run_simps]: "m (mem g) = (r, s) \<Longrightarrow> onStore m g = (r, g\<lparr>mem := s\<rparr>)"
  by (simp add: onStore_def zoom_def)

lemma onEnv_run [run_simps]: "m (env g) = (r, e) \<Longrightarrow> onEnv m g = (r, g\<lparr>env := e\<rparr>)"
  by (simp add: onEnv_def zoom_def)

lemma onStore_upholds:
  assumes wf: "wfEnv g" and m: "safe (mem g) m Q"
  shows "upholds wfEnv envLe g (onStore m) (\<lambda>x h. Q x (mem h) \<and> env h = env g)"
proof -
  obtain r s where run: "m (mem g) = (r, s)" by (cases "m (mem g)")
  note s = safeD [OF m run]
  have "list_all (scopeOk s) (scopes (env g))"
    using wf s(2) by (auto simp: wfEnv_def list_all_iff intro: scopeOk_mono)
  with wf s run show ?thesis
    by (auto simp: upholds_def wfEnv_def envLe_def onStore_run)
qed

lemma onStore_read:
  assumes "wfEnv g" "readOnly m"
  shows "upholds wfEnv envLe g (onStore m) (\<lambda>x h. h = g \<and> m (mem g) = (Inr x, mem g))"
proof -
  obtain r where "m (mem g) = (r, mem g)"
    using assms(2) unfolding readOnly_def by (metis prod.collapse)
  with assms(1) show ?thesis by (simp add: upholds_def onStore_run envLe_def)
qed

lemma onEnv_modify:
  assumes "wfEnv g" "list_all (scopeOk (mem g)) (scopes (f (env g)))" "rootLast (scopes (f (env g)))"
    "timersOk (timers (f (env g)))" "Q () (g\<lparr>env := f (env g)\<rparr>)"
  shows "upholds wfEnv envLe g (onEnv (modify f)) Q"
  using assms by (simp add: upholds_def onEnv_run run_simps wfEnv_def envLe_def)

lemma wfEnvD:
  assumes "wfEnv g"
  shows "wfStore (mem g)" "list_all (scopeOk (mem g)) (scopes (env g))" "rootLast (scopes (env g))"
    "timersOk (timers (env g))" "scopes (env g) \<noteq> []"
  using assms rootLast_not_Nil by (auto simp: wfEnv_def)

section \<open>The operations keep it\<close>

lemma findScope_bound: "findScope scs name = Some i \<Longrightarrow> i < length scs \<and> scopeHasVar (scs ! i) name"
  by (induction scs arbitrary: i) (auto split: if_splits)

lemma setVariable_upholds:
  assumes wf: "wfEnv g" and mk: "safe (mem g) mk (\<lambda>p t. ptrOk t p)"
  shows "upholds wfEnv envLe g (setVariable name mk) (\<lambda>_ h. length (scopes (env h)) = length (scopes (env g)) \<and>
    timers (env h) = timers (env g) \<and> map ctrlFlow (scopes (env h)) = map ctrlFlow (scopes (env g)))"
    (is "upholds _ _ _ _ ?Q")
proof -
  let ?i = "case hasVar name (env g) of None \<Rightarrow> 0 | Some i \<Rightarrow> i"
  have i: "?i < length (scopes (env g))"
    using wfEnvD(5) [OF wf] by (auto simp: hasVar_def dest: findScope_bound split: option.splits)
  have put: "upholds wfEnv envLe t (onEnv (modify (\<lambda>e.
         e\<lparr>scopes := (scopes e)[?i := scopeSetVariable name p (scopes e ! ?i)]\<rparr>))) ?Q"
    if t: "wfEnv t" "ptrOk (mem t) p" "env t = env g" for p t
  proof (rule onEnv_modify [OF t(1)])
    have "scopeOk (mem t) (scopes (env g) ! ?i)"
      using wfEnvD(2) [OF t(1)] t(3) i by (auto simp: list_all_length)
    from scopeOk_put [OF this t(2)] wfEnvD(2) [OF t(1)] t(3)
    show "list_all (scopeOk (mem t)) (scopes ((env t)\<lparr>scopes := (scopes (env t))[?i := scopeSetVariable name p (scopes (env t) ! ?i)]\<rparr>))"
      by (auto simp: list_all_iff dest!: set_update_subset_insert [THEN subsetD])
  next
    show "rootLast (scopes ((env t)\<lparr>scopes := (scopes (env t))[?i := scopeSetVariable name p (scopes (env t) ! ?i)]\<rparr>))"
      using wfEnvD(3) [OF t(1)] t(3) i by (simp add: rootLast_update scopeSetVariable_def)
  next
    show "?Q () (t\<lparr>env := (env t)\<lparr>scopes := (scopes (env t))[?i := scopeSetVariable name p (scopes (env t) ! ?i)]\<rparr>\<rparr>)"
      using t(3) i by (auto simp: map_update scopeSetVariable_def intro!: list_update_same_conv [THEN iffD2])
  qed (use wfEnvD(4) [OF t(1)] in simp)
  have "upholds wfEnv envLe g (andThen (onStore mk) (\<lambda>p. onEnv (modify (\<lambda>e.
         e\<lparr>scopes := (scopes e)[?i := scopeSetVariable name p (scopes e ! ?i)]\<rparr>)))) ?Q"
    by (rule env_logic.andThen [OF onStore_upholds [OF wf mk]]) (use put in auto)
  moreover have "setVariable name mk g = andThen (onStore mk) (\<lambda>p. onEnv (modify (\<lambda>e.
         e\<lparr>scopes := (scopes e)[?i := scopeSetVariable name p (scopes e ! ?i)]\<rparr>))) g"
    unfolding setVariable_def using wfEnvD(5) [OF wf] by (simp add: andThen_ok [OF getState_run] Let_def)
  ultimately show ?thesis by (simp add: upholds_def)
qed

lemma safe_fromValue [safe_intros]:
  "wfStore s \<Longrightarrow> valOk s v \<Longrightarrow> safe s (fromValue v) (\<lambda>p t. ptrOk t p)"
  unfolding fromValue_def
  by (rule safe_andThen [OF safe_makeShared]) (auto intro!: safe_ok ptrOk_Some)

lemma upholds_getStateThen:
  "(upholds wfEnv envLe g (f g) Q) \<Longrightarrow> upholds wfEnv envLe g (andThen getState f) Q"
  by (simp add: upholds_def andThen_def getState_def)

lemma readOnly_nodeOf [keeps_intros]: "readOnly (nodeOf rt p)"
  unfolding nodeOf_def by (intro keeps_intros)

lemma readOnly_vectorAt [keeps_intros]: "readOnly (vectorAt xs i)"
  unfolding vectorAt_def by (intro keeps_intros)

lemma readOnly_getNext [keeps_intros]: "readOnly (getNext rt cf)"
  unfolding getNext_def by (auto intro!: keeps_intros split: option.splits)

lemma upholds_read:
  "wfEnv g \<Longrightarrow> readOnly m \<Longrightarrow> upholds wfEnv envLe g m (\<lambda>x h. h = g \<and> m g = (Inr x, g))"
  by (rule env_logic.readOnly) auto

lemma newControlFlow_upholds:
  assumes "wfEnv g"
  shows "upholds wfEnv envLe g (newControlFlow rt p) (\<lambda>cf h. h = g \<and> rangeOk (mem h) cf)"
  unfolding newControlFlow_def Let_def
  by (auto split: option.splits if_splits simp: assms rangeOk_def
      intro!: env_logic.ok env_logic.andThen [OF upholds_read, OF _ readOnly_nodeOf]
        env_logic.andThen [OF upholds_read, OF _ readOnly_vectorAt] env_logic.cond upholds_getStateThen
        env_logic.andThen [OF onStore_upholds, OF _ safe_getRef] env_logic.andThen [OF onStore_read, OF _ readOnly_reads(2)]
      dest: wfEnvD)

lemma newScope_upholds:
  assumes "wfEnv g"
  shows "upholds wfEnv envLe g (newScope rt p) (\<lambda>sc h. h = g \<and> scopeOk (mem h) sc \<and> (\<exists>cf. ctrlFlow sc = Some cf))"
proof -
  have par: "upholds wfEnv envLe g (case p of None \<Rightarrow> ok False
              | Some _ \<Rightarrow> andThen (nodeOf rt p) (\<lambda>n. ok (nodeType n = PARALLEL))) (\<lambda>_ h. h = g)"
    by (auto split: option.splits intro!: env_logic.ok env_logic.andThen [OF upholds_read, OF _ readOnly_nodeOf] assms)
  show ?thesis
    unfolding newScope_def
    by (rule env_logic.andThen [OF par])
      (auto intro!: env_logic.andThen [OF newControlFlow_upholds] env_logic.ok simp: scopeOk_def sortedMap_def)
qed

lemma pushScope_upholds:
  assumes "wfEnv g" "scopeOk (mem g) sc" "ctrlFlow sc = Some cf"
  shows "upholds wfEnv envLe g (pushScope sc) (\<lambda>_ h. mem h = mem g)"
  unfolding pushScope_def
  by (rule onEnv_modify) (use assms wfEnvD [OF assms(1)] in \<open>auto simp: rootLast_Cons\<close>)

lemma safe_sizeOf [safe_intros]: "wfStore s \<Longrightarrow> safe s (sizeOf pf c) (\<lambda>_ t. t = s)"
  unfolding sizeOf_def
  by (rule safe_andThen [OF safe_readCell]) (auto intro: safe_ok)

lemma scopeOk_exiting: "scopeOk s sc \<Longrightarrow> scopeOk s (sc\<lparr>ctrlFlow := map_option (\<lambda>cf. cf\<lparr>exiting := b\<rparr>) (ctrlFlow sc)\<rparr>)"
  by (cases "ctrlFlow sc") (simp_all add: scopeOk_def rangeOk_def)

lemma setExiting_upholds: "wfEnv g \<Longrightarrow> upholds wfEnv envLe g (onEnv (modify (setExiting b))) (\<lambda>_ _. True)"
proof (rule onEnv_modify)
  assume wf: "wfEnv g"
  show "list_all (scopeOk (mem g)) (scopes (setExiting b (env g)))"
    using wfEnvD(2) [OF wf] by (auto simp: setExiting_def scopeOk_exiting split: list.splits)
  show "rootLast (scopes (setExiting b (env g)))"
    using wfEnvD(3) [OF wf] by (auto simp: setExiting_def rootLast_Cons split: list.splits)
  show "timersOk (timers (setExiting b (env g)))"
    using wfEnvD(4) [OF wf] by (auto simp: setExiting_def split: list.splits)
qed auto

lemmas env_steps = env_logic.andThen [OF onStore_upholds, OF _ safe_sizeOf]
  env_logic.andThen [OF onStore_upholds, OF _ safe_get_at] env_logic.andThen [OF onStore_upholds, OF _ safe_getRef]
  env_logic.andThen [OF onStore_upholds, OF _ safe_readCell] env_logic.andThen [OF setVariable_upholds, OF _ safe_fromValue]
  env_logic.andThen [OF onStore_upholds, OF _ safe_remove_at]

lemma updateLoop_upholds:
  assumes "wfEnv g"
  shows "upholds wfEnv envLe g (updateLoop rt pf cf) (\<lambda>_ _. True)"
proof -
  have body: "upholds wfEnv envLe h
       (if size \<noteq> 0 then
          andThen (onStore (get_at c (VInt 0))) (\<lambda>newVar.
          andThen (onStore (getRef newVar)) (\<lambda>ref.
          andThen (onStore (readCell ref)) (\<lambda>v.
          andThen (setVariable (loopVarName cf) (fromValue v)) (\<lambda>_.
          andThen (onStore (remove_at c (VInt 0))) (\<lambda>_.
          andThen (onStore (sizeOf pf c)) (\<lambda>left.
            onEnv (modify (setExiting (left = 0)))))))))
        else ok ()) (\<lambda>_ _. True)" if "wfEnv h" for c and size :: nat and h
    using that
    by (auto intro!: env_logic.cond env_steps setExiting_upholds env_logic.ok dest: wfEnvD)
  show ?thesis
    unfolding updateLoop_def
  proof (rule env_logic.andThen [OF upholds_read [OF assms readOnly_fromOption]], clarify)
    fix c
    show "upholds wfEnv envLe g (andThen (onStore (sizeOf pf c)) (\<lambda>size. andThen
       (if size \<noteq> 0 then
          andThen (onStore (get_at c (VInt 0))) (\<lambda>newVar.
          andThen (onStore (getRef newVar)) (\<lambda>ref.
          andThen (onStore (readCell ref)) (\<lambda>v.
          andThen (setVariable (loopVarName cf) (fromValue v)) (\<lambda>_.
          andThen (onStore (remove_at c (VInt 0))) (\<lambda>_.
          andThen (onStore (sizeOf pf c)) (\<lambda>left.
            onEnv (modify (setExiting (left = 0)))))))))
        else ok ()) (\<lambda>_. getNext rt cf))) (\<lambda>_ _. True)"
      by (rule env_steps(1) [OF assms wfEnvD(1) [OF assms]], rule env_logic.andThen [OF body], assumption)
        (rule env_logic.drop [OF upholds_read [OF _ readOnly_getNext]])
  qed
qed


lemma enterScope_upholds:
  assumes "wfEnv g"
  shows "upholds wfEnv envLe g (enterScope rt pf node) (\<lambda>_ _. True)"
proof -
  have new: "upholds wfEnv envLe g
     (andThen (newScope rt node) (\<lambda>sc.
      andThen (fromOption UB (ctrlFlow sc)) (\<lambda>cf.
      andThen (getNext rt cf) (\<lambda>next.
      andThen (pushScope sc) (\<lambda>_.
           case node of
             None \<Rightarrow> ok next
           | Some _ \<Rightarrow>
               andThen (nodeOf rt node) (\<lambda>n.
                 if nodeType n = FOR \<or> nodeType n = PARALLEL then updateLoop rt pf cf else ok next)))))) (\<lambda>_ _. True)"
    by (auto intro!: env_logic.andThen [OF newScope_upholds] assms
        env_logic.andThen [OF upholds_read, OF _ readOnly_fromOption]
        env_logic.andThen [OF upholds_read, OF _ readOnly_getNext]
        env_logic.andThen [OF pushScope_upholds] env_logic.ok env_logic.cond updateLoop_upholds
        env_logic.andThen [OF upholds_read, OF _ readOnly_nodeOf] split: option.splits)
  show ?thesis
    unfolding enterScope_def
    by (rule upholds_getStateThen)
      (auto simp del: not_None_eq split: option.splits intro!: new updateLoop_upholds assms)
qed

lemma timersOk_put: "timersOk m \<Longrightarrow> 1 \<le> scopeid t \<Longrightarrow> timersOk (mapPut (timerIdOf t) t m)"
  using set_mapPut [of "timerIdOf t" t m] by (fastforce simp: timersOk_def sortedMap_mapPut)

lemma timersOk_erase: "timersOk m \<Longrightarrow> timersOk (mapErase k m)"
  using set_mapErase [of k m] by (fastforce simp: timersOk_def sortedMap_mapErase)

lemma timersOk_get: "timersOk m \<Longrightarrow> map_of m k = Some t \<Longrightarrow> timerIdOf t = k \<and> 1 \<le> scopeid t"
  by (auto simp: timersOk_def dest: map_of_SomeD)

lemma timersOk_start:
  assumes "timersOk m" "map_of m k = Some t"
  shows "timersOk (mapPut (timerIdOf t) (startTimer now t) m)"
  using timersOk_put [OF assms(1), of "startTimer now t"] timersOk_get [OF assms] by (simp add: startTimer_def)

lemma putTimer_start: "putTimer (startTimer now t) e = e\<lparr>timers := mapPut (timerIdOf t) (startTimer now t) (timers e)\<rparr>"
  by (simp add: putTimer_def startTimer_def)

lemma putTimer_upholds:
  assumes "wfEnv g" "1 \<le> scopeid t"
  shows "upholds wfEnv envLe g (onEnv (modify (putTimer t))) (\<lambda>_ h. scopes (env h) = scopes (env g))"
  by (rule onEnv_modify) (use assms wfEnvD [OF assms(1)] in \<open>auto simp: putTimer_def timersOk_put\<close>)

lemma setVariable_flag_upholds:
  "wfEnv g \<Longrightarrow> upholds wfEnv envLe g (if c then setVariable n (fromValue (VBool b)) else ok ()) (\<lambda>_ _. True)"
  by (auto intro!: env_logic.drop [OF setVariable_upholds] safe_fromValue env_logic.ok dest: wfEnvD)

lemma enterScopeTimer_upholds:
  assumes "wfEnv g" "int (length (scopes (env g))) \<le> INT_MAX"
  shows "upholds wfEnv envLe g (enterScopeTimer rt now node timer) (\<lambda>_ _. True)"
proof -
  have "scopes (env g) \<noteq> []" using wfEnvD(5) [OF assms(1)] .
  then have len: "1 \<le> toInt (int (length (scopes (env g))))"
    using assms(2) by (subst toInt_id) (auto simp: isInt_def INT_MIN_def Suc_le_eq)
  have start: "upholds wfEnv envLe h (onEnv (modify (\<lambda>e. case map_of (timers e) i of
                 None \<Rightarrow> e | Some t \<Rightarrow> putTimer (startTimer now t) e))) (\<lambda>_ _. True)" if "wfEnv h" for h i
    by (rule onEnv_modify)
      (use that wfEnvD [OF that] in \<open>auto simp: putTimer_start timersOk_start split: option.splits\<close>)
  have put: "upholds wfEnv envLe g (onEnv (modify (\<lambda>e.
       putTimer ((copyTimer timer)\<lparr>scopeid := toInt (int (length (scopes e)))\<rparr>) e))) (\<lambda>_ _. True)"
    using timersOk_put [of "timers (env g)" "(copyTimer timer)\<lparr>scopeid := toInt (int (length (scopes (env g))))\<rparr>"] len
    by (intro onEnv_modify) (use assms wfEnvD [OF assms(1)] in \<open>auto simp: putTimer_def\<close>)
  show ?thesis
    unfolding enterScopeTimer_def
  proof (rule env_logic.andThen [OF newScope_upholds [OF assms(1)]], elim conjE exE, hypsubst)
    fix sc h cf assume sc: "scopeOk (mem g) sc" "ctrlFlow sc = Some cf"
    show "upholds wfEnv envLe g (andThen (onEnv (modify (\<lambda>e.
           putTimer ((copyTimer timer)\<lparr>scopeid := toInt (int (length (scopes e)))\<rparr>) e))) (\<lambda>_.
         andThen (if hasFlag timer then setVariable (flagName timer) (fromValue (VBool False)) else ok ()) (\<lambda>_.
         andThen (onEnv (modify (\<lambda>e. case map_of (timers e) (timerIdOf timer) of
                     None \<Rightarrow> e | Some t \<Rightarrow> putTimer (startTimer now t) e))) (\<lambda>_.
           pushScope (sc\<lparr>timerId := timerIdOf timer\<rparr>))))) (\<lambda>_ _. True)"
    proof (rule env_logic.andThen [OF put], rule env_logic.andThen [OF setVariable_flag_upholds], assumption,
        rule env_logic.andThen [OF start], assumption)
      fix t u v x y z
      assume le: "envLe g t" "envLe t u" "envLe u v" and v: "wfEnv v"
      have "scopeOk (mem v) (sc\<lparr>timerId := timerIdOf timer\<rparr>)"
        using scopeOk_mono [of "mem g" "mem v" sc] sc(1)
          env_logic.le_trans [OF env_logic.le_trans [OF le(1,2)] le(3)]
        by (simp add: envLe_def scopeOk_def)
      then show "upholds wfEnv envLe v (pushScope (sc\<lparr>timerId := timerIdOf timer\<rparr>)) (\<lambda>_ _. True)"
        using v sc by (auto intro: env_logic.drop [OF pushScope_upholds])
    qed
  qed
qed

lemma exitScope_upholds:
  assumes "wfEnv g"
  shows "upholds wfEnv envLe g (exitScope rt now force) (\<lambda>_ _. True)"
proof -
  obtain sc rest where scs: "scopes (env g) = sc # rest"
    using wfEnvD(5) [OF assms] by (cases "scopes (env g)") auto
  have erase: "upholds wfEnv envLe g (onEnv (modify (\<lambda>e. e\<lparr>timers := mapErase k (timers e)\<rparr>)))
      (\<lambda>_ h. scopes (env h) = sc # rest)" for k
    by (rule onEnv_modify) (use assms wfEnvD [OF assms] scs in \<open>auto intro: timersOk_erase\<close>)
  have clear: "upholds wfEnv envLe h (onEnv (modify (\<lambda>e. e\<lparr>scopes := sc\<lparr>variables := []\<rparr> # rest\<rparr>))) (\<lambda>_ _. True)"
    if "wfEnv h" "scopes (env h) = sc # rest" for h
    by (rule onEnv_modify)
      (use that wfEnvD [OF that(1)] in \<open>auto simp: scopeOk_def sortedMap_def rootLast_Cons\<close>)
  have pop: "upholds wfEnv envLe h (onEnv (modify (\<lambda>e. e\<lparr>scopes := rest\<rparr>))) (\<lambda>_ _. True)"
    if "wfEnv h" "scopes (env h) = sc # rest" "ctrlFlow sc \<noteq> None" for h
    by (rule onEnv_modify)
      (use that wfEnvD [OF that(1)] in \<open>auto simp: rootLast_Cons split: if_splits\<close>)
  have block: "upholds wfEnv envLe g (case map_of (timers (env g)) (timerId sc) of
              None \<Rightarrow> ok False
            | Some timer \<Rightarrow>
                andThen (if timerType timer = PAD then fromSum (isExpired now timer) else ok True) (\<lambda>expired.
                if timerType timer = PAD \<and> \<not> expired then ok True
                else if \<not> hasFlag timer
                then andThen (onEnv (modify (\<lambda>e. e\<lparr>timers := mapErase (timerId sc) (timers e)\<rparr>))) (\<lambda>_. ok False)
                else ok False)) (\<lambda>_ h. scopes (env h) = sc # rest)"
    using scs
    by (auto split: option.splits intro!: env_logic.ok env_logic.cond env_logic.andThen [OF erase] assms
        env_logic.andThen [OF upholds_read [OF assms]] keeps_intros)
  have main: "upholds wfEnv envLe h
     (case ctrlFlow sc of
           None \<Rightarrow> ok (shouldBlock, None)
         | Some deleteCtrlFlow \<Rightarrow>
             if \<not> force \<and> \<not> exiting deleteCtrlFlow
             then andThen (onEnv (modify (\<lambda>e. e\<lparr>scopes := sc\<lparr>variables := []\<rparr> # rest\<rparr>))) (\<lambda>_.
                    ok (shouldBlock, cfNode deleteCtrlFlow))
             else andThen (nodeOf rt (cfNode deleteCtrlFlow)) (\<lambda>n.
                  andThen (onEnv (modify (\<lambda>e. e\<lparr>scopes := rest\<rparr>))) (\<lambda>_.
                    ok (shouldBlock, nextNode n)))) (\<lambda>_ _. True)"
    if "wfEnv h" "scopes (env h) = sc # rest" for h shouldBlock
    using that
    by (auto split: option.splits intro!: env_logic.ok env_logic.cond env_logic.andThen [OF clear]
        env_logic.andThen [OF pop] env_logic.andThen [OF upholds_read, OF _ readOnly_nodeOf])
  show ?thesis
    unfolding exitScope_def
    by (rule upholds_getStateThen, simp only: scs list.case, rule env_logic.andThen [OF block], rule main)
qed

section \<open>Timers\<close>

lemma exitScope_no_GameOver: "scopes (env g) \<noteq> [] \<Longrightarrow> fst (exitScope rt now force g) \<noteq> Inl GameOver"
  by (cases "scopes (env g)")
    (auto simp: exitScope_def andThen_def run_simps nodeOf_def fromOption_def isExpired_def
      split: option.splits prod.splits sum.splits if_splits)

text \<open>Every scope above the root was entered for a node of the rule tree.\<close>

definition nodesOk :: "ruleMem \<Rightarrow> Scope list \<Rightarrow> bool" where
  "nodesOk rt scs \<longleftrightarrow> (\<forall>sc \<in> set scs. \<forall>cf. ctrlFlow sc = Some cf \<longrightarrow>
     (\<exists>a n. cfNode cf = Some a \<and> rt a = Some n))"

lemma exitScope_force_run:
  assumes "scopes (env g) = sc # rest" "ctrlFlow sc = Some cf" "timers (env g) = []"
    "cfNode cf = Some a" "rt a = Some n"
  shows "exitScope rt now True g = (Inr (False, nextNode n), g\<lparr>env := (env g)\<lparr>scopes := rest\<rparr>\<rparr>)"
  using assms by (simp add: exitScope_def andThen_def run_simps nodeOf_def)

lemma toInt_length: "int n \<le> INT_MAX \<Longrightarrow> toInt (int n) = int n"
  by (rule toInt_id) (simp add: isInt_def INT_MIN_def)

lemma exitUpTo_run:
  assumes "rootLast (scopes (env g))" "timers (env g) = []" "nodesOk rt (scopes (env g))" "1 \<le> k"
    "int (length (scopes (env g))) \<le> INT_MAX" "length (scopes (env g)) - nat k < n"
  shows "exitUpTo n rt now k g =
    (Inr (), g\<lparr>env := (env g)\<lparr>scopes := drop (length (scopes (env g)) - nat k) (scopes (env g))\<rparr>\<rparr>)"
  using assms
proof (induction n arbitrary: g)
  case (Suc n)
  show ?case
  proof (cases "k < int (length (scopes (env g)))")
    case True
    then obtain sc rest where scs: "scopes (env g) = sc # rest" "rest \<noteq> []"
      using Suc.prems(1,4) by (cases "scopes (env g)" rule: rootLast.cases) auto
    with Suc.prems(1) obtain cf where cf: "ctrlFlow sc = Some cf" "rootLast rest"
      by (auto simp: rootLast_Cons)
    with Suc.prems(3) scs obtain a m where a: "cfNode cf = Some a" "rt a = Some m"
      by (auto simp: nodesOk_def)
    let ?h = "g\<lparr>env := (env g)\<lparr>scopes := rest\<rparr>\<rparr>"
    have "exitUpTo n rt now k ?h = (Inr (), ?h\<lparr>env := (env ?h)\<lparr>scopes := drop (length (scopes (env ?h)) - nat k) (scopes (env ?h))\<rparr>\<rparr>)"
    proof (rule Suc.IH)
      show "length (scopes (env ?h)) - nat k < n" using Suc.prems(6) scs True by auto
    qed (use Suc.prems cf scs in \<open>auto simp: nodesOk_def\<close>)
    moreover have "length (scopes (env g)) - nat k = Suc (length rest - nat k)"
      using True scs by auto
    moreover have "toInt (1 + int (length rest)) = 1 + int (length rest)"
      using toInt_length [of "Suc (length rest)"] Suc.prems(5) scs by simp
    ultimately show ?thesis
      using True exitScope_force_run [of g sc rest cf a rt m now, OF scs(1) cf(1) Suc.prems(2) a] Suc.prems(5) scs
      by (simp add: andThen_def run_simps toInt_length)
  next
    case False
    then show ?thesis using Suc.prems(5)
      by (cases "k = int (length (scopes (env g)))") (simp_all add: andThen_def run_simps toInt_length)
  qed
qed simp

lemma setVariable_value_run:
  assumes "wfEnv g" "valOk (mem g) v"
  shows "\<exists>h. setVariable name (fromValue v) g = (Inr (), h) \<and> wfEnv h \<and> envLe g h \<and>
    length (scopes (env h)) = length (scopes (env g)) \<and> timers (env h) = timers (env g) \<and>
    map ctrlFlow (scopes (env h)) = map ctrlFlow (scopes (env g))"
proof -
  have "\<exists>h. setVariable name (fromValue v) g = (Inr (), h)"
    by (simp add: setVariable_def fromValue_def andThen_def run_simps Let_def)
  then obtain h where h: "setVariable name (fromValue v) g = (Inr (), h)" ..
  from env_logic.outcome [OF setVariable_upholds [OF assms(1) safe_fromValue] h] assms wfEnvD(1)
  show ?thesis using h by auto
qed

lemma nodesOk_cong: "map ctrlFlow scs = map ctrlFlow scs' \<Longrightarrow> nodesOk rt scs = nodesOk rt scs'"
proof -
  have "nodesOk rt scs = (\<forall>c \<in> set (map ctrlFlow scs). \<forall>cf. c = Some cf \<longrightarrow>
     (\<exists>a n. cfNode cf = Some a \<and> rt a = Some n))" for scs
    by (simp add: nodesOk_def)
  then show "map ctrlFlow scs = map ctrlFlow scs' \<Longrightarrow> ?thesis" by metis
qed

lemma nodesOk_drop: "nodesOk rt scs \<Longrightarrow> nodesOk rt (drop n scs)"
  by (auto simp: nodesOk_def dest: in_set_dropD)

lemma rootLast_drop: "rootLast scs \<Longrightarrow> n < length scs \<Longrightarrow> rootLast (drop n scs)"
proof (induction n arbitrary: scs)
  case (Suc n)
  then show ?case by (cases scs) (auto simp: rootLast_Cons split: if_splits)
qed simp

lemma wfEnv_drop:
  assumes "wfEnv g" "n < length (scopes (env g))"
  shows "wfEnv (g\<lparr>env := (env g)\<lparr>scopes := drop n (scopes (env g))\<rparr>\<rparr>)"
  using assms by (auto simp: wfEnv_def rootLast_drop list_all_iff dest: in_set_dropD)

text \<open>What firing timers comes to: the depth left and the node to go to.\<close>

primrec jump :: "Timer list \<Rightarrow> int \<Rightarrow> nodePtr \<Rightarrow> int \<times> nodePtr" where
  "jump [] d p = (d, p)"
| "jump (t # ts) d p =
     (if timerType t = STOP \<and> scopeid t < d then jump ts (scopeid t) (nextRuleNode t) else jump ts d p)"

lemma jump_le: "fst (jump ts d p) \<le> d"
  by (induction ts arbitrary: d p) (auto, smt (verit))

lemma jump_none: "fst (jump ts d p) = d \<Longrightarrow> snd (jump ts d p) = p"
  by (induction ts arbitrary: d p) (auto, use jump_le in \<open>smt (verit)\<close>)

lemma jump_low: "timerType t = STOP \<Longrightarrow> t \<in> set ts \<Longrightarrow> fst (jump ts d p) \<le> scopeid t"
proof (induction ts arbitrary: d p)
  case (Cons a ts)
  show ?case
  proof (cases "t = a")
    case True
    with Cons.prems(1) jump_le [of ts "scopeid a" "nextRuleNode a"] jump_le [of ts d p] show ?thesis
      by auto
  next
    case False
    with Cons show ?thesis by simp
  qed
qed simp

lemma jump_first:
  "fst (jump ts d p) < d \<Longrightarrow> \<exists>us t vs. ts = us @ t # vs \<and> timerType t = STOP \<and> scopeid t = fst (jump ts d p) \<and>
     snd (jump ts d p) = nextRuleNode t \<and> (\<forall>u \<in> set us. timerType u = STOP \<longrightarrow> scopeid t < scopeid u)"
proof (induction ts arbitrary: d p)
  case (Cons a ts)
  show ?case
  proof (cases "timerType a = STOP \<and> scopeid a < d")
    case True
    then have j: "jump (a # ts) d p = jump ts (scopeid a) (nextRuleNode a)" by simp
    show ?thesis
    proof (cases "fst (jump ts (scopeid a) (nextRuleNode a)) = scopeid a")
      case eq: True
      then show ?thesis unfolding j using jump_none [OF eq] True
        by (intro exI [of _ "[]"] exI [of _ a] exI [of _ ts]) simp
    next
      case False
      then have "fst (jump ts (scopeid a) (nextRuleNode a)) < scopeid a"
        using jump_le [of ts "scopeid a" "nextRuleNode a"] by simp
      from Cons.IH [OF this] this obtain us t vs where
        "ts = us @ t # vs" "timerType t = STOP" "scopeid t = fst (jump ts (scopeid a) (nextRuleNode a))"
        "snd (jump ts (scopeid a) (nextRuleNode a)) = nextRuleNode t"
        "\<forall>u \<in> set us. timerType u = STOP \<longrightarrow> scopeid t < scopeid u" "scopeid t < scopeid a" by metis
      then show ?thesis unfolding j
        by (intro exI [of _ "a # us"] exI [of _ t] exI [of _ vs]) simp
    qed
  next
    case False
    then have j: "jump (a # ts) d p = jump ts d p" by auto
    from Cons.IH [of d p] Cons.prems obtain us t vs where
      u: "ts = us @ t # vs" "timerType t = STOP" "scopeid t = fst (jump ts d p)"
      "snd (jump ts d p) = nextRuleNode t" "\<forall>u \<in> set us. timerType u = STOP \<longrightarrow> scopeid t < scopeid u"
      unfolding j by metis
    have "timerType a = STOP \<longrightarrow> scopeid t < scopeid a" using False Cons.prems u(3) unfolding j by auto
    with u show ?thesis unfolding j
      by (intro exI [of _ "a # us"] exI [of _ t] exI [of _ vs]) simp
  qed
qed simp

lemma jump_cases:
  "(\<forall>t \<in> set ts. timerType t = STOP \<longrightarrow> d \<le> scopeid t) \<and> fst (jump ts d p) = d \<and> snd (jump ts d p) = p \<or>
     (\<exists>us t vs. ts = us @ t # vs \<and> timerType t = STOP \<and> scopeid t < d \<and>
        (\<forall>u \<in> set us. timerType u = STOP \<longrightarrow> scopeid t < scopeid u) \<and>
        (\<forall>u \<in> set vs. timerType u = STOP \<longrightarrow> scopeid t \<le> scopeid u) \<and>
        fst (jump ts d p) = scopeid t \<and> snd (jump ts d p) = nextRuleNode t)"
proof (cases "fst (jump ts d p) = d")
  case True
  have "d \<le> scopeid t" if "t \<in> set ts" "timerType t = STOP" for t
    using jump_low [OF that(2,1), of d p] True by simp
  with True jump_none [OF True] show ?thesis by auto
next
  case False
  then have less: "fst (jump ts d p) < d" using jump_le [of ts d p] by simp
  from jump_first [OF this] obtain us t vs where
    t: "ts = us @ t # vs" "timerType t = STOP" "scopeid t = fst (jump ts d p)"
    "snd (jump ts d p) = nextRuleNode t" "\<forall>u \<in> set us. timerType u = STOP \<longrightarrow> scopeid t < scopeid u"
    by blast
  have "\<forall>u \<in> set vs. timerType u = STOP \<longrightarrow> scopeid t \<le> scopeid u"
    using jump_low [of _ ts d p] t(1,3) by auto
  with t less show ?thesis by (intro disjI2 exI [of _ us] exI [of _ t] exI [of _ vs]) simp
qed

section \<open>Setting and finding variables\<close>

definition assignScope :: "string \<Rightarrow> EnvironmentManager \<Rightarrow> nat" where
  "assignScope name e = (case hasVar name e of None \<Rightarrow> 0 | Some i \<Rightarrow> i)"

lemma setVariable_run:
  assumes "scopes (env g) \<noteq> []"
  shows "setVariable name (fromValue v) g = (Inr (),
    \<lparr>mem = (mem g)\<lparr>objs := (objs (mem g))(Suc (brk (mem g)) \<mapsto> brk (mem g)),
         cells := (cells (mem g))(brk (mem g) \<mapsto> v), brk := Suc (Suc (brk (mem g)))\<rparr>,
     env = (env g)\<lparr>scopes := (scopes (env g))[assignScope name (env g) :=
         scopeSetVariable name (Some (Suc (brk (mem g)))) (scopes (env g) ! assignScope name (env g))]\<rparr>\<rparr>)"
  using assms by (simp add: setVariable_def fromValue_def andThen_def run_simps Let_def assignScope_def)

lemma assignScope_bound: "scopes e \<noteq> [] \<Longrightarrow> assignScope name e < length (scopes e)"
  by (auto simp: assignScope_def hasVar_def dest: findScope_bound split: option.splits)

lemma scopeHasVar_put: "scopeHasVar (scopeSetVariable name p sc) y \<longleftrightarrow> y = name \<or> scopeHasVar sc y"
  by (simp add: scopeHasVar_def scopeSetVariable_def map_of_mapPut)

lemma findScope_put:
  assumes "findScope scs name = Some i \<or> findScope scs name = None \<and> i = 0" "i < length scs"
  shows "findScope (scs[i := scopeSetVariable name p (scs ! i)]) name = Some i"
  using assms
proof (induction scs arbitrary: i)
  case (Cons sc scs)
  then show ?case by (cases i) (auto simp: scopeHasVar_put split: if_splits)
qed simp

lemma findScope_put_other:
  "y \<noteq> name \<Longrightarrow> findScope (scs[i := scopeSetVariable name p (scs ! i)]) y = findScope scs y"
proof (induction scs arbitrary: i)
  case (Cons sc scs)
  then show ?case by (cases i) (auto simp: scopeHasVar_put)
qed simp

lemma scopeGetVariable_put:
  "scopeGetVariable (scopeSetVariable name p sc) y = (if y = name then p else scopeGetVariable sc y)"
  by (simp add: scopeGetVariable_def scopeSetVariable_def map_of_mapPut)

lemma getVariable_put:
  assumes "scopes e \<noteq> []" and i: "i = assignScope name e"
  shows "getVariable name (e\<lparr>scopes := (scopes e)[i := scopeSetVariable name p (scopes e ! i)]\<rparr>) = p"
    and "y \<noteq> name \<Longrightarrow> getVariable y (e\<lparr>scopes := (scopes e)[i := scopeSetVariable name p (scopes e ! i)]\<rparr>) = getVariable y e"
proof -
  have b: "i < length (scopes e)" using assignScope_bound [OF assms(1)] i by simp
  have "findScope (scopes e) name = Some i \<or> findScope (scopes e) name = None \<and> i = 0"
    by (auto simp: i assignScope_def hasVar_def split: option.splits)
  from findScope_put [OF this b]
  show "getVariable name (e\<lparr>scopes := (scopes e)[i := scopeSetVariable name p (scopes e ! i)]\<rparr>) = p"
    using b by (simp add: getVariable_def hasVar_def scopeGetVariable_def scopeSetVariable_def map_of_mapPut)
  show "getVariable y (e\<lparr>scopes := (scopes e)[i := scopeSetVariable name p (scopes e ! i)]\<rparr>) = getVariable y e"
    if "y \<noteq> name"
    using that b
    by (auto simp: getVariable_def hasVar_def findScope_put_other scopeGetVariable_put
        nth_list_update split: option.splits)
qed

lemma findScope_innermost:
  "findScope scs name = Some i \<Longrightarrow> i < length scs \<and> scopeHasVar (scs ! i) name \<and> (\<forall>j < i. \<not> scopeHasVar (scs ! j) name)"
proof (induction scs arbitrary: i)
  case (Cons sc scs)
  then show ?case by (auto simp: less_Suc_eq_0_disj split: if_splits)
qed simp

lemma findScope_drop:
  "findScope scs y = Some i \<Longrightarrow> k \<le> i \<Longrightarrow> findScope (drop k scs) y = Some (i - k)"
proof (induction scs arbitrary: i k)
  case (Cons sc scs)
  show ?case
  proof (cases k)
    case (Suc l)
    with Cons.prems have "\<not> scopeHasVar sc y" by (auto split: if_splits)
    with Cons Suc show ?thesis by auto
  qed (use Cons.prems in simp)
qed simp

lemma getVariable_ptrOk: "wfEnv g \<Longrightarrow> ptrOk (mem g) (getVariable y (env g))"
proof -
  assume wf: "wfEnv g"
  have "ptrOk (mem g) (scopeGetVariable (scopes (env g) ! i) y)" if i: "i < length (scopes (env g))" for i
  proof (cases "map_of (variables (scopes (env g) ! i)) y")
    case (Some p)
    have "scopeOk (mem g) (scopes (env g) ! i)" using wfEnvD(2) [OF wf] i by (simp add: list_all_length)
    then have "\<forall>e \<in> set (variables (scopes (env g) ! i)). ptrOk (mem g) (snd e)" by (simp add: scopeOk_def)
    from bspec [OF this map_of_SomeD [OF Some]] Some show ?thesis by (simp add: scopeGetVariable_def)
  qed (simp add: scopeGetVariable_def ptrOk_def)
  then have "findScope (scopes (env g)) y = Some i \<Longrightarrow> ptrOk (mem g) (scopeGetVariable (scopes (env g) ! i) y)" for i
    using findScope_bound by blast
  then show ?thesis
    by (simp add: getVariable_def hasVar_def ptrOk_def [of _ None] split: option.split)
qed

section \<open>What the timers leave of the variables\<close>

text \<open>
  \<open>keptBut F g h\<close>: from \<open>g\<close> to \<open>h\<close> only innermost scopes were left, and of the variables found in the scopes
  that remain those named in \<open>F\<close> hold \<open>true\<close> and the others are what they were.
\<close>

definition holdsTrue :: "game \<Rightarrow> string \<Rightarrow> bool" where
  "holdsTrue h y \<longleftrightarrow> getVal (getVariable y (env h)) (mem h) = (Inr (VBool True), mem h)"

definition keptBut :: "string set \<Rightarrow> game \<Rightarrow> game \<Rightarrow> bool" where
  "keptBut F g h \<longleftrightarrow> length (scopes (env h)) \<le> length (scopes (env g)) \<and>
     (\<forall>y i. hasVar y (env g) = Some i \<longrightarrow> length (scopes (env g)) - length (scopes (env h)) \<le> i \<longrightarrow>
        hasVar y (env h) = Some (i - (length (scopes (env g)) - length (scopes (env h)))) \<and>
        (if y \<in> F then holdsTrue h y
         else getVariable y (env h) = getVariable y (env g) \<and>
           fst (getVal (getVariable y (env h)) (mem h)) = fst (getVal (getVariable y (env g)) (mem g))))"

lemma holdsTrue_fst: "holdsTrue h y \<longleftrightarrow> fst (getVal (getVariable y (env h)) (mem h)) = Inr (VBool True)"
  by (auto simp: holdsTrue_def run_simps split: option.splits)

lemma keptBut_refl: "keptBut {} g g"
  by (simp add: keptBut_def)

lemma keptBut_trans:
  assumes "keptBut F g h" "keptBut G h u"
  shows "keptBut (F \<union> G) g u"
  unfolding keptBut_def
proof (intro conjI allI impI)
  let ?n = "\<lambda>g. length (scopes (env g))"
  have le: "?n h \<le> ?n g" "?n u \<le> ?n h" using assms by (auto simp: keptBut_def)
  then show "?n u \<le> ?n g" by simp
  fix y i assume y: "hasVar y (env g) = Some i" "?n g - ?n u \<le> i"
  then have i: "?n g - ?n h \<le> i" "?n h - ?n u \<le> i - (?n g - ?n h)" using le by auto
  from assms(1) y(1) i(1) have h: "hasVar y (env h) = Some (i - (?n g - ?n h))"
    "y \<in> F \<Longrightarrow> holdsTrue h y"
    "y \<notin> F \<Longrightarrow> getVariable y (env h) = getVariable y (env g) \<and>
       fst (getVal (getVariable y (env h)) (mem h)) = fst (getVal (getVariable y (env g)) (mem g))"
    unfolding keptBut_def by metis+
  from assms(2) h(1) i(2) have u: "hasVar y (env u) = Some (i - (?n g - ?n h) - (?n h - ?n u))"
    "y \<in> G \<Longrightarrow> holdsTrue u y"
    "y \<notin> G \<Longrightarrow> getVariable y (env u) = getVariable y (env h) \<and>
       fst (getVal (getVariable y (env u)) (mem u)) = fst (getVal (getVariable y (env h)) (mem h))"
    unfolding keptBut_def by metis+
  show "hasVar y (env u) = Some (i - (?n g - ?n u))" using u(1) le by simp
  show "if y \<in> F \<union> G then holdsTrue u y else getVariable y (env u) = getVariable y (env g) \<and>
       fst (getVal (getVariable y (env u)) (mem u)) = fst (getVal (getVariable y (env g)) (mem g))"
    using u(2,3) h(2,3) by (cases "y \<in> G"; cases "y \<in> F") (simp_all add: holdsTrue_fst)
qed

lemma keptBut_drop:
  assumes "k \<le> length (scopes (env g))"
  shows "keptBut {} g (g\<lparr>env := (env g)\<lparr>scopes := drop k (scopes (env g))\<rparr>\<rparr>)"
  using assms by (auto simp: keptBut_def hasVar_def getVariable_def findScope_drop nth_drop dest: findScope_bound)

text \<open>Setting a variable leaves the values of all others, since the new value takes fresh addresses.\<close>

lemma getVal_fresh:
  assumes "wfStore s" "ptrOk s p"
  shows "fst (getVal p (s\<lparr>objs := (objs s)(Suc (brk s) \<mapsto> brk s), cells := (cells s)(brk s \<mapsto> v), brk := Suc (Suc (brk s))\<rparr>)) =
    fst (getVal p s)"
proof -
  have "a < brk s \<and> c < brk s" if "objs s a = Some c" for a c
    using assms(1) that unfolding wfStore_def by blast
  then show ?thesis
    using assms(2) by (fastforce simp: ptrOk_def run_simps split: option.splits)
qed

lemma setVariable_kept:
  assumes wf: "wfEnv g"
  shows "\<exists>h. setVariable name (fromValue (VBool True)) g = (Inr (), h) \<and> keptBut {name} g h \<and>
    length (scopes (env h)) = length (scopes (env g)) \<and> holdsTrue h name \<and> hasVar name (env h) \<noteq> None"
proof -
  note ne = wfEnvD(5) [OF wf] and run = setVariable_run [OF wfEnvD(5) [OF wf], of name "VBool True"]
  let ?i = "assignScope name (env g)" and ?p = "Some (Suc (brk (mem g)))"
  have b: "?i < length (scopes (env g))" by (rule assignScope_bound [OF ne])
  have "findScope (scopes (env g)) name = Some ?i \<or> findScope (scopes (env g)) name = None \<and> ?i = 0"
    by (auto simp: assignScope_def hasVar_def split: option.splits)
  note put = findScope_put [OF this b, of ?p] getVariable_put [where p = ?p and name = name, OF ne refl]
  define h where "h = snd (setVariable name (fromValue (VBool True)) g)"
  have h: "scopes (env h) = (scopes (env g))[?i := scopeSetVariable name ?p (scopes (env g) ! ?i)]"
    "getVariable name (env h) = ?p" "\<And>y. y \<noteq> name \<Longrightarrow> getVariable y (env h) = getVariable y (env g)"
    "mem h = (mem g)\<lparr>objs := (objs (mem g))(Suc (brk (mem g)) \<mapsto> brk (mem g)),
       cells := (cells (mem g))(brk (mem g) \<mapsto> VBool True), brk := Suc (Suc (brk (mem g)))\<rparr>"
    using put by (simp_all add: h_def run)
  have name: "hasVar name (env h) = Some ?i" "holdsTrue h name"
    using put h by (simp_all add: hasVar_def holdsTrue_def run_simps)
  have other: "hasVar y (env h) = hasVar y (env g)"
    "fst (getVal (getVariable y (env h)) (mem h)) = fst (getVal (getVariable y (env g)) (mem g))" if "y \<noteq> name" for y
    using that h(1) getVal_fresh [OF wfEnvD(1) [OF wf] getVariable_ptrOk [OF wf], of y "VBool True"]
    by (simp_all add: hasVar_def findScope_put_other h(3,4))
  have "keptBut {name} g h"
    unfolding keptBut_def using name other h by (auto simp: assignScope_def)
  moreover have "setVariable name (fromValue (VBool True)) g = (Inr (), h)" by (simp add: h_def run)
  ultimately show ?thesis using name h(1) by auto
qed

text \<open>The flags of some timers, and what firing these timers does to the variables.\<close>

definition flagsOf :: "Timer list \<Rightarrow> string set" where
  "flagsOf ts = flagName ` {t \<in> set ts. hasFlag t}"

definition fired :: "Timer list \<Rightarrow> game \<Rightarrow> game \<Rightarrow> bool" where
  "fired ts g h \<longleftrightarrow> keptBut (flagsOf ts) g h \<and>
     (length (scopes (env h)) = length (scopes (env g)) \<longrightarrow> (\<forall>y \<in> flagsOf ts. holdsTrue h y))"

lemma flagsOf_single: "flagsOf [t] = (if hasFlag t then {flagName t} else {})"
  by (auto simp: flagsOf_def)

lemma fired_Nil: "fired [] g g"
  by (simp add: fired_def flagsOf_def keptBut_refl)

lemma fired_kept:
  assumes "fired ts g h"
  shows "(\<forall>t i. t \<in> set ts \<longrightarrow> hasFlag t \<longrightarrow> hasVar (flagName t) (env g) = Some i \<longrightarrow>
       int (length (scopes (env g))) - int (length (scopes (env h))) \<le> int i \<longrightarrow> holdsTrue h (flagName t)) \<and>
    (\<forall>y i. (\<forall>t \<in> set ts. hasFlag t \<longrightarrow> flagName t \<noteq> y) \<longrightarrow> hasVar y (env g) = Some i \<longrightarrow>
       int (length (scopes (env g))) - int (length (scopes (env h))) \<le> int i \<longrightarrow>
       getVariable y (env h) = getVariable y (env g) \<and>
       fst (getVal (getVariable y (env h)) (mem h)) = fst (getVal (getVariable y (env g)) (mem g)))"
proof -
  have below: "int (length (scopes (env g))) - int (length (scopes (env h))) \<le> int i \<longleftrightarrow>
      length (scopes (env g)) - length (scopes (env h)) \<le> i" for i
    by linarith
  have kept: "hasVar y (env g) = Some i \<Longrightarrow> length (scopes (env g)) - length (scopes (env h)) \<le> i \<Longrightarrow>
      (if y \<in> flagsOf ts then holdsTrue h y
       else getVariable y (env h) = getVariable y (env g) \<and>
         fst (getVal (getVariable y (env h)) (mem h)) = fst (getVal (getVariable y (env g)) (mem g)))" for y i
    using assms unfolding fired_def keptBut_def by blast
  have in_flags: "flagName t \<in> flagsOf ts" if "t \<in> set ts" "hasFlag t" for t
    using that by (simp add: flagsOf_def)
  have not_in: "y \<notin> flagsOf ts" if "\<forall>t \<in> set ts. hasFlag t \<longrightarrow> flagName t \<noteq> y" for y
    using that by (auto simp: flagsOf_def)
  show ?thesis
    unfolding below using kept in_flags not_in by (intro conjI allI impI) (force+)
qed

text \<open>One timer: its flag is set (\<open>h\<close>), scopes may be left (\<open>u\<close>), the other timers fire (\<open>v\<close>).\<close>

lemma fired_Cons:
  assumes "keptBut (flagsOf [t]) g h" "length (scopes (env h)) = length (scopes (env g))"
    and "hasFlag t \<Longrightarrow> holdsTrue h (flagName t) \<and> hasVar (flagName t) (env h) \<noteq> None"
    and "keptBut {} h u" "fired ts u v"
  shows "fired (t # ts) g v"
proof -
  have flags: "flagsOf (t # ts) = flagsOf [t] \<union> flagsOf ts" by (auto simp: flagsOf_def)
  have hv: "keptBut (flagsOf ts) h v" using keptBut_trans [OF assms(4)] assms(5) by (simp add: fired_def)
  have le: "length (scopes (env v)) \<le> length (scopes (env u))" "length (scopes (env u)) \<le> length (scopes (env h))"
    using assms(4,5) by (auto simp: fired_def keptBut_def)
  have "holdsTrue v y" if same: "length (scopes (env v)) = length (scopes (env g))" and y: "y \<in> flagsOf (t # ts)" for y
  proof (cases "y \<in> flagsOf ts")
    case True
    with assms(2,5) le same show ?thesis by (simp add: fired_def)
  next
    case False
    with y have t: "hasFlag t" "y = flagName t" by (auto simp: flagsOf_def)
    with assms(3) obtain i where i: "hasVar y (env h) = Some i" "holdsTrue h y" by auto
    from hv have "\<forall>i. hasVar y (env h) = Some i \<longrightarrow> length (scopes (env h)) - length (scopes (env v)) \<le> i \<longrightarrow>
        fst (getVal (getVariable y (env v)) (mem v)) = fst (getVal (getVariable y (env h)) (mem h))"
      using False unfolding keptBut_def by metis
    with i same assms(2) show ?thesis by (simp add: holdsTrue_fst)
  qed
  with keptBut_trans [OF assms(1) hv] show ?thesis by (simp add: fired_def flags)
qed

lemma toUnsigned_length: "int n \<le> INT_MAX \<Longrightarrow> toUnsigned (int n) = int n"
  by (rule toUnsigned_id) (simp_all add: INT_MAX_def)

lemma exitUpTo_timer:
  assumes "wfEnv h" "nodesOk rt (scopes (env h))" "1 \<le> k" "int (length (scopes (env h))) \<le> INT_MAX" "length (scopes (env h)) \<le> n"
    and "timers (env h) = []"
  defines "u \<equiv> h\<lparr>env := (env h)\<lparr>scopes := drop (length (scopes (env h)) - nat k) (scopes (env h))\<rparr>\<rparr>"
  shows "exitUpTo n rt now k h = (Inr (), u)" "wfEnv u"
    "int (length (scopes (env u))) = (if k < int (length (scopes (env h))) then k else int (length (scopes (env h))))"
    "k < int (length (scopes (env h))) \<Longrightarrow> toUnsigned k = k"
proof -
  have ne: "0 < length (scopes (env h))" "0 < nat k" using wfEnvD(5) [OF assms(1)] assms(3) by auto
  then have "length (scopes (env h)) - nat k < n" using assms(5) by linarith
  then show "exitUpTo n rt now k h = (Inr (), u)"
    unfolding u_def by (intro exitUpTo_run [OF wfEnvD(3) [OF assms(1)] _ assms(2)]) (use assms in auto)
  show "wfEnv u" using ne unfolding u_def by (intro wfEnv_drop [OF assms(1)]) auto
  show "int (length (scopes (env u))) = (if k < int (length (scopes (env h))) then k else int (length (scopes (env h))))"
    using assms(3) by (auto simp: u_def)
  show "k < int (length (scopes (env h))) \<Longrightarrow> toUnsigned k = k"
    using assms(3,4) toUnsigned_length [of "nat k"] by auto
qed

lemma fireTimers_run:
  assumes "wfEnv g" "timers (env g) = []" "nodesOk rt (scopes (env g))" "list_all (\<lambda>t. 1 \<le> scopeid t) ts"
    "int (length (scopes (env g))) \<le> INT_MAX" "length (scopes (env g)) \<le> n"
  shows "\<exists>h. fireTimers n rt now ts (int (length (scopes (env g)))) next g =
      (Inr (snd (jump ts (int (length (scopes (env g)))) next)), h) \<and> wfEnv h \<and> envLe g h \<and> timers (env h) = [] \<and>
    int (length (scopes (env h))) = fst (jump ts (int (length (scopes (env g)))) next) \<and> fired ts g h"
  using assms
proof (induction ts arbitrary: g "next")
  case (Cons t ts)
  obtain h where h: "(if hasFlag t then setVariable (flagName t) (fromValue (VBool True)) else ok ()) g = (Inr (), h)"
    "wfEnv h" "envLe g h" "length (scopes (env h)) = length (scopes (env g))" "timers (env h) = timers (env g)"
    "map ctrlFlow (scopes (env h)) = map ctrlFlow (scopes (env g))" "keptBut (flagsOf [t]) g h"
    "hasFlag t \<Longrightarrow> holdsTrue h (flagName t) \<and> hasVar (flagName t) (env h) \<noteq> None"
    using setVariable_value_run [OF Cons.prems(1), of "VBool True" "flagName t"] setVariable_kept [OF Cons.prems(1), of "flagName t"]
      Cons.prems(1)
    by (cases "hasFlag t") (auto simp: ok_run env_logic.le_refl keptBut_refl flagsOf_single)
  have nodes: "nodesOk rt (scopes (env h))" using Cons.prems(3) nodesOk_cong [OF h(6)] by simp
  show ?case
  proof (cases "timerType t = STOP")
    case False
    have "\<exists>u. fireTimers n rt now ts (int (length (scopes (env h)))) next h =
      (Inr (snd (jump ts (int (length (scopes (env h)))) next)), u) \<and> wfEnv u \<and> envLe h u \<and> timers (env u) = [] \<and>
      int (length (scopes (env u))) = fst (jump ts (int (length (scopes (env h)))) next) \<and> fired ts h u"
      by (rule Cons.IH) (use Cons.prems h nodes in auto)
    with False h env_logic.le_trans [OF h(3)] show ?thesis
      by (auto simp: andThen_def intro: fired_Cons [OF h(7,4,8) keptBut_refl])
  next
    case True
    let ?k = "scopeid t" and ?scs = "scopes (env h)"
    let ?u = "h\<lparr>env := (env h)\<lparr>scopes := drop (length ?scs - nat ?k) ?scs\<rparr>\<rparr>"
    have k: "1 \<le> ?k" using Cons.prems(4) by simp
    have "int (length ?scs) \<le> INT_MAX" "length ?scs \<le> n" "timers (env h) = []"
      using Cons.prems(2,5,6) h(4,5) by simp_all
    note run = exitUpTo_timer(1) [OF h(2) nodes k this] and wf = exitUpTo_timer(2) [OF h(2) nodes k this]
      and len = exitUpTo_timer(3) [OF h(2) nodes k this] and K = exitUpTo_timer(4) [OF h(2) nodes k this]
    have L: "toInt (int (length (scopes (env g)))) = int (length (scopes (env g)))"
      using Cons.prems(5) by (rule toInt_length)
    define nx where "nx = (if ?k < int (length ?scs) then nextRuleNode t else next)"
    have "\<exists>v. fireTimers n rt now ts (int (length (scopes (env ?u)))) nx ?u =
      (Inr (snd (jump ts (int (length (scopes (env ?u)))) nx)), v) \<and> wfEnv v \<and> envLe ?u v \<and> timers (env v) = [] \<and>
      int (length (scopes (env v))) = fst (jump ts (int (length (scopes (env ?u)))) nx) \<and> fired ts ?u v"
      by (rule Cons.IH [OF wf]) (use Cons.prems h nodes in \<open>auto intro: nodesOk_drop\<close>)
    then obtain v where v: "fireTimers n rt now ts (int (length (scopes (env ?u)))) nx ?u =
      (Inr (snd (jump ts (int (length (scopes (env ?u)))) nx)), v)" "wfEnv v" "envLe ?u v" "timers (env v) = []"
      "int (length (scopes (env v))) = fst (jump ts (int (length (scopes (env ?u)))) nx)" "fired ts ?u v" by blast
    have "keptBut {} h ?u" by (rule keptBut_drop) simp
    from fired_Cons [OF h(7,4,8) this v(6)] have "fired (t # ts) g v" .
    have "envLe g v" using env_logic.le_trans [OF h(3), of v] v(3) by (simp add: envLe_def)
    moreover note \<open>fired (t # ts) g v\<close>
    moreover have "fireTimers n rt now (t # ts) (int (length (scopes (env g)))) next g =
       fireTimers n rt now ts (int (length (scopes (env ?u)))) nx ?u"
      using True run h(1,4) K L unfolding len nx_def by (simp add: andThen_def)
    moreover have "jump (t # ts) (int (length (scopes (env g)))) next = jump ts (int (length (scopes (env ?u)))) nx"
      using True h(4) unfolding len nx_def by simp
    ultimately show ?thesis using v by auto
  qed
qed (auto simp: ok_run env_logic.le_refl fired_Nil)

end

