(* ===== verification/GameInstance.thy ===== *)
theory GameInstance
  imports EnvMgrLaws
begin

text \<open>
  \<open>src/gameinstance.cpp\<close>: a game instance with its environment, its players and the messages waiting for
  them (\<open>PlayerHandler\<close>). The two \<open>shared_ptr\<close> members are options: \<open>None\<close> is \<open>nullptr\<close>. Tasks and factories
  that hold the same \<open>shared_ptr\<close> refer to the member of the instance. A program runs on a \<open>session\<close>: the
  store of the variables and one instance.
\<close>

section \<open>State\<close>

type_synonym msgType = "(string, string) smap"

record Msg =
  playerIds :: string
  message :: msgType

record GameInstance =
  gameInstanceName :: string
  gameInstanceId :: int
  numMaxPlayers :: nat
  currPlayerCount :: nat
  envMgr :: "EnvironmentManager option"
  playerHandler :: "Msg list option"
  currTask :: "nat option"
  converter :: "nat option"          \<comment> \<open>the address of the converter\<close>
  playerVars :: "(string, varType) smap"

record session =
  smem :: store
  inst :: GameInstance

definition newGameInstance :: "string \<Rightarrow> int \<Rightarrow> GameInstance" where
  "newGameInstance name i = \<lparr>gameInstanceName = name, gameInstanceId = i, numMaxPlayers = 6, currPlayerCount = 0,
     envMgr = Some newEnvironment, playerHandler = Some [], currTask = None, converter = None, playerVars = []\<rparr>"

text \<open>A program on the store, and one on the store and the environment, run in a session.\<close>

definition inStore :: "(store, 'a) prog \<Rightarrow> (session, 'a) prog" where
  "inStore = zoom smem (\<lambda>s t. t\<lparr>smem := s\<rparr>)"

definition inGame :: "(game, 'a) prog \<Rightarrow> (session, 'a) prog" where
  "inGame m = (\<lambda>t. case envMgr (inst t) of
      None \<Rightarrow> (Inl UB, t)
    | Some e \<Rightarrow> (case m \<lparr>mem = smem t, env = e\<rparr> of
        (r, g) \<Rightarrow> (r, t\<lparr>smem := mem g, inst := (inst t)\<lparr>envMgr := Some (env g)\<rparr>\<rparr>)))"

definition readVariable :: "string \<Rightarrow> (game, ptr) prog" where
  "readVariable name = andThen getState (\<lambda>g. ok (getVariable name (env g)))"

section \<open>\<open>GameInstance\<close>\<close>

text \<open>The loop over \<open>playerVars\<close> in \<open>addPlayerToGame\<close>.\<close>

primrec addVars :: "(string \<times> varType) list \<Rightarrow> (string, ptr) smap \<Rightarrow> (store, (string, ptr) smap) prog" where
  "addVars [] newPlayer = ok newPlayer"
| "addVars (pair # vars) newPlayer =
     andThen (makeShared (snd pair)) (\<lambda>a. addVars vars (mapPut (fst pair) (Some a) newPlayer))"

definition makePlayer :: "int \<Rightarrow> string \<Rightarrow> (string, varType) smap \<Rightarrow> (store, (string, ptr) smap) prog" where
  "makePlayer playerId username vars =
     andThen (makeVarPtr [VInt playerId]) (\<lambda>i.
     andThen (makeVarPtr [VString username]) (\<lambda>n.
       addVars vars (mapPut ''name'' (Some n) (mapPut ''id'' (Some i) []))))"

definition addPlayerToGame :: "int \<Rightarrow> string \<Rightarrow> (session, unit) prog" where
  "addPlayerToGame playerId username = andThen getState (\<lambda>t.
     if currPlayerCount (inst t) \<ge> numMaxPlayers (inst t) then ok ()
     else
       andThen (inGame (readVariable ''player'')) (\<lambda>found.
       andThen (if found = None
                then andThen (inGame (setVariable ''player'' (fromValue (VList [])))) (\<lambda>_.
                     inGame (readVariable ''player''))
                else ok found) (\<lambda>playerList.
       andThen (inStore (makePlayer playerId username (playerVars (inst t)))) (\<lambda>newPlayer.
       andThen (inStore (getRef playerList)) (\<lambda>ref.
         inStore (push_back ref (VVarMap newPlayer)))))))"

text \<open>
  \<open>setConverter\<close> makes an owning pointer of a reference; the pointer the instance held before is released, which deletes
  its converter. The second part of the state are the converters that exist and were made by \<open>new\<close>: deleting any other is
  undefined.
\<close>

definition setConverter :: "nat \<Rightarrow> (session \<times> nat list, unit) prog" where
  "setConverter a = andThen getState (\<lambda>(t, live).
     andThen (modify (\<lambda>(t, live). (t\<lparr>inst := (inst t)\<lparr>converter := Some a\<rparr>\<rparr>, live))) (\<lambda>_.
       case converter (inst t) of
         None \<Rightarrow> ok ()
       | Some old \<Rightarrow> if old \<in> set live then modify (\<lambda>(t, live). (t, remove1 old live)) else raise UB))"

definition getTask :: "GameInstance \<Rightarrow> nat option" where
  "getTask i = currTask i"

definition convertTask :: "nodePtr \<Rightarrow> nat option" where
  "convertTask node = None"

section \<open>\<open>PlayerHandler\<close>\<close>

definition queueMessage :: "string \<Rightarrow> msgType \<Rightarrow> (session, unit) prog" where
  "queueMessage ids msg = andThen getState (\<lambda>t.
     case playerHandler (inst t) of
       None \<Rightarrow> raise UB
     | Some messages \<Rightarrow> modify (\<lambda>t. t\<lparr>inst := (inst t)\<lparr>playerHandler :=
         Some (messages @ [\<lparr>playerIds = ids, message = msg\<rparr>])\<rparr>\<rparr>))"

definition getAllMsgs :: "(session, Msg list) prog" where
  "getAllMsgs = andThen getState (\<lambda>t. fromOption UB (playerHandler (inst t)))"

definition clearAllMessages :: "(session, unit) prog" where
  "clearAllMessages = andThen getState (\<lambda>t.
     case playerHandler (inst t) of
       None \<Rightarrow> raise UB
     | Some _ \<Rightarrow> modify (\<lambda>t. t\<lparr>inst := (inst t)\<lparr>playerHandler := Some []\<rparr>\<rparr>))"

section \<open>How they run\<close>

lemma inStore_run [run_simps]: "m (smem t) = (r, s) \<Longrightarrow> inStore m t = (r, t\<lparr>smem := s\<rparr>)"
  by (simp add: inStore_def zoom_def)

lemma inGame_run [run_simps]:
  "envMgr (inst t) = Some e \<Longrightarrow> m \<lparr>mem = smem t, env = e\<rparr> = (r, g) \<Longrightarrow>
    inGame m t = (r, t\<lparr>smem := mem g, inst := (inst t)\<lparr>envMgr := Some (env g)\<rparr>\<rparr>)"
  by (simp add: inGame_def)

text \<open>An instance that is given its own converter again keeps the address of a converter that is gone.\<close>

lemma setConverter_again:
  assumes "converter (inst t) = Some a" "distinct live"
  shows "setConverter a (t, live) =
    (if a \<in> set live then (Inr (), (t, remove1 a live)) else (Inl UB, (t, live))) \<and> a \<notin> set (remove1 a live)"
proof -
  have "inst t\<lparr>converter := Some a\<rparr> = inst t" using assms(1) by (cases "inst t") simp
  then show ?thesis using assms by (cases t) (simp add: setConverter_def andThen_def run_simps)
qed

lemma readVariable_run [run_simps]: "readVariable name g = (Inr (getVariable name (env g)), g)"
  by (simp add: readVariable_def andThen_def run_simps)

lemma queueMessage_run [run_simps]:
  "playerHandler (inst t) = Some ms \<Longrightarrow> queueMessage ids msg t =
     (Inr (), t\<lparr>inst := (inst t)\<lparr>playerHandler := Some (ms @ [\<lparr>playerIds = ids, message = msg\<rparr>])\<rparr>\<rparr>)"
  by (simp add: queueMessage_def andThen_def run_simps)

end
