(* ===== verification/EnvMgrProps.thy ===== *)
theory EnvMgrProps
  imports EnvMgrLaws
begin

text \<open>
  The properties of the environment: what is reachable, variables and shadowing, loops over lists, timers
  and the end of the game.
\<close>

section \<open>Variables\<close>

text \<open>
  C16: After a value is set under a name, the name reads back the value and every other name refers to the
  variable it referred to before. When a scope already had the name, it is the innermost such scope that
  changes; otherwise the innermost scope gets the variable. No other scope changes. The scope a name is looked
  up in is the innermost one that has it.
\<close>

theorem set_then_get_variable:
  assumes "scopes (env g) \<noteq> []"
  shows "\<exists>h. setVariable name (fromValue v) g = (Inr (), h) \<and>
    getVal (getVariable name (env h)) (mem h) = (Inr v, mem h) \<and>
    (\<forall>y. y \<noteq> name \<longrightarrow> getVariable y (env h) = getVariable y (env g)) \<and>
    hasVar name (env h) = Some (case hasVar name (env g) of None \<Rightarrow> 0 | Some i \<Rightarrow> i) \<and>
    (\<forall>j. Some j \<noteq> hasVar name (env h) \<longrightarrow> j < length (scopes (env g)) \<longrightarrow> scopes (env h) ! j = scopes (env g) ! j) \<and>
    (\<forall>i. hasVar name (env g) = Some i \<longrightarrow> scopeHasVar (scopes (env g) ! i) name \<and>
       (\<forall>j < i. \<not> scopeHasVar (scopes (env g) ! j) name))"
proof -
  let ?i = "assignScope name (env g)" and ?p = "Some (Suc (brk (mem g)))"
  have b: "?i < length (scopes (env g))" by (rule assignScope_bound [OF assms])
  have "findScope (scopes (env g)) name = Some ?i \<or> findScope (scopes (env g)) name = None \<and> ?i = 0"
    by (auto simp: assignScope_def hasVar_def split: option.splits)
  note put = findScope_put [OF this b, of ?p] getVariable_put [where p = ?p and name = name, OF assms refl]
  show ?thesis
    unfolding setVariable_run [OF assms]
    by (intro exI conjI, rule refl) (use put findScope_innermost in \<open>auto simp: run_simps hasVar_def assignScope_def\<close>)
qed

text \<open>A game with two scopes over the store of the samples: \<open>x\<close> in the outer one, \<open>y\<close> in the inner one.\<close>

definition sampleGame :: game where
  "sampleGame = \<lparr>mem = sampleStore, env = \<lparr>scopes =
     [\<lparr>variables = [(''y'', Some 11)], isParallel = False, timerId = -1,
        ctrlFlow = Some \<lparr>cfNode = Some 0, loopVarName = '''', range = None, exiting = True\<rparr>\<rparr>,
      \<lparr>variables = [(''x'', Some 10)], isParallel = False, timerId = -1, ctrlFlow = None\<rparr>],
     timers = []\<rparr>\<rparr>"

theorem set_then_get_variable_witness:
  "\<exists>h. setVariable ''x'' (fromValue (VInt 1)) sampleGame = (Inr (), h) \<and>
    getVal (getVariable ''x'' (env h)) (mem h) = (Inr (VInt 1), mem h) \<and>
    (\<forall>y. y \<noteq> ''x'' \<longrightarrow> getVariable y (env h) = getVariable y (env sampleGame)) \<and>
    hasVar ''x'' (env h) = Some (case hasVar ''x'' (env sampleGame) of None \<Rightarrow> 0 | Some i \<Rightarrow> i) \<and>
    (\<forall>j. Some j \<noteq> hasVar ''x'' (env h) \<longrightarrow> j < length (scopes (env sampleGame)) \<longrightarrow>
       scopes (env h) ! j = scopes (env sampleGame) ! j) \<and>
    (\<forall>i. hasVar ''x'' (env sampleGame) = Some i \<longrightarrow> scopeHasVar (scopes (env sampleGame) ! i) ''x'' \<and>
       (\<forall>j < i. \<not> scopeHasVar (scopes (env sampleGame) ! j) ''x''))"
  by (rule set_then_get_variable) (simp add: sampleGame_def)

section \<open>Reachable environments\<close>

lemma exitUpTo_upholds: "wfEnv g \<Longrightarrow> upholds wfEnv envLe g (exitUpTo n rt now k) (\<lambda>_ _. True)"
proof (induction n arbitrary: g)
  case (Suc n)
  then show ?case
    by (auto intro!: upholds_getStateThen env_logic.cond env_logic.ok env_logic.andThen [OF exitScope_upholds])
qed (simp add: env_logic.raise)

lemma fireTimers_upholds: "wfEnv g \<Longrightarrow> upholds wfEnv envLe g (fireTimers n rt now ts d p) (\<lambda>_ _. True)"
proof (induction ts arbitrary: g d p)
  case (Cons t ts)
  show ?case unfolding fireTimers.simps
    by (rule env_logic.andThen [OF setVariable_flag_upholds [OF Cons.prems]])
      (auto intro!: env_logic.cond env_logic.andThen [OF exitUpTo_upholds] Cons.IH)
qed (simp add: env_logic.ok)

lemma updateTimers_upholds:
  assumes "wfEnv g"
  shows "upholds wfEnv envLe g (updateTimers n rt now) (\<lambda>_ _. True)"
proof -
  have clear: "upholds wfEnv envLe g (onEnv (modify (\<lambda>e. e\<lparr>timers := []\<rparr>))) (\<lambda>_ _. True)"
    by (rule onEnv_modify) (use assms wfEnvD [OF assms] in \<open>auto simp: timersOk_def sortedMap_def\<close>)
  show ?thesis
    unfolding updateTimers_def
    by (rule upholds_getStateThen, rule env_logic.andThen [OF clear], rule fireTimers_upholds)
qed

text \<open>The reachable environments: any order of operations of the manager and of its variables. The
  bound on a timer's scope says that the number of scopes fits an \<open>int\<close>. What gets a second owner by
  \<open>set(index, Variable &)\<close> on a list is taken to live on (see \<open>setValueVar\<close>).\<close>

inductive envReach :: "ruleMem \<Rightarrow> platform \<Rightarrow> game \<Rightarrow> bool" for rt pf where
  start: "envReach rt pf \<lparr>mem = emptyStore, env = newEnvironment\<rparr>"
| enter: "envReach rt pf g \<Longrightarrow> envReach rt pf (snd (enterScope rt pf node g))"
| enterTimer: "envReach rt pf g \<Longrightarrow> int (length (scopes (env g))) \<le> INT_MAX \<Longrightarrow>
    envReach rt pf (snd (enterScopeTimer rt now node timer g))"
| exit: "envReach rt pf g \<Longrightarrow> envReach rt pf (snd (exitScope rt now force g))"
| fire: "envReach rt pf g \<Longrightarrow> envReach rt pf (snd (updateTimers n rt now g))"
| set: "envReach rt pf g \<Longrightarrow> valOk (mem g) v \<Longrightarrow> envReach rt pf (snd (setVariable name (fromValue v) g))"
| setPtr: "envReach rt pf g \<Longrightarrow> ptrOk (mem g) p \<Longrightarrow> envReach rt pf (snd (setVariable name (ok p) g))"
| vars: "envReach rt pf g \<Longrightarrow> argsOk (mem g) op \<Longrightarrow> envReach rt pf (snd (onStore (runOp pf op) g))"

lemma envReach_wf:
  assumes "envReach rt pf g" "\<forall>l. mset (shuffleList pf l) = mset l"
  shows "wfEnv g"
  using assms(1)
proof induction
  case start
  show ?case by (rule wfEnv_new)
next
  case (set g v name)
  then show ?case
    using setVariable_upholds [OF set.IH safe_fromValue, of v name] wfEnvD(1) by (auto simp: upholds_def)
next
  case (setPtr g p name)
  then show ?case
    using setVariable_upholds [OF setPtr.IH, of "ok p" name] wfEnvD(1) by (auto simp: upholds_def intro: safe_ok)
next
  case (vars g op)
  have "set (shuffleList pf l) \<subseteq> set l" for l
    using assms(2) by (metis mset_eq_setD subset_refl)
  from onStore_upholds [OF vars.IH safe_runOp [OF wfEnvD(1) [OF vars.IH] vars.hyps(2) this]]
  show ?case by (simp add: upholds_def)
qed (use enterScope_upholds enterScopeTimer_upholds exitScope_upholds updateTimers_upholds in
     \<open>simp_all add: upholds_def\<close>)

text \<open>
  C1: Whatever operations run on the environment of a game, also when they throw: the root scope is never
  removed, every variable of every scope and every loop range is alive, and no timer belongs to the root
  scope. In particular \<open>exitScope\<close> never reports the end of the game: \<open>GameOverException\<close> is unreachable.
\<close>

theorem game_over_unreachable:
  assumes "envReach rt pf g" "\<forall>l. mset (shuffleList pf l) = mset l"
  shows "wfEnv g \<and> scopes (env g) \<noteq> [] \<and> ctrlFlow (last (scopes (env g))) = None \<and>
    fst (exitScope rt now force g) \<noteq> Inl GameOver"
proof -
  have wf: "wfEnv g" by (rule envReach_wf [OF assms])
  have "rootLast scs \<Longrightarrow> ctrlFlow (last scs) = None" for scs
    by (induction scs rule: rootLast.induct) auto
  with wf wfEnvD(3,5) [OF wf] exitScope_no_GameOver [of g] show ?thesis by blast
qed

lemma reach_exit_root:
  "envReach rt plainPlatform (snd (exitScope rt 0 True \<lparr>mem = emptyStore, env = newEnvironment\<rparr>))"
  by (intro envReach.exit envReach.start)

theorem game_over_unreachable_witness:
  "wfEnv (snd (exitScope Map.empty 0 True \<lparr>mem = emptyStore, env = newEnvironment\<rparr>)) \<and>
   scopes (env (snd (exitScope Map.empty 0 True \<lparr>mem = emptyStore, env = newEnvironment\<rparr>))) \<noteq> [] \<and>
   ctrlFlow (last (scopes (env (snd (exitScope Map.empty 0 True \<lparr>mem = emptyStore, env = newEnvironment\<rparr>))))) = None \<and>
   fst (exitScope Map.empty 0 True (snd (exitScope Map.empty 0 True \<lparr>mem = emptyStore, env = newEnvironment\<rparr>))) \<noteq> Inl GameOver"
  by (rule game_over_unreachable [OF reach_exit_root]) (simp add: plainPlatform_def)

section \<open>Timers\<close>

lemma updateTimers_run:
  assumes "wfEnv g" "nodesOk rt (scopes (env g))" "int (length (scopes (env g))) \<le> INT_MAX"
    "length (scopes (env g)) \<le> n"
  shows "\<exists>h. updateTimers n rt now g =
      (Inr (snd (jump (map snd (timers (env g))) (int (length (scopes (env g)))) None)), h) \<and> wfEnv h \<and>
    timers (env h) = [] \<and>
    int (length (scopes (env h))) = fst (jump (map snd (timers (env g))) (int (length (scopes (env g)))) None) \<and>
    fired (map snd (timers (env g))) g h"
proof -
  let ?u = "g\<lparr>env := (env g)\<lparr>timers := []\<rparr>\<rparr>"
  have wf: "wfEnv ?u" using assms(1) by (simp add: wfEnv_def timersOk_def sortedMap_def)
  have "list_all (\<lambda>t. 1 \<le> scopeid t) (map snd (timers (env g)))"
    using wfEnvD(4) [OF assms(1)] by (auto simp: timersOk_def list_all_iff)
  moreover have "fired ts ?u h = fired ts g h" for ts h
    by (simp add: fired_def keptBut_def hasVar_def getVariable_def)
  ultimately show ?thesis
    using fireTimers_run [OF wf, of rt "map snd (timers (env g))" n now None] assms
    by (auto simp: updateTimers_def andThen_def run_simps toUnsigned_length)
qed

text \<open>
  C7: Firing the timers returns, with as much fuel as there are scopes, and depends neither on the clock
  nor on any expiry time: every timer fires and is dropped. If no STOP timer belongs to a scope
  inside the current depth, no scope is left, nothing is jumped to, and the flag of every timer holds \<open>true\<close>. Otherwise
  scopes are left down to the least scope of a STOP timer, and the node to go to is that of the first STOP timer of it,
  in the order of the ids; then the flag of every timer holds \<open>true\<close> that was found in a scope that remains. Every
  other variable that was found in a scope that remains is the same variable, with the same value.
\<close>

theorem updateTimers_jumps:
  assumes "wfEnv g" "nodesOk rt (scopes (env g))" "int (length (scopes (env g))) \<le> INT_MAX"
    and "length (scopes (env g)) \<le> n" and "ts = map snd (timers (env g))" "d = int (length (scopes (env g)))"
  shows "\<exists>h p. updateTimers n rt now g = (Inr p, h) \<and> wfEnv h \<and> timers (env h) = [] \<and>
    ((\<forall>t \<in> set ts. timerType t = STOP \<longrightarrow> d \<le> scopeid t) \<and> int (length (scopes (env h))) = d \<and> p = None \<and>
       (\<forall>t \<in> set ts. hasFlag t \<longrightarrow>
          getVal (getVariable (flagName t) (env h)) (mem h) = (Inr (VBool True), mem h)) \<or>
     (\<exists>us t vs. ts = us @ t # vs \<and> timerType t = STOP \<and> scopeid t < d \<and>
        (\<forall>u \<in> set us. timerType u = STOP \<longrightarrow> scopeid t < scopeid u) \<and>
        (\<forall>u \<in> set vs. timerType u = STOP \<longrightarrow> scopeid t \<le> scopeid u) \<and>
        int (length (scopes (env h))) = scopeid t \<and> p = nextRuleNode t)) \<and>
    (\<forall>t i. t \<in> set ts \<longrightarrow> hasFlag t \<longrightarrow> hasVar (flagName t) (env g) = Some i \<longrightarrow>
       d - int (length (scopes (env h))) \<le> int i \<longrightarrow>
       getVal (getVariable (flagName t) (env h)) (mem h) = (Inr (VBool True), mem h)) \<and>
    (\<forall>y i. (\<forall>t \<in> set ts. hasFlag t \<longrightarrow> flagName t \<noteq> y) \<longrightarrow> hasVar y (env g) = Some i \<longrightarrow>
       d - int (length (scopes (env h))) \<le> int i \<longrightarrow>
       getVariable y (env h) = getVariable y (env g) \<and>
       fst (getVal (getVariable y (env h)) (mem h)) = fst (getVal (getVariable y (env g)) (mem g)))"
proof -
  from updateTimers_run [OF assms(1-4), of now] obtain h where
    h: "updateTimers n rt now g = (Inr (snd (jump ts d None)), h)" "wfEnv h" "timers (env h) = []"
      "int (length (scopes (env h))) = fst (jump ts d None)" and f: "fired ts g h" unfolding assms(5,6) by blast
  have all: "\<forall>t \<in> set ts. hasFlag t \<longrightarrow> holdsTrue h (flagName t)" if "fst (jump ts d None) = d"
    using f that h(4) assms(6) by (auto simp: fired_def flagsOf_def)
  note kept = fired_kept [OF f, folded assms(6)]
  show ?thesis
    unfolding holdsTrue_def [symmetric]
    by (intro exI [of _ h] exI [of _ "snd (jump ts d None)"] conjI h(1-3) kept [THEN conjunct1] kept [THEN conjunct2])
      (use jump_cases [of ts d None] all h(4) in auto)
qed

text \<open>
  A game with a STOP timer on its second scope and a timer on its third scope, whose flag the root scope holds.
\<close>

definition timerGame :: game where
  "timerGame = \<lparr>mem = sampleStore\<lparr>cells := (cells sampleStore)(0 \<mapsto> VBool False)\<rparr>, env = \<lparr>scopes =
     [\<lparr>variables = [], isParallel = False, timerId = 5,
        ctrlFlow = Some \<lparr>cfNode = Some 0, loopVarName = '''', range = None, exiting = True\<rparr>\<rparr>,
      \<lparr>variables = [(''y'', Some 11)], isParallel = False, timerId = 3,
        ctrlFlow = Some \<lparr>cfNode = Some 0, loopVarName = '''', range = None, exiting = True\<rparr>\<rparr>,
      rootScope\<lparr>variables := [(''late'', Some 10), (''z'', Some 11)]\<rparr>],
     timers = [(3, \<lparr>timerIdOf = 3, nextRuleNode = Some 1, scopeid = 1, timerType = STOP, flagName = '''',
         duration = 60, expireTime = Some 1000\<rparr>),
       (5, \<lparr>timerIdOf = 5, nextRuleNode = Some 2, scopeid = 2, timerType = REGUALR, flagName = ''late'',
         duration = 60, expireTime = Some 1000\<rparr>)]\<rparr>\<rparr>"

definition plainNode :: RuleNode where
  "plainNode = \<lparr>control = False, data = [], nodeType = MESSAGE, nextNode = None, parentNode = None, children = []\<rparr>"

lemma timerGame_wf: "wfEnv timerGame"
proof -
  have "wfStore (mem timerGame)"
    unfolding timerGame_def by (simp, rule wfStore_write [OF sample_wf]) simp_all
  then show ?thesis
    by (auto simp: wfEnv_def timerGame_def scopeOk_def rangeOk_def rootScope_def timersOk_def sortedMap_def ptrOk_def)
qed

theorem updateTimers_jumps_witness:
  "\<exists>h p. updateTimers 3 [0 \<mapsto> plainNode] 0 timerGame = (Inr p, h) \<and> p = Some 1 \<and> timers (env h) = [] \<and>
    length (scopes (env h)) = 1 \<and> getVal (getVariable ''late'' (env h)) (mem h) = (Inr (VBool True), mem h) \<and>
    fst (getVal (getVariable ''z'' (env h)) (mem h)) = Inr (VString ''b'')"
proof -
  let ?ts = "map snd (timers (env timerGame))"
  have pre: "nodesOk [0 \<mapsto> plainNode] (scopes (env timerGame))" "int (length (scopes (env timerGame))) \<le> INT_MAX"
    "length (scopes (env timerGame)) \<le> 3"
    by (simp_all add: timerGame_def nodesOk_def rootScope_def INT_MAX_def)
  have vars: "hasVar ''late'' (env timerGame) = Some 2" "hasVar ''z'' (env timerGame) = Some 2"
    "fst (getVal (getVariable ''z'' (env timerGame)) (mem timerGame)) = Inr (VString ''b'')"
    by (simp_all add: timerGame_def hasVar_def getVariable_def scopeHasVar_def scopeGetVariable_def rootScope_def run_simps)
  have stop: "t \<in> set ?ts \<Longrightarrow> timerType t = STOP \<Longrightarrow> scopeid t = 1 \<and> nextRuleNode t = Some 1"
    "\<exists>t \<in> set ?ts. timerType t = STOP \<and> scopeid t = 1" "int (length (scopes (env timerGame))) = 3" for t
    by (auto simp: timerGame_def)
  from updateTimers_jumps [OF timerGame_wf pre refl refl, of 0] obtain h p where
    h: "updateTimers 3 [0 \<mapsto> plainNode] 0 timerGame = (Inr p, h)" "timers (env h) = []"
    and j: "(\<forall>t \<in> set ?ts. timerType t = STOP \<longrightarrow> 3 \<le> scopeid t) \<or>
       (\<exists>us t vs. ?ts = us @ t # vs \<and> timerType t = STOP \<and> int (length (scopes (env h))) = scopeid t \<and> p = nextRuleNode t)"
    and f: "\<And>t i. t \<in> set ?ts \<Longrightarrow> hasFlag t \<Longrightarrow> hasVar (flagName t) (env timerGame) = Some i \<Longrightarrow>
       3 - int (length (scopes (env h))) \<le> int i \<Longrightarrow>
       getVal (getVariable (flagName t) (env h)) (mem h) = (Inr (VBool True), mem h)"
    and k: "\<And>y i. \<forall>t \<in> set ?ts. hasFlag t \<longrightarrow> flagName t \<noteq> y \<Longrightarrow> hasVar y (env timerGame) = Some i \<Longrightarrow>
       3 - int (length (scopes (env h))) \<le> int i \<Longrightarrow>
       fst (getVal (getVariable y (env h)) (mem h)) = fst (getVal (getVariable y (env timerGame)) (mem timerGame))"
    unfolding stop(3) by blast
  from j stop(2) obtain us t vs where t: "?ts = us @ t # vs" "timerType t = STOP"
    "int (length (scopes (env h))) = scopeid t" "p = nextRuleNode t" by auto
  with stop(1) [of t] have n: "int (length (scopes (env h))) = 1" "p = Some 1" by auto
  have "getVal (getVariable ''late'' (env h)) (mem h) = (Inr (VBool True), mem h)"
    using f [of "snd (timers (env timerGame) ! 1)" 2] vars(1) n by (simp add: timerGame_def hasFlag_def)
  moreover have "fst (getVal (getVariable ''z'' (env h)) (mem h)) = Inr (VString ''b'')"
    using k [of "''z''" 2] vars(2,3) n by (simp add: timerGame_def hasFlag_def)
  ultimately show ?thesis using h n by simp
qed

section \<open>Leaving a scope\<close>

text \<open>
  Leaving a scope (with force, or when its loop is done) whose PAD timer has not expired reports
  \<open>shouldBlock\<close>, and leaves the scope all the same: the scope is popped, the node after it is returned, and
  the timer stays. Once the timer has expired it is removed, unless it has a flag.
\<close>

theorem exitScope_pad_timer:
  assumes "scopes (env g) = sc # rest" "ctrlFlow sc = Some cf" "cfNode cf = Some a" "rt a = Some n"
    and "force \<or> exiting cf"
    and "map_of (timers (env g)) (timerId sc) = Some t" "timerType t = PAD" "expireTime t = Some e"
  shows "exitScope rt now force g = (Inr (now \<le> e, nextNode n),
    g\<lparr>env := (env g)\<lparr>scopes := rest,
       timers := (if now \<le> e \<or> hasFlag t then timers (env g) else mapErase (timerId sc) (timers (env g)))\<rparr>\<rparr>)"
  using assms by (auto simp: exitScope_def andThen_def run_simps nodeOf_def isExpired_def)

definition padTimer :: Timer where
  "padTimer = \<lparr>timerIdOf = 3, nextRuleNode = None, scopeid = 1, timerType = PAD, flagName = '''', duration = 60,
     expireTime = Some 65\<rparr>"

definition padScope :: Scope where
  "padScope = \<lparr>variables = [], isParallel = False, timerId = 3,
     ctrlFlow = Some \<lparr>cfNode = Some 0, loopVarName = '''', range = None, exiting = True\<rparr>\<rparr>"

definition padGame :: game where
  "padGame = \<lparr>mem = emptyStore, env = \<lparr>scopes = [padScope, rootScope], timers = [(3, padTimer)]\<rparr>\<rparr>"

theorem exitScope_pad_timer_witness:
  "exitScope [0 \<mapsto> plainNode] 5 True padGame =
   (Inr ((5::int) \<le> 65, nextNode plainNode), padGame\<lparr>env := (env padGame)\<lparr>scopes := [rootScope],
       timers := (if (5::int) \<le> 65 \<or> hasFlag padTimer then timers (env padGame)
         else mapErase (timerId padScope) (timers (env padGame)))\<rparr>\<rparr>)"
  by (rule exitScope_pad_timer [of _ padScope _ "\<lparr>cfNode = Some 0, loopVarName = '''', range = None, exiting = True\<rparr>" 0])
    (simp_all add: padGame_def padScope_def padTimer_def)

section \<open>Loops\<close>

definition itemsHold :: "store \<Rightarrow> addr \<Rightarrow> ptr list \<Rightarrow> varType list \<Rightarrow> bool" where
  "itemsHold s c items vs \<longleftrightarrow>
     list_all2 (\<lambda>p v. \<exists>q d. p = Some q \<and> objs s q = Some d \<and> d \<noteq> c \<and> cells s d = Some v) items vs"

lemma itemsHold_mono:
  assumes "itemsHold s c items vs"
    and "\<And>q d. objs s q = Some d \<Longrightarrow> objs t q = Some d"
    and "\<And>d v. d \<noteq> c \<Longrightarrow> cells s d = Some v \<Longrightarrow> cells t d = Some v"
  shows "itemsHold t c items vs"
  using assms unfolding itemsHold_def by (elim list_all2_mono) blast

text \<open>A loop in progress: the front scope is that of the node \<open>a\<close>, which draws from the list in \<open>c\<close>.\<close>

definition looping :: "game \<Rightarrow> nat \<Rightarrow> string \<Rightarrow> addr \<Rightarrow> bool \<Rightarrow> nat \<Rightarrow> bool" where
  "looping g a x c done d \<longleftrightarrow> (\<exists>sc rest. scopes (env g) = sc # rest \<and> length rest = d \<and> timerId sc = -1 \<and>
     ctrlFlow sc = Some \<lparr>cfNode = Some a, loopVarName = x, range = Some c, exiting = done\<rparr>)"

lemma findScope_exiting: "findScope (scopes (setExiting b e)) name = findScope (scopes e) name"
  by (cases "scopes e") (simp_all add: setExiting_def scopeHasVar_def)

lemma getVariable_exiting: "getVariable name (setExiting b e) = getVariable name e"
  unfolding getVariable_def hasVar_def findScope_exiting
  by (cases "scopes e") (auto simp: setExiting_def scopeGetVariable_def nth_Cons' split: option.splits)

lemma updateLoop_run:
  assumes wf: "wfEnv g" and loop: "looping g a x c b d"
    and l: "cells (mem g) c = Some (VList (p # ps))" "itemsHold (mem g) c (p # ps) (v # vs)"
    and len: "int (length (p # ps)) \<le> INT_MAX"
    and cf: "cf = \<lparr>cfNode = Some a, loopVarName = x, range = Some c, exiting = b\<rparr>" "getNext rt cf = (ok ch :: (game, nodePtr) prog)"
  shows "\<exists>h. updateLoop rt pf cf g = (Inr ch, h) \<and> wfEnv h \<and> looping h a x c (ps = []) d \<and>
    timers (env h) = timers (env g) \<and> cells (mem h) c = Some (VList ps) \<and> itemsHold (mem h) c ps vs \<and>
    getVal (getVariable x (env h)) (mem h) = (Inr v, mem h)"
proof -
  from l(2) obtain q e where q: "p = Some q" "objs (mem g) q = Some e" "e \<noteq> c" "cells (mem g) e = Some v"
    and rest: "itemsHold (mem g) c ps vs" by (auto simp: itemsHold_def)
  have ne: "scopes (env g) \<noteq> []" using loop by (auto simp: looping_def)
  define i where "i = assignScope x (env g)"
  define B where "B = brk (mem g)"
  define m1 where "m1 = (mem g)\<lparr>objs := (objs (mem g))(Suc B \<mapsto> B), cells := (cells (mem g))(B \<mapsto> v), brk := Suc (Suc B)\<rparr>"
  define e1 where "e1 = (env g)\<lparr>scopes := (scopes (env g))[i := scopeSetVariable x (Some (Suc B)) (scopes (env g) ! i)]\<rparr>"
  define m2 where "m2 = m1\<lparr>cells := (cells m1)(c \<mapsto> VList ps)\<rparr>"
  define h where "h = \<lparr>mem = m2, env = setExiting (ps = []) e1\<rparr>"
  have below: "c < B" "q < B" "e < B"
    using wfStore_below [OF wfEnvD(1) [OF wf]] l(1) q unfolding B_def by blast+
  have set: "setVariable x (fromValue v) g = (Inr (), \<lparr>mem = m1, env = e1\<rparr>)"
    using setVariable_run [OF ne] by (simp add: m1_def e1_def i_def B_def)
  have get: "get_at c (VInt 0) (mem g) = (Inr p, mem g)"
    using get_at_run [OF l(1) len, of 0] by (simp add: isInt_def INT_MIN_def INT_MAX_def)
  have m1c: "cells m1 c = Some (VList (p # ps))" using l(1) below by (simp add: m1_def)
  have del: "remove_at c (VInt 0) m1 = (Inr (), m2)"
    using remove_at_run [OF m1c len, of 0] by (simp add: isInt_def INT_MIN_def INT_MAX_def m2_def Let_def)
  have size: "sizeOf pf c (mem g) = (Inr (Suc (length ps)), mem g)"
    using l(1) by (simp add: sizeOf_def andThen_def run_simps varSize_def)
  have size2: "sizeOf pf c m2 = (Inr (length ps), m2)"
    by (simp add: sizeOf_def andThen_def run_simps varSize_def m2_def)
  have run: "updateLoop rt pf cf g = (Inr ch, h)"
    using q set get del size size2
    by (simp add: updateLoop_def cf(1) cf(2) [unfolded cf(1)] andThen_def run_simps onStore_run onEnv_run h_def)
  have wfh: "wfEnv h" using env_logic.outcome [OF updateLoop_upholds [OF wf] run] by blast
  have "looping h a x c (ps = []) d"
  proof -
    from loop obtain sc rest' where sc: "scopes (env g) = sc # rest'" "length rest' = d" "timerId sc = -1"
      "ctrlFlow sc = Some \<lparr>cfNode = Some a, loopVarName = x, range = Some c, exiting = b\<rparr>"
      by (auto simp: looping_def)
    then show ?thesis
      by (cases i) (auto simp: looping_def h_def e1_def setExiting_def scopeSetVariable_def)
  qed
  moreover have "timers (env h) = timers (env g)"
    by (simp add: h_def e1_def setExiting_def split: list.splits)
  moreover have "cells (mem h) c = Some (VList ps)" by (simp add: h_def m2_def)
  moreover have "itemsHold (mem h) c ps vs"
  proof (rule itemsHold_mono [OF rest])
    show "objs (mem h) q = Some d" if "objs (mem g) q = Some d" for q d
      using that wfStore_below(1) [OF wfEnvD(1) [OF wf] that] by (auto simp: h_def m2_def m1_def B_def)
    show "cells (mem h) d = Some v" if "d \<noteq> c" "cells (mem g) d = Some v" for d v
      using that wfStore_below(2) [OF wfEnvD(1) [OF wf] that(2)] by (auto simp: h_def m2_def m1_def B_def)
  qed
  moreover have "getVal (getVariable x (env h)) (mem h) = (Inr v, mem h)"
    using getVariable_put(1) [OF ne, of i x "Some (Suc B)"] below
    by (auto simp: h_def getVariable_exiting e1_def i_def run_simps m2_def m1_def)
  ultimately show ?thesis using run wfh by blast
qed

text \<open>The driver: read the loop variable, leave the scope, and enter the node again when that is where
  leaving it leads. It collects the values the loop variable takes.\<close>

primrec loopRun :: "nat \<Rightarrow> ruleMem \<Rightarrow> platform \<Rightarrow> int \<Rightarrow> nat \<Rightarrow> string \<Rightarrow> (game, varType list \<times> nodePtr) prog" where
  "loopRun 0 rt pf now a x = raise OutOfFuel"
| "loopRun (Suc n) rt pf now a x = andThen getState (\<lambda>g.
     andThen (onStore (getVal (getVariable x (env g)))) (\<lambda>v.
     andThen (exitScope rt now False) (\<lambda>(shouldBlock, goto).
       if goto = Some a
       then andThen (enterScope rt pf (Some a)) (\<lambda>_.
            andThen (loopRun n rt pf now a x) (\<lambda>(vs, p). ok (v # vs, p)))
       else ok ([v], goto))))"

lemma wfEnv_clear:
  assumes "wfEnv g" "scopes (env g) = sc # rest"
  shows "wfEnv (g\<lparr>env := (env g)\<lparr>scopes := sc\<lparr>variables := []\<rparr> # rest\<rparr>\<rparr>)"
  using assms by (auto simp: wfEnv_def scopeOk_def sortedMap_def rootLast_Cons)

lemma loopRun_visits:
  assumes "rt a = Some n" "nextNode n \<noteq> Some a"
    and nxt: "\<And>b. getNext rt \<lparr>cfNode = Some a, loopVarName = x, range = Some c, exiting = b\<rparr> = (ok ch :: (game, nodePtr) prog)"
  shows "wfEnv g \<Longrightarrow> looping g a x c (ps = []) d \<Longrightarrow> map_of (timers (env g)) (-1) = None \<Longrightarrow>
    cells (mem g) c = Some (VList ps) \<Longrightarrow> itemsHold (mem g) c ps vs \<Longrightarrow> int (length ps) \<le> INT_MAX \<Longrightarrow>
    getVal (getVariable x (env g)) (mem g) = (Inr v, mem g) \<Longrightarrow>
    \<exists>h. loopRun (Suc (length vs)) rt pf now a x g = (Inr (v # vs, nextNode n), h) \<and>
      cells (mem h) c = Some (VList []) \<and> length (scopes (env h)) = d"
proof (induction vs arbitrary: g ps v)
  case Nil
  then have ps: "ps = []" by (simp add: itemsHold_def)
  from Nil.prems(2) obtain sc rest where sc: "scopes (env g) = sc # rest" "length rest = d" "timerId sc = -1"
      "ctrlFlow sc = Some \<lparr>cfNode = Some a, loopVarName = x, range = Some c, exiting = True\<rparr>"
    by (auto simp: looping_def ps)
  have "exitScope rt now False g = (Inr (False, nextNode n), g\<lparr>env := (env g)\<lparr>scopes := rest\<rparr>\<rparr>)"
    using sc assms(1) Nil.prems(3) by (simp add: exitScope_def andThen_def run_simps nodeOf_def)
  then show ?case
    using sc assms(2) Nil.prems(4,7) ps by (simp add: andThen_def run_simps onStore_run)
next
  case (Cons w vs)
  from Cons.prems(5) obtain p ps' where ps: "ps = p # ps'"
    by (auto simp: itemsHold_def list_all2_Cons2)
  from Cons.prems(2) obtain sc rest where sc: "scopes (env g) = sc # rest" "length rest = d" "timerId sc = -1"
      "ctrlFlow sc = Some \<lparr>cfNode = Some a, loopVarName = x, range = Some c, exiting = False\<rparr>"
    by (auto simp: looping_def ps)
  let ?u = "g\<lparr>env := (env g)\<lparr>scopes := sc\<lparr>variables := []\<rparr> # rest\<rparr>\<rparr>"
  let ?cf = "\<lparr>cfNode = Some a, loopVarName = x, range = Some c, exiting = False\<rparr>"
  have exit: "exitScope rt now False g = (Inr (False, Some a), ?u)"
    using sc Cons.prems(3) by (simp add: exitScope_def andThen_def run_simps)
  have wf: "wfEnv ?u" by (rule wfEnv_clear [OF Cons.prems(1) sc(1)])
  have loop: "looping ?u a x c False d" using sc by (simp add: looping_def)
  have "cells (mem ?u) c = Some (VList (p # ps'))" "itemsHold (mem ?u) c (p # ps') (w # vs)"
    "int (length (p # ps')) \<le> INT_MAX" using Cons.prems ps by simp_all
  from updateLoop_run [OF wf loop this refl nxt] obtain h where
    h: "updateLoop rt pf ?cf ?u = (Inr ch, h)" "wfEnv h" "looping h a x c (ps' = []) d"
      "timers (env h) = timers (env ?u)" "cells (mem h) c = Some (VList ps')" "itemsHold (mem h) c ps' vs"
      "getVal (getVariable x (env h)) (mem h) = (Inr w, mem h)" by metis
  have enter: "enterScope rt pf (Some a) ?u = (Inr ch, h)"
    using h(1) sc by (simp add: enterScope_def andThen_def run_simps)
  from Cons.IH [OF h(2,3) _ h(5,6) _ h(7)] h(4) Cons.prems(3,6) ps obtain k where
    k: "loopRun (Suc (length vs)) rt pf now a x h = (Inr (w # vs, nextNode n), k)"
      "cells (mem k) c = Some (VList [])" "length (scopes (env k)) = d" by auto
  have "loopRun (Suc (length (w # vs))) rt pf now a x g = (Inr (v # w # vs, nextNode n), k)"
    unfolding loopRun.simps(2) [of "length (w # vs)"]
    using exit enter k(1) Cons.prems(7)
    by (simp add: andThen_def run_simps onStore_run del: loopRun.simps)
  with k(2,3) show ?case by blast
qed

text \<open>A loop node as the environment expects it: the element in the second, the list in the third entry of
  its data, and a body under the key true.\<close>

definition loopNode :: "ruleMem \<Rightarrow> nat \<Rightarrow> RuleNode \<Rightarrow> string \<Rightarrow> string \<Rightarrow> nodePtr \<Rightarrow> bool" where
  "loopNode rt a n x listName ch \<longleftrightarrow> rt a = Some n \<and> (nodeType n = FOR \<or> nodeType n = PARALLEL) \<and>
     2 < length (data n) \<and> data n ! 1 \<noteq> [] \<and> data n ! 1 ! 0 = x \<and>
     1 < length (data n ! 2) \<and> data n ! 2 ! 1 = listName \<and>
     getChildWithKey n [''true''] = Inr \<lparr>key = [''true''], child = ch\<rparr>"

definition notInLoop :: "game \<Rightarrow> nat \<Rightarrow> bool" where
  "notInLoop g a \<longleftrightarrow> (case scopes (env g) of [] \<Rightarrow> True
     | sc # _ \<Rightarrow> (case ctrlFlow sc of None \<Rightarrow> True | Some cf \<Rightarrow> cfNode cf \<noteq> Some a))"

lemma getNext_loop:
  assumes "loopNode rt a n x l ch"
  shows "getNext rt \<lparr>cfNode = Some a, loopVarName = y, range = r, exiting = b\<rparr> = (ok ch :: ('s, nodePtr) prog)"
  using assms by (auto simp: getNext_def loopNode_def nodeOf_def run_simps)

lemma enterScope_loop:
  assumes "loopNode rt a n x l ch" "notInLoop g a"
    and "getVariable l (env g) = Some q" "objs (mem g) q = Some c" "cells (mem g) c = Some (VList items)"
  defines "cf \<equiv> \<lparr>cfNode = Some a, loopVarName = x, range = Some c, exiting = True\<rparr>"
  shows "\<exists>u. enterScope rt pf (Some a) g = updateLoop rt pf cf u \<and> looping u a x c True (length (scopes (env g))) \<and>
    mem u = mem g \<and> timers (env u) = timers (env g) \<and> (\<forall>y. getVariable y (env u) = getVariable y (env g)) \<and>
    (wfEnv g \<longrightarrow> wfEnv u)"
proof -
  note node = assms(1) [unfolded loopNode_def]
  define sc where "sc = \<lparr>variables = [], isParallel = (nodeType n = PARALLEL), timerId = -1, ctrlFlow = Some cf\<rparr>"
  let ?u = "g\<lparr>env := (env g)\<lparr>scopes := sc # scopes (env g)\<rparr>\<rparr>"
  have cf: "newControlFlow rt (Some a) g = (Inr cf, g)"
    using node assms(3-5)
    by (auto simp: newControlFlow_def nodeOf_def vectorAt_def andThen_def run_simps onStore_run cf_def)
  have new: "newScope rt (Some a) g = (Inr sc, g)"
    using node cf by (simp add: newScope_def nodeOf_def andThen_def run_simps sc_def)
  have nxt: "getNext rt cf g = (Inr ch, g)"
    by (simp add: getNext_loop [OF assms(1)] cf_def run_simps)
  have "enterScope rt pf (Some a) g = updateLoop rt pf cf ?u"
    using assms(2) new nxt node
    by (auto simp: enterScope_def notInLoop_def andThen_def run_simps nodeOf_def pushScope_def onEnv_run sc_def
        split: list.splits option.splits)
  moreover have "looping ?u a x c True (length (scopes (env g)))" by (simp add: looping_def sc_def cf_def)
  moreover have "getVariable y (env ?u) = getVariable y (env g)" for y
    by (simp add: getVariable_def hasVar_def scopeHasVar_def sc_def split: option.splits)
  moreover have "wfEnv ?u" if "wfEnv g"
    using that assms(5) wfEnvD(5) [OF that]
    by (simp add: wfEnv_def scopeOk_def sc_def cf_def rangeOk_def sortedMap_def rootLast_Cons)
  ultimately show ?thesis by (intro exI [of _ ?u]) simp
qed

text \<open>
  C6: A loop over a list with at least one item runs its body once per item, in order: the loop variable
  takes the values of the items one after the other, then the scope is left and the node after the loop
  is returned. The loop consumes its list: the list variable is empty afterwards.
\<close>

theorem for_loop_visits_in_order:
  assumes "wfEnv g" "loopNode rt a n x l ch" "nextNode n \<noteq> Some a" "notInLoop g a"
    and "getVariable l (env g) = Some q" "objs (mem g) q = Some c" "cells (mem g) c = Some (VList items)"
    and "itemsHold (mem g) c items (v # vs)" "int (length items) \<le> INT_MAX" "map_of (timers (env g)) (-1) = None"
  shows "\<exists>h. andThen (enterScope rt pf (Some a)) (\<lambda>_. loopRun (length (v # vs)) rt pf now a x) g =
      (Inr (v # vs, nextNode n), h) \<and>
    cells (mem h) c = Some (VList []) \<and> length (scopes (env h)) = length (scopes (env g))"
proof -
  from enterScope_loop [OF assms(2,4-7)] assms(1) obtain u where
    u: "enterScope rt pf (Some a) g =
        updateLoop rt pf \<lparr>cfNode = Some a, loopVarName = x, range = Some c, exiting = True\<rparr> u"
      "looping u a x c True (length (scopes (env g)))" "mem u = mem g" "timers (env u) = timers (env g)" "wfEnv u"
    by blast
  from assms(8) obtain p ps where ps: "items = p # ps" by (auto simp: itemsHold_def list_all2_Cons2)
  from updateLoop_run [OF u(5,2), of p ps v vs _ rt ch pf, OF _ _ _ refl getNext_loop [OF assms(2)]] assms(7-9) u(3) ps
  obtain h where
    h: "updateLoop rt pf \<lparr>cfNode = Some a, loopVarName = x, range = Some c, exiting = True\<rparr> u = (Inr ch, h)"
      "wfEnv h" "looping h a x c (ps = []) (length (scopes (env g)))" "timers (env h) = timers (env u)"
      "cells (mem h) c = Some (VList ps)" "itemsHold (mem h) c ps vs"
      "getVal (getVariable x (env h)) (mem h) = (Inr v, mem h)"
    by auto
  have rt: "rt a = Some n" using assms(2) by (simp add: loopNode_def)
  from loopRun_visits [of rt a n x c ch, OF rt assms(3) getNext_loop [OF assms(2)] h(2,3) _ h(5,6) _ h(7)]
    h(4) u(4) assms(9,10) ps obtain k where
    k: "loopRun (Suc (length vs)) rt pf now a x h = (Inr (v # vs, nextNode n), k)"
      "cells (mem k) c = Some (VList [])" "length (scopes (env k)) = length (scopes (env g))"
    by auto
  then show ?thesis using u(1) h(1) by (simp add: andThen_def del: loopRun.simps)
qed

definition sampleLoop :: RuleNode where
  "sampleLoop = \<lparr>control = True, data = [[''for''], [''p''], [''in'', ''players'']], nodeType = FOR,
     nextNode = Some 7, parentNode = None, children = [\<lparr>key = [''true''], child = Some 6\<rparr>]\<rparr>"

definition loopGame :: game where
  "loopGame = \<lparr>mem = sampleStore, env = \<lparr>scopes =
     [\<lparr>variables = [(''players'', Some 12)], isParallel = False, timerId = -1, ctrlFlow = None\<rparr>], timers = []\<rparr>\<rparr>"

lemma loopGame_wf: "wfEnv loopGame"
  by (simp add: wfEnv_def loopGame_def sample_wf scopeOk_def timersOk_def sortedMap_def ptrOk_def)

lemma sampleLoop_node: "loopNode [5 \<mapsto> sampleLoop] 5 sampleLoop ''p'' ''players'' (Some 6)"
  by (simp add: loopNode_def sampleLoop_def getChildWithKey_def)

lemma loopGame_simps:
  "getVariable ''players'' (env loopGame) = Some 12" "mem loopGame = sampleStore" "timers (env loopGame) = []"
  "notInLoop loopGame a" "nextNode sampleLoop = Some 7" "length (scopes (env loopGame)) = 1"
  by (simp_all add: loopGame_def getVariable_def hasVar_def scopeHasVar_def scopeGetVariable_def notInLoop_def
      sampleLoop_def)

theorem for_loop_visits_in_order_witness:
  "\<exists>h. andThen (enterScope [5 \<mapsto> sampleLoop] plainPlatform (Some 5))
       (\<lambda>_. loopRun (length [VInt 7, VString ''b'']) [5 \<mapsto> sampleLoop] plainPlatform 0 5 ''p'') loopGame =
      (Inr ([VInt 7, VString ''b''], nextNode sampleLoop), h) \<and>
    cells (mem h) 2 = Some (VList []) \<and> length (scopes (env h)) = length (scopes (env loopGame))"
  by (rule for_loop_visits_in_order [OF loopGame_wf sampleLoop_node, of 12 2 "[Some 10, Some 11]"])
    (simp_all add: loopGame_simps itemsHold_def INT_MAX_def)

text \<open>
  A loop over an empty list is not skipped: \<open>enterScope\<close> returns the body all the same, and the loop
  variable is whatever an outer scope has under that name, or nothing; leaving the scope then goes on
  after the loop.
\<close>

theorem empty_loop_enters_body:
  assumes "loopNode rt a n x l ch" "notInLoop g a"
    and "getVariable l (env g) = Some q" "objs (mem g) q = Some c" "cells (mem g) c = Some (VList [])"
    and "map_of (timers (env g)) (-1) = None"
  shows "\<exists>h k. enterScope rt pf (Some a) g = (Inr ch, h) \<and> length (scopes (env h)) = Suc (length (scopes (env g))) \<and>
    getVariable x (env h) = getVariable x (env g) \<and>
    exitScope rt now False h = (Inr (False, nextNode n), k) \<and> length (scopes (env k)) = length (scopes (env g))"
proof -
  from enterScope_loop [OF assms(1-5)] obtain u where
    u: "enterScope rt pf (Some a) g =
        updateLoop rt pf \<lparr>cfNode = Some a, loopVarName = x, range = Some c, exiting = True\<rparr> u"
      "looping u a x c True (length (scopes (env g)))" "mem u = mem g" "timers (env u) = timers (env g)"
      "getVariable x (env u) = getVariable x (env g)"
    by blast
  have "sizeOf pf c (mem u) = (Inr 0, mem u)"
    using assms(5) u(3) by (simp add: sizeOf_def andThen_def run_simps varSize_def)
  then have "enterScope rt pf (Some a) g = (Inr ch, u)"
    unfolding u(1) by (simp add: updateLoop_def andThen_def run_simps onStore_run getNext_loop [OF assms(1)])
  moreover from u(2) obtain sc rest where sc: "scopes (env u) = sc # rest" "length rest = length (scopes (env g))"
      "timerId sc = -1" "ctrlFlow sc = Some \<lparr>cfNode = Some a, loopVarName = x, range = Some c, exiting = True\<rparr>"
    by (auto simp: looping_def)
  moreover have "exitScope rt now False u = (Inr (False, nextNode n), u\<lparr>env := (env u)\<lparr>scopes := rest\<rparr>\<rparr>)"
    using sc assms(1,6) u(4) by (simp add: exitScope_def andThen_def run_simps nodeOf_def loopNode_def)
  ultimately show ?thesis using u(5)
    by (intro exI [of _ u] exI [of _ "u\<lparr>env := (env u)\<lparr>scopes := rest\<rparr>\<rparr>"]) simp
qed

definition emptyLoopGame :: game where
  "emptyLoopGame = loopGame\<lparr>mem := sampleStore\<lparr>cells := (cells sampleStore)(2 \<mapsto> VList [])\<rparr>\<rparr>"

theorem empty_loop_enters_body_witness:
  "\<exists>h k. enterScope [5 \<mapsto> sampleLoop] plainPlatform (Some 5) emptyLoopGame = (Inr (Some 6), h) \<and>
    length (scopes (env h)) = Suc (length (scopes (env emptyLoopGame))) \<and>
    getVariable ''p'' (env h) = getVariable ''p'' (env emptyLoopGame) \<and>
    exitScope [5 \<mapsto> sampleLoop] 0 False h = (Inr (False, nextNode sampleLoop), k) \<and>
    length (scopes (env k)) = length (scopes (env emptyLoopGame))"
  by (rule empty_loop_enters_body [OF sampleLoop_node, of _ 12 2])
    (use loopGame_simps in \<open>simp_all add: emptyLoopGame_def notInLoop_def\<close>)

end

