(* ===== verification/GameProps.thy ===== *)
theory GameProps
  imports GameInstance EnvMgrProps
begin

text \<open>The properties of game instances: joining a game, and the queue of messages.\<close>

section \<open>The queue of messages\<close>

text \<open>The contract of a queue of messages that is read as a whole and cleared as a whole.\<close>

locale outbox =
  fixes enqueue :: "'m \<Rightarrow> ('s, unit) prog" and readAll :: "('s, 'm list) prog" and clear :: "('s, unit) prog"
    and contents :: "'s \<Rightarrow> 'm list" and live :: "'s \<Rightarrow> bool"
  assumes enqueue_law: "live s \<Longrightarrow> \<exists>t. enqueue m s = (Inr (), t) \<and> live t \<and> contents t = contents s @ [m]"
    and read_law: "live s \<Longrightarrow> readAll s = (Inr (contents s), s)"
    and clear_law: "live s \<Longrightarrow> \<exists>t. clear s = (Inr (), t) \<and> live t \<and> contents t = []"
begin

lemma enqueue_all:
  "live s \<Longrightarrow> \<exists>t. forEach ms enqueue s = (Inr (), t) \<and> live t \<and> contents t = contents s @ ms"
proof (induction ms arbitrary: s)
  case (Cons m ms)
  from enqueue_law [OF Cons.prems] obtain u where "enqueue m s = (Inr (), u)" "live u" "contents u = contents s @ [m]"
    by blast
  with Cons.IH [of u] show ?case by (auto simp: andThen_def)
qed (simp add: run_simps)

lemma clear_then_read:
  assumes "live s"
  shows "\<exists>t. andThen clear (\<lambda>_. andThen (forEach ms enqueue) (\<lambda>_. readAll)) s = (Inr ms, t)"
proof -
  from clear_law [OF assms] obtain u where u: "clear s = (Inr (), u)" "live u" "contents u = []" by blast
  from enqueue_all [OF u(2), of ms] u(3) obtain t where
    "forEach ms enqueue u = (Inr (), t)" "live t" "contents t = ms" by auto
  with u(1) read_law [of t] show ?thesis by (simp add: andThen_def)
qed

end

definition queueMsg :: "Msg \<Rightarrow> (session, unit) prog" where
  "queueMsg m = queueMessage (playerIds m) (message m)"

definition waiting :: "session \<Rightarrow> Msg list" where
  "waiting t = (case playerHandler (inst t) of None \<Rightarrow> [] | Some ms \<Rightarrow> ms)"

interpretation handler_box: outbox queueMsg getAllMsgs clearAllMessages waiting "\<lambda>t. playerHandler (inst t) \<noteq> None"
  by unfold_locales
    (auto simp: queueMsg_def queueMessage_def getAllMsgs_def clearAllMessages_def waiting_def andThen_def run_simps)

text \<open>
  The messages for the players are delivered in the order they were queued, none lost and none
  repeated: after clearing the handler and queuing any messages, reading all gives exactly those.
\<close>

theorem messages_in_order:
  assumes "playerHandler (inst t) \<noteq> None"
  shows "\<exists>u. andThen clearAllMessages (\<lambda>_. andThen (forEach ms (\<lambda>m. queueMessage (playerIds m) (message m)))
      (\<lambda>_. getAllMsgs)) t = (Inr ms, u)"
  using handler_box.clear_then_read [OF assms, of ms] unfolding queueMsg_def .

definition sampleSession :: session where
  "sampleSession = \<lparr>smem = emptyStore, inst = newGameInstance ''rps'' 1\<rparr>"

theorem messages_in_order_witness:
  "\<exists>u. andThen clearAllMessages (\<lambda>_. andThen (forEach [\<lparr>playerIds = ''1'', message = []\<rparr>]
      (\<lambda>m. queueMessage (playerIds m) (message m))) (\<lambda>_. getAllMsgs)) sampleSession =
    (Inr [\<lparr>playerIds = ''1'', message = []\<rparr>], u)"
  by (rule messages_in_order) (simp add: sampleSession_def newGameInstance_def)

section \<open>Joining a game\<close>

text \<open>\<open>grows s t c\<close>: what lists and variables hold outside the cell \<open>c\<close> in \<open>s\<close> they hold in \<open>t\<close>.\<close>

definition grows :: "store \<Rightarrow> store \<Rightarrow> addr \<Rightarrow> bool" where
  "grows s t c \<longleftrightarrow> (\<forall>p w. holdsVal s c p w \<longrightarrow> holdsVal t c p w) \<and> (\<forall>vs. building s c vs \<longrightarrow> building t c vs) \<and>
     (\<forall>a < brk s. objs t a = objs s a) \<and> brk s \<le> brk t"

lemma grows_refl: "grows s s c"
  by (simp add: grows_def)

lemma grows_trans: "grows s t c \<Longrightarrow> grows t u c \<Longrightarrow> grows s u c"
  unfolding grows_def by (metis order_less_le_trans order_trans)

lemma makeShared_grows:
  assumes "c < brk s" "makeShared v s = (Inr a, t)"
  shows "grows s t c" "holdsVal t c (Some a) v"
proof -
  have t: "a = Suc (brk s)" "t = s\<lparr>objs := (objs s)(Suc (brk s) \<mapsto> brk s), cells := (cells s)(brk s \<mapsto> v), brk := Suc (Suc (brk s))\<rparr>"
    using assms(2) by (auto simp: makeShared_run)
  have mono: "holdsVal s c p w \<Longrightarrow> holdsVal t c p w" for p w
    unfolding t holdsVal_def by (elim exE conjE) (auto simp: less_Suc_eq)
  moreover have "building s c vs \<Longrightarrow> building t c vs" for vs
    using list_all2_mono [of "holdsVal s c" _ vs "holdsVal t c"] mono assms(1)
    unfolding building_def by (auto simp: t)
  ultimately show "grows s t c" by (simp add: grows_def t)
  show "holdsVal t c (Some a) v" using assms(1) by (simp add: t holdsVal_def)
qed

lemma addVars_grows:
  "c < brk s \<Longrightarrow> \<exists>m t. addVars vars m0 s = (Inr m, t) \<and> grows s t c \<and>
     (\<forall>k. k \<notin> fst ` set vars \<longrightarrow> map_of m k = map_of m0 k)"
proof (induction vars arbitrary: s m0)
  case Nil
  show ?case by (simp add: run_simps grows_refl)
next
  case (Cons pair vars)
  obtain a u where u: "makeShared (snd pair) s = (Inr a, u)" by (simp add: makeShared_run)
  note g = makeShared_grows(1) [OF Cons.prems u]
  have "c < brk u" using g Cons.prems by (auto simp: grows_def)
  from Cons.IH [OF this, of "mapPut (fst pair) (Some a) m0"] obtain m t where
    t: "addVars vars (mapPut (fst pair) (Some a) m0) u = (Inr m, t)" "grows u t c"
      "\<forall>k. k \<notin> fst ` set vars \<longrightarrow> map_of m k = map_of (mapPut (fst pair) (Some a) m0) k" by blast
  then show ?case using u grows_trans [OF g t(2)]
    by (auto simp: andThen_def map_of_mapPut)
qed

definition holdsPlayer :: "store \<Rightarrow> addr \<Rightarrow> varType \<Rightarrow> int \<times> string \<Rightarrow> bool" where
  "holdsPlayer s c v p \<longleftrightarrow> (\<exists>m i n. v = VVarMap m \<and> map_of m ''id'' = Some i \<and> map_of m ''name'' = Some n \<and>
     holdsVal s c i (VInt (fst p)) \<and> holdsVal s c n (VString (snd p)))"

lemma holdsPlayer_mono: "grows s t c \<Longrightarrow> holdsPlayer s c v p \<Longrightarrow> holdsPlayer t c v p"
  unfolding grows_def holdsPlayer_def by blast

lemma makePlayer_grows:
  assumes "c < brk s" "''id'' \<notin> fst ` set vars" "''name'' \<notin> fst ` set vars"
  shows "\<exists>m t. makePlayer i nm vars s = (Inr m, t) \<and> grows s t c \<and> holdsPlayer t c (VVarMap m) (i, nm)"
proof -
  obtain a u where u: "makeShared (VInt i) s = (Inr a, u)" by (simp add: makeShared_run)
  note g1 = makeShared_grows [OF assms(1) u]
  have cu: "c < brk u" using g1(1) assms(1) by (auto simp: grows_def)
  obtain b w where w: "makeShared (VString nm) u = (Inr b, w)" by (simp add: makeShared_run)
  note g2 = makeShared_grows [OF cu w]
  have cw: "c < brk w" using g2(1) cu by (auto simp: grows_def)
  from addVars_grows [OF cw, of vars "mapPut ''name'' (Some b) (mapPut ''id'' (Some a) [])"] obtain m t where
    t: "addVars vars (mapPut ''name'' (Some b) (mapPut ''id'' (Some a) [])) w = (Inr m, t)" "grows w t c"
      "\<forall>k. k \<notin> fst ` set vars \<longrightarrow> map_of m k = map_of (mapPut ''name'' (Some b) (mapPut ''id'' (Some a) [])) k"
    by blast
  have "holdsVal t c (Some a) (VInt i)" "holdsVal t c (Some b) (VString nm)"
    using g1(2) g2 t(2) by (auto simp: grows_def)
  moreover have "map_of m ''id'' = Some (Some a)" "map_of m ''name'' = Some (Some b)"
    using t(3) assms(2,3) by (simp_all add: map_of_mapPut)
  moreover have "makePlayer i nm vars s = (Inr m, t)"
    using u w t(1) by (simp add: makePlayer_def makeVarPtr_def andThen_def)
  moreover have "grows s t c" using grows_trans [OF g1(1)] grows_trans [OF g2(1) t(2)] by blast
  ultimately show ?thesis unfolding holdsPlayer_def by auto
qed

text \<open>\<open>joined t ps\<close>: the variable \<open>player\<close> is a list of the players \<open>ps\<close>, and the game takes more.\<close>

definition joined :: "session \<Rightarrow> (int \<times> string) list \<Rightarrow> bool" where
  "joined t ps \<longleftrightarrow> (\<exists>e q c vs. envMgr (inst t) = Some e \<and> scopes e \<noteq> [] \<and> getVariable ''player'' e = Some q \<and>
     q < brk (smem t) \<and> objs (smem t) q = Some c \<and> building (smem t) c vs \<and>
     list_all2 (holdsPlayer (smem t) c) vs ps) \<and>
   currPlayerCount (inst t) < numMaxPlayers (inst t) \<and>
   ''id'' \<notin> fst ` set (playerVars (inst t)) \<and> ''name'' \<notin> fst ` set (playerVars (inst t))"

lemma addPlayer_joined:
  assumes "joined t ps"
  shows "\<exists>u. addPlayerToGame i nm t = (Inr (), u) \<and> joined u (ps @ [(i, nm)])"
proof -
  from assms obtain e q c vs where
    e: "envMgr (inst t) = Some e" "scopes e \<noteq> []" "getVariable ''player'' e = Some q"
    and q: "q < brk (smem t)" "objs (smem t) q = Some c"
    and b: "building (smem t) c vs" "list_all2 (holdsPlayer (smem t) c) vs ps"
    and open_: "currPlayerCount (inst t) < numMaxPlayers (inst t)"
      "''id'' \<notin> fst ` set (playerVars (inst t))" "''name'' \<notin> fst ` set (playerVars (inst t))"
    by (auto simp: joined_def)
  have c: "c < brk (smem t)" using b(1) by (simp add: building_def)
  from makePlayer_grows [OF c open_(2,3), of i nm] obtain m s1 where
    s1: "makePlayer i nm (playerVars (inst t)) (smem t) = (Inr m, s1)" "grows (smem t) s1 c"
      "holdsPlayer s1 c (VVarMap m) (i, nm)" by blast
  have b1: "building s1 c vs" "list_all2 (holdsPlayer s1 c) vs ps" "objs s1 q = Some c" "q < brk s1"
    using s1(2) b q list_all2_mono [OF b(2), of "holdsPlayer s1 c"] holdsPlayer_mono [OF s1(2)]
    by (auto simp: grows_def)
  from building_push [OF b1(1), of "VVarMap m"] obtain s2 where
    s2: "push_back c (VVarMap m) s1 = (Inr (), s2)" "building s2 c (vs @ [VVarMap m])"
      "\<forall>p w. holdsVal s1 c p w \<longrightarrow> holdsVal s2 c p w" "\<forall>a < brk s1. objs s2 a = objs s1 a" "brk s1 \<le> brk s2"
    by blast
  have hp: "holdsPlayer s1 c v p \<Longrightarrow> holdsPlayer s2 c v p" for v p
    using s2(3) unfolding holdsPlayer_def by blast
  have "list_all2 (holdsPlayer s2 c) (vs @ [VVarMap m]) (ps @ [(i, nm)])"
    using list_all2_mono [OF b1(2), of "holdsPlayer s2 c"] hp s1(3) by (auto intro: list_all2_appendI)
  then have "joined (t\<lparr>smem := s2\<rparr>) (ps @ [(i, nm)])"
    unfolding joined_def using e q b1 s2 open_ by auto
  moreover have "addPlayerToGame i nm t = (Inr (), t\<lparr>smem := s2\<rparr>)"
    using e s1(1) s2(1) b1(3) open_(1)
    by (simp add: addPlayerToGame_def andThen_def run_simps inGame_run [OF e(1)])
  ultimately show ?thesis by blast
qed

lemma addPlayers_joined:
  "joined t ps \<Longrightarrow> \<exists>u. forEach qs (\<lambda>(i, nm). addPlayerToGame i nm) t = (Inr (), u) \<and> joined u (ps @ qs)"
proof (induction qs arbitrary: t ps)
  case (Cons q qs)
  obtain i nm where q: "q = (i, nm)" by (cases q)
  from addPlayer_joined [OF Cons.prems, of i nm] obtain u where
    u: "addPlayerToGame i nm t = (Inr (), u)" "joined u (ps @ [(i, nm)])" by blast
  from Cons.IH [OF u(2)] u(1) show ?case by (auto simp: andThen_def q)
qed (simp add: run_simps)

text \<open>A game nobody has joined yet.\<close>

definition fresh :: "session \<Rightarrow> bool" where
  "fresh t \<longleftrightarrow> (\<exists>e. envMgr (inst t) = Some e \<and> scopes e \<noteq> [] \<and> getVariable ''player'' e = None) \<and>
   currPlayerCount (inst t) < numMaxPlayers (inst t) \<and>
   ''id'' \<notin> fst ` set (playerVars (inst t)) \<and> ''name'' \<notin> fst ` set (playerVars (inst t))"

lemma addPlayer_fresh:
  assumes "fresh t"
  shows "\<exists>u. joined u [] \<and> addPlayerToGame i nm t = addPlayerToGame i nm u"
proof -
  from assms obtain e where e: "envMgr (inst t) = Some e" "scopes e \<noteq> []" "getVariable ''player'' e = None"
    by (auto simp: fresh_def)
  let ?g = "\<lparr>mem = smem t, env = e\<rparr>" and ?i = "assignScope ''player'' e" and ?B = "brk (smem t)"
  define s1 where "s1 = (smem t)\<lparr>objs := (objs (smem t))(Suc ?B \<mapsto> ?B), cells := (cells (smem t))(?B \<mapsto> VList []),
     brk := Suc (Suc ?B)\<rparr>"
  define e1 where "e1 = e\<lparr>scopes := (scopes e)[?i := scopeSetVariable ''player'' (Some (Suc ?B)) (scopes e ! ?i)]\<rparr>"
  define u where "u = t\<lparr>smem := s1, inst := (inst t)\<lparr>envMgr := Some e1\<rparr>\<rparr>"
  have set: "setVariable ''player'' (fromValue (VList [])) ?g = (Inr (), \<lparr>mem = s1, env = e1\<rparr>)"
    using setVariable_run [of ?g] e(2) by (simp add: s1_def e1_def)
  have get: "getVariable ''player'' e1 = Some (Suc ?B)"
    unfolding e1_def using getVariable_put(1) [OF e(2) refl] .
  have "building s1 ?B []" by (simp add: building_def s1_def)
  then have "joined u []"
    using assms get e(2) by (auto simp: joined_def u_def fresh_def s1_def e1_def intro!: exI [of _ "[]"])
  moreover have "\<not> numMaxPlayers (inst t) \<le> currPlayerCount (inst t)"
    using assms by (simp add: fresh_def)
  then have "addPlayerToGame i nm t = addPlayerToGame i nm u"
    using e get set
    by (simp add: addPlayerToGame_def andThen_def run_simps inGame_run [OF e(1)] u_def)
  ultimately show ?thesis by blast
qed

text \<open>
  C38: Every player who joins is added, in order, as a map with the player's id and name; the limit of
  players is never reached, however many join, because the number of players is never counted up.
\<close>

theorem every_player_joins:
  assumes "fresh t" "ps \<noteq> []"
  shows "\<exists>u e q c vs. forEach ps (\<lambda>(i, nm). addPlayerToGame i nm) t = (Inr (), u) \<and>
    envMgr (inst u) = Some e \<and> getVariable ''player'' e = Some q \<and> objs (smem u) q = Some c \<and>
    building (smem u) c vs \<and> list_all2 (holdsPlayer (smem u) c) vs ps \<and>
    currPlayerCount (inst u) < numMaxPlayers (inst u)"
proof -
  obtain i nm qs where ps: "ps = (i, nm) # qs" using assms(2) by (cases ps) auto
  from addPlayer_fresh [OF assms(1)] obtain w where w: "joined w []"
    "addPlayerToGame i nm t = addPlayerToGame i nm w" by blast
  from addPlayers_joined [OF w(1), of ps] obtain u where
    u: "forEach ps (\<lambda>(i, nm). addPlayerToGame i nm) w = (Inr (), u)" "joined u ps" by auto
  have "forEach ps (\<lambda>(i, nm). addPlayerToGame i nm) t = (Inr (), u)"
    using u(1) w(2) unfolding ps by (simp add: andThen_def)
  with u(2) show ?thesis unfolding joined_def by blast
qed

theorem every_player_joins_witness:
  "\<exists>u e q c vs. forEach (zip [1..7] (replicate 7 ''p'')) (\<lambda>(i, nm). addPlayerToGame i nm) sampleSession = (Inr (), u) \<and>
    envMgr (inst u) = Some e \<and> getVariable ''player'' e = Some q \<and> objs (smem u) q = Some c \<and>
    building (smem u) c vs \<and> list_all2 (holdsPlayer (smem u) c) vs (zip [1..7] (replicate 7 ''p'')) \<and>
    currPlayerCount (inst u) < numMaxPlayers (inst u)"
  by (rule every_player_joins)
    (simp_all add: fresh_def sampleSession_def newGameInstance_def newEnvironment_def getVariable_def hasVar_def
      scopeHasVar_def rootScope_def upto_rec1 numeral_eq_Suc)

end

