(* ===== verification/Mocks.thy ===== *)
theory Mocks
  imports GameProps
begin

text \<open>
  \<open>lib/taskFactory/MockClasses.hpp\<close>: the stand-ins for games, their players and tasks that the tests of the tasks use,
  and \<open>src/Message.cpp\<close>, \<open>src/include/Message.h\<close>. The queue of messages of every single player of the mock keeps the
  contract \<open>outbox\<close>, which the real handler of \<open>GameInstance\<close> keeps for all players together.
\<close>

section \<open>The mock game\<close>

record mockPlayer =
  playerName :: string
  messages :: "msgType list"

definition defaultPlayer :: mockPlayer where
  "defaultPlayer = \<lparr>playerName = ''def'', messages = []\<rparr>"

definition namedPlayer :: "string \<Rightarrow> mockPlayer" where
  "namedPlayer n = \<lparr>playerName = n, messages = []\<rparr>"

text \<open>
  \<open>mockConverter\<close> is the address the game owns, and \<open>liveConverters\<close> are the converters that exist: the pointer made
  of a reference deletes the converter when it is released.
\<close>

record mockGame =
  playerMap :: "(int, mockPlayer) smap"
  mockConverter :: "nat option"
  liveConverters :: "nat list"

definition mockPlayers :: "(int, mockPlayer) smap" where
  "mockPlayers = mapPut 3 (namedPlayer ''three'') (mapPut 2 (namedPlayer ''two'') (mapPut 1 (namedPlayer ''one'')
     (mapPut 0 (namedPlayer ''owner'') [])))"

definition newMockGame :: "nat list \<Rightarrow> mockGame" where
  "newMockGame live = \<lparr>playerMap = mockPlayers, mockConverter = None, liveConverters = live\<rparr>"

definition deleteConverter :: "nat \<Rightarrow> (mockGame, unit) prog" where
  "deleteConverter a = andThen getState (\<lambda>g.
     if a \<in> set (liveConverters g) then modify (\<lambda>g. g\<lparr>liveConverters := remove1 a (liveConverters g)\<rparr>) else raise UB)"

definition mockSetConverter :: "nat \<Rightarrow> (mockGame, unit) prog" where
  "mockSetConverter aConverter = andThen getState (\<lambda>g.
     andThen (modify (\<lambda>g. g\<lparr>mockConverter := Some aConverter\<rparr>)) (\<lambda>_.
       case mockConverter g of None \<Rightarrow> ok () | Some a \<Rightarrow> deleteConverter a))"

section \<open>The mock handler\<close>

text \<open>\<open>playerMap[id]\<close> makes a player named \<open>def\<close> for an id it does not know.\<close>

definition mockQueueMessage :: "int \<Rightarrow> msgType \<Rightarrow> (mockGame, unit) prog" where
  "mockQueueMessage i msg = modify (\<lambda>g.
     let p = (case map_of (playerMap g) i of None \<Rightarrow> defaultPlayer | Some p \<Rightarrow> p)
     in g\<lparr>playerMap := mapPut i (p\<lparr>messages := messages p @ [msg]\<rparr>) (playerMap g)\<rparr>)"

primrec collectMessages :: "(int \<times> mockPlayer) list \<Rightarrow> (int, msgType list) smap \<Rightarrow> (int, msgType list) smap" where
  "collectMessages [] ret = ret"
| "collectMessages (kv # kvs) ret =
     collectMessages kvs (if messages (snd kv) = [] then ret else mapPut (fst kv) (messages (snd kv)) ret)"

definition mockGetAllMsgs :: "(mockGame, (int, msgType list) smap) prog" where
  "mockGetAllMsgs = andThen getState (\<lambda>g. ok (collectMessages (playerMap g) []))"

definition mockClearAllMessages :: "(mockGame, unit) prog" where
  "mockClearAllMessages = modify (\<lambda>g. g\<lparr>playerMap := map (\<lambda>(i, p). (i, p\<lparr>messages := []\<rparr>)) (playerMap g)\<rparr>)"

definition sameHandler :: "mockGame \<Rightarrow> mockGame \<Rightarrow> bool" where
  "sameHandler g h = False"

section \<open>The mock task and the message stub\<close>

datatype mockTaskType = SERVER_MSG_WAIT | INPUT | MESSAGE | SCORES | TIMER_INIT | EXTEND | REVERSE | SHUFFLE | SORT | DEAL
  | DISCARD

record mockTask =
  mockType :: mockTaskType
  mockId :: nat

definition mockGetType :: "mockTask \<Rightarrow> mockTaskType" where
  "mockGetType t = mockType t"

definition mockGetArgs :: "mockTask \<Rightarrow> string list" where
  "mockGetArgs t = [''test'']"

datatype MessageType = INPUT_MESSAGE | PLAYER_MESSAGE

record Message =
  messageType :: MessageType
  messageValue :: string

text \<open>The state is the text written to the standard output.\<close>

definition messageRun :: "Message \<Rightarrow> (string, unit) prog" where
  "messageRun m = modify (\<lambda>out. out @ ''message: '' @ messageValue m @ [CHR 0x0A])"

section \<open>What the mock handler keeps\<close>

definition messagesOf :: "int \<Rightarrow> mockGame \<Rightarrow> msgType list" where
  "messagesOf i g = (case map_of (playerMap g) i of None \<Rightarrow> [] | Some p \<Rightarrow> messages p)"

definition readMessagesOf :: "int \<Rightarrow> (mockGame, msgType list) prog" where
  "readMessagesOf i = andThen mockGetAllMsgs (\<lambda>r. ok (case map_of r i of None \<Rightarrow> [] | Some ms \<Rightarrow> ms))"

lemma collectMessages_lookup:
  "sortedMap kvs \<Longrightarrow> map_of (collectMessages kvs ret) i =
    (case map_of kvs i of None \<Rightarrow> map_of ret i | Some p \<Rightarrow> if messages p = [] then map_of ret i else Some (messages p))"
proof (induction kvs arbitrary: ret)
  case (Cons kv kvs)
  obtain k p where kv: "kv = (k, p)" by (cases kv)
  have "map_of kvs k = None" using Cons.prems by (force simp: kv map_of_eq_None_iff)
  with Cons show ?case by (simp add: kv map_of_mapPut split: option.splits)
qed simp

lemma mockGetAllMsgs_run [run_simps]: "mockGetAllMsgs g = (Inr (collectMessages (playerMap g) []), g)"
  by (simp add: mockGetAllMsgs_def andThen_def run_simps)

lemma readMessagesOf_run [run_simps]: "sortedMap (playerMap g) \<Longrightarrow> readMessagesOf i g = (Inr (messagesOf i g), g)"
  by (simp add: readMessagesOf_def andThen_def run_simps collectMessages_lookup messagesOf_def split: option.splits)

lemma queue_messagesOf:
  "sortedMap (playerMap g) \<Longrightarrow> \<exists>h. mockQueueMessage i m g = (Inr (), h) \<and> sortedMap (playerMap h) \<and>
     (\<forall>j. messagesOf j h = (if j = i then messagesOf i g @ [m] else messagesOf j g))"
  by (auto simp: mockQueueMessage_def run_simps messagesOf_def map_of_mapPut sortedMap_mapPut Let_def defaultPlayer_def
      split: option.splits)

lemma map_of_cleared: "map_of (map (\<lambda>(i, p). (i, f p)) m) i = map_option f (map_of m i)"
  by (induction m) auto

lemma clear_messagesOf:
  "sortedMap (playerMap g) \<Longrightarrow> \<exists>h. mockClearAllMessages g = (Inr (), h) \<and> sortedMap (playerMap h) \<and> messagesOf i h = []"
  by (auto simp: mockClearAllMessages_def run_simps messagesOf_def map_of_cleared sortedMap_def case_prod_beta o_def
      split: option.splits)

text \<open>The second provider of the contract: the messages of one player.\<close>

interpretation mock_box: outbox "mockQueueMessage i" "readMessagesOf i" mockClearAllMessages "messagesOf i"
    "\<lambda>g. sortedMap (playerMap g)" for i
  using queue_messagesOf clear_messagesOf by unfold_locales (fastforce simp: readMessagesOf_run)+


text \<open>
  The pointer is made of a reference, so a game that is given the same converter twice deletes it and keeps its
  address; given it a third time, it deletes it again.
\<close>

lemma converter_given_twice:
  assumes "mockConverter g = None" "distinct (liveConverters g)" "a \<in> set (liveConverters g)"
  shows "\<exists>h k. andThen (mockSetConverter a) (\<lambda>_. mockSetConverter a) g = (Inr (), h) \<and> mockConverter h = Some a \<and>
    a \<notin> set (liveConverters h) \<and> mockSetConverter a h = (Inl UB, k)"
  using assms by (simp add: mockSetConverter_def deleteConverter_def andThen_def run_simps)

text \<open>The messages of one player are read back in order, whatever was queued for the others in between.\<close>

lemma mock_messages_in_order:
  assumes "sortedMap (playerMap g)"
  shows "\<exists>h. andThen mockClearAllMessages (\<lambda>_. andThen (forEach ms (mockQueueMessage i)) (\<lambda>_. readMessagesOf i)) g =
    (Inr ms, h)"
  by (rule mock_box.clear_then_read [OF assms])

lemma mock_players: "sortedMap (playerMap (newMockGame live)) \<and> messagesOf i (newMockGame live) = []"
  by (simp add: newMockGame_def mockPlayers_def namedPlayer_def messagesOf_def)

end
