(* ===== verification/Evaluator.thy ===== *)
theory Evaluator
  imports EnvMgrLaws
begin

text \<open>
  The expression evaluator of \<open>EnvironmentManager\<close>: \<open>evaluationExpression\<close> over a list of tokens in
  prefix order. The two iterators are the list of tokens that are left; the game is only read. A
  \<open>Scope*\<close> argument is the scope itself. \<open>evaluationExpression\<close> and \<open>evaluateOperator\<close> call each other,
  bounded by fuel; as many units as there are tokens are enough (\<open>evaluation_returns\<close>).
\<close>

section \<open>Tokens\<close>

datatype builtinTypes = SIZETYPE | CONTAINS | COLLECT | UPFROM
datatype operatorTypes = EQUALS | NEGATION | ADDITION | OR

definition buildtinMap :: "(string, builtinTypes) smap" where
  "buildtinMap = [(''collect'', COLLECT), (''contains'', CONTAINS), (''size'', SIZETYPE), (''upfrom'', UPFROM)]"

definition operatorMap :: "(string, operatorTypes) smap" where
  "operatorMap = [(''!'', NEGATION), (''+'', ADDITION), (''='', EQUALS), (''|'', OR)]"

text \<open>\<open>*expression\<close> and \<open>expression += k\<close>; reading the end or going past it is undefined.\<close>

definition token :: "(string list, string) prog" where
  "token = (\<lambda>ts. case ts of [] \<Rightarrow> (Inl UB, ts) | t # _ \<Rightarrow> (Inr t, ts))"

definition advance :: "nat \<Rightarrow> (string list, unit) prog" where
  "advance k = (\<lambda>ts. if k \<le> length ts then (Inr (), drop k ts) else (Inl UB, ts))"

text \<open>\<open>scope->getVariable(name)->get()\<close>\<close>

definition valueIn :: "game \<Rightarrow> Scope \<Rightarrow> string \<Rightarrow> cpp_error + varType" where
  "valueIn g scope name = fst (getVal (scopeGetVariable scope name) (mem g))"

definition sizeIn :: "platform \<Rightarrow> game \<Rightarrow> Scope \<Rightarrow> string \<Rightarrow> cpp_error + nat" where
  "sizeIn pf g scope name =
     (case valueIn g scope name of Inl e \<Rightarrow> Inl e | Inr v \<Rightarrow> Inr (varSize pf v))"

section \<open>Literals\<close>

text \<open>\<open>parseValue\<close>: the placeholder \<open>{name\<close> of a quoted text is looked up with its brace, and a quoted
  text without a brace makes \<open>substr\<close> throw.\<close>

definition parseValue :: "game \<Rightarrow> Scope \<Rightarrow> string \<Rightarrow> cpp_error + varType" where
  "parseValue g scope expression =
     (if expression = ''true'' then Inr (VBool True)
      else if expression = ''false'' then Inr (VBool False)
      else case expression of
        [] \<Rightarrow> Inl UB
      | c # _ \<Rightarrow>
          if c = CHR 0x22 then
            let first = findChar expression (CHR ''{'');
                second = findChar expression (CHR ''}'') in
            case substr expression first (toSize (second - first)) of
              Inl e \<Rightarrow> Inl e
            | Inr variable \<Rightarrow>
                if length variable \<noteq> 0 then
                  (case valueIn g scope variable of
                     Inl e \<Rightarrow> Inl e
                   | Inr v \<Rightarrow>
                       (case getString v of
                          None \<Rightarrow> Inl BadVariantAccess
                        | Some stringVar \<Rightarrow>
                            (case substr expression 0 first of
                               Inl e \<Rightarrow> Inl e
                             | Inr firstPart \<Rightarrow>
                                 (case substr expression second (toSize (int (length expression) - second)) of
                                    Inl e \<Rightarrow> Inl e
                                  | Inr secondPart \<Rightarrow> Inr (VString (firstPart @ stringVar @ secondPart))))))
                else Inr (VString expression)
          else if isDigit c then
            (case stoi expression of Inr i \<Rightarrow> Inr (VInt i) | Inl e \<Rightarrow> Inr (VString expression))
          else Inr (VString expression))"

section \<open>Expressions\<close>

definition getAs :: "(varType \<Rightarrow> 'a option) \<Rightarrow> varType \<Rightarrow> ('s, 'a) prog" where
  "getAs sel v = fromOption BadVariantAccess (sel v)"

text \<open>\<open>evaluateOperator\<close>, over the recursive call \<open>eval\<close>. C++ does not fix which operand of \<open>==\<close> and \<open>+\<close> is
  evaluated first; whichever it is reads the first tokens, and both operations are symmetric, so the
  value and the tokens left do not depend on it. \<open>||\<close> does not evaluate its second operand after
  a true one.\<close>

definition evaluateOperator :: "(string list, varType) prog \<Rightarrow> operatorTypes \<Rightarrow> (string list, varType) prog" where
  "evaluateOperator eval operator =
     (case operator of
        EQUALS \<Rightarrow> andThen (advance 1) (\<lambda>_. andThen eval (\<lambda>v. andThen eval (\<lambda>w. ok (VBool (v = w)))))
      | NEGATION \<Rightarrow> andThen (advance 1) (\<lambda>_. andThen eval (\<lambda>v. andThen (getAs getBool v) (\<lambda>b. ok (VBool (\<not> b)))))
      | ADDITION \<Rightarrow>
          andThen (advance 1) (\<lambda>_. andThen eval (\<lambda>v. andThen (getAs getInt v) (\<lambda>i.
          andThen eval (\<lambda>w. andThen (getAs getInt w) (\<lambda>j.
            if isInt (i + j) then ok (VInt (i + j)) else raise UB)))))
      | OR \<Rightarrow>
          andThen (advance 1) (\<lambda>_. andThen eval (\<lambda>v. andThen (getAs getBool v) (\<lambda>b.
            if b then ok (VBool True)
            else andThen eval (\<lambda>w. andThen (getAs getBool w) (\<lambda>c. ok (VBool c)))))))"

definition evaluateBuildIn :: "platform \<Rightarrow> game \<Rightarrow> Scope \<Rightarrow> builtinTypes \<Rightarrow> (string list, varType) prog" where
  "evaluateBuildIn pf g scope builtin =
     (case builtin of
        SIZETYPE \<Rightarrow>
          andThen token (\<lambda>name. andThen (fromSum (sizeIn pf g scope name)) (\<lambda>n.
          andThen (advance 2) (\<lambda>_. ok (VInt (toInt (int n))))))
      | CONTAINS \<Rightarrow> andThen (advance 3) (\<lambda>_. ok (VBool True))
      | COLLECT \<Rightarrow> andThen (advance 5) (\<lambda>_. ok (VBool False))
      | UPFROM \<Rightarrow> andThen (advance 3) (\<lambda>_. ok (VBool False)))"

text \<open>What \<open>evaluationExpression\<close> does when the tokens are no builtin call and no operator:
  \<open>hasVar(x)->hasVar(x)\<close> dereferences the scope that has the variable, null when there is none.\<close>

definition evaluateName :: "game \<Rightarrow> Scope \<Rightarrow> (string list, varType) prog" where
  "evaluateName g scope = andThen token (\<lambda>name.
     case hasVar name (env g) of
       None \<Rightarrow> raise UB
     | Some i \<Rightarrow>
         if scopeHasVar (scopes (env g) ! i) name
         then andThen (advance 1) (\<lambda>_. fromSum (valueIn g scope name))
         else andThen (fromSum (parseValue g scope name)) (\<lambda>v. andThen (advance 1) (\<lambda>_. ok v)))"

primrec evaluationExpression :: "nat \<Rightarrow> platform \<Rightarrow> game \<Rightarrow> Scope \<Rightarrow> (string list, varType) prog" where
  "evaluationExpression 0 pf g scope = raise OutOfFuel"
| "evaluationExpression (Suc n) pf g scope = andThen getState (\<lambda>ts.
     case ts of
       [] \<Rightarrow> raise UB
     | [_] \<Rightarrow> evaluateName g scope
     | t # u # _ \<Rightarrow>
         (case map_of buildtinMap u of
            Some it \<Rightarrow> evaluateBuildIn pf g scope it
          | None \<Rightarrow>
              (case map_of operatorMap t of
                 Some operatorIt \<Rightarrow> evaluateOperator (evaluationExpression n pf g scope) operatorIt
               | None \<Rightarrow> evaluateName g scope)))"

section \<open>How it runs\<close>

lemma token_run [run_simps]: "token (t # ts) = (Inr t, t # ts)" "token [] = (Inl UB, [])"
  by (simp_all add: token_def)

lemma advance_run [run_simps]: "advance k ts = (if k \<le> length ts then (Inr (), drop k ts) else (Inl UB, ts))"
  by (simp add: advance_def)

text \<open>Tokens are only consumed, and at least one on success.\<close>

definition consumes :: "(string list, 'a) prog \<Rightarrow> bool" where
  "consumes m \<longleftrightarrow> (\<forall>ts. length (snd (m ts)) \<le> length ts \<and>
     (\<forall>v. fst (m ts) = Inr v \<longrightarrow> length (snd (m ts)) < length ts))"

lemma andThen_cases:
  "andThen m f s = (case m s of (Inl e, t) \<Rightarrow> (Inl e, t) | (Inr x, t) \<Rightarrow> f x t)"
  by (simp add: andThen_def)

text \<open>\<open>progress m ts\<close>: run on \<open>ts\<close>, the program ends, and a returned value has cost at least one token.\<close>

definition progress :: "(string list, 'a) prog \<Rightarrow> string list \<Rightarrow> bool" where
  "progress m ts \<longleftrightarrow> fst (m ts) \<noteq> Inl OutOfFuel \<and>
     (\<forall>v. fst (m ts) = Inr v \<longrightarrow> length (snd (m ts)) < length ts)"

lemma progress_raise: "e \<noteq> OutOfFuel \<Longrightarrow> progress (raise e) ts"
  by (simp add: progress_def run_simps)

lemma valueIn_no_fuel: "valueIn g sc x \<noteq> Inl OutOfFuel"
  by (simp add: valueIn_def run_simps split: option.splits)

lemma sizeIn_no_fuel: "sizeIn pf g sc x \<noteq> Inl OutOfFuel"
  using valueIn_no_fuel [of g sc x] by (auto simp: sizeIn_def split: sum.splits)

lemma substr_no_fuel: "substr s p n \<noteq> Inl OutOfFuel"
  by (simp add: substr_def)

lemma parseValue_no_fuel: "parseValue g sc x \<noteq> Inl OutOfFuel"
  using valueIn_no_fuel [of g sc] substr_no_fuel
  by (auto simp: parseValue_def Let_def split: list.splits sum.splits option.splits if_splits)

lemma progress_name: "ts \<noteq> [] \<Longrightarrow> progress (evaluateName g sc) ts"
  using valueIn_no_fuel [of g sc "hd ts"] parseValue_no_fuel [of g sc "hd ts"]
  by (cases ts) (auto simp: progress_def evaluateName_def andThen_def run_simps fromSum_def
      split: option.splits sum.splits prod.splits if_splits)

lemma progress_buildIn: "progress (evaluateBuildIn pf g sc b) ts"
  using sizeIn_no_fuel [of pf g sc "hd ts"]
  by (cases b; cases ts)
    (auto simp: progress_def evaluateBuildIn_def andThen_def run_simps fromSum_def
      split: option.splits sum.splits prod.splits if_splits)

lemma progress_andThen:
  assumes "progress m ts" "\<And>v us. m ts = (Inr v, us) \<Longrightarrow> length us < length ts \<Longrightarrow>
      fst (f v us) \<noteq> Inl OutOfFuel \<and> (\<forall>w. fst (f v us) = Inr w \<longrightarrow> length (snd (f v us)) \<le> length us)"
  shows "progress (andThen m f) ts"
proof (cases "m ts")
  case (Pair r us)
  show ?thesis
  proof (cases r)
    case (Inl e)
    with Pair assms(1) show ?thesis by (simp add: progress_def andThen_def)
  next
    case (Inr v)
    with Pair assms(1) have "length us < length ts" by (auto simp: progress_def)
    with assms(2) [of v us] Pair Inr show ?thesis
      by (auto simp: progress_def andThen_def dest: order.strict_trans2)
  qed
qed

lemma progress_advance: "0 < k \<Longrightarrow> progress (advance k) ts"
  by (auto simp: progress_def run_simps)

lemma progress_weak: "progress m us \<Longrightarrow> fst (m us) \<noteq> Inl OutOfFuel \<and> (\<forall>w. fst (m us) = Inr w \<longrightarrow> length (snd (m us)) \<le> length us)"
  by (auto simp: progress_def)

lemma getAs_no_fuel [simp]: "fst (getAs sel v ts) \<noteq> Inl OutOfFuel" "snd (getAs sel v ts) = ts"
  by (simp_all add: getAs_def fromOption_def run_simps split: option.splits)

lemma progress_operator:
  assumes "\<And>us. length us < length ts \<Longrightarrow> progress eval us"
  shows "progress (evaluateOperator eval op) ts"
proof -
  have step: "fst (andThen eval f us) \<noteq> Inl OutOfFuel \<and>
      (\<forall>w. fst (andThen eval f us) = Inr w \<longrightarrow> length (snd (andThen eval f us)) \<le> length us)"
    if "length us < length ts" "\<And>v vs. length vs < length ts \<Longrightarrow>
      fst (f v vs) \<noteq> Inl OutOfFuel \<and> (\<forall>w. fst (f v vs) = Inr w \<longrightarrow> length (snd (f v vs)) \<le> length vs)" for f us
    by (rule progress_weak, rule progress_andThen [OF assms]) (use that in auto)
  have sel: "fst (andThen (getAs s v) f us) \<noteq> Inl OutOfFuel \<and>
      (\<forall>w. fst (andThen (getAs s v) f us) = Inr w \<longrightarrow> length (snd (andThen (getAs s v) f us)) \<le> length us)"
    if "\<And>x. fst (f x us) \<noteq> Inl OutOfFuel \<and> (\<forall>w. fst (f x us) = Inr w \<longrightarrow> length (snd (f x us)) \<le> length us)"
    for s :: "varType \<Rightarrow> 'b option" and v us and f :: "'b \<Rightarrow> (string list, varType) prog"
    using that by (auto simp: getAs_def fromOption_def run_simps split: option.splits)
  show ?thesis
  proof (cases op)
    case EQUALS
    show ?thesis unfolding evaluateOperator_def EQUALS operatorTypes.case
      by (rule progress_andThen [OF progress_advance], simp, intro step) (auto simp: run_simps)
  next
    case NEGATION
    show ?thesis unfolding evaluateOperator_def NEGATION operatorTypes.case
      by (rule progress_andThen [OF progress_advance], simp, intro step sel) (auto simp: run_simps)
  next
    case ADDITION
    show ?thesis unfolding evaluateOperator_def ADDITION operatorTypes.case
      by (rule progress_andThen [OF progress_advance], simp, intro step sel) (auto simp: run_simps)
  next
    case OR
    have branch: "fst ((if b then ok (VBool True) else andThen eval (\<lambda>w. andThen (getAs getBool w) (\<lambda>c. ok (VBool c)))) us) \<noteq> Inl OutOfFuel \<and>
      (\<forall>w. fst ((if b then ok (VBool True) else andThen eval (\<lambda>w. andThen (getAs getBool w) (\<lambda>c. ok (VBool c)))) us) = Inr w \<longrightarrow>
        length (snd ((if b then ok (VBool True) else andThen eval (\<lambda>w. andThen (getAs getBool w) (\<lambda>c. ok (VBool c)))) us)) \<le> length us)"
      if "length us < length ts" for b us
    proof (cases b)
      case False
      then show ?thesis unfolding if_not_P [OF False]
        by (intro step sel) (use that in \<open>auto simp: run_simps\<close>)
    qed (simp add: run_simps)
    show ?thesis unfolding evaluateOperator_def OR operatorTypes.case
      by (rule progress_andThen [OF progress_advance], simp, intro step sel branch) (auto simp: run_simps)
  qed
qed

lemma evaluation_progress: "length ts < n \<Longrightarrow> progress (evaluationExpression n pf g sc) ts"
proof (induction n arbitrary: ts)
  case (Suc n)
  have at: "progress (andThen getState f) ts" if "progress (f ts) ts" for f :: "string list \<Rightarrow> (string list, varType) prog"
    using that by (simp add: progress_def andThen_def run_simps)
  have op: "ts = us \<Longrightarrow> progress (evaluateOperator (evaluationExpression n pf g sc) op) us" for op us
    by (rule progress_operator) (use Suc in auto)
  show ?case unfolding evaluationExpression.simps
    by (rule at)
      (auto intro!: progress_raise progress_name progress_buildIn op split: list.splits option.splits)
qed simp

section \<open>What expressions mean\<close>

text \<open>
  The expressions the tokens stand for, their tokens in prefix order, and their value: the abstract
  specification of the evaluator. \<open>denote\<close> gives nothing when an operand has the wrong kind, a sum
  overflows or a name has no value; the second operand of \<open>Or\<close> must have been consumed, so \<open>Or\<close> has a
  value here only when its first operand is false.
\<close>

datatype expr = Name string | Size string | Eq expr expr | Neg expr | Add expr expr | Or expr expr

fun flatten :: "expr \<Rightarrow> string list" where
  "flatten (Name x) = [x]"
| "flatten (Size x) = [x, ''size'']"
| "flatten (Eq a b) = ''='' # flatten a @ flatten b"
| "flatten (Neg a) = ''!'' # flatten a"
| "flatten (Add a b) = ''+'' # flatten a @ flatten b"
| "flatten (Or a b) = ''|'' # flatten a @ flatten b"

definition readName :: "game \<Rightarrow> Scope \<Rightarrow> string \<Rightarrow> varType option" where
  "readName g scope x = (if hasVar x (env g) = None then None else case_sum (\<lambda>_. None) Some (valueIn g scope x))"

fun denote :: "platform \<Rightarrow> game \<Rightarrow> Scope \<Rightarrow> expr \<Rightarrow> varType option" where
  "denote pf g sc (Name x) = readName g sc x"
| "denote pf g sc (Size x) = (case sizeIn pf g sc x of Inl e \<Rightarrow> None | Inr n \<Rightarrow> Some (VInt (toInt (int n))))"
| "denote pf g sc (Eq a b) = (case (denote pf g sc a, denote pf g sc b) of
      (Some v, Some w) \<Rightarrow> Some (VBool (v = w)) | _ \<Rightarrow> None)"
| "denote pf g sc (Neg a) = (case denote pf g sc a of Some (VBool b) \<Rightarrow> Some (VBool (\<not> b)) | _ \<Rightarrow> None)"
| "denote pf g sc (Add a b) = (case (denote pf g sc a, denote pf g sc b) of
      (Some (VInt i), Some (VInt j)) \<Rightarrow> if isInt (i + j) then Some (VInt (i + j)) else None | _ \<Rightarrow> None)"
| "denote pf g sc (Or a b) = (case (denote pf g sc a, denote pf g sc b) of
      (Some (VBool False), Some (VBool c)) \<Rightarrow> Some (VBool c) | _ \<Rightarrow> None)"

text \<open>Names are not operators and not builtin functions.\<close>

definition plainName :: "string \<Rightarrow> bool" where
  "plainName x \<longleftrightarrow> map_of operatorMap x = None \<and> map_of buildtinMap x = None"

primrec names :: "expr \<Rightarrow> string set" where
  "names (Name x) = {x}"
| "names (Size x) = {x}"
| "names (Eq a b) = names a \<union> names b"
| "names (Neg a) = names a"
| "names (Add a b) = names a \<union> names b"
| "names (Or a b) = names a \<union> names b"

definition noBuiltinHead :: "string list \<Rightarrow> bool" where
  "noBuiltinHead ts \<longleftrightarrow> (case ts of [] \<Rightarrow> True | t # _ \<Rightarrow> map_of buildtinMap t = None)"

lemma flatten_not_Nil [simp]: "flatten e \<noteq> []"
  by (cases e) auto

lemma flatten_head: "\<forall>x \<in> names e. plainName x \<Longrightarrow> noBuiltinHead (flatten e @ ts)"
  by (induction e) (auto simp: noBuiltinHead_def plainName_def buildtinMap_def)

lemma operator_run:
  assumes "map_of operatorMap t = Some op" "noBuiltinHead (ts)" "ts \<noteq> []"
  shows "evaluationExpression (Suc n) pf g sc (t # ts) = evaluateOperator (evaluationExpression n pf g sc) op (t # ts)"
  using assms by (cases ts) (auto simp: andThen_def run_simps noBuiltinHead_def)

lemma name_run:
  assumes "plainName x" "noBuiltinHead ts" "readName g sc x = Some v"
  shows "evaluationExpression (Suc n) pf g sc (x # ts) = (Inr v, ts)"
proof -
  from assms(3) obtain i where i: "hasVar x (env g) = Some i" and v: "valueIn g sc x = Inr v"
    by (auto simp: readName_def split: if_splits sum.splits)
  then have "scopeHasVar (scopes (env g) ! i) x"
    by (auto simp: hasVar_def dest: findScope_bound)
  with i v assms(1,2) show ?thesis
    by (cases ts) (auto simp: andThen_def run_simps evaluateName_def noBuiltinHead_def plainName_def)
qed

lemma evaluation_denote:
  assumes "\<forall>x \<in> names e. plainName x" "noBuiltinHead ts" "denote pf g sc e = Some v" "length (flatten e) \<le> n"
  shows "evaluationExpression n pf g sc (flatten e @ ts) = (Inr v, ts)"
  using assms
proof (induction e arbitrary: n ts v)
  case (Name x)
  then show ?case by (cases n) (auto simp: name_run simp del: evaluationExpression.simps)
next
  case (Size x)
  then show ?case
    by (cases n) (auto simp: andThen_def run_simps buildtinMap_def evaluateBuildIn_def split: sum.splits)
next
  case (Eq a b)
  obtain m where n: "n = Suc m" using Eq.prems(4) by (cases n) auto
  from Eq.prems(3) obtain va vb where v: "denote pf g sc a = Some va" "denote pf g sc b = Some vb" "v = VBool (va = vb)"
    by (auto split: option.splits)
  have "evaluationExpression m pf g sc (flatten a @ flatten b @ ts) = (Inr va, flatten b @ ts)"
    "evaluationExpression m pf g sc (flatten b @ ts) = (Inr vb, ts)"
    using Eq n v flatten_head [of b ts] by auto
  with v Eq.prems(1) flatten_head [of a "flatten b @ ts"] show ?case
    by (simp add: n operator_run operatorMap_def evaluateOperator_def andThen_def run_simps
        del: evaluationExpression.simps)
next
  case (Neg a)
  obtain m where n: "n = Suc m" using Neg.prems(4) by (cases n) auto
  from Neg.prems(3) obtain b where v: "denote pf g sc a = Some (VBool b)" "v = VBool (\<not> b)"
    by (auto split: option.splits varType.splits)
  have "evaluationExpression m pf g sc (flatten a @ ts) = (Inr (VBool b), ts)"
    using Neg n v by auto
  with v Neg.prems(1) flatten_head [of a ts] show ?case
    by (simp add: n operator_run operatorMap_def evaluateOperator_def andThen_def run_simps getAs_def
        del: evaluationExpression.simps)
next
  case (Add a b)
  obtain m where n: "n = Suc m" using Add.prems(4) by (cases n) auto
  from Add.prems(3) obtain i j where v: "denote pf g sc a = Some (VInt i)" "denote pf g sc b = Some (VInt j)"
      "isInt (i + j)" "v = VInt (i + j)"
    by (auto split: option.splits varType.splits if_splits)
  have "evaluationExpression m pf g sc (flatten a @ flatten b @ ts) = (Inr (VInt i), flatten b @ ts)"
    "evaluationExpression m pf g sc (flatten b @ ts) = (Inr (VInt j), ts)"
    using Add n v flatten_head [of b ts] by auto
  with v Add.prems(1) flatten_head [of a "flatten b @ ts"] show ?case
    by (simp add: n operator_run operatorMap_def evaluateOperator_def andThen_def run_simps getAs_def
        del: evaluationExpression.simps)
next
  case (Or a b)
  obtain m where n: "n = Suc m" using Or.prems(4) by (cases n) auto
  from Or.prems(3) obtain c where v: "denote pf g sc a = Some (VBool False)" "denote pf g sc b = Some (VBool c)"
      "v = VBool c"
    by (auto split: option.splits varType.splits bool.splits)
  have "evaluationExpression m pf g sc (flatten a @ flatten b @ ts) = (Inr (VBool False), flatten b @ ts)"
    "evaluationExpression m pf g sc (flatten b @ ts) = (Inr (VBool c), ts)"
    using Or n v flatten_head [of b ts] by auto
  with v Or.prems(1) flatten_head [of a "flatten b @ ts"] show ?case
    by (simp add: n operator_run operatorMap_def evaluateOperator_def andThen_def run_simps getAs_def
        del: evaluationExpression.simps)
qed

end

