(* ===== verification/EvaluatorProps.thy ===== *)
theory EvaluatorProps
  imports Evaluator EnvMgrProps
begin

text \<open>The properties of the expression evaluator: it returns, what it returns, and where it goes wrong.\<close>

definition playersScope :: Scope where
  "playersScope = \<lparr>variables = [(''players'', Some 12)], isParallel = False, timerId = -1, ctrlFlow = None\<rparr>"

lemma players_size: "sizeIn plainPlatform loopGame playersScope ''players'' = Inr 2"
  by (simp add: sizeIn_def valueIn_def playersScope_def scopeGetVariable_def loopGame_simps run_simps varSize_def)

text \<open>
  C35: Evaluating any tokens returns: with more fuel than tokens the bound is never reached, and a value has
  consumed at least one token. The game itself is only read.
\<close>

theorem evaluation_returns:
  assumes "length ts < n"
  shows "fst (evaluationExpression n pf g sc ts) \<noteq> Inl OutOfFuel \<and>
    (\<forall>v rest. evaluationExpression n pf g sc ts = (Inr v, rest) \<longrightarrow> length rest < length ts)"
  using evaluation_progress [OF assms, of pf g sc] by (auto simp: progress_def)

theorem evaluation_returns_witness:
  "fst (evaluationExpression 6 plainPlatform loopGame playersScope
      (flatten (Add (Size ''players'') (Size ''players'')))) \<noteq> Inl OutOfFuel \<and>
   length (snd (evaluationExpression 6 plainPlatform loopGame playersScope
      (flatten (Add (Size ''players'') (Size ''players''))))) < 5"
proof -
  have "evaluationExpression 6 plainPlatform loopGame playersScope
      (flatten (Add (Size ''players'') (Size ''players'')) @ []) = (Inr (VInt 4), [])"
    by (rule evaluation_denote) (simp_all add: players_size plainName_def noBuiltinHead_def operatorMap_def buildtinMap_def toInt_id
      isInt_def INT_MAX_def INT_MIN_def)
  then show ?thesis
    using evaluation_returns [of "flatten (Add (Size ''players'') (Size ''players''))" 6 plainPlatform loopGame playersScope]
    by simp
qed

text \<open>
  C34: The evaluator implements the meaning of expressions: on the prefix tokens of an expression whose
  names are neither operators nor builtin functions, it returns the value the expression denotes and
  leaves exactly the tokens that follow.
\<close>

theorem evaluation_implements_denotation:
  assumes "\<forall>x \<in> names e. plainName x" "noBuiltinHead ts" "denote pf g sc e = Some v" "length (flatten e) \<le> n"
  shows "evaluationExpression n pf g sc (flatten e @ ts) = (Inr v, ts)"
  by (rule evaluation_denote [OF assms])

theorem evaluation_implements_denotation_witness:
  "evaluationExpression 5 plainPlatform loopGame playersScope
     (flatten (Add (Size ''players'') (Size ''players'')) @ [''x'']) = (Inr (VInt 4), [''x''])"
  by (rule evaluation_implements_denotation)
    (simp_all add: plainName_def operatorMap_def buildtinMap_def noBuiltinHead_def players_size toInt_id
      isInt_def INT_MAX_def INT_MIN_def)

text \<open>
  A true first operand of \<open>||\<close> leaves the tokens of the second operand unread: the value is true, but the
  caller goes on at the second operand instead of after it.
\<close>

theorem or_leaves_second_operand:
  assumes "\<forall>x \<in> names a. plainName x" "\<forall>x \<in> names b. plainName x" "denote pf g sc a = Some (VBool True)"
    and "length (flatten a) < n"
  shows "evaluationExpression n pf g sc (flatten (Or a b) @ ts) = (Inr (VBool True), flatten b @ ts)"
proof -
  obtain m where n: "n = Suc m" using assms(4) by (cases n) auto
  have "evaluationExpression m pf g sc (flatten a @ flatten b @ ts) = (Inr (VBool True), flatten b @ ts)"
    using assms n flatten_head [of b ts] by (intro evaluation_denote) auto
  with assms(1) flatten_head [of a "flatten b @ ts"] show ?thesis
    by (simp add: n operator_run operatorMap_def evaluateOperator_def andThen_def run_simps getAs_def
        del: evaluationExpression.simps)
qed

theorem or_leaves_second_operand_witness:
  "evaluationExpression 6 plainPlatform loopGame playersScope
     (flatten (Or (Eq (Size ''players'') (Size ''players'')) (Size ''players'')) @ []) =
   (Inr (VBool True), flatten (Size ''players'') @ [])"
  by (rule or_leaves_second_operand)
    (simp_all add: plainName_def operatorMap_def buildtinMap_def players_size)

text \<open>
  A token that is not the name of a variable of some scope, is not an operator and is not followed by a
  builtin function is never read as a literal: the evaluator dereferences the null pointer that
  \<open>hasVar\<close> returns, also for true, for numbers and for quoted texts. \<open>parseValue\<close> is unreachable.
\<close>

theorem literal_is_undefined:
  assumes "hasVar t (env g) = None" "plainName t" "noBuiltinHead ts"
  shows "evaluationExpression (Suc n) pf g sc (t # ts) = (Inl UB, t # ts)"
  using assms by (cases ts) (auto simp: andThen_def run_simps evaluateName_def noBuiltinHead_def plainName_def)

theorem literal_is_undefined_witness:
  "evaluationExpression (Suc 0) plainPlatform loopGame playersScope (''true'' # []) = (Inl UB, [''true''])"
  by (rule literal_is_undefined)
    (simp_all add: loopGame_def hasVar_def scopeHasVar_def plainName_def operatorMap_def buildtinMap_def noBuiltinHead_def)

text \<open>What \<open>parseValue\<close> would do if it were called: numbers are read, plain quoted texts throw.\<close>

lemma parseValue_number:
  assumes "isInt i" "0 \<le> i"
  shows "parseValue g sc (toString i) = Inr (VInt i)"
proof -
  obtain c cs where c: "toString i = c # cs" "isDigit c"
    using assms(2) showNat_hd [of "nat i"] by (cases "toString i") (auto simp: toString_def)
  then have "c \<noteq> CHR ''t''" "c \<noteq> CHR ''f''" "c \<noteq> CHR 0x22"
    by (auto simp: isDigit_def)
  with c stoi_toString [OF assms(1)] show ?thesis by (simp add: parseValue_def)
qed

lemma parseValue_plain_text:
  assumes "int (length s) < npos" "CHR ''{'' \<notin> set s" "s \<noteq> []" "hd s = CHR 0x22"
  shows "parseValue g sc s = Inl (OutOfRange None)"
proof -
  obtain cs where s: "s = CHR 0x22 # cs" using assms(3,4) by (cases s) auto
  have "findChar s (CHR ''{'') = npos" using assms(2) by (simp add: findChar_def)
  with assms(1) s show ?thesis by (simp add: parseValue_def substr_npos Let_def)
qed

end
