(* ===== verification/Tasks.thy ===== *)
theory Tasks
  imports GameProps
begin

text \<open>
  \<open>lib/taskFactory/SocialGamingTaskFactory\<close>: the runnable tasks, the factories that check their arguments
  and build them, and the converter from rule nodes to tasks. A \<open>varTypeBorrowedPtr\<close> is the address of the
  cell. A \<open>shared_ptr\<close> to the handler or the environment is a flag here, set when it is not null: what it
  refers to is that of the session's instance.
\<close>

section \<open>Helpers\<close>

text \<open>\<open>copyVec<T>\<close>: the values of one kind among the items; the others are dropped.\<close>

definition copyVec :: "(varType \<Rightarrow> 'a option) \<Rightarrow> ptr list \<Rightarrow> (store, 'a list) prog" where
  "copyVec sel vec = andThen (mapProg getVal vec) (\<lambda>vs. ok (List.map_filter sel vs))"

definition checkPreconditions :: "nat \<Rightarrow> nat \<Rightarrow> string \<Rightarrow> ptr list \<Rightarrow> cpp_error + bool" where
  "checkPreconditions sizeMin sizeMax sizeErrorMsg vars =
     (if length vars < sizeMin \<or> sizeMax < length vars then Inl (BadVariableArg sizeErrorMsg)
      else if None \<in> set vars then Inl (BadVariableArg ''nullptr passed to TaskFactory'')
      else Inr True)"

definition checkPreconditionsHandler :: "nat \<Rightarrow> nat \<Rightarrow> string \<Rightarrow> ptr list \<Rightarrow> bool \<Rightarrow> cpp_error + bool" where
  "checkPreconditionsHandler sizeMin sizeMax sizeErrorMsg vars pHndlr =
     (if \<not> pHndlr then Inl (BadVariableArg ''Expected player Handler to be not null'')
      else checkPreconditions sizeMin sizeMax sizeErrorMsg vars)"

definition checkPreconditionsEnv :: "nat \<Rightarrow> nat \<Rightarrow> string \<Rightarrow> ptr list \<Rightarrow> bool \<Rightarrow> cpp_error + bool" where
  "checkPreconditionsEnv sizeMin sizeMax sizeErrorMsg vars eMgr =
     (if \<not> eMgr then Inl (BadVariableArg ''Expected environment Manager to be not null'')
      else checkPreconditions sizeMin sizeMax sizeErrorMsg vars)"

text \<open>\<open>accumulate\<close> with \<open>curr + "," + to_string(id)\<close>, then \<open>ids.erase(ids.begin())\<close>, which is undefined on
  an empty string.\<close>

definition joinIds :: "int list \<Rightarrow> cpp_error + string" where
  "joinIds playerList =
     (case foldl (\<lambda>curr i. curr @ '','' @ toString i) '''' playerList of [] \<Rightarrow> Inl UB | _ # ids \<Rightarrow> Inr ids)"

section \<open>Tasks\<close>

record InputTask =
  inPlayers :: "int list"
  prompt :: string
  inType :: string
  start :: int
  stop :: int
  choices :: "string list"

datatype RunnableTask =
    ReverseTask ptr                        \<comment> \<open>the borrowed pointer, never null from a \<open>Variable\<close>\<close>
  | ShuffleTask ptr
  | ExtendTask ptr "ptr list"
  | Input InputTask
  | MessageTask "int list" string
  | ScoresTask int "string list" "ptr list" string
  | AssignmentTask addr string ptr         \<comment> \<open>the cell the \<open>string_view\<close> looks into, its text, the value\<close>

fun taskType :: "RunnableTask \<Rightarrow> NodeType" where
  "taskType (ReverseTask _) = REVERSE"
| "taskType (ShuffleTask _) = SHUFFLE"
| "taskType (ExtendTask _ _) = EXTEND"
| "taskType (Input _) = INPUT_CHOICE"
| "taskType (MessageTask _ _) = MESSAGE"
| "taskType (ScoresTask _ _ _ _) = SCORES"
| "taskType (AssignmentTask _ _ _) = ASSIGNMENT"

definition runReverse :: "ptr \<Rightarrow> (store, unit) prog" where
  "runReverse list = (case list of None \<Rightarrow> ok () | Some c \<Rightarrow> reverse c)"

definition runShuffle :: "platform \<Rightarrow> ptr \<Rightarrow> (store, unit) prog" where
  "runShuffle pf list = (case list of None \<Rightarrow> ok () | Some c \<Rightarrow> shuffle pf c)"

definition runExtend :: "ptr \<Rightarrow> ptr list \<Rightarrow> (store, unit) prog" where
  "runExtend addList addElems =
     (case addList of
        None \<Rightarrow> ok ()
      | Some c \<Rightarrow> forEach addElems (\<lambda>item. andThen (getRef item) (\<lambda>ref. andThen (readCell ref) (push_back c))))"

definition setRange :: "int \<Rightarrow> int \<Rightarrow> msgType \<Rightarrow> msgType" where
  "setRange s e msg =
     (if s = -1 \<or> e = -1 then msg
      else mapPut ''rangeEnd'' (toString e) (mapPut ''rangeStart'' (toString s) msg))"

text \<open>The index counts up from 0 while the choices are put under it.\<close>

primrec putIndexed :: "string \<Rightarrow> nat \<Rightarrow> string list \<Rightarrow> msgType \<Rightarrow> msgType" where
  "putIndexed prefix i [] msg = msg"
| "putIndexed prefix i (x # xs) msg = putIndexed prefix (Suc i) xs (mapPut (prefix @ toString (int i)) x msg)"

definition setChoices :: "string list \<Rightarrow> msgType \<Rightarrow> msgType" where
  "setChoices cs msg =
     (if cs = [] then msg else putIndexed '''' 0 cs (mapPut ''choiceListSize'' (toString (int (length cs))) msg))"

definition runInput :: "InputTask \<Rightarrow> (session, unit) prog" where
  "runInput task =
     andThen (fromSum (joinIds (inPlayers task))) (\<lambda>ids.
       queueMessage ids (setChoices (choices task) (setRange (start task) (stop task)
         (mapPut ''type'' (inType task) (mapPut ''prompt'' (prompt task) [])))))"

definition runMessage :: "int list \<Rightarrow> string \<Rightarrow> (session, unit) prog" where
  "runMessage players msg =
     andThen (fromSum (joinIds players)) (\<lambda>ids.
       queueMessage ids (mapPut ''data'' msg (mapPut ''type'' ''message'' [])))"

definition runScores :: "nat \<Rightarrow> platform \<Rightarrow> int \<Rightarrow> string list \<Rightarrow> ptr list \<Rightarrow> string \<Rightarrow> (session, unit) prog" where
  "runScores fuel pf ownerId playerNames playerScores attrName =
     (let msg = putIndexed ''name'' 0 playerNames (mapPut ''count'' (toString (int (length playerNames)))
                  (mapPut ''attr'' attrName (mapPut ''type'' ''scores'' []))) in
      andThen (inStore (mapProg (\<lambda>score. andThen (getRef score) (\<lambda>ref. andThen (readCell ref) (\<lambda>v.
                 printValue fuel pf v ''''))) playerScores)) (\<lambda>texts.
        queueMessage (toString ownerId) (putIndexed ''score'' 0 texts msg)))"

text \<open>\<open>AssignmentTask\<close> keeps a \<open>string_view\<close> into the variable that held the name: once the variable holds
  another value the view dangles.\<close>

definition runAssignment :: "addr \<Rightarrow> string \<Rightarrow> ptr \<Rightarrow> (session, unit) prog" where
  "runAssignment cell name val = andThen (inStore (readCell cell)) (\<lambda>v.
     if v = VString name then inGame (setVariable name (ok val)) else raise UB)"

definition run :: "nat \<Rightarrow> platform \<Rightarrow> RunnableTask \<Rightarrow> (session, unit) prog" where
  "run fuel pf task =
     (case task of
        ReverseTask list \<Rightarrow> inStore (runReverse list)
      | ShuffleTask list \<Rightarrow> inStore (runShuffle pf list)
      | ExtendTask addList addElems \<Rightarrow> inStore (runExtend addList addElems)
      | Input t \<Rightarrow> runInput t
      | MessageTask players msg \<Rightarrow> runMessage players msg
      | ScoresTask owner names scores attr \<Rightarrow> runScores fuel pf owner names scores attr
      | AssignmentTask cell name val \<Rightarrow> runAssignment cell name val)"

section \<open>Factories\<close>

text \<open>\<open>vars.at(i)->getRef()\<close> and \<open>std::get_if\<close> on it.\<close>

definition argCell :: "ptr list \<Rightarrow> nat \<Rightarrow> (store, addr) prog" where
  "argCell vars i = andThen (vectorAt vars i) getRef"

definition argAs :: "(varType \<Rightarrow> 'a option) \<Rightarrow> ptr list \<Rightarrow> nat \<Rightarrow> (store, 'a option) prog" where
  "argAs sel vars i = andThen (argCell vars i) (\<lambda>c. andThen (readCell c) (\<lambda>v. ok (sel v)))"

text \<open>A required argument of one kind, with the error thrown when it has another.\<close>

definition needArg :: "cpp_error \<Rightarrow> (varType \<Rightarrow> 'a option) \<Rightarrow> ptr list \<Rightarrow> nat \<Rightarrow> (store, 'a) prog" where
  "needArg e sel vars i = andThen (argAs sel vars i) (fromOption e)"

definition createReverse :: "ptr list \<Rightarrow> (store, RunnableTask) prog" where
  "createReverse vars =
     (if length vars \<noteq> 1 then raise (BadVariableArg ''Expected a single argument'')
      else andThen (argCell vars 0) (\<lambda>c. ok (ReverseTask (Some c))))"

definition createShuffle :: "ptr list \<Rightarrow> (store, RunnableTask) prog" where
  "createShuffle vars =
     (if length vars \<noteq> 1 then raise (BadVariableArg ''Expected a single argument'')
      else andThen (argCell vars 0) (\<lambda>c. ok (ShuffleTask (Some c))))"

definition createExtend :: "ptr list \<Rightarrow> (store, RunnableTask) prog" where
  "createExtend vars =
     andThen (fromSum (checkPreconditions 2 2 ''Expected two Variable arguments'' vars)) (\<lambda>_.
     andThen (needArg (BadVariableArg ''Expected two listObjs'') getList vars 0) (\<lambda>_.
     andThen (needArg (BadVariableArg ''Expected two listObjs'') getList vars 1) (\<lambda>addElems.
     andThen (argCell vars 0) (\<lambda>c. ok (ExtendTask (Some c) addElems)))))"

definition createInput :: "bool \<Rightarrow> ptr list \<Rightarrow> (store, RunnableTask) prog" where
  "createInput handler vars =
     (let bad = BadVariableArg ''Expected listObj, str, str'';
          bad2 = BadVariableArg ''Expected listObj, str, str, listObj'' in
      andThen (fromSum (checkPreconditionsHandler 3 5 ''Expected between 3 and 5 Variable arguments'' vars handler)) (\<lambda>_.
      andThen (needArg bad getList vars 0) (\<lambda>playerList.
      andThen (needArg bad getString vars 1) (\<lambda>p.
      andThen (needArg bad getString vars 2) (\<lambda>type.
        if length vars = 4 then
          andThen (needArg bad2 getList vars 3) (\<lambda>cs.
          andThen (copyVec getInt playerList) (\<lambda>players.
          andThen (copyVec getString cs) (\<lambda>texts.
            ok (Input \<lparr>inPlayers = players, prompt = p, inType = type, start = -1, stop = -1, choices = texts\<rparr>))))
        else if length vars = 5 then
          andThen (needArg bad2 getInt vars 3) (\<lambda>s.
          andThen (needArg bad2 getInt vars 4) (\<lambda>e.
          andThen (copyVec getInt playerList) (\<lambda>players.
            ok (Input \<lparr>inPlayers = players, prompt = p, inType = type, start = s, stop = e, choices = []\<rparr>))))
        else
          andThen (copyVec getInt playerList) (\<lambda>players.
            ok (Input \<lparr>inPlayers = players, prompt = p, inType = type, start = -1, stop = -1, choices = []\<rparr>)))))))"

definition createMessage :: "bool \<Rightarrow> ptr list \<Rightarrow> (store, RunnableTask) prog" where
  "createMessage handler vars =
     (let bad = BadVariableArg ''Expected two listObjs'' in
      andThen (fromSum (checkPreconditionsHandler 2 2 ''Expected two Variable arguments'' vars handler)) (\<lambda>_.
      andThen (needArg bad getList vars 0) (\<lambda>list.
      andThen (needArg bad getString vars 1) (\<lambda>text'.
      andThen (copyVec getInt list) (\<lambda>players. ok (MessageTask players text'))))))"

definition createScores :: "bool \<Rightarrow> ptr list \<Rightarrow> (store, RunnableTask) prog" where
  "createScores handler vars =
     (let bad = BadVariableArg ''Expected listObj, listObj, int, string'' in
      andThen (fromSum (checkPreconditionsHandler 4 4 ''Expected four Variable arguments'' vars handler)) (\<lambda>_.
      andThen (needArg bad getInt vars 0) (\<lambda>ownerId.
      andThen (needArg bad getList vars 1) (\<lambda>nameList.
      andThen (needArg bad getList vars 2) (\<lambda>scoreList.
      andThen (needArg bad getString vars 3) (\<lambda>attrName.
      andThen (copyVec getString nameList) (\<lambda>names. ok (ScoresTask ownerId names scoreList attrName))))))))"

definition createAssignment :: "bool \<Rightarrow> ptr list \<Rightarrow> (store, RunnableTask) prog" where
  "createAssignment hasEnv vars =
     (let bad = BadVariableArg ''Expected string, Variable'' in
      andThen (fromSum (checkPreconditionsEnv 2 2 ''Expected two Variable arguments'' vars hasEnv)) (\<lambda>_.
      andThen (needArg bad getString vars 0) (\<lambda>name.
      andThen (argCell vars 0) (\<lambda>c.
      andThen (vectorAt vars 1) (\<lambda>val. ok (AssignmentTask c name val))))))"

section \<open>The converter\<close>

datatype TaskFactory = ReverseFactory | ShuffleFactory | ExtendFactory | InputFactory bool
  | MessageFactory bool | ScoresFactory bool | AssignmentFactory bool

fun create :: "TaskFactory \<Rightarrow> ptr list \<Rightarrow> (store, RunnableTask) prog" where
  "create ReverseFactory vars = createReverse vars"
| "create ShuffleFactory vars = createShuffle vars"
| "create ExtendFactory vars = createExtend vars"
| "create (InputFactory h) vars = createInput h vars"
| "create (MessageFactory h) vars = createMessage h vars"
| "create (ScoresFactory h) vars = createScores h vars"
| "create (AssignmentFactory e) vars = createAssignment e vars"

text \<open>\<open>operator[]\<close> of the two maps gives the empty default for a missing key: a null factory, no arguments.\<close>

record SCConverter =
  factories :: "NodeType \<Rightarrow> TaskFactory option"
  tempArgs :: "NodeType \<Rightarrow> ptr list"

definition ints :: "int list \<Rightarrow> varType list" where
  "ints = map VInt"

text \<open>The constructor's temporary arguments, in order; each is a list of \<open>makeVarPtr\<close> calls.\<close>

definition tempArgTable :: "(NodeType \<times> varType list list) list" where
  "tempArgTable =
     [(REVERSE, [ints [0..9]]),
      (SHUFFLE, [ints [0..9]]),
      (EXTEND, [ints [1, 2, 3], ints [4, 5, 6]]),
      (INPUT_CHOICE, [ints [1, 2, 3], [VString ''test prompt''], [VString ''input'']]),
      (SCORES, [[VInt 0], [VString ''player1'', VString ''player2'', VString ''player3''], ints [100, 200, 50],
                [VString ''points'']]),
      (MESSAGE, [ints [1, 2, 3], [VString ''test message!'']]),
      (DISCARD, [ints [1, 2, 3], [VInt 1]]),
      (ASSIGNMENT, [[VString ''test''], [VInt 1]])]"

primrec fillArgs :: "(NodeType \<times> varType list list) list \<Rightarrow> SCConverter \<Rightarrow> (store, SCConverter) prog" where
  "fillArgs [] conv = ok conv"
| "fillArgs (row # rows) conv =
     andThen (mapProg makeVarPtr (snd row)) (\<lambda>as.
       fillArgs rows (conv\<lparr>tempArgs := (tempArgs conv)(fst row := map Some as)\<rparr>))"

definition newConverter :: "(store, SCConverter) prog" where
  "newConverter = fillArgs tempArgTable \<lparr>factories = (\<lambda>_. None), tempArgs = (\<lambda>_. [])\<rparr>"

definition addFactory :: "NodeType \<Rightarrow> TaskFactory \<Rightarrow> SCConverter \<Rightarrow> SCConverter" where
  "addFactory e factory conv = conv\<lparr>factories := (factories conv)(e \<mapsto> factory)\<rparr>"

definition convert :: "SCConverter \<Rightarrow> ruleMem \<Rightarrow> nodePtr \<Rightarrow> (store, RunnableTask) prog" where
  "convert conv rt task = andThen (nodeOf rt task) (\<lambda>n.
     case factories conv (nodeType n) of
       Some factory \<Rightarrow> create factory (tempArgs conv (nodeType n))
     | None \<Rightarrow> raise (RuntimeError ''unsupported task type: cannot convert''))"

text \<open>\<open>buildDefaultConverter\<close>, of a game that may be null.\<close>

definition buildDefaultConverter :: "GameInstance option \<Rightarrow> (store, SCConverter) prog" where
  "buildDefaultConverter game =
     (case game of
        None \<Rightarrow> raise (RuntimeError ''game, player handler or envMgr is null'')
      | Some g \<Rightarrow>
          if playerHandler g = None \<or> envMgr g = None
          then raise (RuntimeError ''game, player handler or envMgr is null'')
          else andThen newConverter (\<lambda>conv. ok (fold (\<lambda>(e, f). addFactory e f)
            [(REVERSE, ReverseFactory), (SHUFFLE, ShuffleFactory), (EXTEND, ExtendFactory),
             (INPUT_CHOICE, InputFactory True), (MESSAGE, MessageFactory True), (SCORES, ScoresFactory True),
             (ASSIGNMENT, AssignmentFactory True)] conv)))"

end
