(* ===== verification/TaskProps.thy ===== *)
theory TaskProps
  imports Tasks
begin

text \<open>
  The properties of the tasks: what the converter builds, what the messages for the players hold, and
  what the list tasks do to their lists.
\<close>

section \<open>Arguments\<close>

text \<open>\<open>argOk s a k\<close>: the variable at \<open>a\<close> has a value of kind \<open>k\<close>, and a list has no dangling or null item.\<close>

definition resolves :: "store \<Rightarrow> ptr \<Rightarrow> bool" where
  "resolves s p \<longleftrightarrow> (\<exists>q d w. p = Some q \<and> q < brk s \<and> d < brk s \<and> objs s q = Some d \<and> cells s d = Some w)"

definition argOk :: "store \<Rightarrow> addr \<Rightarrow> varKind \<Rightarrow> bool" where
  "argOk s a k \<longleftrightarrow> (\<exists>c v. a < brk s \<and> c < brk s \<and> objs s a = Some c \<and> cells s c = Some v \<and> getType v = k \<and>
     (\<forall>ps. v = VList ps \<longrightarrow> list_all (resolves s) ps))"

lemma resolves_agrees: "agrees s t \<Longrightarrow> resolves s p \<Longrightarrow> resolves t p"
  unfolding resolves_def by (metis agrees_brk)

lemma argOk_agrees: "agrees s t \<Longrightarrow> argOk s a k \<Longrightarrow> argOk t a k"
proof -
  assume st: "agrees s t" and a: "argOk s a k"
  from a obtain c v where c: "a < brk s" "c < brk s" "objs s a = Some c" "cells s c = Some v" "getType v = k"
    "\<forall>ps. v = VList ps \<longrightarrow> list_all (resolves s) ps" by (auto simp: argOk_def)
  from c(6) have "\<forall>ps. v = VList ps \<longrightarrow> list_all (resolves t) ps"
    using resolves_agrees [OF st] by (auto simp: list_all_iff)
  with c(1-5) agrees_brk [OF st c(1)] agrees_brk [OF st c(2)] show ?thesis
    by (auto simp: argOk_def)
qed

definition argKind :: "varType list \<Rightarrow> varKind" where
  "argKind args = (case args of [v] \<Rightarrow> getType v | _ \<Rightarrow> LIST)"

lemma holdsVal_resolves: "building t el vs \<Longrightarrow> readCell el t = (Inr v, t) \<Longrightarrow> \<forall>ps. v = VList ps \<longrightarrow> list_all (resolves t) ps"
  by (force simp: building_def holdsVal_def resolves_def run_simps list_all_iff list_all2_conv_all_nth in_set_conv_nth)

lemma makeShared_argOk:
  assumes "\<forall>ps. v = VList ps \<longrightarrow> list_all (resolves s) ps"
  shows "\<exists>a t. makeShared v s = (Inr a, t) \<and> agrees s t \<and> argOk t a (getType v)"
proof -
  let ?t = "s\<lparr>objs := (objs s)(Suc (brk s) \<mapsto> brk s), cells := (cells s)(brk s \<mapsto> v), brk := Suc (Suc (brk s))\<rparr>"
  have ag: "agrees s ?t" by (simp add: agrees_def)
  with assms have "\<forall>ps. v = VList ps \<longrightarrow> list_all (resolves ?t) ps"
    using resolves_agrees [OF ag] by (auto simp: list_all_iff)
  then have "argOk ?t (Suc (brk s)) (getType v)" by (simp add: argOk_def)
  with ag show ?thesis by (simp add: makeShared_run)
qed

lemma makeVarPtr_argOk:
  assumes "args \<noteq> []" "\<forall>v \<in> set args. getList v = None"
  shows "\<exists>a t. makeVarPtr args s = (Inr a, t) \<and> agrees s t \<and> argOk t a (argKind args)"
proof (cases "\<exists>v. args = [v]")
  case True
  then obtain v where v: "args = [v]" by blast
  have "\<forall>ps. v = VList ps \<longrightarrow> list_all (resolves s) ps" using assms(2) v by auto
  from makeShared_argOk [OF this] show ?thesis by (simp add: makeVarPtr_def argKind_def v)
next
  case False
  obtain x y zs where args: "args = x # y # zs"
    using assms(1) False by (metis neq_Nil_conv)
  let ?el = "brk s" and ?u = "snd (newCell (VList []) s)"
  have start: "building ?u ?el []" "agrees s ?u" by (simp_all add: building_def agrees_def run_simps)
  have push: "\<exists>t'. push_back ?el p t = (Inr (), t') \<and> building t' ?el (ws @ [p]) \<and> agrees s t'"
    if "agrees s t" "building t ?el ws" for p t ws
    using building_push [OF that(2), of p] that(1) by blast
  from building_forEach [of args s ?el "push_back ?el" "\<lambda>p. [p]" ?u "[]", OF push start(2,1)]
  obtain t where t: "forEach args (push_back ?el) ?u = (Inr (), t)" "building t ?el (concat (map (\<lambda>p. [p]) args))"
    "agrees s t" by auto
  from building_listOf [OF t(2)] obtain v where v: "readCell ?el t = (Inr v, t)" "listOf t v (concat (map (\<lambda>p. [p]) args))"
    by blast
  from makeShared_argOk [OF holdsVal_resolves [OF t(2) v(1)]] obtain a u where
    u: "makeShared v t = (Inr a, u)" "agrees t u" "argOk u a (getType v)" by blast
  have "getType v = LIST" using v(2) by (auto simp: listOf_def)
  moreover have "makeVarPtr args s = (Inr a, u)"
    using t(1) v(1) u(1) by (simp add: makeVarPtr_def args andThen_def newCell_run)
  ultimately show ?thesis using u agrees_trans [OF t(3) u(2)] by (simp add: argKind_def args)
qed

definition rowOk :: "varType list list \<Rightarrow> bool" where
  "rowOk row \<longleftrightarrow> list_all (\<lambda>args. args \<noteq> [] \<and> list_all (\<lambda>v. getList v = None) args) row"

lemma makeRow_argOk:
  "rowOk row \<Longrightarrow> \<exists>as t. mapProg makeVarPtr row s = (Inr as, t) \<and> agrees s t \<and>
     list_all2 (argOk t) as (map argKind row)"
proof (induction row arbitrary: s)
  case Nil
  show ?case by (simp add: run_simps agrees_refl)
next
  case (Cons args row)
  then have "args \<noteq> []" "\<forall>v \<in> set args. getList v = None" by (auto simp: rowOk_def list_all_iff)
  from makeVarPtr_argOk [OF this, of s] obtain a t where
    t: "makeVarPtr args s = (Inr a, t)" "agrees s t" "argOk t a (argKind args)" by blast
  from Cons obtain as u where u: "mapProg makeVarPtr row t = (Inr as, u)" "agrees t u"
    "list_all2 (argOk u) as (map argKind row)" by (force simp: rowOk_def)
  show ?case using t u argOk_agrees [OF u(2) t(3)] agrees_trans [OF t(2) u(2)]
    by (simp add: andThen_def run_simps)
qed

text \<open>\<open>argsOf s conv e ks\<close>: the converter's arguments for \<open>e\<close> have the kinds \<open>ks\<close>.\<close>

definition argsOf :: "store \<Rightarrow> SCConverter \<Rightarrow> NodeType \<Rightarrow> varKind list \<Rightarrow> bool" where
  "argsOf s conv e ks \<longleftrightarrow> (\<exists>as. tempArgs conv e = map Some as \<and> list_all2 (argOk s) as ks)"

lemma argsOf_agrees: "agrees s t \<Longrightarrow> argsOf s conv e ks \<Longrightarrow> argsOf t conv e ks"
  unfolding argsOf_def by (auto intro: list_all2_mono argOk_agrees)

lemma argOks_agrees: "agrees s t \<Longrightarrow> list_all2 (argOk s) as ks \<Longrightarrow> list_all2 (argOk t) as ks"
  by (auto intro: list_all2_mono argOk_agrees)

lemma fillArgs_argsOf:
  "list_all (\<lambda>(e, row). rowOk row) rows \<Longrightarrow> distinct (map fst rows) \<Longrightarrow>
    \<exists>conv' t. fillArgs rows conv s = (Inr conv', t) \<and> agrees s t \<and> factories conv' = factories conv \<and>
      (\<forall>(e, row) \<in> set rows. argsOf t conv' e (map argKind row)) \<and>
      (\<forall>e. e \<notin> fst ` set rows \<longrightarrow> tempArgs conv' e = tempArgs conv e)"
proof (induction rows arbitrary: conv s)
  case Nil
  show ?case by (simp add: run_simps agrees_refl)
next
  case (Cons r rows)
  obtain e row where r: "r = (e, row)" by (cases r)
  from Cons.prems r makeRow_argOk [of row s] obtain as t where
    t: "mapProg makeVarPtr row s = (Inr as, t)" "agrees s t" "list_all2 (argOk t) as (map argKind row)" by auto
  let ?conv = "conv\<lparr>tempArgs := (tempArgs conv)(e := map Some as)\<rparr>"
  from Cons.IH [of ?conv t] Cons.prems obtain conv' u where
    u: "fillArgs rows ?conv t = (Inr conv', u)" "agrees t u" "factories conv' = factories conv"
      "\<forall>(e, row) \<in> set rows. argsOf u conv' e (map argKind row)"
      "\<forall>f. f \<notin> fst ` set rows \<longrightarrow> tempArgs conv' f = tempArgs ?conv f" by auto
  have "tempArgs conv' e = map Some as" using u(5) Cons.prems r by auto
  then have "argsOf u conv' e (map argKind row)"
    using argOks_agrees [OF u(2) t(3)] unfolding argsOf_def by blast
  with u t r agrees_trans [OF t(2) u(2)] show ?case
    by (auto simp: andThen_def)
qed

section \<open>What the factories build\<close>

lemma argAs_run:
  assumes "argOk s a k" "vars ! i = Some a" "i < length vars"
  shows "argCell vars i s = (Inr (the (objs s a)), s)"
    "\<exists>v. argAs sel vars i s = (Inr (sel v), s) \<and> getType v = k \<and> (\<forall>ps. v = VList ps \<longrightarrow> list_all (resolves s) ps)"
  using assms by (auto simp: argAs_def argCell_def vectorAt_def andThen_def run_simps argOk_def)

lemma needArg_list:
  assumes "argOk s a LIST" "vars ! i = Some a" "i < length vars"
  shows "\<exists>ps. needArg e getList vars i s = (Inr ps, s) \<and> list_all (resolves s) ps"
proof -
  from argAs_run(2) [OF assms, of getList] obtain v where
    v: "argAs getList vars i s = (Inr (getList v), s)" "getType v = LIST"
      "\<forall>ps. v = VList ps \<longrightarrow> list_all (resolves s) ps" by blast
  from v(2) obtain ps where "v = VList ps" by (cases v) auto
  with v show ?thesis by (simp add: needArg_def andThen_def run_simps)
qed

lemma needArg_string:
  assumes "argOk s a STRING" "vars ! i = Some a" "i < length vars"
  shows "\<exists>x. needArg e getString vars i s = (Inr x, s)"
proof -
  from argAs_run(2) [OF assms, of getString] obtain v where
    v: "argAs getString vars i s = (Inr (getString v), s)" "getType v = STRING" by blast
  from v(2) obtain x where "v = VString x" by (cases v) auto
  with v show ?thesis by (simp add: needArg_def andThen_def run_simps)
qed

lemma needArg_int:
  assumes "argOk s a INT'" "vars ! i = Some a" "i < length vars"
  shows "\<exists>x. needArg e getInt vars i s = (Inr x, s)"
proof -
  from argAs_run(2) [OF assms, of getInt] obtain v where
    v: "argAs getInt vars i s = (Inr (getInt v), s)" "getType v = INT'" by blast
  from v(2) obtain x where "v = VInt x" by (cases v) auto
  with v show ?thesis by (simp add: needArg_def andThen_def run_simps)
qed

lemma copyVec_run: "list_all (resolves s) ps \<Longrightarrow> \<exists>xs. copyVec sel ps s = (Inr xs, s)"
proof -
  assume ps: "list_all (resolves s) ps"
  have "\<exists>v. getVal p s = (Inr v, s)" if "p \<in> set ps" for p
    using ps that by (auto simp: list_all_iff resolves_def run_simps)
  then obtain vs where "mapProg getVal ps s = (Inr vs, s)" using mapProg_total [of ps getVal s] by blast
  then show ?thesis by (simp add: copyVec_def andThen_def run_simps)
qed

lemma createExtend_run:
  assumes "argOk s a LIST" "argOk s b LIST"
  shows "\<exists>task. createExtend [Some a, Some b] s = (Inr task, s) \<and> taskType task = EXTEND"
proof -
  let ?e = "BadVariableArg ''Expected two listObjs''"
  from needArg_list [OF assms(1), of "[Some a, Some b]" 0 ?e] obtain ps where
    1: "needArg ?e getList [Some a, Some b] 0 s = (Inr ps, s)" by auto
  from needArg_list [OF assms(2), of "[Some a, Some b]" 1 ?e] obtain qs where
    2: "needArg ?e getList [Some a, Some b] (Suc 0) s = (Inr qs, s)" by auto
  from argAs_run(1) [OF assms(1), of "[Some a, Some b]" 0] 1 2 show ?thesis
    by (simp add: createExtend_def checkPreconditions_def andThen_def run_simps)
qed

lemma createMessage_run:
  assumes "argOk s a LIST" "argOk s b STRING"
  shows "\<exists>task. createMessage True [Some a, Some b] s = (Inr task, s) \<and> taskType task = MESSAGE"
proof -
  let ?e = "BadVariableArg ''Expected two listObjs''"
  from needArg_list [OF assms(1), of "[Some a, Some b]" 0 ?e] obtain ps where
    1: "needArg ?e getList [Some a, Some b] 0 s = (Inr ps, s)" "list_all (resolves s) ps" by auto
  from needArg_string [OF assms(2), of "[Some a, Some b]" 1 ?e] obtain x where
    2: "needArg ?e getString [Some a, Some b] (Suc 0) s = (Inr x, s)" by auto
  from copyVec_run [OF 1(2), of getInt] obtain xs where "copyVec getInt ps s = (Inr xs, s)" by blast
  with 1 2 show ?thesis
    by (simp add: createMessage_def checkPreconditionsHandler_def checkPreconditions_def andThen_def run_simps Let_def)
qed

lemma createAssignment_run:
  assumes "argOk s a STRING"
  shows "\<exists>task. createAssignment True [Some a, Some b] s = (Inr task, s) \<and> taskType task = ASSIGNMENT"
proof -
  let ?e = "BadVariableArg ''Expected string, Variable''"
  from needArg_string [OF assms(1), of "[Some a, Some b]" 0 ?e] obtain x where
    1: "needArg ?e getString [Some a, Some b] 0 s = (Inr x, s)" by auto
  from argAs_run(1) [OF assms(1), of "[Some a, Some b]" 0] 1 show ?thesis
    by (simp add: createAssignment_def checkPreconditionsEnv_def checkPreconditions_def andThen_def run_simps
        vectorAt_def)
qed

lemma createInput_run:
  assumes "argOk s a LIST" "argOk s b STRING" "argOk s c STRING"
  shows "\<exists>task. createInput True [Some a, Some b, Some c] s = (Inr task, s) \<and> taskType task = INPUT_CHOICE"
proof -
  let ?e = "BadVariableArg ''Expected listObj, str, str''" and ?v = "[Some a, Some b, Some c]"
  from needArg_list [OF assms(1), of ?v 0 ?e] obtain ps where
    1: "needArg ?e getList ?v 0 s = (Inr ps, s)" "list_all (resolves s) ps" by auto
  from needArg_string [OF assms(2), of ?v 1 ?e] obtain x where 2: "needArg ?e getString ?v (Suc 0) s = (Inr x, s)" by auto
  from needArg_string [OF assms(3), of ?v 2 ?e] obtain y where 3: "needArg ?e getString ?v 2 s = (Inr y, s)" by auto
  from copyVec_run [OF 1(2), of getInt] obtain xs where "copyVec getInt ps s = (Inr xs, s)" by blast
  with 1 2 3 show ?thesis
    by (simp add: createInput_def checkPreconditionsHandler_def checkPreconditions_def andThen_def run_simps Let_def)
qed

lemma createScores_run:
  assumes "argOk s a INT'" "argOk s b LIST" "argOk s c LIST" "argOk s d STRING"
  shows "\<exists>task. createScores True [Some a, Some b, Some c, Some d] s = (Inr task, s) \<and> taskType task = SCORES"
proof -
  let ?e = "BadVariableArg ''Expected listObj, listObj, int, string''" and ?v = "[Some a, Some b, Some c, Some d]"
  from needArg_int [OF assms(1), of ?v 0 ?e] obtain i where 1: "needArg ?e getInt ?v 0 s = (Inr i, s)" by auto
  from needArg_list [OF assms(2), of ?v 1 ?e] obtain ps where
    2: "needArg ?e getList ?v (Suc 0) s = (Inr ps, s)" "list_all (resolves s) ps" by auto
  from needArg_list [OF assms(3), of ?v 2 ?e] obtain qs where 3: "needArg ?e getList ?v 2 s = (Inr qs, s)" by auto
  from needArg_string [OF assms(4), of ?v 3 ?e] obtain y where 4: "needArg ?e getString ?v 3 s = (Inr y, s)" by auto
  from copyVec_run [OF 2(2), of getString] obtain xs where "copyVec getString ps s = (Inr xs, s)" by blast
  with 1 2 3 4 show ?thesis
    by (simp add: createScores_def checkPreconditionsHandler_def checkPreconditions_def andThen_def run_simps Let_def)
qed

lemma createReverse_run:
  "argOk s a k \<Longrightarrow> \<exists>task. createReverse [Some a] s = (Inr task, s) \<and> taskType task = REVERSE"
  using argAs_run(1) [of s a k "[Some a]" 0] by (simp add: createReverse_def andThen_def run_simps)

lemma createShuffle_run:
  "argOk s a k \<Longrightarrow> \<exists>task. createShuffle [Some a] s = (Inr task, s) \<and> taskType task = SHUFFLE"
  using argAs_run(1) [of s a k "[Some a]" 0] by (simp add: createShuffle_def andThen_def run_simps)

definition supported :: "NodeType \<Rightarrow> bool" where
  "supported e \<longleftrightarrow> e \<in> {REVERSE, SHUFFLE, EXTEND, INPUT_CHOICE, MESSAGE, SCORES, ASSIGNMENT}"

lemma tempArgTable_ok: "list_all (\<lambda>(e, row). rowOk row) tempArgTable" "distinct (map fst tempArgTable)"
  by (simp_all add: tempArgTable_def rowOk_def ints_def upto_rec1)

text \<open>
  The default converter of a game turns every rule node of a supported kind into a task of that very
  kind, and every other node (loops, match, discard, sort, deal) into the exception about unsupported types,
  although it prepares arguments for discard.
\<close>

theorem converter_covers_supported_types:
  assumes "playerHandler g \<noteq> None" "envMgr g \<noteq> None"
  shows "\<exists>conv t. buildDefaultConverter (Some g) s = (Inr conv, t) \<and>
    (\<forall>rt a n. rt a = Some n \<longrightarrow>
       (if supported (nodeType n)
        then \<exists>task. convert conv rt (Some a) t = (Inr task, t) \<and> taskType task = nodeType n
        else convert conv rt (Some a) t = (Inl (RuntimeError ''unsupported task type: cannot convert''), t)))"
proof -
  let ?start = "\<lparr>factories = (\<lambda>_. None), tempArgs = (\<lambda>_. [])\<rparr>"
  from fillArgs_argsOf [OF tempArgTable_ok, of ?start s] obtain conv0 t where
    t: "newConverter s = (Inr conv0, t)" "factories conv0 = (\<lambda>_. None)"
      "\<forall>(e, row) \<in> set tempArgTable. argsOf t conv0 e (map argKind row)"
    unfolding newConverter_def by auto
  define conv where "conv = fold (\<lambda>(e, f). addFactory e f)
            [(REVERSE, ReverseFactory), (SHUFFLE, ShuffleFactory), (EXTEND, ExtendFactory),
             (INPUT_CHOICE, InputFactory True), (MESSAGE, MessageFactory True), (SCORES, ScoresFactory True),
             (ASSIGNMENT, AssignmentFactory True)] conv0"
  have build: "buildDefaultConverter (Some g) s = (Inr conv, t)"
    using assms t(1) by (simp add: buildDefaultConverter_def andThen_def run_simps conv_def)
  have args: "tempArgs conv = tempArgs conv0" by (simp add: addFactory_def conv_def)
  have kinds: "argsOf t conv0 REVERSE [LIST]" "argsOf t conv0 SHUFFLE [LIST]" "argsOf t conv0 EXTEND [LIST, LIST]"
    "argsOf t conv0 INPUT_CHOICE [LIST, STRING, STRING]" "argsOf t conv0 SCORES [INT', LIST, LIST, STRING]"
    "argsOf t conv0 MESSAGE [LIST, STRING]" "argsOf t conv0 ASSIGNMENT [STRING, INT']"
    using t(3) by (simp_all add: tempArgTable_def argKind_def ints_def upto_rec1)
  have "if supported e
     then \<exists>task. (case factories conv e of Some f \<Rightarrow> create f (tempArgs conv e)
          | None \<Rightarrow> raise (RuntimeError ''unsupported task type: cannot convert'')) t = (Inr task, t) \<and> taskType task = e
     else factories conv e = None" for e
    using kinds t(2) unfolding args argsOf_def
    by (cases e)
      (auto simp: supported_def addFactory_def conv_def list_all2_Cons2 createReverse_run createShuffle_run createExtend_run
        createInput_run createMessage_run createScores_run createAssignment_run)
  note cases = this
  have "if supported (nodeType n)
        then \<exists>task. convert conv rt (Some a) t = (Inr task, t) \<and> taskType task = nodeType n
        else convert conv rt (Some a) t = (Inl (RuntimeError ''unsupported task type: cannot convert''), t)"
    if "rt a = Some n" for rt a n
    using cases [of "nodeType n"] that
    by (auto simp: convert_def nodeOf_def andThen_def run_simps split: if_splits)
  with build show ?thesis by blast
qed

theorem converter_covers_supported_types_witness:
  "\<exists>conv t. buildDefaultConverter (Some (newGameInstance ''g'' 1)) emptyStore = (Inr conv, t) \<and>
    (\<forall>rt a n. rt a = Some n \<longrightarrow>
       (if supported (nodeType n)
        then \<exists>task. convert conv rt (Some a) t = (Inr task, t) \<and> taskType task = nodeType n
        else convert conv rt (Some a) t = (Inl (RuntimeError ''unsupported task type: cannot convert''), t)))"
  by (rule converter_covers_supported_types) (simp_all add: newGameInstance_def)

section \<open>Lists\<close>

text \<open>
  Extending a list appends, in order, one new variable per element, each holding the element's value at
  that time; the elements already in the list stay. This also holds when the elements come from the list
  itself, because the task has a copy of the vector.
\<close>

theorem extend_appends_values:
  assumes "building s c olds" "list_all2 (holdsVal s c) elems vs"
  shows "\<exists>t. runExtend (Some c) elems s = (Inr (), t) \<and> building t c (olds @ vs)"
proof -
  have "\<exists>t. forEach elems (\<lambda>item. andThen (getRef item) (\<lambda>ref. andThen (readCell ref) (push_back c))) s = (Inr (), t) \<and>
      building t c (olds @ vs)"
    using assms
  proof (induction elems arbitrary: s olds vs)
    case (Cons p elems)
    then obtain v ws where vs: "vs = v # ws" "holdsVal s c p v" "list_all2 (holdsVal s c) elems ws"
      by (auto simp: list_all2_Cons1)
    from building_push [OF Cons.prems(1), of v] obtain t where
      t: "push_back c v s = (Inr (), t)" "building t c (olds @ [v])" "\<forall>p w. holdsVal s c p w \<longrightarrow> holdsVal t c p w"
      by blast
    have "list_all2 (holdsVal t c) elems ws" using vs(3) t(3) by (auto intro: list_all2_mono)
    from Cons.IH [OF t(2) this] t(1) vs(2) show ?case
      by (auto simp: vs(1) andThen_def run_simps holdsVal_def)
  qed (simp add: run_simps)
  then show ?thesis by (simp add: runExtend_def)
qed

lemma sample_building: "building sampleStore 2 [VInt 7, VString ''b'']"
  by (simp add: building_def holdsVal_def sampleStore_def)

theorem extend_appends_values_witness:
  "\<exists>t. runExtend (Some 2) [Some 10, Some 11] sampleStore = (Inr (), t) \<and>
     building t 2 ([VInt 7, VString ''b''] @ [VInt 7, VString ''b''])"
  by (rule extend_appends_values [OF sample_building]) (simp add: holdsVal_def sampleStore_def)

section \<open>Messages to players\<close>

text \<open>What the receiver does with the ids: split at commas and read each as a number.\<close>

fun splitOn :: "char \<Rightarrow> string \<Rightarrow> string list" where
  "splitOn c [] = [[]]"
| "splitOn c (x # xs) = (if x = c then [] # splitOn c xs
     else (case splitOn c xs of [] \<Rightarrow> [[x]] | y # ys \<Rightarrow> (x # y) # ys))"

lemma splitOn_not_Nil [simp]: "splitOn c xs \<noteq> []"
  by (induction xs) (auto split: list.splits)

lemma splitOn_word: "c \<notin> set a \<Longrightarrow> splitOn c a = [a]"
  by (induction a) auto

lemma splitOn_append: "c \<notin> set a \<Longrightarrow> splitOn c (a @ c # rest) = a # splitOn c rest"
  by (induction a) auto

lemma joined_ids: "foldl (\<lambda>curr i. curr @ CHR '','' # toString i) acc is = acc @ concat (map (\<lambda>i. CHR '','' # toString i) is)"
  by (induction "is" arbitrary: acc) auto

lemma split_joined:
  "splitOn (CHR '','') (toString i @ concat (map (\<lambda>i. CHR '','' # toString i) is)) = map toString (i # is)"
proof (induction "is" arbitrary: i)
  case Nil
  show ?case by (simp add: splitOn_word toString_no_comma)
next
  case (Cons j js)
  show ?case using Cons [of j] by (simp add: splitOn_append toString_no_comma)
qed

lemma joinIds_roundtrip:
  assumes "players \<noteq> []" "list_all isInt players"
  shows "\<exists>ids. joinIds players = Inr ids \<and> map stoi (splitOn (CHR '','') ids) = map Inr players"
proof -
  obtain i "is" where p: "players = i # is" using assms(1) by (cases players) auto
  have "map stoi (map toString players) = map Inr players"
    using assms(2) by (simp add: list_all_iff stoi_toString)
  moreover have "joinIds players = Inr (toString i @ concat (map (\<lambda>i. CHR '','' # toString i) is))"
    by (simp add: joinIds_def joined_ids p)
  ultimately show ?thesis using split_joined [of i "is"] by (simp add: p)
qed

text \<open>
  C36: A message task queues one message whose address list reads back, split at the commas, as exactly the
  players of the task in order, and whose content is the text.
\<close>

theorem message_reaches_players:
  assumes "playerHandler (inst t) = Some ms" "players \<noteq> []" "list_all isInt players"
  shows "\<exists>ids. runMessage players txt' t =
      (Inr (), t\<lparr>inst := (inst t)\<lparr>playerHandler := Some (ms @
         [\<lparr>playerIds = ids, message = [(''data'', txt'), (''type'', ''message'')]\<rparr>])\<rparr>\<rparr>) \<and>
    map stoi (splitOn (CHR '','') ids) = map Inr players"
proof -
  from joinIds_roundtrip [OF assms(2,3)] obtain ids where
    "joinIds players = Inr ids" "map stoi (splitOn (CHR '','') ids) = map Inr players" by blast
  with assms(1) show ?thesis
    by (intro exI [of _ ids]) (simp add: runMessage_def andThen_def run_simps)
qed

theorem message_reaches_players_witness:
  "\<exists>ids. runMessage [1, 20] ''hi'' sampleSession =
      (Inr (), sampleSession\<lparr>inst := (inst sampleSession)\<lparr>playerHandler := Some ([] @
         [\<lparr>playerIds = ids, message = [(''data'', ''hi''), (''type'', ''message'')]\<rparr>])\<rparr>\<rparr>) \<and>
    map stoi (splitOn (CHR '','') ids) = map Inr [1, 20]"
  by (rule message_reaches_players) (simp_all add: sampleSession_def newGameInstance_def isInt_def INT_MIN_def INT_MAX_def)

text \<open>
  A message for a list without numbers is undefined behaviour: the factory drops every other item, and
  running the task erases the first character of an empty string. The list of players that
  \<open>addPlayerToGame\<close> builds is such a list: its items are maps.
\<close>

theorem message_to_player_maps_undefined:
  assumes "objs (smem t) a = Some c" "building (smem t) c vs" "list_all2 (holdsPlayer (smem t) c) vs ps"
    and "argOk (smem t) b STRING"
  shows "\<exists>txt'. createMessage True [Some a, Some b] (smem t) = (Inr (MessageTask [] txt'), smem t) \<and>
    runMessage [] txt' t = (Inl UB, t)"
proof -
  let ?s = "smem t" and ?e = "BadVariableArg ''Expected two listObjs''"
  from assms(2) obtain items where items: "cells ?s c = Some (VList items)" "list_all2 (holdsVal ?s c) items vs"
    by (auto simp: building_def)
  have vals: "mapProg getVal items ?s = (Inr vs, ?s)" using items(2)
    by (induction rule: list_all2_induct) (auto simp: run_simps andThen_def holdsVal_def)
  have "List.map_filter getInt vs = []" using assms(3)
    by (induction rule: list_all2_induct) (auto simp: map_filter_simps holdsPlayer_def)
  with vals have copy: "copyVec getInt items ?s = (Inr [], ?s)"
    by (simp add: copyVec_def andThen_def run_simps)
  from needArg_string [OF assms(4), of "[Some a, Some b]" 1 ?e] obtain x where
    x: "needArg ?e getString [Some a, Some b] (Suc 0) ?s = (Inr x, ?s)" by auto
  have "needArg ?e getList [Some a, Some b] 0 ?s = (Inr items, ?s)"
    using assms(1) items(1) by (simp add: needArg_def argAs_def argCell_def vectorAt_def andThen_def run_simps)
  with x copy show ?thesis
    by (simp add: createMessage_def checkPreconditionsHandler_def checkPreconditions_def andThen_def run_simps Let_def
        runMessage_def joinIds_def)
qed

definition playerListSession :: session where
  "playerListSession = sampleSession\<lparr>smem := \<lparr>objs = [20 \<mapsto> 0, 21 \<mapsto> 1, 22 \<mapsto> 2, 23 \<mapsto> 3, 24 \<mapsto> 4],
     cells = [0 \<mapsto> VInt 1, 1 \<mapsto> VString ''ann'', 2 \<mapsto> VVarMap [(''id'', Some 20), (''name'', Some 21)],
       3 \<mapsto> VList [Some 22], 4 \<mapsto> VString ''hello''], strs = Map.empty, brk = 25\<rparr>\<rparr>"

theorem message_to_player_maps_undefined_witness:
  "\<exists>txt'. createMessage True [Some 23, Some 24] (smem playerListSession) =
      (Inr (MessageTask [] txt'), smem playerListSession) \<and>
    runMessage [] txt' playerListSession = (Inl UB, playerListSession)"
  by (rule message_to_player_maps_undefined
      [of _ _ 3 "[VVarMap [(''id'', Some 20), (''name'', Some 21)]]" "[(1, ''ann'')]"])
    (simp_all add: playerListSession_def building_def holdsVal_def holdsPlayer_def argOk_def)

text \<open>Entries put under counted keys: each is found under its number, other keys keep their entry.\<close>

lemma toString_int_inject [simp]: "toString (int i) = toString (int j) \<longleftrightarrow> i = j"
  by (simp add: toString_def)

lemma prefix_toString_inject [simp]: "prefix @ toString (int i) = prefix @ toString (int j) \<longleftrightarrow> i = j"
  by (simp add: toString_def)

lemma putIndexed_other:
  "(\<And>j. k \<noteq> prefix @ toString (int j)) \<Longrightarrow> map_of (putIndexed prefix i xs msg) k = map_of msg k"
  by (induction xs arbitrary: i msg) (simp_all add: map_of_mapPut)

lemma putIndexed_before: "j < i \<Longrightarrow> map_of (putIndexed prefix i xs msg) (prefix @ toString (int j)) =
    map_of msg (prefix @ toString (int j))"
  by (induction xs arbitrary: i msg) (simp_all add: map_of_mapPut)

lemma putIndexed_at:
  "j < length xs \<Longrightarrow> map_of (putIndexed prefix i xs msg) (prefix @ toString (int (i + j))) = Some (xs ! j)"
proof (induction xs arbitrary: i j msg)
  case (Cons x xs)
  show ?case
  proof (cases j)
    case 0
    then show ?thesis using putIndexed_before [of i "Suc i" prefix xs] by (simp add: map_of_mapPut)
  next
    case (Suc k)
    then show ?thesis using Cons.IH [of k "Suc i"] Cons.prems by simp
  qed
qed simp

lemma digits_key: "c # cs \<noteq> toString (int j)" if "\<not> isDigit c"
  using showNat_hd [of j] that by (auto simp: toString_def dest: sym [of "c # cs"])

lemma not_digit_letters: "\<not> isDigit CHR ''p''" "\<not> isDigit CHR ''t''" "\<not> isDigit CHR ''r''" "\<not> isDigit CHR ''c''"
  by (simp_all add: isDigit_def)

lemmas message_keys = digits_key [OF not_digit_letters(1)] digits_key [OF not_digit_letters(2)]
  digits_key [OF not_digit_letters(3)] digits_key [OF not_digit_letters(4)]

text \<open>
  C37: An input task queues one message for its players from which the whole request can be read back: the
  prompt, the type, the range when both ends were given, the number of choices and each choice under its
  index; without choices there is no count.
\<close>

theorem input_message_readable:
  assumes "playerHandler (inst t) = Some ms" "inPlayers task \<noteq> []" "list_all isInt (inPlayers task)"
    and "n = length (choices task)"
  shows "\<exists>ids msg. runInput task t = (Inr (), t\<lparr>inst := (inst t)\<lparr>playerHandler := Some (ms @
         [\<lparr>playerIds = ids, message = msg\<rparr>])\<rparr>\<rparr>) \<and>
    map stoi (splitOn (CHR '','') ids) = map Inr (inPlayers task) \<and>
    map_of msg ''prompt'' = Some (prompt task) \<and> map_of msg ''type'' = Some (inType task) \<and>
    map_of msg ''rangeStart'' = (if start task = -1 \<or> stop task = -1 then None else Some (toString (start task))) \<and>
    map_of msg ''rangeEnd'' = (if start task = -1 \<or> stop task = -1 then None else Some (toString (stop task))) \<and>
    map_of msg ''choiceListSize'' = (if n = 0 then None else Some (toString (int n))) \<and>
    map (\<lambda>i. map_of msg (toString (int i))) [0..<n] = map Some (choices task)"
proof -
  from joinIds_roundtrip [OF assms(2,3)] obtain ids where
    ids: "joinIds (inPlayers task) = Inr ids" "map stoi (splitOn (CHR '','') ids) = map Inr (inPlayers task)" by blast
  define base where "base = setRange (start task) (stop task) (mapPut ''type'' (inType task) (mapPut ''prompt'' (prompt task) []))"
  let ?msg = "setChoices (choices task) base"
  have run: "runInput task t = (Inr (), t\<lparr>inst := (inst t)\<lparr>playerHandler := Some (ms @
         [\<lparr>playerIds = ids, message = ?msg\<rparr>])\<rparr>\<rparr>)"
    using ids(1) assms(1) by (simp add: runInput_def andThen_def run_simps base_def)
  have key: "map_of ?msg k = (if n \<noteq> 0 \<and> k = ''choiceListSize'' then Some (toString (int n)) else map_of base k)"
    if "\<And>j. k \<noteq> toString (int j)" for k
  proof -
    have other: "map_of (putIndexed '''' i xs m) k = map_of m k" for i xs m
      using putIndexed_other [of k "[]"] that by simp
    have "map_of ?msg k = map_of (if choices task = [] then base
        else mapPut ''choiceListSize'' (toString (int (length (choices task)))) base) k"
      by (simp only: setChoices_def if_distrib [of "\<lambda>m. map_of m k"] other)
    then show ?thesis using assms(4) by (simp add: map_of_mapPut)
  qed
  have baseAt: "map_of base ''prompt'' = Some (prompt task)" "map_of base ''type'' = Some (inType task)"
    "map_of base ''rangeStart'' = (if start task = -1 \<or> stop task = -1 then None else Some (toString (start task)))"
    "map_of base ''rangeEnd'' = (if start task = -1 \<or> stop task = -1 then None else Some (toString (stop task)))"
    "map_of base ''choiceListSize'' = None"
    by (simp_all add: base_def setRange_def map_of_mapPut)
  have "map_of ?msg ''prompt'' = Some (prompt task)" "map_of ?msg ''type'' = Some (inType task)"
    "map_of ?msg ''rangeStart'' = (if start task = -1 \<or> stop task = -1 then None else Some (toString (start task)))"
    "map_of ?msg ''rangeEnd'' = (if start task = -1 \<or> stop task = -1 then None else Some (toString (stop task)))"
    "map_of ?msg ''choiceListSize'' = (if n = 0 then None else Some (toString (int n)))"
    by (simp_all add: key message_keys baseAt)
  moreover have "map (\<lambda>i. map_of ?msg (toString (int i))) [0..<n] = map Some (choices task)"
  proof (rule nth_equalityI)
    fix i assume i: "i < length (map (\<lambda>i. map_of ?msg (toString (int i))) [0..<n])"
    then have "i < length (choices task)" "choices task \<noteq> []" using assms(4) by auto
    then show "map (\<lambda>i. map_of ?msg (toString (int i))) [0..<n] ! i = map Some (choices task) ! i"
      using putIndexed_at [of i "choices task" "[]" 0] i by (simp add: setChoices_def)
  qed (simp add: assms(4))
  ultimately show ?thesis using run ids(2) by (intro exI [of _ ids] exI [of _ ?msg]) simp
qed

definition sampleInput :: InputTask where
  "sampleInput = \<lparr>inPlayers = [1, 2], prompt = ''pick'', inType = ''choice'', start = -1, stop = -1,
     choices = [''rock'', ''paper'']\<rparr>"

theorem input_message_readable_witness:
  "\<exists>ids msg. runInput sampleInput sampleSession = (Inr (), sampleSession\<lparr>inst := (inst sampleSession)\<lparr>playerHandler :=
       Some ([] @ [\<lparr>playerIds = ids, message = msg\<rparr>])\<rparr>\<rparr>) \<and>
    map stoi (splitOn (CHR '','') ids) = map Inr (inPlayers sampleInput) \<and>
    map_of msg ''prompt'' = Some (prompt sampleInput) \<and> map_of msg ''type'' = Some (inType sampleInput) \<and>
    map_of msg ''rangeStart'' = (if start sampleInput = -1 \<or> stop sampleInput = -1 then None
       else Some (toString (start sampleInput))) \<and>
    map_of msg ''rangeEnd'' = (if start sampleInput = -1 \<or> stop sampleInput = -1 then None
       else Some (toString (stop sampleInput))) \<and>
    map_of msg ''choiceListSize'' = (if 2 = (0::nat) then None else Some (toString (int 2))) \<and>
    map (\<lambda>i. map_of msg (toString (int i))) [0..<2] = map Some (choices sampleInput)"
  by (rule input_message_readable)
    (simp_all add: sampleSession_def newGameInstance_def sampleInput_def isInt_def INT_MIN_def INT_MAX_def)

end

