(* ===== verification/StdQueue.thy ===== *)
theory StdQueue
  imports Prelude
begin

text \<open>
  The contract of a first-in first-out queue (\<open>std::queue\<close> in \<open>GameInstanceManager\<close>, the message queues of the
  networking parts), and what follows from it: what goes in comes out once and in order.
\<close>

locale fifo =
  fixes push :: "'a \<Rightarrow> 's \<Rightarrow> 's" and pop :: "'s \<Rightarrow> ('a \<times> 's) option" and contents :: "'s \<Rightarrow> 'a list"
  assumes push_law: "contents (push x s) = contents s @ [x]"
    and pop_empty: "contents s = [] \<Longrightarrow> pop s = None"
    and pop_law: "contents s = x # xs \<Longrightarrow> \<exists>t. pop s = Some (x, t) \<and> contents t = xs"
begin

primrec popAll :: "nat \<Rightarrow> 's \<Rightarrow> 'a list \<times> 's" where
  "popAll 0 s = ([], s)"
| "popAll (Suc n) s = (case pop s of None \<Rightarrow> ([], s) | Some (x, t) \<Rightarrow> (let (xs, u) = popAll n t in (x # xs, u)))"

lemma contents_pushes: "contents (fold push xs s) = contents s @ xs"
  by (induction xs arbitrary: s) (simp_all add: push_law)

lemma popAll_contents: "fst (popAll n s) = take n (contents s) \<and> contents (snd (popAll n s)) = drop n (contents s)"
proof (induction n arbitrary: s)
  case (Suc n)
  show ?case
  proof (cases "contents s")
    case Nil
    then show ?thesis by (simp add: pop_empty)
  next
    case (Cons x xs)
    from pop_law [OF Cons] obtain t where "pop s = Some (x, t)" "contents t = xs" by blast
    with Suc.IH [of t] Cons show ?thesis by (auto simp: Let_def split: prod.splits)
  qed
qed simp

lemma fifo_order: "contents s = [] \<Longrightarrow> fst (popAll (length xs) (fold push xs s)) = xs"
  by (simp add: popAll_contents contents_pushes)

end

end
