(* ===== verification/GameManager.thy ===== *)
theory GameManager
  imports GameProps StdQueue
begin

text \<open>
  \<open>lib/gameInstanceManager\<close>: the queue of active games and the map of waiting games. Game instances are
  shared by pointer, so they live in a memory of instances; all share the store of variables.
\<close>

section \<open>State\<close>

record manager =
  mstore :: store
  games :: "nat \<Rightarrow> GameInstance option"
  nextGame :: nat
  activeGameQueue :: "nat option list"           \<comment> \<open>\<open>std::queue<shared_ptr<GameInstance>>\<close>\<close>
  waitingGameMap :: "(int, nat option) umap"

definition emptyManager :: manager where
  "emptyManager = \<lparr>mstore = emptyStore, games = Map.empty, nextGame = 0, activeGameQueue = [],
     waitingGameMap = Map.empty\<rparr>"

text \<open>A program of one instance, run on the instance at an address.\<close>

definition onInstance :: "nat \<Rightarrow> (session, 'a) prog \<Rightarrow> (manager, 'a) prog" where
  "onInstance a m = (\<lambda>s. case games s a of
      None \<Rightarrow> (Inl UB, s)
    | Some i \<Rightarrow> (case m \<lparr>smem = mstore s, inst = i\<rparr> of
        (r, t) \<Rightarrow> (r, s\<lparr>mstore := smem t, games := (games s)(a \<mapsto> inst t)\<rparr>)))"

section \<open>Operations\<close>

definition putGameInstanceInMap :: "nat option \<Rightarrow> (manager, unit) prog" where
  "putGameInstanceInMap game = andThen getState (\<lambda>s.
     andThen (fromOption UB (Option.bind game (games s))) (\<lambda>i.
       modify (\<lambda>s. s\<lparr>waitingGameMap := umapEmplace (gameInstanceId i) game (waitingGameMap s)\<rparr>)))"

definition createGameInstance :: "string \<Rightarrow> int \<Rightarrow> (manager, unit) prog" where
  "createGameInstance name gid = andThen getState (\<lambda>s.
     andThen (modify (\<lambda>s. s\<lparr>games := (games s)(nextGame s \<mapsto> newGameInstance name gid),
         nextGame := Suc (nextGame s)\<rparr>)) (\<lambda>_.
       putGameInstanceInMap (Some (nextGame s))))"

definition popGame :: "manager \<Rightarrow> (nat option \<times> manager) option" where
  "popGame s = (case activeGameQueue s of [] \<Rightarrow> None | g # q \<Rightarrow> Some (g, s\<lparr>activeGameQueue := q\<rparr>))"

definition getGameInstanceFromQueue :: "(manager, nat option) prog" where
  "getGameInstanceFromQueue = (\<lambda>s. case popGame s of None \<Rightarrow> (Inr None, s) | Some (g, t) \<Rightarrow> (Inr g, t))"

definition pushGame :: "nat option \<Rightarrow> manager \<Rightarrow> manager" where
  "pushGame game s = s\<lparr>activeGameQueue := activeGameQueue s @ [game]\<rparr>"

definition putGameInstanceInQueue :: "nat option \<Rightarrow> (manager, unit) prog" where
  "putGameInstanceInQueue game = modify (pushGame game)"

definition getGameInstanceFromMap :: "int \<Rightarrow> (manager, nat option) prog" where
  "getGameInstanceFromMap gid = andThen getState (\<lambda>s.
     ok (case waitingGameMap s gid of None \<Rightarrow> None | Some g \<Rightarrow> g))"

definition assignPlayerToGame :: "int \<Rightarrow> string \<Rightarrow> int \<Rightarrow> (manager, unit) prog" where
  "assignPlayerToGame gid playerName playerId =
     andThen (getGameInstanceFromMap gid) (\<lambda>game.
       case game of
         Some a \<Rightarrow> onInstance a (addPlayerToGame playerId playerName)
       | None \<Rightarrow> ok ())"

definition deletePlayerFromGame :: "int \<Rightarrow> int \<Rightarrow> (manager, unit) prog" where
  "deletePlayerFromGame gid playerId =
     andThen (getGameInstanceFromMap gid) (\<lambda>game. ok ())"

interpretation game_queue: fifo pushGame popGame activeGameQueue
  by unfold_locales (auto simp: pushGame_def popGame_def)

section \<open>Properties\<close>

lemma getQueue_popAll:
  "mapProg (\<lambda>_. getGameInstanceFromQueue) (replicate n ()) s =
     (Inr (fst (game_queue.popAll n s) @ replicate (n - length (activeGameQueue s)) None), snd (game_queue.popAll n s))"
proof (induction n arbitrary: s)
  case (Suc n)
  show ?case
  proof (cases "activeGameQueue s")
    case Nil
    then have p: "popGame s = None" by (simp add: popGame_def)
    have "game_queue.popAll n s = ([], s)" using p by (cases n) simp_all
    with Suc.IH [of s] p Nil show ?thesis by (simp add: andThen_def run_simps getGameInstanceFromQueue_def)
  next
    case (Cons g q)
    then have "popGame s = Some (g, s\<lparr>activeGameQueue := q\<rparr>)" by (simp add: popGame_def)
    with Suc.IH [of "s\<lparr>activeGameQueue := q\<rparr>"] Cons show ?thesis
      by (auto simp: andThen_def run_simps getGameInstanceFromQueue_def Let_def split: prod.splits)
  qed
qed (simp add: run_simps)

lemma putQueue_fold: "forEach gs putGameInstanceInQueue s = (Inr (), fold pushGame gs s)"
  by (induction gs arbitrary: s) (simp_all add: andThen_def run_simps putGameInstanceInQueue_def)

text \<open>
  The active games come out of the queue in the order they went in, each once, and a drained queue
  answers with a null pointer: taking \<open>n\<close> games after putting \<open>gs\<close> into an empty queue gives the first \<open>n\<close>
  of them, padded with null pointers.
\<close>

theorem active_games_in_order:
  assumes "activeGameQueue s = []"
  shows "\<exists>t. andThen (forEach gs putGameInstanceInQueue)
      (\<lambda>_. mapProg (\<lambda>_. getGameInstanceFromQueue) (replicate n ())) s =
      (Inr (take n gs @ replicate (n - length gs) None), t) \<and> activeGameQueue t = drop n gs"
  using game_queue.popAll_contents [of n "fold pushGame gs s"] game_queue.contents_pushes [of gs s] assms
  by (auto simp: andThen_def putQueue_fold getQueue_popAll)

theorem active_games_in_order_witness:
  "\<exists>t. andThen (forEach [Some 4, Some 5] putGameInstanceInQueue)
      (\<lambda>_. mapProg (\<lambda>_. getGameInstanceFromQueue) (replicate 3 ())) emptyManager =
      (Inr (take 3 [Some 4, Some 5] @ replicate (3 - length [Some 4, Some (5::nat)]) None), t) \<and>
    activeGameQueue t = drop 3 [Some 4, Some 5]"
  by (rule active_games_in_order) (simp add: emptyManager_def)

text \<open>The games of a manager are below the next address.\<close>

definition gamesOk :: "manager \<Rightarrow> bool" where
  "gamesOk s \<longleftrightarrow> (\<forall>a. games s a \<noteq> None \<longrightarrow> a < nextGame s) \<and>
     (\<forall>i g. waitingGameMap s i = Some g \<longrightarrow> (\<exists>a inst. g = Some a \<and> games s a = Some inst \<and> gameInstanceId inst = i))"

lemma create_run:
  "createGameInstance name i s = (Inr (), s\<lparr>games := (games s)(nextGame s \<mapsto> newGameInstance name i),
     nextGame := Suc (nextGame s), waitingGameMap := umapEmplace i (Some (nextGame s)) (waitingGameMap s)\<rparr>)"
  by (simp add: createGameInstance_def putGameInstanceInMap_def andThen_def run_simps newGameInstance_def)

lemma create_gamesOk:
  assumes "gamesOk s" "createGameInstance name i s = (r, t)"
  shows "gamesOk t"
proof -
  have t: "t = s\<lparr>games := (games s)(nextGame s \<mapsto> newGameInstance name i), nextGame := Suc (nextGame s),
      waitingGameMap := umapEmplace i (Some (nextGame s)) (waitingGameMap s)\<rparr>"
    using assms(2) by (simp add: create_run)
  have old: "\<exists>a inst. g = Some a \<and> games t a = Some inst \<and> gameInstanceId inst = j"
    if "waitingGameMap s j = Some g" for j g
  proof -
    from assms(1) that obtain a x where a: "g = Some a" "games s a = Some x" "gameInstanceId x = j"
      unfolding gamesOk_def by blast
    with assms(1) have "a < nextGame s" by (auto simp: gamesOk_def)
    with a show ?thesis by (auto simp: t)
  qed
  have new: "games t (nextGame s) = Some (newGameInstance name i)" "gameInstanceId (newGameInstance name i) = i"
    by (simp_all add: t newGameInstance_def)
  have "\<exists>a inst. g = Some a \<and> games t a = Some inst \<and> gameInstanceId inst = j"
    if "waitingGameMap t j = Some g" for j g
    using that old [of j g] new by (auto simp: t umapEmplace_def split: option.splits if_splits)
  moreover have "\<forall>a. games t a \<noteq> None \<longrightarrow> a < nextGame t"
    using assms(1) by (auto simp: t gamesOk_def less_Suc_eq)
  ultimately show ?thesis unfolding gamesOk_def by blast
qed

lemma create_games:
  "gamesOk s \<Longrightarrow> \<exists>t. forEach ps (\<lambda>(name, i). createGameInstance name i) s = (Inr (), t) \<and> gamesOk t \<and>
    (\<forall>i g. waitingGameMap s i = Some g \<longrightarrow> waitingGameMap t i = Some g) \<and>
    (\<forall>a x. games s a = Some x \<longrightarrow> games t a = Some x) \<and>
    (\<forall>i name. waitingGameMap s i = None \<longrightarrow> map_of (map (\<lambda>(n, i). (i, n)) ps) i = Some name \<longrightarrow>
       (\<exists>a. waitingGameMap t i = Some (Some a) \<and> games t a = Some (newGameInstance name i))) \<and>
    (\<forall>i. waitingGameMap s i = None \<longrightarrow> map_of (map (\<lambda>(n, i). (i, n)) ps) i = None \<longrightarrow> waitingGameMap t i = None)"
proof (induction ps arbitrary: s)
  case (Cons p ps)
  obtain name i where p: "p = (name, i)" by (cases p)
  obtain u where u: "createGameInstance name i s = (Inr (), u)" by (simp add: create_run)
  note ok = create_gamesOk [OF Cons.prems u]
  from Cons.IH [OF ok] obtain t where t: "forEach ps (\<lambda>(name, i). createGameInstance name i) u = (Inr (), t)" "gamesOk t"
    "\<And>i g. waitingGameMap u i = Some g \<Longrightarrow> waitingGameMap t i = Some g"
    "\<And>a x. games u a = Some x \<Longrightarrow> games t a = Some x"
    "\<And>i name. waitingGameMap u i = None \<Longrightarrow> map_of (map (\<lambda>(n, i). (i, n)) ps) i = Some name \<Longrightarrow>
       (\<exists>a. waitingGameMap t i = Some (Some a) \<and> games t a = Some (newGameInstance name i))"
    "\<And>i. waitingGameMap u i = None \<Longrightarrow> map_of (map (\<lambda>(n, i). (i, n)) ps) i = None \<Longrightarrow> waitingGameMap t i = None"
    by blast
  have u': "u = s\<lparr>games := (games s)(nextGame s \<mapsto> newGameInstance name i), nextGame := Suc (nextGame s),
      waitingGameMap := umapEmplace i (Some (nextGame s)) (waitingGameMap s)\<rparr>"
    using u by (simp add: create_run)
  have fresh: "games s a = Some x \<Longrightarrow> games u a = Some x" for a x
    using Cons.prems by (auto simp: u' gamesOk_def)
  have keep: "waitingGameMap s j = Some g \<Longrightarrow> waitingGameMap u j = Some g" for j g
    by (auto simp: u' umapEmplace_def split: option.splits)
  have new: "waitingGameMap s i = None \<Longrightarrow> waitingGameMap u i = Some (Some (nextGame s)) \<and>
      games u (nextGame s) = Some (newGameInstance name i)"
    by (simp add: u' umapEmplace_def)
  have other: "j \<noteq> i \<Longrightarrow> waitingGameMap u j = waitingGameMap s j" for j
    by (simp add: u' umapEmplace_def split: option.splits)
  have hit: "\<exists>a. waitingGameMap t j = Some (Some a) \<and> games t a = Some (newGameInstance nm j)"
    if "waitingGameMap s j = None" "map_of (map (\<lambda>(n, i). (i, n)) (p # ps)) j = Some nm" for j nm
  proof (cases "j = i")
    case True
    with that p new t(3,4) show ?thesis by auto
  next
    case False
    with that p other t(5) [of j nm] show ?thesis by simp
  qed
  have miss: "waitingGameMap t j = None"
    if "waitingGameMap s j = None" "map_of (map (\<lambda>(n, i). (i, n)) (p # ps)) j = None" for j
    using that p other t(6) [of j] by (cases "j = i") auto
  have run: "forEach (p # ps) (\<lambda>(name, i). createGameInstance name i) s = (Inr (), t)"
    using u t(1) by (simp add: andThen_def p)
  show ?case
    using run t(2) keep t(3) fresh t(4) hit miss by (intro exI [of _ t] conjI) blast+
qed (simp add: run_simps)

text \<open>
  The waiting map finds a game by its id, and the first game created with an id keeps it: after creating
  any games, the id leads to a fresh instance with the name of the first creation under that id, and a
  later creation with the same id changes nothing a lookup can see. An id never created gives a null pointer.
\<close>

theorem first_game_keeps_id:
  "\<exists>t. forEach ps (\<lambda>(name, i). createGameInstance name i) emptyManager = (Inr (), t) \<and>
    (case map_of (map (\<lambda>(name, i). (i, name)) ps) i of
       None \<Rightarrow> getGameInstanceFromMap i t = (Inr None, t)
     | Some name \<Rightarrow> \<exists>a. getGameInstanceFromMap i t = (Inr (Some a), t) \<and> games t a = Some (newGameInstance name i))"
proof -
  have "gamesOk emptyManager" by (simp add: gamesOk_def emptyManager_def)
  from create_games [OF this, of ps] obtain t where
    "forEach ps (\<lambda>(name, i). createGameInstance name i) emptyManager = (Inr (), t)"
    "\<And>i name. map_of (map (\<lambda>(n, i). (i, n)) ps) i = Some name \<Longrightarrow>
       (\<exists>a. waitingGameMap t i = Some (Some a) \<and> games t a = Some (newGameInstance name i))"
    "\<And>i. map_of (map (\<lambda>(n, i). (i, n)) ps) i = None \<Longrightarrow> waitingGameMap t i = None"
    by (auto simp: emptyManager_def)
  note t = this
  show ?thesis
  proof (cases "map_of (map (\<lambda>(name, i). (i, name)) ps) i")
    case None
    with t(1,3) show ?thesis
      by (auto simp: getGameInstanceFromMap_def andThen_def run_simps)
  next
    case (Some name)
    from t(2) [OF this] obtain a where
      "waitingGameMap t i = Some (Some a)" "games t a = Some (newGameInstance name i)" by blast
    with t(1) Some show ?thesis
      by (auto simp: getGameInstanceFromMap_def andThen_def run_simps)
  qed
qed

end
