(* ===== verification/RuleParser.thy ===== *)
theory RuleParser
  imports RuleTree StdMap CppText
begin

text \<open>
  The rule parser (\<open>src/RuleInterpreter.cpp\<close>): from the syntax tree of a game's rules to the rule tree.
  The syntax tree belongs to tree-sitter, so its nodes and the calls on them are a parameter, the record
  \<open>tsApi\<close>: every call may also fail (a null node has nothing to read), which the parameter decides.
  Recursion over the syntax tree is bounded by fuel; \<open>ranked\<close> states that it is a tree, and then fuel
  above the rank of a node is enough.
\<close>

section \<open>The syntax tree\<close>

record 'n tsApi =
  isNull :: "'n \<Rightarrow> bool"
  tsType :: "'n \<Rightarrow> cpp_error + string"
  getNumNamedChildren :: "'n \<Rightarrow> cpp_error + nat"
  getNamedChild :: "'n \<Rightarrow> nat \<Rightarrow> cpp_error + 'n"
  getChildByFieldName :: "'n \<Rightarrow> string \<Rightarrow> cpp_error + 'n"
  getSourceRange :: "'n \<Rightarrow> string \<Rightarrow> cpp_error + string"

abbreviation typeOf :: "'n tsApi \<Rightarrow> 'n \<Rightarrow> ('s, string) prog" where
  "typeOf api n \<equiv> fromSum (tsType api n)"

abbreviation numOf :: "'n tsApi \<Rightarrow> 'n \<Rightarrow> ('s, nat) prog" where
  "numOf api n \<equiv> fromSum (getNumNamedChildren api n)"

abbreviation childOf :: "'n tsApi \<Rightarrow> 'n \<Rightarrow> nat \<Rightarrow> ('s, 'n) prog" where
  "childOf api n i \<equiv> fromSum (getNamedChild api n i)"

abbreviation fieldOf :: "'n tsApi \<Rightarrow> 'n \<Rightarrow> string \<Rightarrow> ('s, 'n) prog" where
  "fieldOf api n f \<equiv> fromSum (getChildByFieldName api n f)"

abbreviation rangeOf :: "'n tsApi \<Rightarrow> string \<Rightarrow> 'n \<Rightarrow> ('s, string) prog" where
  "rangeOf api source n \<equiv> fromSum (getSourceRange api n source)"

section \<open>Reading values\<close>

definition taskRules :: "(string, NodeType) smap" where
  "taskRules = fold (\<lambda>(k, t) m. mapPut k t m)
     [(''extend'', EXTEND), (''discard'', DISCARD), (''shuffle'', SHUFFLE), (''sort'', SORT), (''deal'', DEAL),
      (''input_choice'', INPUT_CHOICE), (''message'', MESSAGE), (''scores'', SCORES),
      (''assignment'', ASSIGNMENT), (''reverse'', REVERSE)] []"

definition getNodeValue :: "'n tsApi \<Rightarrow> string \<Rightarrow> 'n \<Rightarrow> ('s, string) prog" where
  "getNodeValue api source node = rangeOf api source node"

definition getChildNodeValue :: "'n tsApi \<Rightarrow> string \<Rightarrow> string \<Rightarrow> 'n \<Rightarrow> ('s, string) prog" where
  "getChildNodeValue api source childNodeName node =
     andThen (fieldOf api node childNodeName) (rangeOf api source)"

text \<open>The out-parameter \<open>result\<close> is an accumulator: a child's own matches come before the child.\<close>

primrec childLoop :: "('n \<Rightarrow> string list \<Rightarrow> ('s, string list) prog) \<Rightarrow> 'n tsApi \<Rightarrow> string \<Rightarrow> string \<Rightarrow> 'n \<Rightarrow> nat list \<Rightarrow>
    string list \<Rightarrow> ('s, string list) prog" where
  "childLoop rec api source childNodeType node [] result = ok result"
| "childLoop rec api source childNodeType node (i # is) result =
     andThen (childOf api node i) (\<lambda>current.
     andThen (rec current result) (\<lambda>inner.
     andThen (typeOf api current) (\<lambda>t.
     andThen (if t = childNodeType then andThen (rangeOf api source current) (\<lambda>x. ok (inner @ [x])) else ok inner)
       (\<lambda>outer. childLoop rec api source childNodeType node is outer))))"

primrec getAllChildNodeValuesHelper :: "nat \<Rightarrow> 'n tsApi \<Rightarrow> string \<Rightarrow> string \<Rightarrow> 'n \<Rightarrow> string list \<Rightarrow> ('s, string list) prog"
where
  "getAllChildNodeValuesHelper 0 api source childNodeType node result = raise OutOfFuel"
| "getAllChildNodeValuesHelper (Suc fuel) api source childNodeType node result =
     andThen (numOf api node) (\<lambda>n.
       childLoop (getAllChildNodeValuesHelper fuel api source childNodeType) api source childNodeType node [0..<n] result)"

definition getAllChildNodeValues :: "nat \<Rightarrow> 'n tsApi \<Rightarrow> string \<Rightarrow> string \<Rightarrow> 'n \<Rightarrow> ('s, string list) prog" where
  "getAllChildNodeValues fuel api source childNodeType node =
     getAllChildNodeValuesHelper fuel api source childNodeType node []"

section \<open>Expressions\<close>

text \<open>\<open>node.getSourceRange(source)[length + 1]\<close>: the character after the left operand and one more.\<close>

definition operatorAt :: "string \<Rightarrow> nat \<Rightarrow> ('s, string) prog" where
  "operatorAt whole len = (if len + 1 < length whole then ok [whole ! (len + 1)] else raise UB)"

primrec exprLoop :: "('n \<Rightarrow> string list \<Rightarrow> ('s, string list) prog) \<Rightarrow> 'n tsApi \<Rightarrow> 'n \<Rightarrow> nat list \<Rightarrow> string list \<Rightarrow>
    ('s, string list) prog" where
  "exprLoop rec api node [] out = ok out"
| "exprLoop rec api node (i # is) out =
     andThen (childOf api node i) (\<lambda>c. andThen (rec c out) (\<lambda>more. exprLoop rec api node is more))"

definition parseBuiltin :: "('n \<Rightarrow> string list \<Rightarrow> ('s, string list) prog) \<Rightarrow> 'n tsApi \<Rightarrow> string \<Rightarrow> 'n \<Rightarrow> 'n \<Rightarrow> string list \<Rightarrow>
    ('s, string list) prog" where
  "parseBuiltin rec api source node builtin out =
     andThen (childOf api node 0) (\<lambda>c0. andThen (rangeOf api source c0) (\<lambda>object.
     andThen (rangeOf api source builtin) (\<lambda>name.
     andThen (childOf api node 2) (\<lambda>c2. andThen (numOf api c2) (\<lambda>n.
       if n \<noteq> 0 then andThen (fieldOf api c2 ''arguments'') (\<lambda>args. rec args (out @ [object, name]))
       else ok (out @ [object, name]))))))"

definition parseBinary :: "('n \<Rightarrow> string list \<Rightarrow> ('s, string list) prog) \<Rightarrow> 'n tsApi \<Rightarrow> string \<Rightarrow> 'n \<Rightarrow> 'n \<Rightarrow> string list \<Rightarrow>
    ('s, string list) prog" where
  "parseBinary rec api source node lhs out =
     andThen (rangeOf api source lhs) (\<lambda>left. andThen (rangeOf api source node) (\<lambda>whole.
     andThen (operatorAt whole (length left)) (\<lambda>operatorValue.
     andThen (rec lhs (out @ [operatorValue])) (\<lambda>more.
     andThen (fieldOf api node ''rhs'') (\<lambda>rhs. rec rhs more)))))"

definition parseName :: "'n tsApi \<Rightarrow> string \<Rightarrow> 'n \<Rightarrow> string list \<Rightarrow> ('s, string list) prog" where
  "parseName api source node out =
     andThen (rangeOf api source node) (\<lambda>x. ok (out @ [if x = ''all'' then ''players'' else x]))"

primrec parseExpression :: "nat \<Rightarrow> 'n tsApi \<Rightarrow> string \<Rightarrow> 'n \<Rightarrow> string list \<Rightarrow> ('s, string list) prog" where
  "parseExpression 0 api source node expressionList = raise OutOfFuel"
| "parseExpression (Suc fuel) api source node expressionList =
     andThen (typeOf api node) (\<lambda>t.
     if t = ''expression_list''
     then andThen (numOf api node) (\<lambda>n. exprLoop (parseExpression fuel api source) api node [0..<n] expressionList)
     else andThen (fieldOf api node ''builtin'') (\<lambda>builtin.
       if \<not> isNull api builtin then parseBuiltin (parseExpression fuel api source) api source node builtin expressionList
       else andThen (fieldOf api node ''operand'') (\<lambda>operand.
         if \<not> isNull api operand then parseExpression fuel api source operand (expressionList @ [''!''])
         else andThen (fieldOf api node ''lhs'') (\<lambda>lhs.
           if \<not> isNull api lhs then parseBinary (parseExpression fuel api source) api source node lhs expressionList
           else parseName api source node expressionList))))"

text \<open>\<open>std::vector<std::string> expressionList = {}; parseExpression(node, sourcecode, expressionList)\<close>\<close>

definition expressionAt :: "nat \<Rightarrow> 'n tsApi \<Rightarrow> string \<Rightarrow> 'n \<Rightarrow> nat \<Rightarrow> ('s, string list) prog" where
  "expressionAt fuel api source node i = andThen (childOf api node i) (\<lambda>c. parseExpression fuel api source c [])"

text \<open>\<open>expressionList[0] = f(expressionList[0])\<close>; an empty list has no first element.\<close>

definition changeFirst :: "(string \<Rightarrow> string) \<Rightarrow> string list \<Rightarrow> ('s, string list) prog" where
  "changeFirst f xs = (case xs of [] \<Rightarrow> raise UB | x # r \<Rightarrow> ok (f x # r))"

definition quoted :: "string \<Rightarrow> string" where
  "quoted x = CHR 0x22 # x @ [CHR 0x22]"

section \<open>Rules\<close>

text \<open>
  \<open>parseTask\<close>: the kind of the task from its node's type; \<open>it->second\<close> of a type that is in no entry of
  \<open>taskRules\<close> reads the end of the map. \<open>operandsAt\<close> is the loop over the first \<open>count\<close> children.
\<close>

primrec operandsAt :: "nat \<Rightarrow> 'n tsApi \<Rightarrow> string \<Rightarrow> 'n \<Rightarrow> nat list \<Rightarrow> string list list \<Rightarrow> ('s, string list list) prog"
where
  "operandsAt fuel api source ruleNode [] list = ok list"
| "operandsAt fuel api source ruleNode (i # is) list =
     andThen (expressionAt fuel api source ruleNode i) (\<lambda>e. operandsAt fuel api source ruleNode is (list @ [e]))"

definition parseAssignment :: "nat \<Rightarrow> 'n tsApi \<Rightarrow> string \<Rightarrow> 'n \<Rightarrow> string list list \<Rightarrow> ('s, string list list) prog" where
  "parseAssignment fuel api source ruleNode list =
     andThen (expressionAt fuel api source ruleNode 0) (\<lambda>e0. andThen (changeFirst quoted e0) (\<lambda>target.
     andThen (expressionAt fuel api source ruleNode 1) (\<lambda>value.
       ok (list @ [target, value]))))"

definition parseInputChoice :: "nat \<Rightarrow> 'n tsApi \<Rightarrow> string \<Rightarrow> 'n \<Rightarrow> string list list \<Rightarrow> ('s, string list list) prog" where
  "parseInputChoice fuel api source ruleNode list =
     andThen (expressionAt fuel api source ruleNode 0) (\<lambda>e0.
     andThen (changeFirst (\<lambda>x. x @ ''.id'') e0) (\<lambda>player.
     andThen (expressionAt fuel api source ruleNode 1) (\<lambda>prompt.
     andThen (expressionAt fuel api source ruleNode 2) (\<lambda>choices.
     andThen (expressionAt fuel api source ruleNode 3) (\<lambda>e3.
     andThen (changeFirst quoted e3) (\<lambda>result.
     andThen (expressionAt fuel api source ruleNode 4) (\<lambda>timeout.
       ok (list @ [player, prompt, choices, result, timeout]))))))))"

definition parseTask :: "nat \<Rightarrow> 'n tsApi \<Rightarrow> string \<Rightarrow> 'n \<Rightarrow> (ruleHeap, nat) prog" where
  "parseTask fuel api source node =
     andThen (childOf api node 0) (\<lambda>ruleNode.
     andThen (typeOf api ruleNode) (\<lambda>t.
     andThen (fromOption UB (map_of taskRules t)) (\<lambda>type.
     andThen
       (case type of
          SORT \<Rightarrow> operandsAt fuel api source ruleNode [0, 1] [[t]]
        | DEAL \<Rightarrow> operandsAt fuel api source ruleNode [0, 1] [[t]]
        | MESSAGE \<Rightarrow> operandsAt fuel api source ruleNode [0, 1] [[t]]
        | SCORES \<Rightarrow> operandsAt fuel api source ruleNode [0] [[t]]
        | ASSIGNMENT \<Rightarrow> parseAssignment fuel api source ruleNode [[t]]
        | INPUT_CHOICE \<Rightarrow> parseInputChoice fuel api source ruleNode [[t]]
        | _ \<Rightarrow> ok [[t]])
       (\<lambda>list. newTaskRuleNode list type))))"

text \<open>
  \<open>parseControlBody\<close>: the loop over the children of a body, with \<open>firstNode\<close> and \<open>prevNode\<close>. \<open>rec\<close> is
  \<open>parseRule\<close> with the fuel that is left.
\<close>

definition linkNode :: "nodePtr \<Rightarrow> nat \<Rightarrow> (ruleHeap, unit) prog" where
  "linkNode prevNode node = (case prevNode of None \<Rightarrow> ok () | Some p \<Rightarrow> setNextNode p (Some node))"

primrec bodyLoop :: "('n \<Rightarrow> (ruleHeap, nat) prog) \<Rightarrow> 'n tsApi \<Rightarrow> 'n \<Rightarrow> nodePtr \<Rightarrow> nat list \<Rightarrow> nodePtr \<Rightarrow> nodePtr \<Rightarrow>
    (ruleHeap, nodePtr) prog" where
  "bodyLoop rec api bodyNode parent [] firstOne prevNode = ok firstOne"
| "bodyLoop rec api bodyNode parent (i # is) firstOne prevNode =
     andThen (childOf api bodyNode i) (\<lambda>c. andThen (typeOf api c) (\<lambda>t.
     if t = ''comment'' then bodyLoop rec api bodyNode parent is firstOne prevNode
     else
       andThen (rec c) (\<lambda>node.
       andThen (setParentNode node parent) (\<lambda>_.
       andThen (linkNode prevNode node) (\<lambda>_.
         bodyLoop rec api bodyNode parent is (if prevNode = None then Some node else firstOne) (Some node))))))"

definition parseControlBody :: "('n \<Rightarrow> (ruleHeap, nat) prog) \<Rightarrow> 'n tsApi \<Rightarrow> 'n \<Rightarrow> nodePtr \<Rightarrow> (ruleHeap, nodePtr) prog" where
  "parseControlBody rec api bodyNode parent =
     andThen (numOf api bodyNode) (\<lambda>n. bodyLoop rec api bodyNode parent [0..<n] None None)"

definition parseForRule :: "('n \<Rightarrow> (ruleHeap, nat) prog) \<Rightarrow> nat \<Rightarrow> 'n tsApi \<Rightarrow> string \<Rightarrow> 'n \<Rightarrow> NodeType \<Rightarrow>
    (ruleHeap, nat) prog" where
  "parseForRule rec fuel api source node type =
     andThen (childOf api node 0) (\<lambda>c.
     andThen (fieldOf api c ''element'') (\<lambda>element. andThen (parseExpression fuel api source element []) (\<lambda>expressionList.
     andThen (fieldOf api c ''list'') (\<lambda>list. andThen (parseExpression fuel api source list []) (\<lambda>expressionList2.
     andThen (fieldOf api c ''body'') (\<lambda>bodyNode.
     andThen (newControlFlowRuleNode [expressionList, expressionList2] type) (\<lambda>forNode.
     andThen (parseControlBody rec api bodyNode (Some forNode)) (\<lambda>body.
     andThen (setChildren forNode [''true''] body) (\<lambda>_.
       ok forNode)))))))))"

primrec matchLoop :: "('n \<Rightarrow> (ruleHeap, nat) prog) \<Rightarrow> nat \<Rightarrow> 'n tsApi \<Rightarrow> string \<Rightarrow> 'n \<Rightarrow> nat \<Rightarrow> nat list \<Rightarrow>
    (ruleHeap, unit) prog" where
  "matchLoop rec fuel api source c matchNode [] = ok ()"
| "matchLoop rec fuel api source c matchNode (i # is) =
     andThen (childOf api c i) (\<lambda>matchEntry.
     andThen (fieldOf api matchEntry ''guard'') (\<lambda>guard.
     andThen (parseExpression fuel api source guard []) (\<lambda>expressionList.
     andThen (fieldOf api matchEntry ''body'') (\<lambda>bodyNode.
     andThen (parseControlBody rec api bodyNode (Some matchNode)) (\<lambda>body.
     andThen (setChildren matchNode expressionList body) (\<lambda>_.
       matchLoop rec fuel api source c matchNode is))))))"

definition parseMatchRule :: "('n \<Rightarrow> (ruleHeap, nat) prog) \<Rightarrow> nat \<Rightarrow> 'n tsApi \<Rightarrow> string \<Rightarrow> 'n \<Rightarrow> (ruleHeap, nat) prog" where
  "parseMatchRule rec fuel api source node =
     andThen (childOf api node 0) (\<lambda>c.
     andThen (fieldOf api c ''target'') (\<lambda>target. andThen (parseExpression fuel api source target []) (\<lambda>list.
     andThen (numOf api c) (\<lambda>matchEntryCount.
     andThen (newControlFlowRuleNode [list] MATCH) (\<lambda>matchNode.
     andThen (matchLoop rec fuel api source c matchNode [1..<matchEntryCount]) (\<lambda>_.
       ok matchNode))))))"

primrec parseRule :: "nat \<Rightarrow> nat \<Rightarrow> 'n tsApi \<Rightarrow> string \<Rightarrow> 'n \<Rightarrow> (ruleHeap, nat) prog" where
  "parseRule 0 fuel api source node = raise OutOfFuel"
| "parseRule (Suc n) fuel api source node =
     andThen (typeOf api node) (\<lambda>t.
     if t \<noteq> ''rule'' then raise (ThrownText ''parse rule passed non-rule'')
     else andThen (childOf api node 0) (\<lambda>c. andThen (typeOf api c) (\<lambda>t.
       if t = ''for'' then parseForRule (parseRule n fuel api source) fuel api source node FOR
       else if t = ''parallel_for'' then parseForRule (parseRule n fuel api source) fuel api source node PARALLEL
       else if t = ''match'' then parseMatchRule (parseRule n fuel api source) fuel api source node
       else parseTask fuel api source node)))"

definition parseRules :: "nat \<Rightarrow> nat \<Rightarrow> 'n tsApi \<Rightarrow> string \<Rightarrow> 'n \<Rightarrow> (ruleHeap, RuleTree) prog" where
  "parseRules n fuel api source node =
     andThen (fieldOf api node ''body'') (\<lambda>bodyNode.
     andThen (parseControlBody (parseRule n fuel api source) api bodyNode None) (\<lambda>first.
       ok \<lparr>firstNode = first\<rparr>))"

section \<open>Printing\<close>

text \<open>The state is what has been printed. \<open>printf("%*s", n, "")\<close> prints |n| blanks.\<close>

definition emit :: "string \<Rightarrow> (string, unit) prog" where
  "emit x = modify (\<lambda>out. out @ x)"

definition blanks :: "int \<Rightarrow> string" where
  "blanks n = replicate (nat \<bar>n\<bar>) CHR '' ''"

definition newline :: string where
  "newline = [CHR 0x0A]"

text \<open>\<open>++depth\<close> counts on from sibling to sibling.\<close>

primrec printLoop :: "('n \<Rightarrow> int \<Rightarrow> (string, unit) prog) \<Rightarrow> 'n tsApi \<Rightarrow> 'n \<Rightarrow> nat list \<Rightarrow> int \<Rightarrow> (string, unit) prog" where
  "printLoop rec api node [] depth = ok ()"
| "printLoop rec api node (i # is) depth =
     andThen (childOf api node i) (\<lambda>current. andThen (typeOf api current) (\<lambda>t.
     andThen (emit (blanks depth @ t @ newline)) (\<lambda>_.
     andThen (rec current (depth + 1)) (\<lambda>_. printLoop rec api node is (depth + 1)))))"

primrec printNodeRecursively :: "nat \<Rightarrow> 'n tsApi \<Rightarrow> 'n \<Rightarrow> int \<Rightarrow> (string, unit) prog" where
  "printNodeRecursively 0 api node depth = raise OutOfFuel"
| "printNodeRecursively (Suc fuel) api node depth =
     andThen (numOf api node) (\<lambda>n. printLoop (printNodeRecursively fuel api) api node [0..<n] depth)"

definition printVector :: "string list list \<Rightarrow> (string, unit) prog" where
  "printVector list = forEach list (\<lambda>expressionList. forEach expressionList (\<lambda>element. emit (element @ newline)))"

text \<open>The number of an enumerator is its position.\<close>

definition nodeTypeNumber :: "NodeType \<Rightarrow> nat" where
  "nodeTypeNumber t = (case t of FOR \<Rightarrow> 0 | PARALLEL \<Rightarrow> 1 | MATCH \<Rightarrow> 2 | EXTEND \<Rightarrow> 3 | DISCARD \<Rightarrow> 4 | SHUFFLE \<Rightarrow> 5
     | SORT \<Rightarrow> 6 | DEAL \<Rightarrow> 7 | INPUT_CHOICE \<Rightarrow> 8 | MESSAGE \<Rightarrow> 9 | SCORES \<Rightarrow> 10 | ASSIGNMENT \<Rightarrow> 11 | REVERSE \<Rightarrow> 12)"

primrec printRuleTreeRecursively :: "nat \<Rightarrow> ruleMem \<Rightarrow> nodePtr \<Rightarrow> int \<Rightarrow> (string, unit) prog" where
  "printRuleTreeRecursively 0 m p depth = raise OutOfFuel"
| "printRuleTreeRecursively (Suc fuel) m p depth =
     andThen (fromOption UB (Option.bind p m)) (\<lambda>node.
     andThen
       (if isControlFlow node
        then andThen (emit (blanks (depth * 2) @ ''type:'' @ showNat (nodeTypeNumber (nodeType node)))) (\<lambda>_.
          andThen (printVector (data node)) (\<lambda>_.
            forEach (getBody node) (\<lambda>c. printRuleTreeRecursively fuel m (child c) (depth + 1))))
        else andThen (emit (blanks (depth * 2) @ ''type:'' @ showNat (nodeTypeNumber (nodeType node)) @ newline)) (\<lambda>_.
          printVector (data node)))
       (\<lambda>_. if nextNode node = None then ok () else printRuleTreeRecursively fuel m (nextNode node) depth))"

end
