(* ===== verification/ParserProps.thy ===== *)
theory ParserProps
  imports RuleParser EnvMgrProps
begin

text \<open>
  What the rule parser promises. \<open>tokensOf\<close> and \<open>isRule\<close> are the grammar: which syntax trees stand for
  which tokens and which rules, without heap, fuel or order of calls. The parser builds the rules it reads
  as a linked structure (\<open>holdsBody\<close>), which pointer by pointer is the list of rules (\<open>linked\<close>).
\<close>

section \<open>The grammar of expressions\<close>

definition hasField :: "'n tsApi \<Rightarrow> 'n \<Rightarrow> string \<Rightarrow> 'n \<Rightarrow> bool" where
  "hasField api n f b \<longleftrightarrow> getChildByFieldName api n f = Inr b \<and> \<not> isNull api b"

definition noField :: "'n tsApi \<Rightarrow> 'n \<Rightarrow> string \<Rightarrow> bool" where
  "noField api n f \<longleftrightarrow> (\<exists>b. getChildByFieldName api n f = Inr b \<and> isNull api b)"

definition isList :: "'n tsApi \<Rightarrow> 'n \<Rightarrow> bool" where
  "isList api n \<longleftrightarrow> tsType api n = Inr ''expression_list''"

definition isPlain :: "'n tsApi \<Rightarrow> 'n \<Rightarrow> bool" where
  "isPlain api n \<longleftrightarrow> (\<exists>t. tsType api n = Inr t \<and> t \<noteq> ''expression_list'')"

definition callOf :: "'n tsApi \<Rightarrow> string \<Rightarrow> 'n \<Rightarrow> string \<Rightarrow> string \<Rightarrow> 'n \<Rightarrow> bool" where
  "callOf api src n x f c \<longleftrightarrow> isPlain api n \<and>
     (\<exists>b c0. hasField api n ''builtin'' b \<and> getSourceRange api b src = Inr f \<and>
       getNamedChild api n 0 = Inr c0 \<and> getSourceRange api c0 src = Inr x \<and> getNamedChild api n 2 = Inr c)"

definition binaryOf :: "'n tsApi \<Rightarrow> string \<Rightarrow> 'n \<Rightarrow> char \<Rightarrow> 'n \<Rightarrow> 'n \<Rightarrow> bool" where
  "binaryOf api src n op l r \<longleftrightarrow> isPlain api n \<and> noField api n ''builtin'' \<and> noField api n ''operand'' \<and>
     hasField api n ''lhs'' l \<and> getChildByFieldName api n ''rhs'' = Inr r \<and>
     (\<exists>left gap after. getSourceRange api l src = Inr left \<and>
       getSourceRange api n src = Inr (left @ gap # op # after))"

inductive tokensOf :: "'n tsApi \<Rightarrow> string \<Rightarrow> 'n \<Rightarrow> string list \<Rightarrow> bool"
  and tokensIn :: "'n tsApi \<Rightarrow> string \<Rightarrow> 'n \<Rightarrow> nat list \<Rightarrow> string list \<Rightarrow> bool" for api src where
  tokens_list: "isList api n \<Longrightarrow> getNumNamedChildren api n = Inr k \<Longrightarrow> tokensIn api src n [0..<k] ts \<Longrightarrow>
    tokensOf api src n ts"
| tokens_property: "callOf api src n x f c \<Longrightarrow> getNumNamedChildren api c = Inr 0 \<Longrightarrow> tokensOf api src n [x, f]"
| tokens_call: "callOf api src n x f c \<Longrightarrow> getNumNamedChildren api c = Inr (Suc k) \<Longrightarrow>
    getChildByFieldName api c ''arguments'' = Inr a \<Longrightarrow> tokensOf api src a ts \<Longrightarrow> tokensOf api src n (x # f # ts)"
| tokens_not: "isPlain api n \<Longrightarrow> noField api n ''builtin'' \<Longrightarrow> hasField api n ''operand'' a \<Longrightarrow>
    tokensOf api src a ts \<Longrightarrow> tokensOf api src n (''!'' # ts)"
| tokens_binary: "binaryOf api src n op l r \<Longrightarrow> tokensOf api src l ts \<Longrightarrow> tokensOf api src r us \<Longrightarrow>
    tokensOf api src n ([op] # ts @ us)"
| tokens_name: "isPlain api n \<Longrightarrow> noField api n ''builtin'' \<Longrightarrow> noField api n ''operand'' \<Longrightarrow>
    noField api n ''lhs'' \<Longrightarrow> getSourceRange api n src = Inr x \<Longrightarrow>
    tokensOf api src n [if x = ''all'' then ''players'' else x]"
| tokens_none: "tokensIn api src n [] []"
| tokens_next: "getNamedChild api n i = Inr c \<Longrightarrow> tokensOf api src c ts \<Longrightarrow> tokensIn api src n is us \<Longrightarrow>
    tokensIn api src n (i # is) (ts @ us)"

lemmas parse_shapes = hasField_def noField_def isList_def isPlain_def callOf_def binaryOf_def

lemma parseExpression_tokens:
  "tokensOf api src n ts \<Longrightarrow> \<exists>k. \<forall>m \<ge> k. \<forall>acc (s::ruleHeap). parseExpression m api src n acc s = (Inr (acc @ ts), s)"
  "tokensIn api src n is us \<Longrightarrow>
     \<exists>k. \<forall>m \<ge> k. \<forall>acc (s::ruleHeap). exprLoop (parseExpression m api src) api n is acc s = (Inr (acc @ us), s)"
proof (induction rule: tokensOf_tokensIn.inducts)
  case (tokens_list n k ts)
  then obtain j where j: "\<And>m acc (s::ruleHeap). j \<le> m \<Longrightarrow>
      exprLoop (parseExpression m api src) api n [0..<k] acc s = (Inr (acc @ ts), s)" by blast
  have "parseExpression m api src n acc s = (Inr (acc @ ts), s)" if "Suc j \<le> m" for m acc and s :: ruleHeap
    using that tokens_list(1,2) j by (cases m) (auto simp: parse_shapes run_simps)
  then show ?case by blast
next
  case (tokens_property n x f c)
  have "parseExpression m api src n acc s = (Inr (acc @ [x, f]), s)" if "Suc 0 \<le> m" for m acc and s :: ruleHeap
    using that tokens_property by (cases m) (auto simp: parse_shapes parseBuiltin_def run_simps)
  then show ?case by blast
next
  case (tokens_call n x f c k a ts)
  then obtain j where j: "\<And>m acc (s::ruleHeap). j \<le> m \<Longrightarrow> parseExpression m api src a acc s = (Inr (acc @ ts), s)" by blast
  have "parseExpression m api src n acc s = (Inr (acc @ x # f # ts), s)" if "Suc j \<le> m" for m acc and s :: ruleHeap
    using that tokens_call(1-3) j by (cases m) (auto simp: parse_shapes parseBuiltin_def run_simps)
  then show ?case by blast
next
  case (tokens_not n a ts)
  then obtain j where j: "\<And>m acc (s::ruleHeap). j \<le> m \<Longrightarrow> parseExpression m api src a acc s = (Inr (acc @ ts), s)" by blast
  have "parseExpression m api src n acc s = (Inr (acc @ ''!'' # ts), s)" if "Suc j \<le> m" for m acc and s :: ruleHeap
    using that tokens_not(1-3) j by (cases m) (auto simp: parse_shapes run_simps)
  then show ?case by blast
next
  case (tokens_binary n op l r ts us)
  then obtain i j where i: "\<And>m acc (s::ruleHeap). i \<le> m \<Longrightarrow> parseExpression m api src l acc s = (Inr (acc @ ts), s)"
    and j: "\<And>m acc (s::ruleHeap). j \<le> m \<Longrightarrow> parseExpression m api src r acc s = (Inr (acc @ us), s)" by blast
  have "parseExpression m api src n acc s = (Inr (acc @ [op] # ts @ us), s)" if "Suc (max i j) \<le> m" for m acc and s :: ruleHeap
    using that tokens_binary(1) i j
    by (cases m) (auto simp: parse_shapes parseBinary_def operatorAt_def nth_append run_simps)
  then show ?case by blast
next
  case (tokens_name n x)
  have "parseExpression m api src n acc s = (Inr (acc @ [if x = ''all'' then ''players'' else x]), s)"
    if "Suc 0 \<le> m" for m acc and s :: ruleHeap
    using that tokens_name by (cases m) (auto simp: parse_shapes parseName_def run_simps)
  then show ?case by blast
next
  case (tokens_none n)
  then show ?case by (simp add: run_simps)
next
  case (tokens_next n i c ts "is" us)
  then obtain j k where j: "\<And>m acc (s::ruleHeap). j \<le> m \<Longrightarrow> parseExpression m api src c acc s = (Inr (acc @ ts), s)"
    and k: "\<And>m acc (s::ruleHeap). k \<le> m \<Longrightarrow> exprLoop (parseExpression m api src) api n is acc s = (Inr (acc @ us), s)" by blast
  have "exprLoop (parseExpression m api src) api n (i # is) acc s = (Inr (acc @ ts @ us), s)"
    if "max j k \<le> m" for m acc and s :: ruleHeap
    using that tokens_next(1) j k by (simp add: run_simps)
  then show ?case by (metis append_assoc)
qed

section \<open>The grammar of rules\<close>

datatype rule = Task NodeType "string list list"
  | Loop NodeType "string list" "string list" "rule list"
  | Match "string list" "(string list \<times> rule list) list"

text \<open>The tokens of the operands of a task, by its kind.\<close>

definition operandTokens :: "'n tsApi \<Rightarrow> string \<Rightarrow> 'n \<Rightarrow> nat \<Rightarrow> string list \<Rightarrow> bool" where
  "operandTokens api src c i ts \<longleftrightarrow> (\<exists>x. getNamedChild api c i = Inr x \<and> tokensOf api src x ts)"

inductive taskData :: "'n tsApi \<Rightarrow> string \<Rightarrow> 'n \<Rightarrow> string \<Rightarrow> NodeType \<Rightarrow> string list list \<Rightarrow> bool" for api src c t where
  task_bare: "ty \<in> {EXTEND, DISCARD, SHUFFLE, REVERSE} \<Longrightarrow> taskData api src c t ty [[t]]"
| task_two: "ty \<in> {SORT, DEAL, MESSAGE} \<Longrightarrow> operandTokens api src c 0 e0 \<Longrightarrow> operandTokens api src c 1 e1 \<Longrightarrow>
    taskData api src c t ty [[t], e0, e1]"
| task_scores: "operandTokens api src c 0 e0 \<Longrightarrow> taskData api src c t SCORES [[t], e0]"
| task_assignment: "operandTokens api src c 0 (x # e0) \<Longrightarrow> operandTokens api src c 1 e1 \<Longrightarrow>
    taskData api src c t ASSIGNMENT [[t], quoted x # e0, e1]"
| task_input: "operandTokens api src c 0 (x # e0) \<Longrightarrow> operandTokens api src c 1 e1 \<Longrightarrow> operandTokens api src c 2 e2 \<Longrightarrow>
    operandTokens api src c 3 (y # e3) \<Longrightarrow> operandTokens api src c 4 e4 \<Longrightarrow>
    taskData api src c t INPUT_CHOICE [[t], (x @ ''.id'') # e0, e1, e2, quoted y # e3, e4]"

definition loopWord :: "string \<Rightarrow> NodeType \<Rightarrow> bool" where
  "loopWord t ty \<longleftrightarrow> t = ''for'' \<and> ty = FOR \<or> t = ''parallel_for'' \<and> ty = PARALLEL"

definition ruleHead :: "'n tsApi \<Rightarrow> 'n \<Rightarrow> 'n \<Rightarrow> string \<Rightarrow> bool" where
  "ruleHead api n c t \<longleftrightarrow> tsType api n = Inr ''rule'' \<and> getNamedChild api n 0 = Inr c \<and> tsType api c = Inr t"

definition fieldTokens :: "'n tsApi \<Rightarrow> string \<Rightarrow> 'n \<Rightarrow> string \<Rightarrow> string list \<Rightarrow> bool" where
  "fieldTokens api src c f ts \<longleftrightarrow> (\<exists>x. getChildByFieldName api c f = Inr x \<and> tokensOf api src x ts)"

inductive isRule :: "'n tsApi \<Rightarrow> string \<Rightarrow> 'n \<Rightarrow> rule \<Rightarrow> bool"
  and rulesIn :: "'n tsApi \<Rightarrow> string \<Rightarrow> 'n \<Rightarrow> nat list \<Rightarrow> rule list \<Rightarrow> bool"
  and entriesIn :: "'n tsApi \<Rightarrow> string \<Rightarrow> 'n \<Rightarrow> nat list \<Rightarrow> (string list \<times> rule list) list \<Rightarrow> bool" for api src where
  rule_task: "ruleHead api n c t \<Longrightarrow> t \<notin> {''for'', ''parallel_for'', ''match''} \<Longrightarrow> map_of taskRules t = Some ty \<Longrightarrow>
    taskData api src c t ty d \<Longrightarrow> isRule api src n (Task ty d)"
| rule_loop: "ruleHead api n c t \<Longrightarrow> loopWord t ty \<Longrightarrow> fieldTokens api src c ''element'' e \<Longrightarrow>
    fieldTokens api src c ''list'' l \<Longrightarrow> getChildByFieldName api c ''body'' = Inr b \<Longrightarrow>
    getNumNamedChildren api b = Inr k \<Longrightarrow> rulesIn api src b [0..<k] rs \<Longrightarrow> isRule api src n (Loop ty e l rs)"
| rule_match: "ruleHead api n c ''match'' \<Longrightarrow> fieldTokens api src c ''target'' e \<Longrightarrow>
    getNumNamedChildren api c = Inr k \<Longrightarrow> entriesIn api src c [1..<k] es \<Longrightarrow> isRule api src n (Match e es)"
| rules_none: "rulesIn api src b [] []"
| rules_comment: "getNamedChild api b i = Inr c \<Longrightarrow> tsType api c = Inr ''comment'' \<Longrightarrow> rulesIn api src b is rs \<Longrightarrow>
    rulesIn api src b (i # is) rs"
| rules_next: "getNamedChild api b i = Inr c \<Longrightarrow> isRule api src c r \<Longrightarrow> rulesIn api src b is rs \<Longrightarrow>
    rulesIn api src b (i # is) (r # rs)"
| entries_none: "entriesIn api src c [] []"
| entries_next: "getNamedChild api c i = Inr x \<Longrightarrow> fieldTokens api src x ''guard'' g \<Longrightarrow>
    getChildByFieldName api x ''body'' = Inr b \<Longrightarrow> getNumNamedChildren api b = Inr k \<Longrightarrow>
    rulesIn api src b [0..<k] rs \<Longrightarrow> entriesIn api src c is es \<Longrightarrow> entriesIn api src c (i # is) ((g, rs) # es)"

section \<open>The linked structure\<close>

text \<open>
  \<open>linked m p par rs\<close>: from the pointer \<open>p\<close> the next-pointers lead through one node per rule of \<open>rs\<close>, in
  order and then to a null pointer; each has the parent \<open>par\<close>, the data of its rule, and its own body
  linked below it.
\<close>

fun ruleData :: "rule \<Rightarrow> bool \<times> NodeType \<times> string list list" where
  "ruleData (Task ty d) = (False, ty, d)"
| "ruleData (Loop ty e l rs) = (True, ty, [e, l])"
| "ruleData (Match e es) = (True, MATCH, [e])"

fun ruleBodies :: "rule \<Rightarrow> (string list \<times> rule list) list" where
  "ruleBodies (Task ty d) = []"
| "ruleBodies (Loop ty e l rs) = [([''true''], rs)]"
| "ruleBodies (Match e es) = es"

inductive linked :: "ruleMem \<Rightarrow> nodePtr \<Rightarrow> nodePtr \<Rightarrow> rule list \<Rightarrow> bool"
  and bodiesLinked :: "ruleMem \<Rightarrow> nodePtr \<Rightarrow> ChildNode list \<Rightarrow> (string list \<times> rule list) list \<Rightarrow> bool" for m where
  linked_end: "linked m None par []"
| linked_node: "m a = Some n \<Longrightarrow> (control n, nodeType n, data n) = ruleData r \<Longrightarrow> parentNode n = par \<Longrightarrow>
    bodiesLinked m (Some a) (children n) (ruleBodies r) \<Longrightarrow> linked m (nextNode n) par rs \<Longrightarrow>
    linked m (Some a) par (r # rs)"
| bodies_end: "bodiesLinked m par [] []"
| bodies_next: "linked m (child c) par rs \<Longrightarrow> key c = g \<Longrightarrow> bodiesLinked m par cs es \<Longrightarrow>
    bodiesLinked m par (c # cs) ((g, rs) # es)"

text \<open>
  Where the parser puts the nodes: a rule occupies the addresses from its node to just below \<open>b\<close>, its
  bodies behind it, the rules of a body one after the other.
\<close>

abbreviation firstAt :: "nat \<Rightarrow> rule list \<Rightarrow> nodePtr" where
  "firstAt a rs \<equiv> (if rs = [] then None else Some a)"

inductive placed :: "ruleMem \<Rightarrow> nat \<Rightarrow> nat \<Rightarrow> nodePtr \<Rightarrow> nodePtr \<Rightarrow> rule \<Rightarrow> bool"
  and placedBody :: "ruleMem \<Rightarrow> nat \<Rightarrow> nat \<Rightarrow> nodePtr \<Rightarrow> rule list \<Rightarrow> bool"
  and placedBodies :: "ruleMem \<Rightarrow> nat \<Rightarrow> nat \<Rightarrow> nodePtr \<Rightarrow> ChildNode list \<Rightarrow> (string list \<times> rule list) list \<Rightarrow> bool"
  for m where
  placed_node: "m a = Some n \<Longrightarrow> (control n, nodeType n, data n) = ruleData r \<Longrightarrow> parentNode n = par \<Longrightarrow>
    nextNode n = nxt \<Longrightarrow> placedBodies m (Suc a) b (Some a) (children n) (ruleBodies r) \<Longrightarrow> placed m a b par nxt r"
| placed_none: "placedBody m a a par []"
| placed_next: "placed m a b par (firstAt b rs) r \<Longrightarrow> placedBody m b c par rs \<Longrightarrow> placedBody m a c par (r # rs)"
| placed_bodies_end: "placedBodies m a a par [] []"
| placed_bodies_next: "placedBody m a b par rs \<Longrightarrow> child c = firstAt a rs \<Longrightarrow> key c = g \<Longrightarrow>
    placedBodies m b d par cs es \<Longrightarrow> placedBodies m a d par (c # cs) ((g, rs) # es)"

inductive_cases placedE: "placed m a b par nxt r"

lemma placed_bounds:
  "placed m a b par nxt r \<Longrightarrow> a < b"
  "placedBody m a b par rs \<Longrightarrow> a \<le> b"
  "placedBodies m a b par cs es \<Longrightarrow> a \<le> b"
  by (induction rule: placed_placedBody_placedBodies.inducts) auto

lemma placed_frame:
  "placed m a b par nxt r \<Longrightarrow> \<forall>x. a \<le> x \<and> x < b \<longrightarrow> m' x = m x \<Longrightarrow> placed m' a b par nxt r"
  "placedBody m a b par rs \<Longrightarrow> \<forall>x. a \<le> x \<and> x < b \<longrightarrow> m' x = m x \<Longrightarrow> placedBody m' a b par rs"
  "placedBodies m a b par cs es \<Longrightarrow> \<forall>x. a \<le> x \<and> x < b \<longrightarrow> m' x = m x \<Longrightarrow> placedBodies m' a b par cs es"
proof (induction rule: placed_placedBody_placedBodies.inducts)
  case (placed_node a n r par nxt b)
  then show ?case
    using placed_bounds(3) [of m "Suc a" b "Some a" "children n" "ruleBodies r"] placed_node.hyps
    by (intro placed_placedBody_placedBodies.placed_node [of _ _ n]) auto
next
  case (placed_next a b par rs r c)
  have "a < b" by (rule placed_bounds(1)) (fact placed_next)
  moreover have "b \<le> c" by (rule placed_bounds(2)) (fact placed_next)
  ultimately show ?case
    using placed_next
    by (intro placed_placedBody_placedBodies.placed_next [of _ _ b]) auto
next
  case (placed_bodies_next a b par rs c g d cs es)
  have "a \<le> b" by (rule placed_bounds(2)) (fact placed_bodies_next)
  moreover have "b \<le> d" by (rule placed_bounds(3)) (fact placed_bodies_next)
  ultimately show ?case
    using placed_bodies_next
    by (intro placed_placedBody_placedBodies.placed_bodies_next [of _ _ b]) auto
qed (auto intro: placed_placedBody_placedBodies.intros)

lemma placed_root:
  assumes "placed m a b par nxt r" "m a = Some n" "m' a = Some (n\<lparr>parentNode := par', nextNode := nxt'\<rparr>)"
    and "\<forall>x. a < x \<and> x < b \<longrightarrow> m' x = m x"
  shows "placed m' a b par' nxt' r"
proof -
  from assms(1,2) have n: "(control n, nodeType n, data n) = ruleData r"
    "placedBodies m (Suc a) b (Some a) (children n) (ruleBodies r)"
    by (auto elim: placedE)
  have "placedBodies m' (Suc a) b (Some a) (children n) (ruleBodies r)"
    by (rule placed_frame(3) [OF n(2)]) (use assms(4) in auto)
  with n(1) assms(3) show ?thesis by (auto intro: placed_node)
qed

lemma placed_linked:
  "placed m a b par nxt r \<Longrightarrow> \<exists>n. m a = Some n \<and> (control n, nodeType n, data n) = ruleData r \<and>
     parentNode n = par \<and> nextNode n = nxt \<and> bodiesLinked m (Some a) (children n) (ruleBodies r)"
  "placedBody m a b par rs \<Longrightarrow> linked m (firstAt a rs) par rs"
  "placedBodies m a b par cs es \<Longrightarrow> bodiesLinked m par cs es"
proof (induction rule: placed_placedBody_placedBodies.inducts)
  case (placed_next a b par rs r c)
  then show ?case by (auto intro: linked_node simp del: if_split_asm)
next
  case (placed_bodies_next a b par rs c g d cs es)
  then show ?case by (simp add: bodies_next)
qed (auto intro: linked_bodiesLinked.intros)

section \<open>The parser builds the rules\<close>

text \<open>A fact of all fuel from some bound on.\<close>

definition enough :: "(nat \<Rightarrow> bool) \<Rightarrow> bool" where
  "enough P \<longleftrightarrow> (\<exists>k. \<forall>m \<ge> k. P m)"

lemma enoughI: "(\<And>m. P m) \<Longrightarrow> enough P"
  by (simp add: enough_def)

lemma enough_conj: "enough P \<Longrightarrow> enough Q \<Longrightarrow> enough (\<lambda>m. P m \<and> Q m)"
  unfolding enough_def by (metis le_trans nat_le_linear)

lemma enough_mono: "enough P \<Longrightarrow> (\<And>m. P m \<Longrightarrow> Q m) \<Longrightarrow> enough Q"
  by (auto simp: enough_def)

lemma enough_mono2: "enough P \<Longrightarrow> enough Q \<Longrightarrow> (\<And>m. P m \<Longrightarrow> Q m \<Longrightarrow> R m) \<Longrightarrow> enough R"
  using enough_mono [OF enough_conj, of P Q R] by blast

lemma enough_mono3:
  "enough P \<Longrightarrow> enough Q \<Longrightarrow> enough R \<Longrightarrow> (\<And>m. P m \<Longrightarrow> Q m \<Longrightarrow> R m \<Longrightarrow> S m) \<Longrightarrow> enough S"
  using enough_mono2 [OF enough_conj, of P Q R S] by blast

lemma enough_Suc: "enough P \<Longrightarrow> (\<And>m. P m \<Longrightarrow> Q (Suc m)) \<Longrightarrow> enough Q"
  unfolding enough_def by (metis Suc_le_D Suc_le_mono)

lemma enough_from: "enough P \<Longrightarrow> enough (\<lambda>m. \<forall>fuel \<ge> m. P fuel)"
  unfolding enough_def by (meson le_trans)

definition tokensBy :: "'n tsApi \<Rightarrow> string \<Rightarrow> 'n \<Rightarrow> string list \<Rightarrow> nat \<Rightarrow> bool" where
  "tokensBy api src n ts m \<longleftrightarrow> (\<forall>h::ruleHeap. parseExpression m api src n [] h = (Inr ts, h))"

lemma tokensOf_enough: "tokensOf api src n ts \<Longrightarrow> enough (tokensBy api src n ts)"
  using parseExpression_tokens(1) [of api src n ts] by (fastforce simp: enough_def tokensBy_def)

definition operandBy :: "'n tsApi \<Rightarrow> string \<Rightarrow> 'n \<Rightarrow> nat \<Rightarrow> string list \<Rightarrow> nat \<Rightarrow> bool" where
  "operandBy api src c i ts m \<longleftrightarrow> (\<forall>h::ruleHeap. expressionAt m api src c i h = (Inr ts, h))"

lemma operandTokens_enough:
  assumes "operandTokens api src c i ts"
  shows "enough (operandBy api src c i ts)"
proof -
  from assms obtain x where x: "getNamedChild api c i = Inr x" "tokensOf api src x ts"
    by (auto simp: operandTokens_def)
  show ?thesis
    by (rule enough_mono [OF tokensOf_enough [OF x(2)]])
      (auto simp: operandBy_def tokensBy_def expressionAt_def x(1) run_simps)
qed

definition taskBy :: "'n tsApi \<Rightarrow> string \<Rightarrow> 'n \<Rightarrow> string list list \<Rightarrow> NodeType \<Rightarrow> nat \<Rightarrow> bool" where
  "taskBy api src n d ty m \<longleftrightarrow> (\<forall>h. parseTask m api src n h = newTaskRuleNode d ty h)"

lemmas task_runs = taskBy_def parseTask_def operandBy_def parseAssignment_def parseInputChoice_def changeFirst_def
  andThen_def ok_run fromSum_simps fromOption_simps

lemma taskData_enough:
  assumes "taskData api src c t ty d" and n: "getNamedChild api n 0 = Inr c" "tsType api c = Inr t"
    and t: "map_of taskRules t = Some ty"
  shows "enough (taskBy api src n d ty)"
  using assms(1)
proof cases
  case task_bare
  with n t show ?thesis by (intro enoughI) (auto simp: task_runs)
next
  case (task_two e0 e1)
  with n t show ?thesis
    by (intro enough_mono2 [OF operandTokens_enough operandTokens_enough, of api src c 0 e0 api src c 1 e1])
      (auto simp: task_runs)
next
  case (task_scores e0)
  with n t show ?thesis
    by (intro enough_mono [OF operandTokens_enough, of api src c 0 e0]) (auto simp: task_runs)
next
  case (task_assignment x e0 e1)
  with n t show ?thesis
    by (intro enough_mono2 [OF operandTokens_enough operandTokens_enough, of api src c 0 "x # e0" api src c 1 e1])
      (auto simp: task_runs)
next
  case (task_input x e0 e1 e2 y e3 e4)
  note ops = operandTokens_enough [OF task_input(3)] operandTokens_enough [OF task_input(4)]
    operandTokens_enough [OF task_input(5)] operandTokens_enough [OF task_input(6)] operandTokens_enough [OF task_input(7)]
  show ?thesis
    by (rule enough_mono3 [OF ops(1) ops(2) enough_conj [OF ops(3) enough_conj [OF ops(4) ops(5)]]])
      (use n t task_input(1,2) in \<open>auto simp: task_runs\<close>)
qed

definition ruleBy :: "'n tsApi \<Rightarrow> string \<Rightarrow> 'n \<Rightarrow> rule \<Rightarrow> nat \<Rightarrow> bool" where
  "ruleBy api src n r m \<longleftrightarrow> (\<forall>fuel \<ge> m. \<forall>h. \<exists>h'. parseRule m fuel api src n h = (Inr (nextId h), h') \<and>
     placed (nodes h') (nextId h) (nextId h') None None r \<and> (\<forall>x < nextId h. nodes h' x = nodes h x))"

definition bodyBy :: "'n tsApi \<Rightarrow> string \<Rightarrow> 'n \<Rightarrow> nat list \<Rightarrow> rule list \<Rightarrow> nat \<Rightarrow> bool" where
  "bodyBy api src b is rs m \<longleftrightarrow> (\<forall>fuel \<ge> m. \<forall>h par first prev.
     (\<forall>q. prev = Some q \<longrightarrow> q < nextId h \<and> nodes h q \<noteq> None) \<longrightarrow>
     (\<exists>h'. bodyLoop (parseRule m fuel api src) api b par is first prev h =
         (Inr (if prev = None \<and> rs \<noteq> [] then Some (nextId h) else first), h') \<and>
       placedBody (nodes h') (nextId h) (nextId h') par rs \<and>
       (\<forall>x < nextId h. nodes h' x = (if rs \<noteq> [] \<and> prev = Some x
          then map_option (\<lambda>n. n\<lparr>nextNode := Some (nextId h)\<rparr>) (nodes h x) else nodes h x))))"

definition entriesBy :: "'n tsApi \<Rightarrow> string \<Rightarrow> 'n \<Rightarrow> nat list \<Rightarrow> (string list \<times> rule list) list \<Rightarrow> nat \<Rightarrow> bool" where
  "entriesBy api src c is es m \<longleftrightarrow> (\<forall>fuel \<ge> m. \<forall>h a n. nodes h a = Some n \<longrightarrow> a < nextId h \<longrightarrow>
     (\<exists>h' cs. matchLoop (parseRule m fuel api src) fuel api src c a is h = (Inr (), h') \<and>
       placedBodies (nodes h') (nextId h) (nextId h') (Some a) cs es \<and>
       (\<forall>x < nextId h. nodes h' x = (if x = a then Some (n\<lparr>children := children n @ cs\<rparr>) else nodes h x))))"

lemma placed_new:
  assumes "m a = Some n" "(control n, nodeType n, data n) = ruleData r" "parentNode n = None" "nextNode n = None"
    "placedBodies m (Suc a) b (Some a) (children n) (ruleBodies r)"
  shows "placed m a b None None r"
  using assms by (rule placed_node)

lemma fieldTokens_enough:
  assumes "fieldTokens api src c f ts"
  obtains x where "getChildByFieldName api c f = Inr x" "enough (tokensBy api src x ts)"
  using assms unfolding fieldTokens_def by (blast dest: tokensOf_enough)

lemma taskBy_rule:
  assumes "ruleHead api n c t" "t \<notin> {''for'', ''parallel_for'', ''match''}"
    and step: "\<forall>fuel \<ge> m. taskBy api src n d ty fuel"
  shows "ruleBy api src n (Task ty d) (Suc m)"
  unfolding ruleBy_def
proof (intro allI impI)
  fix fuel h assume "Suc m \<le> fuel"
  with assms have run: "parseRule (Suc m) fuel api src n h = newTaskRuleNode d ty h"
    by (auto simp: taskBy_def ruleHead_def run_simps)
  have "placed (nodes (snd (newTaskRuleNode d ty h))) (nextId h) (Suc (nextId h)) None None (Task ty d)"
    by (rule placed_new) (auto simp: newTaskRuleNode_def intro: placed_bodies_end)
  then show "\<exists>h'. parseRule (Suc m) fuel api src n h = (Inr (nextId h), h') \<and>
      placed (nodes h') (nextId h) (nextId h') None None (Task ty d) \<and> (\<forall>x < nextId h. nodes h' x = nodes h x)"
    unfolding run by (simp add: newTaskRuleNode_def)
qed

text \<open>A body with a new parent: nothing before it to link to.\<close>

lemma bodyBy_new:
  assumes "bodyBy api src b [0..<k] rs m" "m \<le> fuel" "getNumNamedChildren api b = Inr k"
  obtains h' where "parseControlBody (parseRule m fuel api src) api b par h = (Inr (firstAt (nextId h) rs), h')"
    "placedBody (nodes h') (nextId h) (nextId h') par rs" "\<forall>x < nextId h. nodes h' x = nodes h x"
proof -
  note run = assms(1) [unfolded bodyBy_def, rule_format, of fuel None h par None]
  obtain h' where "bodyLoop (parseRule m fuel api src) api b par [0..<k] None None h = (Inr (firstAt (nextId h) rs), h')"
      "placedBody (nodes h') (nextId h) (nextId h') par rs" "\<forall>x < nextId h. nodes h' x = nodes h x"
    using run [OF assms(2)] by (cases "rs = []") auto
  with assms(3) show thesis by (intro that [of h']) (auto simp: parseControlBody_def run_simps)
qed

lemma loopBy_rule:
  assumes "ruleHead api n c t" "loopWord t ty"
    and f: "getChildByFieldName api c ''element'' = Inr x" "getChildByFieldName api c ''list'' = Inr y"
      "getChildByFieldName api c ''body'' = Inr b" "getNumNamedChildren api b = Inr k"
    and step: "\<forall>fuel \<ge> m. tokensBy api src x e fuel" "\<forall>fuel \<ge> m. tokensBy api src y l fuel"
      "bodyBy api src b [0..<k] rs m"
  shows "ruleBy api src n (Loop ty e l rs) (Suc m)"
  unfolding ruleBy_def
proof (intro allI impI)
  fix fuel and h :: ruleHeap assume fuel: "Suc m \<le> fuel"
  define N where "N = nextId h"
  define node where "node = \<lparr>control = True, data = [e, l], nodeType = ty, nextNode = None, parentNode = None, children = []\<rparr>"
  define h1 where "h1 = h\<lparr>nodes := (nodes h)(N \<mapsto> node), nextId := Suc N\<rparr>"
  have ids: "nextId h1 = Suc N" by (simp add: h1_def)
  obtain h2 where body: "parseControlBody (parseRule m fuel api src) api b (Some N) h1 = (Inr (firstAt (Suc N) rs), h2)"
      "placedBody (nodes h2) (Suc N) (nextId h2) (Some N) rs" "\<forall>x < Suc N. nodes h2 x = nodes h1 x"
    by (rule bodyBy_new [OF step(3) Suc_leD [OF fuel] f(4), of "Some N" h1, unfolded ids])
  define cs where "cs = [\<lparr>key = [''true''], child = firstAt (Suc N) rs\<rparr>]"
  define h3 where "h3 = h2\<lparr>nodes := (nodes h2)(N \<mapsto> node\<lparr>children := cs\<rparr>)\<rparr>"
  have "nodes h2 N = Some node" using body(3) by (simp add: h1_def)
  then have child: "setChildren N [''true''] (firstAt (Suc N) rs) h2 = (Inr (), h3)"
    by (simp add: setChildren_def updateNode_def h3_def cs_def node_def)
  have tokens: "parseExpression fuel api src x [] h = (Inr e, h)" "parseExpression fuel api src y [] h = (Inr l, h)"
    using step fuel by (auto simp: tokensBy_def)
  have forRun: "parseForRule (parseRule m fuel api src) fuel api src n ty h = (Inr N, h3)"
    using assms(1) f tokens body(1) child
    by (simp add: parseForRule_def ruleHead_def newControlFlowRuleNode_def run_simps andThen_def
        flip: N_def node_def h1_def)
  have "parseRule (Suc m) fuel api src n h = (Inr N, h3)"
    using assms(1,2) forRun by (auto simp: ruleHead_def loopWord_def run_simps)
  moreover have "placedBody (nodes h3) (Suc N) (nextId h2) (Some N) rs"
    by (rule placed_frame(2) [OF body(2)]) (simp add: h3_def)
  then have "placed (nodes h3) N (nextId h3) None None (Loop ty e l rs)"
    by (intro placed_new [of _ _ "node\<lparr>children := cs\<rparr>"])
      (auto simp: h3_def node_def cs_def intro!: placed_bodies_next placed_bodies_end)
  moreover have "\<forall>x < N. nodes h3 x = nodes h x"
    using body(3) by (simp add: h3_def h1_def)
  ultimately show "\<exists>h'. parseRule (Suc m) fuel api src n h = (Inr (nextId h), h') \<and>
      placed (nodes h') (nextId h) (nextId h') None None (Loop ty e l rs) \<and> (\<forall>x < nextId h. nodes h' x = nodes h x)"
    by (auto simp: N_def)
qed

lemma matchBy_rule:
  assumes "ruleHead api n c ''match''" "getChildByFieldName api c ''target'' = Inr x" "getNumNamedChildren api c = Inr k"
    and step: "\<forall>fuel \<ge> m. tokensBy api src x e fuel" "entriesBy api src c [1..<k] es m"
  shows "ruleBy api src n (Match e es) (Suc m)"
  unfolding ruleBy_def
proof (intro allI impI)
  fix fuel and h :: ruleHeap assume fuel: "Suc m \<le> fuel"
  define N where "N = nextId h"
  define node where "node = \<lparr>control = True, data = [e], nodeType = MATCH, nextNode = None, parentNode = None, children = []\<rparr>"
  define h1 where "h1 = h\<lparr>nodes := (nodes h)(N \<mapsto> node), nextId := Suc N\<rparr>"
  obtain h2 cs where loop: "matchLoop (parseRule m fuel api src) fuel api src c N [1..<k] h1 = (Inr (), h2)"
      "placedBodies (nodes h2) (Suc N) (nextId h2) (Some N) cs es"
      "\<forall>x < Suc N. nodes h2 x = (if x = N then Some (node\<lparr>children := cs\<rparr>) else nodes h1 x)"
    using step(2) [unfolded entriesBy_def, rule_format, of fuel h1 N node] fuel
    by (auto simp: h1_def node_def)
  have "parseExpression fuel api src x [] h = (Inr e, h)"
    using step fuel by (auto simp: tokensBy_def)
  then have "parseRule (Suc m) fuel api src n h = (Inr N, h2)"
    using assms(1-3) loop(1)
    by (simp add: parseMatchRule_def ruleHead_def newControlFlowRuleNode_def run_simps andThen_def
        flip: N_def node_def h1_def)
  moreover have "placed (nodes h2) N (nextId h2) None None (Match e es)"
    using loop(2,3) by (intro placed_new [of _ _ "node\<lparr>children := cs\<rparr>"]) (auto simp: node_def)
  moreover have "\<forall>x < N. nodes h2 x = nodes h x"
    using loop(3) by (simp add: h1_def)
  ultimately show "\<exists>h'. parseRule (Suc m) fuel api src n h = (Inr (nextId h), h') \<and>
      placed (nodes h') (nextId h) (nextId h') None None (Match e es) \<and> (\<forall>x < nextId h. nodes h' x = nodes h x)"
    by (auto simp: N_def)
qed

lemma bodyBy_none: "bodyBy api src b [] [] m"
  by (auto simp: bodyBy_def run_simps intro: placed_none)

lemma bodyBy_comment:
  assumes "getNamedChild api b i = Inr c" "tsType api c = Inr ''comment''" "bodyBy api src b is rs m"
  shows "bodyBy api src b (i # is) rs m"
  using assms by (simp add: bodyBy_def run_simps)

lemma rule_not_comment: "isRule api src c r \<Longrightarrow> tsType api c = Inr ''rule''"
  by (cases rule: isRule.cases) (auto simp: ruleHead_def)

lemma bodyBy_next:
  assumes "getNamedChild api b i = Inr c" "tsType api c = Inr ''rule''"
    and step: "ruleBy api src c r m" "bodyBy api src b is rs m"
  shows "bodyBy api src b (i # is) (r # rs) m"
  unfolding bodyBy_def
proof (intro allI impI)
  fix fuel and h :: ruleHeap and par first prev
  assume fuel: "m \<le> fuel" and prev: "\<forall>q. prev = Some q \<longrightarrow> q < nextId h \<and> nodes h q \<noteq> None"
  define N where "N = nextId h"
  obtain h1 where h1: "parseRule m fuel api src c h = (Inr N, h1)" "placed (nodes h1) N (nextId h1) None None r"
      "\<forall>x < N. nodes h1 x = nodes h x"
    using step(1) [unfolded ruleBy_def, rule_format, OF fuel, of h, folded N_def] by blast
  then obtain n where n: "nodes h1 N = Some n" by (auto elim: placedE)
  have less: "N < nextId h1" by (rule placed_bounds(1) [OF h1(2)])
  define h2 where "h2 = h1\<lparr>nodes := (nodes h1)(N \<mapsto> n\<lparr>parentNode := par\<rparr>)\<rparr>"
  define link where "link m = (\<lambda>x. if prev = Some x then map_option (\<lambda>n. n\<lparr>nextNode := Some N\<rparr>) (m x) else m x)" for m :: ruleMem
  define h3 where "h3 = h2\<lparr>nodes := link (nodes h2)\<rparr>"
  have par: "setParentNode N par h1 = (Inr (), h2)"
    by (simp add: setParentNode_def updateNode_def n h2_def)
  have ext: "linkNode prev N h2 = (Inr (), h3)"
    using prev h1(3) n
    by (cases prev) (auto simp: linkNode_def setNextNode_def updateNode_def h3_def h2_def link_def N_def run_simps fun_eq_iff)
  have old: "\<forall>x < N. nodes h3 x = link (nodes h) x"
    using h1(3) by (simp add: h3_def h2_def link_def)
  have N3: "nodes h3 N = Some (n\<lparr>parentNode := par\<rparr>)" "nextId h3 = nextId h1"
    "\<forall>x. N < x \<longrightarrow> nodes h3 x = nodes h1 x"
    using prev by (auto simp: h3_def h2_def link_def N_def)
  have "\<forall>q. Some N = Some q \<longrightarrow> q < nextId h3 \<and> nodes h3 q \<noteq> None"
    using less N3 by simp
  then obtain h4 where h4: "bodyLoop (parseRule m fuel api src) api b par is
        (if prev = None then Some N else first) (Some N) h3 = (Inr (if prev = None then Some N else first), h4)"
      "placedBody (nodes h4) (nextId h1) (nextId h4) par rs"
      "\<forall>x < nextId h1. nodes h4 x = (if rs \<noteq> [] \<and> Some N = Some x
          then map_option (\<lambda>n. n\<lparr>nextNode := Some (nextId h1)\<rparr>) (nodes h3 x) else nodes h3 x)"
    using step(2) [unfolded bodyBy_def, rule_format, of fuel "Some N" h3 par "if prev = None then Some N else first"] fuel
    by (auto simp: N3(2))
  have "bodyLoop (parseRule m fuel api src) api b par (i # is) first prev h =
      (Inr (if prev = None then Some N else first), h4)"
    using assms(1,2) h1(1) par ext h4(1) by (simp add: run_simps)
  moreover have "placed (nodes h4) N (nextId h1) par (firstAt (nextId h1) rs) r"
  proof (rule placed_root [OF h1(2) n])
    have "nextNode n = None" using h1(2) n by (auto elim: placedE)
    then show "nodes h4 N = Some (n\<lparr>parentNode := par, nextNode := firstAt (nextId h1) rs\<rparr>)"
      using h4(3) less N3(1) by (cases n) auto
    show "\<forall>x. N < x \<and> x < nextId h1 \<longrightarrow> nodes h4 x = nodes h1 x"
      using h4(3) N3(3) by auto
  qed
  then have "placedBody (nodes h4) N (nextId h4) par (r # rs)" using h4(2) by (rule placed_next)
  moreover have "\<forall>x < N. nodes h4 x = link (nodes h) x"
    using h4(3) old less by auto
  ultimately show "\<exists>h'. bodyLoop (parseRule m fuel api src) api b par (i # is) first prev h =
         (Inr (if prev = None \<and> r # rs \<noteq> [] then Some (nextId h) else first), h') \<and>
       placedBody (nodes h') (nextId h) (nextId h') par (r # rs) \<and>
       (\<forall>x < nextId h. nodes h' x = (if r # rs \<noteq> [] \<and> prev = Some x
          then map_option (\<lambda>n. n\<lparr>nextNode := Some (nextId h)\<rparr>) (nodes h x) else nodes h x))"
    by (auto simp: N_def link_def)
qed

lemma entriesBy_next:
  assumes "getNamedChild api c i = Inr x" "getChildByFieldName api x ''guard'' = Inr y"
      "getChildByFieldName api x ''body'' = Inr b" "getNumNamedChildren api b = Inr k"
    and step: "\<forall>fuel \<ge> m. tokensBy api src y g fuel" "bodyBy api src b [0..<k] rs m" "entriesBy api src c is es m"
  shows "entriesBy api src c (i # is) ((g, rs) # es) m"
  unfolding entriesBy_def
proof (intro allI impI)
  fix fuel and h :: ruleHeap and a n
  assume fuel: "m \<le> fuel" and a: "nodes h a = Some n" "a < nextId h"
  define N where "N = nextId h"
  obtain h1 where h1: "parseControlBody (parseRule m fuel api src) api b (Some a) h = (Inr (firstAt N rs), h1)"
      "placedBody (nodes h1) N (nextId h1) (Some a) rs" "\<forall>x < N. nodes h1 x = nodes h x"
    by (rule bodyBy_new [OF step(2) fuel assms(4), of "Some a" h, folded N_def])
  have le: "N \<le> nextId h1" by (rule placed_bounds(2) [OF h1(2)])
  define entry where "entry = \<lparr>key = g, child = firstAt N rs\<rparr>"
  define n2 where "n2 = n\<lparr>children := children n @ [entry]\<rparr>"
  define h2 where "h2 = h1\<lparr>nodes := (nodes h1)(a \<mapsto> n2)\<rparr>"
  have child: "setChildren a g (firstAt N rs) h1 = (Inr (), h2)"
    using h1(3) a by (simp add: setChildren_def updateNode_def h2_def n2_def entry_def N_def)
  have tokens: "parseExpression fuel api src y [] h = (Inr g, h)"
    using step(1) fuel by (auto simp: tokensBy_def)
  obtain h3 cs where h3: "matchLoop (parseRule m fuel api src) fuel api src c a is h2 = (Inr (), h3)"
      "placedBodies (nodes h3) (nextId h2) (nextId h3) (Some a) cs es"
      "\<forall>x < nextId h2. nodes h3 x = (if x = a then Some (n2\<lparr>children := children n2 @ cs\<rparr>) else nodes h2 x)"
    using step(3) [unfolded entriesBy_def, rule_format, of fuel h2 a n2] fuel a(2) le
    by (auto simp: h2_def N_def)
  have ids: "nextId h2 = nextId h1" by (simp add: h2_def)
  have "matchLoop (parseRule m fuel api src) fuel api src c a (i # is) h = (Inr (), h3)"
    using assms(1-3) tokens h1(1) child h3(1) by (simp add: run_simps)
  moreover have "placedBody (nodes h3) N (nextId h2) (Some a) rs"
    by (rule placed_frame(2) [OF h1(2) [folded ids]]) (use h3(3) a(2) in \<open>auto simp: h2_def N_def\<close>)
  then have "placedBodies (nodes h3) N (nextId h3) (Some a) (entry # cs) ((g, rs) # es)"
    using h3(2) by (auto intro: placed_bodies_next simp: entry_def simp del: if_split_asm)
  moreover have "\<forall>x < N. nodes h3 x = (if x = a then Some (n\<lparr>children := children n @ entry # cs\<rparr>) else nodes h x)"
    using h3(3) h1(3) le by (auto simp: h2_def n2_def)
  ultimately show "\<exists>h' cs. matchLoop (parseRule m fuel api src) fuel api src c a (i # is) h = (Inr (), h') \<and>
       placedBodies (nodes h') (nextId h) (nextId h') (Some a) cs ((g, rs) # es) \<and>
       (\<forall>x < nextId h. nodes h' x = (if x = a then Some (n\<lparr>children := children n @ cs\<rparr>) else nodes h x))"
    unfolding N_def [symmetric] by blast
qed

lemma rules_enough:
  "isRule api src n r \<Longrightarrow> enough (ruleBy api src n r)"
  "rulesIn api src b is rs \<Longrightarrow> enough (bodyBy api src b is rs)"
  "entriesIn api src c is es \<Longrightarrow> enough (entriesBy api src c is es)"
proof (induction rule: isRule_rulesIn_entriesIn.inducts)
  case (rule_task n c t ty d)
  have head: "ruleHead api n c t" by (fact rule_task)
  have word: "t \<notin> {''for'', ''parallel_for'', ''match''}" using rule_task by blast
  have "enough (taskBy api src n d ty)"
    using head rule_task by (intro taskData_enough) (auto simp: ruleHead_def)
  from enough_from [OF this] show ?case by (rule enough_Suc) (rule taskBy_rule [OF head word])
next
  case (rule_loop n c t ty e l b k rs)
  have e: "fieldTokens api src c ''element'' e" and l: "fieldTokens api src c ''list'' l" by (fact rule_loop)+
  from e obtain x where x: "getChildByFieldName api c ''element'' = Inr x" "enough (tokensBy api src x e)"
    by (rule fieldTokens_enough)
  from l obtain y where y: "getChildByFieldName api c ''list'' = Inr y" "enough (tokensBy api src y l)"
    by (rule fieldTokens_enough)
  have parts: "enough (\<lambda>m. (\<forall>fuel \<ge> m. tokensBy api src x e fuel) \<and> (\<forall>fuel \<ge> m. tokensBy api src y l fuel) \<and>
      bodyBy api src b [0..<k] rs m)"
    by (intro enough_conj enough_from x(2) y(2)) (fact rule_loop)
  have head: "ruleHead api n c t" and word: "loopWord t ty" and
      body: "getChildByFieldName api c ''body'' = Inr b" "getNumNamedChildren api b = Inr k"
    by (fact rule_loop)+
  show ?case
    by (intro enough_Suc [OF parts]) (elim conjE, rule loopBy_rule [OF head word x(1) y(1) body])
next
  case (rule_match n c e k es)
  have "fieldTokens api src c ''target'' e" by (fact rule_match)
  then obtain x where x: "getChildByFieldName api c ''target'' = Inr x" "enough (tokensBy api src x e)"
    by (rule fieldTokens_enough)
  have parts: "enough (\<lambda>m. (\<forall>fuel \<ge> m. tokensBy api src x e fuel) \<and> entriesBy api src c [1..<k] es m)"
    by (intro enough_conj enough_from x(2)) (fact rule_match)
  have head: "ruleHead api n c ''match''" and count: "getNumNamedChildren api c = Inr k"
    by (fact rule_match)+
  show ?case
    by (intro enough_Suc [OF parts]) (elim conjE, rule matchBy_rule [OF head x(1) count])
next
  case (rules_none b)
  then show ?case by (intro enoughI bodyBy_none)
next
  case (rules_comment b i c "is" rs)
  have "enough (bodyBy api src b is rs)" by (fact rules_comment)
  then show ?case by (rule enough_mono) (rule bodyBy_comment [OF rules_comment(1,2)])
next
  case (rules_next b i c r "is" rs)
  have "enough (ruleBy api src c r)" "enough (bodyBy api src b is rs)" by (fact rules_next)+
  then show ?case
    by (rule enough_mono2) (rule bodyBy_next [OF rules_next(1) rule_not_comment [OF rules_next(2)]])
next
  case (entries_none c)
  then show ?case by (intro enoughI) (auto simp: entriesBy_def run_simps intro: placed_bodies_end)
next
  case (entries_next c i x g b k rs "is" es)
  have "fieldTokens api src x ''guard'' g" by (fact entries_next)
  then obtain y where y: "getChildByFieldName api x ''guard'' = Inr y" "enough (tokensBy api src y g)"
    by (rule fieldTokens_enough)
  have "enough (bodyBy api src b [0..<k] rs)" "enough (entriesBy api src c is es)" by (fact entries_next)+
  with enough_from [OF y(2)] show ?case
    by (rule enough_mono3) (rule entriesBy_next [OF entries_next(1) y(1) entries_next(3,4)])
qed

lemma parseRules_linked:
  assumes "getChildByFieldName api node ''body'' = Inr b" "getNumNamedChildren api b = Inr k"
    and "rulesIn api src b [0..<k] rs"
  shows "\<exists>n. \<forall>m \<ge> n. \<forall>h. \<exists>t h'. parseRules m m api src node h = (Inr t, h') \<and>
     linked (nodes h') (getRules t) None rs \<and> (\<forall>x < nextId h. nodes h' x = nodes h x)"
proof -
  obtain n where n: "\<forall>m \<ge> n. bodyBy api src b [0..<k] rs m"
    using rules_enough(2) [OF assms(3)] by (auto simp: enough_def)
  have "\<exists>t h'. parseRules m m api src node h = (Inr t, h') \<and>
     linked (nodes h') (getRules t) None rs \<and> (\<forall>x < nextId h. nodes h' x = nodes h x)" if "n \<le> m" for m h
  proof -
    from n that have "bodyBy api src b [0..<k] rs m" by blast
    then obtain h' where h': "parseControlBody (parseRule m m api src) api b None h = (Inr (firstAt (nextId h) rs), h')"
      "placedBody (nodes h') (nextId h) (nextId h') None rs" "\<forall>x < nextId h. nodes h' x = nodes h x"
      by (rule bodyBy_new [OF _ order_refl assms(2), of src rs m None h])
    then have "parseRules m m api src node h = (Inr \<lparr>firstNode = firstAt (nextId h) rs\<rparr>, h')"
      using assms(1) by (simp add: parseRules_def run_simps)
    with placed_linked(2) [OF h'(2)] h'(3) show ?thesis by (auto simp: getRules_def)
  qed
  then show ?thesis by blast
qed


section \<open>Properties\<close>

text \<open>
  C2: The parser builds the rules of the grammar as a linked structure: with enough fuel it returns, from the
  tree's root the next-pointers run through exactly the rules of the body in order (comments left out), every
  node has its rule's kind and data and its enclosing rule as parent, the bodies of loops and matches hang
  under their keys, and no older node changes.
\<close>

theorem parser_links_rules:
  assumes "getChildByFieldName api node ''body'' = Inr b" "getNumNamedChildren api b = Inr k"
    and "rulesIn api src b [0..<k] rs"
  shows "\<exists>n. \<forall>m \<ge> n. \<forall>h. \<exists>t h'. parseRules m m api src node h = (Inr t, h') \<and>
     linked (nodes h') (getRules t) None rs \<and> (\<forall>x < nextId h. nodes h' x = nodes h x)"
  by (rule parseRules_linked [OF assms])
text \<open>A syntax tree as data, to run the parser on: named children with their fields, and the text of each node.\<close>

datatype tsTree = NullTree | TsNode string string "(string \<times> tsTree) list"

definition treeApi :: "tsTree tsApi" where
  "treeApi = \<lparr>isNull = (\<lambda>t. t = NullTree),
     tsType = (\<lambda>t. case t of TsNode ty _ _ \<Rightarrow> Inr ty | NullTree \<Rightarrow> Inl UB),
     getNumNamedChildren = (\<lambda>t. case t of TsNode _ _ cs \<Rightarrow> Inr (length cs) | NullTree \<Rightarrow> Inl UB),
     getNamedChild = (\<lambda>t i. case t of TsNode _ _ cs \<Rightarrow> Inr (if i < length cs then snd (cs ! i) else NullTree)
       | NullTree \<Rightarrow> Inl UB),
     getChildByFieldName = (\<lambda>t f. case t of TsNode _ _ cs \<Rightarrow> Inr (case map_of cs f of None \<Rightarrow> NullTree | Some c \<Rightarrow> c)
       | NullTree \<Rightarrow> Inl UB),
     getSourceRange = (\<lambda>t _. case t of TsNode _ x _ \<Rightarrow> Inr x | NullTree \<Rightarrow> Inl UB)\<rparr>"

definition nameTree :: "string \<Rightarrow> tsTree" where
  "nameTree x = TsNode ''identifier'' x []"

definition taskTree :: "string \<Rightarrow> tsTree" where
  "taskTree t = TsNode ''rule'' t [('''', TsNode t t [])]"

definition loopTree :: tsTree where
  "loopTree = TsNode ''rule'' ''for'' [('''', TsNode ''for'' ''for'' [(''element'', nameTree ''p''), (''list'', nameTree ''all''),
     (''body'', TsNode ''body'' '''' [('''', taskTree ''shuffle''), ('''', TsNode ''comment'' ''//'' []), ('''', taskTree ''reverse'')])])]"

definition rulesTree :: tsTree where
  "rulesTree = TsNode ''rules'' '''' [(''body'', TsNode ''body'' '''' [('''', loopTree), ('''', taskTree ''discard'')])]"

definition sampleRules :: "rule list" where
  "sampleRules = [Loop FOR [''p''] [''players''] [Task SHUFFLE [[''shuffle'']], Task REVERSE [[''reverse'']]],
     Task DISCARD [[''discard'']]]"

lemma nameTree_tokens: "tokensOf treeApi src (nameTree x) [if x = ''all'' then ''players'' else x]"
  by (rule tokens_name) (auto simp: parse_shapes nameTree_def treeApi_def)

lemma taskTree_rule:
  assumes "map_of taskRules t = Some ty" "ty \<in> {EXTEND, DISCARD, SHUFFLE, REVERSE}"
    and "t \<notin> {''for'', ''parallel_for'', ''match''}"
  shows "isRule treeApi src (taskTree t) (Task ty [[t]])"
  by (rule rule_task [where c = "TsNode t t []"]) (use assms in \<open>auto simp: ruleHead_def taskTree_def treeApi_def intro: task_bare\<close>)

lemma sample_tasks:
  "isRule treeApi src (taskTree ''shuffle'') (Task SHUFFLE [[''shuffle'']])"
  "isRule treeApi src (taskTree ''reverse'') (Task REVERSE [[''reverse'']])"
  "isRule treeApi src (taskTree ''discard'') (Task DISCARD [[''discard'']])"
  by (rule taskTree_rule; simp add: taskRules_def)+

lemma sample_loop:
  "isRule treeApi src loopTree (Loop FOR [''p''] [''players''] [Task SHUFFLE [[''shuffle'']], Task REVERSE [[''reverse'']]])"
proof (rule rule_loop)
  define c where "c = TsNode ''for'' ''for'' [(''element'', nameTree ''p''), (''list'', nameTree ''all''),
     (''body'', TsNode ''body'' '''' [('''', taskTree ''shuffle''), ('''', TsNode ''comment'' ''//'' []), ('''', taskTree ''reverse'')])]"
  show "ruleHead treeApi loopTree c ''for''" by (simp add: ruleHead_def loopTree_def c_def treeApi_def)
  show "fieldTokens treeApi src c ''element'' [''p'']"
    using nameTree_tokens [of src "''p''"] by (simp add: fieldTokens_def c_def treeApi_def)
  show "fieldTokens treeApi src c ''list'' [''players'']"
    using nameTree_tokens [of src "''all''"] by (simp add: fieldTokens_def c_def treeApi_def)
  define b where "b = TsNode ''body'' '''' [('''', taskTree ''shuffle''), ('''', TsNode ''comment'' ''//'' []), ('''', taskTree ''reverse'')]"
  show "getChildByFieldName treeApi c ''body'' = Inr b" by (simp add: c_def b_def treeApi_def)
  show "getNumNamedChildren treeApi b = Inr 3" by (simp add: b_def treeApi_def)
  have "rulesIn treeApi src b [0, 1, 2] [Task SHUFFLE [[''shuffle'']], Task REVERSE [[''reverse'']]]"
    by (rule rules_next [OF _ sample_tasks(1)], simp add: b_def treeApi_def,
        rule rules_comment [where c = "TsNode ''comment'' ''//'' []"], simp add: b_def treeApi_def, simp add: treeApi_def,
        rule rules_next [OF _ sample_tasks(2) rules_none], simp add: b_def treeApi_def)
  then show "rulesIn treeApi src b [0..<3] [Task SHUFFLE [[''shuffle'']], Task REVERSE [[''reverse'']]]"
    by (simp add: upt_rec numeral_eq_Suc)
qed (simp add: loopWord_def)

lemma sample_rules:
  "rulesIn treeApi src (TsNode ''body'' '''' [('''', loopTree), ('''', taskTree ''discard'')]) [0..<2] sampleRules"
proof -
  define b where "b = TsNode ''body'' '''' [('''', loopTree), ('''', taskTree ''discard'')]"
  have "rulesIn treeApi src b [0, 1] sampleRules"
    unfolding sampleRules_def
    by (rule rules_next [OF _ sample_loop rules_next [OF _ sample_tasks(3) rules_none]])
      (simp_all add: b_def treeApi_def)
  then show ?thesis by (simp add: b_def upt_rec numeral_eq_Suc)
qed

theorem parser_links_rules_witness:
  "\<exists>n. \<forall>m \<ge> n. \<forall>h. \<exists>t h'. parseRules m m treeApi [] rulesTree h = (Inr t, h') \<and>
     linked (nodes h') (getRules t) None sampleRules \<and> (\<forall>x < nextId h. nodes h' x = nodes h x)"
  by (rule parser_links_rules [OF _ _ sample_rules]) (simp_all add: rulesTree_def treeApi_def)

text \<open>
  C39: A loop from the parser cannot be entered: its node holds two lists, the element and the range, where
  the environment reads three, so entering its scope throws \<open>std::out_of_range\<close> on every game.
\<close>

theorem parsed_loop_cannot_start:
  assumes "isRule api src n (Loop ty e l rs)"
  shows "\<exists>k. \<forall>m \<ge> k. \<forall>h. \<exists>a h'. parseRule m m api src n h = (Inr a, h') \<and>
     (\<forall>pf g. notInLoop g a \<longrightarrow> fst (enterScope (nodes h') pf (Some a) g) = Inl (OutOfRange None))"
proof -
  have ty: "ty = FOR \<or> ty = PARALLEL"
    using assms by (cases rule: isRule.cases) (auto simp: loopWord_def)
  have throws: "fst (enterScope rt pf (Some a) g) = Inl (OutOfRange None)"
    if "placed rt a b None None (Loop ty e l rs)" "notInLoop g a" for rt pf a b g
  proof -
    from that(1) obtain nd where nd: "rt a = Some nd" "data nd = [e, l]" "nodeType nd = ty"
      by (auto elim: placedE)
    then have "newControlFlow rt (Some a) g = (Inl (OutOfRange None), g)"
      by (simp add: newControlFlow_def nodeOf_def vectorAt_def run_simps andThen_def)
    with nd have "newScope rt (Some a) g = (Inl (OutOfRange None), g)"
      by (simp add: newScope_def nodeOf_def run_simps andThen_def)
    with that(2) show ?thesis
      by (auto simp: enterScope_def notInLoop_def run_simps andThen_def split: list.splits option.splits)
  qed
  obtain k where k: "\<forall>m \<ge> k. ruleBy api src n (Loop ty e l rs) m"
    using rules_enough(1) [OF assms] by (auto simp: enough_def)
  have "\<exists>a h'. parseRule m m api src n h = (Inr a, h') \<and>
     (\<forall>pf g. notInLoop g a \<longrightarrow> fst (enterScope (nodes h') pf (Some a) g) = Inl (OutOfRange None))" if "k \<le> m" for m h
  proof -
    from k that obtain h' where "parseRule m m api src n h = (Inr (nextId h), h')"
        "placed (nodes h') (nextId h) (nextId h') None None (Loop ty e l rs)"
      unfolding ruleBy_def by blast
    with throws show ?thesis by blast
  qed
  then show ?thesis by blast
qed

theorem parsed_loop_cannot_start_witness:
  "\<exists>k. \<forall>m \<ge> k. \<forall>h. \<exists>a h'. parseRule m m treeApi [] loopTree h = (Inr a, h') \<and>
     (\<forall>pf g. notInLoop g a \<longrightarrow> fst (enterScope (nodes h') pf (Some a) g) = Inl (OutOfRange None))"
  by (rule parsed_loop_cannot_start) (rule sample_loop)

end
