(* ===== verification/Ambassador.thy ===== *)
theory Ambassador
  imports StdMap StdQueue
begin

text \<open>
  Talking to the other process (\<open>lib/ambassador/Ambassador.h\<close>, \<open>Ambassador.cpp\<close>): messages, the message
  queue between the processes, and the ambassador that sends and collects messages.

  Outside the repository's own code are the message queue of the operating system (boost), a parameter of
  type \<open>ipc\<close> with its non-blocking calls, and the text form of a message (nlohmann json), a parameter of
  type \<open>codec\<close>. A message is written once, before it is shared, so the queue holds values.
\<close>

section \<open>Messages\<close>

datatype msgType = QUEUE_CLOSED | EMPTY | INPUT_REQ | INPUT_RES | CONFIG_REQ | CONFIG_RES | GAME_INIT | GAME_MADE
  | GAME_START | GAME_END | PLAYER_JOIN | PLAYER_ACK | PLAYER_NACK | DISPLAY_MSG | DISPLAY_SCORES
  | OtherType int                                 \<comment> \<open>a value without enumerator\<close>

text \<open>The number of an enumerator: \<open>QUEUE_CLOSED\<close> is -1, the others count from 0.\<close>

definition msgNumber :: "msgType \<Rightarrow> int" where
  "msgNumber t = (case t of QUEUE_CLOSED \<Rightarrow> -1 | EMPTY \<Rightarrow> 0 | INPUT_REQ \<Rightarrow> 1 | INPUT_RES \<Rightarrow> 2 | CONFIG_REQ \<Rightarrow> 3
     | CONFIG_RES \<Rightarrow> 4 | GAME_INIT \<Rightarrow> 5 | GAME_MADE \<Rightarrow> 6 | GAME_START \<Rightarrow> 7 | GAME_END \<Rightarrow> 8 | PLAYER_JOIN \<Rightarrow> 9
     | PLAYER_ACK \<Rightarrow> 10 | PLAYER_NACK \<Rightarrow> 11 | DISPLAY_MSG \<Rightarrow> 12 | DISPLAY_SCORES \<Rightarrow> 13 | OtherType n \<Rightarrow> n)"

text \<open>\<open>resType\<close> is \<open>None\<close> while it has no value: the constructor from a text leaves it so when parsing fails.\<close>

record Response =
  resType :: "msgType option"
  attrs :: "(string, string) smap"

definition newResponse :: Response where
  "newResponse = \<lparr>resType = Some EMPTY, attrs = []\<rparr>"

record codec =
  parseJson :: "string \<Rightarrow> cpp_error + Response"  \<comment> \<open>\<open>json::parse(src).get<Response>()\<close>\<close>
  dumpJson :: "Response \<Rightarrow> cpp_error + string"   \<comment> \<open>\<open>json j = *this; j.dump()\<close>\<close>

text \<open>A view of C text ends at the first zero byte: \<open>aKey.data()\<close> as a \<open>const char*\<close>.\<close>

definition cText :: "string \<Rightarrow> string" where
  "cText x = takeWhile (\<lambda>c. c \<noteq> CHR 0x00) x"

text \<open>The constructor from a text catches the exceptions of the JSON library.\<close>

definition responseFrom :: "codec \<Rightarrow> string \<Rightarrow> cpp_error + Response" where
  "responseFrom cd src =
     (case parseJson cd src of
        Inr resObj \<Rightarrow> Inr \<lparr>resType = resType resObj, attrs = attrs resObj\<rparr>
      | Inl (JsonException i what) \<Rightarrow> Inr \<lparr>resType = None, attrs = []\<rparr>
      | Inl e \<Rightarrow> Inl e)"

definition responseToString :: "codec \<Rightarrow> Response \<Rightarrow> cpp_error + string" where
  "responseToString cd r = dumpJson cd r"

definition setType :: "msgType \<Rightarrow> Response \<Rightarrow> Response" where
  "setType aType r = r\<lparr>resType := Some aType\<rparr>"

definition getResType :: "Response \<Rightarrow> cpp_error + msgType" where
  "getResType r = (case resType r of None \<Rightarrow> Inl UB | Some t \<Rightarrow> Inr t)"

definition setAttr :: "string \<Rightarrow> string \<Rightarrow> Response \<Rightarrow> Response" where
  "setAttr aKey aVal r = r\<lparr>attrs := mapPut (cText aKey) (cText aVal) (attrs r)\<rparr>"

definition getAllAttrs :: "Response \<Rightarrow> (string, string) smap" where
  "getAllAttrs r = attrs r"

definition getAttr :: "Response \<Rightarrow> string \<Rightarrow> string" where
  "getAttr r aKey = (case map_of (attrs r) (cText aKey) of Some v \<Rightarrow> v | None \<Rightarrow> '''')"

section \<open>The message queue\<close>

definition MSG_MAX_SIZE :: nat where
  "MSG_MAX_SIZE = 600"

definition MSG_MAX_COUNT :: nat where
  "MSG_MAX_COUNT = 100"

record 'q ipc =
  try_receive :: "nat \<Rightarrow> ('q, string option) prog"  \<comment> \<open>the bytes received into a buffer of the given size\<close>
  try_send :: "string \<Rightarrow> ('q, bool) prog"           \<comment> \<open>a message of priority 0\<close>

text \<open>The interface \<open>msgQ\<close> and its implementation.\<close>

record 'q msgQ =
  readText :: "('q, string) prog"
  writeText :: "string \<Rightarrow> ('q, int) prog"

definition implRead :: "'q ipc \<Rightarrow> bool \<Rightarrow> ('q, string) prog" where
  "implRead mq readBool =
     (if \<not> readBool then ok ''''
      else andThen (try_receive mq MSG_MAX_SIZE) (\<lambda>r. ok (case r of None \<Rightarrow> '''' | Some buf \<Rightarrow> buf)))"

text \<open>\<open>strcpy\<close> into a buffer one longer than the text: with a zero byte inside the text the bytes behind it
  are not set.\<close>

definition implWrite :: "'q ipc \<Rightarrow> bool \<Rightarrow> string \<Rightarrow> ('q, int) prog" where
  "implWrite mq writeBool input =
     (if \<not> writeBool then ok (-1)
      else if CHR 0x00 \<in> set input then raise UB
      else andThen (try_send mq (input @ [CHR 0x00])) (\<lambda>sent. ok (if sent then 0 else -1)))"

definition msgQImpl :: "'q ipc \<Rightarrow> bool \<Rightarrow> bool \<Rightarrow> 'q msgQ" where
  "msgQImpl mq writeVal readVal = \<lparr>readText = implRead mq readVal, writeText = implWrite mq writeVal\<rparr>"

section \<open>The ambassador\<close>

record ('w, 'r) Ambassador =
  writeQ :: "'w msgQ"
  readQ :: "'r msgQ"

text \<open>The state: the two queues and \<open>readContentQ\<close>.\<close>

record ('w, 'r) ambState =
  outQ :: 'w
  inQ :: 'r
  readContentQ :: "Response list"

definition onOut :: "('w, 'a) prog \<Rightarrow> (('w, 'r) ambState, 'a) prog" where
  "onOut = zoom outQ (\<lambda>q s. s\<lparr>outQ := q\<rparr>)"

definition onIn :: "('r, 'a) prog \<Rightarrow> (('w, 'r) ambState, 'a) prog" where
  "onIn = zoom inQ (\<lambda>q s. s\<lparr>inQ := q\<rparr>)"

definition setContent :: "Response list \<Rightarrow> (('w, 'r) ambState, unit) prog" where
  "setContent q = modify (\<lambda>s. s\<lparr>readContentQ := q\<rparr>)"

definition sendMsg :: "codec \<Rightarrow> ('w, 'r) Ambassador \<Rightarrow> Response \<Rightarrow> (('w, 'r) ambState, int) prog" where
  "sendMsg cd a input = andThen (fromSum (responseToString cd input)) (\<lambda>text. onOut (writeText (writeQ a) text))"

text \<open>The loop of \<open>getAllMsg\<close> reads until the queue is empty; the other process may go on writing, so its
  length is not bounded by the code.\<close>

primrec collectMsgs :: "nat \<Rightarrow> codec \<Rightarrow> ('w, 'r) Ambassador \<Rightarrow> (('w, 'r) ambState, unit) prog" where
  "collectMsgs 0 cd a = raise OutOfFuel"
| "collectMsgs (Suc fuel) cd a =
     andThen (onIn (readText (readQ a))) (\<lambda>content.
     if content = '''' then ok ()
     else andThen (fromSum (responseFrom cd content)) (\<lambda>newRes. andThen getState (\<lambda>s.
       andThen (setContent (readContentQ s @ [newRes])) (\<lambda>_. collectMsgs fuel cd a))))"

text \<open>\<open>catch\<close>: a closed queue leaves one message that says so.\<close>

definition onQueueClosed :: "('s, 'a) prog \<Rightarrow> ('s, 'a) prog \<Rightarrow> ('s, 'a) prog" where
  "onQueueClosed m handler = (\<lambda>s. case m s of (Inl QueueClosed, t) \<Rightarrow> handler t | r \<Rightarrow> r)"

definition getAllMsg :: "nat \<Rightarrow> codec \<Rightarrow> ('w, 'r) Ambassador \<Rightarrow> (('w, 'r) ambState, Response list) prog" where
  "getAllMsg fuel cd a =
     andThen (onQueueClosed (collectMsgs fuel cd a) (setContent [setType QUEUE_CLOSED newResponse])) (\<lambda>_.
     andThen getState (\<lambda>s. ok (readContentQ s)))"

definition getOneMsg :: "nat \<Rightarrow> codec \<Rightarrow> ('w, 'r) Ambassador \<Rightarrow> (('w, 'r) ambState, Response) prog" where
  "getOneMsg fuel cd a =
     andThen (getAllMsg fuel cd a) (\<lambda>_. andThen getState (\<lambda>s.
       case readContentQ s of
         [] \<Rightarrow> ok newResponse
       | res # rest \<Rightarrow> andThen (setContent rest) (\<lambda>_. ok res)))"

text \<open>The destructor tells the other process that the queue is closed.\<close>

definition closeAmbassador :: "codec \<Rightarrow> ('w, 'r) Ambassador \<Rightarrow> (('w, 'r) ambState, int) prog" where
  "closeAmbassador cd a = sendMsg cd a (setType QUEUE_CLOSED newResponse)"

end
