(* ===== verification/AmbassadorProps.thy ===== *)
theory AmbassadorProps
  imports Ambassador
begin

text \<open>
  What the ambassador promises over a queue that keeps the messages in order: the laws of the queue and of
  the text form are named hypotheses (\<open>fifoIpc\<close>, \<open>carries\<close>), shown to hold of a list and of a small codec.
\<close>

section \<open>The hypotheses\<close>

text \<open>boost's message queue with one priority: messages come out in the order they went in, a message that fits
  is taken as long as the queue is not full.\<close>

definition fifoIpc :: "'q ipc \<Rightarrow> ('q \<Rightarrow> string list) \<Rightarrow> bool" where
  "fifoIpc mq contents \<longleftrightarrow>
     (\<forall>q b. length b \<le> MSG_MAX_SIZE \<and> length (contents q) < MSG_MAX_COUNT \<longrightarrow>
        (\<exists>q'. try_send mq b q = (Inr True, q') \<and> contents q' = contents q @ [b])) \<and>
     (\<forall>q. contents q = [] \<longrightarrow> (\<exists>q'. try_receive mq MSG_MAX_SIZE q = (Inr None, q') \<and> contents q' = [])) \<and>
     (\<forall>q b bs. contents q = b # bs \<longrightarrow>
        (\<exists>q'. try_receive mq MSG_MAX_SIZE q = (Inr (Some b), q') \<and> contents q' = bs))"

text \<open>The text of the message fits and reads back, also with the zero byte that \<open>write\<close> sends behind it.\<close>

definition carries :: "codec \<Rightarrow> Response \<Rightarrow> bool" where
  "carries cd r \<longleftrightarrow> (\<exists>t. dumpJson cd r = Inr t \<and> CHR 0x00 \<notin> set t \<and> length t < MSG_MAX_SIZE \<and>
     parseJson cd (t @ [CHR 0x00]) = Inr r)"

definition packet :: "codec \<Rightarrow> Response \<Rightarrow> string" where
  "packet cd r = (case dumpJson cd r of Inr t \<Rightarrow> t @ [CHR 0x00] | Inl _ \<Rightarrow> [])"

section \<open>Sending and collecting\<close>

lemma fifoIpc_receive:
  "fifoIpc mq contents \<Longrightarrow> contents q = b # bs \<Longrightarrow>
     \<exists>q'. try_receive mq MSG_MAX_SIZE q = (Inr (Some b), q') \<and> contents q' = bs"
  by (simp add: fifoIpc_def)

lemma sendMsg_run:
  assumes "fifoIpc mq contents" "carries cd r" "writeQ a = msgQImpl mq True b" "length (contents (outQ s)) < MSG_MAX_COUNT"
  obtains s' where "sendMsg cd a r s = (Inr 0, s')" "contents (outQ s') = contents (outQ s) @ [packet cd r]"
    "inQ s' = inQ s" "readContentQ s' = readContentQ s"
proof -
  from assms(2) obtain t where t: "dumpJson cd r = Inr t" "CHR 0x00 \<notin> set t" "length (t @ [CHR 0x00]) \<le> MSG_MAX_SIZE"
    by (auto simp: carries_def)
  with assms(1,4) obtain q' where "try_send mq (t @ [CHR 0x00]) (outQ s) = (Inr True, q')"
      "contents q' = contents (outQ s) @ [t @ [CHR 0x00]]"
    unfolding fifoIpc_def by blast
  with t show thesis
    by (intro that [of "s\<lparr>outQ := q'\<rparr>"])
      (simp_all add: sendMsg_def responseToString_def assms(3) msgQImpl_def implWrite_def onOut_def zoom_def
        packet_def run_simps andThen_def)
qed

lemma sendAll_run:
  assumes "fifoIpc mq contents" "\<forall>r \<in> set rs. carries cd r" "writeQ a = msgQImpl mq True b"
    and "length (contents (outQ s)) + length rs \<le> MSG_MAX_COUNT"
  shows "\<exists>s'. mapProg (sendMsg cd a) rs s = (Inr (replicate (length rs) 0), s') \<and>
     contents (outQ s') = contents (outQ s) @ map (packet cd) rs"
  using assms(2,4)
proof (induction rs arbitrary: s)
  case (Cons r rs)
  obtain t where t: "sendMsg cd a r s = (Inr 0, t)" "contents (outQ t) = contents (outQ s) @ [packet cd r]"
    using Cons.prems by (auto intro: sendMsg_run [OF assms(1) _ assms(3), of cd r s])
  with Cons.IH [of t] Cons.prems show ?case by (auto simp: run_simps)
qed (simp add: run_simps)

lemma carries_packet: "carries cd r \<Longrightarrow> packet cd r \<noteq> [] \<and> responseFrom cd (packet cd r) = Inr r"
  by (auto simp: carries_def packet_def responseFrom_def)

lemma collectMsgs_run:
  assumes "fifoIpc mq contents" "readQ a = msgQImpl mq b True"
    and "contents (inQ s) = map (packet cd) rs" "\<forall>r \<in> set rs. carries cd r" "length rs < n"
  shows "\<exists>s'. collectMsgs n cd a s = (Inr (), s') \<and> readContentQ s' = readContentQ s @ rs \<and>
     contents (inQ s') = []"
  using assms(3-5)
proof (induction rs arbitrary: s n)
  case Nil
  then obtain m q' where n: "n = Suc m" and q': "try_receive mq MSG_MAX_SIZE (inQ s) = (Inr None, q')" "contents q' = []"
    using assms(1) unfolding fifoIpc_def by (metis Suc_pred gr_implies_not0 length_0_conv list.size(3) map_is_Nil_conv neq0_conv)
  then have "onIn (readText (readQ a)) s = (Inr [], s\<lparr>inQ := q'\<rparr>)"
    by (simp add: assms(2) msgQImpl_def implRead_def onIn_def zoom_def run_simps andThen_def)
  with n q' show ?case by (auto simp: run_simps)
next
  case (Cons r rs)
  then obtain m where n: "n = Suc m" by (cases n) auto
  from Cons.prems obtain q' where q': "try_receive mq MSG_MAX_SIZE (inQ s) = (Inr (Some (packet cd r)), q')"
      "contents q' = map (packet cd) rs"
    using fifoIpc_receive [OF assms(1)] by (metis list.simps(9))
  define t where "t = s\<lparr>inQ := q', readContentQ := readContentQ s @ [r]\<rparr>"
  have "onIn (readText (readQ a)) s = (Inr (packet cd r), s\<lparr>inQ := q'\<rparr>)"
    using q' by (simp add: assms(2) msgQImpl_def implRead_def onIn_def zoom_def run_simps andThen_def)
  moreover have "packet cd r \<noteq> []" "responseFrom cd (packet cd r) = Inr r"
    using carries_packet [of cd r] Cons.prems(2) by auto
  ultimately have "collectMsgs n cd a s = collectMsgs m cd a t"
    by (simp add: n run_simps setContent_def t_def)
  moreover obtain u where "collectMsgs m cd a t = (Inr (), u)" "readContentQ u = readContentQ t @ rs" "contents (inQ u) = []"
    using Cons.IH [of t m] Cons.prems q' n by (auto simp: t_def)
  ultimately show ?case by (auto simp: t_def)
qed

lemma getAllMsg_run:
  assumes "fifoIpc mq contents" "readQ a = msgQImpl mq b True"
    and "contents (inQ s) = map (packet cd) rs" "\<forall>r \<in> set rs. carries cd r" "length rs < n"
  shows "\<exists>s'. getAllMsg n cd a s = (Inr (readContentQ s @ rs), s') \<and> readContentQ s' = readContentQ s @ rs \<and>
     contents (inQ s') = []"
proof -
  obtain t where "collectMsgs n cd a s = (Inr (), t)" "readContentQ t = readContentQ s @ rs" "contents (inQ t) = []"
    using collectMsgs_run [OF assms] by blast
  then show ?thesis by (simp add: getAllMsg_def onQueueClosed_def run_simps andThen_def)
qed

text \<open>Once everything is collected, \<open>getOneMsg\<close> takes from the front.\<close>

lemma getOneMsg_rest:
  assumes "fifoIpc mq contents" "readQ a = msgQImpl mq b True" "contents (inQ s) = []" "0 < n"
  shows "\<exists>s'. mapProg (\<lambda>_. getOneMsg n cd a) (replicate (Suc (length (readContentQ s))) ()) s = (Inr (readContentQ s @ [newResponse]), s')"
  using assms(3)
proof (induction "readContentQ s" arbitrary: s)
  case Nil
  obtain t where "getAllMsg n cd a s = (Inr [], t)" "readContentQ t = []"
    using getAllMsg_run [OF assms(1,2), of s cd "[]" n] Nil assms(4) by auto
  then show ?case by (simp add: Nil(1) [symmetric] getOneMsg_def run_simps andThen_def)
next
  case (Cons r rs)
  obtain t where t: "getAllMsg n cd a s = (Inr (r # rs), t)" "readContentQ t = r # rs" "contents (inQ t) = []"
    using getAllMsg_run [OF assms(1,2), of s cd "[]" n] Cons assms(4) by auto
  define u where "u = t\<lparr>readContentQ := rs\<rparr>"
  have one: "getOneMsg n cd a s = (Inr r, u)"
    using t by (simp add: getOneMsg_def run_simps andThen_def setContent_def u_def)
  obtain s' where "mapProg (\<lambda>_. getOneMsg n cd a) (replicate (Suc (length rs)) ()) u = (Inr (rs @ [newResponse]), s')"
    using Cons(1) [of u] t(3) by (auto simp: u_def)
  with one show ?case by (simp add: Cons(2) [symmetric] run_simps del: replicate_Suc) (simp add: run_simps)
qed

text \<open>What is sent over one queue comes out of \<open>getOneMsg\<close> on the other side in order, each message once and
  unchanged, and after them the empty message.\<close>

lemma delivers:
  assumes "fifoIpc mq contents" "\<forall>r \<in> set rs. carries cd r" "length rs \<le> MSG_MAX_COUNT"
    and "writeQ a = msgQImpl mq True c" "readQ b = msgQImpl mq d True"
    and "contents (outQ s) = []" "length rs < n"
  shows "\<exists>s'. mapProg (sendMsg cd a) rs s = (Inr (replicate (length rs) 0), s') \<and>
    (\<forall>t. inQ t = outQ s' \<and> readContentQ t = [] \<longrightarrow>
      (\<exists>t'. mapProg (\<lambda>_. getOneMsg n cd b) (replicate (Suc (length rs)) ()) t = (Inr (rs @ [newResponse]), t')))"
proof -
  obtain s' where s': "mapProg (sendMsg cd a) rs s = (Inr (replicate (length rs) 0), s')"
      "contents (outQ s') = map (packet cd) rs"
    using sendAll_run [OF assms(1,2,4), of s] assms(3,6) by auto
  have "\<exists>t'. mapProg (\<lambda>_. getOneMsg n cd b) (replicate (Suc (length rs)) ()) t = (Inr (rs @ [newResponse]), t')"
    if t: "inQ t = outQ s'" "readContentQ t = []" for t :: "('c, 'a) ambState"
  proof (cases rs)
    case Nil
    with getOneMsg_rest [OF assms(1,5), of t n cd] t s'(2) assms(7) show ?thesis by simp
  next
    case (Cons r rest)
    obtain u where u: "getAllMsg n cd b t = (Inr rs, u)" "readContentQ u = rs" "contents (inQ u) = []"
      using getAllMsg_run [OF assms(1,5), of t cd rs n] t s'(2) assms(2,7) by auto
    define v where "v = u\<lparr>readContentQ := rest\<rparr>"
    have "getOneMsg n cd b t = (Inr r, v)"
      using u Cons by (simp add: getOneMsg_def run_simps andThen_def setContent_def v_def)
    moreover obtain w where
      "mapProg (\<lambda>_. getOneMsg n cd b) (replicate (Suc (length rest)) ()) v = (Inr (rest @ [newResponse]), w)"
      using getOneMsg_rest [OF assms(1,5), of v n cd] u(3) assms(7) by (auto simp: v_def)
    ultimately show ?thesis
      by (simp add: Cons run_simps del: replicate_Suc) (simp add: run_simps)
  qed
  with s'(1) show ?thesis by blast
qed

text \<open>A queue kept in a list, and a codec for messages without attributes.\<close>

definition listIpc :: "string list ipc" where
  "listIpc = \<lparr>
     try_receive = (\<lambda>n q. case q of [] \<Rightarrow> (Inr None, []) | b # bs \<Rightarrow> (Inr (Some b), bs)),
     try_send = (\<lambda>b q. if length b > MSG_MAX_SIZE then (Inl (RuntimeError ''size''), q)
       else if length q < MSG_MAX_COUNT then (Inr True, q @ [b]) else (Inr False, q))\<rparr>"

definition bareText :: "msgType \<Rightarrow> string" where
  "bareText t = ''{resType:'' @ (if t = GAME_START then ''7'' else if t = PLAYER_JOIN then ''9'' else ''0'') @ ''}''"

definition bareCodec :: codec where
  "bareCodec = \<lparr>
     parseJson = (\<lambda>x. if cText x = bareText GAME_START then Inr \<lparr>resType = Some GAME_START, attrs = []\<rparr>
       else if cText x = bareText PLAYER_JOIN then Inr \<lparr>resType = Some PLAYER_JOIN, attrs = []\<rparr>
       else Inl (JsonException 101 ''parse error'')),
     dumpJson = (\<lambda>r. case resType r of Some t \<Rightarrow> Inr (bareText t) | None \<Rightarrow> Inl UB)\<rparr>"

definition joinThenStart :: "Response list" where
  "joinThenStart = [setType PLAYER_JOIN newResponse, setType GAME_START newResponse]"

lemma listIpc_fifo: "fifoIpc listIpc (\<lambda>q. q)"
  by (auto simp: fifoIpc_def listIpc_def)

lemma bareCodec_carries: "\<forall>r \<in> set joinThenStart. carries bareCodec r"
  by (auto simp: carries_def joinThenStart_def bareCodec_def bareText_def setType_def newResponse_def cText_def
      MSG_MAX_SIZE_def)

definition bothWays :: "(string list, string list) Ambassador" where
  "bothWays = \<lparr>writeQ = msgQImpl listIpc True True, readQ = msgQImpl listIpc True True\<rparr>"

text \<open>
  \<open>getAllMsg\<close> hands out a copy and keeps the messages: the next call returns all earlier messages again,
  with the new ones behind them, and so does every call until \<open>getOneMsg\<close> or a closed queue removes them.
\<close>

theorem getAllMsg_redelivers:
  assumes "fifoIpc mq contents" "readQ a = msgQImpl mq b True" "\<forall>r \<in> set (rs @ fresh). carries cd r"
    and "contents (inQ s) = map (packet cd) rs" "length rs < n" "length fresh < n"
  shows "\<exists>t. getAllMsg n cd a s = (Inr (readContentQ s @ rs), t) \<and>
    (\<forall>u. readContentQ u = readContentQ t \<and> contents (inQ u) = map (packet cd) fresh \<longrightarrow>
      fst (getAllMsg n cd a u) = Inr (readContentQ s @ rs @ fresh))"
proof -
  obtain t where t: "getAllMsg n cd a s = (Inr (readContentQ s @ rs), t)" "readContentQ t = readContentQ s @ rs"
    using getAllMsg_run [OF assms(1,2,4)] assms(3,5) by fastforce
  have "fst (getAllMsg n cd a u) = Inr (readContentQ s @ rs @ fresh)"
    if u: "readContentQ u = readContentQ t" "contents (inQ u) = map (packet cd) fresh" for u :: "('b, 'a) ambState"
    using getAllMsg_run [OF assms(1,2) u(2), of n] assms(3,6) u(1) t(2) by fastforce
  with t(1) show ?thesis by blast
qed

theorem getAllMsg_redelivers_witness:
  "\<exists>t. getAllMsg 2 bareCodec bothWays \<lparr>outQ = [], inQ = [bareText GAME_START @ [CHR 0x00]], readContentQ = []\<rparr> =
      (Inr [setType GAME_START newResponse], t) \<and>
    (\<forall>u :: (string list, string list) ambState. readContentQ u = readContentQ t \<and> inQ u = [] \<longrightarrow>
      fst (getAllMsg 2 bareCodec bothWays u) = Inr [setType GAME_START newResponse])"
proof -
  have "carries bareCodec (setType GAME_START newResponse)"
    using bareCodec_carries by (simp add: joinThenStart_def)
  moreover have "packet bareCodec (setType GAME_START newResponse) = bareText GAME_START @ [CHR 0x00]"
    by (simp add: packet_def bareCodec_def setType_def newResponse_def)
  ultimately show ?thesis
    using getAllMsg_redelivers [OF listIpc_fifo, of bothWays True "[setType GAME_START newResponse]" "[]" bareCodec
        "\<lparr>outQ = [], inQ = [bareText GAME_START @ [CHR 0x00]], readContentQ = []\<rparr>" 2]
    by (simp add: bothWays_def)
qed

end
