(* ===== verification/Server.thy ===== *)
theory Server
  imports Ambassador CppText
begin

text \<open>
  The web socket server (\<open>lib/networking/src/Server.cpp\<close>, \<open>include/Server.h\<close>): channels, the connections of
  the server, and the HTTP requests that talk to the event loop.

  The network itself (boost asio and beast) is outside the repository. A call on it that starts an
  operation is recorded in \<open>pending\<close>; the handler the source passes along is a definition of its own, and
  \<open>ServerProps\<close> runs it when the network completes the operation. What the caller supplies (the callbacks,
  the ambassador's queues, the text form of messages) is the parameter \<open>serverEnv\<close>.
\<close>

section \<open>State\<close>

text \<open>A \<open>Connection\<close> is the address of its channel, so channels are known by it.\<close>

type_synonym Connection = nat

record Channel =
  disconnected :: bool
  writeBuffer :: "string list"

record netMessage =
  connection :: Connection
  msgText :: string

datatype verb = GET | HEAD | POST | OtherVerb

record httpRequest =
  reqMethod :: verb
  target :: string
  keepAlive :: bool
  isUpgrade :: bool

text \<open>A response: its status, its body unless it has none, and the fields that follow from the request.\<close>

record httpResponse =
  status :: nat
  respBody :: "string option"
  contentLength :: nat
  respKeepAlive :: bool

text \<open>Asynchronous operations on the network, started and not yet completed; sessions are numbered.\<close>

datatype netOp =
    AcceptSocket nat                     \<comment> \<open>\<open>acceptor.async_accept\<close> into the socket of a session\<close>
  | ReadRequest nat                      \<comment> \<open>\<open>http::async_read\<close>\<close>
  | WriteResponse nat httpResponse       \<comment> \<open>\<open>http::async_write\<close>\<close>
  | AcceptWebsocket Connection           \<comment> \<open>\<open>websocket.async_accept\<close>\<close>
  | WriteText Connection string          \<comment> \<open>\<open>websocket.async_write\<close>\<close>
  | ReadText Connection                  \<comment> \<open>\<open>websocket.async_read\<close>\<close>

datatype netClose = CloseWebsocket Connection | ShutdownSocket nat

record ('u, 'w, 'r) serverState =
  chans :: "Connection \<Rightarrow> Channel option"      \<comment> \<open>the channels in memory\<close>
  channels :: "(Connection, Connection) umap"
  activeChannel :: "Connection option"
  incoming :: "netMessage list"
  httpMessage :: string
  socketToGameInstanceID :: "(Connection, int) umap"
  socketToPlayerID :: "(Connection, int) umap"
  GameInstanceId :: int
  PlayerId :: int
  loopState :: "('w, 'r) ambState"
  user :: 'u                                    \<comment> \<open>what the callbacks of the caller work on\<close>
  stdin :: "string list"                        \<comment> \<open>the words of standard input\<close>
  nextSession :: nat
  pending :: "netOp list"
  closes :: "netClose list"

record ('u, 'w, 'r) serverEnv =
  onConnect :: "Connection \<Rightarrow> ('u, unit) prog"
  onDisconnect :: "Connection \<Rightarrow> ('u, unit) prog"
  loopAmbassador :: "('w, 'r) Ambassador"
  textForm :: codec
  shutdownFails :: "nat \<Rightarrow> bool"             \<comment> \<open>\<open>socket.shutdown\<close> without an error code throws\<close>

type_synonym ('u, 'w, 'r, 'a) serverProg = "(('u, 'w, 'r) serverState, 'a) prog"

definition startOp :: "netOp \<Rightarrow> ('u, 'w, 'r, unit) serverProg" where
  "startOp op = modify (\<lambda>s. s\<lparr>pending := pending s @ [op]\<rparr>)"

definition closeOp :: "netClose \<Rightarrow> ('u, 'w, 'r, unit) serverProg" where
  "closeOp c = modify (\<lambda>s. s\<lparr>closes := closes s @ [c]\<rparr>)"

definition onUser :: "('u, 'a) prog \<Rightarrow> ('u, 'w, 'r, 'a) serverProg" where
  "onUser = zoom user (\<lambda>u s. s\<lparr>user := u\<rparr>)"

definition onLoop :: "(('w, 'r) ambState, 'a) prog \<Rightarrow> ('u, 'w, 'r, 'a) serverProg" where
  "onLoop = zoom loopState (\<lambda>l s. s\<lparr>loopState := l\<rparr>)"

definition channelAt :: "Connection \<Rightarrow> ('u, 'w, 'r, Channel) serverProg" where
  "channelAt c = andThen getState (\<lambda>s. fromOption UB (chans s c))"

definition setChannel :: "Connection \<Rightarrow> Channel \<Rightarrow> ('u, 'w, 'r, unit) serverProg" where
  "setChannel c ch = modify (\<lambda>s. s\<lparr>chans := (chans s)(c \<mapsto> ch)\<rparr>)"

section \<open>Identifiers\<close>

text \<open>\<open>GameInstanceId++\<close> and \<open>PlayerId++\<close>: signed overflow is undefined.\<close>

definition generateUniqueGameInstanceID :: "('u, 'w, 'r, int) serverProg" where
  "generateUniqueGameInstanceID = andThen getState (\<lambda>s.
     if isInt (GameInstanceId s + 1)
     then andThen (modify (\<lambda>s. s\<lparr>GameInstanceId := GameInstanceId s + 1\<rparr>)) (\<lambda>_. ok (GameInstanceId s))
     else raise UB)"

definition generateUniquePlayerID :: "('u, 'w, 'r, int) serverProg" where
  "generateUniquePlayerID = andThen getState (\<lambda>s.
     if isInt (PlayerId s + 1)
     then andThen (modify (\<lambda>s. s\<lparr>PlayerId := PlayerId s + 1\<rparr>)) (\<lambda>_. ok (PlayerId s))
     else raise UB)"

section \<open>Channels\<close>

definition newChannel :: "Connection \<Rightarrow> ('u, 'w, 'r, unit) serverProg" where
  "newChannel c = setChannel c \<lparr>disconnected = False, writeBuffer = []\<rparr>"

definition channelStart :: "Connection \<Rightarrow> ('u, 'w, 'r, unit) serverProg" where
  "channelStart c = startOp (AcceptWebsocket c)"

definition channelDisconnect :: "Connection \<Rightarrow> ('u, 'w, 'r, unit) serverProg" where
  "channelDisconnect c = andThen (channelAt c) (\<lambda>ch.
     andThen (setChannel c (ch\<lparr>disconnected := True\<rparr>)) (\<lambda>_. closeOp (CloseWebsocket c)))"

definition channelSend :: "Connection \<Rightarrow> string \<Rightarrow> ('u, 'w, 'r, unit) serverProg" where
  "channelSend c outgoing =
     (if outgoing = '''' then ok ()
      else andThen (channelAt c) (\<lambda>ch.
        andThen (setChannel c (ch\<lparr>writeBuffer := writeBuffer ch @ [outgoing]\<rparr>)) (\<lambda>_.
          if 1 < length (writeBuffer ch @ [outgoing]) then ok ()
          else startOp (WriteText c (hd (writeBuffer ch @ [outgoing]))))))"

definition readMessage :: "Connection \<Rightarrow> ('u, 'w, 'r, unit) serverProg" where
  "readMessage c = startOp (ReadText c)"

text \<open>\<open>Server::disconnect\<close>: the mappings of the connection go with it.\<close>

definition serverDisconnect :: "('u, 'w, 'r) serverEnv \<Rightarrow> Connection \<Rightarrow> ('u, 'w, 'r, unit) serverProg" where
  "serverDisconnect e c = andThen getState (\<lambda>s.
     case channels s c of
       None \<Rightarrow> ok ()
     | Some found \<Rightarrow>
         andThen (onUser (onDisconnect e c)) (\<lambda>_.
         andThen (modify (\<lambda>s. s\<lparr>socketToGameInstanceID := umapErase c (socketToGameInstanceID s)\<rparr>)) (\<lambda>_.
         andThen (modify (\<lambda>s. s\<lparr>socketToPlayerID := umapErase c (socketToPlayerID s)\<rparr>)) (\<lambda>_.
         andThen (channelDisconnect found) (\<lambda>_.
           modify (\<lambda>s. s\<lparr>channels := umapErase c (channels s)\<rparr>))))))"

definition registerChannel :: "('u, 'w, 'r) serverEnv \<Rightarrow> Connection \<Rightarrow> ('u, 'w, 'r, unit) serverProg" where
  "registerChannel e c =
     andThen (modify (\<lambda>s. s\<lparr>channels := umapPut c c (channels s)\<rparr>)) (\<lambda>_.
     andThen (onUser (onConnect e c)) (\<lambda>_.
       modify (\<lambda>s. s\<lparr>activeChannel := Some c\<rparr>)))"

text \<open>The handler of \<open>async_accept\<close>.\<close>

definition afterAccept :: "('u, 'w, 'r) serverEnv \<Rightarrow> Connection \<Rightarrow> bool \<Rightarrow> ('u, 'w, 'r, unit) serverProg" where
  "afterAccept e c err =
     (if \<not> err then andThen (registerChannel e c) (\<lambda>_. readMessage c) else serverDisconnect e c)"

text \<open>\<open>afterWrite\<close>: the next text is the new front of the buffer; popping an empty deque is undefined.\<close>

definition afterWrite :: "('u, 'w, 'r) serverEnv \<Rightarrow> Connection \<Rightarrow> bool \<Rightarrow> ('u, 'w, 'r, unit) serverProg" where
  "afterWrite e c err = andThen (channelAt c) (\<lambda>ch.
     if err then (if \<not> disconnected ch then serverDisconnect e c else ok ())
     else (case writeBuffer ch of
         [] \<Rightarrow> raise UB
       | _ # rest \<Rightarrow>
           andThen (setChannel c (ch\<lparr>writeBuffer := rest\<rparr>)) (\<lambda>_.
             case rest of [] \<Rightarrow> ok () | t # _ \<Rightarrow> startOp (WriteText c t))))"

text \<open>The handler of \<open>async_read\<close>: with the text, or \<open>None\<close> on an error.\<close>

definition afterRead :: "('u, 'w, 'r) serverEnv \<Rightarrow> Connection \<Rightarrow> string option \<Rightarrow> ('u, 'w, 'r, unit) serverProg" where
  "afterRead e c res = andThen (channelAt c) (\<lambda>ch.
     case res of
       Some message \<Rightarrow>
         andThen (modify (\<lambda>s. s\<lparr>incoming := incoming s @ [\<lparr>connection = c, msgText = message\<rparr>]\<rparr>)) (\<lambda>_. readMessage c)
     | None \<Rightarrow> if \<not> disconnected ch then serverDisconnect e c else ok ())"

section \<open>HTTP requests\<close>

text \<open>\<open>std::cin >> input\<close>: the next word, nothing at the end of the input.\<close>

definition readWord :: "('u, 'w, 'r, string) serverProg" where
  "readWord = andThen getState (\<lambda>s. case stdin s of
      [] \<Rightarrow> ok ''''
    | w # ws \<Rightarrow> andThen (modify (\<lambda>s. s\<lparr>stdin := ws\<rparr>)) (\<lambda>_. ok w))"

text \<open>\<open>serverImpl.activeChannel->getConnection()\<close>: before the first connection the pointer is null.\<close>

definition activeConnection :: "('u, 'w, 'r, Connection) serverProg" where
  "activeConnection = andThen getState (\<lambda>s. fromOption UB (activeChannel s))"

definition sendToLoop :: "('u, 'w, 'r) serverEnv \<Rightarrow> Response \<Rightarrow> ('u, 'w, 'r, unit) serverProg" where
  "sendToLoop e r = andThen (onLoop (sendMsg (textForm e) (loopAmbassador e) r)) (\<lambda>_. ok ())"

definition handleCreateGame :: "('u, 'w, 'r) serverEnv \<Rightarrow> ('u, 'w, 'r, unit) serverProg" where
  "handleCreateGame e =
     andThen readWord (\<lambda>input. andThen generateUniqueGameInstanceID (\<lambda>gameInstanceId.
     andThen activeConnection (\<lambda>c.
     andThen (modify (\<lambda>s. s\<lparr>socketToGameInstanceID := umapPut c gameInstanceId (socketToGameInstanceID s)\<rparr>)) (\<lambda>_.
       sendToLoop e (setAttr ''gameInstanceId'' (toString gameInstanceId)
         (setAttr ''val'' input (setType GAME_INIT newResponse)))))))"

definition handleJoinGame :: "('u, 'w, 'r) serverEnv \<Rightarrow> ('u, 'w, 'r, unit) serverProg" where
  "handleJoinGame e =
     andThen readWord (\<lambda>input. andThen generateUniquePlayerID (\<lambda>playerId.
     andThen activeConnection (\<lambda>c.
     andThen (modify (\<lambda>s. s\<lparr>socketToPlayerID := umapPut c playerId (socketToPlayerID s)\<rparr>)) (\<lambda>_.
       sendToLoop e (setAttr ''playerId'' (toString playerId) (setAttr ''val'' input (setType PLAYER_JOIN newResponse)))))))"

definition handleConfigureGame :: "('u, 'w, 'r) serverEnv \<Rightarrow> ('u, 'w, 'r, unit) serverProg" where
  "handleConfigureGame e =
     andThen readWord (\<lambda>input. sendToLoop e (setAttr ''val'' input (setType CONFIG_RES newResponse)))"

definition requestHandlers :: "('u, 'w, 'r) serverEnv \<Rightarrow> (string, ('u, 'w, 'r, unit) serverProg) umap" where
  "requestHandlers e = [''/create-game'' \<mapsto> handleCreateGame e, ''/join-game'' \<mapsto> handleJoinGame e,
     ''/configure-game'' \<mapsto> handleConfigureGame e]"

definition sessionStart :: "nat \<Rightarrow> ('u, 'w, 'r, unit) serverProg" where
  "sessionStart sess = startOp (ReadRequest sess)"

definition sendResponse :: "nat \<Rightarrow> httpResponse \<Rightarrow> ('u, 'w, 'r, unit) serverProg" where
  "sendResponse sess r = startOp (WriteResponse sess r)"

definition reportError :: "('u, 'w, 'r, unit) serverProg" where
  "reportError = ok ()"

text \<open>The handler of the response's \<open>async_write\<close>; \<open>eof\<close> is \<open>need_eof()\<close> of the response.\<close>

definition afterResponse :: "('u, 'w, 'r) serverEnv \<Rightarrow> nat \<Rightarrow> bool \<Rightarrow> bool \<Rightarrow> ('u, 'w, 'r, unit) serverProg" where
  "afterResponse e sess err eof =
     (if err then
        andThen reportError (\<lambda>_.
          if shutdownFails e sess then raise (RuntimeError ''shutdown'') else closeOp (ShutdownSocket sess))
      else if eof then
        andThen (closeOp (ShutdownSocket sess)) (\<lambda>_. if shutdownFails e sess then reportError else ok ())
      else sessionStart sess)"

definition badRequest :: "httpRequest \<Rightarrow> string \<Rightarrow> httpResponse" where
  "badRequest request why =
     \<lparr>status = 400, respBody = Some why, contentLength = length why, respKeepAlive = keepAlive request\<rparr>"

definition shouldServeIndex :: "string \<Rightarrow> bool" where
  "shouldServeIndex t \<longleftrightarrow>
     t \<in> set [''/'', ''/create-game'', ''/configure-game'', ''/input-game-configuration'', ''/finalize-creating-game'',
       ''/join-game''] \<or>
     length ''/index.html'' \<le> length t \<and> drop (length t - length ''/index.html'') t = ''/index.html''"

definition okResponse :: "httpRequest \<Rightarrow> string option \<Rightarrow> nat \<Rightarrow> httpResponse" where
  "okResponse request b bodySize =
     \<lparr>status = 200, respBody = b, contentLength = bodySize, respKeepAlive = keepAlive request\<rparr>"

definition handleRequest :: "('u, 'w, 'r) serverEnv \<Rightarrow> nat \<Rightarrow> httpRequest \<Rightarrow> ('u, 'w, 'r, unit) serverProg" where
  "handleRequest e sess request =
     (if reqMethod request \<noteq> GET \<and> reqMethod request \<noteq> HEAD \<and> reqMethod request \<noteq> POST
      then sendResponse sess (badRequest request ''Unknown HTTP-method'')
      else
        andThen
          (if \<not> shouldServeIndex (target request)
           then sendResponse sess (badRequest request ''Illegal request-target'') else ok ()) (\<lambda>_.
        andThen getState (\<lambda>s.
          let body = httpMessage s in
          if reqMethod request = HEAD then sendResponse sess (okResponse request None (length body))
          else if reqMethod request = GET then
            (if target request = ''/'' then sendResponse sess (okResponse request (Some body) (length body))
             else (case requestHandlers e (target request) of
                 Some handle \<Rightarrow> handle
               | None \<Rightarrow> sendResponse sess (badRequest request ''Not Found 404'')))
          else ok ())))"

text \<open>The handler of the request's \<open>async_read\<close>: \<open>c\<close> is the address of the channel made for an upgrade.\<close>

definition afterRequest :: "('u, 'w, 'r) serverEnv \<Rightarrow> nat \<Rightarrow> httpRequest option \<Rightarrow> Connection \<Rightarrow> ('u, 'w, 'r, unit) serverProg"
where
  "afterRequest e sess res c =
     (case res of
        None \<Rightarrow> reportError
      | Some request \<Rightarrow>
          if isUpgrade request then andThen (newChannel c) (\<lambda>_. channelStart c)
          else handleRequest e sess request)"

section \<open>The server\<close>

definition listenForConnections :: "('u, 'w, 'r, unit) serverProg" where
  "listenForConnections = andThen getState (\<lambda>s.
     andThen (modify (\<lambda>s. s\<lparr>nextSession := Suc (nextSession s)\<rparr>)) (\<lambda>_. startOp (AcceptSocket (nextSession s))))"

definition afterAcceptSocket :: "nat \<Rightarrow> bool \<Rightarrow> ('u, 'w, 'r, unit) serverProg" where
  "afterAcceptSocket sess err =
     andThen (if \<not> err then sessionStart sess else reportError) (\<lambda>_. listenForConnections)"

text \<open>\<open>buildImpl\<close> and the constructor of \<open>ServerImpl\<close>: \<open>u\<close>, \<open>l\<close> and \<open>ws\<close> are what the callbacks work on, the state
  of the queues, and the words of standard input at the start.\<close>

definition newServerState :: "string \<Rightarrow> 'u \<Rightarrow> ('w, 'r) ambState \<Rightarrow> string list \<Rightarrow> ('u, 'w, 'r) serverState" where
  "newServerState msg u l ws = \<lparr>chans = Map.empty, channels = Map.empty, activeChannel = None, incoming = [],
     httpMessage = msg, socketToGameInstanceID = Map.empty, socketToPlayerID = Map.empty, GameInstanceId = 1,
     PlayerId = 1, loopState = l, user = u, stdin = ws, nextSession = 0, pending = [], closes = []\<rparr>"

definition buildImpl :: "string \<Rightarrow> 'u \<Rightarrow> ('w, 'r) ambState \<Rightarrow> string list \<Rightarrow> ('u, 'w, 'r) serverState" where
  "buildImpl msg u l ws = snd (listenForConnections (newServerState msg u l ws))"

definition serverReceive :: "('u, 'w, 'r, netMessage list) serverProg" where
  "serverReceive = andThen getState (\<lambda>s. andThen (modify (\<lambda>s. s\<lparr>incoming := []\<rparr>)) (\<lambda>_. ok (incoming s)))"

definition serverSend :: "netMessage list \<Rightarrow> ('u, 'w, 'r, unit) serverProg" where
  "serverSend messages = forEach messages (\<lambda>message. andThen getState (\<lambda>s.
     case channels s (connection message) of
       None \<Rightarrow> ok ()
     | Some found \<Rightarrow> channelSend found (msgText message)))"

text \<open>
  \<open>update\<close> polls the network: it runs the handlers of the operations that have completed. A completion names
  its operation and brings its result: an error code (only whether there is one), a request, a text.
\<close>

datatype completion =
    SocketAccepted nat bool
  | RequestRead nat "httpRequest option" Connection  \<comment> \<open>with the address a new channel would get\<close>
  | ResponseWritten nat httpResponse bool bool
  | WebsocketAccepted Connection bool
  | TextWritten Connection string bool
  | TextRead Connection "string option"

primrec opOf :: "completion \<Rightarrow> netOp" where
  "opOf (SocketAccepted sess err) = AcceptSocket sess"
| "opOf (RequestRead sess res c) = ReadRequest sess"
| "opOf (ResponseWritten sess r err eof) = WriteResponse sess r"
| "opOf (WebsocketAccepted c err) = AcceptWebsocket c"
| "opOf (TextWritten c t err) = WriteText c t"
| "opOf (TextRead c res) = ReadText c"

primrec handler :: "('u, 'w, 'r) serverEnv \<Rightarrow> completion \<Rightarrow> ('u, 'w, 'r, unit) serverProg" where
  "handler e (SocketAccepted sess err) = afterAcceptSocket sess err"
| "handler e (RequestRead sess res c) = afterRequest e sess res c"
| "handler e (ResponseWritten sess r err eof) = afterResponse e sess err eof"
| "handler e (WebsocketAccepted c err) = afterAccept e c err"
| "handler e (TextWritten c t err) = afterWrite e c err"
| "handler e (TextRead c res) = afterRead e c res"

definition serverDeliver :: "('u, 'w, 'r) serverEnv \<Rightarrow> completion \<Rightarrow> ('u, 'w, 'r, unit) serverProg" where
  "serverDeliver e ev =
     andThen (modify (\<lambda>s. s\<lparr>pending := remove1 (opOf ev) (pending s)\<rparr>)) (\<lambda>_. handler e ev)"

definition serverUpdate :: "('u, 'w, 'r) serverEnv \<Rightarrow> completion list \<Rightarrow> ('u, 'w, 'r, unit) serverProg" where
  "serverUpdate e evs = forEach evs (serverDeliver e)"

end
