(* ===== verification/ServerProps.thy ===== *)
theory ServerProps
  imports Server
begin

text \<open>
  The server as a state machine: the network completes pending operations in any order, the caller sends,
  receives and disconnects. \<open>viewOk\<close> is the invariant of one connection, \<open>idInv\<close> that of the identifiers.
\<close>

section \<open>The steps of the server\<close>

text \<open>The connection an operation on the network is about.\<close>

primrec aboutOp :: "Connection \<Rightarrow> netOp \<Rightarrow> bool" where
  "aboutOp c (AcceptSocket sess) = False"
| "aboutOp c (ReadRequest sess) = False"
| "aboutOp c (WriteResponse sess r) = False"
| "aboutOp c (AcceptWebsocket d) = (d = c)"
| "aboutOp c (WriteText d t) = (d = c)"
| "aboutOp c (ReadText d) = (d = c)"

primrec isWrite :: "netOp \<Rightarrow> bool" where
  "isWrite (AcceptSocket sess) = False"
| "isWrite (ReadRequest sess) = False"
| "isWrite (WriteResponse sess r) = False"
| "isWrite (AcceptWebsocket d) = False"
| "isWrite (WriteText d t) = True"
| "isWrite (ReadText d) = False"

definition opsOn :: "Connection \<Rightarrow> ('u, 'w, 'r) serverState \<Rightarrow> netOp list" where
  "opsOn c s = filter (aboutOp c) (pending s)"

text \<open>A new channel does not lie on one that is still in use: registered, active, or in an operation.\<close>

definition freeAddress :: "Connection \<Rightarrow> ('u, 'w, 'r) serverState \<Rightarrow> bool" where
  "freeAddress c s \<longleftrightarrow> channels s c = None \<and> activeChannel s \<noteq> Some c \<and> opsOn c s = []"

primrec possible :: "completion \<Rightarrow> ('u, 'w, 'r) serverState \<Rightarrow> bool" where
  "possible (SocketAccepted sess err) s = True"
| "possible (RequestRead sess res c) s = freeAddress c s"
| "possible (ResponseWritten sess r err eof) s = True"
| "possible (WebsocketAccepted c err) s = True"
| "possible (TextWritten c t err) s = True"
| "possible (TextRead c res) s = True"

inductive serverReach :: "('u, 'w, 'r) serverEnv \<Rightarrow> ('u, 'w, 'r) serverState \<Rightarrow> bool" for e where
  reach_start: "serverReach e (buildImpl msg u l ws)"
| reach_network: "serverReach e s \<Longrightarrow> opOf ev \<in> set (pending s) \<Longrightarrow> possible ev s \<Longrightarrow>
    serverDeliver e ev s = (r, t) \<Longrightarrow> serverReach e t"
| reach_send: "serverReach e s \<Longrightarrow> serverSend ms s = (r, t) \<Longrightarrow> serverReach e t"
| reach_receive: "serverReach e s \<Longrightarrow> serverReceive s = (r', t) \<Longrightarrow> serverReach e t"
| reach_disconnect: "serverReach e s \<Longrightarrow> serverDisconnect e c s = (r, t) \<Longrightarrow> serverReach e t"

section \<open>The invariant of a connection\<close>

text \<open>
  A registered connection has a live channel; there is at most one text being written and it is the front of
  the buffer; a registered channel with something to write is writing; and while the handshake is pending
  nothing else happens on the channel.
\<close>

type_synonym view = "Channel option \<times> Connection option \<times> netOp list"

definition viewOf :: "('u, 'w, 'r) serverState \<Rightarrow> Connection \<Rightarrow> view" where
  "viewOf s c = (chans s c, channels s c, opsOn c s)"

definition viewOk :: "Connection \<Rightarrow> view \<Rightarrow> bool" where
  "viewOk c v = (case v of
     (None, reg, ops) \<Rightarrow> reg = None \<and> ops = []
   | (Some ch, reg, ops) \<Rightarrow>
       (reg = None \<or> reg = Some c \<and> \<not> disconnected ch) \<and>
       (filter isWrite ops = [] \<or> (\<exists>t rest. filter isWrite ops = [WriteText c t] \<and> writeBuffer ch = t # rest)) \<and>
       (reg \<noteq> None \<and> writeBuffer ch \<noteq> [] \<longrightarrow> filter isWrite ops \<noteq> []) \<and>
       (AcceptWebsocket c \<in> set ops \<longrightarrow>
          ops = [AcceptWebsocket c] \<and> reg = None \<and> ch = \<lparr>disconnected = False, writeBuffer = []\<rparr>))"

definition connInv :: "('u, 'w, 'r) serverState \<Rightarrow> bool" where
  "connInv s \<longleftrightarrow> (\<forall>c. viewOk c (viewOf s c))"

text \<open>Programs that change no connection, or one only.\<close>

definition quiet :: "('u, 'w, 'r, 'a) serverProg \<Rightarrow> bool" where
  "quiet m \<longleftrightarrow> (\<forall>s c. viewOf (snd (m s)) c = viewOf s c)"

definition onlyAt :: "Connection \<Rightarrow> ('u, 'w, 'r, 'a) serverProg \<Rightarrow> bool" where
  "onlyAt c m \<longleftrightarrow> (\<forall>s d. d \<noteq> c \<longrightarrow> viewOf (snd (m s)) d = viewOf s d)"

named_theorems quiet_intros "programs that change no connection"

lemma quiet_ok [quiet_intros]: "quiet (ok x)"
  by (simp add: quiet_def run_simps)

lemma quiet_raise [quiet_intros]: "quiet (raise x)"
  by (simp add: quiet_def run_simps)

lemma quiet_getState [quiet_intros]: "quiet getState"
  by (simp add: quiet_def run_simps)

lemma quiet_fromOption [quiet_intros]: "quiet (fromOption x y)"
  by (cases y) (simp_all add: fromOption_simps quiet_intros)

lemma quiet_if [quiet_intros]: "quiet m \<Longrightarrow> quiet n \<Longrightarrow> quiet (if b then m else n)"
  by simp

lemma quiet_andThen [quiet_intros]: "quiet m \<Longrightarrow> (\<And>x. quiet (f x)) \<Longrightarrow> quiet (andThen m f)"
  by (auto simp: quiet_def andThen_def split: prod.splits sum.splits; metis snd_conv)

lemma quiet_modify: "(\<And>s. chans (f s) = chans s \<and> channels (f s) = channels s \<and> pending (f s) = pending s) \<Longrightarrow> quiet (modify f)"
  by (simp add: quiet_def run_simps viewOf_def opsOn_def)

lemma quiet_zoom: "(\<And>x s. chans (p x s) = chans s \<and> channels (p x s) = channels s \<and> pending (p x s) = pending s) \<Longrightarrow>
    quiet (zoom g p m)"
  by (simp add: quiet_def zoom_def viewOf_def opsOn_def split: prod.splits)

lemma quiet_onUser [quiet_intros]: "quiet (onUser m)"
  unfolding onUser_def by (rule quiet_zoom) simp

lemma quiet_onLoop [quiet_intros]: "quiet (onLoop m)"
  unfolding onLoop_def by (rule quiet_zoom) simp

lemma quiet_closeOp [quiet_intros]: "quiet (closeOp x)"
  unfolding closeOp_def by (rule quiet_modify) simp

lemma quiet_startOp [quiet_intros]: "(\<And>c. \<not> aboutOp c op) \<Longrightarrow> quiet (startOp op)"
  by (simp add: quiet_def startOp_def run_simps viewOf_def opsOn_def)

lemma quiet_readWord [quiet_intros]: "quiet readWord"
  unfolding readWord_def by (auto intro!: quiet_intros quiet_modify split: list.split)

lemma quiet_generate [quiet_intros]: "quiet generateUniqueGameInstanceID" "quiet generateUniquePlayerID"
  unfolding generateUniqueGameInstanceID_def generateUniquePlayerID_def by (intro quiet_intros quiet_modify; simp)+

lemma quiet_sendToLoop [quiet_intros]: "quiet (sendToLoop e r)"
  unfolding sendToLoop_def by (intro quiet_intros)

lemma quiet_handlers [quiet_intros]:
  "quiet (handleCreateGame e)" "quiet (handleJoinGame e)" "quiet (handleConfigureGame e)"
  unfolding handleCreateGame_def handleJoinGame_def handleConfigureGame_def activeConnection_def
  by (intro quiet_intros quiet_modify; simp)+

lemma quiet_sendResponse [quiet_intros]: "quiet (sendResponse sess r)"
  unfolding sendResponse_def by (intro quiet_intros) simp

lemma quiet_requestHandlers: "requestHandlers e t = Some h \<Longrightarrow> quiet h"
  by (auto simp: requestHandlers_def quiet_intros split: if_split_asm)

lemma quiet_handleRequest [quiet_intros]: "quiet (handleRequest e sess request)"
  unfolding handleRequest_def Let_def
  by (intro quiet_intros) (auto intro: quiet_intros quiet_requestHandlers split: option.split)

lemma quiet_sessionStart [quiet_intros]: "quiet (sessionStart sess)"
  unfolding sessionStart_def by (intro quiet_intros) simp

lemma quiet_reportError [quiet_intros]: "quiet reportError"
  unfolding reportError_def by (intro quiet_intros)

lemma quiet_listen [quiet_intros]: "quiet listenForConnections"
  unfolding listenForConnections_def by (intro quiet_intros quiet_modify; simp)

lemma quiet_sessions [quiet_intros]: "quiet (afterAcceptSocket sess err)" "quiet (afterResponse e sess err eof)"
  unfolding afterAcceptSocket_def afterResponse_def by (intro quiet_intros)+

lemma connInv_quiet: "quiet m \<Longrightarrow> connInv s \<Longrightarrow> connInv (snd (m s))"
  by (simp add: connInv_def quiet_def)

lemma onlyAt_quiet: "quiet m \<Longrightarrow> onlyAt c m"
  by (simp add: quiet_def onlyAt_def)

lemma onlyAt_andThen: "onlyAt c m \<Longrightarrow> (\<And>x. onlyAt c (f x)) \<Longrightarrow> onlyAt c (andThen m f)"
  by (auto simp: onlyAt_def andThen_def split: prod.splits sum.splits; metis snd_conv)

lemma onlyAt_startOp: "(\<And>d. d \<noteq> c \<Longrightarrow> \<not> aboutOp d op) \<Longrightarrow> onlyAt c (startOp op)"
  by (simp add: onlyAt_def startOp_def run_simps viewOf_def opsOn_def)

lemma onlyAt_setChannel: "onlyAt c (setChannel c ch)"
  by (simp add: onlyAt_def setChannel_def run_simps viewOf_def opsOn_def)

lemma onlyAt_register: "onlyAt c (modify (\<lambda>s. s\<lparr>channels := umapPut c d (channels s)\<rparr>))"
  by (simp add: onlyAt_def run_simps viewOf_def opsOn_def umapPut_def)

lemma onlyAt_unregister: "onlyAt c (modify (\<lambda>s. s\<lparr>channels := umapErase c (channels s)\<rparr>))"
  by (simp add: onlyAt_def run_simps viewOf_def opsOn_def umapErase_def)

lemma filter_remove1_other: "\<not> P x \<Longrightarrow> filter P (remove1 x xs) = filter P xs"
  by (induction xs) auto

lemma onlyAt_complete:
  "(\<And>d. d \<noteq> c \<Longrightarrow> \<not> aboutOp d op) \<Longrightarrow> onlyAt c (modify (\<lambda>s. s\<lparr>pending := remove1 op (pending s)\<rparr>))"
  by (simp add: onlyAt_def run_simps viewOf_def opsOn_def filter_remove1_other)

lemma quiet_complete:
  "(\<And>d. \<not> aboutOp d op) \<Longrightarrow> quiet (modify (\<lambda>s. s\<lparr>pending := remove1 op (pending s)\<rparr>))"
  by (simp add: quiet_def run_simps viewOf_def opsOn_def filter_remove1_other)

lemmas onlyAt_intros = onlyAt_andThen onlyAt_startOp onlyAt_setChannel onlyAt_register onlyAt_unregister onlyAt_complete

lemma quiet_channelAt [quiet_intros]: "quiet (channelAt c)"
  unfolding channelAt_def by (intro quiet_intros)

lemma onlyAt_channelDisconnect: "onlyAt c (channelDisconnect c)"
  unfolding channelDisconnect_def by (intro onlyAt_intros onlyAt_quiet quiet_intros)

lemma onlyAt_channelSend: "onlyAt c (channelSend c t)"
  unfolding channelSend_def
  by (auto intro!: onlyAt_intros onlyAt_quiet [OF quiet_channelAt] onlyAt_quiet [OF quiet_ok])

lemma connInv_onlyAt:
  "onlyAt c m \<Longrightarrow> connInv s \<Longrightarrow> viewOk c (viewOf (snd (m s)) c) \<Longrightarrow> connInv (snd (m s))"
  unfolding connInv_def onlyAt_def by metis

section \<open>Every step keeps the connections well formed\<close>

definition calm :: "('u, 'w, 'r) serverEnv \<Rightarrow> bool" where
  "calm e \<longleftrightarrow> (\<forall>c u. \<exists>u'. onDisconnect e c u = (Inr (), u'))"

text \<open>What must hold of a connection for it to be disconnected: all but that it is writing.\<close>

definition viewPre :: "Connection \<Rightarrow> view \<Rightarrow> bool" where
  "viewPre c v = (case v of
     (None, reg, ops) \<Rightarrow> reg = None \<and> ops = []
   | (Some ch, reg, ops) \<Rightarrow>
       (reg = None \<or> reg = Some c) \<and>
       (filter isWrite ops = [] \<or> (\<exists>t rest. filter isWrite ops = [WriteText c t] \<and> writeBuffer ch = t # rest)) \<and>
       (AcceptWebsocket c \<in> set ops \<longrightarrow>
          ops = [AcceptWebsocket c] \<and> reg = None \<and> ch = \<lparr>disconnected = False, writeBuffer = []\<rparr>))"

lemma viewOk_pre: "viewOk c v \<Longrightarrow> viewPre c v"
  by (cases v) (auto simp: viewOk_def viewPre_def split: option.splits)

lemma disconnect_run:
  assumes "calm e" "channels s c = Some c" "chans s c = Some ch"
  shows "\<exists>t. serverDisconnect e c s = (Inr (), t) \<and> chans t = (chans s)(c \<mapsto> ch\<lparr>disconnected := True\<rparr>) \<and>
    channels t = (channels s)(c := None) \<and> pending t = pending s \<and> PlayerId t = PlayerId s \<and>
    GameInstanceId t = GameInstanceId s \<and> socketToPlayerID t = (socketToPlayerID s)(c := None) \<and>
    socketToGameInstanceID t = (socketToGameInstanceID s)(c := None)"
proof -
  obtain u' where "onDisconnect e c (user s) = (Inr (), u')" using assms(1) unfolding calm_def by blast
  with assms(2,3) show ?thesis
    by (simp add: serverDisconnect_def onUser_def zoom_def channelDisconnect_def channelAt_def setChannel_def closeOp_def
        umapErase_def run_simps andThen_def)
qed

lemma disconnect_view:
  assumes "calm e" "viewPre c (viewOf s c)" "channels s c = None \<Longrightarrow> viewOk c (viewOf s c)"
  shows "viewOk c (viewOf (snd (serverDisconnect e c s)) c)"
proof (cases "channels s c")
  case None
  then show ?thesis using assms(3) by (simp add: serverDisconnect_def run_simps andThen_def)
next
  case (Some d)
  with assms(2) obtain ch where ch: "chans s c = Some ch" "d = c"
    by (auto simp: viewPre_def viewOf_def split: option.splits)
  with disconnect_run [OF assms(1), of s c ch] Some assms(2) show ?thesis
    by (auto simp: viewPre_def viewOk_def viewOf_def opsOn_def)
qed

lemma onlyAt_disconnect:
  fixes s :: "('u, 'w, 'r) serverState"
  assumes "channels s c = None \<or> channels s c = Some c" "d \<noteq> c"
  shows "viewOf (snd (serverDisconnect e c s)) d = viewOf s d"
proof -
  have "onlyAt c (andThen (onUser (onDisconnect e c) :: ('u, 'w, 'r, unit) serverProg) (\<lambda>_.
         andThen (modify (\<lambda>s. s\<lparr>socketToGameInstanceID := umapErase c (socketToGameInstanceID s)\<rparr>)) (\<lambda>_.
         andThen (modify (\<lambda>s. s\<lparr>socketToPlayerID := umapErase c (socketToPlayerID s)\<rparr>)) (\<lambda>_.
         andThen (channelDisconnect c) (\<lambda>_.
           modify (\<lambda>s. s\<lparr>channels := umapErase c (channels s)\<rparr>))))))"
    by (intro onlyAt_intros onlyAt_quiet [OF quiet_onUser] onlyAt_quiet [OF quiet_modify] onlyAt_channelDisconnect) simp_all
  with assms show ?thesis
    unfolding onlyAt_def
    by (cases "channels s c") (simp_all add: serverDisconnect_def run_simps)
qed

lemma connInv_disconnect:
  assumes "calm e" "\<forall>d. d \<noteq> c \<longrightarrow> viewOk d (viewOf s d)" "viewPre c (viewOf s c)"
    and "channels s c = None \<Longrightarrow> viewOk c (viewOf s c)"
  shows "connInv (snd (serverDisconnect e c s))"
proof -
  have "channels s c = None \<or> channels s c = Some c"
    using assms(3) by (auto simp: viewPre_def viewOf_def split: option.splits)
  then show ?thesis
    unfolding connInv_def using disconnect_view [OF assms(1,3,4)] onlyAt_disconnect [of s c _ e] assms(2) by metis
qed

text \<open>After the network has completed an operation on \<open>c\<close>.\<close>

abbreviation completed :: "netOp \<Rightarrow> ('u, 'w, 'r) serverState \<Rightarrow> ('u, 'w, 'r) serverState" where
  "completed op s \<equiv> s\<lparr>pending := remove1 op (pending s)\<rparr>"

lemma deliver_run: "serverDeliver e ev s = handler e ev (completed (opOf ev) s)"
  by (simp add: serverDeliver_def run_simps)

lemma completed_view:
  "viewOf (completed op s) d = (chans s d, channels s d, if aboutOp d op then remove1 op (opsOn d s) else opsOn d s)"
  by (auto simp: viewOf_def opsOn_def filter_remove1_other filter_remove1)

lemma completed_others: "connInv s \<Longrightarrow> \<not> aboutOp d op \<Longrightarrow> viewOk d (viewOf (completed op s) d)"
  by (simp only: completed_view) (simp add: connInv_def viewOf_def)

lemma connInvD: "connInv s \<Longrightarrow> viewOk c (viewOf s c)"
  by (simp add: connInv_def)

lemma opsOn_mem: "op \<in> set (pending s) \<Longrightarrow> aboutOp c op \<Longrightarrow> op \<in> set (opsOn c s)"
  by (simp add: opsOn_def)

lemma viewOk_op:
  assumes "viewOk c (viewOf s c)" "op \<in> set (opsOn c s)"
  obtains ch where "chans s c = Some ch" "channels s c = None \<or> channels s c = Some c \<and> \<not> disconnected ch"
    "AcceptWebsocket c \<in> set (opsOn c s) \<longrightarrow> opsOn c s = [AcceptWebsocket c]"
  using assms by (auto simp: viewOk_def viewOf_def split: option.splits)

lemma viewOk_write:
  assumes "viewOk c (viewOf s c)" "WriteText c x \<in> set (opsOn c s)" "chans s c = Some ch"
  obtains rest where "filter isWrite (opsOn c s) = [WriteText c x]" "writeBuffer ch = x # rest"
proof -
  have "WriteText c x \<in> set (filter isWrite (opsOn c s))" using assms(2) by simp
  moreover have "filter isWrite (opsOn c s) = [] \<or>
      (\<exists>t rest. filter isWrite (opsOn c s) = [WriteText c t] \<and> writeBuffer ch = t # rest)"
    using assms(1,3) by (simp add: viewOk_def viewOf_def)
  ultimately show thesis using that by (elim disjE exE conjE) (simp_all del: set_filter)
qed

lemma connInv_registered:
  assumes "connInv s" "AcceptWebsocket c \<in> set (pending s)" "calm e"
  shows "connInv (snd (afterAccept e c err (completed (AcceptWebsocket c) s)))"
proof -
  define s1 where "s1 = completed (AcceptWebsocket c) s"
  have "AcceptWebsocket c \<in> set (opsOn c s)" using assms(2) by (simp add: opsOn_mem)
  with connInvD [OF assms(1), of c]
  have v: "viewOf s1 c = (Some \<lparr>disconnected = False, writeBuffer = []\<rparr>, None, [])"
    unfolding s1_def completed_view by (auto simp: viewOk_def viewOf_def split: option.splits)
  have others: "\<forall>d. d \<noteq> c \<longrightarrow> viewOk d (viewOf s1 d)"
    unfolding s1_def using completed_others [OF assms(1)] by simp
  have "viewOk c (viewOf s1 c)" unfolding v by (simp add: viewOk_def)
  with others have inv: "connInv s1" unfolding connInv_def by metis
  show ?thesis
  proof (cases err)
    case True
    with v inv show ?thesis
      by (simp add: afterAccept_def serverDisconnect_def viewOf_def run_simps flip: s1_def)
  next
    case False
    have only: "onlyAt c (andThen (registerChannel e c) (\<lambda>_. readMessage c) :: ('a, 'b, 'c, unit) serverProg)"
      unfolding registerChannel_def readMessage_def
      by (intro onlyAt_intros onlyAt_quiet [OF quiet_onUser] onlyAt_quiet [OF quiet_modify]) simp_all
    have "viewOk c (viewOf (snd (andThen (registerChannel e c) (\<lambda>_. readMessage c) s1)) c)"
      using v
      by (auto simp: registerChannel_def readMessage_def onUser_def zoom_def startOp_def umapPut_def run_simps andThen_def
          viewOk_def viewOf_def opsOn_def split: prod.split sum.split)
    then show ?thesis
      using False connInv_onlyAt [OF only inv] by (simp add: afterAccept_def flip: s1_def)
  qed
qed

lemma connInv_written:
  assumes "connInv s" "WriteText c x \<in> set (pending s)" "calm e"
  shows "connInv (snd (afterWrite e c err (completed (WriteText c x) s)))"
proof -
  define s1 where "s1 = completed (WriteText c x) s"
  have op: "WriteText c x \<in> set (opsOn c s)" using assms(2) by (simp add: opsOn_mem)
  from connInvD [OF assms(1)] op obtain ch where c1: "chans s c = Some ch"
      "channels s c = None \<or> channels s c = Some c \<and> \<not> disconnected ch"
      "AcceptWebsocket c \<in> set (opsOn c s) \<longrightarrow> opsOn c s = [AcceptWebsocket c]"
    by (rule viewOk_op)
  from connInvD [OF assms(1)] op c1(1) obtain rest where c2: "filter isWrite (opsOn c s) = [WriteText c x]"
      "writeBuffer ch = x # rest"
    by (rule viewOk_write)
  have c3: "AcceptWebsocket c \<notin> set (opsOn c s)" using c1(3) op by auto
  note ch = c1(1) c2 c1(2) c3
  have acc: "AcceptWebsocket c \<notin> set (remove1 (WriteText c x) (opsOn c s))"
    using ch(5) by (meson in_mono set_remove1_subset)
  have v: "viewOf s1 c = (Some ch, channels s c, remove1 (WriteText c x) (opsOn c s))"
    using ch(1) unfolding s1_def completed_view by simp
  have w: "filter isWrite (remove1 (WriteText c x) (opsOn c s)) = []"
    using ch(2) by (simp add: filter_remove1)
  have others: "\<forall>d. d \<noteq> c \<longrightarrow> viewOk d (viewOf s1 d)"
    unfolding s1_def using completed_others [OF assms(1)] by simp
  have pre: "viewPre c (viewOf s1 c)" "channels s1 c = None \<Longrightarrow> viewOk c (viewOf s1 c)"
    using v w acc ch(4) by (auto simp: viewPre_def viewOk_def viewOf_def s1_def)
  have chan: "channelAt c s1 = (Inr ch, s1)"
    using ch(1) by (simp add: channelAt_def s1_def run_simps)
  show ?thesis
  proof (cases err)
    case True
    have "viewOk c (viewOf s1 c)" if "disconnected ch"
      using that ch(4) by (intro pre(2)) (auto simp: s1_def)
    then have "connInv s1" if "disconnected ch"
      using that others unfolding connInv_def by metis
    with True chan connInv_disconnect [OF assms(3) others pre] show ?thesis
      by (simp add: afterWrite_def run_simps flip: s1_def)
  next
    case False
    define s2 where "s2 = snd (afterWrite e c False s1)"
    have s2: "s2 = s1\<lparr>chans := (chans s1)(c \<mapsto> ch\<lparr>writeBuffer := rest\<rparr>),
        pending := pending s1 @ (case rest of [] \<Rightarrow> [] | t # _ \<Rightarrow> [WriteText c t])\<rparr>"
      using chan ch(3) unfolding s2_def
      by (cases rest) (simp_all add: afterWrite_def setChannel_def startOp_def run_simps)
    have "viewOf s2 d = viewOf s1 d" if "d \<noteq> c" for d
      using that unfolding s2 by (simp add: viewOf_def opsOn_def split: list.split)
    moreover have "viewOk c (viewOf s2 c)"
      using v w acc ch(4) unfolding s2
      by (auto simp: viewOk_def viewOf_def opsOn_def split: list.split)
    ultimately have "connInv s2" using others unfolding connInv_def by metis
    then show ?thesis using False by (simp add: s2_def flip: s1_def)
  qed
qed

lemma connInv_read:
  assumes "connInv s" "ReadText c \<in> set (pending s)" "calm e"
  shows "connInv (snd (afterRead e c res (completed (ReadText c) s)))"
proof -
  define s1 where "s1 = completed (ReadText c) s"
  have op: "ReadText c \<in> set (opsOn c s)" using assms(2) by (simp add: opsOn_mem)
  from connInvD [OF assms(1)] op obtain ch where ch: "chans s c = Some ch"
      "channels s c = None \<or> channels s c = Some c \<and> \<not> disconnected ch"
      "AcceptWebsocket c \<in> set (opsOn c s) \<longrightarrow> opsOn c s = [AcceptWebsocket c]"
    by (rule viewOk_op)
  have acc: "AcceptWebsocket c \<notin> set (remove1 (ReadText c) (opsOn c s))"
    using ch(3) op by (metis empty_iff list.set(1) netOp.distinct set_ConsD in_mono set_remove1_subset)
  have v: "viewOf s1 c = (Some ch, channels s c, remove1 (ReadText c) (opsOn c s))"
    using ch(1) unfolding s1_def completed_view by simp
  have w: "filter isWrite (remove1 (ReadText c) (opsOn c s)) = filter isWrite (opsOn c s)"
    by (rule filter_remove1_other) simp
  have ok: "viewOk c (viewOf s1 c)"
    using connInvD [OF assms(1), of c] ch(1,2) acc w unfolding v by (simp add: viewOk_def viewOf_def)
  have others: "\<forall>d. d \<noteq> c \<longrightarrow> viewOk d (viewOf s1 d)"
    unfolding s1_def using completed_others [OF assms(1)] by simp
  have chan: "channelAt c s1 = (Inr ch, s1)"
    using ch(1) by (simp add: channelAt_def s1_def run_simps)
  have inv: "connInv s1" using others ok unfolding connInv_def by metis
  show ?thesis
  proof (cases res)
    case None
    with inv chan connInv_disconnect [OF assms(3) others viewOk_pre [OF ok] ok] show ?thesis
      by (simp add: afterRead_def run_simps flip: s1_def)
  next
    case (Some x)
    define s2 where "s2 = snd (afterRead e c res s1)"
    have s2: "s2 = s1\<lparr>incoming := incoming s1 @ [\<lparr>connection = c, msgText = x\<rparr>], pending := pending s1 @ [ReadText c]\<rparr>"
      using chan unfolding s2_def Some by (simp add: afterRead_def readMessage_def startOp_def run_simps)
    have "viewOf s2 d = viewOf s1 d" if "d \<noteq> c" for d
      using that unfolding s2 by (simp add: viewOf_def opsOn_def)
    moreover have "viewOf s2 c = (Some ch, channels s c, remove1 (ReadText c) (opsOn c s) @ [ReadText c])"
      using v unfolding s2 by (simp add: viewOf_def opsOn_def)
    then have "viewOk c (viewOf s2 c)"
      using ok acc unfolding v by (simp add: viewOk_def)
    ultimately have "connInv s2" using others unfolding connInv_def by metis
    then show ?thesis by (simp add: s2_def flip: s1_def)
  qed
qed

lemma connInv_request:
  assumes "connInv s" "freeAddress c s"
  shows "connInv (snd (afterRequest e sess res c (completed (ReadRequest sess) s)))"
proof -
  define s1 where "s1 = completed (ReadRequest sess) s"
  have same: "viewOf s1 d = viewOf s d" for d
    unfolding s1_def completed_view by (simp add: viewOf_def)
  then have inv: "connInv s1" using assms(1) by (simp add: connInv_def)
  show ?thesis
  proof (cases "\<exists>request. res = Some request \<and> isUpgrade request")
    case False
    then have "quiet (afterRequest e sess res c)"
      by (auto simp: afterRequest_def intro: quiet_intros split: option.split)
    from connInv_quiet [OF this inv] show ?thesis by (simp add: s1_def)
  next
    case True
    then obtain request where r: "res = Some request" "isUpgrade request" by blast
    have only: "onlyAt c (andThen (newChannel c) (\<lambda>_. channelStart c) :: ('a, 'b, 'c, unit) serverProg)"
      unfolding newChannel_def channelStart_def by (intro onlyAt_intros) simp
    have "viewOf (snd (andThen (newChannel c) (\<lambda>_. channelStart c) s1)) c =
        (Some \<lparr>disconnected = False, writeBuffer = []\<rparr>, None, [AcceptWebsocket c])"
      using assms(2) same [of c]
      by (simp add: newChannel_def channelStart_def setChannel_def startOp_def run_simps viewOf_def opsOn_def freeAddress_def)
    then have "viewOk c (viewOf (snd (andThen (newChannel c) (\<lambda>_. channelStart c) s1)) c)"
      by (simp add: viewOk_def)
    from connInv_onlyAt [OF only inv this] show ?thesis by (simp add: afterRequest_def r flip: s1_def)
  qed
qed

lemma connInv_deliver:
  assumes "connInv s" "opOf ev \<in> set (pending s)" "possible ev s" "calm e"
  shows "connInv (snd (serverDeliver e ev s))"
proof -
  have session: "connInv (snd (m (completed op s)))" if "\<And>d. \<not> aboutOp d op" "quiet m" for op and m :: "('a, 'b, 'c, unit) serverProg"
  proof -
    have "connInv (completed op s)" using completed_others [OF assms(1), of _ op] that(1) by (simp add: connInv_def)
    with that(2) show ?thesis by (rule connInv_quiet)
  qed
  from assms show ?thesis
    by (cases ev) (auto simp: deliver_run intro: session quiet_intros connInv_registered connInv_written connInv_read connInv_request)
qed

lemma connInv_channelSend:
  assumes "connInv s" "channels s c = Some c"
  shows "connInv (snd (channelSend c x s))"
proof -
  obtain ch where ch: "chans s c = Some ch" "\<not> disconnected ch"
      "writeBuffer ch \<noteq> [] \<longrightarrow> filter isWrite (opsOn c s) \<noteq> []" "AcceptWebsocket c \<notin> set (opsOn c s)"
      "filter isWrite (opsOn c s) = [] \<or> (\<exists>t rest. filter isWrite (opsOn c s) = [WriteText c t] \<and> writeBuffer ch = t # rest)"
    using connInvD [OF assms(1), of c] assms(2) by (auto simp: viewOk_def viewOf_def split: option.splits)
  have "viewOk c (viewOf (snd (channelSend c x s)) c)"
  proof (cases "x = []")
    case True
    then show ?thesis using connInvD [OF assms(1)] by (simp add: channelSend_def run_simps)
  next
    case False
    show ?thesis
    proof (cases "writeBuffer ch")
      case Nil
      with ch(5) have "filter isWrite (opsOn c s) = []" by auto
      with Nil False ch(1,2,4) assms(2) show ?thesis
        by (simp add: channelSend_def channelAt_def setChannel_def startOp_def run_simps viewOk_def viewOf_def opsOn_def)
    next
      case (Cons t rest)
      with ch(3,5) have "filter isWrite (opsOn c s) = [WriteText c t]" by auto
      with Cons False ch(1,2,4) assms(2) show ?thesis
        by (simp add: channelSend_def channelAt_def setChannel_def run_simps viewOk_def viewOf_def opsOn_def)
    qed
  qed
  then show ?thesis using connInv_onlyAt [OF onlyAt_channelSend assms(1)] by blast
qed

lemma keeps_serverSend: "keeps connInv (serverSend ms)"
proof -
  have "connInv (snd ((case channels s c of None \<Rightarrow> ok () | Some found \<Rightarrow> channelSend found x) s))"
    if "connInv s" for c x and s :: "('u, 'w, 'r) serverState"
  proof (cases "channels s c")
    case None
    with that show ?thesis by (simp add: run_simps)
  next
    case (Some d)
    with connInvD [OF that, of c] have "d = c" by (auto simp: viewOk_def viewOf_def split: option.splits)
    with Some connInv_channelSend [OF that] show ?thesis by simp
  qed
  then show ?thesis
    unfolding serverSend_def by (intro keeps_forEach) (auto simp: keeps_def run_simps)
qed

section \<open>Identifiers are unique\<close>

definition idsOk :: "int \<Rightarrow> (Connection, int) umap \<Rightarrow> bool" where
  "idsOk next m \<longleftrightarrow> 1 \<le> next \<and> (\<forall>c i. m c = Some i \<longrightarrow> 1 \<le> i \<and> i < next) \<and>
     (\<forall>c d i. m c = Some i \<and> m d = Some i \<longrightarrow> c = d)"

definition idInv :: "('u, 'w, 'r) serverState \<Rightarrow> bool" where
  "idInv s \<longleftrightarrow> idsOk (PlayerId s) (socketToPlayerID s) \<and> idsOk (GameInstanceId s) (socketToGameInstanceID s)"

lemma idsOk_put: "idsOk n m \<Longrightarrow> idsOk (n + 1) (umapPut c n m)"
  unfolding idsOk_def umapPut_def by (fastforce split: if_split_asm)

lemma idsOk_erase: "idsOk n m \<Longrightarrow> idsOk n (umapErase c m)"
  unfolding idsOk_def umapErase_def by (auto split: if_split_asm)

lemma idsOk_Suc: "idsOk n m \<Longrightarrow> idsOk (n + 1) m"
  unfolding idsOk_def by fastforce

lemma keepsId_modify:
  "(\<And>s. PlayerId (f s) = PlayerId s \<and> GameInstanceId (f s) = GameInstanceId s \<and>
     socketToPlayerID (f s) = socketToPlayerID s \<and> socketToGameInstanceID (f s) = socketToGameInstanceID s) \<Longrightarrow>
   keeps idInv (modify f)"
  by (simp add: keeps_def run_simps idInv_def)

lemma keepsId_erase:
  "keeps idInv (modify (\<lambda>s. s\<lparr>socketToGameInstanceID := umapErase c (socketToGameInstanceID s)\<rparr>))"
  "keeps idInv (modify (\<lambda>s. s\<lparr>socketToPlayerID := umapErase c (socketToPlayerID s)\<rparr>))"
  by (simp_all add: keeps_def run_simps idInv_def idsOk_erase)

lemma keepsId_zoom: "keeps idInv (onUser m)" "keeps idInv (onLoop l)"
  by (simp_all add: keeps_def onUser_def onLoop_def zoom_def idInv_def split: prod.split)

lemma keepsId_ops:
  "keeps idInv (startOp op)" "keeps idInv (closeOp x)" "keeps idInv (setChannel c ch)" "keeps idInv readWord"
  "keeps idInv (channelAt c)" "keeps idInv (sendToLoop e r)"
  unfolding startOp_def closeOp_def setChannel_def readWord_def channelAt_def sendToLoop_def
  by (intro keeps_intros keepsId_modify keepsId_zoom; auto intro!: keeps_intros keepsId_modify split: list.split)+

lemma keepsId_create: "keeps idInv (handleCreateGame e)"
proof -
  have "keeps idInv (andThen generateUniqueGameInstanceID (\<lambda>i. andThen activeConnection (\<lambda>c.
     andThen (modify (\<lambda>s. s\<lparr>socketToGameInstanceID := umapPut c i (socketToGameInstanceID s)\<rparr>)) (\<lambda>_. sendToLoop e (r i)))))"
    (is "keeps idInv ?m") for r
    unfolding keeps_def
  proof (intro allI impI)
    fix s :: "('a, 'b, 'c) serverState" assume s: "idInv s"
    show "idInv (snd (?m s))"
    proof (cases "isInt (GameInstanceId s + 1) \<and> activeChannel s \<noteq> None")
      case True
      then obtain c where c: "activeChannel s = Some c" by blast
      have "idInv (s\<lparr>GameInstanceId := GameInstanceId s + 1,
          socketToGameInstanceID := umapPut c (GameInstanceId s) (socketToGameInstanceID s)\<rparr>)"
        using s by (simp add: idInv_def idsOk_put)
      with keepsId_ops(6) [of e "r (GameInstanceId s)"] True c show ?thesis
        by (simp add: generateUniqueGameInstanceID_def activeConnection_def run_simps keeps_def)
    next
      case False
      with s show ?thesis
        by (auto simp: generateUniqueGameInstanceID_def activeConnection_def run_simps andThen_def fromOption_simps
            idInv_def idsOk_Suc)
    qed
  qed
  note rest = this
  show ?thesis unfolding handleCreateGame_def by (rule keeps_andThen [OF keepsId_ops(4)], rule rest)
qed

lemma keepsId_join: "keeps idInv (handleJoinGame e)"
proof -
  have "keeps idInv (andThen generateUniquePlayerID (\<lambda>i. andThen activeConnection (\<lambda>c.
     andThen (modify (\<lambda>s. s\<lparr>socketToPlayerID := umapPut c i (socketToPlayerID s)\<rparr>)) (\<lambda>_. sendToLoop e (r i)))))"
    (is "keeps idInv ?m") for r
    unfolding keeps_def
  proof (intro allI impI)
    fix s :: "('a, 'b, 'c) serverState" assume s: "idInv s"
    show "idInv (snd (?m s))"
    proof (cases "isInt (PlayerId s + 1) \<and> activeChannel s \<noteq> None")
      case True
      then obtain c where c: "activeChannel s = Some c" by blast
      have "idInv (s\<lparr>PlayerId := PlayerId s + 1, socketToPlayerID := umapPut c (PlayerId s) (socketToPlayerID s)\<rparr>)"
        using s by (simp add: idInv_def idsOk_put)
      with keepsId_ops(6) [of e "r (PlayerId s)"] True c show ?thesis
        by (simp add: generateUniquePlayerID_def activeConnection_def run_simps keeps_def)
    next
      case False
      with s show ?thesis
        by (auto simp: generateUniquePlayerID_def activeConnection_def run_simps andThen_def fromOption_simps
            idInv_def idsOk_Suc)
    qed
  qed
  note rest = this
  show ?thesis unfolding handleJoinGame_def by (rule keeps_andThen [OF keepsId_ops(4)], rule rest)
qed

lemma keepsId_configure: "keeps idInv (handleConfigureGame e)"
  unfolding handleConfigureGame_def by (intro keeps_andThen keepsId_ops)

lemma keepsId_requestHandlers: "requestHandlers e t = Some h \<Longrightarrow> keeps idInv h"
  by (auto simp: requestHandlers_def keepsId_create keepsId_join keepsId_configure split: if_split_asm)

lemma keepsId_handleRequest: "keeps idInv (handleRequest e sess request)"
proof (cases "requestHandlers e (target request)")
  case None
  then show ?thesis
    unfolding handleRequest_def sendResponse_def Let_def by (auto intro!: keeps_intros keepsId_ops)
next
  case (Some h)
  then show ?thesis
    using keepsId_requestHandlers [OF Some]
    unfolding handleRequest_def sendResponse_def Let_def by (auto intro!: keeps_intros keepsId_ops)
qed

lemma keepsId_disconnect: "keeps idInv (serverDisconnect e c)"
  unfolding serverDisconnect_def channelDisconnect_def
  by (auto intro!: keeps_intros keepsId_ops keepsId_zoom keepsId_erase keepsId_modify split: option.split)

lemma keepsId_listen: "keeps idInv listenForConnections"
  unfolding listenForConnections_def by (auto intro!: keeps_intros keepsId_ops keepsId_modify)

lemma keepsId_handler: "keeps idInv (handler e ev)"
proof (cases ev)
  case (SocketAccepted sess err)
  then show ?thesis
    by (auto simp: afterAcceptSocket_def sessionStart_def reportError_def listenForConnections_def
        intro!: keeps_intros keepsId_ops keepsId_modify)
next
  case (RequestRead sess res c)
  then show ?thesis
    by (auto simp: afterRequest_def reportError_def newChannel_def channelStart_def
        intro!: keeps_intros keepsId_ops keepsId_handleRequest split: option.split)
next
  case (ResponseWritten sess r err eof)
  then show ?thesis
    by (auto simp: afterResponse_def reportError_def sessionStart_def intro!: keeps_intros keepsId_ops)
next
  case (WebsocketAccepted c err)
  then show ?thesis
    by (auto simp: afterAccept_def registerChannel_def readMessage_def
        intro!: keeps_intros keepsId_ops keepsId_zoom keepsId_modify keepsId_disconnect)
next
  case (TextWritten c t err)
  then show ?thesis
    by (auto simp: afterWrite_def intro!: keeps_intros keepsId_ops keepsId_disconnect split: list.split)
next
  case (TextRead c res)
  then show ?thesis
    by (auto simp: afterRead_def readMessage_def intro!: keeps_intros keepsId_ops keepsId_disconnect keepsId_modify split: option.split)
qed

lemma keepsId_deliver: "keeps idInv (serverDeliver e ev)"
  unfolding serverDeliver_def by (intro keeps_andThen keepsId_handler keepsId_modify) simp

lemma keepsId_send: "keeps idInv (serverSend ms)"
  unfolding serverSend_def channelSend_def
  by (intro keeps_forEach) (auto intro!: keeps_intros keepsId_ops split: option.split)

section \<open>Properties\<close>

lemma serverReach_inv:
  assumes "calm e" "serverReach e s"
  shows "connInv s \<and> idInv s"
  using assms(2)
proof (induction rule: serverReach.induct)
  case (reach_start msg u l ws)
  have "connInv (newServerState msg u l ws)"
    by (simp add: connInv_def viewOk_def viewOf_def opsOn_def newServerState_def)
  moreover have "idInv (newServerState msg u l ws)"
    by (simp add: idInv_def idsOk_def newServerState_def)
  ultimately show ?case
    unfolding buildImpl_def
    by (intro conjI connInv_quiet [OF quiet_listen] keepsId_listen [unfolded keeps_def, rule_format])
next
  case (reach_network s ev r t)
  then show ?case
    using connInv_deliver [of s ev e] keepsId_deliver [of e ev] assms(1) by (auto simp: keeps_def)
next
  case (reach_send s ms r t)
  then show ?case using keepsD [OF keeps_serverSend] keepsD [OF keepsId_send] by metis
next
  case (reach_receive s r t)
  then show ?case
    by (auto simp: serverReceive_def run_simps connInv_def idInv_def viewOf_def opsOn_def)
next
  case (reach_disconnect s c r t)
  have "connInv (snd (serverDisconnect e c s))"
    using reach_disconnect.IH connInvD viewOk_pre by (intro connInv_disconnect [OF assms(1)]) blast+
  with reach_disconnect show ?case using keepsD [OF keepsId_disconnect] by (metis snd_conv)
qed

text \<open>
  C5: In every state the server can reach, whatever the network completes in whatever order: a registered
  connection belongs to a live channel, and one with texts to send is writing the first of them; at most one
  write is outstanding on a channel and it is the front of its buffer, so the handler that pops the buffer
  finds the text it wrote; and no two connections share a player id or a game id.
\<close>

theorem connections_and_ids_consistent:
  assumes "calm e" "serverReach e s"
  shows "(\<forall>c d. channels s c = Some d \<longrightarrow> d = c \<and> (\<exists>ch. chans s c = Some ch \<and> \<not> disconnected ch \<and>
      (writeBuffer ch \<noteq> [] \<longrightarrow> filter isWrite (opsOn c s) = [WriteText c (hd (writeBuffer ch))]))) \<and>
    (\<forall>c x. WriteText c x \<in> set (pending s) \<longrightarrow> filter isWrite (opsOn c s) = [WriteText c x] \<and>
      (\<exists>ch rest. chans s c = Some ch \<and> writeBuffer ch = x # rest)) \<and>
    (\<forall>c d i. socketToPlayerID s c = Some i \<and> socketToPlayerID s d = Some i \<longrightarrow> c = d) \<and>
    (\<forall>c d i. socketToGameInstanceID s c = Some i \<and> socketToGameInstanceID s d = Some i \<longrightarrow> c = d)"
proof -
  have conn: "connInv s" and ids: "idInv s" using serverReach_inv [OF assms] by simp_all
  have "d = c \<and> (\<exists>ch. chans s c = Some ch \<and> \<not> disconnected ch \<and>
      (writeBuffer ch \<noteq> [] \<longrightarrow> filter isWrite (opsOn c s) = [WriteText c (hd (writeBuffer ch))]))"
    if "channels s c = Some d" for c d
    using connInvD [OF conn, of c] that by (auto simp: viewOk_def viewOf_def split: option.splits)
  moreover have "filter isWrite (opsOn c s) = [WriteText c x] \<and> (\<exists>ch rest. chans s c = Some ch \<and> writeBuffer ch = x # rest)"
    if "WriteText c x \<in> set (pending s)" for c x
  proof -
    have op: "WriteText c x \<in> set (opsOn c s)" using that by (simp add: opsOn_mem)
    from connInvD [OF conn] op obtain ch where ch: "chans s c = Some ch" by (rule viewOk_op)
    from connInvD [OF conn] op ch obtain rest where "filter isWrite (opsOn c s) = [WriteText c x]" "writeBuffer ch = x # rest"
      by (rule viewOk_write)
    with ch show ?thesis by blast
  qed
  ultimately show ?thesis using ids unfolding idInv_def idsOk_def by blast
qed

text \<open>A run: a client connects over a web socket, two texts are sent to it.\<close>

definition quietEnv :: "(unit, string list, string list) serverEnv" where
  "quietEnv = \<lparr>onConnect = (\<lambda>c. ok ()), onDisconnect = (\<lambda>c. ok ()),
     loopAmbassador = \<lparr>writeQ = \<lparr>readText = ok '''', writeText = (\<lambda>x. ok 0)\<rparr>, readQ = \<lparr>readText = ok '''', writeText = (\<lambda>x. ok 0)\<rparr>\<rparr>,
     textForm = \<lparr>parseJson = (\<lambda>x. Inl (RuntimeError x)), dumpJson = (\<lambda>r. Inr '''')\<rparr>, shutdownFails = (\<lambda>sess. False)\<rparr>"

definition upgradeRequest :: httpRequest where
  "upgradeRequest = \<lparr>reqMethod = GET, target = ''/'', keepAlive = True, isUpgrade = True\<rparr>"

definition serverStart :: "(unit, string list, string list) serverState" where
  "serverStart = buildImpl ''page'' () \<lparr>outQ = [], inQ = [], readContentQ = []\<rparr> []"

lemmas server_runs = serverDeliver_def afterAcceptSocket_def sessionStart_def listenForConnections_def startOp_def
  afterRequest_def newChannel_def setChannel_def channelStart_def afterAccept_def registerChannel_def onUser_def zoom_def
  readMessage_def umapPut_def serverSend_def channelSend_def channelAt_def

definition serverConnected :: "(unit, string list, string list) serverState" where
  "serverConnected = serverStart\<lparr>chans := [7 \<mapsto> \<lparr>disconnected = False, writeBuffer = []\<rparr>], channels := [7 \<mapsto> 7],
     activeChannel := Some 7, nextSession := 2, pending := [AcceptSocket 1, ReadText 7]\<rparr>"

lemma serverConnected_reach: "serverReach quietEnv serverConnected"
proof -
  define s1 where "s1 = serverStart\<lparr>nextSession := 2, pending := [ReadRequest 0, AcceptSocket 1]\<rparr>"
  define s2 where "s2 = s1\<lparr>chans := [7 \<mapsto> \<lparr>disconnected = False, writeBuffer = []\<rparr>],
     pending := [AcceptSocket 1, AcceptWebsocket 7]\<rparr>"
  have s0: "serverReach quietEnv serverStart" unfolding serverStart_def by (rule reach_start)
  have start: "nextSession serverStart = 1" "pending serverStart = [AcceptSocket 0]" "chans serverStart = Map.empty"
    "channels serverStart = Map.empty" "activeChannel serverStart = None"
    by (simp_all add: serverStart_def buildImpl_def newServerState_def listenForConnections_def startOp_def run_simps)
  have r1: "serverDeliver quietEnv (SocketAccepted 0 False) serverStart = (Inr (), s1)"
    by (simp add: server_runs run_simps start s1_def)
  have s1: "serverReach quietEnv s1" by (rule reach_network [OF s0 _ _ r1]) (simp_all add: start)
  have r2: "serverDeliver quietEnv (RequestRead 0 (Some upgradeRequest) 7) s1 = (Inr (), s2)"
    by (simp add: server_runs run_simps start s1_def s2_def upgradeRequest_def)
  have s2: "serverReach quietEnv s2"
    by (rule reach_network [OF s1 _ _ r2]) (simp_all add: s1_def freeAddress_def opsOn_def start)
  have r3: "serverDeliver quietEnv (WebsocketAccepted 7 False) s2 = (Inr (), serverConnected)"
    by (simp add: server_runs run_simps start s1_def s2_def serverConnected_def quietEnv_def)
  show ?thesis by (rule reach_network [OF s2 _ _ r3]) (simp_all add: s1_def s2_def)
qed

definition serverWriting :: "(unit, string list, string list) serverState" where
  "serverWriting = serverConnected\<lparr>chans := [7 \<mapsto> \<lparr>disconnected = False, writeBuffer = [''a'', ''b'']\<rparr>],
     pending := [AcceptSocket 1, ReadText 7, WriteText 7 ''a'']\<rparr>"

lemma serverWriting_reach: "serverReach quietEnv serverWriting"
proof (rule reach_send [OF serverConnected_reach])
  show "serverSend [\<lparr>connection = 7, msgText = ''a''\<rparr>, \<lparr>connection = 7, msgText = ''b''\<rparr>] serverConnected =
      (Inr (), serverWriting)"
    by (simp add: server_runs run_simps serverConnected_def serverWriting_def)
qed

theorem connections_and_ids_consistent_witness:
  "channels serverWriting 7 = Some 7 \<and>
   filter isWrite (opsOn 7 serverWriting) = [WriteText 7 ''a''] \<and>
   (\<exists>ch rest. chans serverWriting 7 = Some ch \<and> writeBuffer ch = ''a'' # rest)"
proof -
  have calm: "calm quietEnv" by (simp add: calm_def quietEnv_def run_simps)
  have "WriteText 7 ''a'' \<in> set (pending serverWriting)" "channels serverWriting 7 = Some 7"
    by (simp_all add: serverWriting_def serverConnected_def)
  then show ?thesis using connections_and_ids_consistent [OF calm serverWriting_reach] by blast
qed

lemma suffix_served: "shouldServeIndex (p @ ''/index.html'')"
  by (simp add: shouldServeIndex_def)

lemma suffix_no_handler: "requestHandlers e (p @ ''/index.html'') = None"
proof -
  have "p @ ''/index.html'' \<noteq> x" if "last x \<noteq> CHR ''l''" for x
    using that by auto
  then show ?thesis by (simp add: requestHandlers_def)
qed

text \<open>
  C40: Where HTTP requests go wrong: a GET for any path ending in \<open>/index.html\<close> is refused with "Not Found 404"
  though the page is meant for exactly these paths; a GET for an illegal path is answered twice, and a HEAD for
  one first with an error and then with success; a POST for a legal path is never answered; and creating or
  joining a game before any web socket has connected dereferences a null pointer.
\<close>

theorem http_gaps:
  assumes "reqMethod get = GET" "target get = p @ ''/index.html''"
    and "reqMethod bad = GET" "\<not> shouldServeIndex (target bad)"
    and "reqMethod head = HEAD" "\<not> shouldServeIndex (target head)"
    and "reqMethod post = POST" "shouldServeIndex (target post)"
    and "reqMethod create = GET" "target create \<in> {''/create-game'', ''/join-game''}" "activeChannel s = None"
  shows "handleRequest e sess get s =
      (Inr (), s\<lparr>pending := pending s @ [WriteResponse sess (badRequest get ''Not Found 404'')]\<rparr>) \<and>
    handleRequest e sess bad s = (Inr (), s\<lparr>pending := pending s @
      [WriteResponse sess (badRequest bad ''Illegal request-target''),
       WriteResponse sess (badRequest bad ''Not Found 404'')]\<rparr>) \<and>
    handleRequest e sess head s = (Inr (), s\<lparr>pending := pending s @
      [WriteResponse sess (badRequest head ''Illegal request-target''),
       WriteResponse sess (okResponse head None (length (httpMessage s)))]\<rparr>) \<and>
    handleRequest e sess post s = (Inr (), s) \<and>
    fst (handleRequest e sess create s) = Inl UB"
proof (intro conjI)
  note handle = handleRequest_def sendResponse_def startOp_def run_simps Let_def
  show "handleRequest e sess get s =
      (Inr (), s\<lparr>pending := pending s @ [WriteResponse sess (badRequest get ''Not Found 404'')]\<rparr>)"
    using assms(1,2) suffix_served [of p] suffix_no_handler [of e p] by (simp add: handle)
  have "target bad \<noteq> ''/'' \<and> requestHandlers e (target bad) = None"
    using assms(4) by (auto simp: shouldServeIndex_def requestHandlers_def)
  with assms(3,4) show "handleRequest e sess bad s = (Inr (), s\<lparr>pending := pending s @
      [WriteResponse sess (badRequest bad ''Illegal request-target''),
       WriteResponse sess (badRequest bad ''Not Found 404'')]\<rparr>)"
    by (simp add: handle)
  show "handleRequest e sess head s = (Inr (), s\<lparr>pending := pending s @
      [WriteResponse sess (badRequest head ''Illegal request-target''),
       WriteResponse sess (okResponse head None (length (httpMessage s)))]\<rparr>)"
    using assms(5,6) by (simp add: handle)
  show "handleRequest e sess post s = (Inr (), s)"
    using assms(7,8) by (simp add: handle)
  show "fst (handleRequest e sess create s) = Inl UB"
    using assms(9,10,11)
    by (auto simp: handle shouldServeIndex_def requestHandlers_def handleCreateGame_def handleJoinGame_def
        readWord_def generateUniqueGameInstanceID_def generateUniquePlayerID_def activeConnection_def andThen_def
        split: list.split)
qed

definition plainRequest :: "verb \<Rightarrow> string \<Rightarrow> httpRequest" where
  "plainRequest m x = \<lparr>reqMethod = m, target = x, keepAlive = False, isUpgrade = False\<rparr>"

theorem http_gaps_witness:
  "handleRequest quietEnv 0 (plainRequest GET ''/game/index.html'') serverStart =
      (Inr (), serverStart\<lparr>pending := pending serverStart @
        [WriteResponse 0 (badRequest (plainRequest GET ''/game/index.html'') ''Not Found 404'')]\<rparr>) \<and>
   handleRequest quietEnv 0 (plainRequest POST ''/join-game'') serverStart = (Inr (), serverStart) \<and>
   fst (handleRequest quietEnv 0 (plainRequest GET ''/create-game'') serverStart) = Inl UB"
  using http_gaps [of "plainRequest GET ''/game/index.html''" "''/game''" "plainRequest GET ''/x''" "plainRequest HEAD ''/x''"
      "plainRequest POST ''/join-game''" "plainRequest GET ''/create-game''" serverStart quietEnv 0]
  by (simp add: plainRequest_def shouldServeIndex_def serverStart_def buildImpl_def newServerState_def
      listenForConnections_def startOp_def run_simps)

end
