(* ===== verification/GameServer.thy ===== *)
theory GameServer
  imports ServerProps
begin

text \<open>
  The game server (\<open>tools/server/gameserver.cpp\<close>): the callbacks that keep the list of clients, the messages
  of the clients and of the event loop, and one round of its main loop. What it prints is not modelled; the
  callbacks work on the list \<open>clients\<close>.
\<close>

section \<open>The clients\<close>

definition addClient :: "Connection \<Rightarrow> (Connection list, unit) prog" where
  "addClient c = modify (\<lambda>clients. clients @ [c])"

definition removeClient :: "Connection \<Rightarrow> (Connection list, unit) prog" where
  "removeClient c = modify (\<lambda>clients. filter (\<lambda>d. d \<noteq> c) clients)"

definition gameEnv :: "('w, 'r) Ambassador \<Rightarrow> codec \<Rightarrow> (nat \<Rightarrow> bool) \<Rightarrow> (Connection list, 'w, 'r) serverEnv" where
  "gameEnv amb cd fails = \<lparr>onConnect = addClient, onDisconnect = removeClient, loopAmbassador = amb, textForm = cd,
     shutdownFails = fails\<rparr>"

type_synonym ('w, 'r, 'a) gameProg = "(Connection list, 'w, 'r, 'a) serverProg"

definition buildOutgoing :: "string \<Rightarrow> Connection list \<Rightarrow> netMessage list" where
  "buildOutgoing log clients = map (\<lambda>client. \<lparr>connection = client, msgText = log\<rparr>) clients"

section \<open>Messages of the clients\<close>

text \<open>\<open>MessageResult\<close> is the text and whether the server should shut down.\<close>

type_synonym MessageResult = "string \<times> bool"

definition quitAction :: "(Connection list, 'w, 'r) serverEnv \<Rightarrow> netMessage \<Rightarrow> ('w, 'r, MessageResult) gameProg" where
  "quitAction e message = andThen (serverDisconnect e (connection message)) (\<lambda>_. ok ('''', False))"

definition shutDownAction :: "netMessage \<Rightarrow> ('w, 'r, MessageResult) gameProg" where
  "shutDownAction message = ok ('''', True)"

definition clientActions :: "(Connection list, 'w, 'r) serverEnv \<Rightarrow> (string, netMessage \<Rightarrow> ('w, 'r, MessageResult) gameProg) umap"
where
  "clientActions e = umapPut ''shutdown'' shutDownAction (umapPut ''quit'' (quitAction e) Map.empty)"

primrec messageLoop :: "(Connection list, 'w, 'r) serverEnv \<Rightarrow> netMessage list \<Rightarrow> string \<Rightarrow> ('w, 'r, MessageResult) gameProg"
where
  "messageLoop e [] result = ok (result, False)"
| "messageLoop e (message # rest) result =
     (case clientActions e (msgText message) of
        Some action \<Rightarrow> action message
      | None \<Rightarrow> messageLoop e rest
          (result @ showNat (connection message) @ ''> '' @ msgText message @ [CHR 0x0A]))"

definition processMessages :: "(Connection list, 'w, 'r) serverEnv \<Rightarrow> netMessage list \<Rightarrow> ('w, 'r, MessageResult) gameProg" where
  "processMessages e messages = messageLoop e messages ''''"

section \<open>Messages of the event loop\<close>

definition inputRequestAction :: "(Connection list, 'w, 'r) serverEnv \<Rightarrow> Response \<Rightarrow> ('w, 'r, unit) gameProg" where
  "inputRequestAction e res =
     andThen readWord (\<lambda>input. sendToLoop e (setAttr ''val'' input (setType INPUT_RES newResponse)))"

definition configRequestAction :: "(Connection list, 'w, 'r) serverEnv \<Rightarrow> Response \<Rightarrow> ('w, 'r, unit) gameProg" where
  "configRequestAction e res =
     andThen readWord (\<lambda>input. sendToLoop e (setAttr ''val'' input (setType CONFIG_RES newResponse)))"

text \<open>These two only print.\<close>

definition gameMadeAction :: "Response \<Rightarrow> ('w, 'r, unit) gameProg" where
  "gameMadeAction res = ok ()"

definition playerAckAction :: "Response \<Rightarrow> ('w, 'r, unit) gameProg" where
  "playerAckAction res = ok ()"

definition eventLoopActions :: "(Connection list, 'w, 'r) serverEnv \<Rightarrow> (msgType, Response \<Rightarrow> ('w, 'r, unit) gameProg) umap" where
  "eventLoopActions e =
     umapPut CONFIG_RES playerAckAction (umapPut CONFIG_RES gameMadeAction
       (umapPut CONFIG_RES (configRequestAction e) (umapPut INPUT_REQ (inputRequestAction e) Map.empty)))"

definition processEventLoopMessages :: "(Connection list, 'w, 'r) serverEnv \<Rightarrow> Response list \<Rightarrow> ('w, 'r, unit) gameProg" where
  "processEventLoopMessages e messages = forEach messages (\<lambda>res.
     andThen (fromSum (getResType res)) (\<lambda>t.
     andThen (fromSum (responseToString (textForm e) res)) (\<lambda>_.
       case eventLoopActions e t of Some action \<Rightarrow> action res | None \<Rightarrow> ok ())))"

section \<open>The main loop\<close>

definition catchUpdate :: "('w, 'r, unit) gameProg \<Rightarrow> ('w, 'r, bool) gameProg" where
  "catchUpdate m = (\<lambda>s. case m s of
      (Inr _, t) \<Rightarrow> (Inr False, t)
    | (Inl x, t) \<Rightarrow> if isException x then (Inr True, t) else (Inl x, t))"

definition fakeMessages :: "Response list" where
  "fakeMessages = [setAttr ''val'' ''Config info: '' (setType CONFIG_REQ newResponse),
     setAttr ''val'' ''PlayerId'' (setType INPUT_REQ newResponse)]"

text \<open>One round; the result tells whether the loop ends. The network completes \<open>evs\<close> during the update, and
  \<open>shouldQuit\<close> is computed and not used.\<close>

definition serverRound :: "nat \<Rightarrow> (Connection list, 'w, 'r) serverEnv \<Rightarrow> completion list \<Rightarrow> ('w, 'r, bool) gameProg" where
  "serverRound fuel e evs =
     andThen (catchUpdate (serverUpdate e evs)) (\<lambda>errorWhileUpdating.
     andThen serverReceive (\<lambda>received.
     andThen (processMessages e received) (\<lambda>(log, shouldQuit).
     andThen (onLoop (getAllMsg fuel (textForm e) (loopAmbassador e))) (\<lambda>eventLoopMessages.
     andThen (processEventLoopMessages e fakeMessages) (\<lambda>_.
     andThen getState (\<lambda>s.
     andThen (serverSend (buildOutgoing log (user s))) (\<lambda>_.
       ok errorWhileUpdating)))))))"

section \<open>The clients are the registered connections\<close>

definition clientInv :: "(Connection list, 'w, 'r) serverState \<Rightarrow> bool" where
  "clientInv s \<longleftrightarrow> distinct (user s) \<and> set (user s) = dom (channels s)"

lemma calm_gameEnv: "calm (gameEnv amb cd fails)"
  by (simp add: calm_def gameEnv_def removeClient_def run_simps)

lemma keepsClient_modify:
  "(\<And>s. user (f s) = user s \<and> channels (f s) = channels s) \<Longrightarrow> keeps clientInv (modify f)"
  by (simp add: keeps_def run_simps clientInv_def)

lemma keepsClient_onLoop: "keeps clientInv (onLoop l)"
  by (simp add: keeps_def onLoop_def zoom_def clientInv_def split: prod.split)

lemma keepsClient_ops:
  "keeps clientInv (startOp op)" "keeps clientInv (closeOp x)" "keeps clientInv (setChannel c ch)"
  "keeps clientInv readWord" "keeps clientInv (channelAt c)" "keeps clientInv (sendToLoop e r)"
  "keeps clientInv generateUniqueGameInstanceID" "keeps clientInv generateUniquePlayerID" "keeps clientInv activeConnection"
  unfolding startOp_def closeOp_def setChannel_def readWord_def channelAt_def sendToLoop_def
    generateUniqueGameInstanceID_def generateUniquePlayerID_def activeConnection_def
  by (intro keeps_intros keepsClient_modify keepsClient_onLoop;
      auto intro!: keeps_intros keepsClient_modify split: list.split)+

lemma keepsClient_requestHandlers: "requestHandlers e t = Some h \<Longrightarrow> keeps clientInv h"
  by (auto simp: requestHandlers_def handleCreateGame_def handleJoinGame_def handleConfigureGame_def
      intro!: keeps_intros keepsClient_ops keepsClient_modify split: if_split_asm)

lemma keepsClient_handleRequest: "keeps clientInv (handleRequest e sess request)"
proof (cases "requestHandlers e (target request)")
  case None
  then show ?thesis
    unfolding handleRequest_def sendResponse_def Let_def by (auto intro!: keeps_intros keepsClient_ops)
next
  case (Some h)
  then show ?thesis
    using keepsClient_requestHandlers [OF Some]
    unfolding handleRequest_def sendResponse_def Let_def by (auto intro!: keeps_intros keepsClient_ops)
qed

lemma clientInv_disconnect:
  assumes "clientInv s" "\<And>d. channels s c = Some d \<Longrightarrow> d = c \<and> chans s c \<noteq> None"
  shows "clientInv (snd (serverDisconnect (gameEnv amb cd fails) c s))"
proof (cases "channels s c")
  case None
  with assms show ?thesis by (simp add: serverDisconnect_def run_simps)
next
  case (Some d)
  with assms(2) [OF Some] obtain ch where "chans s c = Some ch" "d = c" by auto
  with Some assms(1) show ?thesis
    by (auto simp: serverDisconnect_def onUser_def zoom_def gameEnv_def removeClient_def channelDisconnect_def channelAt_def
        setChannel_def closeOp_def umapErase_def run_simps clientInv_def)
qed

lemma connInv_registered_at: "connInv s \<Longrightarrow> channels s c = Some d \<Longrightarrow> d = c \<and> chans s c \<noteq> None"
  using connInvD [of s c] by (auto simp: viewOk_def viewOf_def split: option.splits)

lemma connInv_accepting: "connInv s \<Longrightarrow> AcceptWebsocket c \<in> set (pending s) \<Longrightarrow> channels s c = None"
  using connInvD [of s c] opsOn_mem [of "AcceptWebsocket c" s c]
  by (auto simp: viewOk_def viewOf_def split: option.splits)

lemma clientInv_accept:
  assumes "clientInv s" "channels s c = None"
  shows "clientInv (snd (afterAccept (gameEnv amb cd fails) c err s))"
proof (cases err)
  case True
  with assms show ?thesis by (simp add: afterAccept_def serverDisconnect_def run_simps)
next
  case False
  with assms show ?thesis
    by (auto simp: afterAccept_def registerChannel_def onUser_def zoom_def gameEnv_def addClient_def readMessage_def
        startOp_def umapPut_def run_simps clientInv_def)
qed

lemma clientInv_quietly:
  "clientInv s \<Longrightarrow> user t = user s \<Longrightarrow> channels t = channels s \<Longrightarrow> clientInv t"
  by (simp add: clientInv_def)

lemma clientInv_written:
  assumes "clientInv s" "\<And>d. channels s c = Some d \<Longrightarrow> d = c \<and> chans s c \<noteq> None"
  shows "clientInv (snd (afterWrite (gameEnv amb cd fails) c err s))"
proof (cases "\<exists>ch. chans s c = Some ch \<and> err \<and> \<not> disconnected ch")
  case True
  with clientInv_disconnect [OF assms] show ?thesis
    by (auto simp: afterWrite_def channelAt_def run_simps)
next
  case False
  then show ?thesis
    using assms(1)
    by (cases "chans s c")
      (auto simp: afterWrite_def channelAt_def setChannel_def startOp_def run_simps andThen_def
        intro: clientInv_quietly split: list.split)
qed

lemma clientInv_read:
  assumes "clientInv s" "\<And>d. channels s c = Some d \<Longrightarrow> d = c \<and> chans s c \<noteq> None"
  shows "clientInv (snd (afterRead (gameEnv amb cd fails) c res s))"
proof (cases "\<exists>ch. chans s c = Some ch \<and> res = None \<and> \<not> disconnected ch")
  case True
  with clientInv_disconnect [OF assms] show ?thesis
    by (auto simp: afterRead_def channelAt_def run_simps)
next
  case False
  then show ?thesis
    using assms(1)
    by (cases "chans s c"; cases res)
      (auto simp: afterRead_def channelAt_def readMessage_def startOp_def run_simps andThen_def intro: clientInv_quietly)
qed

lemma clientInv_deliver:
  assumes "clientInv s" "connInv s" "opOf ev \<in> set (pending s)"
  shows "clientInv (snd (serverDeliver (gameEnv amb cd fails) ev s))"
proof -
  define s1 where "s1 = completed (opOf ev) s"
  have inv: "clientInv s1" using assms(1) by (simp add: s1_def clientInv_def)
  have registered: "channels s1 c = Some d \<Longrightarrow> d = c \<and> chans s1 c \<noteq> None" for c d
    using connInv_registered_at [OF assms(2)] by (simp add: s1_def)
  have keep: "keeps clientInv m \<Longrightarrow> clientInv (snd (m s1))" for m :: "('a, 'b, unit) gameProg"
    using inv by (simp add: keeps_def)
  show ?thesis
  proof (cases ev)
    case (SocketAccepted sess err)
    have "keeps clientInv (afterAcceptSocket sess err)"
      by (auto simp: afterAcceptSocket_def sessionStart_def reportError_def listenForConnections_def
          intro!: keeps_intros keepsClient_ops keepsClient_modify)
    from keep [OF this] show ?thesis by (simp add: deliver_run SocketAccepted s1_def)
  next
    case (RequestRead sess res c)
    have "keeps clientInv (afterRequest (gameEnv amb cd fails) sess res c)"
      by (auto simp: afterRequest_def reportError_def newChannel_def channelStart_def
          intro!: keeps_intros keepsClient_ops keepsClient_handleRequest split: option.split)
    from keep [OF this] show ?thesis by (simp add: deliver_run RequestRead s1_def)
  next
    case (ResponseWritten sess r err eof)
    have "keeps clientInv (afterResponse (gameEnv amb cd fails) sess err eof)"
      by (auto simp: afterResponse_def reportError_def sessionStart_def intro!: keeps_intros keepsClient_ops)
    from keep [OF this] show ?thesis by (simp add: deliver_run ResponseWritten s1_def)
  next
    case (WebsocketAccepted c err)
    have "channels s1 c = None"
      using connInv_accepting [OF assms(2)] assms(3) by (simp add: s1_def WebsocketAccepted)
    from clientInv_accept [OF inv this] show ?thesis by (simp add: deliver_run WebsocketAccepted s1_def)
  next
    case (TextWritten c t err)
    from clientInv_written [OF inv registered] show ?thesis by (simp add: deliver_run TextWritten s1_def)
  next
    case (TextRead c res)
    from clientInv_read [OF inv registered] show ?thesis by (simp add: deliver_run TextRead s1_def)
  qed
qed

lemma keepsClient_send: "keeps clientInv (serverSend ms)"
  unfolding serverSend_def channelSend_def
  by (intro keeps_forEach) (auto intro!: keeps_intros keepsClient_ops split: option.split)

text \<open>Reachable states of the game server: it starts without clients.\<close>

inductive gameReach :: "(Connection list, 'w, 'r) serverEnv \<Rightarrow> (Connection list, 'w, 'r) serverState \<Rightarrow> bool" for e where
  game_start: "gameReach e (buildImpl msg [] l ws)"
| game_network: "gameReach e s \<Longrightarrow> opOf ev \<in> set (pending s) \<Longrightarrow> possible ev s \<Longrightarrow>
    serverDeliver e ev s = (r, t) \<Longrightarrow> gameReach e t"
| game_send: "gameReach e s \<Longrightarrow> serverSend ms s = (r, t) \<Longrightarrow> gameReach e t"
| game_receive: "gameReach e s \<Longrightarrow> serverReceive s = (r', t) \<Longrightarrow> gameReach e t"
| game_disconnect: "gameReach e s \<Longrightarrow> serverDisconnect e c s = (r, t) \<Longrightarrow> gameReach e t"

lemma gameReach_server: "gameReach e s \<Longrightarrow> serverReach e s"
  by (induction rule: gameReach.induct) (auto intro: serverReach.intros)

lemma gameReach_clients:
  "gameReach (gameEnv amb cd fails) s \<Longrightarrow> clientInv s"
proof (induction rule: gameReach.induct)
  case (game_start msg l ws)
  show ?case by (simp add: buildImpl_def newServerState_def listenForConnections_def startOp_def run_simps clientInv_def)
next
  case (game_network s ev r t)
  have "connInv s" using serverReach_inv [OF calm_gameEnv gameReach_server [OF game_network.hyps(1)]] by simp
  from clientInv_deliver [OF game_network.IH this game_network.hyps(2)] game_network.hyps(4)
  show ?case by (metis snd_conv)
next
  case (game_send s ms r t)
  then show ?case using keepsD [OF keepsClient_send] by metis
next
  case (game_receive s r t)
  then show ?case by (auto simp: serverReceive_def run_simps clientInv_def)
next
  case (game_disconnect s c r t)
  have "connInv s" using serverReach_inv [OF calm_gameEnv gameReach_server [OF game_disconnect.hyps(1)]] by simp
  from clientInv_disconnect [OF game_disconnect.IH connInv_registered_at [OF this]] game_disconnect.hyps(2)
  show ?case by (metis snd_conv)
qed

section \<open>Properties\<close>

lemma channelSend_run:
  assumes "chans s c = Some ch" "x \<noteq> []"
  shows "\<exists>t. channelSend c x s = (Inr (), t) \<and> chans t = (chans s)(c \<mapsto> ch\<lparr>writeBuffer := writeBuffer ch @ [x]\<rparr>) \<and>
    channels t = channels s"
  using assms by (simp add: channelSend_def channelAt_def setChannel_def startOp_def run_simps)

definition withText :: "string \<Rightarrow> Channel \<Rightarrow> Channel" where
  "withText x ch = ch\<lparr>writeBuffer := writeBuffer ch @ [x]\<rparr>"

lemma broadcast_run:
  assumes "distinct cs" "\<forall>c \<in> set cs. channels s c = Some c \<and> chans s c \<noteq> None" "x \<noteq> []"
  shows "\<exists>t. serverSend (buildOutgoing x cs) s = (Inr (), t) \<and>
    (\<forall>c. chans t c = (if c \<in> set cs then map_option (withText x) (chans s c) else chans s c))"
  using assms(1,2)
proof (induction cs arbitrary: s)
  case Nil
  then show ?case by (simp add: serverSend_def buildOutgoing_def run_simps)
next
  case (Cons c cs)
  then obtain ch where ch: "chans s c = Some ch" "channels s c = Some c" by auto
  obtain u where u: "channelSend c x s = (Inr (), u)" "chans u = (chans s)(c \<mapsto> withText x ch)" "channels u = channels s"
    using channelSend_run [OF ch(1) assms(3)] by (auto simp: withText_def)
  have regs: "\<forall>c \<in> set cs. channels u c = Some c \<and> chans u c \<noteq> None" using Cons.prems(2) u(2,3) by simp
  obtain t where t: "serverSend (buildOutgoing x cs) u = (Inr (), t)"
      "\<forall>d. chans t d = (if d \<in> set cs then map_option (withText x) (chans u d) else chans u d)"
    using Cons.IH [OF _ regs] Cons.prems(1) by auto
  have "serverSend (buildOutgoing x (c # cs)) s = (Inr (), t)"
    using ch u(1) t(1) by (simp add: serverSend_def buildOutgoing_def run_simps)
  with t(2) u(2) ch(1) Cons.prems(1) show ?case by auto
qed

text \<open>
  C17: The server's broadcast reaches every connected client once: in every reachable state of the game server
  the list of clients holds exactly the registered connections, each once, and sending the log puts it at the
  end of the buffer of each of their channels and changes no other channel.
\<close>

theorem broadcast_reaches_every_client:
  assumes "gameReach (gameEnv amb cd fails) s" "log \<noteq> []"
  shows "distinct (user s) \<and> set (user s) = dom (channels s) \<and>
    (\<exists>t. serverSend (buildOutgoing log (user s)) s = (Inr (), t) \<and>
      (\<forall>c. chans t c = (if channels s c \<noteq> None then map_option (withText log) (chans s c) else chans s c)))"
proof -
  have clients: "distinct (user s)" "set (user s) = dom (channels s)"
    using gameReach_clients [OF assms(1)] by (simp_all add: clientInv_def)
  have "connInv s" using serverReach_inv [OF calm_gameEnv gameReach_server [OF assms(1)]] by simp
  then have "\<forall>c \<in> set (user s). channels s c = Some c \<and> chans s c \<noteq> None"
    using connInv_registered_at clients(2) by fastforce
  from broadcast_run [OF clients(1) this assms(2)] clients show ?thesis by (auto simp: dom_def)
qed

definition plainAmb :: "(string list, string list) Ambassador" where
  "plainAmb = \<lparr>writeQ = \<lparr>readText = ok '''', writeText = (\<lambda>x. ok 0)\<rparr>, readQ = \<lparr>readText = ok '''', writeText = (\<lambda>x. ok 0)\<rparr>\<rparr>"

definition plainGame :: "(Connection list, string list, string list) serverEnv" where
  "plainGame = gameEnv plainAmb \<lparr>parseJson = (\<lambda>x. Inl (RuntimeError x)), dumpJson = (\<lambda>r. Inr '''')\<rparr> (\<lambda>sess. False)"

definition gameStart :: "(Connection list, string list, string list) serverState" where
  "gameStart = buildImpl ''page'' [] \<lparr>outQ = [], inQ = [], readContentQ = []\<rparr> []"

definition oneClient :: "(Connection list, string list, string list) serverState" where
  "oneClient = gameStart\<lparr>chans := [7 \<mapsto> \<lparr>disconnected = False, writeBuffer = []\<rparr>], channels := [7 \<mapsto> 7],
     activeChannel := Some 7, user := [7], nextSession := 2, pending := [AcceptSocket 1, ReadText 7]\<rparr>"

lemma oneClient_reach: "gameReach plainGame oneClient"
proof -
  define s1 where "s1 = gameStart\<lparr>nextSession := 2, pending := [ReadRequest 0, AcceptSocket 1]\<rparr>"
  define s2 where "s2 = s1\<lparr>chans := [7 \<mapsto> \<lparr>disconnected = False, writeBuffer = []\<rparr>],
     pending := [AcceptSocket 1, AcceptWebsocket 7]\<rparr>"
  have s0: "gameReach plainGame gameStart" unfolding gameStart_def by (rule game_start)
  have start: "nextSession gameStart = 1" "pending gameStart = [AcceptSocket 0]" "chans gameStart = Map.empty"
    "channels gameStart = Map.empty" "activeChannel gameStart = None" "user gameStart = []"
    by (simp_all add: gameStart_def buildImpl_def newServerState_def listenForConnections_def startOp_def run_simps)
  have r1: "serverDeliver plainGame (SocketAccepted 0 False) gameStart = (Inr (), s1)"
    by (simp add: server_runs run_simps start s1_def)
  have s1: "gameReach plainGame s1" by (rule game_network [OF s0 _ _ r1]) (simp_all add: start)
  have r2: "serverDeliver plainGame (RequestRead 0 (Some upgradeRequest) 7) s1 = (Inr (), s2)"
    by (simp add: server_runs run_simps start s1_def s2_def upgradeRequest_def)
  have s2: "gameReach plainGame s2"
    by (rule game_network [OF s1 _ _ r2]) (simp_all add: s1_def freeAddress_def opsOn_def start)
  have r3: "serverDeliver plainGame (WebsocketAccepted 7 False) s2 = (Inr (), oneClient)"
    by (simp add: server_runs run_simps start s1_def s2_def oneClient_def plainGame_def gameEnv_def addClient_def)
  show ?thesis by (rule game_network [OF s2 _ _ r3]) (simp_all add: s1_def s2_def)
qed

theorem broadcast_reaches_every_client_witness:
  "set (user oneClient) = dom (channels oneClient) \<and>
   (\<exists>t. serverSend (buildOutgoing ''hi'' (user oneClient)) oneClient = (Inr (), t) \<and>
     chans t 7 = Some \<lparr>disconnected = False, writeBuffer = [''hi'']\<rparr>)"
proof -
  have reach: "gameReach (gameEnv plainAmb \<lparr>parseJson = (\<lambda>x. Inl (RuntimeError x)), dumpJson = (\<lambda>r. Inr '''')\<rparr>
      (\<lambda>sess. False)) oneClient"
    using oneClient_reach by (simp add: plainGame_def)
  obtain t where "serverSend (buildOutgoing ''hi'' (user oneClient)) oneClient = (Inr (), t)"
      "\<forall>c. chans t c = (if channels oneClient c \<noteq> None then map_option (withText ''hi'') (chans oneClient c) else chans oneClient c)"
      "set (user oneClient) = dom (channels oneClient)"
    using broadcast_reaches_every_client [OF reach, of "''hi''"] by auto
  then show ?thesis by (auto simp: oneClient_def withText_def)
qed

lemma messageLoop_plain:
  assumes "\<forall>m \<in> set pre. clientActions e (msgText m) = None"
  shows "messageLoop e (pre @ rest) out =
    messageLoop e rest (out @ concat (map (\<lambda>m. showNat (connection m) @ ''> '' @ msgText m @ [CHR 0x0A]) pre))"
  using assms by (induction pre arbitrary: out) auto

text \<open>
  What becomes of a batch of client messages. Ordinary texts become one line each, in order. A "quit"
  disconnects its sender and a "shutdown" asks to shut down, and either ends the batch: the lines of the
  messages before it and all messages behind it are lost.
\<close>

theorem batch_of_client_messages:
  assumes "\<forall>m \<in> set pre. msgText m \<notin> {''quit'', ''shutdown''}" "msgText quit = ''quit''" "msgText down = ''shutdown''"
  shows "processMessages e pre s =
      (Inr (concat (map (\<lambda>m. showNat (connection m) @ ''> '' @ msgText m @ [CHR 0x0A]) pre), False), s) \<and>
    processMessages e (pre @ quit # post) s =
      (case serverDisconnect e (connection quit) s of (Inl x, t) \<Rightarrow> (Inl x, t) | (Inr _, t) \<Rightarrow> (Inr ('''', False), t)) \<and>
    processMessages e (pre @ down # post) s = (Inr ('''', True), s)"
proof -
  have pre: "\<forall>m \<in> set pre. clientActions e (msgText m) = None"
    using assms(1) by (auto simp: clientActions_def umapPut_def)
  show ?thesis
    using messageLoop_plain [OF pre, of "[]"] messageLoop_plain [OF pre, of "quit # post"]
      messageLoop_plain [OF pre, of "down # post"] assms(2,3)
    by (simp add: processMessages_def clientActions_def umapPut_def quitAction_def shutDownAction_def run_simps andThen_def
        split: prod.split sum.split)
qed

theorem batch_of_client_messages_witness:
  "processMessages plainGame ([\<lparr>connection = 7, msgText = ''hi''\<rparr>] @ \<lparr>connection = 7, msgText = ''shutdown''\<rparr> #
     [\<lparr>connection = 7, msgText = ''there''\<rparr>]) oneClient = (Inr ('''', True), oneClient)"
  using batch_of_client_messages [of "[\<lparr>connection = 7, msgText = ''hi''\<rparr>]" "\<lparr>connection = 7, msgText = ''quit''\<rparr>"
      "\<lparr>connection = 7, msgText = ''shutdown''\<rparr>" plainGame oneClient "[\<lparr>connection = 7, msgText = ''there''\<rparr>]"]
  by simp

end
