(* ===== verification/ServerMain.thy ===== *)
theory ServerMain
  imports GameServer
begin

text \<open>
  The main program of the game server (\<open>main\<close> and \<open>getHTTPMessage\<close> of \<open>tools/server/gameserver.cpp\<close>): its arguments, the
  loop over what the network completes in each round, and how the program ends. The files are a parameter; what is printed is not modelled.
\<close>

section \<open>The program\<close>

text \<open>\<open>None\<close> when the file cannot be read: the program exits with -1.\<close>

definition getHTTPMessage :: "(string \<Rightarrow> string option) \<Rightarrow> string \<Rightarrow> string option" where
  "getHTTPMessage files htmlLocation = files htmlLocation"

text \<open>How the arguments end the program, or the port (\<open>unsigned short\<close>, so \<open>int\<close> wraps around) and the page.\<close>

datatype serverArgs = Exits int | Serves int string

definition readArgs :: "(string \<Rightarrow> string option) \<Rightarrow> string list \<Rightarrow> cpp_error + serverArgs" where
  "readArgs files argv =
     (if length argv < 3 then Inr (Exits 1)
      else case stoi (argv ! 1) of
        Inl x \<Rightarrow> Inl x
      | Inr p \<Rightarrow> (case getHTTPMessage files (argv ! 2) of
          None \<Rightarrow> Inr (Exits (-1))
        | Some page \<Rightarrow> Inr (Serves (p mod 2 ^ 16) page)))"

text \<open>\<open>None\<close>: the loop still runs when the rounds are over.\<close>

primrec serverLoop :: "nat \<Rightarrow> (Connection list, 'w, 'r) serverEnv \<Rightarrow> completion list list \<Rightarrow> ('w, 'r, int option) gameProg" where
  "serverLoop fuel e [] = ok None"
| "serverLoop fuel e (evs # rounds) =
     andThen (serverRound fuel e evs) (\<lambda>stop. if stop then ok (Some 0) else serverLoop fuel e rounds)"

text \<open>How the program stands after the rounds: it runs, it has left with a status, an exception that nothing catches (or a
  failed assertion) has aborted it, its behaviour is undefined, or the bound of the model was reached. Only
  \<open>server.update()\<close> is called inside a \<open>try\<close>.\<close>

datatype programEnd = Running | Returns int | Aborts cpp_error | Undefined | BoundReached

definition uncaught :: "cpp_error \<Rightarrow> programEnd" where
  "uncaught x = (if x = UB then Undefined else if x = OutOfFuel then BoundReached else Aborts x)"

definition endOf :: "cpp_error + int option \<Rightarrow> programEnd" where
  "endOf r = (case r of Inl x \<Rightarrow> uncaught x | Inr None \<Rightarrow> Running | Inr (Some n) \<Rightarrow> Returns n)"

text \<open>The result is how the program stands, and the port and the server once it is started.\<close>

definition gameServerMain :: "nat \<Rightarrow> (Connection list, 'w, 'r) serverEnv \<Rightarrow> (string \<Rightarrow> string option) \<Rightarrow> string list \<Rightarrow>
    ('w, 'r) ambState \<Rightarrow> string list \<Rightarrow> completion list list \<Rightarrow>
    programEnd \<times> (int \<times> (Connection list, 'w, 'r) serverState) option" where
  "gameServerMain fuel e files argv queues words rounds =
     (case readArgs files argv of
        Inl x \<Rightarrow> (uncaught x, None)
      | Inr (Exits n) \<Rightarrow> (Returns n, None)
      | Inr (Serves port page) \<Rightarrow>
          (case serverLoop fuel e rounds (buildImpl page [] queues words) of (r, s) \<Rightarrow> (endOf r, Some (port, s))))"

section \<open>What the network may do\<close>

text \<open>Every completion is one of an operation that is under way; the poll stops at the first exception.\<close>

primrec feasible :: "('u, 'w, 'r) serverEnv \<Rightarrow> completion list \<Rightarrow> ('u, 'w, 'r) serverState \<Rightarrow> bool" where
  "feasible e [] s \<longleftrightarrow> True"
| "feasible e (ev # evs) s \<longleftrightarrow> opOf ev \<in> set (pending s) \<and> possible ev s \<and>
     (case serverDeliver e ev s of (Inl x, t) \<Rightarrow> True | (Inr _, t) \<Rightarrow> feasible e evs t)"

primrec feasibleRounds :: "nat \<Rightarrow> (Connection list, 'w, 'r) serverEnv \<Rightarrow> completion list list \<Rightarrow>
    (Connection list, 'w, 'r) serverState \<Rightarrow> bool" where
  "feasibleRounds fuel e [] s \<longleftrightarrow> True"
| "feasibleRounds fuel e (evs # rounds) s \<longleftrightarrow> feasible e evs s \<and>
     (case serverRound fuel e evs s of (Inr False, t) \<Rightarrow> feasibleRounds fuel e rounds t | _ \<Rightarrow> True)"

section \<open>The invariants of a run\<close>

definition gameInv :: "(Connection list, 'w, 'r) serverState \<Rightarrow> bool" where
  "gameInv s \<longleftrightarrow> clientInv s \<and> connInv s \<and> idInv s"

lemma keepsGame:
  assumes "keeps clientInv m" "keeps connInv m" "keeps idInv m"
  shows "keeps gameInv m"
  using assms by (simp add: keeps_def gameInv_def)

lemma keepsGame_quiet: "keeps clientInv m \<Longrightarrow> quiet m \<Longrightarrow> keeps idInv m \<Longrightarrow> keeps gameInv m"
  by (rule keepsGame) (auto simp: keeps_def connInv_quiet)

lemma keepsGame_ops:
  "keeps gameInv readWord" "keeps gameInv (sendToLoop e r)" "keeps gameInv (onLoop l)" "keeps gameInv (serverSend ms)"
  by (intro keepsGame_quiet keepsClient_ops keepsClient_onLoop keepsId_ops keepsId_zoom quiet_readWord quiet_sendToLoop quiet_onLoop
      keepsGame keepsClient_send keeps_serverSend keepsId_send)+

lemma keepsGame_receive: "keeps gameInv serverReceive"
  by (auto simp: keeps_def serverReceive_def run_simps gameInv_def clientInv_def connInv_def idInv_def viewOf_def opsOn_def)

lemma keepsGame_disconnect: "keeps gameInv (serverDisconnect (gameEnv amb cd fails) c)"
  unfolding keeps_def
proof (intro allI impI)
  fix s :: "(Connection list, 'a, 'b) serverState" assume s: "gameInv s"
  have "clientInv (snd (serverDisconnect (gameEnv amb cd fails) c s))"
    using s by (intro clientInv_disconnect) (auto simp: gameInv_def dest: connInv_registered_at)
  moreover have "connInv (snd (serverDisconnect (gameEnv amb cd fails) c s))"
    using s connInvD viewOk_pre unfolding gameInv_def by (intro connInv_disconnect [OF calm_gameEnv]) blast+
  ultimately show "gameInv (snd (serverDisconnect (gameEnv amb cd fails) c s))"
    using s keepsId_disconnect by (auto simp: gameInv_def keeps_def)
qed

lemma keepsGame_processMessages: "keeps gameInv (processMessages (gameEnv amb cd fails) ms)"
proof -
  have "keeps gameInv (messageLoop (gameEnv amb cd fails) ms out)" for out
    by (induction ms arbitrary: out)
      (auto simp: clientActions_def umapPut_def quitAction_def shutDownAction_def intro!: keeps_intros keepsGame_disconnect)
  then show ?thesis by (simp add: processMessages_def)
qed

lemma keepsGame_eventLoop: "keeps gameInv (processEventLoopMessages (gameEnv amb cd fails) rs)"
  unfolding processEventLoopMessages_def
  by (intro keeps_forEach)
    (auto simp: eventLoopActions_def umapPut_def inputRequestAction_def configRequestAction_def gameMadeAction_def playerAckAction_def
      intro!: keeps_intros keepsGame_ops)

lemma gameInv_deliver:
  assumes "gameInv s" "opOf ev \<in> set (pending s)" "possible ev s"
  shows "gameInv (snd (serverDeliver (gameEnv amb cd fails) ev s))"
proof -
  have inv: "clientInv s" "connInv s" "idInv s" using assms(1) by (simp_all add: gameInv_def)
  have "idInv (snd (serverDeliver (gameEnv amb cd fails) ev s))" using keepsId_deliver inv(3) unfolding keeps_def by blast
  with clientInv_deliver [OF inv(1,2) assms(2)] connInv_deliver [OF inv(2) assms(2,3) calm_gameEnv] show ?thesis
    by (simp add: gameInv_def)
qed

lemma gameInv_update:
  "gameInv s \<Longrightarrow> feasible (gameEnv amb cd fails) evs s \<Longrightarrow> gameInv (snd (serverUpdate (gameEnv amb cd fails) evs s))"
proof (induction evs arbitrary: s)
  case Nil
  then show ?case by (simp add: serverUpdate_def run_simps)
next
  case (Cons ev evs)
  obtain r t where t: "serverDeliver (gameEnv amb cd fails) ev s = (r, t)" by (cases "serverDeliver (gameEnv amb cd fails) ev s")
  have "gameInv t" using gameInv_deliver [of s ev amb cd fails] Cons.prems t by simp
  with Cons.IH [of t] Cons.prems(2) t show ?case
    by (cases r) (simp_all add: serverUpdate_def andThen_def)
qed

lemma catchUpdate_state: "snd (catchUpdate m s) = snd (m s)"
  by (auto simp: catchUpdate_def split: prod.split sum.split)

lemma andThen_keeps: "I (snd (m s)) \<Longrightarrow> (\<And>x. keeps I (f x)) \<Longrightarrow> I (snd (andThen m f s))"
  by (cases "m s") (auto simp: andThen_def keeps_def split: sum.split)

lemma gameInv_round:
  assumes "gameInv s" "feasible (gameEnv amb cd fails) evs s"
  shows "gameInv (snd (serverRound fuel (gameEnv amb cd fails) evs s))"
  unfolding serverRound_def
proof (rule andThen_keeps)
  show "gameInv (snd (catchUpdate (serverUpdate (gameEnv amb cd fails) evs) s))"
    using gameInv_update [OF assms] by (simp only: catchUpdate_state)
qed (auto intro!: keeps_intros keepsGame_ops keepsGame_receive keepsGame_processMessages keepsGame_eventLoop split: prod.split)

lemma gameInv_loop:
  "gameInv s \<Longrightarrow> feasibleRounds fuel (gameEnv amb cd fails) rounds s \<Longrightarrow>
     serverLoop fuel (gameEnv amb cd fails) rounds s = (r, t) \<Longrightarrow> gameInv t"
proof (induction rounds arbitrary: s)
  case Nil
  then show ?case by (auto simp: run_simps)
next
  case (Cons evs rounds)
  obtain q u where u: "serverRound fuel (gameEnv amb cd fails) evs s = (q, u)" by (cases "serverRound fuel (gameEnv amb cd fails) evs s")
  have "gameInv u" using gameInv_round [of s amb cd fails evs fuel] Cons.prems(1,2) u by simp
  with Cons u show ?case by (cases q) (auto simp: andThen_def ok_def split: if_splits)
qed

lemma gameInv_start: "gameInv (buildImpl page [] l ws)"
  unfolding gameInv_def by (intro conjI gameReach_clients [OF game_start] serverReach_inv [OF calm_gameEnv reach_start])

lemma gameInv_facts:
  assumes "gameInv s"
  shows "distinct (user s)" "set (user s) = dom (channels s)"
    "\<forall>c \<in> set (user s). channels s c = Some c \<and> (\<exists>ch. chans s c = Some ch \<and> \<not> disconnected ch)"
    "\<forall>c d i. socketToPlayerID s c = Some i \<and> socketToPlayerID s d = Some i \<longrightarrow> c = d"
    "\<forall>c d i. socketToGameInstanceID s c = Some i \<and> socketToGameInstanceID s d = Some i \<longrightarrow> c = d"
proof -
  have inv: "clientInv s" "connInv s" "idInv s" using assms by (simp_all add: gameInv_def)
  show "distinct (user s)" "set (user s) = dom (channels s)" using inv(1) by (simp_all add: clientInv_def)
  then have "channels s c = Some c \<and> (\<exists>ch. chans s c = Some ch \<and> \<not> disconnected ch)" if "c \<in> set (user s)" for c
    using connInvD [OF inv(2), of c] that by (auto simp: viewOk_def viewOf_def split: option.splits)
  then show "\<forall>c \<in> set (user s). channels s c = Some c \<and> (\<exists>ch. chans s c = Some ch \<and> \<not> disconnected ch)" by blast
  show "\<forall>c d i. socketToPlayerID s c = Some i \<and> socketToPlayerID s d = Some i \<longrightarrow> c = d"
    "\<forall>c d i. socketToGameInstanceID s c = Some i \<and> socketToGameInstanceID s d = Some i \<longrightarrow> c = d"
    using inv(3) unfolding idInv_def idsOk_def by blast+
qed

section \<open>How a run ends\<close>

lemma serverRound_stops:
  assumes "serverRound fuel e evs s = (Inr b, t)"
  shows "if b then \<exists>x. fst (serverUpdate e evs s) = Inl x \<and> isException x else fst (serverUpdate e evs s) = Inr ()"
proof -
  from assms obtain c u where c: "catchUpdate (serverUpdate e evs) s = (Inr c, u)" and "b = c"
    unfolding serverRound_def by (elim andThen_InrE) (auto simp: run_simps elim!: andThen_InrE)
  with c show ?thesis by (auto simp: catchUpdate_def split: prod.splits sum.splits if_splits)
qed

text \<open>
  \<open>stoppedAt rounds s evs u\<close>: all the rounds before the round \<open>evs\<close> went on, and \<open>u\<close> is the server before it.
\<close>

definition stoppedAt :: "nat \<Rightarrow> (Connection list, 'w, 'r) serverEnv \<Rightarrow> completion list list \<Rightarrow>
    (Connection list, 'w, 'r) serverState \<Rightarrow> completion list \<Rightarrow> (Connection list, 'w, 'r) serverState \<Rightarrow> bool" where
  "stoppedAt fuel e rounds s evs u \<longleftrightarrow>
     (\<exists>before after. rounds = before @ evs # after \<and> serverLoop fuel e before s = (Inr None, u))"

lemma stoppedAt_first: "stoppedAt fuel e (evs # rounds) s evs s"
  unfolding stoppedAt_def by (rule exI [of _ "[]"], rule exI [of _ rounds]) (simp add: run_simps)

lemma stoppedAt_next:
  assumes "serverRound fuel e evs s = (Inr False, t)" "stoppedAt fuel e rounds t fs u"
  shows "stoppedAt fuel e (evs # rounds) s fs u"
proof -
  from assms(2) obtain before after where "rounds = before @ fs # after" "serverLoop fuel e before t = (Inr None, u)"
    by (auto simp: stoppedAt_def)
  with assms(1) show ?thesis
    unfolding stoppedAt_def by (intro exI [of _ "evs # before"] exI [of _ after]) (simp add: andThen_def)
qed

lemma serverLoop_ends:
  assumes "serverLoop fuel e rounds s = (r, t)"
  shows "(\<forall>n. r = Inr (Some n) \<longrightarrow> n = 0 \<and>
       (\<exists>evs u x. stoppedAt fuel e rounds s evs u \<and> fst (serverUpdate e evs u) = Inl x \<and> isException x)) \<and>
     (\<forall>x. r = Inl x \<longrightarrow> (\<exists>evs u. stoppedAt fuel e rounds s evs u \<and> fst (serverRound fuel e evs u) = Inl x)) \<and>
     (r = Inr None \<longrightarrow> (\<forall>evs u. stoppedAt fuel e rounds s evs u \<longrightarrow> fst (serverUpdate e evs u) = Inr ()))"
  using assms
proof (induction rounds arbitrary: s)
  case Nil
  then show ?case by (auto simp: run_simps stoppedAt_def)
next
  case (Cons evs rounds)
  obtain q u where u: "serverRound fuel e evs s = (q, u)" by (cases "serverRound fuel e evs s")
  consider (error) x where "q = Inl x" | (stop) "q = Inr True" | (goon) "q = Inr False"
    by (cases q) (auto intro: that)
  then show ?case
  proof cases
    case error
    with Cons.prems u have "r = Inl x" by (simp add: andThen_def)
    with u error stoppedAt_first [of fuel e evs rounds s] show ?thesis by (auto intro!: exI [of _ evs] exI [of _ s])
  next
    case stop
    with Cons.prems u have "r = Inr (Some 0)" by (simp add: andThen_def run_simps)
    with serverRound_stops [OF u [unfolded stop]] stoppedAt_first [of fuel e evs rounds s] show ?thesis
      by (auto intro!: exI [of _ evs] exI [of _ s])
  next
    case goon
    with Cons.prems u have loop: "serverLoop fuel e rounds u = (r, t)" by (simp add: andThen_def)
    note rest = Cons.IH [OF loop] and next_round = stoppedAt_next [OF u [unfolded goon]]
    have all: "fst (serverUpdate e fs w) = Inr ()" if none: "r = Inr None" and at: "stoppedAt fuel e (evs # rounds) s fs w" for fs w
    proof -
      from at obtain before after where b: "evs # rounds = before @ fs # after" "serverLoop fuel e before s = (Inr None, w)"
        by (auto simp: stoppedAt_def)
      show ?thesis
      proof (cases before)
        case Nil
        with b serverRound_stops [OF u [unfolded goon]] show ?thesis by (simp add: run_simps)
      next
        case (Cons d ds)
        with b u goon have "stoppedAt fuel e rounds u fs w" by (auto simp: stoppedAt_def andThen_def)
        with rest none show ?thesis by blast
      qed
    qed
    from rest next_round all show ?thesis by blast
  qed
qed

section \<open>Properties\<close>


text \<open>A port that is too great wraps around; in the first round a client connects, in the second nothing happens.\<close>

definition webFiles :: "string \<Rightarrow> string option" where
  "webFiles = [''webgame.html'' \<mapsto> ''page'']"

definition webRounds :: "completion list list" where
  "webRounds = [[SocketAccepted 0 False, RequestRead 0 (Some upgradeRequest) 7, WebsocketAccepted 7 False], []]"

lemma webRounds_feasible: "feasibleRounds 1 plainGame webRounds (buildImpl ''page'' [] \<lparr>outQ = [], inQ = [], readContentQ = []\<rparr> [])"
  by code_simp


end
