(* ===== verification/SetupGameSetting.thy ===== *)
theory SetupGameSetting
  imports Variables RuleParser
begin

text \<open>
  The settings of a game (\<open>lib/setupGameSetting/SetupGameSetting.cpp\<close>): from the syntax tree of a game to
  maps of variables. The syntax tree is the parameter \<open>tsApi\<close> of \<open>RuleParser\<close>, the variables live in the
  store of \<open>Variables\<close>; a local \<open>varType\<close> that is passed by reference is a cell of its own, a local
  \<open>Variable\<close> an object of its own.
\<close>

section \<open>The settings\<close>

record GameSettings =
  setupSettings :: "(string, ptr) smap"
  constants :: "(string, ptr) smap"
  gameVariables :: "(string, ptr) smap"
  perPlayerVariables :: "(string, ptr) smap"
  perAudienceVariables :: "(string, ptr) smap"

record setupState =
  setupMem :: store
  gameSettings :: GameSettings

definition newGameSettings :: GameSettings where
  "newGameSettings = \<lparr>setupSettings = [], constants = [], gameVariables = [], perPlayerVariables = [],
     perAudienceVariables = []\<rparr>"

definition onMem :: "(store, 'a) prog \<Rightarrow> (setupState, 'a) prog" where
  "onMem = zoom setupMem (\<lambda>m st. st\<lparr>setupMem := m\<rparr>)"

section \<open>Numbers and truth values\<close>

text \<open>\<open>parseInt\<close> reads the C text of the node. Whatever \<open>std::exception\<close> comes up is turned into its message,
  which dies with the exception, so the pointer that is thrown dangles and the text the model gives it is
  only what it once pointed to.\<close>

definition whatOf :: "cpp_error \<Rightarrow> string" where
  "whatOf e = (case e of RuntimeError m \<Rightarrow> m | BadVariableArg m \<Rightarrow> m | OutOfRange (Some m) \<Rightarrow> m | _ \<Rightarrow> ''stoi'')"

definition parseInt :: "'n tsApi \<Rightarrow> 'n \<Rightarrow> string \<Rightarrow> (store, int) prog" where
  "parseInt api intNode source =
     (case (case getSourceRange api intNode source of
              Inl e \<Rightarrow> Inl e
            | Inr x \<Rightarrow> stoi (takeWhile (\<lambda>c. c \<noteq> CHR 0x00) x)) of
        Inr i \<Rightarrow> ok i
      | Inl e \<Rightarrow> if isException e then raise (ThrownText (whatOf e)) else raise e)"

definition parseBool :: "'n tsApi \<Rightarrow> 'n \<Rightarrow> string \<Rightarrow> (store, bool) prog" where
  "parseBool api intNode source =
     andThen (rangeOf api source intNode) (\<lambda>x.
       if x = ''true'' then ok True
       else if x = ''false'' then ok False
       else raise (ThrownText ''boolean neither true nor false''))"

section \<open>Maps of literal values\<close>

text \<open>\<open>std::get<listObj>\<close> and \<open>std::get<varMapType>\<close> of a local value.\<close>

definition takeList :: "addr \<Rightarrow> (store, varType) prog" where
  "takeList c = andThen (readCell c) (\<lambda>v. case v of VList l \<Rightarrow> ok v | _ \<Rightarrow> raise BadVariantAccess)"

definition takeVarMap :: "addr \<Rightarrow> (store, (string, ptr) smap) prog" where
  "takeVarMap c = andThen (readCell c) (\<lambda>v. case v of VVarMap m \<Rightarrow> ok m | _ \<Rightarrow> raise BadVariantAccess)"

text \<open>The loops of the two parsers; \<open>rec\<close> is \<open>recursiveExpressionParser\<close> with the fuel that is left.\<close>

primrec pairLoop :: "('n \<Rightarrow> (store, addr) prog) \<Rightarrow> 'n tsApi \<Rightarrow> string \<Rightarrow> 'n \<Rightarrow> addr \<Rightarrow> nat list \<Rightarrow> (store, unit) prog" where
  "pairLoop rec api source mapRoot m [] = ok ()"
| "pairLoop rec api source mapRoot m (i # is) =
     andThen (childOf api mapRoot i) (\<lambda>elementRoot.
     andThen (fieldOf api elementRoot ''key'') (\<lambda>keyNode. andThen (rangeOf api source keyNode) (\<lambda>key.
     andThen (fieldOf api elementRoot ''value'') (\<lambda>valueNode. andThen (rec valueNode) (\<lambda>variable.
     andThen (setValueVar m (VString key) variable) (\<lambda>_. pairLoop rec api source mapRoot m is))))))"

definition valueMapParser :: "('n \<Rightarrow> (store, addr) prog) \<Rightarrow> 'n tsApi \<Rightarrow> string \<Rightarrow> 'n \<Rightarrow> (store, (string, ptr) smap) prog" where
  "valueMapParser rec api source node =
     andThen (childOf api node 0) (\<lambda>mapRoot.
     andThen (newCell (VVarMap [])) (\<lambda>m.
     andThen (numOf api mapRoot) (\<lambda>n.
     andThen (pairLoop rec api source mapRoot m [0..<n]) (\<lambda>_. takeVarMap m))))"

primrec elementLoop :: "('n \<Rightarrow> (store, addr) prog) \<Rightarrow> 'n tsApi \<Rightarrow> 'n \<Rightarrow> addr \<Rightarrow> nat list \<Rightarrow> (store, unit) prog" where
  "elementLoop rec api elementsRoot l [] = ok ()"
| "elementLoop rec api elementsRoot l (i # is) =
     andThen (childOf api elementsRoot i) (\<lambda>c. andThen (rec c) (\<lambda>variable. andThen (varGet variable) (\<lambda>v.
     andThen (push_back l v) (\<lambda>_. elementLoop rec api elementsRoot l is))))"

definition listParser :: "('n \<Rightarrow> (store, addr) prog) \<Rightarrow> 'n tsApi \<Rightarrow> 'n \<Rightarrow> (store, addr) prog" where
  "listParser rec api literal =
     andThen (newCell (VList [])) (\<lambda>l.
     andThen (fieldOf api literal ''elements'') (\<lambda>elementsRoot.
     andThen
       (if isNull api elementsRoot then ok ()
        else andThen (numOf api elementsRoot) (\<lambda>n. elementLoop rec api elementsRoot l [0..<n]))
       (\<lambda>_. andThen (takeList l) makeShared)))"

primrec recursiveExpressionParser :: "nat \<Rightarrow> 'n tsApi \<Rightarrow> string \<Rightarrow> 'n \<Rightarrow> (store, addr) prog" where
  "recursiveExpressionParser 0 api source node = raise OutOfFuel"
| "recursiveExpressionParser (Suc fuel) api source node =
     andThen (childOf api node 0) (\<lambda>c. andThen (typeOf api c) (\<lambda>t.
       if t = ''value_map''
       then andThen (valueMapParser (recursiveExpressionParser fuel api source) api source node) (\<lambda>m. makeShared (VVarMap m))
       else if t = ''list_literal'' then listParser (recursiveExpressionParser fuel api source) api c
       else if t = ''quoted_string'' then andThen (rangeOf api source c) (\<lambda>x. makeShared (VString x))
       else if t = ''number'' then andThen (parseInt api c source) (\<lambda>i. makeShared (VInt i))
       else makeShared (VInt 0)))"

section \<open>The configuration\<close>

text \<open>\<open>variable = makeVar(v); VariableUtils::setValue(map, key, variable)\<close>\<close>

definition putVar :: "addr \<Rightarrow> string \<Rightarrow> varType \<Rightarrow> (store, unit) prog" where
  "putVar m k v = andThen (makeShared v) (\<lambda>variable. setValueVar m (VString k) variable)"

text \<open>A range is a list of its two ends.\<close>

definition rangeParser :: "'n tsApi \<Rightarrow> string \<Rightarrow> 'n \<Rightarrow> nat \<Rightarrow> (store, varType) prog" where
  "rangeParser api source node i =
     andThen (newCell (VList [])) (\<lambda>l.
     andThen (childOf api node i) (\<lambda>r. andThen (childOf api r 0) (\<lambda>lowerNode.
     andThen (parseInt api lowerNode source) (\<lambda>lower. andThen (push_back l (VInt lower)) (\<lambda>_.
     andThen (childOf api node i) (\<lambda>r. andThen (childOf api r 1) (\<lambda>upperNode.
     andThen (parseInt api upperNode source) (\<lambda>upper. andThen (push_back l (VInt upper)) (\<lambda>_.
       takeList l)))))))))"

definition fieldText :: "'n tsApi \<Rightarrow> string \<Rightarrow> 'n \<Rightarrow> string \<Rightarrow> (store, string) prog" where
  "fieldText api source node f = andThen (fieldOf api node f) (rangeOf api source)"

text \<open>One setting: its kind, its prompt, and for an integer its range and default.\<close>

definition setupParser :: "'n tsApi \<Rightarrow> string \<Rightarrow> 'n \<Rightarrow> addr \<Rightarrow> (store, unit) prog" where
  "setupParser api source setup m =
     andThen (fieldText api source setup ''name'') (\<lambda>name.
     andThen (newCell (VVarMap [])) (\<lambda>m2.
     andThen (fieldText api source setup ''kind'') (\<lambda>kind.
     andThen (putVar m2 ''kind'' (VString kind)) (\<lambda>_.
     andThen (fieldText api source setup ''prompt'') (\<lambda>prompt.
     andThen (putVar m2 ''prompt'' (VString prompt)) (\<lambda>_.
     andThen
       (if kind = ''integer'' then
          andThen (rangeParser api source setup 2) (\<lambda>r.
          andThen (putVar m2 ''range'' r) (\<lambda>_.
          andThen (numOf api setup) (\<lambda>n.
            if 3 < n then
              andThen (childOf api setup 3) (\<lambda>d. andThen (parseInt api d source) (\<lambda>i.
                putVar m2 ''default_int'' (VInt i)))
            else ok ())))
        else ok ())
       (\<lambda>_. andThen (takeVarMap m2) (\<lambda>entries. putVar m name (VVarMap entries)))))))))"

primrec setupLoop :: "'n tsApi \<Rightarrow> string \<Rightarrow> 'n \<Rightarrow> addr \<Rightarrow> nat list \<Rightarrow> (store, unit) prog" where
  "setupLoop api source gameConfig m [] = ok ()"
| "setupLoop api source gameConfig m (i # is) =
     andThen (childOf api gameConfig i) (\<lambda>setup. andThen (setupParser api source setup m) (\<lambda>_.
       setupLoop api source gameConfig m is))"

definition configurationMap :: "'n tsApi \<Rightarrow> string \<Rightarrow> 'n \<Rightarrow> (store, (string, ptr) smap) prog" where
  "configurationMap api source root =
     andThen (fieldOf api root ''configuration'') (\<lambda>gameConfig.
     andThen (newCell (VVarMap [])) (\<lambda>m.
     andThen (childOf api gameConfig 0) (\<lambda>c0. andThen (rangeOf api source c0) (\<lambda>name.
     andThen (putVar m ''name'' (VString name)) (\<lambda>_.
     andThen (rangeParser api source gameConfig 1) (\<lambda>r.
     andThen (putVar m ''player_range'' r) (\<lambda>_.
     andThen (childOf api gameConfig 2) (\<lambda>c2. andThen (parseBool api c2 source) (\<lambda>audience.
     andThen (putVar m ''audience'' (VBool audience)) (\<lambda>_.
     andThen (numOf api gameConfig) (\<lambda>n.
     andThen (setupLoop api source gameConfig m [3..<n]) (\<lambda>_.
       takeVarMap m))))))))))))"

definition setSettings :: "(GameSettings \<Rightarrow> GameSettings) \<Rightarrow> (setupState, unit) prog" where
  "setSettings f = modify (\<lambda>st. st\<lparr>gameSettings := f (gameSettings st)\<rparr>)"

definition configurationParser :: "'n tsApi \<Rightarrow> string \<Rightarrow> 'n \<Rightarrow> (setupState, unit) prog" where
  "configurationParser api source root =
     andThen (onMem (configurationMap api source root)) (\<lambda>m. setSettings (\<lambda>g. g\<lparr>setupSettings := m\<rparr>))"

text \<open>The four maps of values.\<close>

definition sectionMap :: "nat \<Rightarrow> 'n tsApi \<Rightarrow> string \<Rightarrow> 'n \<Rightarrow> string \<Rightarrow> (setupState, (string, ptr) smap) prog" where
  "sectionMap fuel api source root f =
     andThen (fieldOf api root f) (\<lambda>node.
       onMem (valueMapParser (recursiveExpressionParser fuel api source) api source node))"

definition constantsParser :: "nat \<Rightarrow> 'n tsApi \<Rightarrow> string \<Rightarrow> 'n \<Rightarrow> (setupState, unit) prog" where
  "constantsParser fuel api source root =
     andThen (sectionMap fuel api source root ''constants'') (\<lambda>m. setSettings (\<lambda>g. g\<lparr>constants := m\<rparr>))"

definition variablesParser :: "nat \<Rightarrow> 'n tsApi \<Rightarrow> string \<Rightarrow> 'n \<Rightarrow> (setupState, unit) prog" where
  "variablesParser fuel api source root =
     andThen (sectionMap fuel api source root ''variables'') (\<lambda>m. setSettings (\<lambda>g. g\<lparr>gameVariables := m\<rparr>))"

definition perPlayerParser :: "nat \<Rightarrow> 'n tsApi \<Rightarrow> string \<Rightarrow> 'n \<Rightarrow> (setupState, unit) prog" where
  "perPlayerParser fuel api source root =
     andThen (sectionMap fuel api source root ''per_player'') (\<lambda>m. setSettings (\<lambda>g. g\<lparr>perPlayerVariables := m\<rparr>))"

definition perAudienceParser :: "nat \<Rightarrow> 'n tsApi \<Rightarrow> string \<Rightarrow> 'n \<Rightarrow> (setupState, unit) prog" where
  "perAudienceParser fuel api source root =
     andThen (sectionMap fuel api source root ''per_audience'') (\<lambda>m. setSettings (\<lambda>g. g\<lparr>perAudienceVariables := m\<rparr>))"

definition parseSettings :: "nat \<Rightarrow> 'n tsApi \<Rightarrow> string \<Rightarrow> 'n \<Rightarrow> (setupState, unit) prog" where
  "parseSettings fuel api source root =
     andThen (configurationParser api source root) (\<lambda>_.
     andThen (constantsParser fuel api source root) (\<lambda>_.
     andThen (variablesParser fuel api source root) (\<lambda>_.
     andThen (perPlayerParser fuel api source root) (\<lambda>_.
       perAudienceParser fuel api source root))))"

end
