(* ===== verification/SetupProps.thy ===== *)
theory SetupProps
  imports SetupGameSetting ParserProps
begin

text \<open>
  What the parsed settings hold: the literals of the syntax tree (\<open>isLiteral\<close>), built as variables in the
  store (\<open>holds\<close>), with nothing older changed.
\<close>

section \<open>Literals and their syntax trees\<close>

datatype literal = LNum int | LText string | LBool bool | LList "literal list" | LMap "(string \<times> literal) list" | LOther

definition literalNode :: "'n tsApi \<Rightarrow> 'n \<Rightarrow> string \<Rightarrow> 'n \<Rightarrow> bool" where
  "literalNode api n t c \<longleftrightarrow> getNamedChild api n 0 = Inr c \<and> tsType api c = Inr t"

definition fieldRange :: "'n tsApi \<Rightarrow> string \<Rightarrow> 'n \<Rightarrow> string \<Rightarrow> string \<Rightarrow> bool" where
  "fieldRange api src n f x \<longleftrightarrow> (\<exists>y. getChildByFieldName api n f = Inr y \<and> getSourceRange api y src = Inr x)"

inductive isLiteral :: "'n tsApi \<Rightarrow> string \<Rightarrow> 'n \<Rightarrow> literal \<Rightarrow> bool"
  and literalsIn :: "'n tsApi \<Rightarrow> string \<Rightarrow> 'n \<Rightarrow> nat list \<Rightarrow> literal list \<Rightarrow> bool"
  and pairsIn :: "'n tsApi \<Rightarrow> string \<Rightarrow> 'n \<Rightarrow> nat list \<Rightarrow> (string \<times> literal) list \<Rightarrow> bool" for api src where
  literal_map: "literalNode api n ''value_map'' c \<Longrightarrow> getNumNamedChildren api c = Inr k \<Longrightarrow>
    pairsIn api src c [0..<k] kvs \<Longrightarrow> isLiteral api src n (LMap kvs)"
| literal_empty: "literalNode api n ''list_literal'' c \<Longrightarrow> noField api c ''elements'' \<Longrightarrow> isLiteral api src n (LList [])"
| literal_list: "literalNode api n ''list_literal'' c \<Longrightarrow> hasField api c ''elements'' e \<Longrightarrow>
    getNumNamedChildren api e = Inr k \<Longrightarrow> literalsIn api src e [0..<k] ls \<Longrightarrow> isLiteral api src n (LList ls)"
| literal_text: "literalNode api n ''quoted_string'' c \<Longrightarrow> getSourceRange api c src = Inr x \<Longrightarrow>
    isLiteral api src n (LText x)"
| literal_number: "literalNode api n ''number'' c \<Longrightarrow> getSourceRange api c src = Inr x \<Longrightarrow> CHR 0x00 \<notin> set x \<Longrightarrow>
    stoi x = Inr i \<Longrightarrow> isLiteral api src n (LNum i)"
| literal_other: "literalNode api n t c \<Longrightarrow>
    t \<notin> {''value_map'', ''list_literal'', ''quoted_string'', ''number''} \<Longrightarrow> isLiteral api src n LOther"
| literals_none: "literalsIn api src e [] []"
| literals_next: "getNamedChild api e i = Inr c \<Longrightarrow> isLiteral api src c l \<Longrightarrow> literalsIn api src e is ls \<Longrightarrow>
    literalsIn api src e (i # is) (l # ls)"
| pairs_none: "pairsIn api src c [] []"
| pairs_next: "getNamedChild api c i = Inr x \<Longrightarrow> fieldRange api src x ''key'' k \<Longrightarrow>
    getChildByFieldName api x ''value'' = Inr y \<Longrightarrow> isLiteral api src y l \<Longrightarrow> pairsIn api src c is kvs \<Longrightarrow>
    pairsIn api src c (i # is) ((k, l) # kvs)"

section \<open>Literals in the store\<close>

text \<open>\<open>holds s lo v l\<close>: the value \<open>v\<close> is the literal \<open>l\<close>, all its parts lie at \<open>lo\<close> or above. Of several entries with
  one key the last counts; a value of another kind is 0.\<close>

inductive holds :: "store \<Rightarrow> addr \<Rightarrow> varType \<Rightarrow> literal \<Rightarrow> bool"
  and holdsAt :: "store \<Rightarrow> addr \<Rightarrow> ptr \<Rightarrow> literal \<Rightarrow> bool" for s lo where
  holds_number: "holds s lo (VInt i) (LNum i)"
| holds_text: "holds s lo (VString x) (LText x)"
| holds_truth: "holds s lo (VBool b) (LBool b)"
| holds_other: "holds s lo (VInt 0) LOther"
| holds_list: "list_all2 (holdsAt s lo) ps ls \<Longrightarrow> holds s lo (VList ps) (LList ls)"
| holds_map: "(\<forall>k. rel_option (holdsAt s lo) (map_of m k) (map_of (rev kvs) k)) \<Longrightarrow> sortedMap m \<Longrightarrow>
    holds s lo (VVarMap m) (LMap kvs)"
| holds_at: "objs s a = Some c \<Longrightarrow> cells s c = Some v \<Longrightarrow> lo \<le> a \<Longrightarrow> lo \<le> c \<Longrightarrow> a < brk s \<Longrightarrow> c < brk s \<Longrightarrow>
    holds s lo v l \<Longrightarrow> holdsAt s lo (Some a) l"

text \<open>Two stores that agree from \<open>lo\<close> on.\<close>

definition sameFrom :: "addr \<Rightarrow> store \<Rightarrow> store \<Rightarrow> bool" where
  "sameFrom lo s t \<longleftrightarrow> (\<forall>x. lo \<le> x \<and> x < brk s \<longrightarrow> objs t x = objs s x \<and> cells t x = cells s x) \<and> brk s \<le> brk t"

lemma holds_same:
  "holds s lo v l \<Longrightarrow> sameFrom lo s t \<Longrightarrow> holds t lo v l"
  "holdsAt s lo p l \<Longrightarrow> sameFrom lo s t \<Longrightarrow> holdsAt t lo p l"
proof (induction rule: holds_holdsAt.inducts)
  case (holds_list ps ls)
  then show ?case by (auto intro!: holds_holdsAt.holds_list elim: list_all2_mono)
next
  case (holds_map m kvs)
  then show ?case
    by (auto intro!: holds_holdsAt.holds_map elim!: option.rel_mono_strong)
next
  case (holds_at a c v l)
  then show ?case by (intro holds_holdsAt.holds_at [of t a c v]) (auto simp: sameFrom_def)
qed (auto intro: holds_holdsAt.intros)

lemma holds_lower:
  "holds s lo v l \<Longrightarrow> lo' \<le> lo \<Longrightarrow> holds s lo' v l"
  "holdsAt s lo p l \<Longrightarrow> lo' \<le> lo \<Longrightarrow> holdsAt s lo' p l"
proof (induction rule: holds_holdsAt.inducts)
  case (holds_list ps ls)
  then show ?case by (auto intro!: holds_holdsAt.holds_list elim: list_all2_mono)
next
  case (holds_map m kvs)
  then show ?case by (auto intro!: holds_holdsAt.holds_map elim!: option.rel_mono_strong)
next
  case (holds_at a c v l)
  then show ?case by (intro holds_holdsAt.holds_at [of s a c v]) auto
qed (auto intro: holds_holdsAt.intros)

section \<open>Building a list and a map\<close>

lemma agrees_from: "agrees s t \<Longrightarrow> sameFrom lo s t"
  by (auto simp: agrees_def sameFrom_def)

text \<open>One item more at the end of a list under construction, whose items lie above its cell.\<close>

lemma push_literal:
  assumes "cells t el = Some (VList ps)" "list_all2 (holdsAt t (Suc el)) ps ls" "holds t (Suc el) v l" "el < brk t"
  shows "\<exists>t' p. push_back el v t = (Inr (), t') \<and> cells t' el = Some (VList (ps @ [p])) \<and>
    list_all2 (holdsAt t' (Suc el)) (ps @ [p]) (ls @ [l]) \<and> el < brk t' \<and>
    (\<forall>s. agrees s t \<and> brk s \<le> el \<longrightarrow> agrees s t')"
proof -
  define t' where "t' = t\<lparr>objs := (objs t)(Suc (brk t) \<mapsto> brk t),
     cells := (cells t)(brk t \<mapsto> v, el \<mapsto> VList (ps @ [Some (Suc (brk t))])), brk := Suc (Suc (brk t))\<rparr>"
  have run: "push_back el v t = (Inr (), t')"
    using assms(1,4) by (simp add: push_back_def andThen_def run_simps t'_def)
  have same: "sameFrom (Suc el) t t'" by (simp add: sameFrom_def t'_def)
  have old: "list_all2 (holdsAt t' (Suc el)) ps ls"
    using assms(2) by (rule list_all2_mono) (rule holds_same(2) [OF _ same])
  have new: "holdsAt t' (Suc el) (Some (Suc (brk t))) l"
    by (rule holds_at [of _ _ "brk t" v])
      (use assms(4) holds_same(1) [OF assms(3) same] in \<open>auto simp: t'_def\<close>)
  have "\<forall>s. agrees s t \<and> brk s \<le> el \<longrightarrow> agrees s t'" by (auto simp: agrees_def t'_def)
  with run old new assms(4) show ?thesis
    by (intro exI [of _ t'] exI [of _ "Some (Suc (brk t))"]) (simp add: t'_def list_all2_appendI)
qed

text \<open>One entry more in a map under construction.\<close>

definition mapHolds :: "store \<Rightarrow> addr \<Rightarrow> (string, ptr) smap \<Rightarrow> (string \<times> literal) list \<Rightarrow> bool" where
  "mapHolds s lo m kvs \<longleftrightarrow> sortedMap m \<and> (\<forall>k. rel_option (holdsAt s lo) (map_of m k) (map_of (rev kvs) k))"

lemma mapHolds_same: "mapHolds s lo m kvs \<Longrightarrow> sameFrom lo s t \<Longrightarrow> mapHolds t lo m kvs"
  unfolding mapHolds_def by (blast intro: option.rel_mono_strong holds_same(2))

lemma put_literal:
  assumes "cells t el = Some (VVarMap m)" "mapHolds t (Suc el) m kvs" "el < brk t"
    and "objs t a = Some c" "cells t c = Some v" "Suc el \<le> a" "Suc el \<le> c" "a < brk t" "c < brk t" "holds t (Suc el) v l"
  shows "\<exists>t' m'. setValueVar el (VString k) a t = (Inr (), t') \<and> cells t' el = Some (VVarMap m') \<and>
    mapHolds t' (Suc el) m' (kvs @ [(k, l)]) \<and> el < brk t' \<and> (\<forall>s. agrees s t \<and> brk s \<le> el \<longrightarrow> agrees s t')"
proof -
  define m' where "m' = mapPut k (Some (brk t)) m"
  define t' where "t' = t\<lparr>objs := (objs t)(brk t \<mapsto> c), cells := (cells t)(el \<mapsto> VVarMap m'), brk := Suc (brk t)\<rparr>"
  have run: "setValueVar el (VString k) a t = (Inr (), t')"
    using assms(1,4) by (simp add: setValueVar_def copyVar_def andThen_def run_simps t'_def m'_def)
  have same: "sameFrom (Suc el) t t'" by (simp add: sameFrom_def t'_def)
  have new: "holdsAt t' (Suc el) (Some (brk t)) l"
    by (rule holds_at [of _ _ c v]) (use assms holds_same(1) [OF assms(10) same] in \<open>auto simp: t'_def\<close>)
  have old: "mapHolds t' (Suc el) m kvs" by (rule mapHolds_same [OF assms(2) same])
  then have "mapHolds t' (Suc el) m' (kvs @ [(k, l)])"
    using new by (auto simp: mapHolds_def m'_def map_of_mapPut sortedMap_mapPut)
  moreover have "\<forall>s. agrees s t \<and> brk s \<le> el \<longrightarrow> agrees s t'" by (auto simp: agrees_def t'_def)
  ultimately show ?thesis using run assms(3) by (intro exI [of _ t'] exI [of _ m']) (simp add: t'_def)
qed

section \<open>The parser builds the literals\<close>

text \<open>\<open>a\<close> is a new variable that holds \<open>l\<close>, and nothing older has changed.\<close>

definition parsedTo :: "store \<Rightarrow> addr \<Rightarrow> store \<Rightarrow> literal \<Rightarrow> bool" where
  "parsedTo s a t l \<longleftrightarrow> agrees s t \<and> (\<exists>c v. objs t a = Some c \<and> cells t c = Some v \<and> brk s \<le> a \<and> brk s \<le> c \<and>
     a < brk t \<and> c < brk t \<and> holds t (brk s) v l)"

definition literalBy :: "'n tsApi \<Rightarrow> string \<Rightarrow> 'n \<Rightarrow> literal \<Rightarrow> nat \<Rightarrow> bool" where
  "literalBy api src n l m \<longleftrightarrow> (\<forall>s. \<exists>a t. recursiveExpressionParser m api src n s = (Inr a, t) \<and> parsedTo s a t l)"

definition literalsBy :: "'n tsApi \<Rightarrow> string \<Rightarrow> 'n \<Rightarrow> nat list \<Rightarrow> literal list \<Rightarrow> nat \<Rightarrow> bool" where
  "literalsBy api src e is ls m \<longleftrightarrow> (\<forall>t el ps ks. cells t el = Some (VList ps) \<and> list_all2 (holdsAt t (Suc el)) ps ks \<and>
     el < brk t \<longrightarrow> (\<exists>t' ps'. elementLoop (recursiveExpressionParser m api src) api e el is t = (Inr (), t') \<and>
       cells t' el = Some (VList ps') \<and> list_all2 (holdsAt t' (Suc el)) ps' (ks @ ls) \<and> el < brk t' \<and>
       (\<forall>s. agrees s t \<and> brk s \<le> el \<longrightarrow> agrees s t')))"

definition pairsBy :: "'n tsApi \<Rightarrow> string \<Rightarrow> 'n \<Rightarrow> nat list \<Rightarrow> (string \<times> literal) list \<Rightarrow> nat \<Rightarrow> bool" where
  "pairsBy api src c is kvs m \<longleftrightarrow> (\<forall>t el mp ks. cells t el = Some (VVarMap mp) \<and> mapHolds t (Suc el) mp ks \<and>
     el < brk t \<longrightarrow> (\<exists>t' mp'. pairLoop (recursiveExpressionParser m api src) api src c el is t = (Inr (), t') \<and>
       cells t' el = Some (VVarMap mp') \<and> mapHolds t' (Suc el) mp' (ks @ kvs) \<and> el < brk t' \<and>
       (\<forall>s. agrees s t \<and> brk s \<le> el \<longrightarrow> agrees s t')))"

lemma makeShared_literal:
  assumes "agrees s t" "holds t (brk s) v l"
  shows "\<exists>a t'. makeShared v t = (Inr a, t') \<and> parsedTo s a t' l"
proof -
  define t' where "t' = t\<lparr>objs := (objs t)(Suc (brk t) \<mapsto> brk t), cells := (cells t)(brk t \<mapsto> v), brk := Suc (Suc (brk t))\<rparr>"
  have run: "makeShared v t = (Inr (Suc (brk t)), t')"
    by (simp add: makeShared_def newCell_def newObj_def andThen_def t'_def)
  have "agrees s t'" "brk s \<le> brk t" using assms(1) by (auto simp: agrees_def t'_def)
  moreover have "sameFrom (brk s) t t'" by (simp add: sameFrom_def t'_def)
  from holds_same(1) [OF assms(2) this] have "holds t' (brk s) v l" .
  ultimately show ?thesis
    using run by (intro exI [of _ "Suc (brk t)"] exI [of _ t']) (auto simp: parsedTo_def t'_def)
qed

lemma literalsBy_next:
  assumes "getNamedChild api e i = Inr c" "literalBy api src c l m" "literalsBy api src e is ls m"
  shows "literalsBy api src e (i # is) (l # ls) m"
  unfolding literalsBy_def
proof (intro allI impI, elim conjE)
  fix t el ps ks assume t: "cells t el = Some (VList ps)" "list_all2 (holdsAt t (Suc el)) ps ks" "el < brk t"
  obtain a u where u: "recursiveExpressionParser m api src c t = (Inr a, u)" "parsedTo t a u l"
    using assms(2) unfolding literalBy_def by blast
  then obtain x v where v: "objs u a = Some x" "cells u x = Some v" "holds u (brk t) v l" "agrees t u"
    by (auto simp: parsedTo_def)
  have u1: "cells u el = Some (VList ps)" "el < brk u" using t(1,3) v(4) by (auto simp: agrees_def)
  have u2: "list_all2 (holdsAt u (Suc el)) ps ks"
    using t(2) by (rule list_all2_mono) (rule holds_same(2) [OF _ agrees_from [OF v(4)]])
  have u3: "holds u (Suc el) v l" using v(3) by (rule holds_lower(1)) (simp add: Suc_leI t(3))
  obtain w p where w: "push_back el v u = (Inr (), w)" "cells w el = Some (VList (ps @ [p]))"
      "list_all2 (holdsAt w (Suc el)) (ps @ [p]) (ks @ [l])" "el < brk w" "\<forall>s. agrees s u \<and> brk s \<le> el \<longrightarrow> agrees s w"
    using push_literal [OF u1(1) u2 u3 u1(2)] by (elim exE conjE)
  obtain t' ps' where t': "elementLoop (recursiveExpressionParser m api src) api e el is w = (Inr (), t')"
      "cells t' el = Some (VList ps')" "list_all2 (holdsAt t' (Suc el)) ps' ((ks @ [l]) @ ls)" "el < brk t'"
      "\<forall>s. agrees s w \<and> brk s \<le> el \<longrightarrow> agrees s t'"
    using assms(3) w(2-4) unfolding literalsBy_def by blast
  have get: "varGet a u = (Inr v, u)" using v(1,2) by (simp add: varGet_def cellOf_def readCell_def run_simps)
  have "agrees s t'" if "agrees s t" "brk s \<le> el" for s
    using that v(4) w(5) t'(5) agrees_trans by blast
  with t' show "\<exists>t' ps'. elementLoop (recursiveExpressionParser m api src) api e el (i # is) t = (Inr (), t') \<and>
       cells t' el = Some (VList ps') \<and> list_all2 (holdsAt t' (Suc el)) ps' (ks @ l # ls) \<and> el < brk t' \<and>
       (\<forall>s. agrees s t \<and> brk s \<le> el \<longrightarrow> agrees s t')"
    by (intro exI [of _ t'] exI [of _ ps']) (simp add: assms(1) run_simps u(1) get w(1))
qed

lemma pairsBy_next:
  assumes "getNamedChild api c i = Inr x" "fieldRange api src x ''key'' k" "getChildByFieldName api x ''value'' = Inr y"
    and "literalBy api src y l m" "pairsBy api src c is kvs m"
  shows "pairsBy api src c (i # is) ((k, l) # kvs) m"
  unfolding pairsBy_def
proof (intro allI impI, elim conjE)
  fix t el mp ks assume t: "cells t el = Some (VVarMap mp)" "mapHolds t (Suc el) mp ks" "el < brk t"
  obtain a u where u: "recursiveExpressionParser m api src y t = (Inr a, u)" "parsedTo t a u l"
    using assms(4) unfolding literalBy_def by blast
  then obtain z v where v: "objs u a = Some z" "cells u z = Some v" "holds u (brk t) v l" "agrees t u"
      "brk t \<le> a" "brk t \<le> z" "a < brk u" "z < brk u"
    by (auto simp: parsedTo_def)
  have u1: "cells u el = Some (VVarMap mp)" "el < brk u" using t(1,3) v(4) by (auto simp: agrees_def)
  have u2: "mapHolds u (Suc el) mp ks" by (rule mapHolds_same [OF t(2) agrees_from [OF v(4)]])
  have u3: "holds u (Suc el) v l" "Suc el \<le> a" "Suc el \<le> z"
    using holds_lower(1) [OF v(3), of "Suc el"] v(5,6) t(3) by auto
  obtain w m' where w: "setValueVar el (VString k) a u = (Inr (), w)" "cells w el = Some (VVarMap m')"
      "mapHolds w (Suc el) m' (ks @ [(k, l)])" "el < brk w" "\<forall>s. agrees s u \<and> brk s \<le> el \<longrightarrow> agrees s w"
    using put_literal [OF u1(1) u2 u1(2) v(1,2) u3(2,3) v(7,8) u3(1), of k] by (elim exE conjE)
  obtain t' mp' where t': "pairLoop (recursiveExpressionParser m api src) api src c el is w = (Inr (), t')"
      "cells t' el = Some (VVarMap mp')" "mapHolds t' (Suc el) mp' ((ks @ [(k, l)]) @ kvs)" "el < brk t'"
      "\<forall>s. agrees s w \<and> brk s \<le> el \<longrightarrow> agrees s t'"
    using assms(5) w(2-4) unfolding pairsBy_def by blast
  obtain kn where kn: "getChildByFieldName api x ''key'' = Inr kn" "getSourceRange api kn src = Inr k"
    using assms(2) by (auto simp: fieldRange_def)
  have "agrees s t'" if "agrees s t" "brk s \<le> el" for s
    using that v(4) w(5) t'(5) agrees_trans by blast
  with t' show "\<exists>t' mp'. pairLoop (recursiveExpressionParser m api src) api src c el (i # is) t = (Inr (), t') \<and>
       cells t' el = Some (VVarMap mp') \<and> mapHolds t' (Suc el) mp' (ks @ (k, l) # kvs) \<and> el < brk t' \<and>
       (\<forall>s. agrees s t \<and> brk s \<le> el \<longrightarrow> agrees s t')"
    by (intro exI [of _ t'] exI [of _ mp']) (simp add: assms(1,3) kn run_simps u(1) w(1))
qed

text \<open>A whole map: \<open>valueMapParser\<close> on a node whose literal is a map.\<close>

lemma valueMap_run:
  assumes "getNamedChild api n 0 = Inr c" "getNumNamedChildren api c = Inr k" "pairsBy api src c [0..<k] kvs m"
  shows "\<exists>mp t. valueMapParser (recursiveExpressionParser m api src) api src n s = (Inr mp, t) \<and> agrees s t \<and>
    mapHolds t (brk s) mp kvs"
proof -
  define u where "u = s\<lparr>cells := (cells s)(brk s \<mapsto> VVarMap []), brk := Suc (brk s)\<rparr>"
  have u: "newCell (VVarMap []) s = (Inr (brk s), u)" "cells u (brk s) = Some (VVarMap [])" "brk s < brk u"
    "mapHolds u (Suc (brk s)) [] []" "agrees s u"
    by (simp_all add: newCell_def u_def mapHolds_def agrees_def)
  obtain t mp where t: "pairLoop (recursiveExpressionParser m api src) api src c (brk s) [0..<k] u = (Inr (), t)"
      "cells t (brk s) = Some (VVarMap mp)" "mapHolds t (Suc (brk s)) mp kvs" "agrees s t"
    using assms(3) u(2-5) unfolding pairsBy_def by fastforce
  have "mapHolds t (brk s) mp kvs"
    using t(3) unfolding mapHolds_def by (blast intro: option.rel_mono_strong holds_lower(2) [where lo = "Suc (brk s)"] le_SucI [OF order_refl])
  with t u(1) assms(1,2) show ?thesis
    by (intro exI [of _ mp] exI [of _ t]) (simp add: valueMapParser_def takeVarMap_def readCell_def run_simps)
qed

text \<open>The two kinds of node whose children are literals again.\<close>

lemma literalBy_map:
  assumes "literalNode api n ''value_map'' c" "getNumNamedChildren api c = Inr k" "pairsBy api src c [0..<k] kvs m"
  shows "literalBy api src n (LMap kvs) (Suc m)"
  unfolding literalBy_def
proof
  fix s :: store
  have c: "getNamedChild api n 0 = Inr c" "tsType api c = Inr ''value_map''"
    using assms(1) by (simp_all add: literalNode_def)
  obtain mp t where t: "valueMapParser (recursiveExpressionParser m api src) api src n s = (Inr mp, t)"
      "agrees s t" "mapHolds t (brk s) mp kvs"
    using valueMap_run [OF c(1) assms(2,3), of s] by (elim exE conjE)
  have "holds t (brk s) (VVarMap mp) (LMap kvs)"
    using t(3) by (intro holds_map) (simp_all add: mapHolds_def)
  from makeShared_literal [OF t(2) this]
  show "\<exists>a t. recursiveExpressionParser (Suc m) api src n s = (Inr a, t) \<and> parsedTo s a t (LMap kvs)"
    using t(1) c by (simp add: run_simps)
qed

lemma literalBy_list:
  assumes "literalNode api n ''list_literal'' c" "hasField api c ''elements'' e" "getNumNamedChildren api e = Inr k"
    and "literalsBy api src e [0..<k] ls m"
  shows "literalBy api src n (LList ls) (Suc m)"
  unfolding literalBy_def
proof
  fix s :: store
  have c: "getNamedChild api n 0 = Inr c" "tsType api c = Inr ''list_literal''"
      "getChildByFieldName api c ''elements'' = Inr e" "\<not> isNull api e"
    using assms(1,2) by (simp_all add: literalNode_def hasField_def)
  define u where "u = s\<lparr>cells := (cells s)(brk s \<mapsto> VList []), brk := Suc (brk s)\<rparr>"
  have u: "newCell (VList []) s = (Inr (brk s), u)" "cells u (brk s) = Some (VList [])" "brk s < brk u"
    "list_all2 (holdsAt u (Suc (brk s))) [] []" "agrees s u"
    by (simp_all add: newCell_def u_def agrees_def)
  obtain t ps where t: "elementLoop (recursiveExpressionParser m api src) api e (brk s) [0..<k] u = (Inr (), t)"
      "cells t (brk s) = Some (VList ps)" "list_all2 (holdsAt t (Suc (brk s))) ps ([] @ ls)"
      "\<forall>s'. agrees s' u \<and> brk s' \<le> brk s \<longrightarrow> agrees s' t"
    using assms(4) [unfolded literalsBy_def, rule_format, OF conjI [OF u(2) conjI [OF u(4,3)]]] by (elim exE conjE)
  have st: "agrees s t" using t(4) u(5) by simp
  have "list_all2 (holdsAt t (brk s)) ps ls"
    using t(3) unfolding append.simps by (rule list_all2_mono) (rule holds_lower(2), assumption, simp)
  then have "holds t (brk s) (VList ps) (LList ls)" by (rule holds_list)
  from makeShared_literal [OF st this]
  show "\<exists>a t. recursiveExpressionParser (Suc m) api src n s = (Inr a, t) \<and> parsedTo s a t (LList ls)"
    using t(1,2) u(1) c assms(3) by (simp add: listParser_def takeList_def readCell_def run_simps del: newCell_run)
qed

lemma leaf_enough:
  assumes "\<And>m s. recursiveExpressionParser (Suc m) api src n s = makeShared v (s :: store)" "\<And>s. holds s (brk s) v l"
  shows "enough (literalBy api src n l)"
proof (rule enough_Suc [of "\<lambda>_. True"])
  show "literalBy api src n l (Suc m)" for m
    unfolding literalBy_def assms(1) using makeShared_literal [OF agrees_refl assms(2)] by (intro allI)
qed (simp add: enough_def)

lemma literals_enough:
  "isLiteral api src n l \<Longrightarrow> enough (literalBy api src n l)"
  "literalsIn api src e is ls \<Longrightarrow> enough (literalsBy api src e is ls)"
  "pairsIn api src c is kvs \<Longrightarrow> enough (pairsBy api src c is kvs)"
proof (induction rule: isLiteral_literalsIn_pairsIn.inducts)
  case (literal_map n c k kvs)
  have "enough (pairsBy api src c [0..<k] kvs)" by (fact literal_map)
  then show ?case by (rule enough_Suc) (rule literalBy_map [OF literal_map(1,2)])
next
  case (literal_empty n c)
  then obtain e where c: "getNamedChild api n 0 = Inr c" "tsType api c = Inr ''list_literal''"
      "getChildByFieldName api c ''elements'' = Inr e" "isNull api e"
    by (auto simp: literalNode_def noField_def)
  have "literalBy api src n (LList []) (Suc m)" for m
  proof (unfold literalBy_def, rule)
    fix s :: store
    define u where "u = s\<lparr>cells := (cells s)(brk s \<mapsto> VList []), brk := Suc (brk s)\<rparr>"
    have "agrees s u" by (simp add: u_def agrees_def)
    moreover have "holds u (brk s) (VList []) (LList [])" by (rule holds_list) simp
    ultimately have "\<exists>a t. makeShared (VList []) u = (Inr a, t) \<and> parsedTo s a t (LList [])"
      by (rule makeShared_literal)
    then show "\<exists>a t. recursiveExpressionParser (Suc m) api src n s = (Inr a, t) \<and> parsedTo s a t (LList [])"
      using c by (simp add: listParser_def takeList_def readCell_def run_simps u_def)
  qed
  then show ?case using enough_Suc [of "\<lambda>_. True"] by (simp add: enoughI)
next
  case (literal_list n c e k ls)
  have "enough (literalsBy api src e [0..<k] ls)" by (fact literal_list)
  then show ?case by (rule enough_Suc) (rule literalBy_list [OF literal_list(1,2,3)])
next
  case (literal_text n c x)
  then have "getNamedChild api n 0 = Inr c" "tsType api c = Inr ''quoted_string''" by (simp_all add: literalNode_def)
  then show ?case using literal_text(2) by (intro leaf_enough [of _ _ _ "VString x"] holds_text) (simp add: run_simps)
next
  case (literal_number n c x i)
  then have "getNamedChild api n 0 = Inr c" "tsType api c = Inr ''number''" "takeWhile (\<lambda>c. c \<noteq> CHR 0x00) x = x"
    by (auto simp: literalNode_def takeWhile_eq_all_conv)
  then show ?case using literal_number(2,4)
    by (intro leaf_enough [of _ _ _ "VInt i"] holds_number) (simp add: parseInt_def run_simps takeWhile_eq_all_conv [THEN iffD2])
next
  case (literal_other n t c)
  then have "getNamedChild api n 0 = Inr c" "tsType api c = Inr t" by (simp_all add: literalNode_def)
  then show ?case using literal_other(2) by (intro leaf_enough [of _ _ _ "VInt 0"] holds_other) (simp add: run_simps)
next
  case (literals_none e)
  show ?case by (rule enoughI) (auto simp: literalsBy_def run_simps)
next
  case (literals_next e i c l "is" ls)
  have "enough (literalBy api src c l)" "enough (literalsBy api src e is ls)" by (fact literals_next)+
  then show ?case by (rule enough_mono2) (rule literalsBy_next [OF literals_next(1)])
next
  case (pairs_none c)
  show ?case by (rule enoughI) (auto simp: pairsBy_def run_simps)
next
  case (pairs_next c i x k y l "is" kvs)
  have "enough (literalBy api src y l)" "enough (pairsBy api src c is kvs)" by (fact pairs_next)+
  then show ?case by (rule enough_mono2) (rule pairsBy_next [OF pairs_next(1,2,3)])
qed

section \<open>Properties\<close>

text \<open>
  The constants of a game hold exactly the literals of its syntax tree: with enough fuel the parser
  returns, nothing but \<open>constants\<close> changes in the settings, each key has the literal of its last entry (maps
  and lists nested to any depth), every part of it is a new object, and no older variable changes.
\<close>

theorem settings_hold_literals:
  assumes "getChildByFieldName api root ''constants'' = Inr n" "isLiteral api src n (LMap kvs)"
  shows "\<exists>k. \<forall>m > k. \<forall>st. \<exists>mp s. constantsParser m api src root st =
       (Inr (), st\<lparr>setupMem := s, gameSettings := (gameSettings st)\<lparr>constants := mp\<rparr>\<rparr>) \<and>
     agrees (setupMem st) s \<and> mapHolds s (brk (setupMem st)) mp kvs"
proof -
  from assms(2) obtain c j where c: "literalNode api n ''value_map'' c" "getNumNamedChildren api c = Inr j"
      "pairsIn api src c [0..<j] kvs"
    by (cases rule: isLiteral.cases)
  obtain k where k: "\<forall>m \<ge> k. pairsBy api src c [0..<j] kvs m"
    using literals_enough(3) [OF c(3)] by (auto simp: enough_def)
  have run: "\<exists>mp t. valueMapParser (recursiveExpressionParser m api src) api src n s = (Inr mp, t) \<and> agrees s t \<and>
      mapHolds t (brk s) mp kvs" if "k < m" for m s
    by (rule valueMap_run [OF _ c(2)]) (use c(1) k that in \<open>auto simp: literalNode_def\<close>)
  have "\<exists>mp s. constantsParser m api src root st =
       (Inr (), st\<lparr>setupMem := s, gameSettings := (gameSettings st)\<lparr>constants := mp\<rparr>\<rparr>) \<and>
     agrees (setupMem st) s \<and> mapHolds s (brk (setupMem st)) mp kvs" if m: "k < m" for m st
  proof -
    obtain mp t where "valueMapParser (recursiveExpressionParser m api src) api src n (setupMem st) = (Inr mp, t)"
        "agrees (setupMem st) t" "mapHolds t (brk (setupMem st)) mp kvs"
      using run [OF m, of "setupMem st"] by (elim exE conjE)
    with assms(1) show ?thesis
      by (intro exI [of _ mp] exI [of _ t])
        (simp add: constantsParser_def sectionMap_def onMem_def setSettings_def run_simps)
  qed
  then show ?thesis by blast
qed

text \<open>A game with the constant \<open>n: 3\<close>, given twice, and an empty list.\<close>

definition exprTree :: "tsTree \<Rightarrow> tsTree" where
  "exprTree t = TsNode ''expression'' [] [([], t)]"

definition entryTree :: "string \<Rightarrow> tsTree \<Rightarrow> tsTree" where
  "entryTree k t = TsNode ''map_entry'' [] [(''key'', nameTree k), (''value'', exprTree t)]"

definition constantsTree :: tsTree where
  "constantsTree = exprTree (TsNode ''value_map'' []
     [([], entryTree ''n'' (TsNode ''number'' ''3'' [])), ([], entryTree ''xs'' (TsNode ''list_literal'' ''[]'' [])),
      ([], entryTree ''n'' (TsNode ''number'' ''4'' []))])"

lemma number_literal: "isLiteral treeApi src (exprTree (TsNode ''number'' ''3'' [])) (LNum 3)"
  "isLiteral treeApi src (exprTree (TsNode ''number'' ''4'' [])) (LNum 4)"
  by (rule literal_number [where c = "TsNode ''number'' ''3'' []" and x = "''3''"],
      simp_all add: literalNode_def exprTree_def treeApi_def, code_simp,
      rule literal_number [where c = "TsNode ''number'' ''4'' []" and x = "''4''"],
      simp_all add: literalNode_def exprTree_def treeApi_def, code_simp)

lemma constants_literal:
  "isLiteral treeApi src constantsTree (LMap [(''n'', LNum 3), (''xs'', LList []), (''n'', LNum 4)])"
proof (rule literal_map)
  define c where "c = TsNode ''value_map'' []
     [([], entryTree ''n'' (TsNode ''number'' ''3'' [])), ([], entryTree ''xs'' (TsNode ''list_literal'' ''[]'' [])),
      ([], entryTree ''n'' (TsNode ''number'' ''4'' []))]"
  show "literalNode treeApi constantsTree ''value_map'' c" "getNumNamedChildren treeApi c = Inr 3"
    by (simp_all add: literalNode_def constantsTree_def exprTree_def treeApi_def c_def)
  have list: "isLiteral treeApi src (exprTree (TsNode ''list_literal'' ''[]'' [])) (LList [])"
    by (rule literal_empty [where c = "TsNode ''list_literal'' ''[]'' []"])
      (simp_all add: literalNode_def noField_def exprTree_def treeApi_def)
  have "pairsIn treeApi src c [0, 1, 2] [(''n'', LNum 3), (''xs'', LList []), (''n'', LNum 4)]"
    by (rule pairs_next [OF _ _ _ number_literal(1) pairs_next [OF _ _ _ list
          pairs_next [OF _ _ _ number_literal(2) pairs_none]]])
      (simp_all add: c_def fieldRange_def entryTree_def nameTree_def treeApi_def, simp_all)
  then show "pairsIn treeApi src c [0..<3] [(''n'', LNum 3), (''xs'', LList []), (''n'', LNum 4)]"
    by (simp add: upt_rec numeral_eq_Suc)
qed

theorem settings_hold_literals_witness:
  "\<exists>k. \<forall>m > k. \<forall>st. \<exists>mp s.
     constantsParser m treeApi [] (TsNode ''game'' [] [(''constants'', constantsTree)]) st =
       (Inr (), st\<lparr>setupMem := s, gameSettings := (gameSettings st)\<lparr>constants := mp\<rparr>\<rparr>) \<and>
     agrees (setupMem st) s \<and>
     mapHolds s (brk (setupMem st)) mp [(''n'', LNum 3), (''xs'', LList []), (''n'', LNum 4)]"
  by (rule settings_hold_literals [OF _ constants_literal]) (simp add: treeApi_def)

end
