(* ===== verification/Client.thy ===== *)
theory Client
  imports Prelude
begin

text \<open>
  The web socket client (\<open>lib/networking/src/Client.cpp\<close>, \<open>include/Client.h\<close>). As for the server the network
  is outside the repository: the operations the client starts are recorded in \<open>started\<close>, their completions
  are events, and each handler is a definition. The bytes of a read are in \<open>readBuffer\<close> when its handler runs.
\<close>

section \<open>State\<close>

datatype clientOp =
    ConnectOp string                     \<comment> \<open>\<open>async_connect\<close> to the resolved end point\<close>
  | HandshakeOp string                   \<comment> \<open>\<open>async_handshake\<close> with the host's name\<close>
  | ReadOp                               \<comment> \<open>\<open>async_read\<close> into \<open>readBuffer\<close>\<close>
  | WriteOp string                       \<comment> \<open>\<open>async_write\<close>\<close>

record clientState =
  closed :: bool
  hostAddress :: string
  readBuffer :: string
  incomingMessage :: string
  writeQueue :: "string list"
  started :: "clientOp list"
  closing :: nat                         \<comment> \<open>how often \<open>async_close\<close> was called\<close>

type_synonym 'a clientProg = "(clientState, 'a) prog"

definition startClientOp :: "clientOp \<Rightarrow> unit clientProg" where
  "startClientOp op = modify (\<lambda>s. s\<lparr>started := started s @ [op]\<rparr>)"

section \<open>\<open>ClientImpl\<close>\<close>

definition clientReportError :: "string \<Rightarrow> unit clientProg" where
  "clientReportError message = ok ()"

definition disconnect :: "unit clientProg" where
  "disconnect = modify (\<lambda>s. s\<lparr>closed := True, closing := Suc (closing s)\<rparr>)"

definition connect :: "string \<Rightarrow> unit clientProg" where
  "connect endpoint = startClientOp (ConnectOp endpoint)"

definition handshake :: "unit clientProg" where
  "handshake = andThen getState (\<lambda>s. startClientOp (HandshakeOp (hostAddress s)))"

definition afterConnect :: "bool \<Rightarrow> unit clientProg" where
  "afterConnect err = (if \<not> err then handshake else clientReportError ''Unable to connect.'')"

definition clientReadMessage :: "unit clientProg" where
  "clientReadMessage = startClientOp ReadOp"

definition afterHandshake :: "bool \<Rightarrow> unit clientProg" where
  "afterHandshake err = (if \<not> err then clientReadMessage else clientReportError ''Unable to handshake.'')"

text \<open>The handler of \<open>async_read\<close>: an empty message starts no further read.\<close>

definition afterClientRead :: "bool \<Rightarrow> nat \<Rightarrow> unit clientProg" where
  "afterClientRead err n =
     (if \<not> err then
        (if 0 < n then
           andThen (modify (\<lambda>s. s\<lparr>incomingMessage := incomingMessage s @ readBuffer s\<rparr>)) (\<lambda>_.
           andThen (modify (\<lambda>s. s\<lparr>readBuffer := ''''\<rparr>)) (\<lambda>_. clientReadMessage))
         else ok ())
      else andThen (clientReportError ''Unable to read.'') (\<lambda>_. disconnect))"

text \<open>\<open>send\<close> starts a write at once, whether or not one is under way; the handler of a write drops the front of
  the buffer.\<close>

definition implSend :: "string \<Rightarrow> unit clientProg" where
  "implSend message =
     andThen (modify (\<lambda>s. s\<lparr>writeQueue := writeQueue s @ [message]\<rparr>)) (\<lambda>_.
     andThen getState (\<lambda>s. startClientOp (WriteOp (last (writeQueue s)))))"

definition afterClientWrite :: "bool \<Rightarrow> unit clientProg" where
  "afterClientWrite err =
     (if \<not> err then andThen getState (\<lambda>s. case writeQueue s of
          [] \<Rightarrow> raise UB
        | _ # rest \<Rightarrow> modify (\<lambda>s. s\<lparr>writeQueue := rest\<rparr>))
      else andThen (clientReportError ''Unable to write.'') (\<lambda>_. disconnect))"

section \<open>\<open>Client\<close>\<close>

text \<open>The constructor, with the end point the resolver returned.\<close>

definition newClient :: "string \<Rightarrow> string \<Rightarrow> clientState" where
  "newClient address endpoint = snd (connect endpoint
     \<lparr>closed = False, hostAddress = address, readBuffer = '''', incomingMessage = '''', writeQueue = [],
      started = [], closing = 0\<rparr>)"

definition clientReceive :: "string clientProg" where
  "clientReceive = andThen getState (\<lambda>s. andThen (modify (\<lambda>s. s\<lparr>incomingMessage := ''''\<rparr>)) (\<lambda>_. ok (incomingMessage s)))"

definition clientSend :: "string \<Rightarrow> unit clientProg" where
  "clientSend message = (if message = '''' then ok () else implSend message)"

definition isDisconnected :: "bool clientProg" where
  "isDisconnected = andThen getState (\<lambda>s. ok (closed s))"

text \<open>\<open>update\<close> polls the network: it runs the handlers of the operations that have completed.\<close>

datatype clientEvent =
    Connected bool
  | ShookHands bool
  | ReadDone "string option"             \<comment> \<open>the bytes, or an error\<close>
  | WriteDone string bool

primrec clientOpOf :: "clientEvent \<Rightarrow> clientOp \<Rightarrow> bool" where
  "clientOpOf (Connected err) op = (case op of ConnectOp _ \<Rightarrow> True | _ \<Rightarrow> False)"
| "clientOpOf (ShookHands err) op = (case op of HandshakeOp _ \<Rightarrow> True | _ \<Rightarrow> False)"
| "clientOpOf (ReadDone r) op = (op = ReadOp)"
| "clientOpOf (WriteDone t err) op = (op = WriteOp t)"

primrec removeFirst :: "('a \<Rightarrow> bool) \<Rightarrow> 'a list \<Rightarrow> 'a list" where
  "removeFirst P [] = []"
| "removeFirst P (x # xs) = (if P x then xs else x # removeFirst P xs)"

primrec clientHandler :: "clientEvent \<Rightarrow> unit clientProg" where
  "clientHandler (Connected err) = afterConnect err"
| "clientHandler (ShookHands err) = afterHandshake err"
| "clientHandler (ReadDone r) =
     (case r of
        None \<Rightarrow> afterClientRead True 0
      | Some bytes \<Rightarrow> andThen (modify (\<lambda>s. s\<lparr>readBuffer := readBuffer s @ bytes\<rparr>)) (\<lambda>_.
          afterClientRead False (length bytes)))"
| "clientHandler (WriteDone t err) = afterClientWrite err"

definition clientDeliver :: "clientEvent \<Rightarrow> unit clientProg" where
  "clientDeliver ev =
     andThen (modify (\<lambda>s. s\<lparr>started := removeFirst (clientOpOf ev) (started s)\<rparr>)) (\<lambda>_. clientHandler ev)"

definition clientUpdate :: "clientEvent list \<Rightarrow> unit clientProg" where
  "clientUpdate evs = forEach evs clientDeliver"

section \<open>The test client's loop\<close>

text \<open>\<open>gameclient.cpp\<close>: one round of the loop; the result is what is printed.\<close>

definition clientRound :: "clientEvent list \<Rightarrow> string clientProg" where
  "clientRound evs =
     andThen (clientUpdate evs) (\<lambda>_.
     andThen clientReceive (\<lambda>message.
     andThen (clientSend ''Hello, server!'') (\<lambda>_.
       ok (if message = '''' then '''' else ''Received from server: '' @ message @ [CHR 0x0A]))))"

text \<open>The loop, over what the network completes in each round.\<close>

primrec clientMain :: "clientEvent list list \<Rightarrow> string clientProg" where
  "clientMain [] = ok ''''"
| "clientMain (evs # rounds) = andThen isDisconnected (\<lambda>stop.
     if stop then ok ''''
     else andThen (clientRound evs) (\<lambda>out. andThen (clientMain rounds) (\<lambda>more. ok (out @ more))))"

end
