(* ===== verification/ClientProps.thy ===== *)
theory ClientProps
  imports Client
begin

text \<open>
  The client's connection over time: what it has under way in every reachable state, and what it receives.
\<close>

section \<open>Reachable clients\<close>

text \<open>The network completes only what was started; the program sends and receives in between.\<close>

inductive clientStep :: "clientState \<Rightarrow> clientState \<Rightarrow> bool" where
  deliver: "op \<in> set (started s) \<Longrightarrow> clientOpOf ev op \<Longrightarrow> clientStep s (snd (clientDeliver ev s))"
| send: "clientStep s (snd (clientSend m s))"
| receive: "clientStep s (snd (clientReceive s))"

inductive_cases clientStepE: "clientStep s t"

definition isWrite :: "clientOp \<Rightarrow> bool" where
  "isWrite op = (case op of WriteOp _ \<Rightarrow> True | _ \<Rightarrow> False)"

text \<open>One operation at most that is no write; every write under way has its text in the buffer.\<close>

definition clientOk :: "clientState \<Rightarrow> bool" where
  "clientOk s \<longleftrightarrow> length (filter (\<lambda>op. \<not> isWrite op) (started s)) \<le> 1 \<and>
     length (filter isWrite (started s)) \<le> length (writeQueue s) \<and> readBuffer s = ''''"

text \<open>No read is under way and none can be started any more.\<close>

definition deaf :: "clientState \<Rightarrow> bool" where
  "deaf s \<longleftrightarrow> list_all isWrite (started s)"

lemma filter_removeFirst:
  "length (filter Q (removeFirst P xs)) =
     length (filter Q xs) - (case find P xs of Some x \<Rightarrow> if Q x then 1 else 0 | None \<Rightarrow> 0)"
proof (induction xs)
  case (Cons x xs)
  then show ?case
    by (auto split: option.splits) (metis find_Some_iff filter_empty_conv length_0_conv length_greater_0_conv nth_mem Suc_pred)
qed simp

lemma removeFirst_le: "length (filter Q (removeFirst P xs)) \<le> length (filter Q xs)"
  by (simp add: filter_removeFirst)

lemma find_op: "op \<in> set xs \<Longrightarrow> P op \<Longrightarrow> \<exists>x. find P xs = Some x \<and> P x \<and> x \<in> set xs"
  by (induction xs) auto

lemmas client_defs = clientDeliver_def afterConnect_def afterHandshake_def afterClientRead_def afterClientWrite_def
  handshake_def clientReadMessage_def startClientOp_def disconnect_def clientReportError_def

lemma clientOk_deliver:
  assumes "clientOk s" "op \<in> set (started s)" "clientOpOf ev op"
  shows "clientOk (snd (clientDeliver ev s)) \<and> fst (clientDeliver ev s) = Inr ()"
proof -
  obtain x where x: "find (clientOpOf ev) (started s) = Some x" "clientOpOf ev x" "x \<in> set (started s)"
    using find_op [of op "started s" "clientOpOf ev"] assms(2,3) by blast
  have one: "isWrite x \<Longrightarrow> 1 \<le> length (filter isWrite (started s))"
    "\<not> isWrite x \<Longrightarrow> 1 \<le> length (filter (\<lambda>op. \<not> isWrite op) (started s))"
    using x(3) by (auto simp: Suc_le_eq filter_empty_conv)
  show ?thesis
  proof (cases ev)
    case (Connected err)
    with x(2) have "\<not> isWrite x" by (auto simp: isWrite_def split: clientOp.splits)
    with Connected one x(1) assms(1) show ?thesis
      by (auto simp: client_defs clientOk_def run_simps filter_removeFirst isWrite_def)
  next
    case (ShookHands err)
    with x(2) have "\<not> isWrite x" by (auto simp: isWrite_def split: clientOp.splits)
    with ShookHands one x(1) assms(1) show ?thesis
      by (auto simp: client_defs clientOk_def run_simps filter_removeFirst isWrite_def)
  next
    case (ReadDone r)
    with x(2) have "\<not> isWrite x" by (auto simp: isWrite_def)
    with ReadDone one x(1) assms(1) show ?thesis
      by (auto simp: client_defs clientOk_def run_simps filter_removeFirst isWrite_def split: option.splits)
  next
    case (WriteDone t err)
    with x(2) have w: "isWrite x" by (auto simp: isWrite_def)
    with one(1) assms(1) obtain y ys where "writeQueue s = y # ys" by (cases "writeQueue s") (auto simp: clientOk_def)
    with WriteDone w one(1) x(1) assms(1) show ?thesis
      by (auto simp: client_defs clientOk_def run_simps filter_removeFirst)
  qed
qed


lemma clientOk_step: "clientStep s t \<Longrightarrow> clientOk s \<Longrightarrow> clientOk t"
proof (induction rule: clientStep.induct)
  case (deliver op s ev)
  then show ?case using clientOk_deliver by blast
next
  case (send s m)
  then show ?case
    by (auto simp: clientSend_def implSend_def startClientOp_def clientOk_def run_simps isWrite_def)
next
  case (receive s)
  then show ?case by (auto simp: clientReceive_def clientOk_def run_simps)
qed

lemma clientOk_reach: "clientStep\<^sup>*\<^sup>* (newClient address endpoint) s \<Longrightarrow> clientOk s"
proof (induction rule: rtranclp_induct)
  case base
  show ?case by (simp add: newClient_def connect_def startClientOp_def clientOk_def run_simps isWrite_def)
qed (rule clientOk_step)

section \<open>A client that reads no more\<close>

lemma removeFirst_set: "set (removeFirst P xs) \<subseteq> set xs"
  by (induction xs) auto

lemma deaf_step:
  "clientStep s t \<Longrightarrow> deaf s \<Longrightarrow> deaf t \<and> (incomingMessage t = incomingMessage s \<or> incomingMessage t = [])"
proof (induction rule: clientStep.induct)
  case (deliver op s ev)
  then have "isWrite op" by (simp add: deaf_def list_all_iff)
  with deliver(2) obtain t err where "ev = WriteDone t err" by (cases ev) (auto simp: isWrite_def split: clientOp.splits)
  with deliver(3) removeFirst_set [of "clientOpOf ev" "started s"] show ?case
    by (auto simp: client_defs run_simps deaf_def list_all_iff split: list.splits)
next
  case (send s m)
  then show ?case
    by (auto simp: clientSend_def implSend_def startClientOp_def deaf_def run_simps isWrite_def)
next
  case (receive s)
  then show ?case by (auto simp: clientReceive_def deaf_def run_simps)
qed

lemma deaf_steps:
  "clientStep\<^sup>*\<^sup>* s t \<Longrightarrow> deaf s \<Longrightarrow> deaf t \<and> (incomingMessage t = incomingMessage s \<or> incomingMessage t = [])"
  by (induction rule: rtranclp_induct) (auto dest: deaf_step)

section \<open>Reading\<close>

text \<open>The network brings some texts, one after the other.\<close>

definition readAll :: "string list \<Rightarrow> unit clientProg" where
  "readAll ts = clientUpdate (map (\<lambda>t. ReadDone (Some t)) ts)"

lemma readOne:
  assumes "clientOk s" "ReadOp \<in> set (started s)"
  shows "\<exists>u. clientDeliver (ReadDone (Some t)) s = (Inr (), u) \<and> clientOk u \<and> incomingMessage u = incomingMessage s @ t \<and>
    (if t = [] then deaf u else ReadOp \<in> set (started u))"
proof -
  have one: "filter (\<lambda>op. \<not> isWrite op) (started s) = [ReadOp]"
  proof -
    have "ReadOp \<in> set (filter (\<lambda>op. \<not> isWrite op) (started s))" using assms(2) by (simp add: isWrite_def)
    with assms(1) show ?thesis
      by (cases "filter (\<lambda>op. \<not> isWrite op) (started s)") (auto simp: clientOk_def)
  qed
  obtain x where x: "find (\<lambda>op. op = ReadOp) (started s) = Some x" "x = ReadOp"
    using find_op [of ReadOp "started s" "\<lambda>op. op = ReadOp"] assms(2) by blast
  have "filter (\<lambda>op. \<not> isWrite op) (removeFirst (\<lambda>op. op = ReadOp) (started s)) = []"
    using filter_removeFirst [of "\<lambda>op. \<not> isWrite op" "\<lambda>op. op = ReadOp" "started s"] x one by (simp add: isWrite_def)
  then have writes: "list_all isWrite (removeFirst (\<lambda>op. op = ReadOp) (started s))"
    by (simp add: filter_empty_conv list_all_iff)
  have "clientOpOf (ReadDone (Some t)) = (\<lambda>op. op = ReadOp)" by (rule ext) simp
  moreover from clientOk_deliver [OF assms, of "ReadDone (Some t)"]
  have "clientOk (snd (clientDeliver (ReadDone (Some t)) s))" "fst (clientDeliver (ReadDone (Some t)) s) = Inr ()"
    by simp_all
  ultimately show ?thesis
    using assms(1) writes
    by (cases "clientDeliver (ReadDone (Some t)) s") (auto simp: client_defs run_simps deaf_def clientOk_def)
qed

lemma readAll_Cons: "readAll (t # ts) = andThen (clientDeliver (ReadDone (Some t))) (\<lambda>_. readAll ts)"
  by (simp add: readAll_def clientUpdate_def)

lemma readAll_run:
  assumes "clientOk s" "ReadOp \<in> set (started s)" "[] \<notin> set ts"
  shows "\<exists>u. readAll ts s = (Inr (), u) \<and> clientOk u \<and> incomingMessage u = incomingMessage s @ concat ts \<and>
    ReadOp \<in> set (started u) \<and>
    (\<exists>w. readAll (ts @ [[]]) s = (Inr (), w) \<and> deaf w \<and> incomingMessage w = incomingMessage u)"
  using assms
proof (induction ts arbitrary: s)
  case Nil
  from readOne [OF Nil(1,2), of "[]"] obtain w where
    "clientDeliver (ReadDone (Some [])) s = (Inr (), w)" "deaf w" "incomingMessage w = incomingMessage s"
    by auto
  with Nil show ?case by (simp add: readAll_Cons) (simp add: readAll_def clientUpdate_def run_simps)
next
  case (Cons t ts)
  from readOne [OF Cons.prems(1,2), of t] Cons.prems(3) obtain u where
    u: "clientDeliver (ReadDone (Some t)) s = (Inr (), u)" "clientOk u" "incomingMessage u = incomingMessage s @ t"
      "ReadOp \<in> set (started u)"
    by auto
  from Cons.prems(3) have "[] \<notin> set ts" by simp
  from Cons.IH [OF u(2,4) this] u(1,3) show ?case by (auto simp: readAll_Cons run_simps)
qed

section \<open>Properties\<close>

text \<open>
  C28: In every reachable state of the client one read at most is under way, and no handler takes from an empty
  buffer. While a read is under way, all messages that arrive and are not empty are received together, in
  order. An empty message is the last: after it nothing is ever received again, whatever the client does.
\<close>

theorem client_reads_until_empty:
  assumes "clientStep\<^sup>*\<^sup>* (newClient address endpoint) s"
  shows "length (filter (\<lambda>op. op = ReadOp) (started s)) \<le> 1 \<and>
    (\<forall>op ev. op \<in> set (started s) \<and> clientOpOf ev op \<longrightarrow> fst (clientDeliver ev s) = Inr ()) \<and>
    (\<forall>ts. ReadOp \<in> set (started s) \<and> [] \<notin> set ts \<longrightarrow>
       fst (andThen (readAll ts) (\<lambda>_. clientReceive) s) = Inr (incomingMessage s @ concat ts) \<and>
       (\<forall>t. clientStep\<^sup>*\<^sup>* (snd (readAll (ts @ [[]]) s)) t \<longrightarrow> ReadOp \<notin> set (started t) \<and>
          fst (clientReceive t) \<in> {Inr (incomingMessage s @ concat ts), Inr []}))"
proof -
  note ok = clientOk_reach [OF assms]
  have "length (filter (\<lambda>op. op = ReadOp) xs) \<le> length (filter (\<lambda>op. \<not> isWrite op) xs)" for xs
    by (induction xs) (auto simp: isWrite_def)
  from le_trans [OF this [of "started s"]] ok have "length (filter (\<lambda>op. op = ReadOp) (started s)) \<le> 1"
    by (simp add: clientOk_def)
  moreover have "fst (andThen (readAll ts) (\<lambda>_. clientReceive) s) = Inr (incomingMessage s @ concat ts) \<and>
       (\<forall>t. clientStep\<^sup>*\<^sup>* (snd (readAll (ts @ [[]]) s)) t \<longrightarrow> ReadOp \<notin> set (started t) \<and>
          fst (clientReceive t) \<in> {Inr (incomingMessage s @ concat ts), Inr []})"
    if "ReadOp \<in> set (started s)" "[] \<notin> set ts" for ts
  proof -
    from readAll_run [OF ok that] obtain u w where u: "readAll ts s = (Inr (), u)"
        "incomingMessage u = incomingMessage s @ concat ts" "readAll (ts @ [[]]) s = (Inr (), w)" "deaf w"
        "incomingMessage w = incomingMessage u"
      by (elim exE conjE)
    have "ReadOp \<notin> set (started t) \<and> fst (clientReceive t) \<in> {Inr (incomingMessage s @ concat ts), Inr []}"
      if "clientStep\<^sup>*\<^sup>* w t" for t
      using deaf_steps [OF that u(4)] u(2,5)
      by (auto simp: deaf_def list_all_iff isWrite_def clientReceive_def run_simps)
    with u(1-3) show ?thesis by (simp add: clientReceive_def run_simps)
  qed
  ultimately show ?thesis using clientOk_deliver [OF ok] by blast
qed

text \<open>A client that is connected and has shaken hands.\<close>

definition readyClient :: clientState where
  "readyClient = snd (clientUpdate [Connected False, ShookHands False] (newClient ''host'' ''1.2.3.4''))"

lemma readyClient_reach: "clientStep\<^sup>*\<^sup>* (newClient ''host'' ''1.2.3.4'') readyClient"
proof -
  let ?s = "newClient ''host'' ''1.2.3.4''"
  have "clientStep ?s (snd (clientDeliver (Connected False) ?s))"
    by (rule clientStep.deliver [of "ConnectOp ''1.2.3.4''"])
      (simp_all add: newClient_def connect_def startClientOp_def run_simps)
  moreover have "clientStep (snd (clientDeliver (Connected False) ?s)) readyClient"
  proof -
    have "readyClient = snd (clientDeliver (ShookHands False) (snd (clientDeliver (Connected False) ?s)))"
      by (simp add: readyClient_def clientUpdate_def client_defs run_simps)
    then show ?thesis
      using clientStep.deliver [of "HandshakeOp ''host''" "snd (clientDeliver (Connected False) ?s)" "ShookHands False"]
      by (simp add: client_defs newClient_def connect_def run_simps)
  qed
  ultimately show ?thesis by simp
qed

theorem client_reads_until_empty_witness:
  "ReadOp \<in> set (started readyClient) \<and>
   fst (andThen (readAll [''a'', ''bc'']) (\<lambda>_. clientReceive) readyClient) = Inr ''abc''"
proof -
  have "ReadOp \<in> set (started readyClient)" "incomingMessage readyClient = []"
    by (simp_all add: readyClient_def clientUpdate_def client_defs newClient_def connect_def run_simps)
  then show ?thesis using client_reads_until_empty [OF readyClient_reach] by (auto dest: spec [of _ "[''a'', ''bc'']"])
qed

end
