(* ===== verification/ResponseJson.thy ===== *)
theory ResponseJson
  imports AmbassadorProps JsonRound
begin

text \<open>
  The text form of a message: \<open>NLOHMANN_DEFINE_TYPE_INTRUSIVE(Response, resType, attrs)\<close> of \<open>Ambassador.h\<close> with
  the conversions of \<open>lib/nlohmann/json.hpp\<close> it uses. With them the ambassador's parameter \<open>codec\<close> is the
  code's own (\<open>jsonCodec\<close>).
\<close>

section \<open>Access to values\<close>

text \<open>\<open>at(key)\<close> on a constant value.\<close>

definition jsonAt :: "string \<Rightarrow> 'f json \<Rightarrow> cpp_error + 'f json" where
  "jsonAt key j = (case j of
       JObject m \<Rightarrow> (case map_of m key of
           Some v \<Rightarrow> Inr v
         | None \<Rightarrow> Inl (outOfRange 403 (''key '' @ [CHR 0x27] @ key @ [CHR 0x27] @ '' not found'')))
     | _ \<Rightarrow> Inl (typeError 304 (''cannot use at() with '' @ typeName j)))"

text \<open>\<open>j[key] = v\<close>: null becomes an object.\<close>

definition jsonSet :: "string \<Rightarrow> 'f json \<Rightarrow> 'f json \<Rightarrow> cpp_error + 'f json" where
  "jsonSet key v j = (case j of
       JNull \<Rightarrow> Inr (JObject [(key, v)])
     | JObject m \<Rightarrow> Inr (JObject (mapPut key v m))
     | _ \<Rightarrow> Inl (typeError 305 (''cannot use operator[] with a string argument with '' @ typeName j)))"

section \<open>Conversions\<close>

definition getArithmeticInt :: "'f floats \<Rightarrow> 'f json \<Rightarrow> cpp_error + int" where
  "getArithmeticInt fl j = (case j of
       JUnsigned i \<Rightarrow> Inr (toInt i)
     | JInteger i \<Rightarrow> Inr (toInt i)
     | JFloat x \<Rightarrow> (case floatToInt fl x of Some i \<Rightarrow> Inr i | None \<Rightarrow> Inl UB)
     | _ \<Rightarrow> Inl (typeError 302 (''type must be number, but is '' @ typeName j)))"

text \<open>\<open>static_cast<msgType>\<close>: the enumerators need five bits, numbers that do not fit are undefined.\<close>

definition toMsgType :: "int \<Rightarrow> cpp_error + msgType" where
  "toMsgType n =
     (case map_of (map (\<lambda>t. (msgNumber t, t)) [QUEUE_CLOSED, EMPTY, INPUT_REQ, INPUT_RES, CONFIG_REQ, CONFIG_RES, GAME_INIT,
         GAME_MADE, GAME_START, GAME_END, PLAYER_JOIN, PLAYER_ACK, PLAYER_NACK, DISPLAY_MSG, DISPLAY_SCORES]) n of
        Some t \<Rightarrow> Inr t
      | None \<Rightarrow> if - 16 \<le> n \<and> n \<le> 15 then Inr (OtherType n) else Inl UB)"

definition chain :: "cpp_error + 'a \<Rightarrow> ('a \<Rightarrow> cpp_error + 'b) \<Rightarrow> cpp_error + 'b" where
  "chain x f = (case x of Inl e \<Rightarrow> Inl e | Inr v \<Rightarrow> f v)"

lemma chain_simps [simp]: "chain (Inl e) f = Inl e" "chain (Inr v) f = f v"
  by (simp_all add: chain_def)

lemma chain_assoc: "chain (chain x f) g = chain x (\<lambda>v. chain (f v) g)"
  by (cases x) simp_all

definition enumFromJson :: "'f floats \<Rightarrow> 'f json \<Rightarrow> cpp_error + msgType" where
  "enumFromJson fl j = chain (getArithmeticInt fl j) toMsgType"

definition stringFromJson :: "'f json \<Rightarrow> cpp_error + string" where
  "stringFromJson j = (case j of JString s \<Rightarrow> Inr s | _ \<Rightarrow> Inl (typeError 302 (''type must be string, but is '' @ typeName j)))"

text \<open>\<open>std::transform\<close> into an inserter, which does not overwrite.\<close>

primrec insertAll :: "(string \<times> 'f json) list \<Rightarrow> (string, string) smap \<Rightarrow> cpp_error + (string, string) smap" where
  "insertAll [] ret = Inr ret"
| "insertAll (p # ps) ret = chain (stringFromJson (snd p)) (\<lambda>x.
     insertAll ps (case map_of ret (fst p) of None \<Rightarrow> mapPut (fst p) x ret | Some _ \<Rightarrow> ret))"

definition mapFromJson :: "'f json \<Rightarrow> cpp_error + (string, string) smap" where
  "mapFromJson j = (case j of JObject m \<Rightarrow> insertAll m []
     | _ \<Rightarrow> Inl (typeError 302 (''type must be object, but is '' @ typeName j)))"

definition enumToJson :: "msgType \<Rightarrow> 'f json" where
  "enumToJson t = JInteger (msgNumber t)"

definition mapToJson :: "(string, string) smap \<Rightarrow> 'f json" where
  "mapToJson m = JObject (map (\<lambda>(k, v). (k, JString v)) m)"

section \<open>Responses\<close>

text \<open>Reading the type before it is set is undefined.\<close>

definition responseToJson :: "Response \<Rightarrow> cpp_error + 'f json" where
  "responseToJson r = (case resType r of
       None \<Rightarrow> Inl UB
     | Some t \<Rightarrow> chain (jsonSet ''resType'' (enumToJson t) JNull) (jsonSet ''attrs'' (mapToJson (attrs r))))"

definition responseFromJson :: "'f floats \<Rightarrow> 'f json \<Rightarrow> cpp_error + Response" where
  "responseFromJson fl j =
     chain (jsonAt ''resType'' j) (\<lambda>v. chain (enumFromJson fl v) (\<lambda>t.
     chain (jsonAt ''attrs'' j) (\<lambda>v. chain (mapFromJson v) (\<lambda>m. Inr \<lparr>resType = Some t, attrs = m\<rparr>))))"

text \<open>\<open>json::parse(src)\<close> and \<open>dump()\<close> with their default arguments.\<close>

definition parseDefaults :: "char \<Rightarrow> 'f floats \<Rightarrow> 'f parseConf" where
  "parseDefaults point fl = \<lparr>lexing = \<lparr>ignore_comments = False, decimal_point_char = point, numbers = fl\<rparr>, allow_exceptions = True\<rparr>"

definition jsonCodec :: "char \<Rightarrow> 'f floats \<Rightarrow> codec" where
  "jsonCodec point fl = \<lparr>
     parseJson = (\<lambda>src. chain (jsonParse (parseDefaults point fl) src) (responseFromJson fl)),
     dumpJson = (\<lambda>r. chain (responseToJson r) (dumpJsonText fl (-1) CHR '' '' False Strict))\<rparr>"

section \<open>From a message to its text and back\<close>

definition validResponse :: "Response \<Rightarrow> bool" where
  "validResponse r \<longleftrightarrow> (\<exists>t. resType r = Some t \<and> toMsgType (msgNumber t) = Inr t) \<and> sortedMap (attrs r) \<and>
     (\<forall>(k, v) \<in> set (attrs r). validUtf8 k \<and> validUtf8 v)"

lemma toMsgType_range: "toMsgType n = Inr t \<Longrightarrow> msgNumber t = n \<and> - 16 \<le> n \<and> n \<le> 15"
  by (auto simp: toMsgType_def msgNumber_def split: if_splits)

lemma enum_reads_back:
  assumes "toMsgType (msgNumber t) = Inr t"
  shows "enumFromJson fl (readBack (enumToJson t)) = Inr t"
proof -
  have "isInt (msgNumber t)" using toMsgType_range [OF assms] by (simp add: isInt_def INT_MIN_def INT_MAX_def)
  then show ?thesis
    by (simp add: enumFromJson_def enumToJson_def getArithmeticInt_def toInt_id assms)
qed

lemma insertAll_strings:
  "sortedMap (w @ m) \<Longrightarrow> insertAll (map (\<lambda>(k, v). (k, JString v)) m) w = Inr (w @ m)"
proof (induction m arbitrary: w)
  case (Cons kv m)
  obtain k v where kv: "kv = (k, v)" by (cases kv)
  have less: "\<forall>j \<in> fst ` set w. j < k" using Cons.prems kv by (fastforce simp: sortedMap_def sorted_wrt_append)
  then have "map_of w k = None" by (auto simp: map_of_eq_None_iff)
  with Cons.IH [of "w @ [(k, v)]"] Cons.prems kv mapPut_last [OF less, of v] show ?case
    by (simp add: stringFromJson_def)
qed simp

definition responseJson :: "msgType \<Rightarrow> (string, string) smap \<Rightarrow> 'f json" where
  "responseJson t m = JObject [(''attrs'', mapToJson m), (''resType'', enumToJson t)]"

lemma responseToJson_run: "resType r = Some t \<Longrightarrow> responseToJson r = Inr (responseJson t (attrs r))"
  by (simp add: responseToJson_def jsonSet_def responseJson_def)

lemma responseJson_printable: "validResponse r \<Longrightarrow> resType r = Some t \<Longrightarrow> printable cf (responseJson t (attrs r))"
proof -
  assume r: "validResponse r" "resType r = Some t"
  then have "- 16 \<le> msgNumber t \<and> msgNumber t \<le> 15" using toMsgType_range by (fastforce simp: validResponse_def)
  moreover have "sortedMap (map (\<lambda>(k, v). (k, JString v)) (attrs r))"
    using r(1) by (simp add: validResponse_def sortedMap_def comp_def case_prod_unfold)
  moreover have "validUtf8 ''attrs''" "validUtf8 ''resType''" by code_simp+
  ultimately show ?thesis
    using r(1) by (auto simp: responseJson_def mapToJson_def enumToJson_def validResponse_def)
qed

lemma responseFromJson_readBack:
  fixes fl :: "'f floats"
  assumes "validResponse r" "resType r = Some t"
  shows "responseFromJson fl (readBack (responseJson t (attrs r) :: 'f json)) = Inr r"
proof -
  have "readBack (mapToJson (attrs r)) = (mapToJson (attrs r) :: 'f json)"
    by (auto simp: mapToJson_def)
  moreover have "mapFromJson (mapToJson (attrs r) :: 'f json) = Inr (attrs r)"
    using insertAll_strings [of "[]" "attrs r"] assms(1) by (simp add: mapToJson_def mapFromJson_def validResponse_def)
  moreover have "enumFromJson fl (readBack (enumToJson t)) = Inr t"
    using assms by (intro enum_reads_back) (auto simp: validResponse_def)
  ultimately show ?thesis
    using assms(2) by (simp add: responseFromJson_def responseJson_def jsonAt_def)
qed

lemma jsonCodec_reads:
  fixes fl :: "'f floats"
  assumes "validResponse r" "resType r = Some t"
  shows "dumpJson (jsonCodec point fl) r = Inr (jsonText fl (responseJson t (attrs r)))"
    "endsInput u \<Longrightarrow> parseJson (jsonCodec point fl) (jsonText fl (responseJson t (attrs r)) @ u) = Inr r"
  using dumpJsonText_compact [OF responseJson_printable [OF assms], of "lexing (parseDefaults point fl)" "CHR '' ''"]
    jsonParse_text [OF responseJson_printable [OF assms], of u "parseDefaults point fl"]
    responseFromJson_readBack [OF assms, of fl] responseToJson_run [OF assms(2), where 'a = 'f]
  by (simp_all add: jsonCodec_def parseDefaults_def)

text \<open>The text holds no zero byte, whatever the value.\<close>

lemma hexDigit_not_nul: "d < 16 \<Longrightarrow> hexDigit d \<noteq> CHR 0x00"
proof -
  assume "d < 16"
  then have "d \<in> set [0..<16]" by simp
  moreover have "list_all (\<lambda>d. hexDigit d \<noteq> CHR 0x00) [0..<16]" by code_simp
  ultimately show ?thesis by (simp add: list_all_iff)
qed

lemma escapedChar_no_nul: "CHR 0x00 \<notin> set (escapedChar c)"
proof (cases "map_of [(0x08, CHR ''b''), (0x09, CHR ''t''), (0x0A, CHR ''n''), (0x0C, CHR ''f''), (0x0D, CHR ''r''),
    (0x22, CHR 0x22), (0x5C, CHR 0x5C)] (of_char c :: nat)")
  case None
  have "CHR 0x00 \<notin> set (unicodeEscape n)" for n
    by (simp add: unicodeEscape_def hexDigit_not_nul [THEN not_sym])
  with None show ?thesis by (auto simp: escapedChar_def)
next
  case (Some d)
  then have "CHR 0x00 \<noteq> d" by (auto split: if_splits)
  with Some show ?thesis by (simp add: escapedChar_def)
qed

lemma escapedText_no_nul: "CHR 0x00 \<notin> set (escapedText s)"
  by (induction s) (auto simp: escapedText_def escapedChar_no_nul)

lemma toString_no_nul: "CHR 0x00 \<notin> set (toString i)"
proof -
  have "\<not> isDigit (CHR 0x00)" by (simp add: isDigit_def)
  then have "CHR 0x00 \<notin> set (showNat n)" for n using showNat_digits [of n] by (auto simp: list_all_iff)
  then show ?thesis by (simp add: toString_def)
qed

lemma joinText_no_nul: "\<forall>x \<in> set xs. CHR 0x00 \<notin> set x \<Longrightarrow> CHR 0x00 \<notin> set (joinText xs)"
  by (induction xs rule: joinText.induct) auto

lemma responseJson_no_nul: "CHR 0x00 \<notin> set (jsonText fl (responseJson t m))"
proof -
  have "CHR 0x00 \<notin> set (joinText (map (\<lambda>(k, v). quoted k @ '':'' @ jsonText fl v) (map (\<lambda>(k, v). (k, JString v)) m)))"
    by (rule joinText_no_nul) (auto simp: quoted_def escapedText_no_nul)
  then show ?thesis
    by (simp add: responseJson_def mapToJson_def enumToJson_def quoted_def escapedText_no_nul escapedChar_no_nul toString_no_nul)
qed

section \<open>Properties\<close>

text \<open>
  C21: A message with a type and attributes of well-formed UTF-8 is turned into a text without zero bytes, and
  the constructor of a message reads it back unchanged, with or without the zero byte that the queue sends behind it.
\<close>

theorem response_roundtrip:
  assumes "validResponse r"
  shows "\<exists>x. responseToString (jsonCodec point fl) r = Inr x \<and> CHR 0x00 \<notin> set x \<and>
    responseFrom (jsonCodec point fl) x = Inr r \<and> responseFrom (jsonCodec point fl) (x @ [CHR 0x00]) = Inr r"
proof -
  obtain t where t: "resType r = Some t" using assms by (auto simp: validResponse_def)
  note reads = jsonCodec_reads(1) [OF assms t, of point fl] jsonCodec_reads(2) [OF assms t, where u = "[]" and point = point and fl = fl]
    jsonCodec_reads(2) [OF assms t, where u = "[CHR 0x00]" and point = point and fl = fl]
  from reads responseJson_no_nul
  show ?thesis
    by (intro exI [of _ "jsonText fl (responseJson t (attrs r))"])
      (auto simp: responseToString_def responseFrom_def endsInput_def)
qed

lemma jsonCodec_carries:
  assumes "validResponse r" "responseToString (jsonCodec point fl) r = Inr x" "length x < MSG_MAX_SIZE"
  shows "carries (jsonCodec point fl) r"
proof -
  obtain t where t: "resType r = Some t" using assms by (auto simp: validResponse_def)
  from jsonCodec_reads(1) [OF assms(1) t, of point fl] jsonCodec_reads(2) [OF assms(1) t, where u = "[CHR 0x00]" and point = point and fl = fl]
    responseJson_no_nul assms(2,3) show ?thesis
    by (auto simp: carries_def responseToString_def endsInput_def)
qed

text \<open>
  C20: What one process sends the other receives, as JSON over a queue of the operating system: messages that are
  valid and whose text fits come out of \<open>getOneMsg\<close> on the other side in order, each once and unchanged, and after
  them the empty message. Every send reports success.
\<close>

theorem ambassador_delivers:
  assumes "fifoIpc mq contents" "length rs \<le> MSG_MAX_COUNT" "contents (outQ s) = []" "length rs < n"
    and "\<forall>r \<in> set rs. validResponse r \<and> (\<exists>x. responseToString (jsonCodec point fl) r = Inr x \<and> length x < MSG_MAX_SIZE)"
    and "writeQ a = msgQImpl mq True c" "readQ b = msgQImpl mq d True"
  shows "\<exists>s'. mapProg (sendMsg (jsonCodec point fl) a) rs s = (Inr (replicate (length rs) 0), s') \<and>
    (\<forall>t. inQ t = outQ s' \<and> readContentQ t = [] \<longrightarrow>
      (\<exists>t'. mapProg (\<lambda>_. getOneMsg n (jsonCodec point fl) b) (replicate (Suc (length rs)) ()) t = (Inr (rs @ [newResponse]), t')))"
  by (rule delivers [OF assms(1) _ assms(2,6,7,3,4)]) (use assms(5) jsonCodec_carries in blast)

definition joinedPlayer :: Response where
  "joinedPlayer = setAttr ''instanceId'' ''1'' (setAttr ''name'' ''ann'' (setType PLAYER_JOIN newResponse))"

lemma joinedPlayer_valid: "validResponse joinedPlayer"
  by (simp add: validResponse_def joinedPlayer_def setAttr_def setType_def newResponse_def cText_def toMsgType_def msgNumber_def) code_simp

theorem response_roundtrip_witness:
  "\<exists>x. responseToString (jsonCodec CHR ''.'' bareFloats) joinedPlayer = Inr x \<and> CHR 0x00 \<notin> set x \<and>
    responseFrom (jsonCodec CHR ''.'' bareFloats) x = Inr joinedPlayer \<and>
    responseFrom (jsonCodec CHR ''.'' bareFloats) (x @ [CHR 0x00]) = Inr joinedPlayer"
  by (rule response_roundtrip [OF joinedPlayer_valid])

lemma joinedPlayer_fits:
  "\<exists>x. responseToString (jsonCodec CHR ''.'' bareFloats) joinedPlayer = Inr x \<and> length x < MSG_MAX_SIZE"
proof -
  have t: "resType joinedPlayer = Some PLAYER_JOIN" by (simp add: joinedPlayer_def setAttr_def setType_def)
  have "length (jsonText bareFloats (responseJson PLAYER_JOIN (attrs joinedPlayer))) < MSG_MAX_SIZE" by code_simp
  with jsonCodec_reads(1) [OF joinedPlayer_valid t, of "CHR ''.''" bareFloats] show ?thesis
    by (simp add: responseToString_def)
qed

theorem ambassador_delivers_witness:
  "\<exists>s' :: (string list, string list) ambState.
    mapProg (sendMsg (jsonCodec CHR ''.'' bareFloats) bothWays) [joinedPlayer, joinedPlayer] \<lparr>outQ = [], inQ = [], readContentQ = []\<rparr> = (Inr [0, 0], s') \<and>
    (\<forall>t :: (string list, string list) ambState. inQ t = outQ s' \<and> readContentQ t = [] \<longrightarrow>
      (\<exists>t'. mapProg (\<lambda>_. getOneMsg 3 (jsonCodec CHR ''.'' bareFloats) bothWays) [(), (), ()] t =
        (Inr [joinedPlayer, joinedPlayer, newResponse], t')))"
  using ambassador_delivers [OF listIpc_fifo, of "[joinedPlayer, joinedPlayer]"
      "\<lparr>outQ = [], inQ = [], readContentQ = []\<rparr> :: (string list, string list) ambState" 3 "CHR ''.''" bareFloats bothWays True bothWays True]
    joinedPlayer_valid joinedPlayer_fits
  by (simp add: bothWays_def MSG_MAX_COUNT_def numeral_eq_Suc)

lemma insertAll_outcome:
  "sortedMap ret \<Longrightarrow> (\<exists>m. insertAll ps ret = Inr m \<and> sortedMap m) \<or> (\<exists>i w. insertAll ps ret = Inl (JsonException i w))"
proof (induction ps arbitrary: ret)
  case (Cons p ps)
  have "sortedMap (case map_of ret (fst p) of None \<Rightarrow> mapPut (fst p) x ret | Some _ \<Rightarrow> ret)" for x
    using Cons.prems by (simp add: sortedMap_mapPut split: option.split)
  with Cons.IH show ?case
    by (cases "snd p") (simp_all add: stringFromJson_def typeError_def)
qed simp

lemma mapFromJson_outcome: "(\<exists>m. mapFromJson j = Inr m \<and> sortedMap m) \<or> (\<exists>i w. mapFromJson j = Inl (JsonException i w))"
  using insertAll_outcome [of "[]"] by (cases j) (auto simp: mapFromJson_def typeError_def)

lemma jsonAt_outcome: "(\<exists>v. jsonAt k j = Inr v) \<or> (\<exists>i w. jsonAt k j = Inl (JsonException i w))"
  by (cases j) (auto simp: jsonAt_def typeError_def outOfRange_def split: option.splits)

lemma attrs_outcome:
  "(\<exists>m. chain (jsonAt k j) mapFromJson = Inr m \<and> sortedMap m) \<or> (\<exists>i w. chain (jsonAt k j) mapFromJson = Inl (JsonException i w))"
  using jsonAt_outcome [of k j] mapFromJson_outcome by fastforce

lemma enumFromJson_outcome:
  "(\<exists>t. enumFromJson fl j = Inr t) \<or> (\<exists>i w. enumFromJson fl j = Inl (JsonException i w)) \<or> enumFromJson fl j = Inl UB"
proof -
  have "(\<exists>t. toMsgType n = Inr t) \<or> toMsgType n = Inl UB" for n
    by (auto simp: toMsgType_def split: option.splits)
  then show ?thesis
    by (cases j) (auto simp: enumFromJson_def getArithmeticInt_def typeError_def split: option.splits)
qed

text \<open>
  C24: The constructor of a message from a text, whatever the bytes, never throws: it makes a message without a
  type and without attributes, or one with a type and attributes, or its behaviour is undefined. The last only
  when the text is JSON in which \<open>resType\<close> is a number that the enumeration has no room for.
\<close>

theorem response_from_any_text:
  "responseFrom (jsonCodec point fl) src = Inr \<lparr>resType = None, attrs = []\<rparr> \<or>
   (\<exists>t m. responseFrom (jsonCodec point fl) src = Inr \<lparr>resType = Some t, attrs = m\<rparr> \<and> sortedMap m) \<or>
   (\<exists>j v. jsonParse (parseDefaults point fl) src = Inr j \<and> jsonAt ''resType'' j = Inr v \<and> enumFromJson fl v = Inl UB \<and>
      responseFrom (jsonCodec point fl) src = Inl UB)"
proof (cases "jsonParse (parseDefaults point fl) src")
  case (Inl e)
  with jsonParse_ends [of "parseDefaults point fl" src] show ?thesis by (auto simp: responseFrom_def jsonCodec_def)
next
  case j: (Inr j)
  show ?thesis
  proof (cases "jsonAt ''resType'' j")
    case (Inl e)
    with j jsonAt_outcome [of "''resType''" j] show ?thesis
      by (auto simp: responseFrom_def jsonCodec_def responseFromJson_def)
  next
    case v: (Inr v)
    show ?thesis
    proof (cases "enumFromJson fl v")
      case (Inl e)
      with j v enumFromJson_outcome [of fl v] show ?thesis
        by (auto simp: responseFrom_def jsonCodec_def responseFromJson_def)
    next
      case (Inr t)
      let ?m = "chain (jsonAt ''attrs'' j) mapFromJson"
      have run: "parseJson (jsonCodec point fl) src = chain ?m (\<lambda>m. Inr \<lparr>resType = Some t, attrs = m\<rparr>)"
        by (simp add: jsonCodec_def responseFromJson_def j v Inr chain_assoc)
      consider m where "?m = Inr m" "sortedMap m" | i w where "?m = Inl (JsonException i w)"
        using attrs_outcome [of "''attrs''" j] by blast
      then show ?thesis by cases (simp_all add: responseFrom_def run)
    qed
  qed
qed

text \<open>
  C25: A number that is no value of the enumeration, in an otherwise good message, is not rejected: the behaviour
  of receiving it is undefined.
\<close>

theorem unknown_type_undefined:
  assumes "isInt n" "n < - 16 \<or> 15 < n"
  shows "responseFrom (jsonCodec point fl) (''{'' @ quoted ''attrs'' @ '':{},'' @ quoted ''resType'' @ '':'' @ toString n @ ''}'') = Inl UB"
proof -
  define j :: "'a json" where "j = JObject [(''attrs'', JObject []), (''resType'', JInteger n)]"
  have str: "jsonText fl j = ''{'' @ quoted ''attrs'' @ '':{},'' @ quoted ''resType'' @ '':'' @ toString n @ ''}''"
    by (simp add: j_def)
  have "validUtf8 ''attrs''" "validUtf8 ''resType''" by code_simp+
  then have "printable (lexing (parseDefaults point fl)) j" using assms(1) by (simp add: j_def isInt_def INT_MIN_def INT_MAX_def)
  from jsonParse_text [OF this, of "[]"]
  have parse: "jsonParse (parseDefaults point fl) (jsonText fl j) = Inr (readBack j)" by (simp add: endsInput_def parseDefaults_def)
  have "toMsgType n = Inl UB" using assms(2) by (auto simp: toMsgType_def msgNumber_def)
  then have "enumFromJson fl (readBack (JInteger n)) = Inl UB"
    using assms(1) by (simp add: enumFromJson_def getArithmeticInt_def toInt_id)
  then show ?thesis
    unfolding str [symmetric]
    by (simp add: responseFrom_def jsonCodec_def parse responseFromJson_def) (simp add: j_def jsonAt_def)
qed

theorem unknown_type_undefined_witness:
  "responseFrom (jsonCodec CHR ''.'' bareFloats)
     (''{'' @ quoted ''attrs'' @ '':{},'' @ quoted ''resType'' @ '':'' @ toString 99 @ ''}'') = Inl UB"
  by (rule unknown_type_undefined) (simp_all add: isInt_def INT_MIN_def INT_MAX_def)

end
