(* ===== verification/MockServer.thy ===== *)
theory MockServer
  imports ResponseJson
begin

text \<open>
  The two prototypes around the ambassador: \<open>lib/mockServer/mockServerTest.cpp\<close>, which makes messages from what is
  typed and sends them, and \<open>mockAnswer.cpp\<close>, which sends back what it receives. Standard input is the list of
  lines that are left (each ended by a newline, so that at the end \<open>getline\<close> leaves the line empty), standard
  output the list of lines printed; \<open>sleep\<close> is left out.
\<close>

section \<open>State\<close>

record ('w, 'r) mockState =
  typed :: "string list"
  shown :: "string list"
  ambOf :: "('w, 'r) ambState"

definition onAmb :: "(('w, 'r) ambState, 'a) prog \<Rightarrow> (('w, 'r) mockState, 'a) prog" where
  "onAmb = zoom ambOf (\<lambda>a s. s\<lparr>ambOf := a\<rparr>)"

definition showLine :: "string \<Rightarrow> (('w, 'r) mockState, unit) prog" where
  "showLine x = modify (\<lambda>s. s\<lparr>shown := shown s @ [x]\<rparr>)"

definition typedLine :: "(('w, 'r) mockState, string) prog" where
  "typedLine = andThen getState (\<lambda>s. case typed s of
     [] \<Rightarrow> ok ''''
   | l # ls \<Rightarrow> andThen (modify (\<lambda>s. s\<lparr>typed := ls\<rparr>)) (\<lambda>_. ok l))"

section \<open>The mock server\<close>

definition printMsgType :: "msgType \<Rightarrow> string" where
  "printMsgType val = (case val of QUEUE_CLOSED \<Rightarrow> ''QUEUE_CLOSED'' | EMPTY \<Rightarrow> ''EMPTY'' | INPUT_REQ \<Rightarrow> ''INPUT_REQ''
     | INPUT_RES \<Rightarrow> ''INPUT_RES'' | CONFIG_REQ \<Rightarrow> ''CONFIG_REQ'' | CONFIG_RES \<Rightarrow> ''CONFIG_RES'' | GAME_INIT \<Rightarrow> ''GAME_INIT''
     | GAME_MADE \<Rightarrow> ''GAME_MADE'' | GAME_START \<Rightarrow> ''GAME_START'' | GAME_END \<Rightarrow> ''GAME_END'' | PLAYER_JOIN \<Rightarrow> ''PLAYER_JOIN''
     | PLAYER_ACK \<Rightarrow> ''PLAYER_ACK'' | PLAYER_NACK \<Rightarrow> ''PLAYER_NACK'' | DISPLAY_MSG \<Rightarrow> ''DISPLAY_MSG''
     | DISPLAY_SCORES \<Rightarrow> ''DISPLAY_SCORES'' | OtherType _ \<Rightarrow> ''Invalid'')"

text \<open>Two columns, the first filled on the right, the second, three wide, on the left.\<close>

definition formatLine :: "string \<Rightarrow> string \<Rightarrow> nat \<Rightarrow> string" where
  "formatLine val1 val2 width = val1 @ replicate (width - length val1) CHR ''-'' @ replicate (3 - length val2) CHR ''-'' @ val2"

definition printMsgTypes :: "(('w, 'r) mockState, unit) prog" where
  "printMsgTypes =
     andThen (showLine ''msgType: int vlaue'') (\<lambda>_.
     andThen (showLine (replicate 25 CHR ''='')) (\<lambda>_.
     forEach [- 1..12] (\<lambda>i. andThen (fromSum (toMsgType i)) (\<lambda>t. showLine (formatLine (printMsgType t) (toString i) 20)))))"

text \<open>Asking for the type; \<open>None\<close>: the user wants to quit. A text that is no number leaves the type out of range,
  a number too big for \<open>int\<close> is an exception that is not caught.\<close>

primrec typeLoop :: "nat \<Rightarrow> (('w, 'r) mockState, int option) prog" where
  "typeLoop 0 = raise OutOfFuel"
| "typeLoop (Suc n) =
     andThen (showLine '''') (\<lambda>_.
     andThen (showLine ''Enter type (int 0-13) (end to quit program): '') (\<lambda>_.
     andThen typedLine (\<lambda>input.
       if input = ''end'' then ok None
       else (case stoi input of
           Inr type \<Rightarrow> if 13 < type \<or> type < 0 then typeLoop n else ok (Some type)
         | Inl e \<Rightarrow> if e = InvalidArgument then typeLoop n else raise e))))"

primrec attrLoop :: "nat \<Rightarrow> Response \<Rightarrow> (('w, 'r) mockState, Response) prog" where
  "attrLoop 0 newRes = raise OutOfFuel"
| "attrLoop (Suc n) newRes =
     andThen (showLine (''Enter attribute ('' @ [CHR 0x22] @ ''end'' @ [CHR 0x22] @ '' to quit): '')) (\<lambda>_.
     andThen typedLine (\<lambda>input.
       if input = ''end'' then ok newRes
       else andThen (showLine ''Enter value: '') (\<lambda>_. andThen typedLine (\<lambda>input2. attrLoop n (setAttr input input2 newRes)))))"

definition createResponse :: "nat \<Rightarrow> (('w, 'r) mockState, Response option) prog" where
  "createResponse n = andThen (typeLoop n) (\<lambda>t. case t of
       None \<Rightarrow> ok None
     | Some type \<Rightarrow> andThen (fromSum (toMsgType type)) (\<lambda>t.
         andThen (attrLoop n (setType t newResponse)) (\<lambda>r. ok (Some r))))"

definition showResponse :: "codec \<Rightarrow> string \<Rightarrow> Response \<Rightarrow> (('w, 'r) mockState, unit) prog" where
  "showResponse cd label r = andThen (fromSum (responseToString cd r)) (\<lambda>x. showLine (label @ x))"

text \<open>The loop over what came back.\<close>

primrec showAnswers :: "nat \<Rightarrow> nat \<Rightarrow> codec \<Rightarrow> ('w, 'r) Ambassador \<Rightarrow> (('w, 'r) mockState, unit) prog" where
  "showAnswers 0 m cd a = raise OutOfFuel"
| "showAnswers (Suc n) m cd a = andThen (onAmb (getOneMsg m cd a)) (\<lambda>res. andThen (fromSum (getResType res)) (\<lambda>t.
     if t = EMPTY then ok ()
     else andThen (showResponse cd ''1 got: '' res) (\<lambda>_. showAnswers n m cd a)))"

primrec mockLoop :: "nat \<Rightarrow> nat \<Rightarrow> codec \<Rightarrow> ('w, 'r) Ambassador \<Rightarrow> (('w, 'r) mockState, int) prog" where
  "mockLoop 0 m cd a = raise OutOfFuel"
| "mockLoop (Suc n) m cd a = andThen (createResponse m) (\<lambda>newRes. case newRes of
       None \<Rightarrow> ok 0
     | Some r \<Rightarrow>
         andThen (onAmb (sendMsg cd a r)) (\<lambda>_.
         andThen (showResponse cd ''1 sent: '' r) (\<lambda>_.
         andThen (showAnswers m m cd a) (\<lambda>_. mockLoop n m cd a))))"

text \<open>At the end of \<open>main\<close> the ambassador is destroyed and closes its queue.\<close>

definition mockServer :: "nat \<Rightarrow> nat \<Rightarrow> codec \<Rightarrow> ('w, 'r) Ambassador \<Rightarrow> (('w, 'r) mockState, int) prog" where
  "mockServer n m cd a = andThen printMsgTypes (\<lambda>_. andThen (mockLoop n m cd a) (\<lambda>r.
     andThen (onAmb (closeAmbassador cd a)) (\<lambda>_. ok r)))"

section \<open>The mock answer\<close>

text \<open>One round; the result tells whether the loop goes on.\<close>

definition answerRound :: "nat \<Rightarrow> codec \<Rightarrow> ('w, 'r) Ambassador \<Rightarrow> (('w, 'r) mockState, bool) prog" where
  "answerRound m cd a =
     andThen (onAmb (getOneMsg m cd a)) (\<lambda>res. andThen (fromSum (getResType res)) (\<lambda>t.
     if t = QUEUE_CLOSED then ok False
     else if t \<noteq> EMPTY then
       andThen (showResponse cd ''2 got: '' res) (\<lambda>_.
         if getAttr res ''val'' = ''end'' then ok False
         else andThen (onAmb (sendMsg cd a res)) (\<lambda>_. andThen (showResponse cd ''2 sent: '' res) (\<lambda>_. ok True)))
     else ok True))"

primrec answerLoop :: "nat \<Rightarrow> nat \<Rightarrow> codec \<Rightarrow> ('w, 'r) Ambassador \<Rightarrow> (('w, 'r) mockState, int) prog" where
  "answerLoop 0 m cd a = raise OutOfFuel"
| "answerLoop (Suc n) m cd a = andThen (answerRound m cd a) (\<lambda>b. if b then answerLoop n m cd a else ok 0)"

definition mockAnswer :: "nat \<Rightarrow> nat \<Rightarrow> codec \<Rightarrow> ('w, 'r) Ambassador \<Rightarrow> (('w, 'r) mockState, int) prog" where
  "mockAnswer n m cd a = andThen (showLine ''starting answer process'') (\<lambda>_. andThen (answerLoop n m cd a) (\<lambda>r.
     andThen (onAmb (closeAmbassador cd a)) (\<lambda>_. ok r)))"

section \<open>How the operations run\<close>

lemma showLine_run: "showLine x s = (Inr (), s\<lparr>shown := shown s @ [x]\<rparr>)"
  by (simp add: showLine_def run_simps)

lemma typedLine_run: "typed s = l # ls \<Longrightarrow> typedLine s = (Inr l, s\<lparr>typed := ls\<rparr>)"
  by (simp add: typedLine_def run_simps)

lemma showResponse_run: "responseToString cd r = Inr x \<Longrightarrow> showResponse cd lab r s = (Inr (), s\<lparr>shown := shown s @ [lab @ x]\<rparr>)"
  by (simp add: showResponse_def showLine_run run_simps)

lemma onAmb_run: "m (ambOf s) = (r, t) \<Longrightarrow> onAmb m s = (r, s\<lparr>ambOf := t\<rparr>)"
  by (simp add: onAmb_def run_simps)

text \<open>Receiving does not touch the queue that is written.\<close>

lemma onIn_outQ: "keeps (\<lambda>s. outQ s = q) (onIn m)"
  by (auto simp: keeps_def onIn_def zoom_def split: prod.split)

lemma setContent_outQ: "keeps (\<lambda>s. outQ s = q) (setContent x)"
  by (simp add: keeps_def setContent_def run_simps)

lemma collectMsgs_outQ: "keeps (\<lambda>s. outQ s = q) (collectMsgs n cd a)"
  by (induction n) (auto intro!: keeps_intros onIn_outQ setContent_outQ)

lemma getAllMsg_outQ: "keeps (\<lambda>s. outQ s = q) (getAllMsg n cd a)"
proof -
  have "keeps (\<lambda>s. outQ s = q) (onQueueClosed m h)" if "keeps (\<lambda>s. outQ s = q) m" "keeps (\<lambda>s. outQ s = q) h"
    for m h :: "(('a, 'b) ambState, unit) prog"
    using that by (fastforce simp: keeps_def onQueueClosed_def split: prod.split sum.split cpp_error.split)
  then show ?thesis
    unfolding getAllMsg_def by (auto intro!: keeps_intros collectMsgs_outQ setContent_outQ)
qed

text \<open>One message is taken, the others wait in \<open>readContentQ\<close>.\<close>

lemma getOneMsg_run:
  assumes "fifoIpc mq contents" "readQ a = msgQImpl mq b True"
    and "contents (inQ s) = map (packet cd) rs" "\<forall>r \<in> set rs. carries cd r" "length rs < n" "readContentQ s @ rs = r # rest"
  obtains s' where "getOneMsg n cd a s = (Inr r, s')" "readContentQ s' = rest" "contents (inQ s') = []" "outQ s' = outQ s"
proof -
  obtain t where t: "getAllMsg n cd a s = (Inr (r # rest), t)" "readContentQ t = r # rest" "contents (inQ t) = []"
    using getAllMsg_run [OF assms(1-5)] assms(6) by auto
  have "outQ t = outQ s" using getAllMsg_outQ [of "outQ s" n cd a] t(1) by (auto simp: keeps_def)
  with t show thesis
    by (intro that [of "t\<lparr>readContentQ := rest\<rparr>"]) (simp_all add: getOneMsg_def run_simps setContent_def)
qed

section \<open>The answer mirrors\<close>

definition mirrored :: "Response \<Rightarrow> bool" where
  "mirrored r \<longleftrightarrow> (\<exists>t. resType r = Some t \<and> t \<noteq> QUEUE_CLOSED \<and> t \<noteq> EMPTY) \<and> getAttr r ''val'' \<noteq> ''end''"

definition endsMirror :: "Response \<Rightarrow> bool" where
  "endsMirror r \<longleftrightarrow> (\<exists>t. resType r = Some t \<and> (t = QUEUE_CLOSED \<or> t \<noteq> EMPTY \<and> getAttr r ''val'' = ''end''))"

text \<open>What the ambassador has still to hand out.\<close>

definition pending :: "('r \<Rightarrow> string list) \<Rightarrow> codec \<Rightarrow> nat \<Rightarrow> ('w, 'r) ambState \<Rightarrow> Response list \<Rightarrow> bool" where
  "pending contents cd m s ps \<longleftrightarrow> (\<exists>rs. contents (inQ s) = map (packet cd) rs \<and> (\<forall>r \<in> set rs. carries cd r) \<and> length rs < m \<and>
     readContentQ s @ rs = ps)"

lemma carries_shows: "carries cd r \<Longrightarrow> \<exists>x. responseToString cd r = Inr x"
  by (auto simp: carries_def responseToString_def)

lemma getOneMsg_pending:
  assumes "fifoIpc mq contents" "readQ a = msgQImpl mq b True" "pending contents cd m s (r # rest)"
  obtains s' where "getOneMsg m cd a s = (Inr r, s')" "pending contents cd m s' rest" "outQ s' = outQ s"
proof -
  obtain rs where rs: "contents (inQ s) = map (packet cd) rs" "\<forall>r \<in> set rs. carries cd r" "length rs < m" "readContentQ s @ rs = r # rest"
    using assms(3) by (auto simp: pending_def)
  obtain s' where "getOneMsg m cd a s = (Inr r, s')" "readContentQ s' = rest" "contents (inQ s') = []" "outQ s' = outQ s"
    by (rule getOneMsg_run [OF assms(1,2) rs])
  with rs(3) show thesis by (intro that [of s']) (simp_all add: pending_def)
qed

lemma answerRound_mirrors:
  assumes "fifoIpc mq contents" "readQ a = msgQImpl mq b True" "fifoIpc mq' contents'" "writeQ a = msgQImpl mq' True c"
    and "pending contents cd m (ambOf s) (r # rest)" "carries cd r" "mirrored r" "length (contents' (outQ (ambOf s))) < MSG_MAX_COUNT"
  obtains s' where "answerRound m cd a s = (Inr True, s')" "pending contents cd m (ambOf s') rest"
    "contents' (outQ (ambOf s')) = contents' (outQ (ambOf s)) @ [packet cd r]"
proof -
  obtain u where u: "getOneMsg m cd a (ambOf s) = (Inr r, u)" "pending contents cd m u rest" "outQ u = outQ (ambOf s)"
    by (rule getOneMsg_pending [OF assms(1,2,5)])
  obtain v where v: "sendMsg cd a r u = (Inr 0, v)" "contents' (outQ v) = contents' (outQ u) @ [packet cd r]"
      "inQ v = inQ u" "readContentQ v = readContentQ u"
    by (rule sendMsg_run [OF assms(3,6,4), of u]) (use u(3) assms(8) in auto)
  obtain x where x: "responseToString cd r = Inr x" using carries_shows [OF assms(6)] by blast
  obtain t where t: "resType r = Some t" "t \<noteq> QUEUE_CLOSED" "t \<noteq> EMPTY" "getAttr r ''val'' \<noteq> ''end''"
    using assms(7) by (auto simp: mirrored_def)
  let ?s1 = "s\<lparr>ambOf := u, shown := shown s @ [''2 got: '' @ x]\<rparr>"
  let ?s2 = "?s1\<lparr>ambOf := v, shown := shown ?s1 @ [''2 sent: '' @ x]\<rparr>"
  have "onAmb (getOneMsg m cd a) s = (Inr r, s\<lparr>ambOf := u\<rparr>)" by (rule onAmb_run [of "getOneMsg m cd a" s, OF u(1)])
  moreover have "onAmb (sendMsg cd a r) ?s1 = (Inr 0, ?s1\<lparr>ambOf := v\<rparr>)" by (rule onAmb_run) (simp add: v(1))
  ultimately have "answerRound m cd a s = (Inr True, ?s2)"
    using t by (simp add: answerRound_def run_simps getResType_def showResponse_run [OF x])
  moreover have "pending contents cd m v rest" using u(2) v(3,4) by (simp add: pending_def)
  ultimately show thesis using v(2) u(3) by (intro that [of ?s2]) simp_all
qed

lemma answerRound_ends:
  assumes "fifoIpc mq contents" "readQ a = msgQImpl mq b True"
    and "pending contents cd m (ambOf s) (r # rest)" "carries cd r" "endsMirror r"
  obtains s' where "answerRound m cd a s = (Inr False, s')" "outQ (ambOf s') = outQ (ambOf s)"
proof -
  obtain u where u: "getOneMsg m cd a (ambOf s) = (Inr r, u)" "outQ u = outQ (ambOf s)"
    by (rule getOneMsg_pending [OF assms(1-3)])
  obtain x where x: "responseToString cd r = Inr x" using carries_shows [OF assms(4)] by blast
  obtain t where t: "resType r = Some t" "t = QUEUE_CLOSED \<or> t \<noteq> EMPTY \<and> getAttr r ''val'' = ''end''"
    using assms(5) by (auto simp: endsMirror_def)
  have one: "onAmb (getOneMsg m cd a) s = (Inr r, s\<lparr>ambOf := u\<rparr>)" by (rule onAmb_run [of "getOneMsg m cd a" s, OF u(1)])
  show thesis
  proof (cases "t = QUEUE_CLOSED")
    case True
    with one t(1) have "answerRound m cd a s = (Inr False, s\<lparr>ambOf := u\<rparr>)"
      by (simp add: answerRound_def run_simps getResType_def)
    then show thesis by (rule that) (simp add: u(2))
  next
    case False
    with one t have "answerRound m cd a s = (Inr False, s\<lparr>ambOf := u, shown := shown s @ [''2 got: '' @ x]\<rparr>)"
      by (simp add: answerRound_def run_simps getResType_def showResponse_run [OF x])
    then show thesis by (rule that) (simp add: u(2))
  qed
qed

lemma answerLoop_mirrors:
  assumes "fifoIpc mq contents" "readQ a = msgQImpl mq b True" "fifoIpc mq' contents'" "writeQ a = msgQImpl mq' True c"
    and "\<forall>r \<in> set rs. carries cd r \<and> mirrored r" "carries cd stop" "endsMirror stop"
    and "pending contents cd m (ambOf s) (rs @ stop # rest)" "length (contents' (outQ (ambOf s))) + length rs \<le> MSG_MAX_COUNT"
  shows "\<exists>s'. answerLoop (Suc (length rs)) m cd a s = (Inr 0, s') \<and>
    contents' (outQ (ambOf s')) = contents' (outQ (ambOf s)) @ map (packet cd) rs"
  using assms(5,8,9)
proof (induction rs arbitrary: s)
  case Nil
  then have p: "pending contents cd m (ambOf s) (stop # rest)" by simp
  obtain s' where "answerRound m cd a s = (Inr False, s')" "outQ (ambOf s') = outQ (ambOf s)"
    by (rule answerRound_ends [OF assms(1,2) p assms(6,7)])
  then show ?case by (simp add: andThen_def ok_def)
next
  case (Cons r rs)
  obtain u where u: "answerRound m cd a s = (Inr True, u)" "pending contents cd m (ambOf u) (rs @ stop # rest)"
    "contents' (outQ (ambOf u)) = contents' (outQ (ambOf s)) @ [packet cd r]"
    by (rule answerRound_mirrors [OF assms(1-4), of cd m s r "rs @ stop # rest"]) (use Cons.prems in auto)
  from Cons.IH [of u] Cons.prems u(2,3) obtain s' where "answerLoop (Suc (length rs)) m cd a u = (Inr 0, s')"
      "contents' (outQ (ambOf s')) = contents' (outQ (ambOf u)) @ map (packet cd) rs" by auto
  with u show ?case by (simp add: andThen_def del: answerLoop.simps(2)) (simp add: andThen_def)
qed

section \<open>Properties\<close>

definition fitsQueue :: "codec \<Rightarrow> Response \<Rightarrow> bool" where
  "fitsQueue cd r \<longleftrightarrow> (\<exists>x. responseToString cd r = Inr x \<and> length x < MSG_MAX_SIZE)"

lemma closing_carries: "carries (jsonCodec point fl) (setType QUEUE_CLOSED newResponse)"
proof -
  let ?r = "setType QUEUE_CLOSED newResponse"
  have r: "validResponse ?r" "resType ?r = Some QUEUE_CLOSED" "attrs ?r = []"
    by (simp_all add: validResponse_def setType_def newResponse_def toMsgType_def msgNumber_def)
  have "length (jsonText fl (responseJson QUEUE_CLOSED [])) < MSG_MAX_SIZE" by code_simp
  with jsonCodec_reads(1) [OF r(1,2), of point fl] r(3) show ?thesis
    by (intro jsonCodec_carries [OF r(1)]) (simp_all add: responseToString_def)
qed

text \<open>
  C22: The mock answer sends back every message it receives, unchanged and in order, up to a message that closes the
  queue or has the value \<open>end\<close>; then it ends, and its last message says that the queue is closed.
\<close>

theorem mock_answer_mirrors:
  assumes "fifoIpc mq contents" "readQ a = msgQImpl mq b True" "fifoIpc mq' contents'" "writeQ a = msgQImpl mq' True c"
    and "\<forall>r \<in> set (rs @ [stop]). validResponse r \<and> fitsQueue (jsonCodec point fl) r"
    and "\<forall>r \<in> set rs. mirrored r" "endsMirror stop"
    and "contents (inQ (ambOf s)) = map (packet (jsonCodec point fl)) (rs @ [stop])" "readContentQ (ambOf s) = []"
    and "contents' (outQ (ambOf s)) = []" "length rs < MSG_MAX_COUNT" "Suc (length rs) < m"
  shows "\<exists>s'. mockAnswer (Suc (length rs)) m (jsonCodec point fl) a s = (Inr 0, s') \<and>
    contents' (outQ (ambOf s')) = map (packet (jsonCodec point fl)) (rs @ [setType QUEUE_CLOSED newResponse])"
proof -
  let ?cd = "jsonCodec point fl" and ?s = "s\<lparr>shown := shown s @ [''starting answer process'']\<rparr>"
  have carry: "\<forall>r \<in> set (rs @ [stop]). carries ?cd r"
    using assms(5) jsonCodec_carries by (fastforce simp: fitsQueue_def)
  have "pending contents ?cd m (ambOf ?s) (rs @ stop # [])"
    using assms(8,9,12) carry by (auto simp: pending_def intro!: exI [of _ "rs @ [stop]"])
  then obtain u where u: "answerLoop (Suc (length rs)) m ?cd a ?s = (Inr 0, u)" "contents' (outQ (ambOf u)) = map (packet ?cd) rs"
    using answerLoop_mirrors [OF assms(1-4) _ _ assms(7), of rs ?cd m ?s "[]"] carry assms(6,10,11) by auto
  obtain v where v: "sendMsg ?cd a (setType QUEUE_CLOSED newResponse) (ambOf u) = (Inr 0, v)"
      "contents' (outQ v) = contents' (outQ (ambOf u)) @ [packet ?cd (setType QUEUE_CLOSED newResponse)]"
    by (rule sendMsg_run [OF assms(3) closing_carries assms(4), of "ambOf u" point fl]) (use u(2) assms(11) in auto)
  have "onAmb (closeAmbassador ?cd a) u = (Inr 0, u\<lparr>ambOf := v\<rparr>)"
    using v(1) by (intro onAmb_run) (simp add: closeAmbassador_def)
  then have "mockAnswer (Suc (length rs)) m ?cd a s = (Inr 0, u\<lparr>ambOf := v\<rparr>)"
    using u(1) by (simp add: mockAnswer_def showLine_run andThen_def ok_def del: answerLoop.simps)
  then show ?thesis using u(2) v(2) by simp
qed

definition endMessage :: Response where
  "endMessage = setAttr ''val'' ''end'' (setType PLAYER_JOIN newResponse)"

lemma sample_fits:
  assumes "validResponse r" "resType r = Some t" "length (jsonText bareFloats (responseJson t (attrs r))) < MSG_MAX_SIZE"
  shows "fitsQueue (jsonCodec CHR ''.'' bareFloats) r"
  using jsonCodec_reads(1) [OF assms(1,2), of "CHR ''.''" bareFloats] assms(3) by (simp add: fitsQueue_def responseToString_def)

definition mirrorStart :: "(string list, string list) mockState" where
  "mirrorStart = \<lparr>typed = [], shown = [], ambOf = \<lparr>outQ = [],
     inQ = map (packet (jsonCodec CHR ''.'' bareFloats)) [joinedPlayer, joinedPlayer, endMessage], readContentQ = []\<rparr>\<rparr>"

theorem mock_answer_mirrors_witness:
  "\<exists>s'. mockAnswer 3 4 (jsonCodec CHR ''.'' bareFloats) bothWays mirrorStart = (Inr 0, s') \<and>
    outQ (ambOf s') = map (packet (jsonCodec CHR ''.'' bareFloats)) [joinedPlayer, joinedPlayer, setType QUEUE_CLOSED newResponse]"
proof -
  have valid: "validResponse endMessage"
    by (simp add: validResponse_def endMessage_def setAttr_def setType_def newResponse_def cText_def toMsgType_def msgNumber_def) code_simp
  have types: "resType endMessage = Some PLAYER_JOIN" "resType joinedPlayer = Some PLAYER_JOIN"
    by (simp_all add: endMessage_def joinedPlayer_def setAttr_def setType_def)
  have "length (jsonText bareFloats (responseJson PLAYER_JOIN (attrs endMessage))) < MSG_MAX_SIZE"
    "length (jsonText bareFloats (responseJson PLAYER_JOIN (attrs joinedPlayer))) < MSG_MAX_SIZE" by code_simp+
  then have fits: "fitsQueue (jsonCodec CHR ''.'' bareFloats) endMessage" "fitsQueue (jsonCodec CHR ''.'' bareFloats) joinedPlayer"
    using sample_fits [OF valid types(1)] sample_fits [OF joinedPlayer_valid types(2)] by simp_all
  have "mirrored joinedPlayer" "endsMirror endMessage"
    by (simp_all add: mirrored_def endsMirror_def types getAttr_def joinedPlayer_def endMessage_def setAttr_def setType_def newResponse_def cText_def)
  with mock_answer_mirrors [OF listIpc_fifo _ listIpc_fifo, of bothWays True True "[joinedPlayer, joinedPlayer]" endMessage
      "CHR ''.''" bareFloats mirrorStart 4] valid joinedPlayer_valid fits
  show ?thesis by (simp add: bothWays_def mirrorStart_def MSG_MAX_COUNT_def numeral_eq_Suc)
qed

text \<open>What is typed becomes a message.\<close>

definition refused :: "string \<Rightarrow> bool" where
  "refused b \<longleftrightarrow> b \<noteq> ''end'' \<and> (stoi b = Inl InvalidArgument \<or> (\<exists>i. stoi b = Inr i \<and> (i < 0 \<or> 13 < i)))"

lemma stoi_end: "stoi ''end'' = Inl InvalidArgument"
  by (simp add: stoi_def isSpace_def isDigit_def)

lemma typeLoop_typed:
  assumes "typed s = bad @ x # ls" "\<forall>b \<in> set bad. refused b" "stoi x = Inr i" "0 \<le> i" "i \<le> 13" "length bad < n"
  shows "\<exists>s'. typeLoop n s = (Inr (Some i), s') \<and> typed s' = ls \<and> ambOf s' = ambOf s"
  using assms(1,2,6)
proof (induction bad arbitrary: s n)
  case Nil
  then obtain m where n: "n = Suc m" by (cases n) auto
  have "x \<noteq> ''end''" using assms(3) stoi_end by auto
  with Nil n assms(3-5) show ?case by (simp add: run_simps showLine_run typedLine_run)
next
  case (Cons b bad)
  then obtain m where n: "n = Suc m" "length bad < m" by (cases n) auto
  let ?u = "s\<lparr>shown := (shown s @ ['''']) @ [''Enter type (int 0-13) (end to quit program): ''], typed := bad @ x # ls\<rparr>"
  have "typeLoop n s = typeLoop m ?u"
    using Cons.prems(1,2) n(1) by (auto simp: run_simps showLine_run typedLine_run refused_def)
  with Cons.IH [of ?u m] Cons.prems(2) n(2) show ?case by simp
qed

lemma attrLoop_typed:
  assumes "typed s = concat (map (\<lambda>(k, v). [k, v]) kvs) @ ''end'' # ls" "\<forall>(k, v) \<in> set kvs. k \<noteq> ''end''" "length kvs < n"
  shows "\<exists>s'. attrLoop n r s = (Inr (fold (\<lambda>(k, v). setAttr k v) kvs r), s') \<and> typed s' = ls \<and> ambOf s' = ambOf s"
  using assms
proof (induction kvs arbitrary: s n r)
  case Nil
  then obtain m where n: "n = Suc m" by (cases n) auto
  with Nil show ?case by (simp add: run_simps showLine_run typedLine_run)
next
  case (Cons kv kvs)
  obtain k v where kv: "kv = (k, v)" by (cases kv)
  from Cons.prems obtain m where n: "n = Suc m" "length kvs < m" by (cases n) auto
  let ?q = "''Enter attribute ('' @ [CHR 0x22] @ ''end'' @ [CHR 0x22] @ '' to quit): ''"
  let ?u = "s\<lparr>shown := (shown s @ [?q]) @ [''Enter value: ''], typed := concat (map (\<lambda>(k, v). [k, v]) kvs) @ ''end'' # ls\<rparr>"
  have "attrLoop n r s = attrLoop m (setAttr k v r) ?u"
    using Cons.prems(1,2) kv n(1) by (simp add: run_simps showLine_run typedLine_run)
  with Cons.IH [of ?u m "setAttr k v r"] Cons.prems(2) n(2) kv show ?case by simp
qed

text \<open>
  C23: The mock server makes the message that is typed: it asks for the type until a number from 0 to 13 is given,
  and sets the attributes in the order they are typed, up to \<open>end\<close>. Nothing is sent meanwhile.
\<close>

theorem typed_message:
  assumes "typed s = bad @ x # concat (map (\<lambda>(k, v). [k, v]) kvs) @ ''end'' # ls" "\<forall>b \<in> set bad. refused b"
    and "stoi x = Inr i" "0 \<le> i" "i \<le> 13" "\<forall>(k, v) \<in> set kvs. k \<noteq> ''end''" "length bad + length kvs < n"
  shows "\<exists>s' t. createResponse n s = (Inr (Some (fold (\<lambda>(k, v). setAttr k v) kvs (setType t newResponse))), s') \<and>
    msgNumber t = i \<and> typed s' = ls \<and> ambOf s' = ambOf s"
proof -
  have "list_all (\<lambda>i. \<exists>t. toMsgType i = Inr t) [0..13]"
    by (simp add: toMsgType_def msgNumber_def upto.simps)
  moreover have "i \<in> set [0..13]" using assms(4,5) by simp
  ultimately obtain t where t: "toMsgType i = Inr t" unfolding list_all_iff by blast
  obtain u where u: "typeLoop n s = (Inr (Some i), u)" "typed u = concat (map (\<lambda>(k, v). [k, v]) kvs) @ ''end'' # ls" "ambOf u = ambOf s"
    using typeLoop_typed [OF assms(1-5), of n] assms(7) by auto
  obtain v where v: "attrLoop n (setType t newResponse) u = (Inr (fold (\<lambda>(k, v). setAttr k v) kvs (setType t newResponse)), v)"
      "typed v = ls" "ambOf v = ambOf u"
    using attrLoop_typed [OF u(2) assms(6), of n "setType t newResponse"] assms(7) by auto
  show ?thesis
    using u v t toMsgType_range [OF t] by (intro exI [of _ v] exI [of _ t]) (simp add: createResponse_def run_simps)
qed

theorem typed_message_witness:
  "\<exists>(s' :: (unit, unit) mockState) t. createResponse 9 \<lparr>typed = [''14'', ''x'', ''9'', ''name'', ''ann'', ''val'', ''1'', ''end'', ''end''], shown = [],
       ambOf = \<lparr>outQ = (), inQ = (), readContentQ = []\<rparr>\<rparr> =
     (Inr (Some (setAttr ''val'' ''1'' (setAttr ''name'' ''ann'' (setType t newResponse)))), s') \<and>
    msgNumber t = 9 \<and> typed s' = [''end''] \<and> ambOf s' = \<lparr>outQ = (), inQ = (), readContentQ = []\<rparr>"
proof -
  have "stoi ''14'' = Inr 14" "stoi ''x'' = Inl InvalidArgument" "stoi ''9'' = Inr 9"
    by (simp_all add: stoi_def isSpace_def isDigit_def readDigits_def digitValue_def isInt_def INT_MAX_def INT_MIN_def)
  then show ?thesis
    using typed_message [of "\<lparr>typed = [''14'', ''x'', ''9'', ''name'', ''ann'', ''val'', ''1'', ''end'', ''end''], shown = [],
       ambOf = \<lparr>outQ = (), inQ = (), readContentQ = []\<rparr>\<rparr> :: (unit, unit) mockState" "[''14'', ''x'']" "''9''"
       "[(''name'', ''ann''), (''val'', ''1'')]" "[''end'']" 9 9]
    by (simp add: refused_def)
qed

end
