(* ===== verification/EventLoop.thy ===== *)
theory EventLoop
  imports CppText
begin

text \<open>
  The event loop prototype (\<open>lib/eventLoop/EventLoop.cpp\<close>) with its stand-ins for tasks, games and the manager of
  games. Standard input is the list of lines that are left, standard output the list of lines printed. The regular
  expression of the standard library is a function of its own (\<open>searchInput\<close>). What \<open>debugPrint\<close> prints depends on
  the build (\<open>debug\<close>).
\<close>

section \<open>Tasks, the game and its manager\<close>

datatype TaskType = CONTROL_FLOW | EXECUTABLE | SERVER_MSG_WAIT | SERVER_MSG_CONTINUE | SERVER_DISPLAY_MSG

record loopTask =
  type_of_task :: TaskType
  task_id :: int

text \<open>There is one game, which the manager hands out whenever it is asked.\<close>

record loopState =
  taskQ :: "loopTask list"
  isInactive :: bool
  inputCount :: int
  inputLines :: "string list"
  printed :: "string list"

definition neededInputCount :: int where
  "neededInputCount = 5"

definition newTasks :: "loopTask list" where
  "newTasks = map (\<lambda>i. \<lparr>type_of_task = EXECUTABLE, task_id = i\<rparr>) [0..9] @
     map (\<lambda>i. \<lparr>type_of_task = SERVER_MSG_CONTINUE, task_id = i + 10\<rparr>) [0..4] @
     [\<lparr>type_of_task = SERVER_MSG_WAIT, task_id = 21\<rparr>, \<lparr>type_of_task = SERVER_DISPLAY_MSG, task_id = 22\<rparr>]"

definition newLoop :: "string list \<Rightarrow> loopState" where
  "newLoop ls = \<lparr>taskQ = newTasks, isInactive = False, inputCount = 0, inputLines = ls, printed = []\<rparr>"

definition printLine :: "string \<Rightarrow> (loopState, unit) prog" where
  "printLine x = modify (\<lambda>s. s\<lparr>printed := printed s @ [x]\<rparr>)"

definition debugPrint :: "bool \<Rightarrow> string \<Rightarrow> (loopState, unit) prog" where
  "debugPrint debug msg = (if debug then printLine msg else ok ())"

definition runTask :: "loopTask \<Rightarrow> (loopState, int) prog" where
  "runTask t = andThen (printLine (''ran task '' @ toString (task_id t))) (\<lambda>_. ok 0)"

definition getTask :: "(loopState, loopTask option) prog" where
  "getTask = andThen getState (\<lambda>s. case taskQ s of
       [] \<Rightarrow> ok None
     | t # ts \<Rightarrow> andThen (printLine (''popping task'' @ toString (task_id t))) (\<lambda>_.
         andThen (modify (\<lambda>s. s\<lparr>taskQ := ts\<rparr>)) (\<lambda>_. ok (Some t))))"

definition setInactive :: "bool \<Rightarrow> (loopState, unit) prog" where
  "setInactive b = modify (\<lambda>s. s\<lparr>isInactive := b\<rparr>)"

text \<open>\<open>setPlayerVar\<close> does nothing.\<close>

definition playerInput :: "int \<Rightarrow> string \<Rightarrow> string \<Rightarrow> (loopState, unit) prog" where
  "playerInput player key input =
     andThen (modify (\<lambda>s. s\<lparr>inputCount := inputCount s + 1\<rparr>)) (\<lambda>_. andThen getState (\<lambda>s.
     if neededInputCount \<le> inputCount s
     then andThen (setInactive False) (\<lambda>_. modify (\<lambda>s. s\<lparr>inputCount := 0\<rparr>))
     else ok ()))"

section \<open>Input\<close>

text \<open>The do loop around \<open>getline\<close>. At the end of the input the line stays empty.\<close>

primrec readInput :: "nat \<Rightarrow> (loopState, string) prog" where
  "readInput 0 = raise OutOfFuel"
| "readInput (Suc n) = andThen (printLine ''enter input:'') (\<lambda>_. andThen getState (\<lambda>s.
     case inputLines s of
       [] \<Rightarrow> readInput n
     | l # ls \<Rightarrow> andThen (modify (\<lambda>s. s\<lparr>inputLines := ls\<rparr>)) (\<lambda>_. if l = '''' then readInput n else ok l)))"

text \<open>\<open>player:([0-9]+) key:(.*) value:(.*)\<close>: the leftmost place that matches, each group as long as possible. A dot
  does not match the end of a line.\<close>

definition isDot :: "char \<Rightarrow> bool" where
  "isDot c \<longleftrightarrow> c \<noteq> CHR 0x0A \<and> c \<noteq> CHR 0x0D"

definition startsWith :: "string \<Rightarrow> string \<Rightarrow> bool" where
  "startsWith p s \<longleftrightarrow> take (length p) s = p"

definition splitValue :: "string \<Rightarrow> (string \<times> string) option" where
  "splitValue s =
     (case filter (\<lambda>i. list_all isDot (take i s) \<and> startsWith '' value:'' (drop i s)) (rev [0..<length s]) of
        [] \<Rightarrow> None
      | i # _ \<Rightarrow> Some (take i s, takeWhile isDot (drop (i + 7) s)))"

definition matchInput :: "string \<Rightarrow> (string \<times> string \<times> string) option" where
  "matchInput s =
     (let ds = takeWhile isDigit (drop 7 s); t = dropWhile isDigit (drop 7 s) in
      if startsWith ''player:'' s \<and> ds \<noteq> [] \<and> startsWith '' key:'' t
      then map_option (\<lambda>(k, v). (ds, k, v)) (splitValue (drop 5 t)) else None)"

fun searchInput :: "string \<Rightarrow> (string \<times> string \<times> string) option" where
  "searchInput [] = None"
| "searchInput (c # cs) = (case matchInput (c # cs) of Some m \<Rightarrow> Some m | None \<Rightarrow> searchInput cs)"

text \<open>A line that does not match, or whose player is no \<open>int\<close>, is reported.\<close>

definition takeInput :: "bool \<Rightarrow> string \<Rightarrow> (loopState, unit) prog" where
  "takeInput debug input =
     (case searchInput input of
        Some (p, k, v) \<Rightarrow> (case stoi p of
            Inr player \<Rightarrow> andThen (playerInput player k v) (\<lambda>_. debugPrint debug ''good input'')
          | Inl _ \<Rightarrow> printLine ''malformed message'')
      | None \<Rightarrow> printLine ''malformed message'')"

section \<open>The loop\<close>

text \<open>\<open>msg += task->id\<close> appends one character.\<close>

definition promptText :: "loopTask \<Rightarrow> string" where
  "promptText t = ''[prompt id]'' @ [char_of (nat (task_id t))]"

text \<open>The inner loop; the results are \<open>exit\<close> and \<open>dontPushActive\<close>.\<close>

primrec processTasks :: "bool \<Rightarrow> nat \<Rightarrow> (loopState, bool \<times> bool) prog" where
  "processTasks debug 0 = ok (False, False)"
| "processTasks debug (Suc k) = andThen getTask (\<lambda>t. case t of
       None \<Rightarrow> andThen (printLine ''Game End'') (\<lambda>_. ok (True, False))
     | Some task \<Rightarrow>
         if type_of_task task = SERVER_MSG_WAIT
         then andThen (setInactive True) (\<lambda>_. andThen (debugPrint debug (promptText task)) (\<lambda>_. ok (False, True)))
         else if type_of_task task = SERVER_MSG_CONTINUE \<or> type_of_task task = SERVER_DISPLAY_MSG
         then andThen (debugPrint debug (promptText task)) (\<lambda>_. processTasks debug k)
         else andThen (runTask task) (\<lambda>_. processTasks debug k))"

definition maxProcessCount :: nat where
  "maxProcessCount = 1"

text \<open>One round; the result is \<open>exit\<close>.\<close>

definition loopRound :: "nat \<Rightarrow> bool \<Rightarrow> (loopState, bool) prog" where
  "loopRound m debug =
     andThen getState (\<lambda>s.
     andThen (if isInactive s then ok False
       else andThen (processTasks debug maxProcessCount) (\<lambda>(exit, dontPushActive).
         andThen (if dontPushActive then ok () else setInactive False) (\<lambda>_. ok exit))) (\<lambda>exit.
     andThen getState (\<lambda>s.
     andThen (if isInactive s \<and> \<not> exit then andThen (readInput m) (takeInput debug) else ok ()) (\<lambda>_. ok exit))))"

primrec eventLoop :: "nat \<Rightarrow> nat \<Rightarrow> bool \<Rightarrow> (loopState, int) prog" where
  "eventLoop 0 m debug = raise OutOfFuel"
| "eventLoop (Suc n) m debug = andThen (loopRound m debug) (\<lambda>exit. if exit then ok 0 else eventLoop n m debug)"

section \<open>Rounds\<close>

text \<open>The tasks that were taken, as they are printed.\<close>

definition popLine :: "loopTask \<Rightarrow> string" where
  "popLine t = ''popping task'' @ toString (task_id t)"

definition popLines :: "string list \<Rightarrow> string list" where
  "popLines = filter (startsWith ''popping task'')"

lemma popLines_simps [simp]:
  "popLines [] = []" "popLines (xs @ ys) = popLines xs @ popLines ys"
  "popLines (x # xs) = (if startsWith ''popping task'' x then x # popLines xs else popLines xs)"
  by (simp_all add: popLines_def)

definition ranLine :: "loopTask \<Rightarrow> string" where
  "ranLine t = ''ran task '' @ toString (task_id t)"

lemma startsWith_lines [simp]:
  "startsWith ''popping task'' (popLine t)" "\<not> startsWith ''popping task'' (ranLine t)"
  "\<not> startsWith ''popping task'' (promptText t)" "\<not> startsWith ''popping task'' ''enter input:''"
  "\<not> startsWith ''popping task'' ''malformed message''" "\<not> startsWith ''popping task'' ''good input''"
  "\<not> startsWith ''popping task'' ''Game End''"
  by (simp_all add: startsWith_def popLine_def promptText_def ranLine_def)

text \<open>How the operations run.\<close>

lemma printLine_run: "printLine x s = (Inr (), s\<lparr>printed := printed s @ [x]\<rparr>)"
  by (simp add: printLine_def run_simps)

lemma debugPrint_run: "debugPrint debug x s = (Inr (), s\<lparr>printed := printed s @ (if debug then [x] else [])\<rparr>)"
  by (simp add: debugPrint_def printLine_run run_simps)

lemma setInactive_run: "setInactive b s = (Inr (), s\<lparr>isInactive := b\<rparr>)"
  by (simp add: setInactive_def run_simps)

lemma getTask_run:
  "getTask s = (case taskQ s of [] \<Rightarrow> (Inr None, s)
     | t # ts \<Rightarrow> (Inr (Some t), s\<lparr>printed := printed s @ [popLine t], taskQ := ts\<rparr>))"
  by (simp add: getTask_def printLine_run popLine_def run_simps split: list.split)

lemma runTask_run: "runTask t s = (Inr 0, s\<lparr>printed := printed s @ [ranLine t]\<rparr>)"
  by (simp add: runTask_def printLine_run ranLine_def run_simps)

lemmas loop_runs = printLine_run debugPrint_run setInactive_run getTask_run runTask_run run_simps

text \<open>What a round prints that does not wait.\<close>

definition taskOut :: "bool \<Rightarrow> loopTask \<Rightarrow> string list" where
  "taskOut debug t = popLine t #
     (if type_of_task t \<in> {SERVER_MSG_CONTINUE, SERVER_DISPLAY_MSG} then if debug then [promptText t] else [] else [ranLine t])"

lemma taskOut_pops [simp]: "popLines (taskOut debug t) = [popLine t]"
  by (simp add: taskOut_def)

lemma round_task:
  assumes "taskQ s = t # ts" "\<not> isInactive s" "type_of_task t \<noteq> SERVER_MSG_WAIT"
  shows "loopRound m debug s = (Inr False, s\<lparr>taskQ := ts, printed := printed s @ taskOut debug t, isInactive := False\<rparr>)"
  using assms
  by (cases "type_of_task t") (simp_all add: loopRound_def maxProcessCount_def loop_runs taskOut_def)

lemma loop_tasks:
  assumes "\<forall>t \<in> set ts. type_of_task t \<noteq> SERVER_MSG_WAIT" "taskQ s = ts @ rest" "\<not> isInactive s"
  shows "eventLoop (length ts + n) m debug s =
    eventLoop n m debug (s\<lparr>taskQ := rest, printed := printed s @ concat (map (taskOut debug) ts), isInactive := False\<rparr>)"
  using assms
proof (induction ts arbitrary: s)
  case (Cons t ts)
  let ?u = "s\<lparr>taskQ := ts @ rest, printed := printed s @ taskOut debug t, isInactive := False\<rparr>"
  have "loopRound m debug s = (Inr False, ?u)" using Cons.prems by (intro round_task) simp_all
  then have "eventLoop (length (t # ts) + n) m debug s = eventLoop (length ts + n) m debug ?u" by (simp add: andThen_def)
  also have "\<dots> = eventLoop n m debug (?u\<lparr>taskQ := rest, printed := printed ?u @ concat (map (taskOut debug) ts), isInactive := False\<rparr>)"
    using Cons.prems by (intro Cons.IH) simp_all
  finally show ?case by simp
next
  case Nil
  then have "s\<lparr>taskQ := rest, isInactive := False\<rparr> = s" by simp
  then show ?case by simp
qed

text \<open>A waiting task makes the game inactive; the round goes on as for an inactive game.\<close>

lemma round_wait:
  assumes "taskQ s = t # ts" "\<not> isInactive s" "type_of_task t = SERVER_MSG_WAIT"
  shows "loopRound m debug s = loopRound m debug (s\<lparr>taskQ := ts, isInactive := True,
    printed := printed s @ popLine t # (if debug then [promptText t] else [])\<rparr>)"
  using assms by (simp add: loopRound_def maxProcessCount_def loop_runs)

lemma round_end:
  assumes "taskQ s = []" "\<not> isInactive s"
  shows "loopRound m debug s = (Inr True, s\<lparr>printed := printed s @ [''Game End''], isInactive := False\<rparr>)"
  using assms by (simp add: loopRound_def maxProcessCount_def loop_runs)

section \<open>Waiting for input\<close>

definition goodInput :: "string \<Rightarrow> bool" where
  "goodInput l \<longleftrightarrow> (\<exists>p k v i. searchInput l = Some (p, k, v) \<and> stoi p = Inr i)"

lemma takeInput_bad: "\<not> goodInput l \<Longrightarrow> takeInput debug l s = (Inr (), s\<lparr>printed := printed s @ [''malformed message'']\<rparr>)"
  by (auto simp: takeInput_def goodInput_def loop_runs split: option.splits sum.splits)

lemma takeInput_good:
  "goodInput l \<Longrightarrow> takeInput debug l s = (Inr (), s\<lparr>
     inputCount := (if 5 \<le> inputCount s + 1 then 0 else inputCount s + 1),
     isInactive := (if 5 \<le> inputCount s + 1 then False else isInactive s),
     printed := printed s @ (if debug then [''good input''] else [])\<rparr>)"
  by (auto simp: takeInput_def goodInput_def playerInput_def neededInputCount_def loop_runs)

lemma readInput_end: "inputLines s = [] \<Longrightarrow> fst (readInput m s) = Inl OutOfFuel"
  by (induction m arbitrary: s) (simp_all add: loop_runs)

text \<open>A line that is not empty is read, the empty ones before it are skipped.\<close>

lemma readInput_line:
  assumes "inputLines s = replicate k '''' @ l # ls" "l \<noteq> ''''" "k < m"
  shows "\<exists>out. readInput m s = (Inr l, s\<lparr>inputLines := ls, printed := printed s @ out\<rparr>) \<and> popLines out = []"
  using assms
proof (induction k arbitrary: s m)
  case 0
  then obtain j where "m = Suc j" by (cases m) auto
  with 0 show ?case by (intro exI [of _ "[''enter input:'']"]) (simp add: loop_runs)
next
  case (Suc k)
  then obtain j where m: "m = Suc j" "k < j" by (cases m) auto
  let ?u = "s\<lparr>printed := printed s @ [''enter input:''], inputLines := replicate k '''' @ l # ls\<rparr>"
  from Suc.IH [of ?u j] Suc.prems(2) m(2) obtain out where
    "readInput j ?u = (Inr l, ?u\<lparr>inputLines := ls, printed := printed ?u @ out\<rparr>)" "popLines out = []" by auto
  with m(1) Suc.prems(1) show ?case
    by (intro exI [of _ "''enter input:'' # out"]) (simp add: loop_runs)
qed

lemma readInput_blank:
  "\<forall>l \<in> set (inputLines s). l = '''' \<Longrightarrow> fst (readInput m s) = Inl OutOfFuel"
proof (induction m arbitrary: s)
  case (Suc m)
  then show ?case by (cases "inputLines s") (simp_all add: loop_runs)
qed (simp add: run_simps)

lemma blank_split: "(\<forall>l \<in> set ls. l = '''') \<or> (\<exists>k l rest. ls = replicate k '''' @ l # rest \<and> l \<noteq> '''')"
proof (induction ls)
  case (Cons x ls)
  show ?case
  proof (cases "x = ''''")
    case True
    from Cons show ?thesis
    proof (elim disjE exE conjE)
      fix k l rest assume "ls = replicate k '''' @ l # rest" "l \<noteq> ''''"
      with True have "x # ls = replicate (Suc k) '''' @ l # rest" by simp
      with \<open>l \<noteq> ''''\<close> show ?thesis by blast
    qed (use True in auto)
  next
    case False
    then have "x # ls = replicate 0 '''' @ x # ls" by simp
    with False show ?thesis by blast
  qed
qed simp

text \<open>A round of an inactive game.\<close>

lemma goodInput_not_empty: "goodInput l \<Longrightarrow> l \<noteq> ''''"
  by (auto simp: goodInput_def)

lemma round_input:
  assumes "isInactive s" "inputLines s = replicate k '''' @ l # ls" "l \<noteq> ''''" "k < m"
  shows "\<exists>out. loopRound m debug s = (Inr False, s\<lparr>inputLines := ls,
      inputCount := (if goodInput l then if 5 \<le> inputCount s + 1 then 0 else inputCount s + 1 else inputCount s),
      isInactive := \<not> (goodInput l \<and> 5 \<le> inputCount s + 1), printed := printed s @ out\<rparr>) \<and> popLines out = []"
proof -
  obtain out where out: "readInput m s = (Inr l, s\<lparr>inputLines := ls, printed := printed s @ out\<rparr>)" "popLines out = []"
    using readInput_line [OF assms(2-4)] by blast
  show ?thesis
  proof (cases "goodInput l")
    case True
    with out assms(1) show ?thesis
      by (intro exI [of _ "out @ (if debug then [''good input''] else [])"])
        (simp add: loopRound_def run_simps takeInput_good)
  next
    case False
    with out assms(1) show ?thesis
      by (intro exI [of _ "out @ [''malformed message'']"]) (simp add: loopRound_def run_simps takeInput_bad)
  qed
qed

lemma readInput_short:
  "inputLines s = replicate k '''' @ ls \<Longrightarrow> m \<le> k \<Longrightarrow> fst (readInput m s) = Inl OutOfFuel"
proof (induction m arbitrary: s k)
  case (Suc m)
  then obtain j where "k = Suc j" by (cases k) auto
  with Suc show ?case by (simp add: loop_runs)
qed (simp add: run_simps)

lemma goodInput_blanks [simp]: "filter goodInput (replicate k '''') = []"
  by (induction k) (auto simp: goodInput_def)

lemma waiting_ends:
  assumes "isInactive s" "0 \<le> inputCount s" "inputCount s < 5" "length (inputLines s) < m"
    and "5 \<le> inputCount s + int (length (filter goodInput (inputLines s)))"
  shows "\<exists>N used u. N \<le> length (inputLines s) \<and> (\<forall>n. eventLoop (N + n) m debug s = eventLoop n m debug u) \<and>
    \<not> isInactive u \<and> taskQ u = taskQ s \<and> popLines (printed u) = popLines (printed s) \<and>
    inputLines s = used @ inputLines u \<and> inputCount s + int (length (filter goodInput used)) = 5 \<and>
    used \<noteq> [] \<and> goodInput (last used)"
  using assms
proof (induction "length (inputLines s)" arbitrary: s rule: less_induct)
  case less
  from blank_split [of "inputLines s"] obtain k l ls where ls: "inputLines s = replicate k '''' @ l # ls" "l \<noteq> ''''"
  proof
    assume blank: "\<forall>l \<in> set (inputLines s). l = ''''"
    then have "filter goodInput (inputLines s) = []" using goodInput_not_empty by (auto simp: filter_empty_conv)
    with less.prems(3,5) show thesis by simp
  qed blast
  define c where "c = (if goodInput l then if 5 \<le> inputCount s + 1 then 0 else inputCount s + 1 else inputCount s)"
  have "k < m" using less.prems(4) ls(1) by simp
  from round_input [OF less.prems(1) ls this, of debug, folded c_def] obtain out u where
    u: "loopRound m debug s = (Inr False, u)" "u = s\<lparr>inputLines := ls, inputCount := c,
      isInactive := \<not> (goodInput l \<and> 5 \<le> inputCount s + 1), printed := printed s @ out\<rparr>" "popLines out = []"
    by blast
  then have step: "eventLoop (Suc n) m debug s = eventLoop n m debug u" for n by (simp add: andThen_def)
  show ?case
  proof (cases "goodInput l \<and> 5 \<le> inputCount s + 1")
    case True
    with step u ls less.prems(3) show ?thesis
      by (intro exI [of _ 1] exI [of _ "replicate k '''' @ [l]"] exI [of _ u]) auto
  next
    case False
    then have c: "c = (if goodInput l then inputCount s + 1 else inputCount s)" by (auto simp: c_def)
    have "\<exists>N used v. N \<le> length (inputLines u) \<and> (\<forall>n. eventLoop (N + n) m debug u = eventLoop n m debug v) \<and>
      \<not> isInactive v \<and> taskQ v = taskQ u \<and> popLines (printed v) = popLines (printed u) \<and>
      inputLines u = used @ inputLines v \<and> inputCount u + int (length (filter goodInput used)) = 5 \<and>
      used \<noteq> [] \<and> goodInput (last used)"
      by (rule less.hyps) (use u(2) c False ls less.prems in auto)
    then obtain N used v where v: "N \<le> length ls" "\<forall>n. eventLoop (N + n) m debug u = eventLoop n m debug v"
        "\<not> isInactive v" "taskQ v = taskQ u" "popLines (printed v) = popLines (printed u)"
        "ls = used @ inputLines v" "c + int (length (filter goodInput used)) = 5" "used \<noteq> []" "goodInput (last used)"
      using u(2) by auto
    then show ?thesis
      using step u(2,3) ls c
      by (intro exI [of _ "Suc N"] exI [of _ "replicate k '''' @ l # used"] exI [of _ v]) auto
  qed
qed

lemma waiting_forever:
  "isInactive s \<Longrightarrow> 0 \<le> inputCount s \<Longrightarrow> inputCount s + int (length (filter goodInput (inputLines s))) < 5 \<Longrightarrow>
     fst (eventLoop n m debug s) = Inl OutOfFuel"
proof (induction n arbitrary: s)
  case (Suc n)
  have stuck: "fst (eventLoop (Suc n) m debug s) = Inl OutOfFuel" if "fst (readInput m s) = Inl OutOfFuel"
    using that Suc.prems(1) by (cases "readInput m s") (simp add: loopRound_def run_simps andThen_def)
  from blank_split [of "inputLines s"] show ?case
  proof (elim disjE exE conjE)
    assume "\<forall>l \<in> set (inputLines s). l = ''''"
    then show ?thesis by (intro stuck readInput_blank)
  next
    fix k l ls assume ls: "inputLines s = replicate k '''' @ l # ls" "l \<noteq> ''''"
    show ?thesis
    proof (cases "k < m")
      case True
      have no: "\<not> (goodInput l \<and> 5 \<le> inputCount s + 1)" using Suc.prems(3) ls(1) by auto
      from round_input [OF Suc.prems(1) ls True, of debug] no obtain out u where
        u: "loopRound m debug s = (Inr False, u)" "u = s\<lparr>inputLines := ls,
          inputCount := (if goodInput l then if 5 \<le> inputCount s + 1 then 0 else inputCount s + 1 else inputCount s),
          isInactive := True, printed := printed s @ out\<rparr>" by auto
      have "fst (eventLoop n m debug u) = Inl OutOfFuel"
        by (rule Suc.IH) (use u(2) no Suc.prems ls in auto)
      with u(1) show ?thesis by (simp add: andThen_def)
    next
      case False
      with ls show ?thesis by (intro stuck readInput_short) auto
    qed
  qed
qed (simp add: run_simps)

lemma eventLoop_more:
  "fst (eventLoop n m debug s) \<noteq> Inl OutOfFuel \<Longrightarrow> eventLoop (n + k) m debug s = eventLoop n m debug s"
proof (induction n arbitrary: s)
  case (Suc n)
  then show ?case by (auto simp: andThen_def ok_def split: prod.splits sum.splits)
qed (simp add: run_simps)

section \<open>Properties\<close>

lemma newTasks_split:
  "\<exists>ts w d. newTasks = ts @ [w, d] \<and> length ts = 15 \<and> (\<forall>t \<in> set ts. type_of_task t \<noteq> SERVER_MSG_WAIT) \<and>
     type_of_task w = SERVER_MSG_WAIT \<and> type_of_task d \<noteq> SERVER_MSG_WAIT"
  by (intro exI [of _ "map (\<lambda>i. \<lparr>type_of_task = EXECUTABLE, task_id = i\<rparr>) [0..9] @
     map (\<lambda>i. \<lparr>type_of_task = SERVER_MSG_CONTINUE, task_id = i + 10\<rparr>) [0..4]"]) (auto simp: newTasks_def)

text \<open>Up to the task that waits; the game is inactive then.\<close>

lemma loop_to_wait:
  obtains u d where "\<forall>n. eventLoop (Suc (15 + n)) m debug (newLoop ls) = eventLoop (Suc n) m debug u" "isInactive u" "taskQ u = [d]"
    "type_of_task d \<noteq> SERVER_MSG_WAIT" "inputCount u = 0" "inputLines u = ls" "popLines (printed u) @ [popLine d] = map popLine newTasks"
proof -
  obtain ts w d where ts: "newTasks = ts @ [w, d]" "length ts = 15" "\<forall>t \<in> set ts. type_of_task t \<noteq> SERVER_MSG_WAIT"
      "type_of_task w = SERVER_MSG_WAIT" "type_of_task d \<noteq> SERVER_MSG_WAIT" using newTasks_split by blast
  let ?s = "newLoop ls"
  let ?t = "?s\<lparr>taskQ := [w, d], printed := printed ?s @ concat (map (taskOut debug) ts), isInactive := False\<rparr>"
  let ?u = "?t\<lparr>taskQ := [d], isInactive := True, printed := printed ?t @ popLine w # (if debug then [promptText w] else [])\<rparr>"
  have one: "eventLoop (15 + Suc n) m debug ?s = eventLoop (Suc n) m debug ?t" for n
    using loop_tasks [OF ts(3), of ?s "[w, d]" "Suc n" m debug] ts(1,2) by (simp add: newLoop_def)
  have "loopRound m debug ?t = loopRound m debug ?u" by (rule round_wait) (simp_all add: ts)
  then have two: "eventLoop (Suc n) m debug ?t = eventLoop (Suc n) m debug ?u" for n by (simp add: andThen_def)
  have "popLines (concat (map (taskOut debug) ts)) = map popLine ts" by (induction ts) simp_all
  then have "popLines (printed ?u) @ [popLine d] = map popLine newTasks" by (simp add: newLoop_def ts(1))
  with one two ts(5) show thesis by (intro that [of ?u d]) (simp_all add: newLoop_def)
qed

text \<open>
  C19: With five good lines in the input the event loop comes to its end: it has taken every task of the game once
  and in order, and has read the input up to the fifth good line, skipping what is empty or malformed.
\<close>

theorem event_loop_ends:
  assumes "5 \<le> length (filter goodInput ls)"
  shows "\<exists>s used. eventLoop (length ls + 18) (Suc (length ls)) debug (newLoop ls) = (Inr 0, s) \<and> taskQ s = [] \<and>
    popLines (printed s) = map popLine newTasks \<and> ls = used @ inputLines s \<and> length (filter goodInput used) = 5 \<and>
    goodInput (last used)"
proof -
  let ?m = "Suc (length ls)"
  obtain u d where u: "\<forall>n. eventLoop (Suc (15 + n)) ?m debug (newLoop ls) = eventLoop (Suc n) ?m debug u" "isInactive u" "taskQ u = [d]"
    "type_of_task d \<noteq> SERVER_MSG_WAIT" "inputCount u = 0" "inputLines u = ls" "popLines (printed u) @ [popLine d] = map popLine newTasks"
    by (rule loop_to_wait [of ?m debug ls])
  have "\<exists>N used v. N \<le> length (inputLines u) \<and> (\<forall>n. eventLoop (N + n) ?m debug u = eventLoop n ?m debug v) \<and>
    \<not> isInactive v \<and> taskQ v = taskQ u \<and> popLines (printed v) = popLines (printed u) \<and>
    inputLines u = used @ inputLines v \<and> inputCount u + int (length (filter goodInput used)) = 5 \<and>
    used \<noteq> [] \<and> goodInput (last used)"
    by (rule waiting_ends) (use u assms in auto)
  then obtain N used v where v: "N \<le> length ls" "\<forall>n. eventLoop (N + n) ?m debug u = eventLoop n ?m debug v"
    "\<not> isInactive v" "taskQ v = [d]" "popLines (printed v) = popLines (printed u)" "ls = used @ inputLines v"
    "length (filter goodInput used) = 5" "goodInput (last used)"
    using u(3,5,6) by auto
  let ?w = "v\<lparr>taskQ := [], printed := printed v @ taskOut debug d, isInactive := False\<rparr>"
  let ?x = "?w\<lparr>printed := printed ?w @ [''Game End''], isInactive := False\<rparr>"
  have rounds: "loopRound ?m debug v = (Inr False, ?w)" "loopRound ?m debug ?w = (Inr True, ?x)"
    by (rule round_task [OF v(4,3) u(4)]) (rule round_end; simp)
  obtain k where k: "length ls = N + k" using v(1) le_Suc_ex by blast
  have "length ls + 18 = Suc (15 + (length ls + 2))" by simp
  then have "eventLoop (length ls + 18) ?m debug (newLoop ls) = eventLoop (Suc (length ls + 2)) ?m debug u" using u(1) by (simp only:)
  also have "Suc (length ls + 2) = N + Suc (Suc (Suc k))" using k by simp
  also have "eventLoop (N + Suc (Suc (Suc k))) ?m debug u = eventLoop (Suc (Suc (Suc k))) ?m debug v" using v(2) by blast
  also have "\<dots> = (Inr 0, ?x)" using rounds by (simp add: andThen_def ok_def)
  finally show ?thesis
    using u(7) v(5-8) by (intro exI [of _ ?x] exI [of _ used]) simp
qed

definition fiveInputs :: "string list" where
  "fiveInputs = [''player:1 key:a value:x'', '''', ''hello'', ''player:2 key:a value:y'', ''player:3 key:b c value:'',
     ''>> player:4 key: value:z'', ''player:99999999999 key:a value:b'', ''player:5 key:a value:v value:w'', ''more'']"

lemma fiveInputs_matches:
  "searchInput ''player:1 key:a value:x'' = Some (''1'', ''a'', ''x'')"
  "searchInput '''' = None" "searchInput ''hello'' = None" "searchInput ''more'' = None"
  "searchInput ''player:2 key:a value:y'' = Some (''2'', ''a'', ''y'')"
  "searchInput ''player:3 key:b c value:'' = Some (''3'', ''b c'', '''')"
  "searchInput ''>> player:4 key: value:z'' = Some (''4'', '''', ''z'')"
  "searchInput ''player:99999999999 key:a value:b'' = Some (''99999999999'', ''a'', ''b'')"
  "searchInput ''player:5 key:a value:v value:w'' = Some (''5'', ''a value:v'', ''w'')"
  by code_simp+

lemma fiveInputs_players:
  "stoi ''1'' = Inr 1" "stoi ''2'' = Inr 2" "stoi ''3'' = Inr 3" "stoi ''4'' = Inr 4" "stoi ''5'' = Inr 5"
  "stoi ''99999999999'' = Inl (OutOfRange None)"
  by (simp_all add: stoi_def isSpace_def isDigit_def readDigits_def digitValue_def isInt_def INT_MAX_def INT_MIN_def)

lemma fiveInputs_good: "map goodInput fiveInputs = [True, False, False, True, True, True, False, True, False]"
  unfolding fiveInputs_def goodInput_def list.map fiveInputs_matches by (simp add: fiveInputs_players)

lemma length_fiveInputs: "length fiveInputs = 9"
  by (simp add: fiveInputs_def)

theorem event_loop_ends_witness:
  "\<exists>s used. eventLoop 27 10 False (newLoop fiveInputs) = (Inr 0, s) \<and> taskQ s = [] \<and>
    popLines (printed s) = map popLine newTasks \<and> fiveInputs = used @ inputLines s \<and> length (filter goodInput used) = 5 \<and>
    goodInput (last used)"
proof -
  have "length (filter goodInput fiveInputs) = length (filter id (map goodInput fiveInputs))"
    by (simp add: filter_map comp_def)
  also have "\<dots> = 5" by (simp add: fiveInputs_good)
  finally show ?thesis
    using event_loop_ends [of fiveInputs False] by (simp add: length_fiveInputs)
qed

text \<open>
  With fewer than five good lines it never ends, however long it runs: at the end of the input it goes on asking.
\<close>

theorem event_loop_asks_forever:
  assumes "length (filter goodInput ls) < 5"
  shows "fst (eventLoop n m debug (newLoop ls)) = Inl OutOfFuel"
proof (rule ccontr)
  assume "fst (eventLoop n m debug (newLoop ls)) \<noteq> Inl OutOfFuel"
  then have more: "fst (eventLoop (n + Suc 15) m debug (newLoop ls)) \<noteq> Inl OutOfFuel" by (simp add: eventLoop_more)
  obtain u d where u: "\<forall>n. eventLoop (Suc (15 + n)) m debug (newLoop ls) = eventLoop (Suc n) m debug u" "isInactive u" "taskQ u = [d]"
    "type_of_task d \<noteq> SERVER_MSG_WAIT" "inputCount u = 0" "inputLines u = ls" "popLines (printed u) @ [popLine d] = map popLine newTasks"
    by (rule loop_to_wait [of m debug ls])
  have "n + Suc 15 = Suc (15 + n)" by simp
  then have "eventLoop (n + Suc 15) m debug (newLoop ls) = eventLoop (Suc n) m debug u" using u(1) by (simp only:)
  with more waiting_forever [of u "Suc n" m debug] u assms show False by simp
qed

theorem event_loop_asks_forever_witness: "fst (eventLoop 100 50 True (newLoop [''player:1 key:a value:x''])) = Inl OutOfFuel"
  by (rule event_loop_asks_forever) simp

end
