(* ===== verification/SettingsProps.thy ===== *)
theory SettingsProps
  imports SetupProps
begin

text \<open>
  The whole settings of a game: \<open>configurationParser\<close> builds the configuration that the syntax tree describes
  (\<open>isConfiguration\<close>), and \<open>parse\<close> fills all five maps, each with what its section of the tree says.
\<close>

section \<open>The configuration in the syntax tree\<close>

definition numberText :: "string \<Rightarrow> int \<Rightarrow> bool" where
  "numberText x i \<longleftrightarrow> CHR 0x00 \<notin> set x \<and> stoi x = Inr i"

definition childRange :: "'n tsApi \<Rightarrow> string \<Rightarrow> 'n \<Rightarrow> nat \<Rightarrow> string \<Rightarrow> bool" where
  "childRange api src n j x \<longleftrightarrow> (\<exists>c. getNamedChild api n j = Inr c \<and> getSourceRange api c src = Inr x)"

definition isRange :: "'n tsApi \<Rightarrow> string \<Rightarrow> 'n \<Rightarrow> nat \<Rightarrow> int \<Rightarrow> int \<Rightarrow> bool" where
  "isRange api src n j lo hi \<longleftrightarrow> (\<exists>r x y. getNamedChild api n j = Inr r \<and> childRange api src r 0 x \<and> numberText x lo \<and>
     childRange api src r 1 y \<and> numberText y hi)"

definition rangeLiteral :: "int \<Rightarrow> int \<Rightarrow> literal" where
  "rangeLiteral lo hi = LList [LNum lo, LNum hi]"

text \<open>A setting: its kind and prompt; an integer has a range, and a default when a fourth child gives one.\<close>

inductive isSetup :: "'n tsApi \<Rightarrow> string \<Rightarrow> 'n \<Rightarrow> (string \<times> literal) list \<Rightarrow> bool" for api src where
  setup_other: "fieldRange api src n ''kind'' kind \<Longrightarrow> kind \<noteq> ''integer'' \<Longrightarrow> fieldRange api src n ''prompt'' prompt \<Longrightarrow>
    isSetup api src n [(''kind'', LText kind), (''prompt'', LText prompt)]"
| setup_integer: "fieldRange api src n ''kind'' ''integer'' \<Longrightarrow> fieldRange api src n ''prompt'' prompt \<Longrightarrow>
    isRange api src n 2 lo hi \<Longrightarrow> getNumNamedChildren api n = Inr k \<Longrightarrow> k \<le> 3 \<Longrightarrow>
    isSetup api src n [(''kind'', LText ''integer''), (''prompt'', LText prompt), (''range'', rangeLiteral lo hi)]"
| setup_default: "fieldRange api src n ''kind'' ''integer'' \<Longrightarrow> fieldRange api src n ''prompt'' prompt \<Longrightarrow>
    isRange api src n 2 lo hi \<Longrightarrow> getNumNamedChildren api n = Inr k \<Longrightarrow> 3 < k \<Longrightarrow> childRange api src n 3 x \<Longrightarrow>
    numberText x d \<Longrightarrow>
    isSetup api src n [(''kind'', LText ''integer''), (''prompt'', LText prompt), (''range'', rangeLiteral lo hi),
      (''default_int'', LNum d)]"

inductive setupsIn :: "'n tsApi \<Rightarrow> string \<Rightarrow> 'n \<Rightarrow> nat list \<Rightarrow> (string \<times> literal) list \<Rightarrow> bool" for api src c where
  setups_none: "setupsIn api src c [] []"
| setups_next: "getNamedChild api c i = Inr n \<Longrightarrow> fieldRange api src n ''name'' name \<Longrightarrow> isSetup api src n kvs \<Longrightarrow>
    setupsIn api src c is rest \<Longrightarrow> setupsIn api src c (i # is) ((name, LMap kvs) # rest)"

definition isConfiguration :: "'n tsApi \<Rightarrow> string \<Rightarrow> 'n \<Rightarrow> (string \<times> literal) list \<Rightarrow> bool" where
  "isConfiguration api src root kvs \<longleftrightarrow> (\<exists>c name lo hi b n rest. getChildByFieldName api root ''configuration'' = Inr c \<and>
     childRange api src c 0 name \<and> isRange api src c 1 lo hi \<and> childRange api src c 2 (if b then ''true'' else ''false'') \<and>
     getNumNamedChildren api c = Inr n \<and> setupsIn api src c [3..<n] rest \<and>
     kvs = [(''name'', LText name), (''player_range'', rangeLiteral lo hi), (''audience'', LBool b)] @ rest)"

section \<open>A map under construction\<close>

definition making :: "addr \<Rightarrow> (string \<times> literal) list \<Rightarrow> store \<Rightarrow> bool" where
  "making el kvs t \<longleftrightarrow> (\<exists>m. cells t el = Some (VVarMap m) \<and> mapHolds t (Suc el) m kvs \<and> el < brk t)"

text \<open>What older variables see of a construction: nothing, from its cell on. \<open>agrees\<close> only speaks of what lies below.\<close>

definition unchanged :: "addr \<Rightarrow> store \<Rightarrow> store \<Rightarrow> bool" where
  "unchanged el t u \<longleftrightarrow> (\<forall>s. agrees s t \<and> brk s \<le> el \<longrightarrow> agrees s u)"

lemma unchanged_trans: "unchanged el t u \<Longrightarrow> unchanged el u v \<Longrightarrow> unchanged el t v"
  by (auto simp: unchanged_def)

lemma unchanged_agrees: "agrees t u \<Longrightarrow> unchanged el t u"
  by (auto simp: unchanged_def intro: agrees_trans)

lemma making_agrees: "making el kvs t \<Longrightarrow> agrees t u \<Longrightarrow> making el kvs u"
  unfolding making_def using mapHolds_same [OF _ agrees_from] by (fastforce simp: agrees_def)

lemma newMap_making:
  "\<exists>u. newCell (VVarMap []) s = (Inr (brk s), u) \<and> making (brk s) [] u \<and> agrees s u"
  by (simp add: newCell_def making_def mapHolds_def agrees_def)

lemma putVar_making:
  assumes "making el kvs t" "holds t (Suc el) v l"
  shows "\<exists>u. putVar el k v t = (Inr (), u) \<and> making el (kvs @ [(k, l)]) u \<and> unchanged el t u"
proof -
  define w where "w = t\<lparr>objs := (objs t)(Suc (brk t) \<mapsto> brk t), cells := (cells t)(brk t \<mapsto> v), brk := Suc (Suc (brk t))\<rparr>"
  have w: "makeShared v t = (Inr (Suc (brk t)), w)"
    by (simp add: makeShared_def newCell_def newObj_def andThen_def w_def)
  have tw: "agrees t w" by (auto simp: agrees_def w_def)
  from making_agrees [OF assms(1) tw] obtain m where m: "cells w el = Some (VVarMap m)" "mapHolds w (Suc el) m kvs" "el < brk w"
    by (auto simp: making_def)
  have "el < brk t" using assms(1) by (auto simp: making_def)
  then have "\<exists>u m'. setValueVar el (VString k) (Suc (brk t)) w = (Inr (), u) \<and> cells u el = Some (VVarMap m') \<and>
      mapHolds u (Suc el) m' (kvs @ [(k, l)]) \<and> el < brk u \<and> (\<forall>s. agrees s w \<and> brk s \<le> el \<longrightarrow> agrees s u)"
    by (intro put_literal [OF m, where c = "brk t" and v = v] holds_same(1) [OF assms(2) agrees_from [OF tw]]) (simp_all add: w_def)
  then obtain u m' where u: "setValueVar el (VString k) (Suc (brk t)) w = (Inr (), u)" "cells u el = Some (VVarMap m')"
      "mapHolds u (Suc el) m' (kvs @ [(k, l)])" "el < brk u" "\<forall>s. agrees s w \<and> brk s \<le> el \<longrightarrow> agrees s u" by (elim exE conjE)
  have "unchanged el t u" using u(5) unchanged_agrees [OF tw, of el] by (auto simp: unchanged_def)
  with u(1-4) w show ?thesis by (intro exI [of _ u]) (simp add: putVar_def run_simps making_def)
qed

section \<open>The parser builds the configuration\<close>

lemma parseInt_number:
  assumes "getSourceRange api n src = Inr x" "numberText x i"
  shows "parseInt api n src s = (Inr i, s)"
proof -
  have "takeWhile (\<lambda>c. c \<noteq> CHR 0x00) x = x" using assms(2) by (auto simp: numberText_def takeWhile_eq_all_conv)
  with assms show ?thesis by (simp add: parseInt_def numberText_def run_simps del: takeWhile_eq_all_conv)
qed

lemma push_number:
  assumes "cells t el = Some (VList ps)" "list_all2 (holdsAt t (Suc el)) ps ls" "el < brk t"
  obtains u p where "push_back el (VInt i) t = (Inr (), u)" "cells u el = Some (VList (ps @ [p]))"
    "list_all2 (holdsAt u (Suc el)) (ps @ [p]) (ls @ [LNum i])" "el < brk u" "unchanged el t u"
  using push_literal [OF assms(1,2) holds_number assms(3), of i] unfolding unchanged_def by (elim exE conjE) blast

lemma rangeParser_run:
  assumes "isRange api src n j lo hi"
  shows "\<exists>v u. rangeParser api src n j s = (Inr v, u) \<and> agrees s u \<and> holds u (brk s) v (rangeLiteral lo hi)"
proof -
  from assms obtain r a b x y where r: "getNamedChild api n j = Inr r" "getNamedChild api r 0 = Inr a" "getNamedChild api r 1 = Inr b"
      "getSourceRange api a src = Inr x" "getSourceRange api b src = Inr y" "numberText x lo" "numberText y hi"
    by (auto simp: isRange_def childRange_def)
  define t where "t = s\<lparr>cells := (cells s)(brk s \<mapsto> VList []), brk := Suc (brk s)\<rparr>"
  have t: "newCell (VList []) s = (Inr (brk s), t)" "cells t (brk s) = Some (VList [])" "brk s < brk t" "agrees s t"
    by (simp_all add: newCell_def t_def agrees_def)
  obtain u p where u: "push_back (brk s) (VInt lo) t = (Inr (), u)" "cells u (brk s) = Some (VList ([] @ [p]))"
      "list_all2 (holdsAt u (Suc (brk s))) ([] @ [p]) ([] @ [LNum lo])" "brk s < brk u" "unchanged (brk s) t u"
    using push_number [OF t(2) list_all2_Nil [THEN iffD2] t(3), of "[]" lo] by auto
  obtain w q where w: "push_back (brk s) (VInt hi) u = (Inr (), w)" "cells w (brk s) = Some (VList (([] @ [p]) @ [q]))"
      "list_all2 (holdsAt w (Suc (brk s))) (([] @ [p]) @ [q]) (([] @ [LNum lo]) @ [LNum hi])" "brk s < brk w" "unchanged (brk s) u w"
    using push_number [OF u(2,3,4), of hi] by blast
  have "agrees s w" using t(4) u(5) w(5) by (auto simp: unchanged_def)
  moreover have "list_all2 (holdsAt w (brk s)) [p, q] [LNum lo, LNum hi]"
    using w(3) unfolding append.simps by (rule list_all2_mono) (rule holds_lower(2), assumption, simp)
  then have "holds w (brk s) (VList [p, q]) (rangeLiteral lo hi)" unfolding rangeLiteral_def by (rule holds_list)
  ultimately show ?thesis
    using t(1) u(1) w(1,2) r by (intro exI [of _ "VList [p, q]"] exI [of _ w])
      (simp add: rangeParser_def run_simps parseInt_number takeList_def readCell_def del: newCell_run)
qed

lemma putRange_making:
  assumes "making el kvs t" "isRange api src n j lo hi"
  obtains v w u where "rangeParser api src n j t = (Inr v, w)" "putVar el k v w = (Inr (), u)"
    "making el (kvs @ [(k, rangeLiteral lo hi)]) u" "unchanged el t u"
proof -
  obtain v w where w: "rangeParser api src n j t = (Inr v, w)" "agrees t w" "holds w (brk t) v (rangeLiteral lo hi)"
    using rangeParser_run [OF assms(2), of t] by blast
  have "Suc el \<le> brk t" using assms(1) by (auto simp: making_def)
  with w(3) have "holds w (Suc el) v (rangeLiteral lo hi)" by (rule holds_lower(1))
  from putVar_making [OF making_agrees [OF assms(1) w(2)] this, of k] unchanged_agrees [OF w(2), of el] w(1) that
  show ?thesis by (meson unchanged_trans)
qed

lemmas put_text = putVar_making [OF _ holds_text]
lemmas put_number = putVar_making [OF _ holds_number]
lemmas put_truth = putVar_making [OF _ holds_truth]

lemma mapHolds_lower: "mapHolds s lo m kvs \<Longrightarrow> lo' \<le> lo \<Longrightarrow> mapHolds s lo' m kvs"
  unfolding mapHolds_def by (blast intro: option.rel_mono_strong holds_lower(2))

text \<open>A finished map becomes an entry of the map around it.\<close>

lemma nested_map:
  assumes "making el kvs t" "agrees t w" "making (brk t) entries w"
  obtains m u where "takeVarMap (brk t) w = (Inr m, w)" "putVar el k (VVarMap m) w = (Inr (), u)"
    "making el (kvs @ [(k, LMap entries)]) u" "unchanged el t u"
proof -
  obtain m where m: "cells w (brk t) = Some (VVarMap m)" "mapHolds w (Suc (brk t)) m entries"
    using assms(3) by (auto simp: making_def)
  have "mapHolds w (Suc el) m entries"
    using assms(1) by (intro mapHolds_lower [OF m(2)]) (auto simp: making_def)
  then have "holds w (Suc el) (VVarMap m) (LMap entries)" by (intro holds_map) (simp_all add: mapHolds_def)
  from putVar_making [OF making_agrees [OF assms(1,2)] this, of k] unchanged_agrees [OF assms(2), of el] m(1) that
  show ?thesis by (auto simp: takeVarMap_def readCell_def run_simps intro: unchanged_trans)
qed
text \<open>Reading the fields of a setting.\<close>

lemma fieldText_run: "fieldRange api src n f x \<Longrightarrow> fieldText api src n f s = (Inr x, s)"
  by (auto simp: fieldText_def fieldRange_def run_simps)

text \<open>The entries of a setting, in the map that \<open>m\<close> is a fresh cell for.\<close>

definition setupEntries :: "'n tsApi \<Rightarrow> string \<Rightarrow> 'n \<Rightarrow> addr \<Rightarrow> (store, unit) prog" where
  "setupEntries api src n m =
     andThen (fieldText api src n ''kind'') (\<lambda>kind.
     andThen (putVar m ''kind'' (VString kind)) (\<lambda>_.
     andThen (fieldText api src n ''prompt'') (\<lambda>prompt.
     andThen (putVar m ''prompt'' (VString prompt)) (\<lambda>_.
       if kind = ''integer'' then
          andThen (rangeParser api src n 2) (\<lambda>r.
          andThen (putVar m ''range'' r) (\<lambda>_.
          andThen (numOf api n) (\<lambda>k.
            if 3 < k then
              andThen (childOf api n 3) (\<lambda>d. andThen (parseInt api d src) (\<lambda>i.
                putVar m ''default_int'' (VInt i)))
            else ok ())))
        else ok ()))))"

lemma setupParser_entries:
  "setupParser api src n m = andThen (fieldText api src n ''name'') (\<lambda>name. andThen (newCell (VVarMap [])) (\<lambda>m2.
     andThen (setupEntries api src n m2) (\<lambda>_. andThen (takeVarMap m2) (\<lambda>entries. putVar m name (VVarMap entries)))))"
  unfolding setupParser_def setupEntries_def andThen_assoc ..

lemma setupEntries_run:
  assumes "isSetup api src n entries" "making el [] t"
  shows "\<exists>u. setupEntries api src n el t = (Inr (), u) \<and> making el entries u \<and> unchanged el t u"
proof -
  obtain kind prompt where f: "fieldRange api src n ''kind'' kind" "fieldRange api src n ''prompt'' prompt"
    using assms(1) by (cases rule: isSetup.cases) auto
  let ?two = "[(''kind'', LText kind), (''prompt'', LText prompt)]"
  obtain v where v: "putVar el ''kind'' (VString kind) t = (Inr (), v)" "making el ([] @ [(''kind'', LText kind)]) v" "unchanged el t v"
    using put_text [OF assms(2)] by blast
  obtain w where w: "putVar el ''prompt'' (VString prompt) v = (Inr (), w)" "making el ?two w" "unchanged el v w"
    using put_text [OF v(2), of "''prompt''" prompt] by auto
  note start = fieldText_run [OF f(1)] fieldText_run [OF f(2)] v(1) w(1)
  have tw: "unchanged el t w" by (rule unchanged_trans [OF v(3) w(3)])
  have same: "kind' = kind" if "fieldRange api src n ''kind'' kind'" for kind' using f(1) that by (auto simp: fieldRange_def)
  have prompt: "prompt' = prompt" if "fieldRange api src n ''prompt'' prompt'" for prompt'
    using f(2) that by (auto simp: fieldRange_def)
  from assms(1) show ?thesis
  proof (cases rule: isSetup.cases)
    case (setup_other k p)
    then show ?thesis using same prompt start w(2) tw by (auto simp: setupEntries_def run_simps)
  next
    case (setup_integer p lo hi k)
    obtain x y u where u: "rangeParser api src n 2 w = (Inr x, y)" "putVar el ''range'' x y = (Inr (), u)"
        "making el (?two @ [(''range'', rangeLiteral lo hi)]) u" "unchanged el w u"
      using putRange_making [OF w(2) setup_integer(4)] by blast
    show ?thesis using setup_integer same [of "''integer''"] prompt start u unchanged_trans [OF tw u(4)]
      by (auto simp: setupEntries_def run_simps)
  next
    case (setup_default p lo hi k z d)
    obtain x y u where u: "rangeParser api src n 2 w = (Inr x, y)" "putVar el ''range'' x y = (Inr (), u)"
        "making el (?two @ [(''range'', rangeLiteral lo hi)]) u" "unchanged el w u"
      using putRange_making [OF w(2) setup_default(4)] by blast
    obtain u' where u': "putVar el ''default_int'' (VInt d) u = (Inr (), u')"
        "making el ((?two @ [(''range'', rangeLiteral lo hi)]) @ [(''default_int'', LNum d)]) u'" "unchanged el u u'"
      using put_number [OF u(3)] by blast
    obtain c where c: "getNamedChild api n 3 = Inr c" "getSourceRange api c src = Inr z"
      using setup_default(7) by (auto simp: childRange_def)
    show ?thesis using setup_default same [of "''integer''"] prompt start u(1,2) u' c unchanged_trans [OF unchanged_trans [OF tw u(4)] u'(3)]
      by (auto simp: setupEntries_def run_simps parseInt_number)
  qed
qed

lemma setupParser_run:
  assumes "fieldRange api src n ''name'' name" "isSetup api src n entries" "making el kvs t"
  shows "\<exists>u. setupParser api src n el t = (Inr (), u) \<and> making el (kvs @ [(name, LMap entries)]) u \<and> unchanged el t u"
proof -
  obtain v where v: "newCell (VVarMap []) t = (Inr (brk t), v)" "making (brk t) [] v" "agrees t v"
    using newMap_making by blast
  obtain w where w: "setupEntries api src n (brk t) v = (Inr (), w)" "making (brk t) entries w" "unchanged (brk t) v w"
    using setupEntries_run [OF assms(2) v(2)] by blast
  have "agrees t w" using w(3) v(3) by (simp add: unchanged_def)
  from nested_map [OF assms(3) this w(2)]
  obtain m u where "takeVarMap (brk t) w = (Inr m, w)" "putVar el name (VVarMap m) w = (Inr (), u)"
      "making el (kvs @ [(name, LMap entries)]) u" "unchanged el t u" .
  with v(1) w(1) fieldText_run [OF assms(1)] show ?thesis by (simp add: setupParser_entries run_simps del: newCell_run)
qed

lemma setupLoop_run:
  "setupsIn api src c is rest \<Longrightarrow> making el kvs t \<Longrightarrow>
    \<exists>u. setupLoop api src c el is t = (Inr (), u) \<and> making el (kvs @ rest) u \<and> unchanged el t u"
proof (induction arbitrary: kvs t rule: setupsIn.induct)
  case setups_none
  then show ?case by (simp add: run_simps unchanged_def)
next
  case (setups_next i n name entries "is" rest)
  obtain u where u: "setupParser api src n el t = (Inr (), u)" "making el (kvs @ [(name, LMap entries)]) u" "unchanged el t u"
    using setupParser_run [OF setups_next(2,3,6)] by blast
  from setups_next(5) [OF u(2)] setups_next(1) u(1) show ?case
    by (auto simp: run_simps intro: unchanged_trans [OF u(3)])
qed

lemma configurationMap_run:
  assumes "isConfiguration api src root kvs"
  shows "\<exists>m u. configurationMap api src root s = (Inr m, u) \<and> agrees s u \<and> mapHolds u (brk s) m kvs"
proof -
  from assms obtain c name lo hi b n rest where c: "getChildByFieldName api root ''configuration'' = Inr c"
      "childRange api src c 0 name" "isRange api src c 1 lo hi" "childRange api src c 2 (if b then ''true'' else ''false'')"
      "getNumNamedChildren api c = Inr n" "setupsIn api src c [3..<n] rest"
      "kvs = [(''name'', LText name), (''player_range'', rangeLiteral lo hi), (''audience'', LBool b)] @ rest"
    unfolding isConfiguration_def by blast
  obtain t where t: "newCell (VVarMap []) s = (Inr (brk s), t)" "making (brk s) [] t" "agrees s t"
    using newMap_making by blast
  obtain v where v: "putVar (brk s) ''name'' (VString name) t = (Inr (), v)" "making (brk s) ([] @ [(''name'', LText name)]) v"
      "unchanged (brk s) t v" using put_text [OF t(2)] by blast
  obtain x y w where w: "rangeParser api src c 1 v = (Inr x, y)" "putVar (brk s) ''player_range'' x y = (Inr (), w)"
      "making (brk s) (([] @ [(''name'', LText name)]) @ [(''player_range'', rangeLiteral lo hi)]) w" "unchanged (brk s) v w"
    using putRange_making [OF v(2) c(3)] by blast
  obtain z where z: "putVar (brk s) ''audience'' (VBool b) w = (Inr (), z)" "unchanged (brk s) w z"
      "making (brk s) ((([] @ [(''name'', LText name)]) @ [(''player_range'', rangeLiteral lo hi)]) @ [(''audience'', LBool b)]) z"
    using put_truth [OF w(3)] by blast
  obtain u where u: "setupLoop api src c (brk s) [3..<n] z = (Inr (), u)" "unchanged (brk s) z u" "making (brk s) kvs u"
    using setupLoop_run [OF c(6) z(3)] c(7) by auto
  obtain m where m: "cells u (brk s) = Some (VVarMap m)" "mapHolds u (Suc (brk s)) m kvs" using u(3) by (auto simp: making_def)
  obtain d e where d: "getNamedChild api c 0 = Inr d" "getSourceRange api d src = Inr name" "getNamedChild api c 2 = Inr e"
      "getSourceRange api e src = Inr (if b then ''true'' else ''false'')" using c(2,4) by (auto simp: childRange_def)
  have truth: "parseBool api e src q = (Inr b, q)" for q using d(4) by (simp add: parseBool_def run_simps)
  have "unchanged (brk s) t u" using v(3) w(4) z(2) u(2) by (blast intro: unchanged_trans)
  then have "agrees s u" using t(3) by (simp add: unchanged_def)
  moreover have "configurationMap api src root s = (Inr m, u)"
    using t(1) v(1) w(1,2) z(1) u(1) m(1) d(1-3) truth c(1,5)
    by (simp add: configurationMap_def run_simps takeVarMap_def readCell_def del: newCell_run)
  ultimately show ?thesis using mapHolds_lower [OF m(2)] by auto
qed

section \<open>The whole settings\<close>

definition isSection :: "'n tsApi \<Rightarrow> string \<Rightarrow> 'n \<Rightarrow> string \<Rightarrow> (string \<times> literal) list \<Rightarrow> bool" where
  "isSection api src root f kvs \<longleftrightarrow> (\<exists>n. getChildByFieldName api root f = Inr n \<and> isLiteral api src n (LMap kvs))"

text \<open>What the text of a game says, section by section.\<close>

record gameText =
  configured :: "(string \<times> literal) list"
  constantsText :: "(string \<times> literal) list"
  variablesText :: "(string \<times> literal) list"
  perPlayerText :: "(string \<times> literal) list"
  perAudienceText :: "(string \<times> literal) list"

definition isGame :: "'n tsApi \<Rightarrow> string \<Rightarrow> 'n \<Rightarrow> gameText \<Rightarrow> bool" where
  "isGame api src root g \<longleftrightarrow> isConfiguration api src root (configured g) \<and>
     isSection api src root ''constants'' (constantsText g) \<and> isSection api src root ''variables'' (variablesText g) \<and>
     isSection api src root ''per_player'' (perPlayerText g) \<and> isSection api src root ''per_audience'' (perAudienceText g)"

definition settingsHold :: "store \<Rightarrow> addr \<Rightarrow> GameSettings \<Rightarrow> gameText \<Rightarrow> bool" where
  "settingsHold s lo st g \<longleftrightarrow> mapHolds s lo (setupSettings st) (configured g) \<and>
     mapHolds s lo (constants st) (constantsText g) \<and> mapHolds s lo (gameVariables st) (variablesText g) \<and>
     mapHolds s lo (perPlayerVariables st) (perPlayerText g) \<and> mapHolds s lo (perAudienceVariables st) (perAudienceText g)"

definition sectionBy :: "'n tsApi \<Rightarrow> string \<Rightarrow> 'n \<Rightarrow> string \<Rightarrow> (string \<times> literal) list \<Rightarrow> nat \<Rightarrow> bool" where
  "sectionBy api src root f kvs m \<longleftrightarrow> (\<forall>st. \<exists>mp s. sectionMap m api src root f st = (Inr mp, st\<lparr>setupMem := s\<rparr>) \<and>
     agrees (setupMem st) s \<and> mapHolds s (brk (setupMem st)) mp kvs)"

lemma section_enough:
  assumes "isSection api src root f kvs"
  shows "\<exists>k. \<forall>m > k. sectionBy api src root f kvs m"
proof -
  obtain n where n: "getChildByFieldName api root f = Inr n" "isLiteral api src n (LMap kvs)"
    using assms by (auto simp: isSection_def)
  then obtain c j where c: "getNamedChild api n 0 = Inr c" "getNumNamedChildren api c = Inr j" "pairsIn api src c [0..<j] kvs"
    by (auto simp: literalNode_def elim: isLiteral.cases)
  obtain k where k: "\<forall>m \<ge> k. pairsBy api src c [0..<j] kvs m"
    using literals_enough(3) [OF c(3)] by (auto simp: enough_def)
  have "sectionBy api src root f kvs m" if m: "k < m" for m
    unfolding sectionBy_def
  proof
    fix st :: setupState
    obtain mp t where "valueMapParser (recursiveExpressionParser m api src) api src n (setupMem st) = (Inr mp, t)"
        "agrees (setupMem st) t" "mapHolds t (brk (setupMem st)) mp kvs"
      using valueMap_run [OF c(1,2) k [rule_format, OF less_imp_le [OF m]], of "setupMem st"] by blast
    then show "\<exists>mp s. sectionMap m api src root f st = (Inr mp, st\<lparr>setupMem := s\<rparr>) \<and>
        agrees (setupMem st) s \<and> mapHolds s (brk (setupMem st)) mp kvs"
      using n(1) by (intro exI [of _ mp] exI [of _ t]) (simp add: sectionMap_def onMem_def run_simps)
  qed
  then show ?thesis by blast
qed

lemma mapHolds_kept: "mapHolds s a m kvs \<Longrightarrow> agrees s t \<Longrightarrow> lo \<le> a \<Longrightarrow> mapHolds t lo m kvs"
  by (rule mapHolds_lower [OF mapHolds_same [OF _ agrees_from]])

lemma agrees_bound: "agrees s t \<Longrightarrow> brk s \<le> brk t"
  by (simp add: agrees_def)

lemma sectionD:
  assumes "sectionBy api src root f kvs m"
  obtains mp s where "sectionMap m api src root f st = (Inr mp, st\<lparr>setupMem := s\<rparr>)" "agrees (setupMem st) s"
    "mapHolds s (brk (setupMem st)) mp kvs"
  using assms unfolding sectionBy_def by blast

lemma parseSettings_run:
  assumes "isConfiguration api src root (configured g)"
    "sectionBy api src root ''constants'' (constantsText g) m" "sectionBy api src root ''variables'' (variablesText g) m"
    "sectionBy api src root ''per_player'' (perPlayerText g) m" "sectionBy api src root ''per_audience'' (perAudienceText g) m"
  shows "\<exists>st'. parseSettings m api src root st = (Inr (), st') \<and> agrees (setupMem st) (setupMem st') \<and>
    settingsHold (setupMem st') (brk (setupMem st)) (gameSettings st') g"
proof -
  obtain a s0 where a: "configurationMap api src root (setupMem st) = (Inr a, s0)" "agrees (setupMem st) s0"
      "mapHolds s0 (brk (setupMem st)) a (configured g)" using configurationMap_run [OF assms(1)] by blast
  define st1 where "st1 = st\<lparr>setupMem := s0, gameSettings := (gameSettings st)\<lparr>setupSettings := a\<rparr>\<rparr>"
  obtain b s1 where b: "sectionMap m api src root ''constants'' st1 = (Inr b, st1\<lparr>setupMem := s1\<rparr>)" "agrees s0 s1"
      "mapHolds s1 (brk s0) b (constantsText g)" by (rule sectionD [OF assms(2), of st1]) (simp add: st1_def)
  define st2 where "st2 = st\<lparr>setupMem := s1, gameSettings := (gameSettings st)\<lparr>setupSettings := a, constants := b\<rparr>\<rparr>"
  obtain c s2 where c: "sectionMap m api src root ''variables'' st2 = (Inr c, st2\<lparr>setupMem := s2\<rparr>)" "agrees s1 s2"
      "mapHolds s2 (brk s1) c (variablesText g)" by (rule sectionD [OF assms(3), of st2]) (simp add: st2_def)
  define st3 where "st3 = st\<lparr>setupMem := s2, gameSettings := (gameSettings st)\<lparr>setupSettings := a, constants := b, gameVariables := c\<rparr>\<rparr>"
  obtain d s3 where d: "sectionMap m api src root ''per_player'' st3 = (Inr d, st3\<lparr>setupMem := s3\<rparr>)" "agrees s2 s3"
      "mapHolds s3 (brk s2) d (perPlayerText g)" by (rule sectionD [OF assms(4), of st3]) (simp add: st3_def)
  define st4 where "st4 = st\<lparr>setupMem := s3, gameSettings := (gameSettings st)\<lparr>setupSettings := a, constants := b, gameVariables := c,
    perPlayerVariables := d\<rparr>\<rparr>"
  obtain e s4 where e: "sectionMap m api src root ''per_audience'' st4 = (Inr e, st4\<lparr>setupMem := s4\<rparr>)" "agrees s3 s4"
      "mapHolds s4 (brk s3) e (perAudienceText g)" by (rule sectionD [OF assms(5), of st4]) (simp add: st4_def)
  define st5 where "st5 = st\<lparr>setupMem := s4, gameSettings := (gameSettings st)\<lparr>setupSettings := a, constants := b, gameVariables := c,
    perPlayerVariables := d, perAudienceVariables := e\<rparr>\<rparr>"
  have run: "configurationParser api src root st = (Inr (), st1)" "constantsParser m api src root st1 = (Inr (), st2)"
    "variablesParser m api src root st2 = (Inr (), st3)" "perPlayerParser m api src root st3 = (Inr (), st4)"
    "perAudienceParser m api src root st4 = (Inr (), st5)"
    using a(1) b(1) c(1) d(1) e(1)
    by (simp_all add: configurationParser_def constantsParser_def variablesParser_def perPlayerParser_def
        perAudienceParser_def onMem_def setSettings_def run_simps st1_def st2_def st3_def st4_def st5_def)
  have later: "agrees s3 s4" "agrees s2 s4" "agrees s1 s4" "agrees s0 s4" "agrees (setupMem st) s4"
    using a(2) b(2) c(2) d(2) e(2) by (blast intro: agrees_trans)+
  have low: "brk (setupMem st) \<le> brk s0" "brk (setupMem st) \<le> brk s1" "brk (setupMem st) \<le> brk s2" "brk (setupMem st) \<le> brk s3"
    using a(2) b(2) c(2) d(2) by (blast intro: agrees_bound agrees_trans)+
  have "settingsHold s4 (brk (setupMem st)) (gameSettings st5) g"
    unfolding settingsHold_def st5_def
    using mapHolds_kept [OF a(3) later(4) order_refl] mapHolds_kept [OF b(3) later(3) low(1)] mapHolds_kept [OF c(3) later(2) low(2)]
      mapHolds_kept [OF d(3) later(1) low(3)] mapHolds_kept [OF e(3) agrees_refl low(4)] by simp
  with run later(5) show ?thesis by (intro exI [of _ st5]) (simp add: parseSettings_def run_simps st5_def)
qed

lemma settings_enough:
  assumes "isGame api src root g"
  shows "\<exists>k. \<forall>m > k. \<forall>st. \<exists>st'. parseSettings m api src root st = (Inr (), st') \<and>
    agrees (setupMem st) (setupMem st') \<and> settingsHold (setupMem st') (brk (setupMem st)) (gameSettings st') g"
proof -
  from assms obtain i j k l where s: "\<forall>m > i. sectionBy api src root ''constants'' (constantsText g) m"
      "\<forall>m > j. sectionBy api src root ''variables'' (variablesText g) m"
      "\<forall>m > k. sectionBy api src root ''per_player'' (perPlayerText g) m"
      "\<forall>m > l. sectionBy api src root ''per_audience'' (perAudienceText g) m"
    unfolding isGame_def by (blast dest: section_enough)
  have "isConfiguration api src root (configured g)" using assms by (simp add: isGame_def)
  from parseSettings_run [OF this] s show ?thesis by (intro exI [of _ "max (max i j) (max k l)"]) simp
qed

text \<open>
  C26: The settings of a game hold what its text says: on a syntax tree with a configuration and the four sections,
  and with enough fuel, the parser returns and each of the five maps has for each key the value of its last entry:
  the name, the range of players, whether there is an audience and the settings with their kinds, prompts, ranges
  and defaults in the configuration; numbers, texts, lists and maps, nested to any depth, in the sections. Every part
  is a new object, the sections share none with what was there before, and no older variable changes.
\<close>

theorem settings_hold_game:
  assumes "isGame api src root g"
  shows "\<exists>k. \<forall>m > k. \<forall>st. \<exists>st'. parseSettings m api src root st = (Inr (), st') \<and>
    agrees (setupMem st) (setupMem st') \<and> settingsHold (setupMem st') (brk (setupMem st)) (gameSettings st') g"
  by (rule settings_enough [OF assms])

section \<open>A game\<close>

definition numberTree :: "string \<Rightarrow> tsTree" where
  "numberTree x = exprTree (TsNode ''number'' x [])"

definition textTree :: "string \<Rightarrow> tsTree" where
  "textTree x = exprTree (TsNode ''quoted_string'' x [])"

definition listTree :: "tsTree list \<Rightarrow> tsTree" where
  "listTree ts = exprTree (TsNode ''list_literal'' [] [(''elements'', TsNode ''elements'' [] (map (Pair []) ts))])"

definition mapTree :: "(string \<times> tsTree) list \<Rightarrow> tsTree" where
  "mapTree kts = exprTree (TsNode ''value_map'' []
     (map (\<lambda>(k, t). ([], TsNode ''map_entry'' [] [(''key'', nameTree k), (''value'', t)])) kts))"

lemma number_tree: "numberText x i \<Longrightarrow> isLiteral treeApi src (numberTree x) (LNum i)"
  by (rule literal_number [where c = "TsNode ''number'' x []" and x = x])
    (simp_all add: literalNode_def numberTree_def exprTree_def treeApi_def numberText_def)

lemma text_tree: "isLiteral treeApi src (textTree x) (LText x)"
  by (rule literal_text [where c = "TsNode ''quoted_string'' x []"])
    (simp_all add: literalNode_def textTree_def exprTree_def treeApi_def)

lemma upt_Cons_length: "[i..<i + length (x # xs)] = i # [Suc i..<Suc i + length xs]"
  by (simp add: upt_conv_Cons del: upt_Suc)

lemma literals_from:
  "list_all2 (isLiteral treeApi src) ts ls \<Longrightarrow> (\<And>j. j < length ts \<Longrightarrow> getNamedChild treeApi e (i + j) = Inr (ts ! j)) \<Longrightarrow>
    literalsIn treeApi src e [i..<i + length ts] ls"
proof (induction arbitrary: i rule: list_all2_induct)
  case (Cons t ts l ls)
  have "getNamedChild treeApi e i = Inr t" using Cons.prems [of 0] by simp
  moreover have "literalsIn treeApi src e [Suc i..<Suc i + length ts] ls"
    using Cons.prems [of "Suc j" for j] by (intro Cons.IH) simp
  ultimately show ?case unfolding upt_Cons_length by (intro literals_next [OF _ Cons.hyps(1)])
qed (simp add: literals_none)

lemma list_tree:
  assumes "list_all2 (isLiteral treeApi src) ts ls"
  shows "isLiteral treeApi src (listTree ts) (LList ls)"
proof (rule literal_list [where c = "TsNode ''list_literal'' [] [(''elements'', TsNode ''elements'' [] (map (Pair []) ts))]"])
  show "literalsIn treeApi src (TsNode ''elements'' [] (map (Pair []) ts)) [0..<length ts] ls"
    using literals_from [OF assms, of "TsNode ''elements'' [] (map (Pair []) ts)" 0] by (simp add: treeApi_def)
qed (simp_all add: literalNode_def hasField_def listTree_def exprTree_def treeApi_def)

lemma pairs_from:
  "list_all2 (\<lambda>(k, t) (k', l). k' = k \<and> isLiteral treeApi src t l) kts kls \<Longrightarrow>
    (\<And>j. j < length kts \<Longrightarrow> getNamedChild treeApi c (i + j) =
      Inr (TsNode ''map_entry'' [] [(''key'', nameTree (fst (kts ! j))), (''value'', snd (kts ! j))])) \<Longrightarrow>
    pairsIn treeApi src c [i..<i + length kts] kls"
proof (induction arbitrary: i rule: list_all2_induct)
  case (Cons p kts q kls)
  obtain k t l where kt: "p = (k, t)" "q = (k, l)" "isLiteral treeApi src t l"
    using Cons.hyps(1) by (auto split: prod.splits)
  have n: "getNamedChild treeApi c i = Inr (TsNode ''map_entry'' [] [(''key'', nameTree k), (''value'', t)])"
    using Cons.prems [of 0] kt(1) by simp
  have rest: "pairsIn treeApi src c [Suc i..<Suc i + length kts] kls"
    using Cons.prems [of "Suc j" for j] by (intro Cons.IH) simp
  show ?case unfolding upt_Cons_length kt(2)
    by (rule pairs_next [OF n _ _ kt(3) rest]) (simp_all add: fieldRange_def nameTree_def treeApi_def)
qed (simp add: pairs_none)

lemma map_tree:
  assumes "list_all2 (\<lambda>(k, t) (k', l). k' = k \<and> isLiteral treeApi src t l) kts kls"
  shows "isLiteral treeApi src (mapTree kts) (LMap kls)"
proof -
  define c where "c = TsNode ''value_map'' [] (map (\<lambda>(k, t). ([], TsNode ''map_entry'' [] [(''key'', nameTree k), (''value'', t)])) kts)"
  have "pairsIn treeApi src c [0..<length kts] kls"
    using pairs_from [OF assms, of c 0] by (simp add: c_def treeApi_def split: prod.splits)
  then show ?thesis
    by (intro literal_map [where c = c and k = "length kts"])
      (simp_all add: literalNode_def c_def mapTree_def exprTree_def treeApi_def)
qed

text \<open>The settings of \<open>games/rockpaper.json\<close>, with a default for the number of rounds.\<close>

definition weaponTree :: "string \<Rightarrow> string \<Rightarrow> tsTree" where
  "weaponTree name beats = mapTree [(''name'', textTree name), (''beats'', textTree beats)]"

definition weapon :: "string \<Rightarrow> string \<Rightarrow> literal" where
  "weapon name beats = LMap [(''name'', LText name), (''beats'', LText beats)]"

definition rangeTree :: "string \<Rightarrow> string \<Rightarrow> tsTree" where
  "rangeTree x y = TsNode ''range'' [] [([], TsNode ''number'' x []), ([], TsNode ''number'' y [])]"

definition roundsTree :: tsTree where
  "roundsTree = TsNode ''setup'' [] [(''name'', nameTree ''rounds''), (''prompt'', nameTree ''The number of rounds to play''),
     ([], rangeTree ''1'' ''20''), ([], TsNode ''number'' ''3'' []), (''kind'', nameTree ''integer'')]"

definition configTree :: tsTree where
  "configTree = TsNode ''configuration'' [] [([], nameTree ''Rock, Paper, Scissors''), ([], rangeTree ''2'' ''4''),
     ([], TsNode ''boolean'' ''false'' []), ([], roundsTree)]"

definition rockPaperTree :: tsTree where
  "rockPaperTree = TsNode ''game'' [] [(''configuration'', configTree),
     (''constants'', mapTree [(''weapons'', listTree [weaponTree ''Rock'' ''Scissors'', weaponTree ''Paper'' ''Rock'',
        weaponTree ''Scissors'' ''Paper''])]),
     (''variables'', mapTree [(''winners'', listTree [])]),
     (''per_player'', mapTree [(''wins'', numberTree ''0'')]),
     (''per_audience'', mapTree [])]"

definition rockPaper :: gameText where
  "rockPaper = \<lparr>
     configured = [(''name'', LText ''Rock, Paper, Scissors''), (''player_range'', rangeLiteral 2 4), (''audience'', LBool False),
       (''rounds'', LMap [(''kind'', LText ''integer''), (''prompt'', LText ''The number of rounds to play''),
          (''range'', rangeLiteral 1 20), (''default_int'', LNum 3)])],
     constantsText = [(''weapons'', LList [weapon ''Rock'' ''Scissors'', weapon ''Paper'' ''Rock'', weapon ''Scissors'' ''Paper''])],
     variablesText = [(''winners'', LList [])],
     perPlayerText = [(''wins'', LNum 0)],
     perAudienceText = []\<rparr>"

lemma numberText_samples: "numberText ''0'' 0" "numberText ''1'' 1" "numberText ''2'' 2" "numberText ''3'' 3" "numberText ''4'' 4"
  "numberText ''20'' 20"
  by (simp_all add: numberText_def stoi_def isSpace_def isDigit_def readDigits_def digitValue_def isInt_def INT_MAX_def INT_MIN_def)

lemma weapon_tree: "isLiteral treeApi src (weaponTree x y) (weapon x y)"
  unfolding weaponTree_def weapon_def by (rule map_tree) (simp add: text_tree)

lemma range_tree:
  assumes "getNamedChild treeApi n j = Inr (rangeTree x y)" "numberText x lo" "numberText y hi"
  shows "isRange treeApi src n j lo hi"
  unfolding isRange_def by (intro exI conjI, rule assms(1)) (use assms(2,3) in \<open>simp_all add: childRange_def rangeTree_def treeApi_def\<close>)

lemma rounds_setup:
  "isSetup treeApi src roundsTree [(''kind'', LText ''integer''), (''prompt'', LText ''The number of rounds to play''),
     (''range'', rangeLiteral 1 20), (''default_int'', LNum 3)]"
proof (rule setup_default)
  show "isRange treeApi src roundsTree 2 1 20"
    by (rule range_tree [OF _ numberText_samples(2,6)]) (simp add: roundsTree_def treeApi_def)
  show "getNumNamedChildren treeApi roundsTree = Inr 5" by (simp add: roundsTree_def treeApi_def)
  show "numberText ''3'' 3" by (rule numberText_samples)
qed (simp_all add: fieldRange_def childRange_def roundsTree_def nameTree_def treeApi_def)

lemma config_tree: "isConfiguration treeApi src rockPaperTree (configured rockPaper)"
  unfolding isConfiguration_def
proof (intro exI conjI)
  let ?rest = "[(''rounds'', LMap [(''kind'', LText ''integer''), (''prompt'', LText ''The number of rounds to play''),
     (''range'', rangeLiteral 1 20), (''default_int'', LNum 3)])]"
  show "getChildByFieldName treeApi rockPaperTree ''configuration'' = Inr configTree"
    by (simp add: rockPaperTree_def treeApi_def)
  show "childRange treeApi src configTree 0 ''Rock, Paper, Scissors''"
    by (simp add: childRange_def configTree_def nameTree_def treeApi_def)
  show "isRange treeApi src configTree 1 2 4"
    by (rule range_tree [OF _ numberText_samples(3,5)]) (simp add: configTree_def treeApi_def)
  show "childRange treeApi src configTree 2 (if False then ''true'' else ''false'')"
    by (simp add: childRange_def configTree_def treeApi_def)
  show "getNumNamedChildren treeApi configTree = Inr 4" by (simp add: configTree_def treeApi_def)
  have "setupsIn treeApi src configTree [3] ?rest"
    by (rule setups_next [OF _ _ rounds_setup setups_none])
      (simp_all add: configTree_def fieldRange_def roundsTree_def nameTree_def treeApi_def)
  then show "setupsIn treeApi src configTree [3..<4] ?rest" by (simp add: upt_rec)
qed (simp add: rockPaper_def)

lemma rockPaper_game: "isGame treeApi src rockPaperTree rockPaper"
  unfolding isGame_def
proof (intro conjI config_tree)
  have part: "isSection treeApi src rockPaperTree f kls"
    if "getChildByFieldName treeApi rockPaperTree f = Inr (mapTree kts)"
      "list_all2 (\<lambda>(k, t) (k', l). k' = k \<and> isLiteral treeApi src t l) kts kls" for f kts kls
    using that map_tree unfolding isSection_def by blast
  show "isSection treeApi src rockPaperTree ''constants'' (constantsText rockPaper)"
    by (rule part, simp add: rockPaperTree_def treeApi_def) (simp add: rockPaper_def list_tree weapon_tree)
  show "isSection treeApi src rockPaperTree ''variables'' (variablesText rockPaper)"
    by (rule part, simp add: rockPaperTree_def treeApi_def) (simp add: rockPaper_def list_tree)
  show "isSection treeApi src rockPaperTree ''per_player'' (perPlayerText rockPaper)"
    by (rule part, simp add: rockPaperTree_def treeApi_def) (simp add: rockPaper_def number_tree numberText_samples)
  show "isSection treeApi src rockPaperTree ''per_audience'' (perAudienceText rockPaper)"
    by (rule part, simp add: rockPaperTree_def treeApi_def) (simp add: rockPaper_def)
qed

theorem settings_hold_game_witness:
  "\<exists>k. \<forall>m > k. \<forall>st. \<exists>st'. parseSettings m treeApi [] rockPaperTree st = (Inr (), st') \<and>
    agrees (setupMem st) (setupMem st') \<and> settingsHold (setupMem st') (brk (setupMem st)) (gameSettings st') rockPaper"
  by (rule settings_hold_game [OF rockPaper_game])

end
