(* ===== verification/Demo.thy ===== *)
theory Demo
  imports SettingsProps EnvMgrProps
begin

text \<open>
  The demo program (\<open>demo.cpp\<close>): it reads a game, parses its settings and puts the five maps into a new
  environment, over one store. The file and the syntax tree that tree-sitter makes of the text are parameters.
\<close>

section \<open>The program\<close>

record demoState =
  printedText :: string
  demoStore :: store
  demoSettings :: GameSettings
  demoEnv :: EnvironmentManager

definition onSettings :: "(setupState, 'a) prog \<Rightarrow> (demoState, 'a) prog" where
  "onSettings = zoom (\<lambda>d. \<lparr>setupMem = demoStore d, gameSettings = demoSettings d\<rparr>)
     (\<lambda>s d. d\<lparr>demoStore := setupMem s, demoSettings := gameSettings s\<rparr>)"

definition onManager :: "(game, 'a) prog \<Rightarrow> (demoState, 'a) prog" where
  "onManager = zoom (\<lambda>d. \<lparr>mem = demoStore d, env = demoEnv d\<rparr>) (\<lambda>g d. d\<lparr>demoStore := mem g, demoEnv := env g\<rparr>)"

text \<open>The variables the program sets, in its order.\<close>

definition demoVariables :: "GameSettings \<Rightarrow> (string \<times> (string, ptr) smap) list" where
  "demoVariables s = [(''configuration'', setupSettings s), (''constants'', constants s), (''variables'', gameVariables s),
     (''per_player'', perPlayerVariables s), (''per_audience'', perAudienceVariables s)]"

definition setVariables :: "(string \<times> (string, ptr) smap) list \<Rightarrow> (game, unit) prog" where
  "setVariables vs = forEach vs (\<lambda>(name, m). setVariable name (fromValue (VVarMap m)))"

text \<open>The text of the file; that of a file that cannot be opened is empty.\<close>

definition fileText :: "string option \<Rightarrow> string" where
  "fileText content = (case content of None \<Rightarrow> [] | Some x \<Rightarrow> x)"

definition demoMain :: "nat \<Rightarrow> 'n tsApi \<Rightarrow> (string \<Rightarrow> 'n) \<Rightarrow> string option \<Rightarrow> (demoState, int) prog" where
  "demoMain fuel api parseString content =
     (let sourcecode = fileText content; root = parseString sourcecode in
     andThen (modify (\<lambda>d. d\<lparr>printedText := printedText d @ sourcecode\<rparr>)) (\<lambda>_.
     andThen (modify (\<lambda>d. d\<lparr>demoSettings := newGameSettings\<rparr>)) (\<lambda>_.
     andThen (onSettings (parseSettings fuel api sourcecode root)) (\<lambda>_.
     andThen (typeOf api root) (\<lambda>t.
     andThen (if t = ''game'' then ok () else raise AssertFailed) (\<lambda>_.
     andThen (modify (\<lambda>d. d\<lparr>demoEnv := newEnvironment\<rparr>)) (\<lambda>_.
     andThen getState (\<lambda>d.
     andThen (onManager (setVariables (demoVariables (demoSettings d)))) (\<lambda>_.
       ok 0)))))))))"

section \<open>Setting several variables\<close>

text \<open>A pointer to a variable with the value \<open>v\<close>.\<close>

definition readable :: "store \<Rightarrow> ptr \<Rightarrow> varType \<Rightarrow> bool" where
  "readable s p v \<longleftrightarrow> (\<exists>a c. p = Some a \<and> a < brk s \<and> objs s a = Some c \<and> c < brk s \<and> cells s c = Some v)"

lemma readable_getVal: "readable s p v \<Longrightarrow> getVal p s = (Inr v, s)"
  by (auto simp: readable_def run_simps)

lemma readable_agrees: "readable s p v \<Longrightarrow> agrees s t \<Longrightarrow> readable t p v"
  by (auto simp: readable_def agrees_def)

lemma setVariables_run:
  "scopes (env g) \<noteq> [] \<Longrightarrow> distinct (map fst vs) \<Longrightarrow> \<exists>h. setVariables vs g = (Inr (), h) \<and> agrees (mem g) (mem h) \<and>
    (\<forall>y. y \<notin> fst ` set vs \<longrightarrow> getVariable y (env h) = getVariable y (env g)) \<and>
    (\<forall>(n, m) \<in> set vs. readable (mem h) (getVariable n (env h)) (VVarMap m))"
proof (induction vs arbitrary: g)
  case Nil
  then show ?case by (simp add: setVariables_def run_simps agrees_refl)
next
  case (Cons v vs)
  obtain n m where v: "v = (n, m)" by (cases v)
  let ?i = "assignScope n (env g)" and ?p = "Some (Suc (brk (mem g)))"
  define h where "h = \<lparr>mem = (mem g)\<lparr>objs := (objs (mem g))(Suc (brk (mem g)) \<mapsto> brk (mem g)),
         cells := (cells (mem g))(brk (mem g) \<mapsto> VVarMap m), brk := Suc (Suc (brk (mem g)))\<rparr>,
     env = (env g)\<lparr>scopes := (scopes (env g))[?i := scopeSetVariable n ?p (scopes (env g) ! ?i)]\<rparr>\<rparr>"
  have put: "setVariable n (fromValue (VVarMap m)) g = (Inr (), h)"
    unfolding h_def by (rule setVariable_run [OF Cons.prems(1)])
  have scopes: "scopes (env h) \<noteq> []" using Cons.prems(1) by (simp add: h_def)
  have gh: "agrees (mem g) (mem h)" by (auto simp: h_def agrees_def)
  have new: "readable (mem h) (getVariable n (env h)) (VVarMap m)" "\<And>y. y \<noteq> n \<Longrightarrow> getVariable y (env h) = getVariable y (env g)"
    using getVariable_put [OF Cons.prems(1) refl, where p = ?p and name = n] by (simp_all add: h_def readable_def)
  from Cons.IH [OF scopes] Cons.prems(2) obtain u where u: "setVariables vs h = (Inr (), u)" "agrees (mem h) (mem u)"
      "\<forall>y. y \<notin> fst ` set vs \<longrightarrow> getVariable y (env u) = getVariable y (env h)"
      "\<forall>(n, m) \<in> set vs. readable (mem u) (getVariable n (env u)) (VVarMap m)" by auto
  have "readable (mem u) (getVariable n (env u)) (VVarMap m)"
    using readable_agrees [OF new(1) u(2)] u(3) Cons.prems(2) by (simp add: v)
  moreover have "setVariables (v # vs) g = (Inr (), u)"
    using u(1) put by (simp add: setVariables_def v run_simps)
  moreover have "agrees (mem g) (mem u)" by (rule agrees_trans [OF gh u(2)])
  ultimately show ?case using u(3,4) new(2) by (intro exI [of _ u]) (auto simp: v)
qed

section \<open>What the program leaves\<close>

text \<open>The names and what the game's text gives them.\<close>

definition demoTexts :: "gameText \<Rightarrow> (string \<times> (string \<times> literal) list) list" where
  "demoTexts g = [(''configuration'', configured g), (''constants'', constantsText g), (''variables'', variablesText g),
     (''per_player'', perPlayerText g), (''per_audience'', perAudienceText g)]"

lemma demo_maps:
  assumes "settingsHold s lo st g" "\<forall>(n, m) \<in> set (demoVariables st). readable t (f n) (VVarMap m)" "agrees s t"
  shows "\<forall>(n, kvs) \<in> set (demoTexts g). \<exists>m. getVal (f n) t = (Inr (VVarMap m), t) \<and> mapHolds t lo m kvs"
  using assms(1,2) mapHolds_kept [OF _ assms(3) order_refl, of lo]
  by (auto simp: settingsHold_def demoVariables_def demoTexts_def dest!: readable_getVal)

text \<open>
  C27: The demo puts the game into the environment: when the text of the file is a game, then with enough fuel the
  program ends with 0 and has printed the text, and each of the five names reads a map that holds what the text says
  of it; older variables are unchanged.
\<close>

theorem demo_environment_holds_game:
  assumes "isGame api (fileText content) (parseString (fileText content)) g" "tsType api (parseString (fileText content)) = Inr ''game''"
  shows "\<exists>k. \<forall>m > k. \<forall>d. \<exists>d'. demoMain m api parseString content d = (Inr 0, d') \<and>
    printedText d' = printedText d @ fileText content \<and> agrees (demoStore d) (demoStore d') \<and>
    (\<forall>(n, kvs) \<in> set (demoTexts g). \<exists>mp. getVal (getVariable n (demoEnv d')) (demoStore d') = (Inr (VVarMap mp), demoStore d') \<and>
       mapHolds (demoStore d') (brk (demoStore d)) mp kvs)"
proof -
  let ?src = "fileText content" and ?root = "parseString (fileText content)"
  obtain k where k: "\<forall>m > k. \<forall>st. \<exists>st'. parseSettings m api ?src ?root st = (Inr (), st') \<and>
      agrees (setupMem st) (setupMem st') \<and> settingsHold (setupMem st') (brk (setupMem st)) (gameSettings st') g"
    using settings_enough [OF assms(1)] by blast
  show ?thesis
  proof (intro exI [of _ k] allI impI)
    fix m and d :: demoState assume "k < m"
    then obtain st where st: "parseSettings m api ?src ?root \<lparr>setupMem = demoStore d, gameSettings = newGameSettings\<rparr> = (Inr (), st)"
        "agrees (demoStore d) (setupMem st)" "settingsHold (setupMem st) (brk (demoStore d)) (gameSettings st) g"
      using k by fastforce
    have "distinct (map fst (demoVariables (gameSettings st)))" by (simp add: demoVariables_def)
    then obtain h where h: "setVariables (demoVariables (gameSettings st)) \<lparr>mem = setupMem st, env = newEnvironment\<rparr> = (Inr (), h)"
        "agrees (setupMem st) (mem h)"
        "\<forall>(n, m) \<in> set (demoVariables (gameSettings st)). readable (mem h) (getVariable n (env h)) (VVarMap m)"
      using setVariables_run [of "\<lparr>mem = setupMem st, env = newEnvironment\<rparr>" "demoVariables (gameSettings st)"]
      by (auto simp: newEnvironment_def)
    let ?d = "d\<lparr>printedText := printedText d @ ?src, demoStore := mem h, demoSettings := gameSettings st, demoEnv := env h\<rparr>"
    have "demoMain m api parseString content d = (Inr 0, ?d)"
      using st(1) h(1) assms(2) by (simp add: demoMain_def Let_def onSettings_def onManager_def run_simps)
    then show "\<exists>d'. demoMain m api parseString content d = (Inr 0, d') \<and>
        printedText d' = printedText d @ ?src \<and> agrees (demoStore d) (demoStore d') \<and>
        (\<forall>(n, kvs) \<in> set (demoTexts g). \<exists>mp. getVal (getVariable n (demoEnv d')) (demoStore d') = (Inr (VVarMap mp), demoStore d') \<and>
          mapHolds (demoStore d') (brk (demoStore d)) mp kvs)"
      using demo_maps [OF st(3) h(3,2)] agrees_trans [OF st(2) h(2)] by (intro exI [of _ ?d]) simp
  qed
qed

theorem demo_environment_holds_game_witness:
  "\<exists>k. \<forall>m > k. \<forall>d. \<exists>d'. demoMain m treeApi (\<lambda>_. rockPaperTree) (Some ''configuration'') d = (Inr 0, d') \<and>
    printedText d' = printedText d @ ''configuration'' \<and> agrees (demoStore d) (demoStore d') \<and>
    (\<forall>(n, kvs) \<in> set (demoTexts rockPaper). \<exists>mp. getVal (getVariable n (demoEnv d')) (demoStore d') =
       (Inr (VVarMap mp), demoStore d') \<and> mapHolds (demoStore d') (brk (demoStore d)) mp kvs)"
proof -
  have "tsType treeApi rockPaperTree = Inr ''game''" by (simp add: rockPaperTree_def treeApi_def)
  then show ?thesis
    using demo_environment_holds_game [where api = treeApi and parseString = "\<lambda>_. rockPaperTree"
        and content = "Some ''configuration''" and g = rockPaper] rockPaper_game by (simp add: fileText_def)
qed

end
