(* ===== verification/MainProgram.thy ===== *)
theory MainProgram
  imports SettingsProps
begin

text \<open>
  The main program of the rule interpreter (\<open>src/main.cpp\<close>): it reads the files of the directory of games, parses
  the first one and prints its name and its rules. What \<open>printRuleTreeRecursively\<close> prints is stated on the
  grammar's rules (\<open>showRules\<close>): the rules in order, the bodies indented, and where it stops.
\<close>

section \<open>The program\<close>

record RuleInterpreter =
  game :: string
  source :: string

definition getSource :: "RuleInterpreter \<Rightarrow> string" where
  "getSource r = source r"

record mainState =
  stdoutText :: string
  ruleNodes :: ruleHeap

definition onStdout :: "(string, 'a) prog \<Rightarrow> (mainState, 'a) prog" where
  "onStdout = zoom stdoutText (\<lambda>x s. s\<lparr>stdoutText := x\<rparr>)"

definition onNodes :: "(ruleHeap, 'a) prog \<Rightarrow> (mainState, 'a) prog" where
  "onNodes = zoom ruleNodes (\<lambda>h s. s\<lparr>ruleNodes := h\<rparr>)"

text \<open>An entry of the directory: the stem of its name, and its text when it can be read.\<close>

definition readGames :: "(string \<times> string option) list \<Rightarrow> RuleInterpreter list" where
  "readGames entries = map (\<lambda>(stem, content). \<lparr>game = stem, source = (case content of None \<Rightarrow> [] | Some x \<Rightarrow> x)\<rparr>) entries"

text \<open>\<open>games\<close>: what the iterator over the directory gives, an exception when there is no directory.\<close>

definition mainProgram :: "nat \<Rightarrow> 'n tsApi \<Rightarrow> (string \<Rightarrow> 'n) \<Rightarrow> cpp_error + (string \<times> string option) list \<Rightarrow> (mainState, int) prog" where
  "mainProgram fuel api parseString games =
     andThen (fromSum games) (\<lambda>entries. case readGames entries of
       [] \<Rightarrow> raise UB
     | first # _ \<Rightarrow>
         (let src = getSource first; root = parseString src in
         andThen (fieldOf api root ''configuration'') (\<lambda>configuration.
         andThen (fieldOf api root ''rules'') (\<lambda>rules.
         andThen (getChildNodeValue api src ''name'' configuration) (\<lambda>gameName.
         andThen (onStdout (emit (''game name: '' @ gameName @ newline))) (\<lambda>_.
         andThen (onNodes (parseRules fuel fuel api src rules)) (\<lambda>ruleTree.
         andThen getState (\<lambda>s.
         andThen (onStdout (printRuleTreeRecursively fuel (nodes (ruleNodes s)) (getRules ruleTree) 0)) (\<lambda>_.
           ok 0)))))))))"

section \<open>What is printed of rules\<close>

text \<open>A text, and whether the program has run into a null pointer behind it.\<close>

type_synonym shownText = "string \<times> bool"

definition thenShow :: "shownText \<Rightarrow> shownText \<Rightarrow> shownText" where
  "thenShow x y = (if snd x then x else (fst x @ fst y, snd y))"

definition headText :: "int \<Rightarrow> rule \<Rightarrow> string" where
  "headText d r = (case ruleData r of (c, ty, xss) \<Rightarrow>
     blanks (d * 2) @ ''type:'' @ showNat (nodeTypeNumber ty) @ (if c then [] else newline) @
     concat (map (\<lambda>x. x @ newline) (concat xss)))"

lemma ruleBodies_size: "size_list (size_prod (\<lambda>_. 0) (size_list size)) (ruleBodies r) \<le> Suc (size r)"
  by (cases r) auto

function showRules :: "int \<Rightarrow> rule list \<Rightarrow> shownText"
  and showBodies :: "int \<Rightarrow> (string list \<times> rule list) list \<Rightarrow> shownText" where
  "showRules d [] = ([], False)"
| "showRules d (r # rs) = thenShow (headText d r, False) (thenShow (showBodies (d + 1) (ruleBodies r)) (showRules d rs))"
| "showBodies d [] = ([], False)"
| "showBodies d ((g, rs) # es) = thenShow (if rs = [] then ([], True) else showRules d rs) (showBodies d es)"
  by pat_completeness auto
termination
proof (relation "measure (\<lambda>x. case x of Inl (d, rs) \<Rightarrow> Suc (2 * size_list size rs)
    | Inr (d, es) \<Rightarrow> 2 * size_list (size_prod (\<lambda>_. 0) (size_list size)) es)")
  show "(Inr (d + 1, ruleBodies r), Inl (d, r # rs)) \<in> measure (\<lambda>x. case x of Inl (d, rs) \<Rightarrow> Suc (2 * size_list size rs)
    | Inr (d, es) \<Rightarrow> 2 * size_list (size_prod (\<lambda>_. 0) (size_list size)) es)" for d :: int and r rs
    using ruleBodies_size [of r] by simp
qed simp_all

text \<open>Without rules the root itself is a null pointer.\<close>

definition showTree :: "rule list \<Rightarrow> shownText" where
  "showTree rs = (if rs = [] then ([], True) else showRules 0 rs)"

definition outcome :: "shownText \<Rightarrow> string \<Rightarrow> (cpp_error + unit) \<times> string" where
  "outcome x out = (if snd x then Inl UB else Inr (), out @ fst x)"

definition prints :: "(string, unit) prog \<Rightarrow> shownText \<Rightarrow> bool" where
  "prints m x \<longleftrightarrow> (\<forall>out. m out = outcome x out)"

lemma prints_andThen: "prints m x \<Longrightarrow> prints k y \<Longrightarrow> prints (andThen m (\<lambda>_. k)) (thenShow x y)"
  by (simp add: prints_def andThen_def outcome_def thenShow_def)

lemma thenShow_simps: "thenShow (x, False) y = (x @ fst y, snd y)" "thenShow (thenShow a b) c = thenShow a (thenShow b c)"
  by (simp_all add: thenShow_def)

lemma prints_ok: "prints (ok ()) ([], False)"
  by (simp add: prints_def outcome_def run_simps)

lemma prints_emit: "prints (emit x) (x, False)"
  by (simp add: prints_def emit_def outcome_def run_simps)

lemma prints_lines: "prints (forEach xs (\<lambda>x. emit (x @ newline))) (concat (map (\<lambda>x. x @ newline) xs), False)"
proof (induction xs)
  case (Cons x xs)
  from prints_andThen [OF prints_emit [of "x @ newline"] Cons] show ?case by (simp add: thenShow_simps)
qed (simp add: prints_ok)

lemma prints_vector: "prints (printVector xss) (concat (map (\<lambda>x. x @ newline) (concat xss)), False)"
  unfolding printVector_def
proof (induction xss)
  case (Cons xs xss)
  from prints_andThen [OF prints_lines Cons] show ?case by (simp add: thenShow_simps)
qed (simp add: prints_ok)

section \<open>The printer prints it\<close>

definition printsTo :: "ruleMem \<Rightarrow> nodePtr \<Rightarrow> rule list \<Rightarrow> nat \<Rightarrow> bool" where
  "printsTo m p rs fuel \<longleftrightarrow> (\<forall>d. prints (printRuleTreeRecursively fuel m p d) (if rs = [] then ([], True) else showRules d rs))"

definition bodiesPrintTo :: "ruleMem \<Rightarrow> ChildNode list \<Rightarrow> (string list \<times> rule list) list \<Rightarrow> nat \<Rightarrow> bool" where
  "bodiesPrintTo m cs es fuel \<longleftrightarrow> (\<forall>d. prints (forEach cs (\<lambda>c. printRuleTreeRecursively fuel m (child c) d)) (showBodies d es))"

lemma node_prints:
  assumes "m a = Some n" "(control n, nodeType n, data n) = ruleData r" "bodiesPrintTo m (children n) (ruleBodies r) fuel"
    and "nextNode n = None \<longleftrightarrow> rs = []" "rs = [] \<or> printsTo m (nextNode n) rs fuel"
  shows "printsTo m (Some a) (r # rs) (Suc fuel)"
  unfolding printsTo_def
proof
  fix d
  let ?v = "concat (map (\<lambda>x. x @ newline) (concat (data n)))"
  let ?w = "blanks (d * 2) @ ''type:'' @ showNat (nodeTypeNumber (nodeType n)) @ (if control n then [] else newline)"
  let ?next = "if nextNode n = None then ok () else printRuleTreeRecursively fuel m (nextNode n) d"
  have none: "\<not> control n \<Longrightarrow> ruleBodies r = []" using assms(2) by (cases r) auto
  have bodies: "prints (forEach (children n) (\<lambda>c. printRuleTreeRecursively fuel m (child c) (d + 1))) (showBodies (d + 1) (ruleBodies r))"
    using assms(3) by (simp add: bodiesPrintTo_def)
  have rest: "prints ?next (showRules d rs)" using assms(4,5) by (auto simp: printsTo_def prints_ok)
  have head: "headText d r = ?w @ ?v" using assms(2) by (auto simp: headText_def split: prod.splits)
  have "prints (printRuleTreeRecursively (Suc fuel) m (Some a) d) (showRules d (r # rs))"
  proof (cases "control n")
    case True
    have "printRuleTreeRecursively (Suc fuel) m (Some a) d = andThen (andThen (emit ?w) (\<lambda>_. andThen (printVector (data n))
        (\<lambda>_. forEach (children n) (\<lambda>c. printRuleTreeRecursively fuel m (child c) (d + 1))))) (\<lambda>_. ?next)"
      using assms(1) True by (simp add: run_simps isControlFlow_def getBody_def)
    moreover have "showRules d (r # rs) = thenShow (thenShow (?w, False) (thenShow (?v, False) (showBodies (d + 1) (ruleBodies r)))) (showRules d rs)"
      by (simp add: thenShow_def head)
    ultimately show ?thesis by (simp only:) (intro prints_andThen prints_emit prints_vector bodies rest)
  next
    case False
    have "printRuleTreeRecursively (Suc fuel) m (Some a) d = andThen (andThen (emit ?w) (\<lambda>_. printVector (data n))) (\<lambda>_. ?next)"
      using assms(1) False by (simp add: run_simps isControlFlow_def)
    moreover have "showRules d (r # rs) = thenShow (thenShow (?w, False) (?v, False)) (showRules d rs)"
      using none False by (simp add: thenShow_def head)
    ultimately show ?thesis by (simp only:) (intro prints_andThen prints_emit prints_vector rest)
  qed
  then show "prints (printRuleTreeRecursively (Suc fuel) m (Some a) d) (if r # rs = [] then ([], True) else showRules d (r # rs))"
    by simp
qed

lemma linked_none: "linked m p par rs \<Longrightarrow> p = None \<longleftrightarrow> rs = []"
  by (auto elim: linked.cases)

text \<open>Fuel that is enough, whatever the memory: it depends on the rules alone.\<close>

definition rulesFuel :: "rule list \<Rightarrow> nat" where
  "rulesFuel rs = Suc (2 * size_list size rs)"

definition bodiesFuel :: "(string list \<times> rule list) list \<Rightarrow> nat" where
  "bodiesFuel es = 2 * size_list (size_prod (\<lambda>_. 0) (size_list size)) es"

lemma fuel_steps:
  "rulesFuel (r # rs) \<le> Suc k \<Longrightarrow> bodiesFuel (ruleBodies r) \<le> k" "rulesFuel (r # rs) \<le> Suc k \<Longrightarrow> rulesFuel rs \<le> k"
  "bodiesFuel ((g, rs) # es) \<le> k \<Longrightarrow> rulesFuel rs \<le> k" "bodiesFuel ((g, rs) # es) \<le> k \<Longrightarrow> bodiesFuel es \<le> k"
  using ruleBodies_size [of r] by (simp_all add: rulesFuel_def bodiesFuel_def)

lemma linked_prints:
  "linked m p par rs \<Longrightarrow> rulesFuel rs \<le> k \<Longrightarrow> printsTo m p rs k"
  "bodiesLinked m p cs es \<Longrightarrow> bodiesFuel es \<le> k \<Longrightarrow> bodiesPrintTo m cs es k"
proof (induction arbitrary: k and k rule: linked_bodiesLinked.inducts)
  case (linked_end par)
  then show ?case by (cases k) (simp_all add: printsTo_def prints_def outcome_def run_simps rulesFuel_def)
next
  case (linked_node a n r par rs)
  obtain j where j: "k = Suc j" using linked_node.prems by (cases k) (simp_all add: rulesFuel_def)
  have end_iff: "nextNode n = None \<longleftrightarrow> rs = []" by (rule linked_none) (fact linked_node)
  have node: "m a = Some n" "(control n, nodeType n, data n) = ruleData r" "nextNode n = None \<longleftrightarrow> rs = []"
    by (fact linked_node end_iff)+
  have "bodiesPrintTo m (children n) (ruleBodies r) j" "printsTo m (nextNode n) rs j"
    using linked_node fuel_steps(1,2) [of r rs j] by (simp_all add: j)
  then show ?case unfolding j by (intro node_prints [where n = n and m = m and a = a, OF node(1,2) _ node(3)]) simp_all
next
  case (bodies_end par)
  show ?case by (simp add: bodiesPrintTo_def prints_ok)
next
  case (bodies_next c par rs g cs es)
  have "printsTo m (child c) rs k" "bodiesPrintTo m cs es k"
    using bodies_next fuel_steps(3,4) [of g rs es k] by simp_all
  then show ?case by (simp add: bodiesPrintTo_def printsTo_def prints_andThen)
qed

section \<open>What the program prints\<close>

text \<open>
  C3: The main program prints the name of the first game and then its rules: all rules of the body in order, each with
  its number, its data and, indented, its bodies. A game without rules, or a loop or match with an empty body, is
  printed up to there, and then a null pointer is read.
\<close>

theorem main_prints_rules:
  assumes "games = Inr ((stem, Some src) # others)"
    and "getChildByFieldName api (parseString src) ''configuration'' = Inr c" "fieldRange api src c ''name'' name"
    and "getChildByFieldName api (parseString src) ''rules'' = Inr r" "getChildByFieldName api r ''body'' = Inr b"
    and "getNumNamedChildren api b = Inr k" "rulesIn api src b [0..<k] rs"
  shows "\<exists>n. \<forall>m \<ge> n. \<forall>s. \<exists>s'. mainProgram m api parseString games s = (if snd (showTree rs) then Inl UB else Inr 0, s') \<and>
    stdoutText s' = stdoutText s @ ''game name: '' @ name @ newline @ fst (showTree rs)"
proof -
  obtain n where n: "\<forall>m \<ge> n. \<forall>h. \<exists>t h'. parseRules m m api src r h = (Inr t, h') \<and>
     linked (nodes h') (getRules t) None rs \<and> (\<forall>x < nextId h. nodes h' x = nodes h x)"
    using parseRules_linked [OF assms(5-7)] by blast
  obtain y where y: "getChildByFieldName api c ''name'' = Inr y" "getSourceRange api y src = Inr name"
    using assms(3) by (auto simp: fieldRange_def)
  show ?thesis
  proof (intro exI [of _ "max n (rulesFuel rs)"] allI impI)
    fix m and s :: mainState assume m: "max n (rulesFuel rs) \<le> m"
    obtain t h' where t: "parseRules m m api src r (ruleNodes s) = (Inr t, h')" "linked (nodes h') (getRules t) None rs"
      using n m by (meson max.boundedE)
    have "printsTo (nodes h') (getRules t) rs m" using linked_prints(1) [OF t(2)] m by simp
    then have p: "printRuleTreeRecursively m (nodes h') (getRules t) 0 out = outcome (showTree rs) out" for out
      by (simp add: printsTo_def prints_def showTree_def)
    show "\<exists>s'. mainProgram m api parseString games s = (if snd (showTree rs) then Inl UB else Inr 0, s') \<and>
      stdoutText s' = stdoutText s @ ''game name: '' @ name @ newline @ fst (showTree rs)"
      using t(1) p assms(1,2,4) y
      by (simp add: mainProgram_def readGames_def getSource_def Let_def onStdout_def onNodes_def zoom_def andThen_def
          getChildNodeValue_def emit_def outcome_def run_simps)
  qed
qed

text \<open>The rules of the sample, and what is printed of them.\<close>

definition mainTree :: tsTree where
  "mainTree = TsNode ''game'' [] [(''configuration'', TsNode ''configuration'' [] [(''name'', nameTree ''Shuffling'')]), (''rules'', rulesTree)]"

lemma sample_shown:
  "showTree sampleRules = (concat [''type:0'', ''p'', newline, ''players'', newline, ''  type:5'', newline, ''shuffle'', newline,
     ''  type:12'', newline, ''reverse'', newline, ''type:4'', newline, ''discard'', newline], False)"
proof -
  have "showNat 0 = ''0''" "showNat 5 = ''5''" "showNat 12 = ''12''" "showNat 4 = ''4''" by code_simp+
  then show ?thesis
    by (simp add: showTree_def sampleRules_def thenShow_def headText_def nodeTypeNumber_def blanks_def numeral_2_eq_2)
qed

theorem main_prints_rules_witness:
  "\<exists>n. \<forall>m \<ge> n. \<forall>s. \<exists>s'. mainProgram m treeApi (\<lambda>_. mainTree) (Inr [(''shuffling'', Some '''')]) s = (Inr 0, s') \<and>
    stdoutText s' = stdoutText s @ ''game name: '' @ ''Shuffling'' @ newline @ concat [''type:0'', ''p'', newline, ''players'', newline,
      ''  type:5'', newline, ''shuffle'', newline, ''  type:12'', newline, ''reverse'', newline, ''type:4'', newline, ''discard'', newline]"
proof -
  define b where "b = TsNode ''body'' '''' [('''', loopTree), ('''', taskTree ''discard'')]"
  define c where "c = TsNode ''configuration'' [] [(''name'', nameTree ''Shuffling'')]"
  have tree: "getChildByFieldName treeApi mainTree ''configuration'' = Inr c" "fieldRange treeApi '''' c ''name'' ''Shuffling''"
    "getChildByFieldName treeApi mainTree ''rules'' = Inr rulesTree"
    "getChildByFieldName treeApi rulesTree ''body'' = Inr b" "getNumNamedChildren treeApi b = Inr 2"
    by (simp_all add: mainTree_def c_def b_def rulesTree_def fieldRange_def nameTree_def treeApi_def)
  have "rulesIn treeApi '''' b [0..<2] sampleRules"
    using sample_rules [of "''''"] by (simp add: b_def)
  from main_prints_rules [OF refl _ tree(2) _ tree(4,5) this, of "\<lambda>_. mainTree" "''shuffling''" "[]"] tree(1,3)
  show ?thesis by (simp add: sample_shown)
qed

end
