(* ===== verification/Spec2Isabelle.thy ===== *)
theory Spec2Isabelle
  imports JsonDoubles Mocks EvaluatorProps TaskProps GameManager ParserProps AmbassadorProps ServerMain SetupProps ClientProps MockServer EventLoop Demo MainProgram
begin

text \<open>
  The social gaming server: games are written in a rule language, parsed with tree-sitter, and played over web
  sockets; the server process and the event loop process talk JSON over two message queues of the operating
  system. This library models the C++ sources and proves what they promise, and where they break it.

  \<^bold>\<open>How the parts interact.\<close> A game text becomes a syntax tree (tree-sitter, not in the repository). \<open>SetupGameSetting\<close>
  turns its settings into maps of variables and \<open>RuleInterpreter\<close> its rules into a tree of linked rule nodes, the
  expressions as lists of tokens. A \<open>GameInstance\<close> owns an \<open>EnvironmentManager\<close>, whose scopes hold the variables,
  timers and control flow of the running game and which evaluates the tokens; the tasks that the converter makes of
  rule nodes read and change these variables and leave messages for the players. \<open>GameInstanceManager\<close> keeps the
  queue of running games. The game server on the other side accepts players (\<open>Server\<close>), collects their lines and
  exchanges messages with the event loop through the \<open>Ambassador\<close>, which sends them as JSON text.

  \<^bold>\<open>Conventions.\<close> A program (\<open>prog\<close> of \<open>Prelude\<close>) takes a state and returns an error or a value together with the
  state it leaves: a C++ exception does not undo what was written before it. Undefined behaviour is an outcome of its
  own (\<open>UB\<close>), as is reaching a bound of the model (\<open>OutOfFuel\<close>). Machine integers are integers with the wrap-around
  and the limits written out (\<open>toInt\<close>, \<open>toUnsigned\<close>, \<open>toSize\<close>, \<open>isInt\<close> of \<open>Prelude\<close>); \<open>std::map\<close> is a list in key order and \<open>std::unordered_map\<close>
  a function (\<open>StdMap\<close>); \<open>std::to_string\<close> and \<open>std::stoi\<close> are in \<open>CppText\<close>.

  \<^bold>\<open>Theories and sources\<close> (paths under \<open>src/\<close>).

  \<^item> \<open>Prelude\<close>, \<open>CppText\<close>, \<open>StdMap\<close>, \<open>StdQueue\<close>, \<open>ProgramLogic\<close>: outcomes and programs, the standard library the
    sources use, and the contracts shared by the components: \<open>assoc_map\<close> and \<open>assoc_emplace\<close> (both kinds of map),
    \<open>fifo\<close> (the queue of games), \<open>program_logic\<close> (what an operation keeps), \<open>outbox\<close> (the messages of a game).
  \<^item> \<open>Store\<close>, \<open>Variables\<close>: \<open>lib/variables/Variables.hpp\<close>, \<open>Variables.cpp\<close>. Variables share their values through
    pointers, so the store is explicit and a variable is an address. \<open>VariablesLaws\<close>, \<open>VariablesSafe\<close> and
    \<open>VariablesProps\<close>: indices in every region, when comparing and printing return, the invariant \<open>wfStore\<close> kept by
    every sequence of operations and of freeing what nothing refers to (\<open>storeReach\<close>).
  \<^item> \<open>ControlFlow\<close>: \<open>src/controlflow.cpp\<close>. \<open>RuleTree\<close>: \<open>src/include/RuleInterpreter.h\<close>, the shared nodes in a memory.
  \<^item> \<open>EnvMgr\<close>, \<open>Evaluator\<close>: \<open>lib/variables/EnvironmentMgr.hpp\<close>, \<open>EnvironmentMgr.cpp\<close>. \<open>EnvMgrLaws\<close>: the invariant
    \<open>wfEnv\<close> by \<open>program_logic\<close>; \<open>EnvMgrProps\<close>: reachable environments, loops, shadowing, timers and their flags; \<open>EvaluatorProps\<close>: the
    evaluator computes the denotation of an expression (\<open>denote\<close>) on its tokens (\<open>flatten\<close>).
  \<^item> \<open>RuleParser\<close>, \<open>SetupGameSetting\<close>: \<open>src/RuleInterpreter.cpp\<close>, \<open>lib/setupGameSetting\<close>. The syntax tree and its API
    are parameters. \<open>ParserProps\<close>: the parser builds what the grammar \<open>isRule\<close> says; \<open>SetupProps\<close>: the settings hold
    the literals \<open>isLiteral\<close> of the tree; \<open>SettingsProps\<close>: the whole settings hold what the text of the game says (\<open>isGame\<close>),
    the configuration included; \<open>Demo\<close>: \<open>demo.cpp\<close>, which puts them into an environment;
    \<open>MainProgram\<close>: \<open>src/main.cpp\<close>, which prints the rules. Below, in this theory: the tokens the parser makes evaluate to the value of
    the expression that the syntax tree stands for.
  \<^item> \<open>GameInstance\<close>, \<open>GameProps\<close>, \<open>GameManager\<close>: \<open>src/gameinstance.cpp\<close>, \<open>lib/gameInstanceManager\<close>. \<open>Tasks\<close>, \<open>TaskProps\<close>:
    \<open>lib/taskFactory\<close>.
  \<^item> \<open>Server\<close>, \<open>ServerProps\<close>: \<open>lib/networking/src/Server.cpp\<close>. The network (boost asio and beast) is what completes
    pending operations, in any order and with any outcome, so the server is an inductive step relation; \<open>viewOk\<close> and
    \<open>idInv\<close> are its invariants. \<open>Client\<close>, \<open>ClientProps\<close>: the same for \<open>lib/networking/src/Client.cpp\<close>.
  \<^item> \<open>GameServer\<close>: \<open>tools/server/gameserver.cpp\<close> on top of \<open>Server\<close> and \<open>Ambassador\<close>; \<open>ServerMain\<close>: its main program,
    how it ends, and the invariants of the server through whole runs of it.
  \<^item> \<open>Ambassador\<close>, \<open>AmbassadorProps\<close>, \<open>ResponseJson\<close>: \<open>lib/ambassador\<close>. The queue of the operating system is a
    parameter with the law \<open>fifoIpc\<close>. The text form of a message is a parameter (\<open>codec\<close>, law \<open>carries\<close>) up to
    \<open>ResponseJson\<close>, which makes it the code's own: \<open>jsonCodec\<close> carries every valid message, and messages go from one
    process to the other as JSON unchanged.
  \<^item> \<open>MockServer\<close>: \<open>lib/mockServer\<close>, two prototypes that talk through the ambassador: what is typed is sent, and what is
    received is sent back. \<open>EventLoop\<close>: \<open>lib/eventLoop/EventLoop.cpp\<close>, the prototype of the event loop with its own
    stand-ins for games and tasks: it ends after five good lines of input, and otherwise never.
  \<^item> \<open>Json\<close>, \<open>JsonLexer\<close>, \<open>JsonParser\<close>: the serializer, the lexer and the parser of \<open>lib/nlohmann/json.hpp\<close>, which
    the repository carries and the ambassador depends on. \<open>JsonNumbers\<close> and \<open>JsonUtf8\<close>: digits and strings are
    printed right and within their buffers; \<open>JsonDom\<close>, \<open>JsonTotal\<close>: the parser never leaves its invariant and always
    ends; \<open>JsonText\<close>: the compact text of a value; \<open>JsonRead\<close>: the lexer reads its tokens; \<open>JsonRound\<close>: the parser
    reads it back; \<open>JsonTyped\<close>: whatever it is given, what it returns is well typed and can be printed. There the
    floating-point numbers are a parameter (\<open>floats\<close>, and \<open>exactFloat\<close> for those whose text is read back).
  \<^item> \<open>Grisu\<close>: the printing of a \<open>double\<close> (\<open>to_chars\<close> and \<open>dtoa_impl\<close> of \<open>json.hpp\<close>), from its bits to the characters in a
    buffer. \<open>GrisuArith\<close>: the products of the words are rounded products, and the boundaries of a number are the
    midpoints to its neighbours; \<open>GrisuPowers\<close>: the table of powers of ten is accurate and the power that is looked up
    scales into the range; \<open>GrisuDigits\<close>: the digits that are generated lie between the scaled boundaries;
    \<open>GrisuText\<close>: every layout fits, and is the text \<open>layoutText\<close>; \<open>GrisuValue\<close>: the value of this text is nearest to the
    number. \<open>JsonDoubles\<close>: with these texts the parser reads every \<open>double\<close> back, if \<open>strtod\<close> rounds correctly
    (\<open>strtodRounds\<close>, which \<open>readDouble\<close> satisfies).
  \<^item> \<open>Mocks\<close>: \<open>lib/taskFactory/MockClasses.hpp\<close>, the game and the players of the task tests, a second provider of the
    contract \<open>outbox\<close>, and \<open>src/Message.cpp\<close>.

  \<^bold>\<open>Bounds.\<close> Fuel stands only where the code's own recursion or loop has no structural measure in the model:
  evaluating tokens (as many units as there are tokens, \<open>evaluation_returns\<close>), leaving scopes for a timer (as many as
  there are scopes, \<open>updateTimers_jumps\<close>), printing and comparing values (returns on every store without cyclic lists,
  \<open>print_returns\<close>, and never on a list that contains itself, \<open>self_insertion_never_prints\<close>), parsing rules (enough for
  every tree of the grammar, \<open>parser_links_rules\<close>), emptying a queue (more than it holds, \<open>ambassador_delivers\<close>), the
  loops of the prototypes that wait for good input (more than the bad lines, \<open>typed_message\<close>), and the
  loops of the JSON lexer and parser (the length of the text, \<open>parse_total\<close>), and in \<open>Grisu\<close> 64 shifts to normalize a
  word that is not zero, 10 rounds to count a digit down to zero, and 64 fractional digits, of which at most 17 are
  generated (\<open>printed_float_nearest\<close> shows that none of them runs out).

  \<^bold>\<open>Not modelled.\<close> \<open>Ambassador 2.cpp\<close> is a left-over copy outside the build that does not fit \<open>Ambassador.h\<close>: its \<open>read\<close>
  returns another type than the class declares. Of \<open>json.hpp\<close> the operators, iterators, pointers, patches and binary
  formats are not used by the repository, and neither is the printing of \<open>long double\<close>; \<open>strtod\<close> of the C library is a
  parameter. tree-sitter, boost, the message queues of the operating system and the terminal are parameters, too. \<open>Task\<close>
  is an interface without operations of its own. Variables are not reference counted: \<open>set(index, Variable &)\<close> on a list
  makes a second owner that deletes the variable once the entry goes, and the model shows this deletion only for an index out
  of range. The assertions of the JSON lexer, which the states of its scan guarantee, are left out.
\<close>

section \<open>From the syntax tree to the value of an expression\<close>

text \<open>The expressions that a syntax tree stands for, among those the evaluator gives a meaning to.\<close>

inductive isExpr :: "'n tsApi \<Rightarrow> string \<Rightarrow> 'n \<Rightarrow> expr \<Rightarrow> bool" for api src where
  expr_name: "isPlain api n \<Longrightarrow> noField api n ''builtin'' \<Longrightarrow> noField api n ''operand'' \<Longrightarrow> noField api n ''lhs'' \<Longrightarrow>
    getSourceRange api n src = Inr x \<Longrightarrow> isExpr api src n (Name (if x = ''all'' then ''players'' else x))"
| expr_size: "callOf api src n x ''size'' c \<Longrightarrow> getNumNamedChildren api c = Inr 0 \<Longrightarrow> isExpr api src n (Size x)"
| expr_not: "isPlain api n \<Longrightarrow> noField api n ''builtin'' \<Longrightarrow> hasField api n ''operand'' a \<Longrightarrow>
    isExpr api src a e \<Longrightarrow> isExpr api src n (Neg e)"
| expr_equal: "binaryOf api src n CHR ''='' l r \<Longrightarrow> isExpr api src l a \<Longrightarrow> isExpr api src r b \<Longrightarrow> isExpr api src n (Eq a b)"
| expr_add: "binaryOf api src n CHR ''+'' l r \<Longrightarrow> isExpr api src l a \<Longrightarrow> isExpr api src r b \<Longrightarrow> isExpr api src n (Add a b)"
| expr_or: "binaryOf api src n CHR ''|'' l r \<Longrightarrow> isExpr api src l a \<Longrightarrow> isExpr api src r b \<Longrightarrow> isExpr api src n (Or a b)"

lemma isExpr_tokens: "isExpr api src n e \<Longrightarrow> tokensOf api src n (flatten e)"
proof (induction rule: isExpr.induct)
  case (expr_name n x)
  then show ?case using tokens_name [of api n src x] by simp
next
  case (expr_equal n l r a b)
  then show ?case using tokens_binary [OF expr_equal(1), of "flatten a" "flatten b"] by simp
next
  case (expr_add n l r a b)
  then show ?case using tokens_binary [OF expr_add(1), of "flatten a" "flatten b"] by simp
next
  case (expr_or n l r a b)
  then show ?case using tokens_binary [OF expr_or(1), of "flatten a" "flatten b"] by simp
qed (auto intro: tokensOf_tokensIn.intros)

text \<open>
  C4: The rule parser and the evaluator fit together: on a syntax tree that stands for an expression the
  parser returns tokens, and the evaluator turns these tokens, all of them, into the value the expression
  denotes in the game.
\<close>

theorem parsed_expression_evaluates:
  assumes "isExpr api src n e" "\<forall>x \<in> names e. plainName x" "denote pf g sc e = Some v"
  shows "\<exists>k. \<forall>m \<ge> k. \<forall>h::ruleHeap. \<exists>ts. parseExpression m api src n [] h = (Inr ts, h) \<and>
     (\<forall>j \<ge> length ts. evaluationExpression j pf g sc ts = (Inr v, []))"
proof -
  have "evaluationExpression j pf g sc (flatten e) = (Inr v, [])" if "length (flatten e) \<le> j" for j
    using evaluation_denote [OF assms(2) _ assms(3) that, of "[]"] by (simp add: noBuiltinHead_def)
  moreover obtain k where "\<forall>m \<ge> k. tokensBy api src n (flatten e) m"
    using tokensOf_enough [OF isExpr_tokens [OF assms(1)]] by (auto simp: enough_def)
  ultimately show ?thesis unfolding tokensBy_def by blast
qed

definition sizeTree :: tsTree where
  "sizeTree = TsNode ''expression'' ''players.size()''
     [([], nameTree ''players''), (''builtin'', nameTree ''size''), ([], TsNode ''arguments'' ''()'' [])]"

definition sumTree :: tsTree where
  "sumTree = TsNode ''expression'' ''players.size() + players.size()'' [(''lhs'', sizeTree), (''rhs'', sizeTree)]"

lemma sumTree_expr: "isExpr treeApi src sumTree (Add (Size ''players'') (Size ''players''))"
proof -
  have size: "isExpr treeApi src sizeTree (Size ''players'')"
    by (rule expr_size [where c = "TsNode ''arguments'' ''()'' []"])
      (auto simp: parse_shapes sizeTree_def nameTree_def treeApi_def)
  have "binaryOf treeApi src sumTree CHR ''+'' sizeTree sizeTree"
    by (auto simp: parse_shapes sumTree_def sizeTree_def treeApi_def)
  then show ?thesis using size size by (rule expr_add)
qed

theorem parsed_expression_evaluates_witness:
  "\<exists>k. \<forall>m \<ge> k. \<forall>h::ruleHeap. \<exists>ts. parseExpression m treeApi [] sumTree [] h = (Inr ts, h) \<and>
     (\<forall>j \<ge> length ts. evaluationExpression j plainPlatform loopGame playersScope ts = (Inr (VInt 4), []))"
  by (rule parsed_expression_evaluates [OF sumTree_expr])
    (simp_all add: plainName_def operatorMap_def buildtinMap_def players_size toInt_id isInt_def INT_MAX_def INT_MIN_def)

end
